(* ===== verification/Aix_Prelude.thy ===== *)
theory Aix_Prelude
  imports Main "HOL-Library.Word" "HOL-Library.Monad_Syntax"
begin

text \<open>
  Shared vocabulary of the AIXOS model: the fixed-width integers of the C code, the error
  codes and enumerations of \<^verbatim>\<open>include/aixos/types.h\<close>, the configuration constants of
  \<^verbatim>\<open>config/aixos_cfg.h\<close> (default profile, 32-bit Cortex-M3 target, so \<open>size_t\<close> and
  \<open>uintptr_t\<close> are 32 bits wide), the handle encoding, and generic lemmas on bits, bitmaps and
  lists that the components share.
\<close>

unbundle bit_operations_syntax

named_theorems bitmap_simps \<open>rewriting of single bits of free bitmaps\<close>
named_theorems list_op_simps \<open>effects of the intrusive list operations\<close>
named_theorems aix_defs \<open>small helper definitions that proofs unfold freely\<close>

section \<open>Machine integers\<close>

type_synonym u8 = "8 word"
type_synonym u16 = "16 word"
type_synonym u32 = "32 word"
type_synonym u64 = "64 word"

text \<open>\<open>UINT32_MAX\<close>\<close>

abbreviation (input) UINT32_MAX :: u32 where "UINT32_MAX \<equiv> 0xFFFFFFFF"

section \<open>Error codes\<close>

abbreviation (input) AIXOS_OK :: int where "AIXOS_OK \<equiv> 0"
abbreviation (input) AIXOS_ERR :: int where "AIXOS_ERR \<equiv> -1"
abbreviation (input) AIXOS_ERR_TIMEOUT :: int where "AIXOS_ERR_TIMEOUT \<equiv> -2"
abbreviation (input) AIXOS_ERR_BUSY :: int where "AIXOS_ERR_BUSY \<equiv> -3"
abbreviation (input) AIXOS_ERR_INVAL :: int where "AIXOS_ERR_INVAL \<equiv> -4"
abbreviation (input) AIXOS_ERR_NOMEM :: int where "AIXOS_ERR_NOMEM \<equiv> -5"
abbreviation (input) AIXOS_ERR_AGAIN :: int where "AIXOS_ERR_AGAIN \<equiv> -6"
abbreviation (input) AIXOS_ERR_CONTEXT :: int where "AIXOS_ERR_CONTEXT \<equiv> -7"
abbreviation (input) AIXOS_ERR_OVERFLOW :: int where "AIXOS_ERR_OVERFLOW \<equiv> -8"
abbreviation (input) AIXOS_ERR_LOCKED :: int where "AIXOS_ERR_LOCKED \<equiv> -9"
abbreviation (input) AIXOS_ERR_CORRUPT :: int where "AIXOS_ERR_CORRUPT \<equiv> -10"
abbreviation (input) AIXOS_ERR_INTR :: int where "AIXOS_ERR_INTR \<equiv> -11"
abbreviation (input) AIXOS_ERR_PERM :: int where "AIXOS_ERR_PERM \<equiv> -12"
abbreviation (input) AIXOS_ERR_FAULT :: int where "AIXOS_ERR_FAULT \<equiv> -13"
abbreviation (input) AIXOS_ERR_NOSYS :: int where "AIXOS_ERR_NOSYS \<equiv> -14"
abbreviation (input) AIXOS_ERR_NOT_FOUND :: int where "AIXOS_ERR_NOT_FOUND \<equiv> -16"

section \<open>Enumerations\<close>

datatype aixos_obj_type =
    AIXOS_OBJ_UNUSED | AIXOS_OBJ_TASK | AIXOS_OBJ_SEM | AIXOS_OBJ_MUTEX | AIXOS_OBJ_MQ
  | AIXOS_OBJ_EVENT | AIXOS_OBJ_PIPE | AIXOS_OBJ_TIMER | AIXOS_OBJ_CHANNEL
  | AIXOS_OBJ_CONNECTION | AIXOS_OBJ_SIGNAL | AIXOS_OBJ_NAMESPACE

datatype aixos_task_state =
    AIXOS_TASK_READY | AIXOS_TASK_RUNNING | AIXOS_TASK_BLOCKED | AIXOS_TASK_DELAYED
  | AIXOS_TASK_SUSPENDED | AIXOS_TASK_STOP

datatype aixos_domain = AIXOS_DOMAIN_KERNEL | AIXOS_DOMAIN_USER

datatype aixos_trace_event =
    AIXOS_TRACE_NONE | AIXOS_TRACE_TASK_SWITCH | AIXOS_TRACE_TASK_CREATE
  | AIXOS_TRACE_TASK_DELETE | AIXOS_TRACE_IPC_WAIT | AIXOS_TRACE_IPC_POST
  | AIXOS_TRACE_TIMER | AIXOS_TRACE_MEM_ALLOC | AIXOS_TRACE_MEM_FREE
  | AIXOS_TRACE_ISR_ENTER | AIXOS_TRACE_ISR_EXIT | AIXOS_TRACE_STACK_GUARD

text \<open>
  Kernel object pointers (\<open>void *\<close> fields such as \<open>slot.obj\<close> and \<open>tcb.wait_obj\<close>). A task
  control block is named by its address, the statically pooled objects by their pool index.
\<close>

datatype kptr =
    KNull | KTask u32 | KSem nat | KMutex nat | KMq nat | KEvent nat | KPipe nat | KTimer nat
  | KChannel nat | KMsg nat

section \<open>Configuration\<close>

abbreviation (input) AIXOS_CFG_MAX_PRIORITY :: nat where "AIXOS_CFG_MAX_PRIORITY \<equiv> 256"
abbreviation (input) AIXOS_CFG_TASK_HANDLE_LIMIT :: nat where "AIXOS_CFG_TASK_HANDLE_LIMIT \<equiv> 256"
abbreviation (input) AIXOS_CFG_TASK_SLOT_PAGE_SIZE :: nat where "AIXOS_CFG_TASK_SLOT_PAGE_SIZE \<equiv> 16"
abbreviation (input) TASK_SLOT_PAGE_COUNT :: nat where "TASK_SLOT_PAGE_COUNT \<equiv> 16"
abbreviation (input) AIXOS_CFG_SYSTEM_TASKS_RESERVED :: nat where
  "AIXOS_CFG_SYSTEM_TASKS_RESERVED \<equiv> 2"
abbreviation (input) AIXOS_CFG_MAX_SEM :: nat where "AIXOS_CFG_MAX_SEM \<equiv> 32"
abbreviation (input) AIXOS_CFG_MAX_MUTEX :: nat where "AIXOS_CFG_MAX_MUTEX \<equiv> 16"
abbreviation (input) AIXOS_CFG_MAX_MQ :: nat where "AIXOS_CFG_MAX_MQ \<equiv> 16"
abbreviation (input) AIXOS_CFG_MAX_EVENT :: nat where "AIXOS_CFG_MAX_EVENT \<equiv> 16"
abbreviation (input) AIXOS_CFG_MAX_PIPE :: nat where "AIXOS_CFG_MAX_PIPE \<equiv> 8"
abbreviation (input) AIXOS_CFG_MAX_TIMER :: nat where "AIXOS_CFG_MAX_TIMER \<equiv> 32"
abbreviation (input) AIXOS_CFG_HEAP_SIZE :: u32 where "AIXOS_CFG_HEAP_SIZE \<equiv> 7168"
abbreviation (input) AIXOS_CFG_HEAP_MAGIC :: u32 where "AIXOS_CFG_HEAP_MAGIC \<equiv> 0xBE05"
abbreviation (input) AIXOS_CFG_MAX_IPC_COPY_BYTES :: nat where "AIXOS_CFG_MAX_IPC_COPY_BYTES \<equiv> 1024"
abbreviation (input) AIXOS_CFG_ISR_COPY_MAX_BYTES :: nat where "AIXOS_CFG_ISR_COPY_MAX_BYTES \<equiv> 64"
abbreviation (input) AIXOS_CFG_SEM_MAX_COUNT :: int where "AIXOS_CFG_SEM_MAX_COUNT \<equiv> 0x7FFFFFFF"
abbreviation (input) AIXOS_CFG_TIMEOUT_MAX_TICKS :: u32 where
  "AIXOS_CFG_TIMEOUT_MAX_TICKS \<equiv> 0x7FFFFFFF"

section \<open>Handles\<close>

text \<open>A handle packs an 8-bit slot index and a 24-bit generation into 32 bits.\<close>

type_synonym aixos_handle_t = u32

abbreviation (input) AIXOS_HANDLE_INVALID :: aixos_handle_t where
  "AIXOS_HANDLE_INVALID \<equiv> 0xFFFFFFFF"

definition AIXOS_HANDLE_MAKE :: "u32 \<Rightarrow> u32 \<Rightarrow> aixos_handle_t" where
  "AIXOS_HANDLE_MAKE idx gen = push_bit 8 (gen AND 0x00FFFFFF) OR (idx AND 0xFF)"

definition AIXOS_HANDLE_IDX :: "aixos_handle_t \<Rightarrow> u32" where
  "AIXOS_HANDLE_IDX h = h AND 0xFF"

definition AIXOS_HANDLE_GEN :: "aixos_handle_t \<Rightarrow> u32" where
  "AIXOS_HANDLE_GEN h = drop_bit 8 h AND 0x00FFFFFF"

section \<open>Bits and bitmaps\<close>

text \<open>\<open>__builtin_ctz\<close> and the index \<open>63 - __builtin_clzll\<close> of the highest set bit; like the
  builtins they are only meaningful on a non-zero word.\<close>

definition ctz :: "'a::len word \<Rightarrow> nat" where
  "ctz w = length (takeWhile (\<lambda>i. \<not> bit w i) [0..<LENGTH('a)])"

definition top_bit :: "'a::len word \<Rightarrow> nat" where
  "top_bit w = LENGTH('a) - 1 - length (takeWhile (\<lambda>i. \<not> bit w i) (rev [0..<LENGTH('a)]))"

text \<open>\<open>__builtin_popcount\<close>\<close>

definition popcount :: "'a::len word \<Rightarrow> nat" where
  "popcount w = length (filter (bit w) [0..<LENGTH('a)])"

text \<open>\<open>1 << i\<close>\<close>

definition bitm :: "nat \<Rightarrow> 'a::len word" where
  "bitm i = push_bit i 1"

lemma bit_bitm [bitmap_simps]: "bit (bitm i :: 'a::len word) n \<longleftrightarrow> n = i \<and> i < LENGTH('a)"
  by (auto simp: bitm_def bit_simps)

lemma bit_clear_bit [bitmap_simps]:
  "bit (w AND NOT (bitm i) :: 'a::len word) n \<longleftrightarrow> bit w n \<and> n \<noteq> i"
  by (auto simp: bit_simps bit_bitm dest: bit_imp_le_length)

lemma bit_set_bit [bitmap_simps]:
  "bit (w OR bitm i :: 'a::len word) n \<longleftrightarrow> bit w n \<or> (n = i \<and> i < LENGTH('a))"
  by (auto simp: bit_simps bit_bitm)

lemma bit_or_bitm: "i < LENGTH('a) \<Longrightarrow> bit (w OR bitm i :: 'a::len word) j \<longleftrightarrow> bit w j \<or> j = i"
  by (simp only: bit_set_bit) auto

lemma and_bitm_eq_0_iff [bitmap_simps]:
  "(w AND bitm i = (0 :: 'a::len word)) \<longleftrightarrow> \<not> bit w i"
proof
  assume "w AND bitm i = 0"
  then have "bit (w AND bitm i) i = bit (0 :: 'a word) i" by (rule arg_cong)
  then show "\<not> bit w i" by (auto simp: bit_simps bit_bitm dest: bit_imp_le_length)
next
  assume "\<not> bit w i"
  then show "w AND bitm i = 0" by (intro bit_word_eqI) (auto simp: bit_simps bit_bitm)
qed

lemma unat_shr1_less: "(w :: 'a::len word) \<noteq> 0 \<Longrightarrow> unat (drop_bit 1 w) < unat w"
  by (simp only: unat_drop_bit_eq) (simp add: drop_bit_eq_div unat_gt_0)

lemma takeWhile_upt_first:
  assumes "\<exists>i. lo \<le> i \<and> i < hi \<and> P i"
  shows "\<exists>k. lo + length (takeWhile (\<lambda>i. \<not> P i) [lo..<hi]) = k \<and> lo \<le> k \<and> k < hi \<and> P k \<and>
             (\<forall>j. lo \<le> j \<and> j < k \<longrightarrow> \<not> P j)"
  using assms
proof (induction "hi - lo" arbitrary: lo)
  case 0
  then show ?case by auto
next
  case (Suc n)
  then have lt: "lo < hi" by auto
  show ?case
  proof (cases "P lo")
    case True
    with lt show ?thesis by (auto simp: upt_conv_Cons)
  next
    case False
    from Suc.prems obtain i where i: "lo \<le> i" "i < hi" "P i" by auto
    with False have "Suc lo \<le> i" by (cases "i = lo") auto
    with i have "\<exists>i. Suc lo \<le> i \<and> i < hi \<and> P i" by auto
    moreover have "n = hi - Suc lo" using Suc.hyps(2) by simp
    ultimately obtain k where k: "Suc lo + length (takeWhile (\<lambda>i. \<not> P i) [Suc lo..<hi]) = k"
      "Suc lo \<le> k" "k < hi" "P k" "\<forall>j. Suc lo \<le> j \<and> j < k \<longrightarrow> \<not> P j"
      using Suc.hyps(1)[of "Suc lo"] by blast
    have "\<forall>j. lo \<le> j \<and> j < k \<longrightarrow> \<not> P j"
      using k(5) False by (metis Suc_leI le_neq_implies_less)
    with k lt False show ?thesis by (simp add: upt_conv_Cons)
  qed
qed

lemma word_nonzero_bit: "(w :: 'a::len word) \<noteq> 0 \<Longrightarrow> \<exists>i. i < LENGTH('a) \<and> bit w i"
  by (auto simp: bit_eq_iff dest: bit_imp_le_length)

lemma ctz_props:
  assumes "(w :: 'a::len word) \<noteq> 0"
  shows "ctz w < LENGTH('a)" "bit w (ctz w)" "\<And>j. j < ctz w \<Longrightarrow> \<not> bit w j"
proof -
  from word_nonzero_bit[OF assms] have "\<exists>i. 0 \<le> i \<and> i < LENGTH('a) \<and> bit w i" by auto
  from takeWhile_upt_first[OF this]
  show "ctz w < LENGTH('a)" "bit w (ctz w)" "\<And>j. j < ctz w \<Longrightarrow> \<not> bit w j"
    by (auto simp: ctz_def)
qed

lemma takeWhile_rev_upt_last:
  assumes "\<exists>i. i < n \<and> P i"
  shows "\<exists>k. n - 1 - length (takeWhile (\<lambda>i. \<not> P i) (rev [0..<n])) = k \<and> k < n \<and> P k \<and>
             (\<forall>j. k < j \<and> j < n \<longrightarrow> \<not> P j)"
  using assms
proof (induction n)
  case 0
  then show ?case by simp
next
  case (Suc n)
  show ?case
  proof (cases "P n")
    case True
    then show ?thesis by auto
  next
    case False
    with Suc.prems have "\<exists>i<n. P i" by (metis less_Suc_eq)
    from Suc.IH[OF this] obtain k where
      k: "n - 1 - length (takeWhile (\<lambda>i. \<not> P i) (rev [0..<n])) = k" "k < n" "P k"
      "\<forall>j. k < j \<and> j < n \<longrightarrow> \<not> P j" by blast
    have "\<forall>j. k < j \<and> j < Suc n \<longrightarrow> \<not> P j" using k(4) False less_Suc_eq by auto
    with k False show ?thesis by auto
  qed
qed

lemma top_bit_props:
  assumes "(w :: 'a::len word) \<noteq> 0"
  shows "top_bit w < LENGTH('a)" "bit w (top_bit w)" "\<And>j. top_bit w < j \<Longrightarrow> \<not> bit w j"
proof -
  obtain k where k: "top_bit w = k" "k < LENGTH('a)" "bit w k"
    "\<forall>j. k < j \<and> j < LENGTH('a) \<longrightarrow> \<not> bit w j"
    using takeWhile_rev_upt_last[OF word_nonzero_bit[OF assms]] unfolding top_bit_def by metis
  show "top_bit w < LENGTH('a)" "bit w (top_bit w)" using k(1-3) by simp_all
  show "\<not> bit w j" if "top_bit w < j" for j
    using that k(1,4) bit_imp_le_length by blast
qed

section \<open>Handle encoding\<close>

lemma low_mask8: "(0xFF :: u32) = mask 8"
  by (simp add: mask_eq_exp_minus_1)

lemma low_mask24: "(0x00FFFFFF :: u32) = mask 24"
  by (simp add: mask_eq_exp_minus_1)

lemma handle_idx_make: "AIXOS_HANDLE_IDX (AIXOS_HANDLE_MAKE i g) = i AND 0xFF"
  unfolding AIXOS_HANDLE_IDX_def AIXOS_HANDLE_MAKE_def low_mask8 low_mask24
  by (rule bit_word_eqI) (auto simp: bit_simps)

lemma handle_gen_make: "AIXOS_HANDLE_GEN (AIXOS_HANDLE_MAKE i g) = g AND 0x00FFFFFF"
  unfolding AIXOS_HANDLE_GEN_def AIXOS_HANDLE_MAKE_def low_mask8 low_mask24
  by (rule bit_word_eqI) (auto simp: bit_simps)

lemma handle_make_parts: "AIXOS_HANDLE_MAKE (AIXOS_HANDLE_IDX h) (AIXOS_HANDLE_GEN h) = h"
  unfolding AIXOS_HANDLE_IDX_def AIXOS_HANDLE_GEN_def AIXOS_HANDLE_MAKE_def low_mask8 low_mask24
  by (rule bit_word_eqI) (auto simp: bit_simps)

lemma and_mask8_small: "unat i < 256 \<Longrightarrow> (i :: u32) AND 0xFF = i"
  unfolding low_mask8 by (subst take_bit_eq_mask [symmetric])
    (simp add: unsigned_take_bit_eq word_unat_eq_iff take_bit_nat_eq_self)

lemma and_mask24_small: "unat g < 2 ^ 24 \<Longrightarrow> (g :: u32) AND 0x00FFFFFF = g"
  unfolding low_mask24 by (subst take_bit_eq_mask [symmetric])
    (simp add: unsigned_take_bit_eq word_unat_eq_iff take_bit_nat_eq_self)

lemma handle_idx_lt: "unat (AIXOS_HANDLE_IDX h) < 256"
proof -
  have "unat (h AND 0xFF) \<le> unat (0xFF :: u32)"
    by (rule word_and_le1 [THEN word_le_nat_alt [THEN iffD1]])
  then show ?thesis by (simp add: AIXOS_HANDLE_IDX_def)
qed

section \<open>Ranges of 32-bit words\<close>

lemma u32_less: "unat (w :: u32) < 2 ^ 32"
  using unsigned_less[of w, where ?'a = nat] by simp

lemma u32_le_max: "(w :: u32) \<le> UINT32_MAX"
proof -
  have "unat w \<le> unat (UINT32_MAX)" using u32_less[of w] by simp
  then show ?thesis by (simp only: word_le_nat_alt)
qed

lemma u32_of_nat: "n < 2 ^ 32 \<Longrightarrow> unat (of_nat n :: u32) = n"
  by (simp add: unat_of_nat take_bit_nat_eq_self)

lemma u32_of_unat: "unat (w :: u32) = n \<Longrightarrow> w = of_nat n"
  by (drule sym) simp

lemma u32_eq_of_nat: "n < 2 ^ 32 \<Longrightarrow> (w :: u32) = of_nat n \<longleftrightarrow> unat w = n"
  by (metis u32_of_nat word_unat_eq_iff)

section \<open>Lists\<close>

lemma nth_list_update_if: "i < length xs \<Longrightarrow> xs[i := x] ! j = (if i = j then x else xs ! j)"
  by simp

end
