(* ===== verification/Objects.thy ===== *)
theory Objects
  imports Aix_Prelude
begin

text \<open>
  \<^verbatim>\<open>kernel/object.c\<close>: the object pools behind every public handle. Six static pools
  (semaphores to timers) keep a slot array and a free bitmap; task slots live in pages of 16
  that are allocated on demand. A slot keeps a 24-bit generation that is advanced on every
  allocation and is part of the handle, so that a handle to a freed slot is recognised.

  The kernel allocator that \<open>task_slot_alloc\<close> calls for a new page is an argument here
  (\<open>kmalloc\<close>, which reports whether the allocation succeeded); \<open>Kernel_State\<close> passes
  \<open>aixos_kernel_malloc\<close>.
\<close>

section \<open>State\<close>

record slot =
  slot_type :: aixos_obj_type
  slot_used :: bool
  slot_generation :: u32
  slot_obj :: kptr

record obj_pool =
  pool_slots :: "slot list"
  pool_max :: nat
  pool_obj_type :: aixos_obj_type
  pool_free :: u32

record task_page =
  page_slots :: "slot list"
  page_free :: u32

record obj_state =
  obj_pools :: "obj_pool list"
  task_pages :: "task_page option list"

abbreviation (input) AIXOS_POOL_TASK :: int where "AIXOS_POOL_TASK \<equiv> 0"
abbreviation (input) AIXOS_POOL_SEM :: int where "AIXOS_POOL_SEM \<equiv> 1"
abbreviation (input) AIXOS_POOL_MUTEX :: int where "AIXOS_POOL_MUTEX \<equiv> 2"
abbreviation (input) AIXOS_POOL_MQ :: int where "AIXOS_POOL_MQ \<equiv> 3"
abbreviation (input) AIXOS_POOL_EVENT :: int where "AIXOS_POOL_EVENT \<equiv> 4"
abbreviation (input) AIXOS_POOL_PIPE :: int where "AIXOS_POOL_PIPE \<equiv> 5"
abbreviation (input) AIXOS_POOL_TIMER :: int where "AIXOS_POOL_TIMER \<equiv> 6"
abbreviation (input) AIXOS_POOL_COUNT :: int where "AIXOS_POOL_COUNT \<equiv> 7"

definition zero_slot :: slot where
  "zero_slot = \<lparr>slot_type = AIXOS_OBJ_UNUSED, slot_used = False, slot_generation = 0,
                slot_obj = KNull\<rparr>"

text \<open>\<open>max_count == 32 ? UINT32_MAX : (1 << max_count) - 1\<close>\<close>

definition full_bitmap :: "nat \<Rightarrow> u32" where
  "full_bitmap n = (if n = 32 then UINT32_MAX else push_bit n 1 - 1)"

section \<open>Operations\<close>

definition task_slot_at :: "int \<Rightarrow> obj_state \<Rightarrow> slot option" where
  "task_slot_at index os =
     (if index < 0 \<or> index \<ge> int AIXOS_CFG_TASK_HANDLE_LIMIT then None
      else case task_pages os ! (nat index div AIXOS_CFG_TASK_SLOT_PAGE_SIZE) of
             None \<Rightarrow> None
           | Some p \<Rightarrow> Some (page_slots p ! (nat index mod AIXOS_CFG_TASK_SLOT_PAGE_SIZE)))"

definition task_page_free_mask :: u32 where
  "task_page_free_mask = push_bit AIXOS_CFG_TASK_SLOT_PAGE_SIZE 1 - 1"

definition next_generation :: "u32 \<Rightarrow> u32" where
  "next_generation g = (let g' = (g + 1) AND 0x00FFFFFF in if g' = 0 then 1 else g')"

text \<open>The four assignments that turn a free slot into a used one.\<close>

definition claim_slot :: "aixos_obj_type \<Rightarrow> kptr \<Rightarrow> slot \<Rightarrow> slot" where
  "claim_slot ty obj sl = sl\<lparr>slot_used := True,
     slot_generation := next_generation (slot_generation sl), slot_type := ty, slot_obj := obj\<rparr>"

definition fresh_page :: task_page where
  "fresh_page = \<lparr>page_slots = replicate AIXOS_CFG_TASK_SLOT_PAGE_SIZE zero_slot,
                 page_free = task_page_free_mask\<rparr>"

fun task_slot_alloc_loop ::
  "('h \<Rightarrow> bool \<times> 'h) \<Rightarrow> kptr \<Rightarrow> nat list \<Rightarrow> 'h \<Rightarrow> obj_state \<Rightarrow> int \<times> 'h \<times> obj_state" where
  "task_slot_alloc_loop kmalloc obj [] h os = (-1, h, os)"
| "task_slot_alloc_loop kmalloc obj (page_index # rest) h os =
     (let (got, h', os', page) =
        (case task_pages os ! page_index of
           Some page \<Rightarrow> (True, h, os, page)
         | None \<Rightarrow>
             (let (ok, h') = kmalloc h in
              if ok then (True, h',
                os\<lparr>task_pages := (task_pages os)[page_index := Some fresh_page]\<rparr>, fresh_page)
              else (False, h', os, fresh_page)))
      in if \<not> got then (-1, h', os')
         else if page_free page = 0 then task_slot_alloc_loop kmalloc obj rest h' os'
         else let slot_index = ctz (page_free page);
                  page' = page\<lparr>page_free := page_free page AND NOT (bitm slot_index),
                    page_slots := (page_slots page)[slot_index :=
                      claim_slot AIXOS_OBJ_TASK obj (page_slots page ! slot_index)]\<rparr>
              in (int (page_index * AIXOS_CFG_TASK_SLOT_PAGE_SIZE + slot_index), h',
                  os'\<lparr>task_pages := (task_pages os')[page_index := Some page']\<rparr>))"

definition task_slot_alloc ::
  "('h \<Rightarrow> bool \<times> 'h) \<Rightarrow> kptr \<Rightarrow> 'h \<Rightarrow> obj_state \<Rightarrow> int \<times> 'h \<times> obj_state" where
  "task_slot_alloc kmalloc obj h os =
     task_slot_alloc_loop kmalloc obj [0..<TASK_SLOT_PAGE_COUNT] h os"

definition type_to_pool_id :: "aixos_obj_type \<Rightarrow> int" where
  "type_to_pool_id ty = (case ty of
      AIXOS_OBJ_TASK \<Rightarrow> AIXOS_POOL_TASK | AIXOS_OBJ_SEM \<Rightarrow> AIXOS_POOL_SEM
    | AIXOS_OBJ_MUTEX \<Rightarrow> AIXOS_POOL_MUTEX | AIXOS_OBJ_MQ \<Rightarrow> AIXOS_POOL_MQ
    | AIXOS_OBJ_EVENT \<Rightarrow> AIXOS_POOL_EVENT | AIXOS_OBJ_PIPE \<Rightarrow> AIXOS_POOL_PIPE
    | AIXOS_OBJ_TIMER \<Rightarrow> AIXOS_POOL_TIMER | _ \<Rightarrow> -1)"

text \<open>The seven pool descriptors \<open>pool_task\<close> to \<open>pool_timer\<close>, in the order of
  \<open>pools[]\<close>; the task pool has no slot array of its own.\<close>

definition pool_descriptor :: "nat \<Rightarrow> aixos_obj_type \<Rightarrow> nat \<Rightarrow> obj_pool" where
  "pool_descriptor slots ty max_count =
     \<lparr>pool_slots = replicate slots zero_slot, pool_max = max_count, pool_obj_type = ty,
      pool_free = 0\<rparr>"

definition static_pools :: "obj_pool list" where
  "static_pools =
    [pool_descriptor 0 AIXOS_OBJ_TASK AIXOS_CFG_TASK_HANDLE_LIMIT,
     pool_descriptor AIXOS_CFG_MAX_SEM AIXOS_OBJ_SEM AIXOS_CFG_MAX_SEM,
     pool_descriptor AIXOS_CFG_MAX_MUTEX AIXOS_OBJ_MUTEX AIXOS_CFG_MAX_MUTEX,
     pool_descriptor AIXOS_CFG_MAX_MQ AIXOS_OBJ_MQ AIXOS_CFG_MAX_MQ,
     pool_descriptor AIXOS_CFG_MAX_EVENT AIXOS_OBJ_EVENT AIXOS_CFG_MAX_EVENT,
     pool_descriptor AIXOS_CFG_MAX_PIPE AIXOS_OBJ_PIPE AIXOS_CFG_MAX_PIPE,
     pool_descriptor AIXOS_CFG_MAX_TIMER AIXOS_OBJ_TIMER AIXOS_CFG_MAX_TIMER]"

definition init_pool :: "obj_pool \<Rightarrow> obj_pool" where
  "init_pool p = p\<lparr>pool_slots := replicate (pool_max p) zero_slot,
                   pool_free := full_bitmap (pool_max p)\<rparr>"

definition aixos_object_init :: obj_state where
  "aixos_object_init =
     \<lparr>obj_pools = hd static_pools # map init_pool (tl static_pools),
      task_pages = replicate TASK_SLOT_PAGE_COUNT None\<rparr>"

text \<open>\<open>while ((available & 1U) == 0U) { available >>= 1U; i++; }\<close>, entered with
  \<open>available != 0\<close> only.\<close>

function scan_low_bit :: "u32 \<Rightarrow> nat \<Rightarrow> nat" where
  "scan_low_bit available i =
     (if available = 0 \<or> bit available 0 then i else scan_low_bit (drop_bit 1 available) (Suc i))"
  by pat_completeness auto
termination
  by (relation "measure (\<lambda>(w, _). unat w)") (auto intro: unat_shr1_less simp del: drop_bit_Suc One_nat_def)

declare scan_low_bit.simps [simp del]

definition aixos_slot_alloc ::
  "('h \<Rightarrow> bool \<times> 'h) \<Rightarrow> int \<Rightarrow> kptr \<Rightarrow> 'h \<Rightarrow> obj_state \<Rightarrow> int \<times> 'h \<times> obj_state" where
  "aixos_slot_alloc kmalloc pool_id obj h os =
     (if pool_id < 0 \<or> pool_id \<ge> AIXOS_POOL_COUNT then (-1, h, os)
      else if pool_id = AIXOS_POOL_TASK then task_slot_alloc kmalloc obj h os
      else let pool = obj_pools os ! nat pool_id;
               available = pool_free pool
           in if available = 0 then (-1, h, os)
              else let i = scan_low_bit available 0;
                       pool' = pool\<lparr>pool_free := pool_free pool AND NOT (bitm i),
                         pool_slots := (pool_slots pool)[i :=
                           claim_slot (pool_obj_type pool) obj (pool_slots pool ! i)]\<rparr>
                   in (int i, h, os\<lparr>obj_pools := (obj_pools os)[nat pool_id := pool']\<rparr>))"

text \<open>The slot a pool id and an index name; \<open>None\<close> is the \<open>NULL\<close> of the C code.\<close>

definition slot_lookup :: "int \<Rightarrow> int \<Rightarrow> obj_state \<Rightarrow> slot option" where
  "slot_lookup pool_id index os =
     (if pool_id = AIXOS_POOL_TASK then task_slot_at index os
      else if index \<ge> 0 \<and> index < int (pool_max (obj_pools os ! nat pool_id))
      then Some (pool_slots (obj_pools os ! nat pool_id) ! nat index) else None)"

definition aixos_slot_handle :: "int \<Rightarrow> int \<Rightarrow> obj_state \<Rightarrow> aixos_handle_t" where
  "aixos_slot_handle pool_id index os =
     (if pool_id < 0 \<or> pool_id \<ge> AIXOS_POOL_COUNT then AIXOS_HANDLE_INVALID
      else case slot_lookup pool_id index os of
             None \<Rightarrow> AIXOS_HANDLE_INVALID
           | Some sl \<Rightarrow> if slot_used sl
               then AIXOS_HANDLE_MAKE (word_of_int index) (slot_generation sl)
               else AIXOS_HANDLE_INVALID)"

definition release_slot :: "slot \<Rightarrow> slot" where
  "release_slot sl = sl\<lparr>slot_used := False, slot_obj := KNull\<rparr>"

definition release_page_slot :: "nat \<Rightarrow> task_page \<Rightarrow> task_page" where
  "release_page_slot i p = p\<lparr>page_slots := (page_slots p)[i := release_slot (page_slots p ! i)],
                             page_free := page_free p OR bitm i\<rparr>"

definition release_pool_slot :: "nat \<Rightarrow> obj_pool \<Rightarrow> obj_pool" where
  "release_pool_slot i p = p\<lparr>pool_slots := (pool_slots p)[i := release_slot (pool_slots p ! i)],
                             pool_free := pool_free p OR bitm i\<rparr>"

definition aixos_slot_free :: "int \<Rightarrow> int \<Rightarrow> obj_state \<Rightarrow> obj_state" where
  "aixos_slot_free pool_id index os =
     (if pool_id < 0 \<or> pool_id \<ge> AIXOS_POOL_COUNT then os
      else case slot_lookup pool_id index os of
             None \<Rightarrow> os
           | Some sl \<Rightarrow>
               if \<not> slot_used sl then os
               else if pool_id = AIXOS_POOL_TASK
               then let page_index = nat index div AIXOS_CFG_TASK_SLOT_PAGE_SIZE;
                        slot_index = nat index mod AIXOS_CFG_TASK_SLOT_PAGE_SIZE
                    in os\<lparr>task_pages := (task_pages os)[page_index :=
                         map_option (release_page_slot slot_index) (task_pages os ! page_index)]\<rparr>
               else os\<lparr>obj_pools := (obj_pools os)[nat pool_id :=
                      release_pool_slot (nat index) (obj_pools os ! nat pool_id)]\<rparr>)"

definition aixos_obj_from_handle :: "aixos_handle_t \<Rightarrow> aixos_obj_type \<Rightarrow> obj_state \<Rightarrow> kptr" where
  "aixos_obj_from_handle h ty os =
     (let idx = uint (AIXOS_HANDLE_IDX h); gen = AIXOS_HANDLE_GEN h; pool_id = type_to_pool_id ty
      in if pool_id < 0 then KNull
         else case slot_lookup pool_id idx os of
                None \<Rightarrow> KNull
              | Some sl \<Rightarrow>
                  if \<not> slot_used sl \<or> slot_generation sl \<noteq> gen \<or> slot_type sl \<noteq> ty then KNull
                  else slot_obj sl)"

definition aixos_handle_is_valid :: "aixos_handle_t \<Rightarrow> aixos_obj_type \<Rightarrow> obj_state \<Rightarrow> bool" where
  "aixos_handle_is_valid h ty os =
     (let pool_id = type_to_pool_id ty; idx = uint (AIXOS_HANDLE_IDX h); gen = AIXOS_HANDLE_GEN h
      in if pool_id < 0 \<or> h = AIXOS_HANDLE_INVALID then False
         else case slot_lookup pool_id idx os of
                None \<Rightarrow> False
              | Some sl \<Rightarrow> slot_used sl \<and> slot_generation sl = gen \<and> slot_type sl = ty)"

text \<open>\<open>while (used != 0U) { count += used & 1U; used >>= 1U; }\<close>\<close>

function count_bits :: "u32 \<Rightarrow> nat \<Rightarrow> nat" where
  "count_bits used count =
     (if used = 0 then count
      else count_bits (drop_bit 1 used) (count + (if bit used 0 then 1 else 0)))"
  by pat_completeness auto
termination
  by (relation "measure (\<lambda>(w, _). unat w)") (auto intro: unat_shr1_less simp del: drop_bit_Suc One_nat_def)

declare count_bits.simps [simp del]

fun task_usage :: "task_page option list \<Rightarrow> int" where
  "task_usage [] = 0"
| "task_usage (None # ps) = task_usage ps"
| "task_usage (Some p # ps) =
     int AIXOS_CFG_TASK_SLOT_PAGE_SIZE - int (popcount (page_free p))
     + task_usage ps"

definition aixos_pool_get_usage :: "int \<Rightarrow> obj_state \<Rightarrow> int" where
  "aixos_pool_get_usage pool_id os =
     (if pool_id < 0 \<or> pool_id \<ge> AIXOS_POOL_COUNT then 0
      else if pool_id = AIXOS_POOL_TASK then task_usage (task_pages os)
      else let pool = obj_pools os ! nat pool_id;
               used = NOT (pool_free pool);
               used' = (if pool_max pool < 32 then used AND (push_bit (pool_max pool) 1 - 1)
                        else used)
           in int (count_bits used' 0))"

section \<open>Bit scans\<close>

lemma scan_low_bit_props:
  assumes "a \<noteq> 0"
  shows "\<exists>k. scan_low_bit a i = i + k \<and> k < 32 \<and> bit a k \<and> (\<forall>j<k. \<not> bit a j)"
  using assms
proof (induction a i rule: scan_low_bit.induct)
  case (1 a i)
  show ?case
  proof (cases "bit a 0")
    case True
    then show ?thesis by (subst scan_low_bit.simps) auto
  next
    case False
    have nz: "drop_bit 1 a \<noteq> 0"
    proof
      assume z: "drop_bit 1 a = 0"
      from word_nonzero_bit[OF "1.prems"] obtain n where n: "bit a n" by auto
      with False have "0 < n" by (cases n) auto
      with n have "bit (drop_bit 1 a) (n - 1)" by (simp add: bit_drop_bit_eq)
      with z show False by simp
    qed
    with "1.IH" "1.prems" False obtain k where
      k: "scan_low_bit (drop_bit 1 a) (Suc i) = Suc i + k" "bit (drop_bit 1 a) k"
         "\<forall>j<k. \<not> bit (drop_bit 1 a) j" by auto
    have eq: "scan_low_bit a i = i + Suc k"
      using k(1) False "1.prems" by (subst scan_low_bit.simps) simp
    have bk: "bit a (Suc k)" using k(2) by (simp add: bit_drop_bit_eq)
    have min: "\<forall>j<Suc k. \<not> bit a j"
    proof (intro allI impI)
      fix j assume "j < Suc k"
      then show "\<not> bit a j" using False k(3) by (cases j) (auto simp: bit_drop_bit_eq)
    qed
    from bk have "Suc k < 32" using bit_imp_le_length[of a "Suc k"] by simp
    with eq bk min show ?thesis by blast
  qed
qed

lemma scan_low_bit_ctz: "a \<noteq> 0 \<Longrightarrow> scan_low_bit a 0 = ctz a"
  using scan_low_bit_props[of a 0] ctz_props[of a] by (metis add_0 linorder_neqE_nat)

lemma bit_full_bitmap: "n \<le> 32 \<Longrightarrow> bit (full_bitmap n) i \<longleftrightarrow> i < n"
proof -
  assume n: "n \<le> 32"
  have "full_bitmap n = mask n"
  proof (cases "n = 32")
    case True
    then show ?thesis by (simp add: full_bitmap_def mask_eq_exp_minus_1)
  next
    case False
    then show ?thesis by (simp add: full_bitmap_def mask_eq_exp_minus_1 push_bit_eq_mult)
  qed
  with n show ?thesis by (auto simp: bit_mask_iff)
qed

lemma bit_task_page_free_mask: "bit task_page_free_mask i \<longleftrightarrow> i < 16"
  using bit_full_bitmap[of 16 i] by (simp add: task_page_free_mask_def full_bitmap_def)

section \<open>Generations\<close>

lemma next_generation_nat:
  assumes "unat g < 2 ^ 24"
  shows "unat (next_generation g) = (if unat g = 2 ^ 24 - 1 then 1 else Suc (unat g))"
proof -
  have s: "unat (g + 1) = Suc (unat g)"
    using assms by (simp add: unat_word_ariths)
  have m: "unat ((g + 1) AND 0x00FFFFFF) = Suc (unat g) mod 2 ^ 24"
    unfolding low_mask24
    by (subst take_bit_eq_mask [symmetric]) (simp only: unsigned_take_bit_eq take_bit_eq_mod [where 'a = nat] s)
  show ?thesis
  proof (cases "unat g = 2 ^ 24 - 1")
    case True
    then have "unat ((g + 1) AND 0x00FFFFFF) = 0" using m by simp
    then have "(g + 1) AND 0x00FFFFFF = 0" by (simp only: unat_eq_0)
    with True show ?thesis by (simp add: next_generation_def)
  next
    case False
    with assms have "unat ((g + 1) AND 0x00FFFFFF) = Suc (unat g)" using m by simp
    moreover from this have "(g + 1) AND 0x00FFFFFF \<noteq> 0" by (metis nat.simps(3) unat_0)
    ultimately show ?thesis using False by (simp add: next_generation_def Let_def)
  qed
qed

lemma next_generation_range:
  "unat g < 2 ^ 24 \<Longrightarrow> 0 < unat (next_generation g) \<and> unat (next_generation g) < 2 ^ 24"
  using next_generation_nat[of g] by auto

lemma next_generation_neq:
  assumes "unat g < 2 ^ 24"
  shows "next_generation g \<noteq> g"
proof
  assume "next_generation g = g"
  with next_generation_nat[OF assms] show False by (simp split: if_splits)
qed

lemma generation_field: "unat g < 2 ^ 24 \<Longrightarrow> AIXOS_HANDLE_GEN (AIXOS_HANDLE_MAKE i g) = g"
  by (simp add: handle_gen_make and_mask24_small)

text \<open>
  The generations a slot goes through: \<open>1, 2, \<dots>, 2\<^sup>2\<^sup>4 - 1\<close> and then \<open>1\<close> again, never \<open>0\<close>.
  A handle therefore stays stale for at least \<open>2\<^sup>2\<^sup>4 - 2\<close> further allocations of its slot.
\<close>

lemma generation_iter:
  assumes "0 < unat g" "unat g < 2 ^ 24"
  shows "unat ((next_generation ^^ n) g) = (unat g - 1 + n) mod (2 ^ 24 - 1) + 1"
proof (induction n)
  case 0
  have "unat g - 1 < 2 ^ 24 - 1" using assms by auto
  then show ?case using assms by simp
next
  case (Suc n)
  let ?M = "2 ^ 24 - 1 :: nat"
  let ?k = "(unat g - 1 + n) mod ?M"
  have k: "?k < ?M" by simp
  have "unat (next_generation ((next_generation ^^ n) g)) = (if ?k + 1 = ?M then 1 else Suc (?k + 1))"
    using Suc.IH k by (subst next_generation_nat) auto
  also have "\<dots> = Suc ?k mod ?M + 1" using k by (auto simp: mod_Suc)
  also have "Suc ?k mod ?M = (unat g - 1 + Suc n) mod ?M" by (simp add: mod_Suc_eq)
  finally show ?case by simp
qed

section \<open>Invariant\<close>

text \<open>
  A slot's generation fits in its 24-bit field, a used slot has its pool's type and a non-zero
  generation, and a free bitmap has exactly the bits of the unused slots.
\<close>

definition slot_wf :: "aixos_obj_type \<Rightarrow> slot \<Rightarrow> bool" where
  "slot_wf ty sl \<longleftrightarrow> unat (slot_generation sl) < 2 ^ 24 \<and>
     (slot_used sl \<longrightarrow> slot_type sl = ty \<and> 0 < unat (slot_generation sl))"

definition bitmap_wf :: "u32 \<Rightarrow> slot list \<Rightarrow> bool" where
  "bitmap_wf fb ss \<longleftrightarrow> (\<forall>i. bit fb i \<longleftrightarrow> i < length ss \<and> \<not> slot_used (ss ! i))"

definition pool_wf :: "aixos_obj_type \<Rightarrow> nat \<Rightarrow> obj_pool \<Rightarrow> bool" where
  "pool_wf ty n p \<longleftrightarrow> pool_max p = n \<and> length (pool_slots p) = n \<and> pool_obj_type p = ty \<and>
     bitmap_wf (pool_free p) (pool_slots p) \<and> list_all (slot_wf ty) (pool_slots p)"

definition page_wf :: "task_page \<Rightarrow> bool" where
  "page_wf p \<longleftrightarrow> length (page_slots p) = AIXOS_CFG_TASK_SLOT_PAGE_SIZE \<and>
     bitmap_wf (page_free p) (page_slots p) \<and> list_all (slot_wf AIXOS_OBJ_TASK) (page_slots p)"

definition pool_types :: "aixos_obj_type list" where
  "pool_types = [AIXOS_OBJ_TASK, AIXOS_OBJ_SEM, AIXOS_OBJ_MUTEX, AIXOS_OBJ_MQ, AIXOS_OBJ_EVENT,
                 AIXOS_OBJ_PIPE, AIXOS_OBJ_TIMER]"

definition pool_sizes :: "nat list" where
  "pool_sizes = [256, 32, 16, 16, 16, 8, 32]"

definition obj_inv :: "obj_state \<Rightarrow> bool" where
  "obj_inv os \<longleftrightarrow> length (obj_pools os) = 7 \<and>
     (\<forall>p. 1 \<le> p \<and> p < 7 \<longrightarrow> pool_wf (pool_types ! p) (pool_sizes ! p) (obj_pools os ! p)) \<and>
     length (task_pages os) = TASK_SLOT_PAGE_COUNT \<and>
     (\<forall>p. Some p \<in> set (task_pages os) \<longrightarrow> page_wf p)"

text \<open>The live slot at an index, if there is one: what the handle operations can see.\<close>

definition live_slot :: "int \<Rightarrow> int \<Rightarrow> obj_state \<Rightarrow> slot option" where
  "live_slot pool_id index os =
     (case slot_lookup pool_id index os of
        None \<Rightarrow> None | Some sl \<Rightarrow> if slot_used sl then Some sl else None)"

lemma pool_id_cases: "1 \<le> (p::nat) \<Longrightarrow> p < 7 \<Longrightarrow> p \<in> {1, 2, 3, 4, 5, 6}"
  by auto

lemma pool_sizes_le: "1 \<le> p \<Longrightarrow> p < 7 \<Longrightarrow> pool_sizes ! p \<le> 32 \<and> 0 < pool_sizes ! p"
  by (drule (1) pool_id_cases) (auto simp: pool_sizes_def)

lemma obj_inv_pool:
  "obj_inv os \<Longrightarrow> 1 \<le> p \<Longrightarrow> p < 7 \<Longrightarrow> pool_wf (pool_types ! p) (pool_sizes ! p) (obj_pools os ! p)"
  by (simp add: obj_inv_def)

lemma obj_inv_page: "obj_inv os \<Longrightarrow> n < 16 \<Longrightarrow> task_pages os ! n = Some p \<Longrightarrow> page_wf p"
  unfolding obj_inv_def by (metis nth_mem)

lemma slot_wf_claim: "slot_wf ty sl \<Longrightarrow> slot_wf ty (claim_slot ty obj sl)"
  using next_generation_range[of "slot_generation sl"] by (simp add: slot_wf_def claim_slot_def)

lemma slot_wf_release: "slot_wf ty sl \<Longrightarrow> slot_wf ty (release_slot sl)"
  by (simp add: slot_wf_def release_slot_def)

lemma list_all_update: "list_all P xs \<Longrightarrow> P x \<Longrightarrow> list_all P (xs[i := x])"
  by (auto simp: list_all_iff dest!: set_update_subset_insert [THEN subsetD])

lemma bitmap_ctz:
  assumes "bitmap_wf fb ss" "fb \<noteq> 0"
  shows "ctz fb < length ss" "\<not> slot_used (ss ! ctz fb)"
  using assms ctz_props(2)[of fb] by (auto simp: bitmap_wf_def)

lemma bitmap_zero: "bitmap_wf 0 ss \<Longrightarrow> i < length ss \<Longrightarrow> slot_used (ss ! i)"
  by (auto simp: bitmap_wf_def)

lemma bitmap_claim:
  "bitmap_wf fb ss \<Longrightarrow> k < length ss \<Longrightarrow>
   bitmap_wf (fb AND NOT (bitm k)) (ss[k := claim_slot ty obj sl])"
  by (auto simp: bitmap_wf_def bit_clear_bit nth_list_update claim_slot_def)

lemma bitmap_release:
  "bitmap_wf fb ss \<Longrightarrow> k < length ss \<Longrightarrow> length ss \<le> 32 \<Longrightarrow>
   bitmap_wf (fb OR bitm k) (ss[k := release_slot sl])"
  by (auto simp: bitmap_wf_def bit_set_bit nth_list_update release_slot_def)

lemma fresh_page_wf: "page_wf fresh_page"
  by (auto simp: page_wf_def fresh_page_def bitmap_wf_def bit_task_page_free_mask zero_slot_def
      slot_wf_def list_all_iff)

lemma init_pool_wf:
  assumes "n \<le> 32"
  shows "pool_wf ty n (init_pool (pool_descriptor m ty n))"
  using assms by (auto simp: pool_wf_def init_pool_def pool_descriptor_def bitmap_wf_def
      bit_full_bitmap zero_slot_def slot_wf_def list_all_iff)

lemma object_init_inv: "obj_inv aixos_object_init"
proof -
  have "pool_wf (pool_types ! p) (pool_sizes ! p) (obj_pools aixos_object_init ! p)"
    if "1 \<le> p" "p < 7" for p
    using pool_id_cases[OF that]
    by (auto simp: aixos_object_init_def static_pools_def pool_types_def pool_sizes_def init_pool_wf)
  then show ?thesis by (auto simp: obj_inv_def aixos_object_init_def static_pools_def)
qed

section \<open>Effect of allocation and release on the static pools\<close>

lemma slot_lookup_static:
  "1 \<le> p \<Longrightarrow> slot_lookup (int p) i os =
     (if 0 \<le> i \<and> i < int (pool_max (obj_pools os ! p))
      then Some (pool_slots (obj_pools os ! p) ! nat i) else None)"
  by (simp add: slot_lookup_def)

lemma slot_lookup_pools_upd:
  assumes "obj_inv os" "1 \<le> p" "p < 7" "k < pool_sizes ! p"
    and "pool_max q = pool_sizes ! p" "pool_slots q = (pool_slots (obj_pools os ! p))[k := sl]"
    and "0 \<le> pid" "pid < 7"
  shows "slot_lookup pid i (os\<lparr>obj_pools := (obj_pools os)[p := q]\<rparr>) =
         (if pid = int p \<and> i = int k then Some sl else slot_lookup pid i os)"
proof -
  have wf: "pool_wf (pool_types ! p) (pool_sizes ! p) (obj_pools os ! p)"
    using obj_inv_pool assms(1-3) by blast
  have len: "length (obj_pools os) = 7" using assms(1) by (simp add: obj_inv_def)
  show ?thesis
    using assms wf len
    by (auto simp: slot_lookup_def task_slot_at_def pool_wf_def nth_list_update)
qed

lemma obj_inv_pools_upd:
  assumes "obj_inv os" "1 \<le> p" "p < 7" "pool_wf (pool_types ! p) (pool_sizes ! p) q"
  shows "obj_inv (os\<lparr>obj_pools := (obj_pools os)[p := q]\<rparr>)"
  using assms by (auto simp: obj_inv_def nth_list_update)

lemma static_alloc_cases:
  assumes inv: "obj_inv os" and p: "1 \<le> p" "p < 7"
    and al: "aixos_slot_alloc kmalloc (int p) obj h os = (r, h', os')"
  shows "h' = h \<and>
    ((r = -1 \<and> os' = os \<and> (\<forall>i < pool_sizes ! p. slot_used (pool_slots (obj_pools os ! p) ! i))) \<or>
     (\<exists>k. r = int k \<and> k < pool_sizes ! p \<and> \<not> slot_used (pool_slots (obj_pools os ! p) ! k) \<and>
        (\<forall>j<k. slot_used (pool_slots (obj_pools os ! p) ! j)) \<and>
        obj_inv os' \<and>
        (\<forall>pid i. 0 \<le> pid \<and> pid < 7 \<longrightarrow> slot_lookup pid i os' =
           (if pid = int p \<and> i = int k
            then Some (claim_slot (pool_types ! p) obj (pool_slots (obj_pools os ! p) ! k))
            else slot_lookup pid i os))))"
proof -
  define pool where "pool = obj_pools os ! p"
  have wf: "pool_wf (pool_types ! p) (pool_sizes ! p) pool"
    using obj_inv_pool[OF inv p] by (simp add: pool_def)
  have bm: "bitmap_wf (pool_free pool) (pool_slots pool)"
    and len: "length (pool_slots pool) = pool_sizes ! p"
    and ty: "pool_obj_type pool = pool_types ! p"
    and wfs: "list_all (slot_wf (pool_types ! p)) (pool_slots pool)"
    using wf by (auto simp: pool_wf_def)
  show ?thesis
  proof (cases "pool_free pool = 0")
    case True
    then have "r = -1 \<and> h' = h \<and> os' = os"
      using al p by (auto simp: aixos_slot_alloc_def pool_def)
    moreover have "\<forall>i < pool_sizes ! p. slot_used (pool_slots pool ! i)"
      using bitmap_zero bm len True by metis
    ultimately show ?thesis by (simp add: pool_def)
  next
    case False
    define k where "k = ctz (pool_free pool)"
    have k: "k < pool_sizes ! p" "\<not> slot_used (pool_slots pool ! k)"
      using bitmap_ctz[OF bm False] len by (auto simp: k_def)
    have low: "\<forall>j<k. slot_used (pool_slots pool ! j)"
      using ctz_props(3)[OF False] bm k(1) len
      by (metis bitmap_wf_def k_def order.strict_trans)
    define q where "q = pool\<lparr>pool_free := pool_free pool AND NOT (bitm k),
      pool_slots := (pool_slots pool)[k := claim_slot (pool_obj_type pool) obj (pool_slots pool ! k)]\<rparr>"
    have res: "r = int k" "h' = h" "os' = os\<lparr>obj_pools := (obj_pools os)[p := q]\<rparr>"
      using al p False
      by (auto simp: aixos_slot_alloc_def pool_def[symmetric] Let_def scan_low_bit_ctz k_def[symmetric]
          q_def[symmetric])
    have wk: "slot_wf (pool_types ! p) (pool_slots pool ! k)"
      using wfs k(1) len by (simp add: list_all_length)
    have wfq: "pool_wf (pool_types ! p) (pool_sizes ! p) q"
      using wf k(1) len ty bitmap_claim[OF bm] list_all_update[OF wfs slot_wf_claim[OF wk]]
      by (simp add: pool_wf_def q_def)
    have inv': "obj_inv os'" using obj_inv_pools_upd[OF inv p wfq] res by simp
    have lk: "slot_lookup pid i os' =
      (if pid = int p \<and> i = int k
       then Some (claim_slot (pool_types ! p) obj (pool_slots pool ! k)) else slot_lookup pid i os)"
      if "0 \<le> pid" "pid < 7" for pid i
      unfolding res(3) using wf
      by (intro slot_lookup_pools_upd[OF inv p k(1) _ _ that]) (auto simp: q_def pool_def pool_wf_def)
    show ?thesis
      using res(1,2) k low inv' lk unfolding pool_def[symmetric]
      by (intro conjI disjI2 exI[of _ k]) auto
  qed
qed

section \<open>Effect on all pools\<close>

definition slot_gen :: "int \<Rightarrow> int \<Rightarrow> obj_state \<Rightarrow> u32" where
  "slot_gen pool_id index os =
     (case slot_lookup pool_id index os of None \<Rightarrow> 0 | Some sl \<Rightarrow> slot_generation sl)"

text \<open>What a successful allocation of slot \<open>k\<close> does, and what leaves every pool alone.\<close>

definition alloc_effect :: "int \<Rightarrow> kptr \<Rightarrow> obj_state \<Rightarrow> nat \<Rightarrow> obj_state \<Rightarrow> bool" where
  "alloc_effect pid obj os k os' \<longleftrightarrow> obj_inv os' \<and> k < pool_sizes ! nat pid \<and>
     live_slot pid (int k) os = None \<and>
     live_slot pid (int k) os' = Some \<lparr>slot_type = pool_types ! nat pid, slot_used = True,
       slot_generation = next_generation (slot_gen pid (int k) os), slot_obj = obj\<rparr> \<and>
     (\<forall>q i. 0 \<le> q \<and> q < 7 \<and> \<not> (q = pid \<and> i = int k) \<longrightarrow>
        live_slot q i os' = live_slot q i os \<and> slot_gen q i os' = slot_gen q i os)"

definition same_view :: "obj_state \<Rightarrow> obj_state \<Rightarrow> bool" where
  "same_view os os' \<longleftrightarrow> obj_inv os' \<and>
     (\<forall>q i. 0 \<le> q \<and> q < 7 \<longrightarrow> live_slot q i os' = live_slot q i os \<and> slot_gen q i os' = slot_gen q i os)"

lemma alloc_effectI:
  assumes "obj_inv os'" "k < pool_sizes ! nat pid" "0 \<le> pid" "pid < 7"
    and "slot_lookup pid (int k) os = Some sl" "\<not> slot_used sl"
    and "\<And>q j. 0 \<le> q \<Longrightarrow> q < 7 \<Longrightarrow> slot_lookup q j os' =
           (if q = pid \<and> j = int k then Some (claim_slot (pool_types ! nat pid) obj sl)
            else slot_lookup q j os)"
  shows "alloc_effect pid obj os k os'"
  using assms by (auto simp: alloc_effect_def live_slot_def slot_gen_def claim_slot_def)

lemma same_view_refl: "obj_inv os \<Longrightarrow> same_view os os"
  by (simp add: same_view_def)

lemma same_view_alloc_effect:
  "same_view os os1 \<Longrightarrow> 0 \<le> pid \<Longrightarrow> pid < 7 \<Longrightarrow> alloc_effect pid obj os1 k os2 \<Longrightarrow>
   alloc_effect pid obj os k os2"
  by (auto simp: same_view_def alloc_effect_def)

lemma same_view_trans: "same_view os os1 \<Longrightarrow> same_view os1 os2 \<Longrightarrow> same_view os os2"
  by (auto simp: same_view_def)

lemma nth_pages_upd_lookup:
  assumes "n < 16" "length (task_pages os) = 16" "0 \<le> q"
  shows "slot_lookup q i (os\<lparr>task_pages := (task_pages os)[n := pg]\<rparr>) =
    (if q = 0 \<and> 0 \<le> i \<and> i < 256 \<and> nat i div 16 = n
     then map_option (\<lambda>p. page_slots p ! (nat i mod 16)) pg else slot_lookup q i os)"
  using assms by (auto simp: slot_lookup_def task_slot_at_def nth_list_update split: option.splits)

lemma pages_upd_hit:
  "n < 16 \<Longrightarrow> length (task_pages os) = 16 \<Longrightarrow> q = 0 \<and> 0 \<le> i \<and> i < 256 \<and> nat i div 16 = n \<Longrightarrow>
   slot_lookup q i (os\<lparr>task_pages := (task_pages os)[n := Some p]\<rparr>) = Some (page_slots p ! (nat i mod 16))"
  by (subst nth_pages_upd_lookup) auto

lemma lookup_in_page:
  "q = 0 \<and> 0 \<le> i \<and> i < 256 \<and> nat i div 16 = n \<Longrightarrow> task_pages os ! n = Some p \<Longrightarrow>
   slot_lookup q i os = Some (page_slots p ! (nat i mod 16))"
  by (auto simp: slot_lookup_def task_slot_at_def)

lemma obj_inv_pages_upd:
  assumes "obj_inv os" "n < 16" "\<forall>p. pg = Some p \<longrightarrow> page_wf p"
  shows "obj_inv (os\<lparr>task_pages := (task_pages os)[n := pg]\<rparr>)"
  using assms by (auto simp: obj_inv_def dest!: set_update_subset_insert [THEN subsetD])

lemma add_page_same_view:
  assumes "obj_inv os" "n < 16" "task_pages os ! n = None"
  shows "same_view os (os\<lparr>task_pages := (task_pages os)[n := Some fresh_page]\<rparr>)"
proof -
  let ?os = "os\<lparr>task_pages := (task_pages os)[n := Some fresh_page]\<rparr>"
  have len: "length (task_pages os) = 16" using assms(1) by (simp add: obj_inv_def)
  have fp: "page_slots fresh_page ! (nat i mod 16) = zero_slot" for i
    by (simp add: fresh_page_def)
  have "live_slot q i ?os = live_slot q i os \<and> slot_gen q i ?os = slot_gen q i os" if "0 \<le> q" for q i
  proof (cases "q = 0 \<and> 0 \<le> i \<and> i < 256 \<and> nat i div 16 = n")
    case True
    then have "slot_lookup q i os = None" using assms(3)
      by (simp add: slot_lookup_def task_slot_at_def)
    moreover have "slot_lookup q i ?os = Some zero_slot"
      by (simp only: pages_upd_hit[OF assms(2) len True] fp)
    ultimately show ?thesis by (simp add: live_slot_def slot_gen_def zero_slot_def)
  next
    case False
    then have "slot_lookup q i ?os = slot_lookup q i os"
      by (simp only: nth_pages_upd_lookup[OF assms(2) len that] if_False)
    then show ?thesis by (simp add: live_slot_def slot_gen_def)
  qed
  then show ?thesis
    using obj_inv_pages_upd[OF assms(1,2)] fresh_page_wf by (simp add: same_view_def)
qed

lemma page_index_split: "slot_index < (16::nat) \<Longrightarrow> (n * 16 + slot_index) div 16 = n \<and>
    (n * 16 + slot_index) mod 16 = slot_index"
  by simp

lemma page_claim_effect:
  assumes inv: "obj_inv os" and n: "n < 16" and pg: "task_pages os ! n = Some page"
    and fr: "page_free page \<noteq> 0" and k: "k = ctz (page_free page)"
  shows "alloc_effect 0 obj os (n * 16 + k)
    (os\<lparr>task_pages := (task_pages os)[n := Some (page\<lparr>page_free := page_free page AND NOT (bitm k),
       page_slots := (page_slots page)[k := claim_slot AIXOS_OBJ_TASK obj (page_slots page ! k)]\<rparr>)]\<rparr>)"
    (is "alloc_effect 0 obj os _ ?os'")
proof -
  have len: "length (task_pages os) = 16" using inv by (simp add: obj_inv_def)
  have wf: "page_wf page" using obj_inv_page[OF inv n pg] .
  have plen: "length (page_slots page) = 16" and bm: "bitmap_wf (page_free page) (page_slots page)"
    and wfs: "list_all (slot_wf AIXOS_OBJ_TASK) (page_slots page)"
    using wf by (auto simp: page_wf_def)
  have kl: "k < 16" and unused: "\<not> slot_used (page_slots page ! k)"
    using bitmap_ctz[OF bm fr] plen k by auto
  have wk: "slot_wf AIXOS_OBJ_TASK (page_slots page ! k)"
    using wfs kl plen by (simp add: list_all_length)
  define page' where "page' = page\<lparr>page_free := page_free page AND NOT (bitm k),
       page_slots := (page_slots page)[k := claim_slot AIXOS_OBJ_TASK obj (page_slots page ! k)]\<rparr>"
  have wf': "page_wf page'"
    using plen kl bitmap_claim[OF bm] list_all_update[OF wfs slot_wf_claim[OF wk]]
    by (simp add: page_wf_def page'_def)
  have inv': "obj_inv ?os'" using obj_inv_pages_upd[OF inv n] wf' by (simp add: page'_def)
  have old: "slot_lookup 0 (int (n * 16 + k)) os = Some (page_slots page ! k)"
    using n kl pg by (simp add: slot_lookup_def task_slot_at_def nat_add_distrib nat_mult_distrib)
  have new: "slot_lookup q i ?os' =
     (if q = 0 \<and> i = int (n * 16 + k) then Some (claim_slot AIXOS_OBJ_TASK obj (page_slots page ! k))
      else slot_lookup q i os)" if "0 \<le> q" for q i
  proof (cases "q = 0 \<and> 0 \<le> i \<and> i < 256 \<and> nat i div 16 = n")
    case True
    then have i: "i = int (n * 16 + nat i mod 16)"
      by (metis div_mult_mod_eq int_nat_eq)
    have "page_slots page' ! (nat i mod 16) =
      (if nat i mod 16 = k then claim_slot AIXOS_OBJ_TASK obj (page_slots page ! k)
       else page_slots page ! (nat i mod 16))"
      using plen by (auto simp: page'_def nth_list_update)
    moreover have "(i = int (n * 16 + k)) = (nat i mod 16 = k)"
      by (subst i) (simp only: of_nat_eq_iff add_left_cancel)
    ultimately show ?thesis
      unfolding pages_upd_hit[OF n len True] lookup_in_page[OF True pg] page'_def[symmetric]
      using True by simp
  next
    case False
    have "\<not> (q = 0 \<and> i = int (n * 16 + k))"
    proof
      assume "q = 0 \<and> i = int (n * 16 + k)"
      with False n kl show False by (auto simp: nat_add_distrib nat_mult_distrib)
    qed
    with False show ?thesis by (auto simp: nth_pages_upd_lookup[OF n len that])
  qed
  show ?thesis
    using n kl unused new
    by (intro alloc_effectI[OF inv' _ _ _ old]) (simp_all add: pool_types_def pool_sizes_def)
qed

lemma task_alloc_loop_effect:
  "obj_inv os \<Longrightarrow> \<forall>n\<in>set pis. n < 16 \<Longrightarrow>
   task_slot_alloc_loop kmalloc obj pis h os = (r, h', os') \<Longrightarrow>
   (r = -1 \<and> same_view os os') \<or> (\<exists>k. r = int k \<and> alloc_effect 0 obj os k os')"
proof (induction pis arbitrary: h os)
  case Nil
  then show ?case by (auto simp: same_view_refl)
next
  case (Cons n pis)
  have n: "n < 16" using Cons.prems(2) by simp
  have len: "length (task_pages os) = 16" using Cons.prems(1) by (simp add: obj_inv_def)
  show ?case
  proof (cases "task_pages os ! n")
    case pg: (Some page)
    show ?thesis
    proof (cases "page_free page = 0")
      case True
      then show ?thesis using Cons.IH[of os h] Cons.prems pg by auto
    next
      case False
      then show ?thesis
        using Cons.prems(3) page_claim_effect[OF Cons.prems(1) n pg False refl, of obj] pg
        by (intro disjI2 exI[of _ "n * 16 + ctz (page_free page)"]) (auto simp: Let_def)
    qed
  next
    case None
    obtain ok h1 where km: "kmalloc h = (ok, h1)" by (cases "kmalloc h")
    show ?thesis
    proof (cases ok)
      case False
      then show ?thesis using Cons.prems None km by (auto simp: same_view_refl)
    next
      case True
      let ?os1 = "os\<lparr>task_pages := (task_pages os)[n := Some fresh_page]\<rparr>"
      have sv: "same_view os ?os1" by (rule add_page_same_view[OF Cons.prems(1) n None])
      then have inv1: "obj_inv ?os1" by (simp add: same_view_def)
      have pg1: "task_pages ?os1 ! n = Some fresh_page" using len n by simp
      have "page_free fresh_page \<noteq> 0"
        using bit_task_page_free_mask[of 0] by (auto simp: fresh_page_def)
      from page_claim_effect[OF inv1 n pg1 this refl, of obj]
      have "alloc_effect 0 obj os (n * 16 + ctz (page_free fresh_page)) os' \<and>
            r = int (n * 16 + ctz (page_free fresh_page))"
        using Cons.prems(3) None km True \<open>page_free fresh_page \<noteq> 0\<close>
          same_view_alloc_effect[OF sv, of 0 obj]
        by (auto simp: Let_def)
      then show ?thesis by blast
    qed
  qed
qed

lemma slot_alloc_effect:
  assumes inv: "obj_inv os" and pid: "0 \<le> pid" "pid < 7"
    and al: "aixos_slot_alloc kmalloc pid obj h os = (r, h', os')"
  shows "(r = -1 \<and> same_view os os') \<or> (\<exists>k. r = int k \<and> alloc_effect pid obj os k os')"
proof (cases "pid = 0")
  case True
  have "\<forall>n\<in>set [0..<16]. n < (16::nat)" by simp
  moreover have "task_slot_alloc_loop kmalloc obj [0..<16] h os = (r, h', os')"
    using al True by (simp add: aixos_slot_alloc_def task_slot_alloc_def)
  ultimately show ?thesis
    using task_alloc_loop_effect[OF inv, of "[0..<16]" kmalloc obj h r h' os'] True by simp
next
  case False
  define p where "p = nat pid"
  have p: "1 \<le> p" "p < 7" "pid = int p" using False pid by (auto simp: p_def)
  from static_alloc_cases[OF inv p(1,2) al[unfolded p(3)]] show ?thesis
  proof (elim conjE disjE exE)
    fix k
    assume r: "r = int k" and k: "k < pool_sizes ! p"
      and un: "\<not> slot_used (pool_slots (obj_pools os ! p) ! k)" and inv': "obj_inv os'"
      and lk: "\<forall>pid i. 0 \<le> pid \<and> pid < 7 \<longrightarrow> slot_lookup pid i os' =
           (if pid = int p \<and> i = int k
            then Some (claim_slot (pool_types ! p) obj (pool_slots (obj_pools os ! p) ! k))
            else slot_lookup pid i os)"
    have "pool_max (obj_pools os ! p) = pool_sizes ! p"
      using obj_inv_pool[OF inv p(1,2)] by (simp add: pool_wf_def)
    then have old: "slot_lookup (int p) (int k) os = Some (pool_slots (obj_pools os ! p) ! k)"
      using k p(1) by (simp add: slot_lookup_static)
    have "alloc_effect pid obj os k os'"
      using k un p lk by (intro alloc_effectI[OF inv' _ _ _ old[folded p(3)]]) auto
    with r show ?thesis by blast
  qed (auto simp: same_view_refl[OF inv])
qed

text \<open>What releasing slot \<open>i\<close> of a pool does, used or not.\<close>

definition free_effect :: "int \<Rightarrow> int \<Rightarrow> obj_state \<Rightarrow> obj_state \<Rightarrow> bool" where
  "free_effect pid i os os' \<longleftrightarrow> obj_inv os' \<and>
     (\<forall>q j. 0 \<le> q \<and> q < 7 \<longrightarrow>
        live_slot q j os' = (if q = pid \<and> j = i then None else live_slot q j os) \<and>
        slot_gen q j os' = slot_gen q j os)"

lemma free_effectI:
  assumes "obj_inv os'" "slot_lookup pid i os = Some sl"
    and "\<And>q j. 0 \<le> q \<Longrightarrow> q < 7 \<Longrightarrow> slot_lookup q j os' =
           (if q = pid \<and> j = i then Some (release_slot sl) else slot_lookup q j os)"
  shows "free_effect pid i os os'"
  using assms by (auto simp: free_effect_def live_slot_def slot_gen_def release_slot_def)

lemma page_release_effect:
  assumes inv: "obj_inv os" and i: "0 \<le> i" "i < 256" and pg: "task_pages os ! (nat i div 16) = Some page"
  shows "free_effect 0 i os (os\<lparr>task_pages := (task_pages os)[nat i div 16 :=
           Some (release_page_slot (nat i mod 16) page)]\<rparr>)" (is "free_effect 0 i os ?os'")
proof -
  define n where "n = nat i div 16"
  have n: "n < 16" using i by (simp add: n_def)
  have len: "length (task_pages os) = 16" using inv by (simp add: obj_inv_def)
  have pwf: "page_wf page" using obj_inv_page[OF inv n] pg by (simp add: n_def)
  have plen: "length (page_slots page) = 16" using pwf by (simp add: page_wf_def)
  have k: "nat i mod 16 < 16" by simp
  have wfs: "slot_wf AIXOS_OBJ_TASK (page_slots page ! (nat i mod 16))"
    using pwf plen k by (simp add: page_wf_def list_all_length)
  have "page_wf (release_page_slot (nat i mod 16) page)"
    using pwf plen k bitmap_release[of "page_free page" "page_slots page" "nat i mod 16"]
      slot_wf_release[OF wfs]
    by (simp add: page_wf_def release_page_slot_def list_all_update)
  then have inv': "obj_inv ?os'" using obj_inv_pages_upd[OF inv n] by (simp add: n_def)
  have lk: "slot_lookup 0 i os = Some (page_slots page ! (nat i mod 16))"
    using i pg by (simp add: slot_lookup_def task_slot_at_def)
  show ?thesis
  proof (rule free_effectI[OF inv' lk])
    fix q j :: int assume q: "0 \<le> q" "q < 7"
    show "slot_lookup q j ?os' =
      (if q = 0 \<and> j = i then Some (release_slot (page_slots page ! (nat i mod 16)))
       else slot_lookup q j os)"
    proof (cases "q = 0 \<and> 0 \<le> j \<and> j < 256 \<and> nat j div 16 = n")
      case True
      have "(j = i) = (nat j mod 16 = nat i mod 16)"
        using True i by (metis n_def div_mod_decomp eq_nat_nat_iff)
      then show ?thesis
        using True plen
        unfolding n_def[symmetric] pages_upd_hit[OF n len True]
          lookup_in_page[OF True pg[folded n_def]]
        by (simp add: release_page_slot_def nth_list_update)
    next
      case False
      then have "\<not> (q = 0 \<and> j = i)" using i by (auto simp: n_def)
      with False show ?thesis
        by (simp only: nth_pages_upd_lookup[OF n len q(1), unfolded n_def] n_def if_False)
    qed
  qed
qed

lemma static_release_effect:
  assumes inv: "obj_inv os" and p: "1 \<le> p" "p < 7" and i: "i < pool_sizes ! p"
  shows "free_effect (int p) (int i) os
    (os\<lparr>obj_pools := (obj_pools os)[p := release_pool_slot i (obj_pools os ! p)]\<rparr>)"
    (is "free_effect _ _ os ?os'")
proof -
  let ?pool = "obj_pools os ! p"
  have wf: "pool_wf (pool_types ! p) (pool_sizes ! p) ?pool" by (rule obj_inv_pool[OF inv p])
  have len: "length (pool_slots ?pool) = pool_sizes ! p" using wf by (simp add: pool_wf_def)
  have "slot_wf (pool_types ! p) (pool_slots ?pool ! i)"
    using wf len i by (simp add: pool_wf_def list_all_length)
  then have wf': "pool_wf (pool_types ! p) (pool_sizes ! p) (release_pool_slot i ?pool)"
    using wf i len pool_sizes_le[OF p] bitmap_release[of "pool_free ?pool" "pool_slots ?pool" i]
    by (auto simp: pool_wf_def release_pool_slot_def list_all_update slot_wf_release)
  have lk: "slot_lookup (int p) (int i) os = Some (pool_slots ?pool ! i)"
    using wf i p by (simp add: slot_lookup_static pool_wf_def)
  show ?thesis
    using wf by (intro free_effectI[OF obj_inv_pools_upd[OF inv p wf'] lk]
        slot_lookup_pools_upd[OF inv p i]) (auto simp: release_pool_slot_def pool_wf_def)
qed

lemma live_slot_none_free_effect:
  "obj_inv os \<Longrightarrow> live_slot pid i os = None \<Longrightarrow> free_effect pid i os os"
  by (auto simp: free_effect_def)

lemma slot_free_effect:
  assumes inv: "obj_inv os" and pid: "0 \<le> pid" "pid < 7"
  shows "free_effect pid i os (aixos_slot_free pid i os)"
proof (cases "live_slot pid i os")
  case None
  then have "aixos_slot_free pid i os = os"
    using pid by (auto simp: aixos_slot_free_def live_slot_def split: option.splits if_splits)
  then show ?thesis using live_slot_none_free_effect[OF inv None] by simp
next
  case (Some sl)
  then have lk: "slot_lookup pid i os = Some sl" and us: "slot_used sl"
    by (auto simp: live_slot_def split: option.splits if_splits)
  show ?thesis
  proof (cases "pid = 0")
    case True
    obtain page where "0 \<le> i" "i < 256" "task_pages os ! (nat i div 16) = Some page"
      using lk True by (auto simp: slot_lookup_def task_slot_at_def split: if_splits option.splits)
    from page_release_effect[OF inv this] True lk us this show ?thesis
      by (simp add: aixos_slot_free_def Let_def)
  next
    case False
    define p where "p = nat pid"
    have p: "1 \<le> p" "p < 7" "pid = int p" using False pid by (auto simp: p_def)
    have "pool_max (obj_pools os ! p) = pool_sizes ! p"
      using obj_inv_pool[OF inv p(1,2)] by (simp add: pool_wf_def)
    then have i: "0 \<le> i" "nat i < pool_sizes ! p"
      using lk p by (auto simp: slot_lookup_static split: if_splits)
    from static_release_effect[OF inv p(1,2) i(2)] i p lk us show ?thesis
      by (simp add: aixos_slot_free_def)
  qed
qed

end
