(* ===== verification/Handles.thy ===== *)
theory Handles
  imports Objects
begin

text \<open>
  What the object pools of \<^verbatim>\<open>kernel/object.c\<close> promise to the services built on them. The locale
  \<open>handle_pool\<close> states the contract the IPC, task and timer code relies on (a created handle
  resolves to its object until it is destroyed, whatever happens to other handles); it is
  interpreted on the real slot operations for each of the seven pool types. The second part
  bounds how long a handle to a freed slot is recognised as stale.
\<close>

section \<open>Create and destroy through handles\<close>

text \<open>The order in which every \<open>aixos_*_create\<close> and \<open>aixos_*_delete\<close> uses the slot operations:
  allocate, then encode the handle; resolve, then free the slot the handle names.\<close>

definition obj_create ::
  "('h \<Rightarrow> bool \<times> 'h) \<Rightarrow> aixos_obj_type \<Rightarrow> kptr \<Rightarrow> 'h \<times> obj_state \<Rightarrow> aixos_handle_t option \<times> 'h \<times> obj_state"
  where
  "obj_create kmalloc ty obj st =
     (let (idx, h', os') = aixos_slot_alloc kmalloc (type_to_pool_id ty) obj (fst st) (snd st)
      in (if idx < 0 then None else Some (aixos_slot_handle (type_to_pool_id ty) idx os'), h', os'))"

definition obj_destroy :: "aixos_obj_type \<Rightarrow> aixos_handle_t \<Rightarrow> 'h \<times> obj_state \<Rightarrow> 'h \<times> obj_state" where
  "obj_destroy ty h st =
     (if aixos_obj_from_handle h ty (snd st) = KNull then st
      else (fst st, aixos_slot_free (type_to_pool_id ty) (uint (AIXOS_HANDLE_IDX h)) (snd st)))"

definition obj_resolve :: "aixos_obj_type \<Rightarrow> aixos_handle_t \<Rightarrow> 'h \<times> obj_state \<Rightarrow> kptr option" where
  "obj_resolve ty h st =
     (let p = aixos_obj_from_handle h ty (snd st) in if p = KNull then None else Some p)"

section \<open>Handles and live slots\<close>

lemma pool_id_range: "0 \<le> type_to_pool_id ty \<Longrightarrow> type_to_pool_id ty < 7"
  by (cases ty) (auto simp: type_to_pool_id_def)

lemma pool_id_type: "0 \<le> type_to_pool_id ty \<Longrightarrow> pool_types ! nat (type_to_pool_id ty) = ty"
  by (cases ty) (auto simp: type_to_pool_id_def pool_types_def)

lemma pool_size_le_256: "0 \<le> pid \<Longrightarrow> pid < 7 \<Longrightarrow> pool_sizes ! nat pid \<le> 256"
proof -
  assume "0 \<le> pid" "pid < 7"
  then have "pid \<in> {0, 1, 2, 3, 4, 5, 6}" by auto
  then show ?thesis by (auto simp: pool_sizes_def)
qed

lemma from_handle_live:
  "0 \<le> type_to_pool_id ty \<Longrightarrow>
   aixos_obj_from_handle h ty os =
     (case live_slot (type_to_pool_id ty) (uint (AIXOS_HANDLE_IDX h)) os of
        None \<Rightarrow> KNull
      | Some sl \<Rightarrow> if slot_generation sl \<noteq> AIXOS_HANDLE_GEN h \<or> slot_type sl \<noteq> ty then KNull
                  else slot_obj sl)"
  by (cases "slot_lookup (type_to_pool_id ty) (uint (AIXOS_HANDLE_IDX h)) os")
    (auto simp: aixos_obj_from_handle_def live_slot_def Let_def)

lemma is_valid_live:
  "aixos_handle_is_valid h ty os \<longleftrightarrow> 0 \<le> type_to_pool_id ty \<and> h \<noteq> AIXOS_HANDLE_INVALID \<and>
     (\<exists>sl. live_slot (type_to_pool_id ty) (uint (AIXOS_HANDLE_IDX h)) os = Some sl \<and>
        slot_generation sl = AIXOS_HANDLE_GEN h \<and> slot_type sl = ty)"
  by (auto simp: aixos_handle_is_valid_def live_slot_def Let_def split: option.splits)

lemma slot_handle_live:
  "0 \<le> pid \<Longrightarrow> pid < 7 \<Longrightarrow> live_slot pid i os = Some sl \<Longrightarrow>
   aixos_slot_handle pid i os = AIXOS_HANDLE_MAKE (word_of_int i) (slot_generation sl)"
  by (auto simp: aixos_slot_handle_def live_slot_def split: option.splits if_splits)

lemma handle_index_roundtrip:
  assumes "k < 256"
  shows "uint (AIXOS_HANDLE_IDX (AIXOS_HANDLE_MAKE (word_of_int (int k)) g)) = int k"
proof -
  have "unat (word_of_int (int k) :: u32) = k" using assms by (simp add: unat_of_nat take_bit_nat_eq_self)
  then show ?thesis using assms
    by (simp add: handle_idx_make and_mask8_small uint_nat)
qed

lemma handle_eqI:
  "uint (AIXOS_HANDLE_IDX h) = uint (AIXOS_HANDLE_IDX h') \<Longrightarrow>
   AIXOS_HANDLE_GEN h = AIXOS_HANDLE_GEN h' \<Longrightarrow> h = h'"
  by (metis handle_make_parts word_uint_eq_iff)

lemma live_slot_wf:
  assumes "obj_inv os" "0 \<le> pid" "pid < 7" "live_slot pid i os = Some sl"
  shows "slot_wf (pool_types ! nat pid) sl \<and> slot_used sl"
proof (cases "pid = 0")
  case True
  from assms(4) True obtain p where i: "0 \<le> i" "i < 256" and p: "task_pages os ! (nat i div 16) = Some p"
    and sl: "sl = page_slots p ! (nat i mod 16)" "slot_used sl"
    by (auto simp: live_slot_def slot_lookup_def task_slot_at_def split: option.splits if_splits)
  have "page_wf p" using obj_inv_page[OF assms(1) _ p] i by simp
  then show ?thesis using sl True by (simp add: page_wf_def list_all_length pool_types_def)
next
  case False
  define n where "n = nat pid"
  have n: "1 \<le> n" "n < 7" "pid = int n" using False assms by (auto simp: n_def)
  have wf: "pool_wf (pool_types ! n) (pool_sizes ! n) (obj_pools os ! n)"
    by (rule obj_inv_pool[OF assms(1) n(1,2)])
  from assms(4) wf have "nat i < length (pool_slots (obj_pools os ! n))"
    "sl = pool_slots (obj_pools os ! n) ! nat i" "slot_used sl"
    by (auto simp: n(3) slot_lookup_static[OF n(1)] live_slot_def pool_wf_def split: option.splits if_splits)
  then show ?thesis using wf n by (auto simp: pool_wf_def list_all_length)
qed

lemma resolve_live:
  assumes "obj_inv os" "0 \<le> type_to_pool_id ty"
  shows "aixos_obj_from_handle h ty os =
     (case live_slot (type_to_pool_id ty) (uint (AIXOS_HANDLE_IDX h)) os of
        None \<Rightarrow> KNull
      | Some sl \<Rightarrow> if slot_generation sl = AIXOS_HANDLE_GEN h then slot_obj sl else KNull)"
  using live_slot_wf[OF assms pool_id_range[OF assms(2)]] pool_id_type[OF assms(2)]
  by (auto simp: from_handle_live[OF assms(2)] slot_wf_def split: option.splits)

section \<open>The contract\<close>

datatype ('o, 'h) pool_op = PCreate 'o | PDestroy 'h

locale handle_pool =
  fixes inv :: "'s \<Rightarrow> bool"
    and okobj :: "'o \<Rightarrow> bool"
    and create :: "'o \<Rightarrow> 's \<Rightarrow> 'h option \<times> 's"
    and destroy :: "'h \<Rightarrow> 's \<Rightarrow> 's"
    and resolve :: "'h \<Rightarrow> 's \<Rightarrow> 'o option"
  assumes create_inv: "inv s \<Longrightarrow> create ob s = (r, s') \<Longrightarrow> inv s'"
    and create_fail: "inv s \<Longrightarrow> create ob s = (None, s') \<Longrightarrow> resolve g s' = resolve g s"
    and create_resolve: "inv s \<Longrightarrow> okobj ob \<Longrightarrow> create ob s = (Some h, s') \<Longrightarrow> resolve h s' = Some ob"
    and create_fresh: "inv s \<Longrightarrow> create ob s = (Some h, s') \<Longrightarrow> resolve h s = None"
    and create_other: "inv s \<Longrightarrow> create ob s = (Some h, s') \<Longrightarrow> g \<noteq> h \<Longrightarrow> resolve g s' = resolve g s"
    and destroy_inv: "inv s \<Longrightarrow> inv (destroy h s)"
    and destroy_resolve: "inv s \<Longrightarrow> resolve h (destroy h s) = None"
    and destroy_other: "inv s \<Longrightarrow> g \<noteq> h \<Longrightarrow> resolve g (destroy h s) = resolve g s"
begin

definition pstep :: "('o, 'h) pool_op \<Rightarrow> 's \<Rightarrow> 's" where
  "pstep op s = (case op of PCreate ob \<Rightarrow> snd (create ob s) | PDestroy h \<Rightarrow> destroy h s)"

lemma pstep_inv: "inv s \<Longrightarrow> inv (pstep op s)"
  using create_inv destroy_inv by (auto simp: pstep_def split: pool_op.splits intro: create_inv prod.collapse[symmetric])

lemma run_inv: "inv s \<Longrightarrow> inv (fold pstep ops s)"
  by (induction ops arbitrary: s) (auto simp: pstep_inv)

lemma pstep_keeps:
  assumes "inv s" "resolve h s = Some ob" "op \<noteq> PDestroy h"
  shows "resolve h (pstep op s) = Some ob"
proof (cases op)
  case (PCreate ob')
  obtain r s' where c: "create ob' s = (r, s')" by (cases "create ob' s")
  show ?thesis
  proof (cases r)
    case None
    then show ?thesis using create_fail[OF assms(1)] c assms(2) PCreate by (simp add: pstep_def)
  next
    case (Some h')
    then have "h' \<noteq> h" using create_fresh[OF assms(1)] c assms(2) by auto
    then show ?thesis using create_other[OF assms(1)] c Some assms(2) PCreate by (auto simp: pstep_def)
  qed
next
  case (PDestroy h')
  then show ?thesis using assms destroy_other by (auto simp: pstep_def)
qed

lemma handle_survives:
  assumes "inv s" "resolve h s = Some ob" "PDestroy h \<notin> set ops"
  shows "resolve h (fold pstep ops s) = Some ob"
  using assms by (induction ops arbitrary: s) (auto simp: pstep_keeps pstep_inv)

lemma created_handle_survives:
  assumes "inv s" "okobj ob" "create ob s = (Some h, s')" "PDestroy h \<notin> set ops"
  shows "resolve h (fold pstep ops s') = Some ob"
  using handle_survives create_resolve create_inv assms by blast

lemma created_handles_distinct:
  assumes "inv s" "okobj ob" "create ob s = (Some h, s')" "PDestroy h \<notin> set ops"
    and "create ob' (fold pstep ops s') = (Some h', s'')"
  shows "h \<noteq> h'"
  using created_handle_survives[OF assms(1-4)] create_fresh[OF run_inv[OF create_inv[OF assms(1,3)]] assms(5)]
  by auto

end

section \<open>The slot operations meet the contract\<close>

lemma slot_alloc_result:
  assumes "obj_inv os" "0 \<le> pid" "pid < 7"
  shows "(\<exists>h' os'. aixos_slot_alloc kmalloc pid obj h os = (-1, h', os') \<and> same_view os os') \<or>
    (\<exists>k h' os'. aixos_slot_alloc kmalloc pid obj h os = (int k, h', os') \<and> alloc_effect pid obj os k os')"
  using slot_alloc_effect[OF assms, of kmalloc obj h] by (metis prod_cases3)

lemma create_cases:
  assumes inv: "obj_inv (snd st)" and ty: "0 \<le> type_to_pool_id ty"
    and c: "obj_create kmalloc ty obj st = (r, st')"
  obtains (fail) "r = None" "same_view (snd st) (snd st')"
  | (ok) k where "alloc_effect (type_to_pool_id ty) obj (snd st) k (snd st')"
      "r = Some (AIXOS_HANDLE_MAKE (word_of_int (int k))
                  (next_generation (slot_gen (type_to_pool_id ty) (int k) (snd st))))"
  using slot_alloc_result[OF inv ty pool_id_range[OF ty], of kmalloc obj "fst st"] c
    slot_handle_live[OF ty pool_id_range[OF ty]]
  by (auto simp: obj_create_def alloc_effect_def)

lemma slot_gen_wf:
  assumes "obj_inv os" "0 \<le> pid" "pid < 7"
  shows "unat (slot_gen pid i os) < 2 ^ 24"
proof (cases "pid = 0")
  case True
  show ?thesis
  proof (cases "slot_lookup pid i os")
    case (Some sl)
    then obtain p where p: "task_pages os ! (nat i div 16) = Some p" "i < 256"
      and sl: "sl = page_slots p ! (nat i mod 16)"
      using True by (auto simp: slot_lookup_def task_slot_at_def split: option.splits if_splits)
    then have "page_wf p" using obj_inv_page[OF assms(1) _ p(1)] by simp
    then show ?thesis using Some sl by (simp add: page_wf_def list_all_length slot_wf_def slot_gen_def)
  qed (simp add: slot_gen_def)
next
  case False
  define n where "n = nat pid"
  have n: "1 \<le> n" "n < 7" "pid = int n" using False assms by (auto simp: n_def)
  from obj_inv_pool[OF assms(1) n(1,2)] show ?thesis
    by (auto simp: n(3) slot_gen_def slot_lookup_static[OF n(1)] pool_wf_def list_all_length slot_wf_def
        split: option.splits if_splits)
qed

lemma alloc_handle_parts:
  assumes "alloc_effect pid obj os k os'" "obj_inv os" "0 \<le> pid" "pid < 7"
  shows "uint (AIXOS_HANDLE_IDX (AIXOS_HANDLE_MAKE (word_of_int (int k)) (next_generation (slot_gen pid (int k) os)))) = int k"
    and "AIXOS_HANDLE_GEN (AIXOS_HANDLE_MAKE (word_of_int (int k)) (next_generation (slot_gen pid (int k) os))) =
         next_generation (slot_gen pid (int k) os)"
proof -
  have "k < 256" using assms(1) pool_size_le_256[OF assms(3,4)] by (auto simp: alloc_effect_def)
  then show "uint (AIXOS_HANDLE_IDX (AIXOS_HANDLE_MAKE (word_of_int (int k)) (next_generation (slot_gen pid (int k) os)))) = int k"
    by (rule handle_index_roundtrip)
  show "AIXOS_HANDLE_GEN (AIXOS_HANDLE_MAKE (word_of_int (int k)) (next_generation (slot_gen pid (int k) os))) =
         next_generation (slot_gen pid (int k) os)"
    using next_generation_range[OF slot_gen_wf[OF assms(2-4)]] by (simp add: generation_field)
qed

lemma handle_pool_slots:
  assumes ty: "0 \<le> type_to_pool_id ty"
  shows "handle_pool (\<lambda>st. obj_inv (snd st)) (\<lambda>ob. ob \<noteq> KNull)
           (obj_create kmalloc ty) (obj_destroy ty) (obj_resolve ty)"
proof -
  let ?pid = "type_to_pool_id ty"
  note pid = ty pool_id_range[OF ty]
  show ?thesis
  proof (unfold_locales, goal_cases)
    case (1 s ob r s')
    then show ?case by (auto elim!: create_cases[OF _ ty] simp: same_view_def alloc_effect_def)
  next
    case (2 s ob s' g)
    then show ?case using pid
      by (elim create_cases[OF _ ty])
        (auto simp: obj_resolve_def resolve_live[OF _ ty] resolve_live[OF 2(1) ty] same_view_def)
  next
    case (3 s ob h s')
    from 3(1) ty 3(3) show ?case
    proof (cases rule: create_cases)
      case (ok k)
      then show ?thesis using 3 alloc_handle_parts[OF ok(1) 3(1) pid]
        by (auto simp: obj_resolve_def resolve_live[OF _ ty] alloc_effect_def)
    qed simp
  next
    case (4 s ob h s')
    from 4(1) ty 4(2) show ?case
    proof (cases rule: create_cases)
      case (ok k)
      then show ?thesis using 4 alloc_handle_parts[OF ok(1) 4(1) pid]
        by (auto simp: obj_resolve_def resolve_live[OF _ ty] alloc_effect_def)
    qed simp
  next
    case (5 s ob h s' g)
    from 5(1) ty 5(2) show ?case
    proof (cases rule: create_cases)
      case (ok k)
      note parts = alloc_handle_parts[OF ok(1) 5(1) pid]
      have inv': "obj_inv (snd s')" using ok(1) by (simp add: alloc_effect_def)
      show ?thesis
      proof (cases "uint (AIXOS_HANDLE_IDX g) = int k")
        case True
        then have "AIXOS_HANDLE_GEN g \<noteq> next_generation (slot_gen ?pid (int k) (snd s))"
          using 5(3) ok(2) parts handle_eqI[of g h] by auto
        then show ?thesis using True ok(1) 5(1) inv'
          by (auto simp: obj_resolve_def resolve_live[OF _ ty] alloc_effect_def)
      next
        case False
        then show ?thesis using ok(1) 5(1) inv' pid
          by (auto simp: obj_resolve_def resolve_live[OF _ ty] alloc_effect_def)
      qed
    qed simp
  next
    case (6 s h)
    then show ?case using slot_free_effect[OF 6 pid]
      by (auto simp: obj_destroy_def free_effect_def)
  next
    case (7 s h)
    then show ?case using slot_free_effect[OF 7 pid, of "uint (AIXOS_HANDLE_IDX h)"] pid
      by (auto simp: obj_destroy_def obj_resolve_def free_effect_def resolve_live[OF _ ty])
  next
    case (8 s g h)
    show ?case
    proof (cases "aixos_obj_from_handle h ty (snd s) = KNull")
      case True
      then show ?thesis by (simp add: obj_destroy_def)
    next
      case False
      then obtain sl where live: "live_slot ?pid (uint (AIXOS_HANDLE_IDX h)) (snd s) = Some sl"
        "slot_generation sl = AIXOS_HANDLE_GEN h"
        using 8(1) by (auto simp: resolve_live[OF _ ty] split: option.splits if_splits)
      have ne: "AIXOS_HANDLE_GEN g \<noteq> slot_generation sl"
        if "uint (AIXOS_HANDLE_IDX g) = uint (AIXOS_HANDLE_IDX h)"
        using that live(2) 8(2) handle_eqI[of g h] by auto
      show ?thesis
        using slot_free_effect[OF 8(1) pid, of "uint (AIXOS_HANDLE_IDX h)"] pid ne live False 8(1)
        by (auto simp: obj_destroy_def obj_resolve_def free_effect_def resolve_live[OF _ ty] split: option.splits)
    qed
  qed
qed

interpretation task_handles: handle_pool "\<lambda>st. obj_inv (snd st)" "\<lambda>ob. ob \<noteq> KNull"
    "obj_create kmalloc AIXOS_OBJ_TASK" "obj_destroy AIXOS_OBJ_TASK" "obj_resolve AIXOS_OBJ_TASK"
  for kmalloc :: "'h \<Rightarrow> bool \<times> 'h"
  by (rule handle_pool_slots) (simp add: type_to_pool_id_def)

interpretation sem_handles: handle_pool "\<lambda>st. obj_inv (snd st)" "\<lambda>ob. ob \<noteq> KNull"
    "obj_create kmalloc AIXOS_OBJ_SEM" "obj_destroy AIXOS_OBJ_SEM" "obj_resolve AIXOS_OBJ_SEM"
  for kmalloc :: "'h \<Rightarrow> bool \<times> 'h"
  by (rule handle_pool_slots) (simp add: type_to_pool_id_def)

interpretation mutex_handles: handle_pool "\<lambda>st. obj_inv (snd st)" "\<lambda>ob. ob \<noteq> KNull"
    "obj_create kmalloc AIXOS_OBJ_MUTEX" "obj_destroy AIXOS_OBJ_MUTEX" "obj_resolve AIXOS_OBJ_MUTEX"
  for kmalloc :: "'h \<Rightarrow> bool \<times> 'h"
  by (rule handle_pool_slots) (simp add: type_to_pool_id_def)

interpretation mq_handles: handle_pool "\<lambda>st. obj_inv (snd st)" "\<lambda>ob. ob \<noteq> KNull"
    "obj_create kmalloc AIXOS_OBJ_MQ" "obj_destroy AIXOS_OBJ_MQ" "obj_resolve AIXOS_OBJ_MQ"
  for kmalloc :: "'h \<Rightarrow> bool \<times> 'h"
  by (rule handle_pool_slots) (simp add: type_to_pool_id_def)

interpretation event_handles: handle_pool "\<lambda>st. obj_inv (snd st)" "\<lambda>ob. ob \<noteq> KNull"
    "obj_create kmalloc AIXOS_OBJ_EVENT" "obj_destroy AIXOS_OBJ_EVENT" "obj_resolve AIXOS_OBJ_EVENT"
  for kmalloc :: "'h \<Rightarrow> bool \<times> 'h"
  by (rule handle_pool_slots) (simp add: type_to_pool_id_def)

interpretation pipe_handles: handle_pool "\<lambda>st. obj_inv (snd st)" "\<lambda>ob. ob \<noteq> KNull"
    "obj_create kmalloc AIXOS_OBJ_PIPE" "obj_destroy AIXOS_OBJ_PIPE" "obj_resolve AIXOS_OBJ_PIPE"
  for kmalloc :: "'h \<Rightarrow> bool \<times> 'h"
  by (rule handle_pool_slots) (simp add: type_to_pool_id_def)

interpretation timer_handles: handle_pool "\<lambda>st. obj_inv (snd st)" "\<lambda>ob. ob \<noteq> KNull"
    "obj_create kmalloc AIXOS_OBJ_TIMER" "obj_destroy AIXOS_OBJ_TIMER" "obj_resolve AIXOS_OBJ_TIMER"
  for kmalloc :: "'h \<Rightarrow> bool \<times> 'h"
  by (rule handle_pool_slots) (simp add: type_to_pool_id_def)

section \<open>How long a stale handle is recognised\<close>

text \<open>A sequence of slot operations on any pools, and how often it allocated one slot.\<close>

datatype slot_op = OpAlloc int kptr | OpFree int int

fun slot_step :: "('h \<Rightarrow> bool \<times> 'h) \<Rightarrow> slot_op \<Rightarrow> 'h \<times> obj_state \<Rightarrow> int \<times> 'h \<times> obj_state" where
  "slot_step kmalloc (OpAlloc pid obj) st = aixos_slot_alloc kmalloc pid obj (fst st) (snd st)"
| "slot_step kmalloc (OpFree pid i) st = (-1, fst st, aixos_slot_free pid i (snd st))"

fun slot_run :: "('h \<Rightarrow> bool \<times> 'h) \<Rightarrow> slot_op list \<Rightarrow> 'h \<times> obj_state \<Rightarrow> 'h \<times> obj_state" where
  "slot_run kmalloc [] st = st"
| "slot_run kmalloc (op # ops) st = slot_run kmalloc ops (snd (slot_step kmalloc op st))"

fun alloc_count ::
  "('h \<Rightarrow> bool \<times> 'h) \<Rightarrow> int \<Rightarrow> int \<Rightarrow> slot_op list \<Rightarrow> 'h \<times> obj_state \<Rightarrow> nat" where
  "alloc_count kmalloc pid i [] st = 0"
| "alloc_count kmalloc pid i (op # ops) st =
     (let (r, st') = slot_step kmalloc op st
      in (case op of OpAlloc p _ \<Rightarrow> if p = pid \<and> r = i then 1 else 0 | OpFree _ _ \<Rightarrow> 0)
         + alloc_count kmalloc pid i ops st')"

text \<open>A slot is as many generations on as it was allocated; a slot that was free and has not
  been allocated is still free.\<close>

definition aged :: "int \<Rightarrow> int \<Rightarrow> u32 \<Rightarrow> nat \<Rightarrow> obj_state \<Rightarrow> bool" where
  "aged pid i g n os \<longleftrightarrow> slot_gen pid i os = (next_generation ^^ n) g \<and>
     (n = 0 \<longrightarrow> live_slot pid i os = None)"

lemma live_slot_gen: "live_slot pid i os = Some sl \<Longrightarrow> slot_gen pid i os = slot_generation sl"
  by (auto simp: live_slot_def slot_gen_def split: option.splits if_splits)

lemma alloc_effect_gen:
  "alloc_effect pid obj os k os' \<Longrightarrow> slot_gen pid (int k) os' = next_generation (slot_gen pid (int k) os)"
  by (auto simp: alloc_effect_def dest: live_slot_gen)

lemma slot_step_aged:
  assumes inv: "obj_inv (snd st)" and pid: "0 \<le> pid" "pid < 7" and ag: "aged pid i g n (snd st)"
    and i: "0 \<le> i"
    and st: "slot_step kmalloc op st = (r, st')"
  shows "obj_inv (snd st') \<and>
    aged pid i g (n + (case op of OpAlloc p _ \<Rightarrow> if p = pid \<and> r = i then 1 else 0 | OpFree _ _ \<Rightarrow> 0)) (snd st')"
proof (cases op)
  case (OpAlloc p obj)
  show ?thesis
  proof (cases "0 \<le> p \<and> p < 7")
    case True
    then show ?thesis
      using slot_alloc_result[OF inv, of p kmalloc obj "fst st"] st OpAlloc ag pid i
      by (auto simp: same_view_def aged_def alloc_effect_gen) (auto simp: alloc_effect_def)
  next
    case False
    then show ?thesis using st OpAlloc ag inv i pid by (auto simp: aixos_slot_alloc_def)
  qed
next
  case (OpFree p j)
  show ?thesis
  proof (cases "0 \<le> p \<and> p < 7")
    case True
    then show ?thesis
      using slot_free_effect[OF inv, of p j] st OpFree ag pid
      by (auto simp: free_effect_def aged_def)
  next
    case False
    then show ?thesis using st OpFree ag inv by (auto simp: aixos_slot_free_def)
  qed
qed

lemma slot_run_aged:
  assumes "obj_inv (snd st)" "0 \<le> pid" "pid < 7" "aged pid i g n (snd st)" "0 \<le> i"
  shows "obj_inv (snd (slot_run kmalloc ops st)) \<and>
         aged pid i g (n + alloc_count kmalloc pid i ops st) (snd (slot_run kmalloc ops st))"
  using assms
proof (induction ops arbitrary: st n)
  case (Cons op ops)
  obtain r st' where st: "slot_step kmalloc op st = (r, st')" by (cases "slot_step kmalloc op st")
  let ?d = "case op of OpAlloc p _ \<Rightarrow> if p = pid \<and> r = i then 1 else 0 | OpFree _ _ \<Rightarrow> 0"
  from slot_step_aged[OF Cons.prems(1-5) st] Cons.IH[of st' "n + ?d"] Cons.prems(2,3,5) show ?case
    by (simp add: st add.assoc)
qed simp

lemma generation_period:
  assumes "0 < unat g" "unat g < 2 ^ 24" "0 < n" "n < 2 ^ 24 - 1"
  shows "(next_generation ^^ n) g \<noteq> g"
proof
  let ?M = "2 ^ 24 - 1 :: nat"
  assume "(next_generation ^^ n) g = g"
  with generation_iter[OF assms(1,2), of n] have "(unat g - 1 + n) mod ?M = unat g - 1"
    using assms(1) by simp
  moreover have "unat g - 1 < ?M" using assms(2) by auto
  ultimately show False using assms(3,4) by (auto simp: mod_if split: if_splits)
qed

section \<open>Pool usage\<close>

lemma popcount_card: "popcount (w :: 'a::len word) = card {i. bit w i}"
proof -
  have "{i. bit w i} = set (filter (bit w) [0..<LENGTH('a)])" by (auto dest: bit_imp_le_length)
  moreover have "card (set (filter (bit w) [0..<LENGTH('a)])) = length (filter (bit w) [0..<LENGTH('a)])"
    by (rule distinct_card) simp
  ultimately show ?thesis by (simp add: popcount_def)
qed

lemma count_bits_card: "count_bits w c = c + card {i. bit w i}"
proof (induction w c rule: count_bits.induct)
  case (1 w c)
  show ?case
  proof (cases "w = 0")
    case True
    then have e: "{i. bit w i} = {}" by auto
    have "card {i. bit w i} = 0" unfolding e by (rule card.empty)
    moreover have "count_bits w c = c" using True by (subst count_bits.simps) simp
    ultimately show ?thesis by (simp only: add_0_right)
  next
    case False
    have fin: "finite {i. bit (drop_bit 1 w) i}"
      by (rule finite_subset[of _ "{..<32}"]) (auto dest: bit_imp_le_length)
    have "{i. bit w i} = (if bit w 0 then {0} else {}) \<union> Suc ` {i. bit (drop_bit 1 w) i}"
      by (auto simp: bit_drop_bit_eq image_iff gr0_conv_Suc split: if_splits)
        (metis Suc_pred neq0_conv, metis Suc_pred neq0_conv)
    moreover have "card (Suc ` {i. bit (drop_bit 1 w) i}) = card {i. bit (drop_bit 1 w) i}"
      by (rule card_image) simp
    ultimately have "card {i. bit w i} = (if bit w 0 then 1 else 0) + card {i. bit (drop_bit 1 w) i}"
      using fin by (auto simp: card_insert_if)
    then show ?thesis using "1.IH"[OF False] False by (subst count_bits.simps) simp
  qed
qed

lemma live_static_slot:
  assumes wf: "pool_wf (pool_types ! p) n (obj_pools os ! p)" and p: "1 \<le> p" 
  shows "live_slot (int p) i os \<noteq> None \<longleftrightarrow> 0 \<le> i \<and> i < int n \<and> slot_used (pool_slots (obj_pools os ! p) ! nat i)"
proof -
  have "pool_max (obj_pools os ! p) = n" using wf by (simp add: pool_wf_def)
  then show ?thesis by (auto simp: live_slot_def slot_lookup_static[OF p(1)])
qed

lemma int_image_upto: "{i. 0 \<le> i \<and> i < int n \<and> P (nat i)} = int ` {i. i < n \<and> P i}"
proof (intro set_eqI iffI)
  fix i assume "i \<in> {i. 0 \<le> i \<and> i < int n \<and> P (nat i)}"
  then show "i \<in> int ` {i. i < n \<and> P i}" by (intro image_eqI[of _ _ "nat i"]) auto
qed auto

lemma used_mask: assumes "n \<le> 32" shows "(if n < 32 then NOT f AND (push_bit n 1 - 1)
                       else NOT f) = NOT f AND full_bitmap n"
  proof (cases "n < 32")
    case True
    then show ?thesis by (simp add: full_bitmap_def)
  next
    case False
    with assms have "n = 32" by simp
    then show ?thesis
      by (intro bit_word_eqI) (auto simp: bit_and_iff bit_full_bitmap)
  qed

lemma bit_andnot: "bit (NOT f AND g :: 'a::len word) i \<longleftrightarrow> \<not> bit f i \<and> bit g i"
  using bit_imp_le_length[of g i] by (simp add: bit_and_iff bit_not_iff) blast

lemma bit_used_mask: assumes "pool_wf ty n p" "n \<le> 32" shows "bit (NOT (pool_free p) AND full_bitmap n) i \<longleftrightarrow> i < n \<and> slot_used (pool_slots p ! i)"
proof -
  have "bit (pool_free p) i \<longleftrightarrow> i < n \<and> \<not> slot_used (pool_slots p ! i)" using assms(1) by (simp add: pool_wf_def bitmap_wf_def)
  then show ?thesis unfolding bit_andnot bit_full_bitmap[OF assms(2)] by blast
qed

lemma static_usage:
  assumes inv: "obj_inv os" and p: "1 \<le> p" "p < 7"
  shows "aixos_pool_get_usage (int p) os = int (card {i. live_slot (int p) i os \<noteq> None})"
proof -
  let ?pool = "obj_pools os ! p" and ?n = "pool_sizes ! p"
  have wf: "pool_wf (pool_types ! p) ?n ?pool" by (rule obj_inv_pool[OF inv p])
  have n: "?n \<le> 32" using pool_sizes_le[OF p] by simp
  define U where "U = NOT (pool_free ?pool) AND full_bitmap ?n"
  have "pool_max ?pool = ?n" using wf by (simp add: pool_wf_def)
  then have "aixos_pool_get_usage (int p) os = int (count_bits (if ?n < 32
      then NOT (pool_free ?pool) AND (push_bit ?n 1 - 1) else NOT (pool_free ?pool)) 0)"
    using p by (simp add: aixos_pool_get_usage_def Let_def)
  also have "\<dots> = int (count_bits U 0)" unfolding used_mask[OF n] U_def ..
  also have "\<dots> = int (card {i. i < ?n \<and> slot_used (pool_slots ?pool ! i)})"
    by (simp add: count_bits_card U_def bit_used_mask[OF wf n])
  also have "\<dots> = int (card {i. live_slot (int p) i os \<noteq> None})"
    unfolding live_static_slot[OF wf p(1)]
    unfolding int_image_upto[of ?n "\<lambda>i. slot_used (pool_slots ?pool ! i)"]
    by (simp add: card_image)
  finally show ?thesis .
qed

lemma page_popcount:
  assumes "page_wf p"
  shows "int AIXOS_CFG_TASK_SLOT_PAGE_SIZE - int (popcount (page_free p)) =
         int (card {k. k < 16 \<and> slot_used (page_slots p ! k)})"
proof -
  have "{k. k < 16 \<and> slot_used (page_slots p ! k)} = {..<16} - {k. bit (page_free p) k}"
    using assms by (auto simp: page_wf_def bitmap_wf_def)
  moreover have "{k. bit (page_free p) k} \<subseteq> {..<16}"
    using assms by (auto simp: page_wf_def bitmap_wf_def)
  moreover from this have "card {k. bit (page_free p) k} \<le> 16" using card_mono[of "{..<16::nat}"] by simp
  ultimately show ?thesis
    by (simp add: popcount_card card_Diff_subset finite_subset[of _ "{..<16}"] of_nat_diff)
qed

definition page_used :: "task_page option \<Rightarrow> nat set" where
  "page_used po = (case po of None \<Rightarrow> {} | Some p \<Rightarrow> {k. k < 16 \<and> slot_used (page_slots p ! k)})"

lemma task_usage_sum:
  "\<forall>p. Some p \<in> set ps \<longrightarrow> page_wf p \<Longrightarrow> task_usage ps = int (\<Sum>n<length ps. card (page_used (ps ! n)))"
proof (induction ps)
  case (Cons po ps)
  have "task_usage (po # ps) = int (card (page_used po)) + task_usage ps"
    using Cons.prems page_popcount by (cases po) (auto simp: page_used_def)
  then show ?case using Cons by (simp add: sum.lessThan_Suc_shift del: sum.lessThan_Suc)
qed simp

lemma live_task_slot:
  "live_slot 0 i os \<noteq> None \<longleftrightarrow>
   0 \<le> i \<and> i < 256 \<and> nat i mod 16 \<in> page_used (task_pages os ! (nat i div 16))"
  by (cases "task_pages os ! (nat i div 16)")
    (auto simp add: live_slot_def slot_lookup_def task_slot_at_def page_used_def)

lemma task_pool_usage:
  assumes inv: "obj_inv os"
  shows "aixos_pool_get_usage 0 os = int (card {i. live_slot 0 i os \<noteq> None})"
proof -
  let ?S = "SIGMA n:{..<16}. page_used (task_pages os ! n)"
  have len: "length (task_pages os) = 16" and wf: "\<forall>p. Some p \<in> set (task_pages os) \<longrightarrow> page_wf p"
    using inv by (auto simp: obj_inv_def)
  have lt: "k \<in> page_used po \<Longrightarrow> k < 16" for k po by (auto simp: page_used_def split: option.splits)
  let ?f = "\<lambda>(n, k). int (n * 16 + k)"
  have "{i. live_slot 0 i os \<noteq> None} = ?f ` ?S"
  proof (intro set_eqI iffI)
    fix i assume "i \<in> {i. live_slot 0 i os \<noteq> None}"
    then have i: "0 \<le> i" "i < 256" "nat i mod 16 \<in> page_used (task_pages os ! (nat i div 16))"
      unfolding mem_Collect_eq live_task_slot by blast+
    have "i = int (nat i div 16 * 16 + nat i mod 16)" using i(1) by (simp only: div_mult_mod_eq int_nat_eq if_True)
    moreover have "(nat i div 16, nat i mod 16) \<in> ?S" using i by simp
    ultimately show "i \<in> ?f ` ?S" by (intro image_eqI[of _ _ "(nat i div 16, nat i mod 16)"]) (simp_all only: case_prod_conv)
  next
    fix i assume "i \<in> ?f ` ?S"
    then obtain n k where nk: "n < 16" "k \<in> page_used (task_pages os ! n)" and i: "i = int (n * 16 + k)"
      by auto
    have k: "k < 16" by (rule lt[OF nk(2)])
    have parts: "nat i div 16 = n" "nat i mod 16 = k" using k by (simp_all only: i nat_int page_index_split)
    have "0 \<le> i" "i < 256" using nk(1) k i by simp_all
    then show "i \<in> {i. live_slot 0 i os \<noteq> None}"
      unfolding mem_Collect_eq live_task_slot parts using nk(2) by blast
  qed
  moreover have "inj_on ?f ?S"
  proof (rule inj_onI, clarify)
    fix n k n' k' assume k: "k \<in> page_used (task_pages os ! n)" "k' \<in> page_used (task_pages os ! n')"
      and "int (n * 16 + k) = int (n' * 16 + k')"
    then have e: "n * 16 + k = n' * 16 + k'" by (simp only: of_nat_eq_iff)
    with page_index_split[OF lt[OF k(1)], of n] page_index_split[OF lt[OF k(2)], of n']
    show "n = n' \<and> k = k'" by metis
  qed
  ultimately have "card {i. live_slot 0 i os \<noteq> None} = card ?S" by (simp add: card_image)
  also have "\<dots> = (\<Sum>n<16. card (page_used (task_pages os ! n)))"
    by (subst card_SigmaI) (auto intro: finite_subset[of _ "{..<16}"] dest: lt)
  finally show ?thesis using task_usage_sum[OF wf] len by (simp add: aixos_pool_get_usage_def)
qed

section \<open>Properties\<close>

lemma handle_step_eq:
  assumes "0 \<le> type_to_pool_id ty"
  shows "handle_pool.pstep (obj_create kmalloc ty) (obj_destroy ty) op st =
    (case op of PCreate ob \<Rightarrow> snd (obj_create kmalloc ty ob st) | PDestroy h \<Rightarrow> obj_destroy ty h st)"
  by (rule handle_pool.pstep_def[OF handle_pool_slots[OF assms]])

definition handle_run ::
  "('h \<Rightarrow> bool \<times> 'h) \<Rightarrow> aixos_obj_type \<Rightarrow> (kptr, aixos_handle_t) pool_op list \<Rightarrow> 'h \<times> obj_state \<Rightarrow> 'h \<times> obj_state"
  where
  "handle_run kmalloc ty = fold (\<lambda>op st. case op of
     PCreate ob \<Rightarrow> snd (obj_create kmalloc ty ob st) | PDestroy h \<Rightarrow> obj_destroy ty h st)"

lemma handle_run_pstep:
  "0 \<le> type_to_pool_id ty \<Longrightarrow>
   handle_run kmalloc ty = fold (handle_pool.pstep (obj_create kmalloc ty) (obj_destroy ty))"
proof -
  assume "0 \<le> type_to_pool_id ty"
  then have "handle_pool.pstep (obj_create kmalloc ty) (obj_destroy ty) =
    (\<lambda>op st. case op of PCreate ob \<Rightarrow> snd (obj_create kmalloc ty ob st) | PDestroy h \<Rightarrow> obj_destroy ty h st)"
    by (intro ext handle_step_eq)
  then show ?thesis by (simp only: handle_run_def)
qed



text \<open>C2. After a handle's slot is freed, the handle is rejected whatever slot operations
  follow, until its slot has been allocated \<open>2\<^sup>2\<^sup>4 - 1\<close> more times and the 24-bit generation
  has come round.\<close>

theorem stale_handle_rejected:
  assumes "obj_inv os" "aixos_obj_from_handle h ty os \<noteq> KNull"
    and "alloc_count kmalloc (type_to_pool_id ty) (uint (AIXOS_HANDLE_IDX h)) ops
           (hp, aixos_slot_free (type_to_pool_id ty) (uint (AIXOS_HANDLE_IDX h)) os) < 2 ^ 24 - 1"
  shows "aixos_obj_from_handle h ty (snd (slot_run kmalloc ops
           (hp, aixos_slot_free (type_to_pool_id ty) (uint (AIXOS_HANDLE_IDX h)) os))) = KNull"
proof -
  let ?pid = "type_to_pool_id ty" and ?i = "uint (AIXOS_HANDLE_IDX h)"
  let ?os = "aixos_slot_free ?pid ?i os"
  let ?n = "alloc_count kmalloc ?pid ?i ops (hp, ?os)"
  have ty: "0 \<le> ?pid" using assms(2) by (auto simp: aixos_obj_from_handle_def Let_def split: if_splits)
  note pid = ty pool_id_range[OF ty]
  obtain sl where sl: "live_slot ?pid ?i os = Some sl" "slot_generation sl = AIXOS_HANDLE_GEN h"
    using assms(2) by (auto simp: resolve_live[OF assms(1) ty] split: option.splits if_splits)
  have gen: "slot_gen ?pid ?i os = AIXOS_HANDLE_GEN h"
    using sl by (auto simp: live_slot_def slot_gen_def split: option.splits if_splits)
  have pos: "0 < unat (AIXOS_HANDLE_GEN h)" "unat (AIXOS_HANDLE_GEN h) < 2 ^ 24"
    using live_slot_wf[OF assms(1) pid sl(1)] sl(2) by (auto simp: slot_wf_def)
  have fr: "free_effect ?pid ?i os ?os" by (rule slot_free_effect[OF assms(1) pid])
  then have "aged ?pid ?i (AIXOS_HANDLE_GEN h) 0 ?os" using pid gen by (simp add: aged_def free_effect_def)
  then have run: "obj_inv (snd (slot_run kmalloc ops (hp, ?os)))"
    "aged ?pid ?i (AIXOS_HANDLE_GEN h) ?n (snd (slot_run kmalloc ops (hp, ?os)))"
    using slot_run_aged[of "(hp, ?os)" ?pid ?i _ 0 kmalloc ops] fr pid by (auto simp: free_effect_def)
  have "live_slot ?pid ?i (snd (slot_run kmalloc ops (hp, ?os))) = Some sl' \<Longrightarrow>
        slot_generation sl' \<noteq> AIXOS_HANDLE_GEN h" for sl'
    using run(2) generation_period[OF pos _ assms(3)]
    by (cases "?n = 0") (auto simp: aged_def live_slot_def slot_gen_def split: option.splits if_splits)
  then show ?thesis by (auto simp: resolve_live[OF run(1) ty] split: option.splits)
qed

lemma stale_handle_rejected_witness:
  "aixos_obj_from_handle 0x100 AIXOS_OBJ_SEM (snd (slot_run (\<lambda>h. (True, h)) [OpAlloc 1 (KSem 5)]
     ((), aixos_slot_free 1 0 (snd (snd (aixos_slot_alloc (\<lambda>h. (True, h)) 1 (KSem 0) () aixos_object_init))))))
   = KNull"
proof -
  let ?os = "snd (snd (aixos_slot_alloc (\<lambda>h. (True, h)) 1 (KSem 0) () aixos_object_init))"
  have inv: "obj_inv ?os"
    using slot_alloc_result[OF object_init_inv, of 1 "\<lambda>h. (True, h)" "KSem 0" "()"]
    by (auto simp: same_view_def alloc_effect_def)
  have r: "aixos_obj_from_handle 0x100 AIXOS_OBJ_SEM ?os \<noteq> KNull" by code_simp
  have e: "type_to_pool_id AIXOS_OBJ_SEM = 1" "uint (AIXOS_HANDLE_IDX 0x100) = 0" by code_simp+
  have "alloc_count (\<lambda>h. (True, h)) 1 0 [OpAlloc 1 (KSem 5)] ((), aixos_slot_free 1 0 ?os) < 2 ^ 24 - 1"
    by (simp split: prod.split)
  with stale_handle_rejected[OF inv r, of "\<lambda>h. (True, h)" "[OpAlloc 1 (KSem 5)]" "()"] show ?thesis
    by (simp only: e)
qed

text \<open>C9. Whatever slot operations have run since \<open>aixos_object_init\<close>, every pool is well formed
  and \<open>aixos_pool_get_usage\<close> is the number of its live slots (the free bitmaps never drift from
  the \<open>used\<close> flags).\<close>

theorem pool_usage_counts_live:
  assumes "0 \<le> pid" "pid < AIXOS_POOL_COUNT"
  shows "obj_inv (snd (slot_run kmalloc ops (h, aixos_object_init))) \<and>
    aixos_pool_get_usage pid (snd (slot_run kmalloc ops (h, aixos_object_init))) =
    int (card {i. live_slot pid i (snd (slot_run kmalloc ops (h, aixos_object_init))) \<noteq> None})"
proof -
  let ?os = "snd (slot_run kmalloc ops (h, aixos_object_init))"
  have "live_slot 0 0 aixos_object_init = None \<and> slot_gen 0 0 aixos_object_init = 0" by code_simp
  then have "aged 0 0 0 0 (snd (h, aixos_object_init))" by (simp add: aged_def)
  then have inv: "obj_inv ?os" using slot_run_aged object_init_inv by fastforce
  show ?thesis
  proof (cases "pid = 0")
    case True
    then show ?thesis using inv task_pool_usage[OF inv] by simp
  next
    case False
    then show ?thesis using inv static_usage[OF inv, of "nat pid"] assms by simp
  qed
qed

lemma pool_usage_counts_live_witness:
  "aixos_pool_get_usage 2 (snd (slot_run (\<lambda>h. (True, h)) [OpAlloc 2 (KMutex 0), OpAlloc 2 (KMutex 1)] ((), aixos_object_init))) =
   int (card {i. live_slot 2 i (snd (slot_run (\<lambda>h. (True, h)) [OpAlloc 2 (KMutex 0), OpAlloc 2 (KMutex 1)]
     ((), aixos_object_init))) \<noteq> None}) \<and>
   aixos_pool_get_usage 2 (snd (slot_run (\<lambda>h. (True, h)) [OpAlloc 2 (KMutex 0), OpAlloc 2 (KMutex 1)] ((), aixos_object_init))) = 2"
proof -
  have "aixos_pool_get_usage 2 (snd (slot_run (\<lambda>h. (True, h)) [OpAlloc 2 (KMutex 0), OpAlloc 2 (KMutex 1)] ((), aixos_object_init))) = 2"
    by code_simp
  then show ?thesis
    using pool_usage_counts_live[of 2 "\<lambda>h. (True, h)" "[OpAlloc 2 (KMutex 0), OpAlloc 2 (KMutex 1)]" "()"] by simp
qed

text \<open>C10. A static pool hands out its lowest free slot, and refuses only when every slot is in
  use.\<close>

theorem slot_alloc_lowest_free:
  assumes "obj_inv os" "1 \<le> p" "p < 7" "aixos_slot_alloc kmalloc (int p) obj h os = (r, h', os')"
  shows "h' = h \<and> (r = -1 \<longleftrightarrow> (\<forall>i < pool_sizes ! p. live_slot (int p) (int i) os \<noteq> None)) \<and>
    (r \<noteq> -1 \<longrightarrow> 0 \<le> r \<and> live_slot (int p) r os = None \<and> nat r < pool_sizes ! p \<and>
       (\<forall>j. 0 \<le> j \<and> j < r \<longrightarrow> live_slot (int p) j os \<noteq> None))"
proof -
  have live: "live_slot (int p) i os \<noteq> None \<longleftrightarrow>
      0 \<le> i \<and> i < int (pool_sizes ! p) \<and> slot_used (pool_slots (obj_pools os ! p) ! nat i)" for i
    by (rule live_static_slot[OF obj_inv_pool[OF assms(1-3)] assms(2)])
  have dead: "live_slot (int p) i os = None \<longleftrightarrow>
      \<not> (0 \<le> i \<and> i < int (pool_sizes ! p) \<and> slot_used (pool_slots (obj_pools os ! p) ! nat i))" for i
    using live[of i] by blast
  from static_alloc_cases[OF assms] show ?thesis
  proof (elim conjE disjE exE)
    assume h: "h' = h" and r: "r = -1"
      and full: "\<forall>i < pool_sizes ! p. slot_used (pool_slots (obj_pools os ! p) ! i)"
    from h r full show ?thesis unfolding live by simp
  next
    fix k assume h: "h' = h" and r: "r = int k" and k: "k < pool_sizes ! p"
      and un: "\<not> slot_used (pool_slots (obj_pools os ! p) ! k)"
      and low: "\<forall>j<k. slot_used (pool_slots (obj_pools os ! p) ! j)"
    have "\<exists>i < pool_sizes ! p. \<not> slot_used (pool_slots (obj_pools os ! p) ! i)" using k un by blast
    moreover have "slot_used (pool_slots (obj_pools os ! p) ! nat j)" if "0 \<le> j" "j < int k" for j
      using low that by (simp add: nat_less_iff)
    ultimately show ?thesis using h r k un unfolding live dead by auto
  qed
qed

lemma slot_alloc_lowest_free_witness:
  "aixos_slot_alloc (\<lambda>h. (True, h)) 5 (KPipe 0) () aixos_object_init =
     (0, (), snd (snd (aixos_slot_alloc (\<lambda>h. (True, h)) 5 (KPipe 0) () aixos_object_init))) \<and>
   live_slot 5 0 aixos_object_init = None"
proof -
  have a: "aixos_slot_alloc (\<lambda>h. (True, h)) (int 5) (KPipe 0) () aixos_object_init =
     (0, (), snd (snd (aixos_slot_alloc (\<lambda>h. (True, h)) 5 (KPipe 0) () aixos_object_init)))"
    by code_simp
  from slot_alloc_lowest_free[OF object_init_inv _ _ a] show ?thesis using a by simp
qed

section \<open>Two limits of the handle encoding\<close>

text \<open>
  The encoding has no room for the object type, so the first semaphore and the first mutex get
  the same handle: a mutex operation given the semaphore's handle works on the mutex.
\<close>

lemma handle_type_confusion:
  "let st = snd (obj_create (\<lambda>h. (True, h)) AIXOS_OBJ_SEM (KSem 0) ((), aixos_object_init));
       (h2, st') = obj_create (\<lambda>h. (True, h)) AIXOS_OBJ_MUTEX (KMutex 0) st
   in fst (obj_create (\<lambda>h. (True, h)) AIXOS_OBJ_SEM (KSem 0) ((), aixos_object_init)) = Some 0x100 \<and>
      h2 = Some 0x100 \<and> obj_resolve AIXOS_OBJ_SEM 0x100 st' = Some (KSem 0) \<and>
      obj_resolve AIXOS_OBJ_MUTEX 0x100 st' = Some (KMutex 0)"
  by code_simp

text \<open>The last task slot at the last generation has the handle \<open>AIXOS_HANDLE_INVALID\<close>.\<close>

lemma handle_invalid_collision: "AIXOS_HANDLE_MAKE 255 0x00FFFFFF = AIXOS_HANDLE_INVALID"
  by (simp add: AIXOS_HANDLE_MAKE_def)

end
