(* ===== verification/Allocator.thy ===== *)
theory Allocator
  imports Aix_Prelude
begin

text \<open>
  The contract of a block allocator, for the fixed-size pools of \<^verbatim>\<open>kernel/mempool.c\<close> and the
  first-fit heap of \<^verbatim>\<open>kernel/heap.c\<close>: what a client may rely on about the extents it has been
  handed, whatever the free space is kept in. Both providers interpret the locale on their own
  operations.
\<close>

datatype 'n alloc_op = AAlloc 'n | AFree nat

definition extents_apart :: "(nat \<times> nat) set \<Rightarrow> bool" where
  "extents_apart B \<longleftrightarrow> (\<forall>a n b m. (a, n) \<in> B \<and> (b, m) \<in> B \<and> (a, n) \<noteq> (b, m) \<longrightarrow> a + n \<le> b \<or> b + m \<le> a)"

locale block_allocator =
  fixes inv :: "'s \<Rightarrow> bool"
    and blocks :: "'s \<Rightarrow> (nat \<times> nat) set"
    and wanted :: "'n \<Rightarrow> nat"
    and alloc :: "'n \<Rightarrow> 's \<Rightarrow> nat option \<times> 's"
    and free :: "nat \<Rightarrow> 's \<Rightarrow> bool \<times> 's"
  assumes blocks_finite: "inv s \<Longrightarrow> finite (blocks s)"
    and blocks_apart: "inv s \<Longrightarrow> extents_apart (blocks s)"
    and blocks_inj: "inv s \<Longrightarrow> inj_on fst (blocks s)"
    and alloc_inv: "inv s \<Longrightarrow> inv (snd (alloc r s))"
    and free_inv: "inv s \<Longrightarrow> inv (snd (free a s))"
    and alloc_none: "inv s \<Longrightarrow> alloc r s = (None, s') \<Longrightarrow> blocks s' = blocks s"
    and alloc_some: "inv s \<Longrightarrow> alloc r s = (Some a, s') \<Longrightarrow>
          \<exists>n. wanted r \<le> n \<and> a \<notin> fst ` blocks s \<and> blocks s' = insert (a, n) (blocks s)"
    and free_live: "inv s \<Longrightarrow> (a, n) \<in> blocks s \<Longrightarrow>
          fst (free a s) \<and> blocks (snd (free a s)) = blocks s - {(a, n)}"
    and free_dead: "inv s \<Longrightarrow> a \<notin> fst ` blocks s \<Longrightarrow>
          \<not> fst (free a s) \<and> blocks (snd (free a s)) = blocks s"
begin

definition astep :: "'n alloc_op \<Rightarrow> 's \<Rightarrow> 's" where
  "astep op s = (case op of AAlloc r \<Rightarrow> snd (alloc r s) | AFree a \<Rightarrow> snd (free a s))"

lemma astep_inv: "inv s \<Longrightarrow> inv (astep op s)"
  by (cases op) (auto simp: astep_def alloc_inv free_inv)

lemma arun_inv: "inv s \<Longrightarrow> inv (fold astep ops s)"
  by (induction ops arbitrary: s) (auto simp: astep_inv)

lemma astep_keeps:
  assumes "inv s" "(a, n) \<in> blocks s" "op \<noteq> AFree a"
  shows "(a, n) \<in> blocks (astep op s)"
proof (cases op)
  case (AAlloc r)
  obtain x s' where al: "alloc r s = (x, s')" by (cases "alloc r s")
  then show ?thesis
    using alloc_none[OF assms(1)] alloc_some[OF assms(1)] assms(2) AAlloc
    by (cases x) (fastforce simp: astep_def)+
next
  case (AFree b)
  then have "b \<noteq> a" using assms(3) by simp
  then show ?thesis
    using free_live[OF assms(1), of b] free_dead[OF assms(1), of b] assms(2) AFree
    by (cases "b \<in> fst ` blocks s") (auto simp: astep_def)
qed

lemma block_survives:
  assumes "inv s" "(a, n) \<in> blocks s" "AFree a \<notin> set ops"
  shows "(a, n) \<in> blocks (fold astep ops s)"
  using assms by (induction ops arbitrary: s) (auto simp: astep_keeps astep_inv)

text \<open>A block that is handed out is as large as asked for, stays allocated until it is freed, and
  no other block handed out meanwhile shares a byte with it.\<close>

lemma alloc_exclusive:
  assumes "inv s" "alloc r s = (Some a, s')" "AFree a \<notin> set ops"
    and "alloc r' (fold astep ops s') = (Some b, s'')"
  shows "b \<noteq> a \<and> (wanted r = 0 \<or> wanted r' = 0 \<or> a + wanted r \<le> b \<or> b + wanted r' \<le> a)"
proof -
  obtain n where n: "wanted r \<le> n" "blocks s' = insert (a, n) (blocks s)"
    using alloc_some[OF assms(1,2)] by auto
  have inv': "inv s'" using alloc_inv[OF assms(1), of r] assms(2) by simp
  have inv1: "inv (fold astep ops s')" by (rule arun_inv[OF inv'])
  have a: "(a, n) \<in> blocks (fold astep ops s')" using block_survives[OF inv' _ assms(3)] n by auto
  obtain m where m: "wanted r' \<le> m" "b \<notin> fst ` blocks (fold astep ops s')"
    "blocks s'' = insert (b, m) (blocks (fold astep ops s'))"
    using alloc_some[OF inv1 assms(4)] by auto
  have ne: "b \<noteq> a" using a m(2) by force
  have inv2: "inv s''" using alloc_inv[OF inv1, of r'] assms(4) by simp
  have "a + n \<le> b \<or> b + m \<le> a"
    using blocks_apart[OF inv2] a m(3) ne unfolding extents_apart_def by blast
  with n(1) m(1) ne show ?thesis by auto
qed

lemma double_free_rejected:
  assumes "inv s" "(a, n) \<in> blocks s"
  shows "\<not> fst (free a (snd (free a s))) \<and> blocks (snd (free a (snd (free a s)))) = blocks s - {(a, n)}"
proof -
  have "blocks (snd (free a s)) = blocks s - {(a, n)}" using free_live[OF assms] by simp
  moreover have "a \<notin> fst ` (blocks s - {(a, n)})"
    using blocks_inj[OF assms(1)] assms(2) by (fastforce simp: inj_on_def)
  ultimately show ?thesis using free_dead[OF free_inv[OF assms(1)], of a a] by simp
qed

lemma alloc_free_roundtrip:
  assumes "inv s" "alloc r s = (Some a, s')"
  shows "fst (free a s') \<and> blocks (snd (free a s')) = blocks s"
proof -
  obtain n where n: "a \<notin> fst ` blocks s" "blocks s' = insert (a, n) (blocks s)"
    using alloc_some[OF assms] by auto
  have "inv s'" using alloc_inv[OF assms(1), of r] assms(2) by simp
  moreover have "(a, n) \<notin> blocks s" using n(1) by force
  ultimately show ?thesis using free_live[of s' a n] n(2) by auto
qed

end

end
