(* ===== verification/Mempool.thy ===== *)
theory Mempool
  imports Allocator
begin

text \<open>
  \<^verbatim>\<open>kernel/mempool.c\<close>: fixed-size block pools over caller-supplied storage with a 32-bit free
  bitmap. Addresses are 32-bit words, the null pool pointer is \<open>None\<close>, the null block address
  is \<open>0\<close>. Whether the caller runs in an interrupt is an argument. The remainder in
  \<open>aixos_mempool_owns\<close> is only taken of pools whose block size is not zero (see
  \<open>mempool_wf\<close> and \<open>mempool_init_wraps\<close>).
\<close>

section \<open>State and operations\<close>

record mempool =
  mp_storage :: u32
  mp_storage_size :: u32
  mp_block_size :: u32
  mp_block_count :: u32
  mp_free_bitmap :: u32
  mp_allocated :: u32
  mp_peak_allocated :: u32
  mp_alloc_failures :: u32

abbreviation (input) AIXOS_MEMPOOL_MAX_BLOCKS :: u32 where "AIXOS_MEMPOOL_MAX_BLOCKS \<equiv> 32"

definition mp_align_up :: "u32 \<Rightarrow> u32" where
  "mp_align_up v = (v + 4 - 1) AND NOT (4 - 1)"

definition aixos_mempool_init ::
  "mempool option \<Rightarrow> u32 \<Rightarrow> u32 \<Rightarrow> u32 \<Rightarrow> u32 \<Rightarrow> int \<times> mempool option" where
  "aixos_mempool_init pool storage storage_size block_size block_count =
     (if pool = None \<or> storage = 0 \<or> block_size = 0 \<or> block_size > UINT32_MAX \<or> block_count = 0 \<or>
         block_count > AIXOS_MEMPOOL_MAX_BLOCKS \<or> storage AND (4 - 1) \<noteq> 0
      then (AIXOS_ERR_INVAL, pool)
      else let aligned_size = mp_align_up block_size
           in if aligned_size > UINT32_MAX div block_count \<or>
                 storage_size < aligned_size * block_count
              then (AIXOS_ERR_INVAL, pool)
              else (AIXOS_OK, Some \<lparr>mp_storage = storage,
                mp_storage_size = aligned_size * block_count, mp_block_size = aligned_size,
                mp_block_count = block_count,
                mp_free_bitmap = (if block_count = 32 then UINT32_MAX
                                  else push_bit (unat block_count) 1 - 1),
                mp_allocated = 0, mp_peak_allocated = 0, mp_alloc_failures = 0\<rparr>))"

definition aixos_mempool_alloc :: "bool \<Rightarrow> mempool option \<Rightarrow> u32 \<times> mempool option" where
  "aixos_mempool_alloc in_isr pool =
     (case pool of None \<Rightarrow> (0, None)
      | Some p \<Rightarrow>
          if in_isr then (0, Some p)
          else if mp_free_bitmap p = 0
          then (0, Some (p\<lparr>mp_alloc_failures := mp_alloc_failures p + 1\<rparr>))
          else let index = ctz (mp_free_bitmap p);
                   p = p\<lparr>mp_free_bitmap := mp_free_bitmap p AND NOT (bitm index)\<rparr>;
                   p = p\<lparr>mp_allocated := mp_allocated p + 1\<rparr>;
                   p = (if mp_allocated p > mp_peak_allocated p
                        then p\<lparr>mp_peak_allocated := mp_allocated p\<rparr> else p)
               in (mp_storage p + of_nat index * mp_block_size p, Some p))"

definition aixos_mempool_owns :: "mempool option \<Rightarrow> u32 \<Rightarrow> bool" where
  "aixos_mempool_owns pool block =
     (case pool of None \<Rightarrow> False
      | Some p \<Rightarrow>
          if mp_storage p = 0 \<or> block = 0 \<or> block < mp_storage p \<or>
             block \<ge> mp_storage p + mp_storage_size p then False
          else (block - mp_storage p) mod mp_block_size p = 0)"

definition aixos_mempool_free :: "bool \<Rightarrow> mempool option \<Rightarrow> u32 \<Rightarrow> int \<times> mempool option" where
  "aixos_mempool_free in_isr pool block =
     (if in_isr then (AIXOS_ERR_CONTEXT, pool)
      else if \<not> aixos_mempool_owns pool block then (AIXOS_ERR_INVAL, pool)
      else case pool of None \<Rightarrow> (AIXOS_ERR_INVAL, None)
      | Some p \<Rightarrow>
          let index = unat ((block - mp_storage p) div mp_block_size p); m = bitm index
          in if mp_free_bitmap p AND m \<noteq> 0 then (AIXOS_ERR_INVAL, Some p)
             else (AIXOS_OK, Some (p\<lparr>mp_free_bitmap := mp_free_bitmap p OR m,
                                     mp_allocated := mp_allocated p - 1\<rparr>)))"

section \<open>Invariant\<close>

definition mp_block :: "mempool \<Rightarrow> nat \<Rightarrow> nat" where
  "mp_block p i = unat (mp_storage p) + i * unat (mp_block_size p)"

definition mp_used :: "mempool \<Rightarrow> nat set" where
  "mp_used p = {i. i < unat (mp_block_count p) \<and> \<not> bit (mp_free_bitmap p) i}"

definition mempool_wf :: "mempool \<Rightarrow> bool" where
  "mempool_wf p \<longleftrightarrow> mp_storage p \<noteq> 0 \<and> mp_block_size p \<noteq> 0 \<and>
     0 < unat (mp_block_count p) \<and> unat (mp_block_count p) \<le> 32 \<and>
     unat (mp_storage_size p) = unat (mp_block_size p) * unat (mp_block_count p) \<and>
     unat (mp_storage p) + unat (mp_storage_size p) < 2 ^ 32 \<and>
     (\<forall>i. bit (mp_free_bitmap p) i \<longrightarrow> i < unat (mp_block_count p)) \<and>
     unat (mp_allocated p) = card (mp_used p) \<and>
     unat (mp_allocated p) \<le> unat (mp_peak_allocated p) \<and>
     unat (mp_peak_allocated p) \<le> unat (mp_block_count p)"

definition mp_extents :: "mempool \<Rightarrow> (nat \<times> nat) set" where
  "mp_extents p = (\<lambda>i. (mp_block p i, unat (mp_block_size p))) ` mp_used p"

lemma mp_used_finite: "finite (mp_used p)" "mp_used p \<subseteq> {..<unat (mp_block_count p)}"
  by (auto simp: mp_used_def intro: finite_subset[of _ "{..<unat (mp_block_count p)}"])

lemma mp_block_lt:
  assumes "mempool_wf p" "i < unat (mp_block_count p)"
  shows "mp_block p i + unat (mp_block_size p) \<le> unat (mp_storage p) + unat (mp_storage_size p)"
proof -
  have "Suc i * unat (mp_block_size p) \<le> unat (mp_block_count p) * unat (mp_block_size p)"
    using assms(2) by (intro mult_le_mono1) simp
  then show ?thesis using assms(1) by (simp add: mempool_wf_def mp_block_def mult.commute)
qed

lemma mp_block_unat:
  assumes "mempool_wf p" "i < unat (mp_block_count p)"
  shows "unat (mp_storage p + of_nat i * mp_block_size p) = mp_block p i"
proof -
  have lt: "mp_block p i < 2 ^ 32"
    using mp_block_lt[OF assms] assms(1) by (simp add: mempool_wf_def)
  have "mp_storage p + of_nat i * mp_block_size p = of_nat (mp_block p i)"
    by (simp add: mp_block_def)
  then show ?thesis using lt by (simp add: unat_of_nat take_bit_nat_eq_self)
qed

lemma mp_block_inj:
  assumes "mempool_wf p" "mp_block p i = mp_block p j"
  shows "i = j"
proof -
  have "unat (mp_block_size p) \<noteq> 0" using assms(1) by (simp add: mempool_wf_def unat_eq_0)
  then show ?thesis using assms(2) by (simp add: mp_block_def)
qed

section \<open>Which addresses are blocks\<close>

lemma mp_offset:
  assumes "mempool_wf p" "mp_storage p \<le> block" "block < mp_storage p + mp_storage_size p"
  shows "unat (block - mp_storage p) = unat block - unat (mp_storage p)"
    "unat block < unat (mp_storage p) + unat (mp_storage_size p)"
proof -
  show "unat (block - mp_storage p) = unat block - unat (mp_storage p)"
    using assms(2) by (simp add: unat_sub)
  have "unat (mp_storage p + mp_storage_size p) = unat (mp_storage p) + unat (mp_storage_size p)"
    using assms(1) by (simp add: mempool_wf_def unat_word_ariths)
  then show "unat block < unat (mp_storage p) + unat (mp_storage_size p)"
    using assms(3) by (simp add: word_less_nat_alt)
qed

lemma owns_block:
  assumes wf: "mempool_wf p"
  shows "aixos_mempool_owns (Some p) block \<longleftrightarrow> (\<exists>i < unat (mp_block_count p). unat block = mp_block p i)"
proof
  assume o: "aixos_mempool_owns (Some p) block"
  then have b: "mp_storage p \<le> block" "block < mp_storage p + mp_storage_size p"
    and z: "(block - mp_storage p) mod mp_block_size p = 0"
    by (auto simp: aixos_mempool_owns_def split: if_splits)
  note off = mp_offset[OF wf b]
  define i where "i = unat (block - mp_storage p) div unat (mp_block_size p)"
  have "unat (block - mp_storage p) mod unat (mp_block_size p) = 0"
    using z by (metis unat_mod unat_0)
  then have i: "unat (block - mp_storage p) = i * unat (mp_block_size p)"
    by (metis i_def div_mult_mod_eq add.right_neutral)
  have ge: "unat (mp_storage p) \<le> unat block" using b(1) by (simp add: word_le_nat_alt)
  have "i * unat (mp_block_size p) < unat (mp_block_count p) * unat (mp_block_size p)"
    using off i ge wf by (simp add: mempool_wf_def mult.commute)
  then have "i < unat (mp_block_count p)" by simp
  moreover have "unat block = mp_block p i" using i off(1) ge by (simp add: mp_block_def)
  ultimately show "\<exists>i < unat (mp_block_count p). unat block = mp_block p i" by blast
next
  assume "\<exists>i < unat (mp_block_count p). unat block = mp_block p i"
  then obtain i where i: "i < unat (mp_block_count p)" "unat block = mp_block p i" by blast
  have bs: "0 < unat (mp_block_size p)" using wf by (simp add: mempool_wf_def unat_gt_0)
  have s0: "0 < unat (mp_storage p)" using wf by (simp add: mempool_wf_def unat_gt_0)
  have "unat (mp_storage p + mp_storage_size p) = unat (mp_storage p) + unat (mp_storage_size p)"
    using wf by (simp add: mempool_wf_def unat_word_ariths)
  then have lt: "block < mp_storage p + mp_storage_size p"
    using mp_block_lt[OF wf i(1)] i(2) bs by (simp add: word_less_nat_alt)
  have ge: "mp_storage p \<le> block" using i(2) by (simp add: word_le_nat_alt mp_block_def)
  have "unat (block - mp_storage p) = i * unat (mp_block_size p)"
    using mp_offset(1)[OF wf ge lt] i(2) by (simp add: mp_block_def)
  then have "unat ((block - mp_storage p) mod mp_block_size p) = 0" by (simp add: unat_mod)
  then have "(block - mp_storage p) mod mp_block_size p = 0" by (simp only: unat_eq_0)
  moreover have "block \<noteq> 0" using i(2) s0 by (auto simp: mp_block_def)
  ultimately show "aixos_mempool_owns (Some p) block"
    using lt ge wf by (auto simp: aixos_mempool_owns_def mempool_wf_def not_less not_le)
qed

lemma block_index:
  assumes wf: "mempool_wf p" and "i < unat (mp_block_count p)" "unat block = mp_block p i"
  shows "unat ((block - mp_storage p) div mp_block_size p) = i"
proof -
  have bs: "0 < unat (mp_block_size p)" using wf by (simp add: mempool_wf_def unat_gt_0)
  have ge: "mp_storage p \<le> block" using assms(3) by (simp add: word_le_nat_alt mp_block_def)
  have "unat (block - mp_storage p) = i * unat (mp_block_size p)"
    using ge assms(3) by (simp add: unat_sub mp_block_def)
  then show ?thesis using bs by (simp add: unat_div)
qed

section \<open>Effect of the operations\<close>

lemma card_used_le: "card (mp_used p) \<le> unat (mp_block_count p)"
  using card_mono[OF _ mp_used_finite(2), of p] by simp

lemma mempool_alloc_effect:
  assumes wf: "mempool_wf p"
  shows "(mp_free_bitmap p = 0 \<and> mp_used p = {..<unat (mp_block_count p)} \<and>
      aixos_mempool_alloc False (Some p) = (0, Some (p\<lparr>mp_alloc_failures := mp_alloc_failures p + 1\<rparr>))) \<or>
    (\<exists>i p'. i < unat (mp_block_count p) \<and> i \<notin> mp_used p \<and> (\<forall>j<i. j \<in> mp_used p) \<and>
      aixos_mempool_alloc False (Some p) = (of_nat (mp_block p i), Some p') \<and>
      mempool_wf p' \<and> mp_used p' = insert i (mp_used p) \<and> mp_block_size p' = mp_block_size p \<and>
      mp_extents p' = insert (mp_block p i, unat (mp_block_size p)) (mp_extents p))"
proof (cases "mp_free_bitmap p = 0")
  case True
  then show ?thesis by (auto simp: aixos_mempool_alloc_def mp_used_def)
next
  case False
  define k where "k = ctz (mp_free_bitmap p)"
  define p' where "p' = p\<lparr>mp_free_bitmap := mp_free_bitmap p AND NOT (bitm k),
    mp_allocated := mp_allocated p + 1,
    mp_peak_allocated := (if mp_allocated p + 1 > mp_peak_allocated p then mp_allocated p + 1
                          else mp_peak_allocated p)\<rparr>"
  have k: "k < unat (mp_block_count p)" "k \<notin> mp_used p"
    using ctz_props(2)[OF False] wf by (auto simp: k_def mempool_wf_def mp_used_def)
  have low: "\<forall>j<k. j \<in> mp_used p" using ctz_props(3)[OF False] k(1) by (auto simp: k_def mp_used_def)
  have used': "mp_used p' = insert k (mp_used p)"
    using k(1) by (auto simp: mp_used_def p'_def bit_clear_bit)
  have card': "card (mp_used p') = Suc (card (mp_used p))" using used' k(2) mp_used_finite(1) by simp
  have lt: "card (mp_used p) < 32"
    using card_used_le[of p'] card' wf by (simp add: p'_def mempool_wf_def)
  have al: "unat (mp_allocated p + 1) = Suc (unat (mp_allocated p))"
    using lt wf by (simp add: mempool_wf_def unat_word_ariths)
  have wf': "mempool_wf p'"
    using wf card' card_used_le[of p'] al
    by (auto simp: mempool_wf_def p'_def bit_clear_bit word_less_nat_alt)
  have "aixos_mempool_alloc False (Some p) = (of_nat (mp_block p k), Some p')"
    using False by (simp add: aixos_mempool_alloc_def Let_def k_def[symmetric] p'_def mp_block_def)
  moreover have "mp_extents p' = insert (mp_block p k, unat (mp_block_size p)) (mp_extents p)"
    unfolding mp_extents_def used' by (simp add: p'_def mp_block_def)
  moreover have "mp_block_size p' = mp_block_size p" by (simp add: p'_def)
  ultimately show ?thesis using k low wf' used' by blast
qed

lemma mempool_free_effect:
  assumes wf: "mempool_wf p" and i: "i \<in> mp_used p" and b: "unat block = mp_block p i"
  shows "\<exists>p'. aixos_mempool_free False (Some p) block = (AIXOS_OK, Some p') \<and> mempool_wf p' \<and>
    mp_used p' = mp_used p - {i} \<and> mp_block_size p' = mp_block_size p \<and> mp_extents p' = mp_extents p - {(mp_block p i, unat (mp_block_size p))}"
proof -
  define p' where "p' = p\<lparr>mp_free_bitmap := mp_free_bitmap p OR bitm i, mp_allocated := mp_allocated p - 1\<rparr>"
  have il: "i < unat (mp_block_count p)" and nb: "\<not> bit (mp_free_bitmap p) i" using i by (auto simp: mp_used_def)
  have i32: "i < 32" using il wf by (simp add: mempool_wf_def)
  have bits: "bit (mp_free_bitmap p OR bitm i) j \<longleftrightarrow> bit (mp_free_bitmap p) j \<or> j = i" for j
    using i32 by (intro bit_or_bitm) simp
  have "bit (mp_free_bitmap p') j \<longleftrightarrow> bit (mp_free_bitmap p) j \<or> j = i" for j
    by (simp add: p'_def bits)
  moreover have "mp_block_count p' = mp_block_count p" by (simp add: p'_def)
  ultimately have used': "mp_used p' = mp_used p - {i}"
    by (intro set_eqI) (simp only: mp_used_def mem_Collect_eq Diff_iff singleton_iff de_Morgan_disj simp_thms conj_assoc)
  have card': "card (mp_used p') = card (mp_used p) - 1" using used' i by simp
  have pos: "0 < card (mp_used p)" using i mp_used_finite(1) card_gt_0_iff by blast
  have "unat (mp_allocated p - 1) = unat (mp_allocated p) - 1"
    using pos wf by (intro unat_minus_one) (auto simp: mempool_wf_def)
  then have wf': "mempool_wf p'"
    using wf card' il bits unfolding mempool_wf_def p'_def by auto
  have "aixos_mempool_free False (Some p) block = (AIXOS_OK, Some p')"
    using owns_block[OF wf, of block] il b nb block_index[OF wf il b]
    by (auto simp: aixos_mempool_free_def Let_def and_bitm_eq_0_iff p'_def)
  moreover have "mp_extents p' = (\<lambda>j. (mp_block p j, unat (mp_block_size p))) ` (mp_used p - {i})"
    unfolding mp_extents_def used' by (simp add: p'_def mp_block_def)
  then have "mp_extents p' = mp_extents p - {(mp_block p i, unat (mp_block_size p))}"
    using image_set_diff[of "\<lambda>j. (mp_block p j, unat (mp_block_size p))" "mp_used p" "{i}"]
      mp_block_inj[OF wf] by (simp add: mp_extents_def inj_def)
  moreover have "mp_block_size p' = mp_block_size p" by (simp add: p'_def)
  ultimately show ?thesis using wf' used' by blast
qed

lemma mempool_free_dead:
  assumes wf: "mempool_wf p" and "\<not> (\<exists>i \<in> mp_used p. unat block = mp_block p i)"
  shows "aixos_mempool_free False (Some p) block = (AIXOS_ERR_INVAL, Some p)"
proof (cases "aixos_mempool_owns (Some p) block")
  case False
  then show ?thesis by (simp add: aixos_mempool_free_def)
next
  case True
  then obtain i where i: "i < unat (mp_block_count p)" "unat block = mp_block p i"
    using owns_block[OF wf] by blast
  then have "bit (mp_free_bitmap p) i" using assms(2) by (auto simp: mp_used_def)
  then show ?thesis using True i block_index[OF wf i]
    by (simp add: aixos_mempool_free_def Let_def and_bitm_eq_0_iff)
qed

section \<open>Block pools are block allocators\<close>

definition mp_alloc_nat :: "unit \<Rightarrow> mempool \<Rightarrow> nat option \<times> mempool" where
  "mp_alloc_nat u p = (case aixos_mempool_alloc False (Some p) of
     (a, p') \<Rightarrow> (if a = 0 then None else Some (unat a), the p'))"

definition mp_free_nat :: "nat \<Rightarrow> mempool \<Rightarrow> bool \<times> mempool" where
  "mp_free_nat a p = (if a \<ge> 2 ^ 32 then (False, p)
     else case aixos_mempool_free False (Some p) (of_nat a) of (r, p') \<Rightarrow> (r = AIXOS_OK, the p'))"

lemma mp_extents_iff: "(a, n) \<in> mp_extents p \<longleftrightarrow> n = unat (mp_block_size p) \<and> (\<exists>i \<in> mp_used p. a = mp_block p i)"
  by (auto simp: mp_extents_def)

lemma mp_block_small: "mempool_wf p \<Longrightarrow> i \<in> mp_used p \<Longrightarrow> mp_block p i < 2 ^ 32"
  using mp_block_lt[of p i] by (auto simp: mp_used_def mempool_wf_def)

lemma mp_block_pos: "mempool_wf p \<Longrightarrow> 0 < mp_block p i"
  by (simp add: mempool_wf_def mp_block_def unat_gt_0)

lemma mp_alloc_nat_cases:
  assumes wf: "mempool_wf p"
  obtains (full) "mp_alloc_nat u p = (None, p\<lparr>mp_alloc_failures := mp_alloc_failures p + 1\<rparr>)"
  | (ok) i p' where "mp_alloc_nat u p = (Some (mp_block p i), p')" "i \<notin> mp_used p" "mempool_wf p'"
      "mp_block_size p' = mp_block_size p" "mp_extents p' = insert (mp_block p i, unat (mp_block_size p)) (mp_extents p)"
  using mempool_alloc_effect[OF wf]
proof (elim disjE conjE exE)
  assume "aixos_mempool_alloc False (Some p) = (0, Some (p\<lparr>mp_alloc_failures := mp_alloc_failures p + 1\<rparr>))"
  then show thesis by (intro full) (simp add: mp_alloc_nat_def)
next
  fix i p' assume i: "i < unat (mp_block_count p)" "i \<notin> mp_used p"
    and al: "aixos_mempool_alloc False (Some p) = (of_nat (mp_block p i), Some p')"
    and wf': "mempool_wf p'" and bs: "mp_block_size p' = mp_block_size p" and ex: "mp_extents p' = insert (mp_block p i, unat (mp_block_size p)) (mp_extents p)"
  have u: "unat (of_nat (mp_block p i) :: u32) = mp_block p i"
    using mp_block_lt[OF wf i(1)] wf by (intro u32_of_nat) (simp add: mempool_wf_def)
  then have "(of_nat (mp_block p i) :: u32) \<noteq> 0" using mp_block_pos[OF wf, of i] by (metis less_irrefl unat_0)
  then show thesis using al u i wf' bs ex by (intro ok) (simp_all add: mp_alloc_nat_def)
qed

lemma mp_extents_apart:
  assumes wf: "mempool_wf p"
  shows "extents_apart (mp_extents p)"
proof -
  have "mp_block p i + unat (mp_block_size p) \<le> mp_block p j" if "i < j" for i j
  proof -
    have "Suc i * unat (mp_block_size p) \<le> j * unat (mp_block_size p)" using that by (intro mult_le_mono1) simp
    then show ?thesis by (simp add: mp_block_def)
  qed
  then show ?thesis
    by (auto simp: extents_apart_def mp_extents_iff) (metis nat_neq_iff)
qed

lemma mp_free_nat_live:
  assumes "mempool_wf p" "i \<in> mp_used p"
  shows "\<exists>p'. mp_free_nat (mp_block p i) p = (True, p') \<and> mempool_wf p' \<and>
    mp_block_size p' = mp_block_size p \<and> mp_extents p' = mp_extents p - {(mp_block p i, unat (mp_block_size p))}"
  using mempool_free_effect[OF assms u32_of_nat[OF mp_block_small[OF assms]]]
    mp_block_small[OF assms] by (auto simp: mp_free_nat_def)

lemma mp_free_nat_dead:
  assumes "mempool_wf p" "\<not> (\<exists>i \<in> mp_used p. a = mp_block p i)"
  shows "mp_free_nat a p = (False, p)"
  using mempool_free_dead[OF assms(1), of "of_nat a"] assms(2) u32_of_nat[of a]
  by (auto simp: mp_free_nat_def)

lemma mp_fst_extents: "a \<in> fst ` mp_extents p \<longleftrightarrow> (\<exists>i \<in> mp_used p. a = mp_block p i)"
  by (auto simp: mp_extents_def image_iff)

lemma mempool_wf_failure: "mempool_wf (p\<lparr>mp_alloc_failures := f\<rparr>) = mempool_wf p"
  by (simp add: mempool_wf_def mp_used_def)

lemma mp_extents_failure: "mp_extents (p\<lparr>mp_alloc_failures := f\<rparr>) = mp_extents p"
  by (simp add: mp_extents_def mp_used_def mp_block_def)

interpretation mp: block_allocator "\<lambda>p. mempool_wf p \<and> unat (mp_block_size p) = n" mp_extents
    "\<lambda>_. n" mp_alloc_nat mp_free_nat for n
proof (unfold_locales, goal_cases)
  case (1 s)
  then show ?case by (simp add: mp_extents_def mp_used_finite)
next
  case (2 s)
  then show ?case by (simp add: mp_extents_apart)
next
  case (3 s)
  then show ?case by (auto simp: inj_on_def mp_extents_def)
next
  case (4 s r)
  then have "mempool_wf s" by simp
  then show ?case by (rule mp_alloc_nat_cases[of s r]) (use 4 in \<open>auto simp: mempool_wf_failure\<close>)
next
  case (5 s a)
  then have wf: "mempool_wf s" by simp
  show ?case using mp_free_nat_live[OF wf] mp_free_nat_dead[OF wf, of a] 5
    by (cases "\<exists>i \<in> mp_used s. a = mp_block s i") fastforce+
next
  case (6 s r s')
  then have "mempool_wf s" by simp
  then show ?case
    by (rule mp_alloc_nat_cases[of s r]) (use 6(2) in \<open>auto simp: mp_extents_failure\<close>)
next
  case (7 s r a s')
  then have wf: "mempool_wf s" by simp
  then show ?case
    by (rule mp_alloc_nat_cases[of s r])
      (use 7 mp_block_inj[OF wf] in \<open>auto simp: mp_fst_extents\<close>)
next
  case (8 s a n)
  then obtain i where "i \<in> mp_used s" "a = mp_block s i" "n = unat (mp_block_size s)" and wf: "mempool_wf s"
    by (auto simp: mp_extents_iff)
  then show ?case using mp_free_nat_live[OF wf] by fastforce
next
  case (9 s a)
  then have "\<not> (\<exists>i \<in> mp_used s. a = mp_block s i)" and wf: "mempool_wf s" by (simp_all add: mp_fst_extents)
  then show ?case using mp_free_nat_dead[OF wf] by simp
qed

section \<open>Initialisation\<close>

lemma mp_align_up_nat:
  assumes "unat v + 3 < 2 ^ 32"
  shows "unat (mp_align_up v) = (unat v + 3) div 4 * 4"
proof -
  have "w AND NOT (mask 2) = push_bit 2 (drop_bit 2 w)" for w :: u32
  proof (rule bit_word_eqI)
    fix n assume "n < LENGTH(32)"
    have "2 \<le> n \<Longrightarrow> Suc (Suc (n - 2)) = n" by simp
    then show "bit (w AND NOT (mask 2)) n = bit (push_bit 2 (drop_bit 2 w)) n"
      using \<open>n < LENGTH(32)\<close> by (auto simp: bit_simps)
  qed
  moreover have "(4 - 1 :: u32) = mask 2" by (simp add: mask_eq_exp_minus_1)
  ultimately have "mp_align_up v = push_bit 2 (drop_bit 2 (v + 3))"
    by (simp add: mp_align_up_def add.commute)
  moreover have "unat (v + 3) = unat v + 3" using assms by (simp add: unat_word_ariths)
  moreover have "(unat v + 3) div 4 * 4 < 2 ^ 32" using assms by linarith
  ultimately show ?thesis
    by (simp add: push_bit_eq_mult drop_bit_eq_div unat_word_ariths unat_div mod_less)
qed

lemma bit_low_mask:
  assumes "0 < n" "n \<le> 32"
  shows "bit ((if n = 32 then UINT32_MAX else push_bit n 1 - 1) :: u32) i \<longleftrightarrow> i < n"
proof -
  have "((if n = 32 then UINT32_MAX else push_bit n 1 - 1) :: u32) = mask n"
    by (auto simp: mask_eq_exp_minus_1 push_bit_eq_mult)
  then show ?thesis using assms by (simp only: bit_mask_iff) auto
qed



text \<open>With a block size in the last word of the address space the rounding wraps to \<open>0\<close>, the
  size checks pass, and every allocation returns the same address.\<close>

lemma mempool_init_wraps:
  "\<exists>p p'. aixos_mempool_init (Some p0) 0x20000000 64 0xFFFFFFFD 4 = (AIXOS_OK, Some p) \<and>
     mp_block_size p = 0 \<and> aixos_mempool_alloc False (Some p) = (0x20000000, Some p') \<and>
     fst (aixos_mempool_alloc False (Some p')) = 0x20000000"
proof -
  have "aixos_mempool_init (Some p0) 0x20000000 64 0xFFFFFFFD 4 = (AIXOS_OK,
    Some \<lparr>mp_storage = 0x20000000, mp_storage_size = 0, mp_block_size = 0, mp_block_count = 4,
      mp_free_bitmap = 15, mp_allocated = 0, mp_peak_allocated = 0, mp_alloc_failures = 0\<rparr>)"
    by code_simp
  then show ?thesis by (intro exI conjI, assumption) (code_simp+)
qed

section \<open>Properties\<close>

datatype mp_op = MpAlloc | MpFree u32

definition mempool_run :: "mp_op list \<Rightarrow> mempool \<Rightarrow> mempool" where
  "mempool_run = fold (\<lambda>op p. the (snd (case op of
     MpAlloc \<Rightarrow> apfst uint (aixos_mempool_alloc False (Some p))
   | MpFree a \<Rightarrow> aixos_mempool_free False (Some p) a)))"

definition mp_op_nat :: "mp_op \<Rightarrow> unit alloc_op" where
  "mp_op_nat op = (case op of MpAlloc \<Rightarrow> AAlloc () | MpFree a \<Rightarrow> AFree (unat a))"

lemma mempool_run_astep: "mempool_run ops p = fold (mp.astep \<circ> mp_op_nat) ops p"
proof -
  have "(\<lambda>op p. the (snd (case op of MpAlloc \<Rightarrow> apfst uint (aixos_mempool_alloc False (Some p))
      | MpFree a \<Rightarrow> aixos_mempool_free False (Some p) a))) = mp.astep \<circ> mp_op_nat"
  proof (intro ext)
    fix op p
    show "the (snd (case op of MpAlloc \<Rightarrow> apfst uint (aixos_mempool_alloc False (Some p))
      | MpFree a \<Rightarrow> aixos_mempool_free False (Some p) a)) = (mp.astep \<circ> mp_op_nat) op p"
    proof (cases op)
      case (MpFree a)
      have "\<not> 2 ^ 32 \<le> unat a" using u32_less[of a] by simp
      then show ?thesis using MpFree
        by (auto simp: mp.astep_def mp_op_nat_def mp_free_nat_def split: prod.splits)
    qed (auto simp: mp.astep_def mp_op_nat_def mp_alloc_nat_def apfst_def map_prod_def split: prod.splits)
  qed
  then show ?thesis by (simp only: mempool_run_def)
qed

lemma mempool_alloc_nat:
  "aixos_mempool_alloc False (Some p) = (a, Some p') \<Longrightarrow> a \<noteq> 0 \<Longrightarrow> mp_alloc_nat () p = (Some (unat a), p')"
  by (simp add: mp_alloc_nat_def)

text \<open>C13. A block stays exclusively with its owner: between its allocation and its release no
  later allocation from the pool returns memory that overlaps it.\<close>

theorem mempool_blocks_exclusive:
  assumes "mempool_wf p" "aixos_mempool_alloc False (Some p) = (a, Some p')" "a \<noteq> 0"
    and "MpFree a \<notin> set ops"
    and "aixos_mempool_alloc False (Some (mempool_run ops p')) = (b, Some p'')" "b \<noteq> 0"
  shows "unat a + unat (mp_block_size p) \<le> unat b \<or> unat b + unat (mp_block_size p) \<le> unat a"
proof -
  have "AFree (unat a) \<notin> set (map mp_op_nat ops)"
  proof
    assume "AFree (unat a) \<in> set (map mp_op_nat ops)"
    then obtain op where op: "op \<in> set ops" "mp_op_nat op = AFree (unat a)" by force
    from op(2) have "op = MpFree a" by (cases op) (simp_all add: mp_op_nat_def word_unat_eq_iff)
    with op(1) have "MpFree a \<in> set ops" by simp
    with assms(4) show False ..
  qed
  moreover have "fold mp.astep (map mp_op_nat ops) p' = mempool_run ops p'"
    by (simp add: mempool_run_astep fold_map)
  moreover have "0 < unat (mp_block_size p)" using assms(1) by (simp add: mempool_wf_def unat_gt_0)
  ultimately show ?thesis
    using mp.alloc_exclusive[of p "unat (mp_block_size p)" "()" "unat a" p' "map mp_op_nat ops" "()" "unat b" p'']
      mempool_alloc_nat[OF assms(2,3)] mempool_alloc_nat[OF assms(5,6)] assms(1) by auto
qed

text \<open>A pool of four 12-byte blocks, for the examples.\<close>

definition mp_example :: mempool where
  "mp_example = \<lparr>mp_storage = 0x20000000, mp_storage_size = 48, mp_block_size = 12, mp_block_count = 4,
     mp_free_bitmap = 15, mp_allocated = 0, mp_peak_allocated = 0, mp_alloc_failures = 0\<rparr>"

lemma mp_example_bits: "bit (mp_free_bitmap mp_example) i \<longleftrightarrow> i < 4"
proof -
  have "mp_free_bitmap mp_example = mask 4" by (simp add: mp_example_def mask_eq_exp_minus_1)
  then show ?thesis by (simp only: bit_mask_iff) auto
qed

lemma mp_example_used: "mp_used mp_example = {}"
  unfolding mp_used_def mp_example_bits by (simp add: mp_example_def)

lemma mp_example_wf: "mempool_wf mp_example"
  unfolding mempool_wf_def mp_example_used mp_example_bits by (simp add: mp_example_def)

lemma mempool_blocks_exclusive_witness:
  "unat (0x20000000 :: u32) + unat (mp_block_size mp_example) \<le> unat (0x2000000C :: u32) \<or>
   unat (0x2000000C :: u32) + unat (mp_block_size mp_example) \<le> unat (0x20000000 :: u32)"
proof -
  let ?p1 = "the (snd (aixos_mempool_alloc False (Some mp_example)))"
  let ?ops = "[MpAlloc, MpFree 0x2000000C]"
  let ?p2 = "the (snd (aixos_mempool_alloc False (Some (mempool_run ?ops ?p1))))"
  have a: "aixos_mempool_alloc False (Some mp_example) = (0x20000000, Some ?p1)" by code_simp
  have b: "aixos_mempool_alloc False (Some (mempool_run ?ops ?p1)) = (0x2000000C, Some ?p2)" by code_simp
  show ?thesis by (rule mempool_blocks_exclusive[OF mp_example_wf a _ _ b]) simp_all
qed

text \<open>C14. \<open>aixos_mempool_free\<close> accepts exactly the addresses of currently allocated blocks, and
  then frees that block; any other address (a double free, an address inside a block or outside
  the storage) is refused with \<open>AIXOS_ERR_INVAL\<close> and changes nothing.\<close>

theorem mempool_free_correct:
  assumes "mempool_wf p"
  shows "aixos_mempool_free False (Some p) block =
    (if \<exists>i \<in> mp_used p. unat block = mp_block p i
     then (AIXOS_OK, Some (p\<lparr>mp_free_bitmap := mp_free_bitmap p OR
             bitm (unat ((block - mp_storage p) div mp_block_size p)), mp_allocated := mp_allocated p - 1\<rparr>))
     else (AIXOS_ERR_INVAL, Some p)) \<and>
    mempool_wf (the (snd (aixos_mempool_free False (Some p) block))) \<and>
    (\<forall>i \<in> mp_used p. unat block = mp_block p i \<longrightarrow>
       mp_used (the (snd (aixos_mempool_free False (Some p) block))) = mp_used p - {i})"
proof (cases "\<exists>i \<in> mp_used p. unat block = mp_block p i")
  case False
  then show ?thesis using mempool_free_dead[OF assms False] assms by simp
next
  case True
  then obtain i where i: "i \<in> mp_used p" "unat block = mp_block p i" by blast
  have il: "i < unat (mp_block_count p)" "\<not> bit (mp_free_bitmap p) i" using i(1) by (auto simp: mp_used_def)
  have "aixos_mempool_free False (Some p) block = (AIXOS_OK, Some (p\<lparr>mp_free_bitmap := mp_free_bitmap p OR
     bitm (unat ((block - mp_storage p) div mp_block_size p)), mp_allocated := mp_allocated p - 1\<rparr>))"
    using owns_block[OF assms, of block] il i block_index[OF assms il(1) i(2)]
    by (auto simp: aixos_mempool_free_def Let_def and_bitm_eq_0_iff)
  moreover obtain p' where "aixos_mempool_free False (Some p) block = (AIXOS_OK, Some p')" "mempool_wf p'"
    "mp_used p' = mp_used p - {i}" using mempool_free_effect[OF assms i] by blast
  moreover have "j = i" if "j \<in> mp_used p" "unat block = mp_block p j" for j
    using that i(2) mp_block_inj[OF assms] by simp
  ultimately show ?thesis using True by auto
qed

lemma mempool_free_correct_witness:
  "aixos_mempool_free False (Some mp_example) 0x20000004 = (AIXOS_ERR_INVAL, Some mp_example) \<and>
   mempool_wf (the (snd (aixos_mempool_free False (Some mp_example) 0x20000004)))"
  using mempool_free_correct[OF mp_example_wf, of "0x20000004"] mp_example_used mp_example_wf by simp

end
