(* ===== verification/CString.thy ===== *)
theory CString
  imports Aix_Prelude
begin

text \<open>
  \<^verbatim>\<open>kernel/string.c\<close>: the freestanding memory and string routines. A C string is a HOL
  string followed by an implicit terminator (\<open>cchar\<close>), an array is a list of its cells; writes
  are at the index the C code uses. \<open>aixos_snprintf\<close> gets its variadic arguments as a list of
  32-bit words and is \<open>None\<close> when the format asks for more arguments than were passed.
\<close>

abbreviation (input) NUL :: char where "NUL \<equiv> CHR 0x00"

section \<open>Memory routines\<close>

text \<open>\<open>while (n--) *p++ = c\<close> and \<open>while (n--) *d++ = *s++\<close>; the cells past the array are
  not written (the callers pass arrays of at least \<open>n\<close> cells).\<close>

fun memset :: "'a list \<Rightarrow> 'a \<Rightarrow> nat \<Rightarrow> 'a list" where
  "memset s c 0 = s"
| "memset [] c (Suc n) = []"
| "memset (p # ps) c (Suc n) = c # memset ps c n"

fun memcpy :: "'a list \<Rightarrow> 'a list \<Rightarrow> nat \<Rightarrow> 'a list" where
  "memcpy dest src 0 = dest"
| "memcpy (d # ds) (s # ss) (Suc n) = s # memcpy ds ss n"
| "memcpy dest src (Suc n) = dest"

lemma memset_eq: "n \<le> length s \<Longrightarrow> memset s c n = replicate n c @ drop n s"
  by (induction s c n rule: memset.induct) auto

lemma memcpy_eq: "n \<le> length dest \<Longrightarrow> n \<le> length src \<Longrightarrow> memcpy dest src n = take n src @ drop n dest"
  by (induction dest src n rule: memcpy.induct) auto

section \<open>String routines\<close>

text \<open>\<open>s[i]\<close> of a NUL-terminated string, for \<open>i\<close> up to its length.\<close>

definition cchar :: "string \<Rightarrow> nat \<Rightarrow> char" where
  "cchar s i = (if i < length s then s ! i else NUL)"

function strncpy_copy :: "string \<Rightarrow> string \<Rightarrow> nat \<Rightarrow> nat \<Rightarrow> nat \<times> string" where
  "strncpy_copy dest src n i =
     (if i < n \<and> cchar src i \<noteq> NUL then strncpy_copy (dest[i := cchar src i]) src n (Suc i)
      else (i, dest))"
  by pat_completeness auto
termination by (relation "measure (\<lambda>(_, _, n, i). n - i)") auto

function strncpy_pad :: "string \<Rightarrow> nat \<Rightarrow> nat \<Rightarrow> string" where
  "strncpy_pad dest n i = (if i < n then strncpy_pad (dest[i := NUL]) n (Suc i) else dest)"
  by pat_completeness auto
termination by (relation "measure (\<lambda>(_, n, i). n - i)") auto

declare strncpy_copy.simps [simp del] strncpy_pad.simps [simp del]

definition strncpy :: "string \<Rightarrow> string \<Rightarrow> nat \<Rightarrow> string" where
  "strncpy dest src n = (let (i, dest) = strncpy_copy dest src n 0 in strncpy_pad dest n i)"

function strlen_from :: "string \<Rightarrow> nat \<Rightarrow> nat" where
  "strlen_from s len = (if cchar s len \<noteq> NUL then strlen_from s (Suc len) else len)"
  by pat_completeness auto
termination by (relation "measure (\<lambda>(s, len). length s - len)") (auto simp: cchar_def split: if_splits)

declare strlen_from.simps [simp del]

definition strlen :: "string \<Rightarrow> nat" where
  "strlen s = strlen_from s 0"

text \<open>\<open>(unsigned char)c\<close>\<close>

definition uchar :: "char \<Rightarrow> int" where
  "uchar c = of_char c"

function strcmp_from :: "string \<Rightarrow> string \<Rightarrow> nat \<Rightarrow> int" where
  "strcmp_from s1 s2 i =
     (if cchar s1 i \<noteq> NUL \<and> cchar s1 i = cchar s2 i then strcmp_from s1 s2 (Suc i)
      else uchar (cchar s1 i) - uchar (cchar s2 i))"
  by pat_completeness auto
termination by (relation "measure (\<lambda>(s1, _, i). length s1 - i)") (auto simp: cchar_def split: if_splits)

declare strcmp_from.simps [simp del]

definition strcmp :: "string \<Rightarrow> string \<Rightarrow> int" where
  "strcmp s1 s2 = strcmp_from s1 s2 0"

section \<open>Formatted output\<close>

text \<open>\<open>str\<close>, \<open>written\<close> and \<open>total\<close> of \<open>aixos_snprintf\<close>.\<close>

record fmt_state =
  fmt_str :: string
  fmt_written :: nat
  fmt_total :: int

text \<open>\<open>if (written + 1U < size) str[written++] = ch; total++;\<close>\<close>

definition fmt_put :: "nat \<Rightarrow> char \<Rightarrow> fmt_state \<Rightarrow> fmt_state" where
  "fmt_put sz ch st =
     (let st = (if fmt_written st + 1 < sz
                then st\<lparr>fmt_str := (fmt_str st)[fmt_written st := ch],
                        fmt_written := fmt_written st + 1\<rparr>
                else st)
      in st\<lparr>fmt_total := fmt_total st + 1\<rparr>)"

definition fmt_digit :: "nat \<Rightarrow> char" where
  "fmt_digit digit = (if digit < 10 then char_of (48 + digit) else char_of (65 + digit - 10))"

text \<open>The \<open>do\<close> loop that fills \<open>digits\<close>, least significant digit first.\<close>

function fmt_digits :: "nat \<Rightarrow> nat \<Rightarrow> string" where
  "fmt_digits base value =
     fmt_digit (value mod base) # (if value div base = 0 \<or> base < 2 then [] else fmt_digits base (value div base))"
  by pat_completeness auto
termination
  by (relation "measure snd") (auto intro!: div_less_dividend, (metis div_eq_0_iff gr0I zero_less_iff_neq_zero)+)

declare fmt_digits.simps [simp del]

text \<open>The conversion of one argument: the digits, then the sign, output in reverse.\<close>

definition fmt_conv :: "char \<Rightarrow> u32 \<Rightarrow> string" where
  "fmt_conv conv arg =
     (let negative = (conv = CHR ''d'' \<and> sint arg < 0);
          value = (if negative then word_of_int (- sint arg) else arg);
          base = (if conv = CHR ''X'' then 16 else 10);
          digits = fmt_digits base (unat value) @ (if negative then [CHR ''-''] else [])
      in rev digits)"

fun fmt_loop :: "nat \<Rightarrow> string \<Rightarrow> u32 list \<Rightarrow> fmt_state \<Rightarrow> fmt_state option" where
  "fmt_loop sz [] args st = Some st"
| "fmt_loop sz (c # format) args st =
     (if c = NUL then Some st
      else if c \<noteq> CHR ''%'' then fmt_loop sz format args (fmt_put sz c st)
      else case format of
        [] \<Rightarrow> Some (fmt_put sz CHR ''%'' st)
      | conv # rest \<Rightarrow>
          if conv = CHR ''%'' then fmt_loop sz rest args (fmt_put sz CHR ''%'' st)
          else if conv = CHR ''d'' \<or> conv = CHR ''u'' \<or> conv = CHR ''X''
          then case args of [] \<Rightarrow> None
               | arg # args' \<Rightarrow> fmt_loop sz rest args' (fold (fmt_put sz) (fmt_conv conv arg) st)
          else fmt_loop sz format args (fmt_put sz CHR ''%'' st))"

definition aixos_snprintf :: "string \<Rightarrow> nat \<Rightarrow> string \<Rightarrow> u32 list \<Rightarrow> (int \<times> string) option" where
  "aixos_snprintf str sz format args =
     map_option (\<lambda>st. (fmt_total st,
         if sz \<noteq> 0
         then (fmt_str st)[(if fmt_written st < sz then fmt_written st else sz - 1) := NUL]
         else fmt_str st))
       (fmt_loop sz format args \<lparr>fmt_str = str, fmt_written = 0, fmt_total = 0\<rparr>)"

section \<open>Copying and comparing\<close>

text \<open>The characters before the terminator.\<close>

definition cstr :: "string \<Rightarrow> string" where
  "cstr s = takeWhile (\<lambda>c. c \<noteq> NUL) s"

lemma strncpy_copy_spec:
  assumes "i \<le> n" "n \<le> length dest" "i \<le> length (cstr src)"
  shows "strncpy_copy dest src n i = (min n (length (cstr src)),
    take i dest @ drop i (take n (cstr src)) @ drop (min n (length (cstr src))) dest)"
  using assms
proof (induction dest src n i rule: strncpy_copy.induct)
  case (1 dest src n i)
  have nth: "cchar src i \<noteq> NUL \<longleftrightarrow> i < length (cstr src)"
  proof
    assume "cchar src i \<noteq> NUL"
    then have i: "i < length src" "src ! i \<noteq> NUL" by (auto simp: cchar_def split: if_splits)
    show "i < length (cstr src)"
    proof (rule ccontr)
      assume "\<not> i < length (cstr src)"
      then have "i = length (cstr src)" using "1.prems"(3) by simp
      then show False using i nth_length_takeWhile[of "\<lambda>c. c \<noteq> NUL" src] by (simp add: cstr_def)
    qed
  next
    assume "i < length (cstr src)"
    then have "cstr src ! i \<in> set (cstr src)" by (rule nth_mem)
    moreover have "cstr src ! i = src ! i" "i < length src" using \<open>i < length (cstr src)\<close>
      using length_takeWhile_le[of "\<lambda>c. c \<noteq> NUL" src] by (auto simp: cstr_def takeWhile_nth)
    ultimately show "cchar src i \<noteq> NUL" by (auto simp: cchar_def cstr_def dest: set_takeWhileD)
  qed
  show ?case
  proof (cases "i < n \<and> cchar src i \<noteq> NUL")
    case True
    then have il: "i < length (cstr src)" "cchar src i = cstr src ! i"
      using nth length_takeWhile_le[of "\<lambda>c. c \<noteq> NUL" src]
      by (auto simp: cchar_def cstr_def takeWhile_nth split: if_splits)
    have "strncpy_copy dest src n i = strncpy_copy (dest[i := cchar src i]) src n (Suc i)"
      using True by (subst strncpy_copy.simps) simp
    also have "\<dots> = (min n (length (cstr src)), take (Suc i) (dest[i := cchar src i]) @
        drop (Suc i) (take n (cstr src)) @ drop (min n (length (cstr src))) (dest[i := cchar src i]))"
      using "1.IH"[OF True] True il "1.prems" by simp
    also have "take (Suc i) (dest[i := cchar src i]) = take i dest @ [cstr src ! i]"
      using True "1.prems" il by (simp add: take_Suc_conv_app_nth)
    also have "drop (min n (length (cstr src))) (dest[i := cchar src i]) = drop (min n (length (cstr src))) dest"
      using True il by simp
    also have "(take i dest @ [cstr src ! i]) @ drop (Suc i) (take n (cstr src)) @ drop (min n (length (cstr src))) dest
       = take i dest @ drop i (take n (cstr src)) @ drop (min n (length (cstr src))) dest"
      using True il by (simp add: Cons_nth_drop_Suc[symmetric])
    finally show ?thesis .
  next
    case False
    then have i: "min n (length (cstr src)) = i" using "1.prems" nth by auto
    have "strncpy_copy dest src n i = (i, dest)" using False by (subst strncpy_copy.simps) (rule if_not_P)
    then show ?thesis unfolding i using i by (simp add: min_def split: if_splits)
  qed
qed

lemma strncpy_pad_spec:
  "i \<le> n \<Longrightarrow> n \<le> length dest \<Longrightarrow>
   strncpy_pad dest n i = take i dest @ replicate (n - i) NUL @ drop n dest"
proof (induction dest n i rule: strncpy_pad.induct)
  case (1 dest n i)
  show ?case
  proof (cases "i < n")
    case True
    then have "strncpy_pad dest n i = take (Suc i) (dest[i := NUL]) @ replicate (n - Suc i) NUL @ drop n (dest[i := NUL])"
      using 1 by (subst strncpy_pad.simps) simp
    also have "take (Suc i) (dest[i := NUL]) = take i dest @ [NUL]"
      using True 1 by (simp add: take_Suc_conv_app_nth)
    also have "(take i dest @ [NUL]) @ replicate (n - Suc i) NUL @ drop n (dest[i := NUL]) =
        take i dest @ replicate (n - i) NUL @ drop n dest"
      using True by (simp add: Suc_diff_Suc[symmetric] del: Suc_diff_Suc)
    finally show ?thesis .
  next
    case False
    then show ?thesis using 1 by (subst strncpy_pad.simps) simp
  qed
qed

lemma strncpy_spec:
  assumes "n \<le> length dest"
  shows "strncpy dest src n = take n (cstr src) @ replicate (n - length (cstr src)) NUL @ drop n dest"
proof -
  let ?m = "min n (length (cstr src))"
  have "strncpy dest src n = strncpy_pad (take n (cstr src) @ drop ?m dest) n ?m"
    using strncpy_copy_spec[of 0 n dest src] assms by (simp add: strncpy_def)
  also have "\<dots> = take ?m (take n (cstr src) @ drop ?m dest) @ replicate (n - ?m) NUL @
      drop n (take n (cstr src) @ drop ?m dest)"
    using assms by (intro strncpy_pad_spec) auto
  also have "\<dots> = take n (cstr src) @ replicate (n - length (cstr src)) NUL @ drop n dest"
    by (auto simp: min_def)
  finally show ?thesis .
qed

lemma cchar_cstr: "i \<le> length (cstr s) \<Longrightarrow> cchar s i = (if i < length (cstr s) then cstr s ! i else NUL)"
proof -
  assume i: "i \<le> length (cstr s)"
  have le: "length (cstr s) \<le> length s" by (simp add: cstr_def length_takeWhile_le)
  show ?thesis
  proof (cases "i < length (cstr s)")
    case True
    then show ?thesis using le by (simp add: cchar_def cstr_def takeWhile_nth)
  next
    case False
    then have "i = length (cstr s)" using i by simp
    then show ?thesis using nth_length_takeWhile[of "\<lambda>c. c \<noteq> NUL" s] by (auto simp: cchar_def cstr_def)
  qed
qed

lemma cstr_not_nul: "i < length (cstr s) \<Longrightarrow> cstr s ! i \<noteq> NUL"
proof -
  assume "i < length (cstr s)"
  then have "cstr s ! i \<in> set (cstr s)" by (rule nth_mem)
  then show ?thesis unfolding cstr_def by (blast dest: set_takeWhileD)
qed

lemma strlen_from_spec: "i \<le> length (cstr s) \<Longrightarrow> strlen_from s i = length (cstr s)"
proof (induction s i rule: strlen_from.induct)
  case (1 s i)
  then show ?case
    using cstr_not_nul[of i s] by (subst strlen_from.simps) (auto simp: cchar_cstr)
qed

lemma strlen_cstr: "strlen s = length (cstr s)"
  by (simp add: strlen_def strlen_from_spec)

lemma uchar_inj: "uchar a = uchar b \<longleftrightarrow> a = b"
  by (simp add: uchar_def)

lemma uchar_pos: "c \<noteq> NUL \<Longrightarrow> 0 < uchar c"
proof -
  assume "c \<noteq> NUL"
  then have "uchar c \<noteq> uchar NUL" by (simp only: uchar_inj not_False_eq_True)
  moreover have "uchar NUL = 0" by (simp add: uchar_def)
  moreover have "0 \<le> uchar c" by (simp add: uchar_def of_char_def)
  ultimately show ?thesis by linarith
qed

lemma uchar_nul: "uchar NUL = 0"
  by (simp add: uchar_def)

lemma strcmp_from_spec:
  assumes "i \<le> length (cstr a)" "i \<le> length (cstr b)"
  shows "(strcmp_from a b i = 0 \<longleftrightarrow> drop i (cstr a) = drop i (cstr b)) \<and>
    (strcmp_from a b i < 0 \<longleftrightarrow> (drop i (cstr a), drop i (cstr b)) \<in> lexord {(x, y). uchar x < uchar y}) \<and>
    strcmp_from b a i = - strcmp_from a b i"
  using assms
proof (induction a b i rule: strcmp_from.induct)
  case (1 a b i)
  let ?a = "cchar a i" and ?b = "cchar b i"
  have da: "drop i (cstr a) = (if ?a = NUL then [] else ?a # drop (Suc i) (cstr a))"
    using "1.prems"(1) cstr_not_nul[of i a] by (auto simp: cchar_cstr Cons_nth_drop_Suc)
  have db: "drop i (cstr b) = (if ?b = NUL then [] else ?b # drop (Suc i) (cstr b))"
    using "1.prems"(2) cstr_not_nul[of i b] by (auto simp: cchar_cstr Cons_nth_drop_Suc)
  have sa: "strcmp_from a b i = (if ?a \<noteq> NUL \<and> ?a = ?b then strcmp_from a b (Suc i) else uchar ?a - uchar ?b)"
    by (subst strcmp_from.simps) simp
  have sb: "strcmp_from b a i = (if ?b \<noteq> NUL \<and> ?b = ?a then strcmp_from b a (Suc i) else uchar ?b - uchar ?a)"
    by (subst strcmp_from.simps) simp
  show ?case
  proof (cases "?a \<noteq> NUL \<and> ?a = ?b")
    case True
    then have "Suc i \<le> length (cstr a)" "Suc i \<le> length (cstr b)"
      using "1.prems" by (auto simp: cchar_cstr split: if_splits)
    from "1.IH"[OF True this] show ?thesis using True unfolding sa sb da db by simp
  next
    case False
    then show ?thesis
      using uchar_pos[of ?a] uchar_pos[of ?b] uchar_nul uchar_inj[of ?a ?b]
      unfolding sa sb da db by auto
  qed
qed

text \<open>C18. \<open>strcmp\<close> is zero exactly on equal C strings, negative exactly when the first string
  comes first in the lexicographic order of unsigned characters, and antisymmetric.\<close>

theorem strcmp_correct:
  "(strcmp a b = 0 \<longleftrightarrow> cstr a = cstr b) \<and>
   (strcmp a b < 0 \<longleftrightarrow> (cstr a, cstr b) \<in> lexord {(x, y). uchar x < uchar y}) \<and>
   strcmp b a = - strcmp a b"
  using strcmp_from_spec[of 0 a b] by (simp add: strcmp_def)

section \<open>Formatting\<close>

text \<open>The text a format and its arguments stand for, with no buffer in the way.\<close>

fun fmt_render :: "string \<Rightarrow> u32 list \<Rightarrow> string option" where
  "fmt_render [] args = Some []"
| "fmt_render (c # format) args =
     (if c = NUL then Some []
      else if c \<noteq> CHR ''%'' then map_option ((#) c) (fmt_render format args)
      else case format of
        [] \<Rightarrow> Some ''%''
      | conv # rest \<Rightarrow>
          if conv = CHR ''%'' then map_option ((#) CHR ''%'') (fmt_render rest args)
          else if conv = CHR ''d'' \<or> conv = CHR ''u'' \<or> conv = CHR ''X''
          then case args of [] \<Rightarrow> None
               | arg # args' \<Rightarrow> map_option ((@) (fmt_conv conv arg)) (fmt_render rest args')
          else map_option ((#) CHR ''%'') (fmt_render format args))"

lemma fmt_loop_render:
  "fmt_loop sz format args st = map_option (\<lambda>out. fold (fmt_put sz) out st) (fmt_render format args)"
proof (induction sz format args st rule: fmt_loop.induct)
  case (2 sz c format args st)
  show ?case
    using 2 by (auto simp: option.map_comp comp_def split: list.split)
qed simp

lemma fold_fmt_put:
  assumes "sz \<le> length (fmt_str st)" "fmt_written st < sz \<or> sz = 0"
  shows "fold (fmt_put sz) out st =
    st\<lparr>fmt_str := take (fmt_written st) (fmt_str st) @ take (sz - 1 - fmt_written st) out @
                  drop (fmt_written st + min (sz - 1 - fmt_written st) (length out)) (fmt_str st),
       fmt_written := fmt_written st + min (sz - 1 - fmt_written st) (length out),
       fmt_total := fmt_total st + int (length out)\<rparr>"
  using assms
proof (induction out arbitrary: st)
  case (Cons ch out)
  define st' where "st' = fmt_put sz ch st"
  show ?case
  proof (cases "fmt_written st + 1 < sz")
    case True
    then have st': "st' = st\<lparr>fmt_str := (fmt_str st)[fmt_written st := ch], fmt_written := fmt_written st + 1,
        fmt_total := fmt_total st + 1\<rparr>" by (simp add: st'_def fmt_put_def)
    have k: "sz - Suc (fmt_written st) = Suc (sz - Suc (Suc (fmt_written st)))" using True by arith
    have "take (Suc (fmt_written st)) ((fmt_str st)[fmt_written st := ch]) = take (fmt_written st) (fmt_str st) @ [ch]"
      using True Cons.prems by (simp add: take_Suc_conv_app_nth)
    then show ?thesis
      using Cons.IH[of st'] Cons.prems True by (simp add: st'_def[symmetric]) (simp add: st' k)
  next
    case False
    then have st': "st' = st\<lparr>fmt_total := fmt_total st + 1\<rparr>" by (simp add: st'_def fmt_put_def)
    have "sz - 1 - fmt_written st = 0" using False Cons.prems by auto
    then show ?thesis
      using Cons.IH[of st'] Cons.prems by (simp add: st'_def[symmetric]) (simp add: st')
  qed
qed simp

text \<open>C19. \<open>aixos_snprintf\<close> writes the first \<open>size - 1\<close> characters of the formatted text and a
  terminator, touches nothing of the buffer beyond that (nothing at all when \<open>size\<close> is zero),
  and returns the length of the whole text.\<close>

theorem snprintf_correct:
  assumes "sz \<le> length str"
  shows "aixos_snprintf str sz format args =
    map_option (\<lambda>out. (int (length out),
        if sz = 0 then str
        else take (sz - 1) out @ [NUL] @ drop (min (sz - 1) (length out) + 1) str))
      (fmt_render format args)"
proof (cases "fmt_render format args")
  case None
  then show ?thesis by (simp add: aixos_snprintf_def fmt_loop_render)
next
  case (Some out)
  let ?m = "min (sz - 1) (length out)"
  let ?st = "\<lparr>fmt_str = str, fmt_written = 0, fmt_total = 0\<rparr>"
  have f: "fold (fmt_put sz) out ?st = \<lparr>fmt_str = take (sz - 1) out @ drop ?m str, fmt_written = ?m,
      fmt_total = int (length out)\<rparr>"
    using fold_fmt_put[of sz ?st out] assms by fastforce
  show ?thesis
  proof (cases "sz = 0")
    case True
    then show ?thesis using f Some by (simp add: aixos_snprintf_def fmt_loop_render)
  next
    case False
    then have lt: "?m < sz" "?m < length str" using assms by auto
    have "(take (sz - 1) out @ drop ?m str)[?m := NUL] = take (sz - 1) out @ (drop ?m str)[0 := NUL]"
      by (simp add: list_update_append min_def)
    also have "(drop ?m str)[0 := NUL] = [NUL] @ drop (?m + 1) str"
      using lt(2) by (simp add: Cons_nth_drop_Suc[symmetric])
    finally show ?thesis using f Some False lt by (simp add: aixos_snprintf_def fmt_loop_render)
  qed
qed

lemma snprintf_correct_witness:
  "aixos_snprintf ''xxxxxxxx'' 6 ''t=%d!'' [0xFFFFFFF4] = Some (6, ''t=-12'' @ [NUL] @ ''xx'')"
proof -
  have "fmt_render ''t=%d!'' [0xFFFFFFF4] = Some ''t=-12!''" by code_simp
  then show ?thesis using snprintf_correct[of 6 "''xxxxxxxx''" "''t=%d!''" "[0xFFFFFFF4]"] by simp
qed

section \<open>Numerals\<close>

definition digit_val :: "char \<Rightarrow> nat" where
  "digit_val c = (if (of_char c :: nat) < 58 then of_char c - 48 else of_char c - 55)"

definition numeral_val :: "nat \<Rightarrow> string \<Rightarrow> nat" where
  "numeral_val base s = foldl (\<lambda>n c. n * base + digit_val c) 0 s"

lemma digit_val_fmt: "d < 16 \<Longrightarrow> digit_val (fmt_digit d) = d"
  by (simp add: digit_val_def fmt_digit_def)

lemma numeral_val_digits:
  assumes "2 \<le> base" "base \<le> 16"
  shows "numeral_val base (rev (fmt_digits base v)) = v"
  using assms
proof (induction base v rule: fmt_digits.induct)
  case (1 base v)
  have lt: "v mod base < 16" using "1.prems" by (meson less_le_trans mod_less_divisor zero_less_numeral order.strict_trans2)
  show ?case
  proof (cases "v div base = 0")
    case True
    then show ?thesis using lt "1.prems"
      by (subst fmt_digits.simps) (simp add: numeral_val_def digit_val_fmt div_eq_0_iff)
  next
    case False
    then have "numeral_val base (rev (fmt_digits base (v div base))) = v div base" using 1 by simp
    then show ?thesis using lt False "1.prems"
      by (subst fmt_digits.simps) (simp add: numeral_val_def digit_val_fmt)
  qed
qed

definition signed_numeral_val :: "string \<Rightarrow> int" where
  "signed_numeral_val s = (case s of c # cs \<Rightarrow>
     if c = CHR ''-'' then - int (numeral_val 10 cs) else int (numeral_val 10 s) | [] \<Rightarrow> 0)"

lemma fmt_digits_chars: "2 \<le> base \<Longrightarrow> set (fmt_digits base v) \<subseteq> fmt_digit ` {..<base}"
proof (induction base v rule: fmt_digits.induct)
  case (1 base v)
  then show ?case by (subst fmt_digits.simps) auto
qed

lemma fmt_digits_length: "2 \<le> base \<Longrightarrow> v < base ^ Suc k \<Longrightarrow> length (fmt_digits base v) \<le> Suc k"
proof (induction k arbitrary: v)
  case 0
  then show ?case by (subst fmt_digits.simps) (simp add: div_eq_0_iff)
next
  case (Suc k)
  have "v div base < base ^ Suc k"
    using Suc.prems by (simp add: div_less_iff_less_mult mult.commute)
  then have "length (fmt_digits base (v div base)) \<le> Suc k" using Suc by blast
  then show ?case by (subst fmt_digits.simps) simp
qed

lemma fmt_digits_not_minus: "2 \<le> base \<Longrightarrow> base \<le> 16 \<Longrightarrow> CHR ''-'' \<notin> set (fmt_digits base v)"
proof
  assume b: "2 \<le> base" "base \<le> 16" and "CHR ''-'' \<in> set (fmt_digits base v)"
  then have "CHR ''-'' \<in> fmt_digit ` {..<base}" using fmt_digits_chars[OF b(1), of v] by blast
  then obtain d where d: "d < 16" "CHR ''-'' = fmt_digit d" using b(2) less_le_trans by (auto simp: image_iff)
  then have "digit_val CHR ''-'' = d" using digit_val_fmt by simp
  then have "d = 0" by (simp add: digit_val_def)
  moreover have "fmt_digit 0 = CHR ''0''" by code_simp
  ultimately show False using d(2) by simp
qed

lemma fmt_digits_not_Nil: "fmt_digits base v \<noteq> []"
  by (subst fmt_digits.simps) simp

lemma uint_of_int_small: "0 \<le> n \<Longrightarrow> n < 2 ^ 32 \<Longrightarrow> uint (word_of_int n :: u32) = n"
  by (simp add: unsigned_of_int take_bit_int_eq_self)

lemma sint_uint_cases: "sint (v :: u32) = uint v - 2 ^ 32 * of_bool (bit (uint v) 31)"
proof -
  have "uint v < 2 ^ Suc 31" using unsigned_less[of v, where ?'a = int] by simp
  then have t: "take_bit (Suc 31) (uint v) = uint v" by (intro take_bit_int_eq_self) simp_all
  have "sint v = signed_take_bit 31 (uint v)" by (simp add: sint_uint)
  also have "\<dots> = take_bit (Suc 31) (uint v) - 2 ^ Suc 31 * of_bool (bit (uint v) 31)"
    by (rule signed_take_bit_eq_take_bit_minus)
  finally show ?thesis unfolding t by simp
qed

lemma fmt_conv_signed: "signed_numeral_val (fmt_conv CHR ''d'' v) = sint v"
proof (cases "sint v < 0")
  case True
  have "sint v \<ge> - 2147483648" using sint_ge[of v] by simp
  with True have "0 \<le> - sint v" "- sint v < 2 ^ 32" by simp_all
  then have "uint (word_of_int (- sint v) :: u32) = - sint v" by (rule uint_of_int_small)
  then have "int (unat (word_of_int (- sint v) :: u32)) = - sint v" by (simp only: uint_nat[symmetric])
  then show ?thesis
    using True by (simp add: fmt_conv_def signed_numeral_val_def numeral_val_digits)
next
  case False
  let ?ds = "fmt_digits 10 (unat v)"
  obtain c cs where c: "rev ?ds = c # cs" using fmt_digits_not_Nil[of 10 "unat v"] by (cases "rev ?ds") auto
  have "c \<in> set (rev ?ds)" unfolding c by simp
  then have "c \<noteq> CHR ''-''" using fmt_digits_not_minus[of 10 "unat v"] by auto
  then have "signed_numeral_val (rev ?ds) = int (numeral_val 10 (rev ?ds))"
    by (simp add: signed_numeral_val_def c)
  moreover have "int (unat v) = sint v"
  proof (cases "bit (uint v) 31")
    case True
    have "uint v < 2 ^ 32" using unsigned_less[of v, where ?'a = int] by simp
    then show ?thesis using True sint_uint_cases[of v] False by simp
  next
    case False
    then show ?thesis using sint_uint_cases[of v] by simp
  qed
  ultimately show ?thesis using False by (simp add: fmt_conv_def numeral_val_digits)
qed

text \<open>C21. The conversions print numerals: reading \<open>%u\<close>, \<open>%X\<close> and \<open>%d\<close> output back gives the
  argument (as an unsigned, hexadecimal and signed number, \<open>INT_MIN\<close> included), and a conversion
  never produces more than 11 of the 16 characters its buffer holds.\<close>

theorem fmt_conv_roundtrip:
  "numeral_val 10 (fmt_conv CHR ''u'' v) = unat v \<and> numeral_val 16 (fmt_conv CHR ''X'' v) = unat v \<and>
   signed_numeral_val (fmt_conv CHR ''d'' v) = sint v \<and> length (fmt_conv conv v) \<le> 11"
proof -
  have "length (fmt_digits 10 (unat w)) \<le> 10" "length (fmt_digits 16 (unat w)) \<le> 8" for w :: u32
    using fmt_digits_length[of 10 "unat w" 9] fmt_digits_length[of 16 "unat w" 7] u32_less[of w] by simp_all
  then have "length (fmt_conv conv v) \<le> 11"
    by (auto simp: fmt_conv_def Let_def intro: le_trans[of _ 10] le_trans[of _ 8])
  then show ?thesis
    using fmt_conv_signed by (simp add: fmt_conv_def numeral_val_digits)
qed

end
