(* ===== verification/Trace.thy ===== *)
theory Trace
  imports CString
begin

text \<open>
  \<^verbatim>\<open>kernel/trace.c\<close>: the event trace, a ring of 256 entries with free-running sequence
  numbers. The abstract view is the list of everything ever recorded; \<open>trace_abs\<close> relates the
  ring to it, and the snapshot is proved to be its most recent part.
\<close>

abbreviation (input) AIXOS_CFG_TRACE_BUFFER_SIZE :: u32 where "AIXOS_CFG_TRACE_BUFFER_SIZE \<equiv> 256"

section \<open>State and operations\<close>

record aixos_trace_entry_t =
  te_sequence :: u32
  te_timestamp :: u32
  te_event :: u16
  te_arg0 :: u32
  te_arg1 :: u32

record aixos_trace_info_t =
  ti_available :: u32
  ti_capacity :: u32
  ti_overwritten :: u32

record trace_state =
  trace_buf :: "aixos_trace_entry_t list"
  trace_next_sequence :: u32
  trace_count :: u32
  trace_overwritten :: u32

definition trace_code :: "aixos_trace_event \<Rightarrow> u16" where
  "trace_code e = (case e of
      AIXOS_TRACE_NONE \<Rightarrow> 0 | AIXOS_TRACE_TASK_SWITCH \<Rightarrow> 1 | AIXOS_TRACE_TASK_CREATE \<Rightarrow> 2
    | AIXOS_TRACE_TASK_DELETE \<Rightarrow> 3 | AIXOS_TRACE_IPC_WAIT \<Rightarrow> 4 | AIXOS_TRACE_IPC_POST \<Rightarrow> 5
    | AIXOS_TRACE_TIMER \<Rightarrow> 6 | AIXOS_TRACE_MEM_ALLOC \<Rightarrow> 7 | AIXOS_TRACE_MEM_FREE \<Rightarrow> 8
    | AIXOS_TRACE_ISR_ENTER \<Rightarrow> 9 | AIXOS_TRACE_ISR_EXIT \<Rightarrow> 10 | AIXOS_TRACE_STACK_GUARD \<Rightarrow> 11)"

definition zero_trace_entry :: aixos_trace_entry_t where
  "zero_trace_entry = \<lparr>te_sequence = 0, te_timestamp = 0, te_event = 0, te_arg0 = 0, te_arg1 = 0\<rparr>"

definition aixos_trace_init :: trace_state where
  "aixos_trace_init = \<lparr>trace_buf = replicate (unat AIXOS_CFG_TRACE_BUFFER_SIZE) zero_trace_entry,
     trace_next_sequence = 0, trace_count = 0, trace_overwritten = 0\<rparr>"

text \<open>\<open>aixos_get_tick()\<close> is the argument \<open>tick\<close>.\<close>

definition aixos_trace_record ::
  "u32 \<Rightarrow> aixos_trace_event \<Rightarrow> u32 \<Rightarrow> u32 \<Rightarrow> trace_state \<Rightarrow> trace_state" where
  "aixos_trace_record tick event d0 d1 st =
     (let idx = unat (trace_next_sequence st mod AIXOS_CFG_TRACE_BUFFER_SIZE);
          st = (if trace_count st < AIXOS_CFG_TRACE_BUFFER_SIZE
                then st\<lparr>trace_count := trace_count st + 1\<rparr>
                else st\<lparr>trace_overwritten := trace_overwritten st + 1\<rparr>);
          entry = \<lparr>te_sequence = trace_next_sequence st, te_timestamp = tick,
                   te_event = trace_code event, te_arg0 = d0, te_arg1 = d1\<rparr>
      in st\<lparr>trace_buf := (trace_buf st)[idx := entry],
            trace_next_sequence := trace_next_sequence st + 1\<rparr>)"

text \<open>The result is the returned count, the entries written to \<open>entries\<close> (\<open>None\<close> when the
  caller passed \<open>NULL\<close>) and the contents of \<open>info\<close>.\<close>

definition aixos_trace_snapshot ::
  "bool \<Rightarrow> u32 \<Rightarrow> trace_state \<Rightarrow> u32 \<times> aixos_trace_entry_t list option \<times> aixos_trace_info_t" where
  "aixos_trace_snapshot entries_null capacity st =
     (let info = \<lparr>ti_available = trace_count st, ti_capacity = AIXOS_CFG_TRACE_BUFFER_SIZE,
                  ti_overwritten = trace_overwritten st\<rparr>;
          copy_count = (if capacity < trace_count st then capacity else trace_count st);
          start = trace_next_sequence st - copy_count
      in if entries_null then (0, None, info)
         else (copy_count,
           Some (map (\<lambda>i. trace_buf st ! unat ((start + of_nat i) mod AIXOS_CFG_TRACE_BUFFER_SIZE))
                   [0..<unat copy_count]), info))"

definition aixos_trace_get_info :: "trace_state \<Rightarrow> aixos_trace_info_t" where
  "aixos_trace_get_info st = snd (snd (aixos_trace_snapshot True 0 st))"

text \<open>\<open>aixos_trace_dump\<close> with interrupts quiet: the strings handed to \<open>output\<close>. Every line is
  formatted into the 64-byte buffer \<open>line\<close>, whose previous contents do not matter.\<close>

definition trace_dump_line :: "aixos_trace_entry_t \<Rightarrow> string" where
  "trace_dump_line entry =
     (case aixos_snprintf (replicate 64 NUL) 64 ''[%u] ev=%d d0=0x%X d1=0x%X''
        [te_timestamp entry, ucast (te_event entry), te_arg0 entry, te_arg1 entry] of
        Some (_, line) \<Rightarrow> cstr line | None \<Rightarrow> [])"

function trace_dump_loop :: "trace_state \<Rightarrow> u32 \<Rightarrow> u32 \<Rightarrow> string list" where
  "trace_dump_loop st sequence end =
     (if sequence < end
      then let entry = trace_buf st ! unat (sequence mod AIXOS_CFG_TRACE_BUFFER_SIZE);
               out = (if te_sequence entry \<noteq> sequence then ''[trace entry overwritten]''
                      else trace_dump_line entry)
           in out # trace_dump_loop st (sequence + 1) end
      else [])"
  by pat_completeness auto

lemma u32_next_below: "(s :: u32) < e \<Longrightarrow> unat (s + 1) = Suc (unat s)"
proof -
  assume "s < e"
  then have "unat s < unat e" by (simp add: word_less_nat_alt)
  then have "Suc (unat s) < 2 ^ 32" using u32_less[of e] by linarith
  then show ?thesis by (simp add: unat_word_ariths)
qed

termination trace_dump_loop
proof (relation "measure (\<lambda>(_, s, e). unat e - unat s)")
  fix st :: trace_state and s e :: u32
  assume "s < e"
  then show "((st, s + 1, e), st, s, e) \<in> measure (\<lambda>(_, s, e). unat e - unat s)"
    by (simp add: u32_next_below word_less_nat_alt)
qed simp

declare trace_dump_loop.simps [simp del]

definition aixos_trace_dump :: "trace_state \<Rightarrow> string list" where
  "aixos_trace_dump st =
     trace_dump_loop st (trace_next_sequence st - trace_count st) (trace_next_sequence st)"

section \<open>The ring and the history it holds\<close>

definition trace_abs :: "aixos_trace_entry_t list \<Rightarrow> trace_state \<Rightarrow> bool" where
  "trace_abs hist st \<longleftrightarrow> length (trace_buf st) = 256 \<and>
     trace_next_sequence st = of_nat (length hist) \<and>
     trace_count st = of_nat (min (length hist) 256) \<and>
     trace_overwritten st = of_nat (length hist - 256) \<and>
     (\<forall>k < length hist. length hist - 256 \<le> k \<longrightarrow> trace_buf st ! (k mod 256) = hist ! k) \<and>
     (\<forall>k < length hist. te_sequence (hist ! k) = of_nat k)"

text \<open>Sequence numbers wrap at \<open>2\<^sup>3\<^sup>2\<close>, a multiple of the ring size, so positions do not jump.\<close>

lemma seq_position: "unat ((of_nat n :: u32) mod 256) = n mod 256"
proof -
  have "(4294967296::nat) = 256 * 16777216" by simp
  then have "n mod 4294967296 mod 256 = n mod 256" by (metis mod_mod_cancel dvd_triv_left)
  then show ?thesis by (simp add: unat_mod unat_of_nat take_bit_eq_mod)
qed

lemma unat_min_256: "unat (of_nat (min n 256) :: u32) = min n 256"
  by (simp add: u32_of_nat min_def)

lemma trace_init_abs: "trace_abs [] aixos_trace_init"
  by (simp add: trace_abs_def aixos_trace_init_def)

lemma trace_record_abs:
  assumes abs: "trace_abs hist st"
  shows "trace_abs (hist @ [\<lparr>te_sequence = of_nat (length hist), te_timestamp = tick,
     te_event = trace_code event, te_arg0 = d0, te_arg1 = d1\<rparr>]) (aixos_trace_record tick event d0 d1 st)"
    (is "trace_abs (hist @ [?e]) ?st'")
proof -
  let ?n = "length hist"
  have len: "length (trace_buf st) = 256" and next': "trace_next_sequence st = of_nat ?n"
    and cnt: "trace_count st = of_nat (min ?n 256)" and ov: "trace_overwritten st = of_nat (?n - 256)"
    and buf: "\<And>k. k < ?n \<Longrightarrow> ?n - 256 \<le> k \<Longrightarrow> trace_buf st ! (k mod 256) = hist ! k"
    and seq: "\<forall>k < ?n. te_sequence (hist ! k) = of_nat k"
    using abs by (auto simp: trace_abs_def)
  have lt: "trace_count st < 256 \<longleftrightarrow> ?n < 256"
    by (simp add: word_less_nat_alt cnt unat_min_256 min_less_iff_disj)
  have st': "?st' = st\<lparr>trace_count := (if ?n < 256 then trace_count st + 1 else trace_count st),
      trace_overwritten := (if ?n < 256 then trace_overwritten st else trace_overwritten st + 1),
      trace_buf := (trace_buf st)[?n mod 256 := ?e], trace_next_sequence := of_nat (Suc ?n)\<rparr>"
    by (auto simp: aixos_trace_record_def Let_def lt next' seq_position)
  have ring: "(trace_buf st)[?n mod 256 := ?e] ! (k mod 256) = (hist @ [?e]) ! k"
    if "k < Suc ?n" "Suc ?n - 256 \<le> k" for k
  proof (cases "k = ?n")
    case True
    then show ?thesis using len by simp
  next
    case False
    then have k: "k < ?n" "?n - 256 \<le> k" using that by auto
    have "k mod 256 \<noteq> ?n mod 256"
    proof
      assume "k mod 256 = ?n mod 256"
      then have "256 dvd ?n - k" using k(1) by (metis mod_eq_dvd_iff_nat nat_less_le)
      moreover have "0 < ?n - k" "?n - k < 256" using k that by auto
      ultimately show False by (auto dest: dvd_imp_le)
    qed
    then show ?thesis using buf[OF k] k len by (simp add: nth_append)
  qed
  have cnt': "trace_count ?st' = of_nat (min (Suc ?n) 256)"
  proof -
    have "min (Suc ?n) 256 = (if ?n < 256 then Suc (min ?n 256) else min ?n 256)" by auto
    then show ?thesis unfolding st' using cnt by simp
  qed
  have ov': "trace_overwritten ?st' = of_nat (Suc ?n - 256)"
    unfolding st' using ov by (auto simp: Suc_diff_le)
  have seq': "\<forall>k < length (hist @ [?e]). te_sequence ((hist @ [?e]) ! k) = of_nat k"
    using seq by (auto simp: nth_append less_Suc_eq)
  show ?thesis
    unfolding trace_abs_def using cnt' ov' ring len seq' by (simp add: st')
qed

lemma trace_snapshot_abs:
  assumes abs: "trace_abs hist st"
  shows "aixos_trace_snapshot False capacity st =
    (let c = min (unat capacity) (min (length hist) 256)
     in (of_nat c, Some (drop (length hist - c) hist), aixos_trace_get_info st))"
proof -
  let ?n = "length hist"
  define c where "c = min (unat capacity) (min ?n 256)"
  have cn: "c \<le> ?n" "c \<le> 256" by (auto simp: c_def)
  have next': "trace_next_sequence st = of_nat ?n" and cnt: "trace_count st = of_nat (min ?n 256)"
    and buf: "\<And>k. k < ?n \<Longrightarrow> ?n - 256 \<le> k \<Longrightarrow> trace_buf st ! (k mod 256) = hist ! k"
    using abs by (auto simp: trace_abs_def)
  have cc: "(if capacity < trace_count st then capacity else trace_count st) = of_nat c"
  proof -
    have "unat (if capacity < trace_count st then capacity else trace_count st) =
        min (unat capacity) (unat (trace_count st))" by (auto simp: word_less_nat_alt min_def)
    also have "\<dots> = c" by (simp only: cnt unat_min_256 c_def)
    finally show ?thesis by (rule u32_of_unat)
  qed
  have uc: "unat (of_nat c :: u32) = c" using cn(2) by (intro u32_of_nat) simp
  have "map (\<lambda>i. trace_buf st ! unat ((trace_next_sequence st - of_nat c + of_nat i) mod 256)) [0..<c]
        = drop (?n - c) hist"
  proof (rule nth_equalityI)
    fix i assume "i < length (map (\<lambda>i. trace_buf st ! unat ((trace_next_sequence st - of_nat c + of_nat i) mod 256)) [0..<c])"
    then have i: "i < c" by simp
    have "trace_next_sequence st - of_nat c + of_nat i = (of_nat (?n - c + i) :: u32)"
      using cn(1) by (simp add: next' of_nat_diff)
    then have "unat ((trace_next_sequence st - of_nat c + of_nat i) mod 256) = (?n - c + i) mod 256"
      by (simp only: seq_position)
    moreover have "trace_buf st ! ((?n - c + i) mod 256) = hist ! (?n - c + i)"
      using i cn by (intro buf) auto
    ultimately show "map (\<lambda>i. trace_buf st ! unat ((trace_next_sequence st - of_nat c + of_nat i) mod 256)) [0..<c] ! i
        = drop (?n - c) hist ! i" using i by simp
  qed (use cn in simp)
  then show ?thesis
    by (simp add: aixos_trace_snapshot_def aixos_trace_get_info_def cc uc c_def[symmetric] Let_def)
qed

section \<open>Properties\<close>

definition trace_run :: "(u32 \<times> aixos_trace_event \<times> u32 \<times> u32) list \<Rightarrow> trace_state \<Rightarrow> trace_state" where
  "trace_run = fold (\<lambda>(tick, e, d0, d1). aixos_trace_record tick e d0 d1)"

definition trace_log :: "(u32 \<times> aixos_trace_event \<times> u32 \<times> u32) list \<Rightarrow> aixos_trace_entry_t list" where
  "trace_log evs = map (\<lambda>i. case evs ! i of (tick, e, d0, d1) \<Rightarrow>
     \<lparr>te_sequence = of_nat i, te_timestamp = tick, te_event = trace_code e, te_arg0 = d0, te_arg1 = d1\<rparr>)
     [0..<length evs]"

lemma trace_log_snoc: "trace_log (evs @ [(tick, e, d0, d1)]) = trace_log evs @
  [\<lparr>te_sequence = of_nat (length evs), te_timestamp = tick, te_event = trace_code e, te_arg0 = d0, te_arg1 = d1\<rparr>]"
  by (auto simp: trace_log_def nth_append)

lemma trace_run_abs: "trace_abs (trace_log evs) (trace_run evs aixos_trace_init)"
proof (induction evs rule: rev_induct)
  case Nil
  then show ?case by (simp add: trace_log_def trace_run_def trace_init_abs)
next
  case (snoc x evs)
  obtain tick e d0 d1 where x: "x = (tick, e, d0, d1)" by (cases x)
  have "length (trace_log evs) = length evs" by (simp add: trace_log_def)
  then show ?case using trace_record_abs[OF snoc, of tick e d0 d1]
    by (simp add: x trace_log_snoc trace_run_def)
qed

text \<open>C12. After any number of recorded events, wrap-arounds included, a snapshot returns the most
  recent \<open>min(capacity, 256)\<close> of them (or all, if fewer) in the order they were recorded, and the
  information structure says how many are available and how many were overwritten.\<close>

theorem trace_snapshot_latest:
  "aixos_trace_snapshot False capacity (trace_run evs aixos_trace_init) =
    (let c = min (unat capacity) (min (length evs) 256)
     in (of_nat c, Some (drop (length evs - c) (trace_log evs)),
         \<lparr>ti_available = of_nat (min (length evs) 256), ti_capacity = 256,
          ti_overwritten = of_nat (length evs - 256)\<rparr>))"
proof -
  have len: "length (trace_log evs) = length evs" by (simp add: trace_log_def)
  have "aixos_trace_get_info (trace_run evs aixos_trace_init) =
     \<lparr>ti_available = of_nat (min (length evs) 256), ti_capacity = 256, ti_overwritten = of_nat (length evs - 256)\<rparr>"
    using trace_run_abs[of evs]
    by (simp add: trace_abs_def len aixos_trace_get_info_def aixos_trace_snapshot_def Let_def)
  then show ?thesis using trace_snapshot_abs[OF trace_run_abs, of capacity evs] by (simp add: len)
qed

text \<open>While the sequence counter has not wrapped, \<open>aixos_trace_dump\<close> prints exactly the retained
  entries. Once \<open>trace_next_sequence - trace_count\<close> has wrapped below zero it prints nothing,
  although the ring is full.\<close>

lemma trace_dump_loop_prints:
  assumes abs: "trace_abs hist st" and n: "length hist < 2 ^ 32"
    and k: "k \<le> length hist" "length hist - 256 \<le> k"
  shows "trace_dump_loop st (of_nat k) (of_nat (length hist)) = map trace_dump_line (drop k hist)"
  using k
proof (induction "length hist - k" arbitrary: k)
  case 0
  then show ?case by (subst trace_dump_loop.simps) simp
next
  case (Suc d)
  then have lt: "k < length hist" by simp
  have u: "unat (of_nat k :: u32) = k" "unat (of_nat (length hist) :: u32) = length hist"
    using lt n by (auto intro!: u32_of_nat)
  have lt': "(of_nat k :: u32) < of_nat (length hist)" using lt by (simp only: word_less_nat_alt u)
  have e: "trace_buf st ! (k mod 256) = hist ! k" "te_sequence (hist ! k) = of_nat k"
    using abs lt Suc.prems by (auto simp: trace_abs_def)
  have "trace_dump_loop st (of_nat (Suc k)) (of_nat (length hist)) = map trace_dump_line (drop (Suc k) hist)"
    using Suc.hyps(1)[of "Suc k"] Suc.hyps(2) Suc.prems lt by simp
  then show ?case using lt' lt e
    by (subst trace_dump_loop.simps) (simp add: seq_position Let_def add.commute Cons_nth_drop_Suc[symmetric])
qed

lemma trace_dump_prints:
  assumes "trace_abs hist st" "length hist < 2 ^ 32"
  shows "aixos_trace_dump st = map trace_dump_line (drop (length hist - 256) hist)"
proof -
  have "trace_next_sequence st - trace_count st = of_nat (length hist - 256)"
    using assms(1) by (cases "length hist \<le> 256") (auto simp: trace_abs_def min_def of_nat_diff)
  moreover have "trace_next_sequence st = of_nat (length hist)" using assms(1) by (simp add: trace_abs_def)
  ultimately show ?thesis
    using trace_dump_loop_prints[OF assms, of "length hist - 256"] by (simp add: aixos_trace_dump_def)
qed

lemma trace_dump_wrapped:
  assumes "trace_abs hist st" "length hist = 2 ^ 32"
  shows "aixos_trace_dump st = [] \<and> trace_count st = 256"
  using assms by (auto simp: trace_abs_def aixos_trace_dump_def trace_dump_loop.simps min_def)

end
