(* ===== verification/Isr.thy ===== *)
theory Isr
  imports Aix_Prelude
begin

text \<open>
  \<^verbatim>\<open>kernel/isr.c\<close>: interrupt nesting, the scheduler lock and deferred rescheduling. Every
  operation runs with the atomicity the C code gets from the atomic builtins (or from the
  interrupt-masking helpers of the targets that lack them, \<open>atomic_*_u32\<close>). Where the C code
  calls \<open>aixos_arch_context_switch\<close> the operation returns \<open>True\<close>; the crash record of a nesting
  overflow is returned as its level and high watermark.
\<close>

section \<open>Atomic helpers\<close>

text \<open>Each takes the current value of the cell and returns its result and the new value.\<close>

definition atomic_load_u32 :: "u32 \<Rightarrow> u32" where
  "atomic_load_u32 value = value"

definition atomic_store_u32 :: "u32 \<Rightarrow> u32 \<Rightarrow> u32" where
  "atomic_store_u32 value desired = desired"

definition atomic_add_fetch_u32 :: "u32 \<Rightarrow> u32 \<Rightarrow> u32 \<times> u32" where
  "atomic_add_fetch_u32 value addend = (let result = value + addend in (result, result))"

definition atomic_sub_fetch_u32 :: "u32 \<Rightarrow> u32 \<Rightarrow> u32 \<times> u32" where
  "atomic_sub_fetch_u32 value subtrahend = (let result = value - subtrahend in (result, result))"

definition atomic_fetch_add_u32 :: "u32 \<Rightarrow> u32 \<Rightarrow> u32 \<times> u32" where
  "atomic_fetch_add_u32 value addend = (value, value + addend)"

definition atomic_exchange_u32 :: "u32 \<Rightarrow> u32 \<Rightarrow> u32 \<times> u32" where
  "atomic_exchange_u32 value desired = (value, desired)"

text \<open>Whether it matched, the new value of the cell, the new value of \<open>*expected\<close>.\<close>

definition atomic_compare_exchange_u32 :: "u32 \<Rightarrow> u32 \<Rightarrow> u32 \<Rightarrow> bool \<times> u32 \<times> u32" where
  "atomic_compare_exchange_u32 value expected desired =
     (if value = expected then (True, desired, expected) else (False, value, value))"

lemmas atomic_defs = atomic_load_u32_def atomic_store_u32_def atomic_add_fetch_u32_def
  atomic_sub_fetch_u32_def atomic_fetch_add_u32_def atomic_exchange_u32_def
  atomic_compare_exchange_u32_def

section \<open>State and operations\<close>

record isr_state =
  isr_nesting :: u32
  isr_high_watermark :: u32
  isr_overflows :: u32
  reschedule_pending :: u32
  sched_lock_nesting :: u32

definition isr_boot :: isr_state where
  "isr_boot = \<lparr>isr_nesting = 0, isr_high_watermark = 0, isr_overflows = 0, reschedule_pending = 0,
               sched_lock_nesting = 0\<rparr>"

abbreviation (input) AIXOS_CFG_ISR_NESTING_MAX :: u32 where "AIXOS_CFG_ISR_NESTING_MAX \<equiv> 8"

text \<open>The compare-and-exchange loop on the cell \<open>isr_nesting_high_watermark\<close>.\<close>

function watermark_loop :: "u32 \<Rightarrow> u32 \<Rightarrow> u32 \<Rightarrow> u32" where
  "watermark_loop level cell high =
     (if level > high
      then let (matched, cell', high') = atomic_compare_exchange_u32 cell high level
           in if matched then cell' else watermark_loop level cell' high'
      else cell)"
  by pat_completeness auto
termination
  by (relation "measure (\<lambda>(_, cell, high). if cell = high then 0 else 1)")
    (auto simp: atomic_compare_exchange_u32_def split: if_splits)

declare watermark_loop.simps [simp del]

definition isr_update_high_watermark :: "u32 \<Rightarrow> isr_state \<Rightarrow> isr_state" where
  "isr_update_high_watermark level st =
     st\<lparr>isr_high_watermark :=
          watermark_loop level (isr_high_watermark st) (atomic_load_u32 (isr_high_watermark st))\<rparr>"

definition isr_record_nesting_overflow :: "u32 \<Rightarrow> isr_state \<Rightarrow> (u32 \<times> u32) option \<times> isr_state" where
  "isr_record_nesting_overflow level st =
     (let (previous, overflows) = atomic_fetch_add_u32 (isr_overflows st) 1;
          st = st\<lparr>isr_overflows := overflows\<rparr>
      in (if previous = 0 then Some (level, atomic_load_u32 (isr_high_watermark st)) else None, st))"

definition aixos_isr_enter :: "isr_state \<Rightarrow> (u32 \<times> u32) option \<times> isr_state" where
  "aixos_isr_enter st =
     (let (level, nesting) = atomic_add_fetch_u32 (isr_nesting st) 1;
          st = isr_update_high_watermark level (st\<lparr>isr_nesting := nesting\<rparr>)
      in if level > AIXOS_CFG_ISR_NESTING_MAX then isr_record_nesting_overflow level st else (None, st))"

text \<open>The exit loop re-reads \<open>isr_nesting\<close> until the exchange succeeds; an interrupt in between
  leaves the level as it found it, so it succeeds at the first attempt.\<close>

definition aixos_isr_exit :: "isr_state \<Rightarrow> bool \<times> isr_state" where
  "aixos_isr_exit st =
     (let old_level = atomic_load_u32 (isr_nesting st)
      in if old_level = 0 then (False, st)
         else let new_level = old_level - 1;
                  (matched, nesting, _) = atomic_compare_exchange_u32 (isr_nesting st) old_level new_level;
                  st = st\<lparr>isr_nesting := nesting\<rparr>
              in if new_level = 0 \<and> atomic_load_u32 (sched_lock_nesting st) = 0
                 then let (pending, cell) = atomic_exchange_u32 (reschedule_pending st) 0
                      in (pending \<noteq> 0, st\<lparr>reschedule_pending := cell\<rparr>)
                 else (False, st))"

definition aixos_in_isr :: "isr_state \<Rightarrow> bool" where
  "aixos_in_isr st = (atomic_load_u32 (isr_nesting st) \<noteq> 0)"

definition aixos_reschedule_request :: "isr_state \<Rightarrow> bool \<times> isr_state" where
  "aixos_reschedule_request st =
     (if atomic_load_u32 (isr_nesting st) \<noteq> 0 \<or> atomic_load_u32 (sched_lock_nesting st) \<noteq> 0
      then (False, st\<lparr>reschedule_pending := atomic_store_u32 (reschedule_pending st) 1\<rparr>)
      else (True, st))"

definition aixos_sched_lock :: "isr_state \<Rightarrow> int \<times> isr_state" where
  "aixos_sched_lock st =
     (if aixos_in_isr st then (AIXOS_ERR_CONTEXT, st)
      else (AIXOS_OK, st\<lparr>sched_lock_nesting := snd (atomic_add_fetch_u32 (sched_lock_nesting st) 1)\<rparr>))"

definition aixos_sched_unlock :: "isr_state \<Rightarrow> int \<times> bool \<times> isr_state" where
  "aixos_sched_unlock st =
     (if aixos_in_isr st then (AIXOS_ERR_CONTEXT, False, st)
      else if atomic_load_u32 (sched_lock_nesting st) = 0 then (AIXOS_ERR_INVAL, False, st)
      else let (level, cell) = atomic_sub_fetch_u32 (sched_lock_nesting st) 1;
               st = st\<lparr>sched_lock_nesting := cell\<rparr>
           in if level = 0
              then let (pending, cell) = atomic_exchange_u32 (reschedule_pending st) 0
                   in (AIXOS_OK, pending \<noteq> 0, st\<lparr>reschedule_pending := cell\<rparr>)
              else (AIXOS_OK, False, st))"

definition aixos_sched_lock_count :: "isr_state \<Rightarrow> u32" where
  "aixos_sched_lock_count st = atomic_load_u32 (sched_lock_nesting st)"

definition aixos_sched_is_locked :: "isr_state \<Rightarrow> bool" where
  "aixos_sched_is_locked st = (atomic_load_u32 (sched_lock_nesting st) \<noteq> 0)"

definition aixos_isr_nesting_level :: "isr_state \<Rightarrow> u32" where
  "aixos_isr_nesting_level st = atomic_load_u32 (isr_nesting st)"

definition aixos_isr_nesting_high_watermark :: "isr_state \<Rightarrow> u32" where
  "aixos_isr_nesting_high_watermark st = atomic_load_u32 (isr_high_watermark st)"

definition aixos_isr_nesting_overflow_count :: "isr_state \<Rightarrow> u32" where
  "aixos_isr_nesting_overflow_count st = atomic_load_u32 (isr_overflows st)"

definition aixos_isr_stats_reset :: "isr_state \<Rightarrow> isr_state" where
  "aixos_isr_stats_reset st =
     (if atomic_load_u32 (isr_nesting st) = 0
      then st\<lparr>isr_high_watermark := atomic_store_u32 (isr_high_watermark st) 0,
              isr_overflows := atomic_store_u32 (isr_overflows st) 0\<rparr>
      else st)"

section \<open>Sequences of operations\<close>

datatype isr_op = IsrEnter | IsrExit | Request | Lock | Unlock

fun isr_step :: "isr_op \<Rightarrow> isr_state \<Rightarrow> bool \<times> isr_state" where
  "isr_step IsrEnter st = (False, snd (aixos_isr_enter st))"
| "isr_step IsrExit st = aixos_isr_exit st"
| "isr_step Request st = aixos_reschedule_request st"
| "isr_step Lock st = (False, snd (aixos_sched_lock st))"
| "isr_step Unlock st = snd (aixos_sched_unlock st)"

text \<open>A run keeps the ghost \<open>outstanding\<close>: a context switch has been requested and not yet
  started.\<close>

fun isr_run :: "isr_op list \<Rightarrow> bool \<times> isr_state \<Rightarrow> bool \<times> isr_state" where
  "isr_run [] s = s"
| "isr_run (op # ops) (out, st) =
     (let (fired, st') = isr_step op st in isr_run ops ((out \<or> op = Request) \<and> \<not> fired, st'))"

lemma watermark_loop_max: "watermark_loop level cell cell = (if level > cell then level else cell)"
  by (simp add: watermark_loop.simps atomic_compare_exchange_u32_def)

lemma isr_enter_eq: "snd (aixos_isr_enter st) = st\<lparr>isr_nesting := isr_nesting st + 1,
    isr_high_watermark := (if isr_nesting st + 1 > isr_high_watermark st then isr_nesting st + 1 else isr_high_watermark st),
    isr_overflows := (if isr_nesting st + 1 > 8 then isr_overflows st + 1 else isr_overflows st)\<rparr>"
  by (simp add: aixos_isr_enter_def isr_record_nesting_overflow_def isr_update_high_watermark_def
      atomic_defs watermark_loop_max Let_def)

text \<open>A deferred request is only ever kept while an interrupt is active or the scheduler is
  locked, and \<open>k\<close> operations nest at most \<open>k\<close> deep.\<close>

definition isr_inv :: "nat \<Rightarrow> bool \<times> isr_state \<Rightarrow> bool" where
  "isr_inv k s \<longleftrightarrow> unat (isr_nesting (snd s)) \<le> k \<and> unat (sched_lock_nesting (snd s)) \<le> k \<and>
     (fst s \<longleftrightarrow> reschedule_pending (snd s) \<noteq> 0) \<and>
     (fst s \<longrightarrow> isr_nesting (snd s) \<noteq> 0 \<or> sched_lock_nesting (snd s) \<noteq> 0)"

lemma unat_inc: "unat (w :: u32) \<le> k \<Longrightarrow> k < 2 ^ 32 - 1 \<Longrightarrow> unat (w + 1) = Suc (unat w) \<and> w + 1 \<noteq> 0"
proof -
  assume "unat w \<le> k" "k < 2 ^ 32 - 1"
  then have "unat (w + 1) = Suc (unat w)" by (simp add: unat_word_ariths)
  then show ?thesis by (metis nat.simps(3) unat_0)
qed

lemma isr_step_inv:
  assumes inv: "isr_inv k (out, st)" and k: "k < 2 ^ 32 - 1" and st: "isr_step op st = (fired, st')"
  shows "isr_inv (Suc k) ((out \<or> op = Request) \<and> \<not> fired, st') \<and>
    (fired \<longrightarrow> (out \<or> op = Request) \<and> isr_nesting st' = 0 \<and> sched_lock_nesting st' = 0)"
proof -
  have b: "unat (isr_nesting st) \<le> k" "unat (sched_lock_nesting st) \<le> k"
    and p: "out \<longleftrightarrow> reschedule_pending st \<noteq> 0"
    and q: "out \<longrightarrow> isr_nesting st \<noteq> 0 \<or> sched_lock_nesting st \<noteq> 0"
    using inv by (auto simp: isr_inv_def)
  note inc = unat_inc[OF b(1) k] unat_inc[OF b(2) k]
  have dec: "unat (isr_nesting st - 1) \<le> Suc k" if "isr_nesting st \<noteq> 0"
    using b(1) unat_minus_one[OF that] by linarith
  have decl: "unat (sched_lock_nesting st - 1) \<le> Suc k" if "sched_lock_nesting st \<noteq> 0"
    using b(2) unat_minus_one[OF that] by linarith
  show ?thesis
  proof (cases op)
    case IsrEnter
    then show ?thesis using st b p q inc by (auto simp: isr_enter_eq isr_inv_def)
  next
    case IsrExit
    then show ?thesis using st b p q dec
      by (auto simp: aixos_isr_exit_def atomic_defs isr_inv_def Let_def split: if_splits)
  next
    case Request
    then show ?thesis using st b p q
      by (auto simp: aixos_reschedule_request_def atomic_defs isr_inv_def split: if_splits)
  next
    case Lock
    then show ?thesis using st b p q inc
      by (auto simp: aixos_sched_lock_def aixos_in_isr_def atomic_defs isr_inv_def Let_def split: if_splits)
  next
    case Unlock
    then show ?thesis using st b p q decl
      by (auto simp: aixos_sched_unlock_def aixos_in_isr_def atomic_defs isr_inv_def Let_def split: if_splits)
  qed
qed

lemma isr_run_inv:
  "isr_inv k s \<Longrightarrow> k + length ops < 2 ^ 32 \<Longrightarrow> isr_inv (k + length ops) (isr_run ops s)"
proof (induction ops arbitrary: k s)
  case (Cons op ops)
  obtain out st where s: "s = (out, st)" by (cases s)
  obtain fired st' where st: "isr_step op st = (fired, st')" by (cases "isr_step op st")
  have k: "k < 2 ^ 32 - 1" using Cons.prems(2) by simp
  have "isr_inv (Suc k) ((out \<or> op = Request) \<and> \<not> fired, st')"
    using isr_step_inv[OF Cons.prems(1)[unfolded s] k st] by simp
  from Cons.IH[OF this] Cons.prems(2) show ?case by (simp add: s st)
qed simp

text \<open>C11. No reschedule request is lost and none is served early: in every run of interrupt
  entries and exits, scheduler locks and unlocks and requests, the request flag is set exactly
  while a request is outstanding; whenever no interrupt is active and the scheduler is unlocked,
  nothing is outstanding; and a context switch starts only for an outstanding request, with no
  interrupt active and the scheduler unlocked.\<close>

theorem reschedule_deferred:
  assumes "length ops < 2 ^ 32 - 1" "isr_run ops (False, isr_boot) = (outstanding, st)"
    and "isr_step op st = (fired, st')"
  shows "(outstanding \<longleftrightarrow> reschedule_pending st \<noteq> 0) \<and>
    (isr_nesting st = 0 \<and> sched_lock_nesting st = 0 \<longrightarrow> \<not> outstanding) \<and>
    (fired \<longrightarrow> (outstanding \<or> op = Request) \<and> isr_nesting st' = 0 \<and> sched_lock_nesting st' = 0)"
proof -
  have "isr_inv 0 (False, isr_boot)" by (simp add: isr_inv_def isr_boot_def)
  then have inv: "isr_inv (length ops) (outstanding, st)"
    using isr_run_inv[of 0 "(False, isr_boot)" ops] assms(1,2) by simp
  then show ?thesis using isr_step_inv[OF inv assms(1,3)] by (auto simp: isr_inv_def)
qed

lemma reschedule_deferred_witness:
  "reschedule_pending (snd (isr_run [IsrEnter, Request, IsrEnter, IsrExit] (False, isr_boot))) = 1 \<and>
   fst (isr_step IsrExit (snd (isr_run [IsrEnter, Request, IsrEnter, IsrExit] (False, isr_boot))))"
proof -
  let ?ops = "[IsrEnter, Request, IsrEnter, IsrExit]"
  have a: "isr_run ?ops (False, isr_boot) = (True, snd (isr_run ?ops (False, isr_boot)))" by code_simp
  have b: "isr_step IsrExit (snd (isr_run ?ops (False, isr_boot))) =
    (True, snd (isr_step IsrExit (snd (isr_run ?ops (False, isr_boot)))))" by code_simp
  have p: "reschedule_pending (snd (isr_run ?ops (False, isr_boot))) = 1" by code_simp
  have "length ?ops < 2 ^ 32 - 1" by simp
  from reschedule_deferred[OF this a b] have "reschedule_pending (snd (isr_run ?ops (False, isr_boot))) \<noteq> 0"
    by blast
  moreover have "fst (isr_step IsrExit (snd (isr_run ?ops (False, isr_boot))))" by (subst b) (rule fst_conv[THEN iffD2], rule TrueI)
  ultimately show ?thesis using p by blast
qed

end
