(* ===== verification/Crash.thy ===== *)
theory Crash
  imports Aix_Prelude
begin

text \<open>
  \<^verbatim>\<open>kernel/crash.c\<close>: the crash record that survives a reset in uninitialised RAM, protected by a
  magic number and a CRC-32 over its bytes. The byte order is little-endian. The current task
  and the tick count are arguments; the fault registers, the delay loops and the reset are
  hardware and are not modelled.
\<close>

section \<open>State and operations\<close>

record aixos_crash_record_t =
  cr_magic :: u32
  cr_version :: u16
  cr_size :: u16
  cr_sequence :: u32
  cr_build_id :: u32
  cr_architecture :: u32
  cr_reason :: u32
  cr_program_counter :: u32
  cr_fault_address :: u32
  cr_stack_pointer :: u32
  cr_task_handle :: u32
  cr_tick :: u32
  cr_fault_status :: u32
  cr_fault_status2 :: u32
  cr_auxiliary :: u32
  cr_crc32 :: u32

abbreviation (input) AIXOS_CFG_CRASH_MAGIC :: u32 where "AIXOS_CFG_CRASH_MAGIC \<equiv> 0x42434F53"
abbreviation (input) sizeof_crash_record :: u16 where "sizeof_crash_record \<equiv> 60"

definition bytes16 :: "u16 \<Rightarrow> u8 list" where
  "bytes16 w = [ucast w, ucast (drop_bit 8 w)]"

definition bytes32 :: "u32 \<Rightarrow> u8 list" where
  "bytes32 w = [ucast w, ucast (drop_bit 8 w), ucast (drop_bit 16 w), ucast (drop_bit 24 w)]"

text \<open>The bytes of a record from \<open>offsetof(version)\<close> up to \<open>offsetof(crc32)\<close>.\<close>

definition crash_bytes :: "aixos_crash_record_t \<Rightarrow> u8 list" where
  "crash_bytes r = bytes16 (cr_version r) @ bytes16 (cr_size r) @ bytes32 (cr_sequence r) @
     bytes32 (cr_build_id r) @ bytes32 (cr_architecture r) @ bytes32 (cr_reason r) @
     bytes32 (cr_program_counter r) @ bytes32 (cr_fault_address r) @ bytes32 (cr_stack_pointer r) @
     bytes32 (cr_task_handle r) @ bytes32 (cr_tick r) @ bytes32 (cr_fault_status r) @
     bytes32 (cr_fault_status2 r) @ bytes32 (cr_auxiliary r)"

text \<open>\<open>(crc >> 1U) ^ (0xEDB88320 & (uint32_t)-(int32_t)(crc & 1U))\<close>\<close>

definition crc_bit :: "u32 \<Rightarrow> u32" where
  "crc_bit crc = drop_bit 1 crc XOR (0xEDB88320 AND (- (crc AND 1)))"

definition crc_byte :: "u32 \<Rightarrow> u8 \<Rightarrow> u32" where
  "crc_byte crc b = (crc_bit ^^ 8) (crc XOR ucast b)"

definition crc_of_bytes :: "u8 list \<Rightarrow> u32" where
  "crc_of_bytes bytes = NOT (foldl crc_byte UINT32_MAX bytes)"

definition crash_crc32 :: "aixos_crash_record_t \<Rightarrow> u32" where
  "crash_crc32 r = crc_of_bytes (crash_bytes r)"

text \<open>Constants of \<^verbatim>\<open>include/aixos/version.h\<close> and \<^verbatim>\<open>include/aixos/crash.h\<close>.\<close>

abbreviation (input) AIXOS_CRASH_RECORD_VERSION :: u16 where "AIXOS_CRASH_RECORD_VERSION \<equiv> 5"
abbreviation (input) AIXOS_BUILD_ID :: u32 where "AIXOS_BUILD_ID \<equiv> 0"
abbreviation (input) AIXOS_CRASH_REASON_ISR_NESTING_OVERFLOW :: u32 where
  "AIXOS_CRASH_REASON_ISR_NESTING_OVERFLOW \<equiv> 0x4953524F"

definition aixos_crash_record_validate :: "aixos_crash_record_t option \<Rightarrow> int" where
  "aixos_crash_record_validate record =
     (case record of None \<Rightarrow> AIXOS_ERR_CORRUPT
      | Some r \<Rightarrow>
          if cr_magic r \<noteq> AIXOS_CFG_CRASH_MAGIC \<or> cr_version r \<noteq> AIXOS_CRASH_RECORD_VERSION \<or>
             cr_size r \<noteq> sizeof_crash_record
          then AIXOS_ERR_CORRUPT
          else if cr_crc32 r = crash_crc32 r then AIXOS_OK else AIXOS_ERR_CORRUPT)"

definition aixos_crash_record_get :: "aixos_crash_record_t \<Rightarrow> aixos_crash_record_t option" where
  "aixos_crash_record_get crash_record =
     (if aixos_crash_record_validate (Some crash_record) = AIXOS_OK then Some crash_record else None)"

text \<open>\<open>task\<close> is the handle of the current task, if there is one. The three writes to the
  persistent record are \<open>crash_record_writes\<close>, oldest first.\<close>

definition crash_record_next ::
  "u32 option \<Rightarrow> u32 \<Rightarrow> u32 \<Rightarrow> u32 \<Rightarrow> u32 \<Rightarrow> u32 \<Rightarrow> u32 \<Rightarrow> u32 \<Rightarrow> u32 \<Rightarrow> u32 \<Rightarrow>
   aixos_crash_record_t \<Rightarrow> aixos_crash_record_t" where
  "crash_record_next task tick architecture reason program_counter fault_address stack_pointer
     fault_status fault_status2 auxiliary crash_record =
     (let next = \<lparr>cr_magic = 0, cr_version = AIXOS_CRASH_RECORD_VERSION, cr_size = sizeof_crash_record,
            cr_sequence = (case aixos_crash_record_get crash_record of
                             Some previous \<Rightarrow> cr_sequence previous + 1 | None \<Rightarrow> 1),
            cr_build_id = AIXOS_BUILD_ID, cr_architecture = architecture, cr_reason = reason,
            cr_program_counter = program_counter, cr_fault_address = fault_address,
            cr_stack_pointer = stack_pointer,
            cr_task_handle = (case task of Some h \<Rightarrow> h | None \<Rightarrow> UINT32_MAX), cr_tick = tick,
            cr_fault_status = fault_status, cr_fault_status2 = fault_status2,
            cr_auxiliary = auxiliary, cr_crc32 = 0\<rparr>
      in next\<lparr>cr_crc32 := crash_crc32 next\<rparr>)"

definition crash_record_writes :: "aixos_crash_record_t \<Rightarrow> aixos_crash_record_t \<Rightarrow> aixos_crash_record_t list" where
  "crash_record_writes next crash_record =
     [crash_record\<lparr>cr_magic := 0\<rparr>, next, next\<lparr>cr_magic := AIXOS_CFG_CRASH_MAGIC\<rparr>]"

definition aixos_crash_record_store_extended ::
  "u32 option \<Rightarrow> u32 \<Rightarrow> u32 \<Rightarrow> u32 \<Rightarrow> u32 \<Rightarrow> u32 \<Rightarrow> u32 \<Rightarrow> u32 \<Rightarrow> u32 \<Rightarrow> u32 \<Rightarrow>
   aixos_crash_record_t \<Rightarrow> aixos_crash_record_t" where
  "aixos_crash_record_store_extended task tick architecture reason program_counter fault_address
     stack_pointer fault_status fault_status2 auxiliary crash_record =
     last (crash_record_writes (crash_record_next task tick architecture reason program_counter
       fault_address stack_pointer fault_status fault_status2 auxiliary crash_record) crash_record)"

definition aixos_crash_record_store ::
  "u32 option \<Rightarrow> u32 \<Rightarrow> u32 \<Rightarrow> u32 \<Rightarrow> u32 \<Rightarrow> u32 \<Rightarrow> u32 \<Rightarrow> aixos_crash_record_t \<Rightarrow> aixos_crash_record_t" where
  "aixos_crash_record_store task tick architecture reason program_counter fault_address stack_pointer =
     aixos_crash_record_store_extended task tick architecture reason program_counter fault_address
       stack_pointer 0 0 0"

definition aixos_crash_record_clear :: "aixos_crash_record_t \<Rightarrow> aixos_crash_record_t" where
  "aixos_crash_record_clear crash_record = crash_record\<lparr>cr_magic := 0\<rparr>"

text \<open>The record \<open>aixos_arm_fault_handler\<close> stores: \<open>frame\<close> is the address of the exception
  frame with its contents, the fault registers are arguments.\<close>

definition arm_fault_record ::
  "u32 option \<Rightarrow> u32 \<Rightarrow> (u32 \<times> u32 list) option \<Rightarrow> u32 \<Rightarrow> u32 \<Rightarrow> u32 \<Rightarrow> u32 \<Rightarrow> u32 \<Rightarrow>
   aixos_crash_record_t \<Rightarrow> aixos_crash_record_t" where
  "arm_fault_record task tick frame reason fault_address cfsr hfsr mmfar =
     aixos_crash_record_store_extended task tick 1 reason
       (case frame of Some (_, words) \<Rightarrow> words ! 6 | None \<Rightarrow> 0) fault_address
       (case frame of Some (address, _) \<Rightarrow> address | None \<Rightarrow> 0) cfsr hfsr mmfar"

text \<open>The record \<open>aixos_panic\<close> stores.\<close>

definition panic_record :: "u32 option \<Rightarrow> u32 \<Rightarrow> u32 \<Rightarrow> aixos_crash_record_t \<Rightarrow> aixos_crash_record_t" where
  "panic_record task tick reason = aixos_crash_record_store task tick 0 reason 0 0 0"

section \<open>The checksum is injective step by step\<close>

lemma neg_low_bit: "- (w AND 1 :: u32) = (if bit w 0 then - 1 else 0)"
  by (simp add: and_one_eq mod_2_eq_odd bit_0)

lemma crc_bit_alt: "crc_bit w = (if bit w 0 then drop_bit 1 w XOR 0xEDB88320 else drop_bit 1 w)"
  by (simp add: crc_bit_def neg_low_bit)

lemma poly_top: "bit (0xEDB88320 :: u32) 31"
  by code_simp

lemma crc_bit_top: "bit (crc_bit w) 31 \<longleftrightarrow> bit w 0"
proof -
  have "\<not> bit (drop_bit 1 w) 31" using bit_imp_le_length[of w 32] by (auto simp: bit_drop_bit_eq)
  then show ?thesis using poly_top by (simp only: crc_bit_alt bit_xor_iff split: if_split) blast
qed

lemma crc_bit_inj: "crc_bit a = crc_bit b \<Longrightarrow> a = b"
proof -
  assume e: "crc_bit a = crc_bit b"
  then have low: "bit a 0 = bit b 0" using crc_bit_top[of a] crc_bit_top[of b] by metis
  have "drop_bit 1 a = drop_bit 1 b"
  proof (cases "bit a 0")
    case True
    then have "drop_bit 1 a XOR 0xEDB88320 = drop_bit 1 b XOR (0xEDB88320 :: u32)"
      using e low by (simp only: crc_bit_alt if_True)
    then have "(drop_bit 1 a XOR 0xEDB88320) XOR 0xEDB88320 = (drop_bit 1 b XOR 0xEDB88320) XOR (0xEDB88320 :: u32)"
      by (rule arg_cong)
    then show ?thesis by (simp only: xor.assoc xor_self_eq xor.right_neutral)
  next
    case False
    then show ?thesis using e low by (simp only: crc_bit_alt if_False)
  qed
  show "a = b"
  proof (rule bit_word_eqI)
    fix n
    show "bit a n = bit b n"
    proof (cases n)
      case (Suc m)
      then show ?thesis using \<open>drop_bit 1 a = drop_bit 1 b\<close> by (metis bit_drop_bit_eq comp_apply plus_1_eq_Suc)
    qed (use low in simp)
  qed
qed

lemma crc_bits_inj: "(crc_bit ^^ n) a = (crc_bit ^^ n) b \<Longrightarrow> a = b"
  by (induction n) (auto dest: crc_bit_inj)

lemma ucast8_inj: "(ucast (x :: u8) :: u32) = ucast y \<Longrightarrow> x = y"
proof -
  assume e: "(ucast x :: u32) = ucast y"
  show "x = y"
  proof (rule bit_word_eqI)
    fix n assume "n < LENGTH(8)"
    then have "bit (ucast z :: u32) n = bit z n" for z :: u8 by (simp add: bit_ucast_iff)
    then show "bit x n = bit y n" using e by metis
  qed
qed

lemma xor_left_cancel: "(c :: u32) XOR x = c XOR y \<Longrightarrow> x = y"
proof -
  assume "c XOR x = c XOR y"
  then have "c XOR (c XOR x) = c XOR (c XOR y)" by (rule arg_cong)
  then show ?thesis by (simp only: xor.assoc[symmetric] xor_self_eq xor.left_neutral)
qed

lemma crc_byte_inj: "crc_byte a x = crc_byte b x \<Longrightarrow> a = b" "crc_byte c x = crc_byte c y \<Longrightarrow> x = y"
proof -
  assume "crc_byte a x = crc_byte b x"
  then have "a XOR ucast x = b XOR ucast x" unfolding crc_byte_def by (rule crc_bits_inj)
  then have "ucast x XOR a = ucast x XOR b" by (simp only: xor.commute)
  then show "a = b" by (rule xor_left_cancel)
next
  assume "crc_byte c x = crc_byte c y"
  then have "c XOR ucast x = c XOR ucast y" unfolding crc_byte_def by (rule crc_bits_inj)
  then show "x = y" using xor_left_cancel ucast8_inj by blast
qed

lemma crc_fold_inj: "foldl crc_byte a xs = foldl crc_byte b xs \<Longrightarrow> a = b"
  by (induction xs arbitrary: a b) (auto dest: crc_byte_inj)

lemma crc_single_byte:
  assumes "i < length bytes" "x \<noteq> bytes ! i"
  shows "crc_of_bytes (bytes[i := x]) \<noteq> crc_of_bytes bytes"
proof
  assume "crc_of_bytes (bytes[i := x]) = crc_of_bytes bytes"
  then have "foldl crc_byte UINT32_MAX (bytes[i := x]) = foldl crc_byte UINT32_MAX bytes"
    unfolding crc_of_bytes_def by (metis bit.double_compl)
  moreover have "bytes[i := x] = take i bytes @ x # drop (Suc i) bytes"
    using assms(1) by (simp add: upd_conv_take_nth_drop)
  moreover have "bytes = take i bytes @ bytes ! i # drop (Suc i) bytes" using assms(1) by (simp add: id_take_nth_drop)
  ultimately have "foldl crc_byte UINT32_MAX (take i bytes @ x # drop (Suc i) bytes) =
      foldl crc_byte UINT32_MAX (take i bytes @ bytes ! i # drop (Suc i) bytes)" by metis
  then have "crc_byte (foldl crc_byte UINT32_MAX (take i bytes)) x =
      crc_byte (foldl crc_byte UINT32_MAX (take i bytes)) (bytes ! i)"
    by (simp only: foldl_append foldl_Cons) (rule crc_fold_inj)
  then show False using assms(2) crc_byte_inj(2) by blast
qed

section \<open>Properties\<close>

lemma crash_crc32_magic [simp]: "crash_crc32 (r\<lparr>cr_magic := m\<rparr>) = crash_crc32 r"
  "crash_crc32 (r\<lparr>cr_crc32 := c\<rparr>) = crash_crc32 r"
  by (simp_all add: crash_crc32_def crash_bytes_def)

lemma crash_get_iff: "aixos_crash_record_get r = Some r' \<longleftrightarrow> r' = r \<and> cr_magic r = AIXOS_CFG_CRASH_MAGIC \<and>
    cr_version r = AIXOS_CRASH_RECORD_VERSION \<and> cr_size r = sizeof_crash_record \<and> cr_crc32 r = crash_crc32 r"
  by (auto simp: aixos_crash_record_get_def aixos_crash_record_validate_def)

lemma crash_next_fields:
  "cr_version (crash_record_next task tick architecture reason pc fa sp fs fs2 aux old) = 5"
  "cr_size (crash_record_next task tick architecture reason pc fa sp fs fs2 aux old) = 60"
  "cr_crc32 (crash_record_next task tick architecture reason pc fa sp fs fs2 aux old) =
     crash_crc32 (crash_record_next task tick architecture reason pc fa sp fs fs2 aux old)"
  "cr_magic (crash_record_next task tick architecture reason pc fa sp fs fs2 aux old) = 0"
  by (simp_all add: crash_record_next_def Let_def crash_crc32_def crash_bytes_def)

lemma crash_store_valid: "aixos_crash_record_validate
    (Some (aixos_crash_record_store_extended task tick architecture reason pc fa sp fs fs2 aux old)) = AIXOS_OK"
  by (simp add: aixos_crash_record_store_extended_def crash_record_writes_def
      aixos_crash_record_validate_def crash_next_fields)


text \<open>C17. Corruption is noticed: if exactly one byte of the protected part of a valid record
  changes, or its checksum, magic number or version field does, validation fails.\<close>

theorem crash_corruption_detected:
  assumes "aixos_crash_record_validate (Some r) = AIXOS_OK"
    and "(\<exists>i b. i < length (crash_bytes r) \<and> b \<noteq> crash_bytes r ! i \<and> crash_bytes r' = (crash_bytes r)[i := b] \<and>
            cr_crc32 r' = cr_crc32 r) \<or>
         (crash_bytes r' = crash_bytes r \<and> cr_crc32 r' \<noteq> cr_crc32 r) \<or>
         cr_magic r' \<noteq> cr_magic r \<or> cr_version r' \<noteq> cr_version r"
  shows "aixos_crash_record_validate (Some r') = AIXOS_ERR_CORRUPT"
proof -
  have v: "cr_magic r = AIXOS_CFG_CRASH_MAGIC" "cr_version r = AIXOS_CRASH_RECORD_VERSION" "cr_crc32 r = crash_crc32 r"
    using assms(1) by (simp_all add: aixos_crash_record_validate_def split: if_splits)
  from assms(2) have "cr_magic r' \<noteq> cr_magic r \<or> cr_version r' \<noteq> cr_version r \<or> cr_crc32 r' \<noteq> crash_crc32 r'"
  proof (elim disjE exE conjE)
    fix i b assume "i < length (crash_bytes r)" "b \<noteq> crash_bytes r ! i"
      and e: "crash_bytes r' = (crash_bytes r)[i := b]" "cr_crc32 r' = cr_crc32 r"
    then have "crash_crc32 r' \<noteq> crash_crc32 r" unfolding crash_crc32_def e(1) by (intro crc_single_byte)
    then show ?thesis using e(2) v(3) by simp
  next
    assume "crash_bytes r' = crash_bytes r" "cr_crc32 r' \<noteq> cr_crc32 r"
    then show ?thesis using v(3) by (simp add: crash_crc32_def)
  qed simp_all
  then show ?thesis using v by (auto simp: aixos_crash_record_validate_def)
qed

definition zero_crash_record :: aixos_crash_record_t where
  "zero_crash_record = \<lparr>cr_magic = 0, cr_version = 0, cr_size = 0, cr_sequence = 0, cr_build_id = 0,
     cr_architecture = 0, cr_reason = 0, cr_program_counter = 0, cr_fault_address = 0,
     cr_stack_pointer = 0, cr_task_handle = 0, cr_tick = 0, cr_fault_status = 0,
     cr_fault_status2 = 0, cr_auxiliary = 0, cr_crc32 = 0\<rparr>"

lemma crash_corruption_detected_witness:
  "aixos_crash_record_validate (Some ((panic_record None 5 7 zero_crash_record)\<lparr>cr_reason := 6\<rparr>)) = AIXOS_ERR_CORRUPT"
proof -
  let ?r = "panic_record None 5 7 zero_crash_record"
  have v: "aixos_crash_record_validate (Some ?r) = AIXOS_OK"
    unfolding panic_record_def aixos_crash_record_store_def by (rule crash_store_valid)
  have "crash_bytes (?r\<lparr>cr_reason := 6\<rparr>) = (crash_bytes ?r)[16 := 6]" "crash_bytes ?r ! 16 = 7"
    "length (crash_bytes ?r) = 52"
    by (simp_all add: crash_bytes_def bytes16_def bytes32_def panic_record_def aixos_crash_record_store_def
        aixos_crash_record_store_extended_def crash_record_writes_def crash_record_next_def Let_def)
  then show ?thesis 
    by (intro crash_corruption_detected[OF v] disjI1 exI[of _ "16 :: nat"] exI[of _ "6 :: u8"]) simp
qed

end
