(* ===== verification/Kheap.thy ===== *)
theory Kheap
  imports Allocator
begin

text \<open>
  \<^verbatim>\<open>kernel/heap.c\<close>: the best-fit heap with guarded headers and a canary behind every
  allocation. Headers are typed cells \<open>hdrs\<close> at their 32-bit address, the payload and the
  canaries are the byte memory \<open>hmem\<close>. Writing payload bytes over a stale header removes it
  (\<open>clobber\<close>): an address whose bytes are not a header the heap wrote is read as one with a
  bad magic number. \<open>sizeof(heap_hdr_t)\<close> is 24 on the 32-bit target.

  The loops over \<open>next\<close> pointers are partial functions: their result is \<open>None\<close> when the chain
  is cyclic and the C loop would not return. \<open>heap_rep\<close> is the invariant that excludes this.
  The trace entries of allocation and release are added by the kernel-level operations.
\<close>

section \<open>State\<close>

record heap_hdr =
  hh_magic :: u16
  hh_reserved :: u16
  hh_size :: u32
  hh_requested_size :: u32
  hh_header_guard :: u32
  hh_next :: u32
  hh_prev :: u32

record heap_state =
  heap_first :: u32
  heap_begin :: u32
  heap_end :: u32
  heap_total :: u32
  heap_initialized :: bool
  heap_alloc_count :: u32
  heap_free_count :: u32
  heap_alloc_failures :: u32
  heap_corruption_count :: u32
  heap_current_used :: u32
  heap_peak_used :: u32
  heap_runtime_locked :: bool
  hdrs :: "u32 \<Rightarrow> heap_hdr option"
  hmem :: "u32 \<Rightarrow> u8"

abbreviation (input) HEAP_MAGIC_FREE :: u16 where "HEAP_MAGIC_FREE \<equiv> 0xF1EE"
abbreviation (input) HEAP_MAGIC_USED :: u16 where "HEAP_MAGIC_USED \<equiv> 0x1ADD"
abbreviation (input) HEAP_CANARY :: u32 where "HEAP_CANARY \<equiv> 0xBEEFC0DE"
abbreviation (input) HEAP_CANARY_SIZE :: u32 where "HEAP_CANARY_SIZE \<equiv> 4"
abbreviation (input) HEAP_HEADER_SIZE :: u32 where "HEAP_HEADER_SIZE \<equiv> 24"
abbreviation (input) HEAP_ALIGN :: u32 where "HEAP_ALIGN \<equiv> 8"

text \<open>A header that reads as neither free nor used.\<close>

definition no_hdr :: heap_hdr where
  "no_hdr = \<lparr>hh_magic = 0, hh_reserved = 0, hh_size = 0, hh_requested_size = 0,
             hh_header_guard = 0, hh_next = 0, hh_prev = 0\<rparr>"

definition hdr_at :: "heap_state \<Rightarrow> u32 \<Rightarrow> heap_hdr" where
  "hdr_at st a = (case hdrs st a of Some h \<Rightarrow> h | None \<Rightarrow> no_hdr)"

text \<open>The bytes \<open>[lo, lo + n)\<close> are overwritten.\<close>

definition clobber :: "nat \<Rightarrow> nat \<Rightarrow> (u32 \<Rightarrow> heap_hdr option) \<Rightarrow> (u32 \<Rightarrow> heap_hdr option)" where
  "clobber lo n H = (\<lambda>a. if lo < unat a + 24 \<and> unat a < lo + n then None else H a)"

definition write_hdr :: "u32 \<Rightarrow> heap_hdr \<Rightarrow> heap_state \<Rightarrow> heap_state" where
  "write_hdr a h st = st\<lparr>hdrs := (clobber (unat a) 24 (hdrs st))(a \<mapsto> h)\<rparr>"

definition upd_hdr :: "u32 \<Rightarrow> (heap_hdr \<Rightarrow> heap_hdr) \<Rightarrow> heap_state \<Rightarrow> heap_state" where
  "upd_hdr a f st = st\<lparr>hdrs := (hdrs st)(a \<mapsto> f (hdr_at st a))\<rparr>"

definition write_bytes :: "u32 \<Rightarrow> u8 list \<Rightarrow> heap_state \<Rightarrow> heap_state" where
  "write_bytes a bs st =
     st\<lparr>hmem := (\<lambda>x. if unat a \<le> unat x \<and> unat x < unat a + length bs
                      then bs ! (unat x - unat a) else hmem st x),
        hdrs := clobber (unat a) (length bs) (hdrs st)\<rparr>"

definition read_u32 :: "u32 \<Rightarrow> heap_state \<Rightarrow> u32" where
  "read_u32 a st = ucast (hmem st a) OR push_bit 8 (ucast (hmem st (a + 1))) OR
     push_bit 16 (ucast (hmem st (a + 2))) OR push_bit 24 (ucast (hmem st (a + 3)))"

definition u32_bytes :: "u32 \<Rightarrow> u8 list" where
  "u32_bytes w = [ucast w, ucast (drop_bit 8 w), ucast (drop_bit 16 w), ucast (drop_bit 24 w)]"

section \<open>Header checks\<close>

definition heap_header_guard :: "u32 \<Rightarrow> heap_hdr \<Rightarrow> u32" where
  "heap_header_guard hdr h = hdr XOR hh_size h XOR hh_requested_size h XOR AIXOS_CFG_HEAP_MAGIC"

definition heap_header_valid :: "heap_state \<Rightarrow> u32 \<Rightarrow> bool" where
  "heap_header_valid st address =
     (let h = hdr_at st address
      in \<not> (address < heap_begin st \<or> address + HEAP_HEADER_SIZE > heap_end st \<or>
            (hh_magic h \<noteq> HEAP_MAGIC_FREE \<and> hh_magic h \<noteq> HEAP_MAGIC_USED) \<or>
            hh_size h > heap_end st - address - HEAP_HEADER_SIZE \<or>
            hh_header_guard h \<noteq> heap_header_guard address h) \<and>
         \<not> (hh_magic h = HEAP_MAGIC_USED \<and>
            (hh_requested_size h > hh_size h \<or>
             hh_requested_size h + HEAP_CANARY_SIZE > hh_size h)))"

definition heap_write_canary :: "u32 \<Rightarrow> heap_state \<Rightarrow> heap_state" where
  "heap_write_canary hdr st =
     write_bytes (hdr + HEAP_HEADER_SIZE + hh_requested_size (hdr_at st hdr))
       (u32_bytes (HEAP_CANARY XOR hdr)) st"

definition heap_canary_valid :: "heap_state \<Rightarrow> u32 \<Rightarrow> bool" where
  "heap_canary_valid st hdr =
     (read_u32 (hdr + HEAP_HEADER_SIZE + hh_requested_size (hdr_at st hdr)) st = HEAP_CANARY XOR hdr)"

section \<open>Initialisation\<close>

text \<open>\<open>heap_pool\<close> is the address of the built-in pool.\<close>

definition aixos_heap_init :: "u32 \<Rightarrow> u32 \<Rightarrow> u32 \<Rightarrow> heap_state \<Rightarrow> heap_state" where
  "aixos_heap_init heap_pool start sz st =
     (let (first, sz) = (if start \<noteq> 0 \<and> sz \<ge> HEAP_HEADER_SIZE + HEAP_ALIGN
                         then (start, sz AND NOT (HEAP_ALIGN - 1))
                         else (heap_pool, AIXOS_CFG_HEAP_SIZE));
          h = \<lparr>hh_magic = HEAP_MAGIC_FREE, hh_reserved = 0, hh_size = sz - HEAP_HEADER_SIZE,
               hh_requested_size = 0, hh_header_guard = 0, hh_next = 0, hh_prev = 0\<rparr>;
          begin = (if start = 0 \<or> sz = AIXOS_CFG_HEAP_SIZE then first else start);
          st = write_hdr first h st;
          st = st\<lparr>heap_first := first, heap_begin := begin, heap_end := begin + sz, heap_total := sz,
                  heap_initialized := True, heap_alloc_count := 0, heap_free_count := 0,
                  heap_alloc_failures := 0, heap_corruption_count := 0, heap_current_used := 0,
                  heap_peak_used := 0, heap_runtime_locked := False\<rparr>
      in upd_hdr first (\<lambda>h. h\<lparr>hh_header_guard := heap_header_guard first h\<rparr>) st)"

section \<open>Allocation\<close>

text \<open>The best-fit search: \<open>None\<close> inside when a header is invalid, otherwise the best free
  block and what would remain of it (\<open>0\<close> if there is none).\<close>

partial_function (option) heap_search ::
  "heap_state \<Rightarrow> u32 \<Rightarrow> u32 \<Rightarrow> u32 \<Rightarrow> u32 \<Rightarrow> (u32 \<times> u32) option option" where
  "heap_search st sz hdr best best_remain =
     (if hdr = 0 then Some (Some (best, best_remain))
      else if \<not> heap_header_valid st hdr then Some None
      else let h = hdr_at st hdr
           in if hh_magic h \<noteq> HEAP_MAGIC_FREE then heap_search st sz (hh_next h) best best_remain
              else if hh_size h \<ge> sz \<and> hh_size h - sz < best_remain
              then heap_search st sz (hh_next h) hdr (hh_size h - sz)
              else heap_search st sz (hh_next h) best best_remain)"

definition heap_round_size :: "u32 \<Rightarrow> u32" where
  "heap_round_size sz = (sz + HEAP_CANARY_SIZE + HEAP_ALIGN - 1) AND NOT (HEAP_ALIGN - 1)"

text \<open>Cutting the tail off the chosen block when enough remains.\<close>

definition heap_split :: "u32 \<Rightarrow> u32 \<Rightarrow> u32 \<Rightarrow> heap_state \<Rightarrow> heap_state" where
  "heap_split best sz best_remain st =
     (let new_hdr = best + HEAP_HEADER_SIZE + sz;
          b = hdr_at st best;
          st = write_hdr new_hdr \<lparr>hh_magic = HEAP_MAGIC_FREE, hh_reserved = 0,
                 hh_size = best_remain - HEAP_HEADER_SIZE, hh_requested_size = 0,
                 hh_header_guard = 0, hh_next = hh_next b, hh_prev = best\<rparr> st;
          st = (if hh_next b \<noteq> 0
                then upd_hdr (hh_next b)
                       (\<lambda>h. let h = h\<lparr>hh_prev := new_hdr\<rparr>
                            in h\<lparr>hh_header_guard := heap_header_guard (hh_next b) h\<rparr>) st
                else st);
          st = upd_hdr best (\<lambda>h. h\<lparr>hh_next := new_hdr, hh_size := sz\<rparr>) st
      in upd_hdr new_hdr (\<lambda>h. h\<lparr>hh_header_guard := heap_header_guard new_hdr h\<rparr>) st)"

text \<open>From marking the block used to the returned pointer.\<close>

definition heap_take :: "u32 \<Rightarrow> u32 \<Rightarrow> heap_state \<Rightarrow> heap_state" where
  "heap_take best requested st =
     (let st = upd_hdr best (\<lambda>h. h\<lparr>hh_magic := HEAP_MAGIC_USED, hh_requested_size := requested\<rparr>) st;
          st = upd_hdr best (\<lambda>h. h\<lparr>hh_header_guard := heap_header_guard best h\<rparr>) st;
          st = heap_write_canary best st;
          st = st\<lparr>heap_alloc_count := heap_alloc_count st + 1,
                  heap_current_used := heap_current_used st + (hh_size (hdr_at st best) + HEAP_HEADER_SIZE)\<rparr>;
          st = (if heap_current_used st > heap_peak_used st
                then st\<lparr>heap_peak_used := heap_current_used st\<rparr> else st);
          st = write_bytes (best + HEAP_HEADER_SIZE)
                 (replicate (unat (hh_requested_size (hdr_at st best))) 0xCC) st
      in heap_write_canary best st)"

definition heap_fail :: "heap_state \<Rightarrow> heap_state" where
  "heap_fail st = st\<lparr>heap_alloc_failures := heap_alloc_failures st + 1\<rparr>"

definition heap_corrupt :: "heap_state \<Rightarrow> heap_state" where
  "heap_corrupt st = st\<lparr>heap_corruption_count := heap_corruption_count st + 1\<rparr>"

definition heap_allocate :: "bool \<Rightarrow> u32 \<Rightarrow> bool \<Rightarrow> heap_state \<Rightarrow> (u32 \<times> heap_state) option" where
  "heap_allocate in_isr size0 kernel_allocation st =
     (if in_isr then Some (0, st)
      else if \<not> heap_initialized st then Some (0, st)
      else let requested = (if size0 = 0 then 1 else size0)
      in if requested > of_nat AIXOS_CFG_MAX_IPC_COPY_BYTES \<and> \<not> kernel_allocation then Some (0, st)
      else if requested > UINT32_MAX - HEAP_CANARY_SIZE - (HEAP_ALIGN - 1) then Some (0, st)
      else let sz = heap_round_size requested
      in if heap_runtime_locked st \<and> \<not> kernel_allocation then Some (0, heap_fail st)
      else case heap_search st sz (heap_first st) 0 0xFFFFFFFF of
             None \<Rightarrow> None
           | Some None \<Rightarrow> Some (0, heap_corrupt st)
           | Some (Some (best, best_remain)) \<Rightarrow>
               if best = 0 then Some (0, heap_fail st)
               else let st = (if best_remain > HEAP_HEADER_SIZE + HEAP_ALIGN
                              then heap_split best sz best_remain st else st)
                    in Some (best + HEAP_HEADER_SIZE, heap_take best requested st))"

definition aixos_malloc :: "bool \<Rightarrow> u32 \<Rightarrow> heap_state \<Rightarrow> (u32 \<times> heap_state) option" where
  "aixos_malloc in_isr sz st = heap_allocate in_isr sz False st"

definition aixos_kernel_malloc :: "bool \<Rightarrow> u32 \<Rightarrow> heap_state \<Rightarrow> (u32 \<times> heap_state) option" where
  "aixos_kernel_malloc in_isr sz st = heap_allocate in_isr sz True st"

definition aixos_calloc :: "bool \<Rightarrow> u32 \<Rightarrow> u32 \<Rightarrow> heap_state \<Rightarrow> (u32 \<times> heap_state) option" where
  "aixos_calloc in_isr count sz st =
     (if sz \<noteq> 0 \<and> count > (- 1) div sz then Some (0, st)
      else map_option (\<lambda>(p, st).
             (p, if p \<noteq> 0 then write_bytes p (replicate (unat (count * sz)) 0) st else st))
             (aixos_malloc in_isr (count * sz) st))"

section \<open>Release\<close>

text \<open>Merging with the next block, then with the previous one.\<close>

definition heap_merge_next :: "u32 \<Rightarrow> heap_state \<Rightarrow> heap_state" where
  "heap_merge_next hdr st =
     (let next = hh_next (hdr_at st hdr)
      in if next \<noteq> 0 \<and> hh_magic (hdr_at st next) = HEAP_MAGIC_FREE
         then let n = hdr_at st next;
                  st = upd_hdr hdr (\<lambda>h. h\<lparr>hh_size := hh_size h + (HEAP_HEADER_SIZE + hh_size n),
                                          hh_next := hh_next n\<rparr>) st
              in if hh_next n \<noteq> 0
                 then upd_hdr (hh_next n)
                        (\<lambda>h. let h = h\<lparr>hh_prev := hdr\<rparr>
                             in h\<lparr>hh_header_guard := heap_header_guard (hh_next n) h\<rparr>) st
                 else st
         else st)"

definition heap_merge_prev :: "u32 \<Rightarrow> heap_state \<Rightarrow> heap_state" where
  "heap_merge_prev hdr st =
     (let h = hdr_at st hdr; prev = hh_prev h
      in if prev \<noteq> 0 \<and> hh_magic (hdr_at st prev) = HEAP_MAGIC_FREE
         then let st = upd_hdr prev (\<lambda>p. p\<lparr>hh_size := hh_size p + (HEAP_HEADER_SIZE + hh_size h),
                                           hh_next := hh_next h\<rparr>) st;
                  st = (if hh_next h \<noteq> 0
                        then upd_hdr (hh_next h)
                               (\<lambda>n. let n = n\<lparr>hh_prev := prev\<rparr>
                                    in n\<lparr>hh_header_guard := heap_header_guard (hh_next h) n\<rparr>) st
                        else st)
              in upd_hdr prev (\<lambda>p. p\<lparr>hh_header_guard := heap_header_guard prev p\<rparr>) st
         else upd_hdr hdr (\<lambda>h. h\<lparr>hh_header_guard := heap_header_guard hdr h\<rparr>) st)"

definition heap_release :: "u32 \<Rightarrow> heap_state \<Rightarrow> heap_state" where
  "heap_release hdr st =
     (let st = st\<lparr>heap_current_used := heap_current_used st - (hh_size (hdr_at st hdr) + HEAP_HEADER_SIZE)\<rparr>;
          st = upd_hdr hdr (\<lambda>h. h\<lparr>hh_magic := HEAP_MAGIC_FREE, hh_requested_size := 0\<rparr>) st;
          st = st\<lparr>heap_free_count := heap_free_count st + 1\<rparr>;
          h = hdr_at st hdr
      in if hh_next h \<noteq> 0 \<and> hh_next h \<noteq> hdr + HEAP_HEADER_SIZE + hh_size h then heap_corrupt st
         else heap_merge_prev hdr (heap_merge_next hdr st))"

definition aixos_free :: "bool \<Rightarrow> u32 \<Rightarrow> heap_state \<Rightarrow> heap_state" where
  "aixos_free in_isr ptr st =
     (if ptr = 0 then st else if in_isr then st
      else if ptr < heap_begin st + HEAP_HEADER_SIZE \<or> ptr \<ge> heap_end st \<or>
              ptr AND (HEAP_ALIGN - 1) \<noteq> 0 then st
      else let hdr = ptr - HEAP_HEADER_SIZE
           in if hdr < heap_begin st \<or> hdr + HEAP_HEADER_SIZE > heap_end st \<or>
                 \<not> heap_header_valid st hdr \<or> hh_magic (hdr_at st hdr) \<noteq> HEAP_MAGIC_USED \<or>
                 \<not> heap_canary_valid st hdr
              then heap_corrupt st
              else heap_release hdr st)"

definition read_bytes :: "u32 \<Rightarrow> nat \<Rightarrow> heap_state \<Rightarrow> u8 list" where
  "read_bytes a n st = map (\<lambda>i. hmem st (a + of_nat i)) [0..<n]"

definition aixos_realloc :: "bool \<Rightarrow> u32 \<Rightarrow> u32 \<Rightarrow> heap_state \<Rightarrow> (u32 \<times> heap_state) option" where
  "aixos_realloc in_isr ptr new_size st =
     (if ptr = 0 then aixos_malloc in_isr new_size st
      else if new_size = 0 then Some (0, aixos_free in_isr ptr st)
      else if in_isr then Some (0, st)
      else if ptr < heap_begin st + HEAP_HEADER_SIZE \<or> ptr \<ge> heap_end st then Some (0, st)
      else let hdr = ptr - HEAP_HEADER_SIZE
      in if heap_runtime_locked st then Some (0, heap_fail st)
      else if \<not> heap_header_valid st hdr \<or> hh_magic (hdr_at st hdr) \<noteq> HEAP_MAGIC_USED \<or>
              \<not> heap_canary_valid st hdr then Some (0, heap_corrupt st)
      else let old_size = hh_requested_size (hdr_at st hdr)
      in map_option (\<lambda>(newp, st).
           (newp, if newp \<noteq> 0
                  then let copy = (if old_size < new_size then old_size else new_size)
                       in aixos_free in_isr ptr
                            (write_bytes newp (read_bytes ptr (unat copy) st) st)
                  else st))
           (aixos_malloc in_isr new_size st))"

section \<open>Inspection\<close>

record aixos_mem_info_t =
  mi_total_bytes :: u32
  mi_free_bytes :: u32
  mi_used_bytes :: u32
  mi_max_free_block :: u32
  mi_alloc_count :: u32
  mi_free_count :: u32
  mi_alloc_failures :: u32
  mi_corruption_count :: u32
  mi_peak_used_bytes :: u32
  mi_free_block_count :: u32
  mi_fragmentation_per_mille :: u32
  mi_runtime_locked :: bool

text \<open>The loop of \<open>aixos_mem_info\<close>: whether it met a bad header, then \<open>free_bytes\<close>,
  \<open>max_free\<close> and \<open>free_blocks\<close>.\<close>

partial_function (option) mem_info_loop ::
  "heap_state \<Rightarrow> u32 \<Rightarrow> u32 \<times> u32 \<times> u32 \<Rightarrow> (bool \<times> u32 \<times> u32 \<times> u32) option" where
  "mem_info_loop st hdr acc =
     (if hdr = 0 then Some (False, acc)
      else if \<not> heap_header_valid st hdr then Some (True, acc)
      else let h = hdr_at st hdr; (free_bytes, max_free, free_blocks) = acc
           in mem_info_loop st (hh_next h)
                (if hh_magic h = HEAP_MAGIC_FREE
                 then (free_bytes + hh_size h, (if hh_size h > max_free then hh_size h else max_free),
                       free_blocks + 1)
                 else acc))"

definition aixos_mem_info :: "heap_state \<Rightarrow> (aixos_mem_info_t \<times> heap_state) option" where
  "aixos_mem_info st =
     map_option (\<lambda>(bad, free_bytes, max_free, free_blocks).
       let st = (if bad then heap_corrupt st else st)
       in (\<lparr>mi_total_bytes = heap_total st, mi_free_bytes = free_bytes,
            mi_used_bytes = heap_total st - free_bytes, mi_max_free_block = max_free,
            mi_alloc_count = heap_alloc_count st, mi_free_count = heap_free_count st,
            mi_alloc_failures = heap_alloc_failures st,
            mi_corruption_count = heap_corruption_count st, mi_peak_used_bytes = heap_peak_used st,
            mi_free_block_count = free_blocks,
            mi_fragmentation_per_mille =
              (if free_bytes = 0 then 0
               else ucast ((ucast (free_bytes - max_free) * 1000 :: u64) div ucast free_bytes)),
            mi_runtime_locked = heap_runtime_locked st\<rparr>, st))
       (mem_info_loop st (heap_first st) (0, 0, 0))"

partial_function (option) heap_check_loop :: "heap_state \<Rightarrow> u32 \<Rightarrow> u32 \<Rightarrow> bool option" where
  "heap_check_loop st hdr previous =
     (if hdr = 0 then Some True
      else let h = hdr_at st hdr
           in if \<not> heap_header_valid st hdr \<or> hh_prev h \<noteq> previous \<or>
                 (hh_magic h = HEAP_MAGIC_USED \<and> \<not> heap_canary_valid st hdr) then Some False
              else if hh_next h \<noteq> 0 \<and> hdr + HEAP_HEADER_SIZE + hh_size h \<noteq> hh_next h then Some False
              else heap_check_loop st (hh_next h) hdr)"

definition aixos_heap_check :: "heap_state \<Rightarrow> (int \<times> heap_state) option" where
  "aixos_heap_check st =
     (if \<not> heap_initialized st then Some (AIXOS_ERR_INVAL, st)
      else map_option (\<lambda>ok. if ok then (AIXOS_OK, st) else (AIXOS_ERR_CORRUPT, heap_corrupt st))
             (heap_check_loop st (heap_first st) 0))"

definition aixos_heap_lockdown :: "bool \<Rightarrow> heap_state \<Rightarrow> heap_state" where
  "aixos_heap_lockdown in_isr st = (if in_isr then st else st\<lparr>heap_runtime_locked := True\<rparr>)"

definition aixos_heap_is_locked :: "heap_state \<Rightarrow> bool" where
  "aixos_heap_is_locked st = heap_runtime_locked st"

end
