(* ===== verification/Kheap_Inv.thy ===== *)
theory Kheap_Inv
  imports Kheap
begin

text \<open>
  The representation invariant of the heap of \<open>Kheap\<close>: a list of blocks laid out end to end over
  the managed range, each with the header \<open>mk_hdr\<close> at its address. \<open>heap_rep st bs\<close> says that the
  state \<open>st\<close> holds exactly the blocks \<open>bs\<close>; the operations are then functions on block lists.
\<close>

section \<open>Blocks and their layout\<close>

record hblk =
  b_size :: nat
  b_used :: bool
  b_req :: nat

definition mk_hdr :: "u32 \<Rightarrow> nat \<Rightarrow> hblk \<Rightarrow> u32 \<Rightarrow> heap_hdr" where
  "mk_hdr prev a b nxt = \<lparr>hh_magic = (if b_used b then HEAP_MAGIC_USED else HEAP_MAGIC_FREE),
     hh_reserved = 0, hh_size = of_nat (b_size b), hh_requested_size = of_nat (b_req b),
     hh_header_guard = of_nat a XOR of_nat (b_size b) XOR of_nat (b_req b) XOR AIXOS_CFG_HEAP_MAGIC,
     hh_next = nxt, hh_prev = prev\<rparr>"

fun layout :: "u32 \<Rightarrow> nat \<Rightarrow> hblk list \<Rightarrow> u32 \<Rightarrow> (nat \<times> heap_hdr) list" where
  "layout prev a [] nxt = []"
| "layout prev a (b # bs) nxt =
     (a, mk_hdr prev a b (if bs = [] then nxt else of_nat (a + 24 + b_size b)))
     # layout (of_nat a) (a + 24 + b_size b) bs nxt"

fun addrs :: "nat \<Rightarrow> hblk list \<Rightarrow> (nat \<times> hblk) list" where
  "addrs a [] = []"
| "addrs a (b # bs) = (a, b) # addrs (a + 24 + b_size b) bs"

fun span :: "hblk list \<Rightarrow> nat" where
  "span [] = 0"
| "span (b # bs) = 24 + b_size b + span bs"

fun lastp :: "u32 \<Rightarrow> nat \<Rightarrow> hblk list \<Rightarrow> u32" where
  "lastp prev a [] = prev"
| "lastp prev a (b # bs) = lastp (of_nat a) (a + 24 + b_size b) bs"

lemma span_append [simp]: "span (xs @ ys) = span xs + span ys"
  by (induction xs) auto

lemma addrs_append: "addrs a (xs @ ys) = addrs a xs @ addrs (a + span xs) ys"
  by (induction xs arbitrary: a) (auto simp: add.assoc)

lemma layout_append:
  "layout prev a (xs @ ys) nxt =
   layout prev a xs (if ys = [] then nxt else of_nat (a + span xs)) @ layout (lastp prev a xs) (a + span xs) ys nxt"
proof (induction xs arbitrary: prev a)
  case (Cons b xs)
  have n: "(xs @ ys = []) = (xs = [] \<and> ys = [])" by simp
  show ?case by (cases "xs = []") (auto simp: Cons.IH add.assoc n)
qed simp

definition blk_ok :: "hblk \<Rightarrow> bool" where
  "blk_ok b \<longleftrightarrow> b_size b mod 8 = 0 \<and> 8 \<le> b_size b \<and>
     (if b_used b then 0 < b_req b \<and> b_req b + 4 \<le> b_size b else b_req b = 0)"

fun no_adjacent_free :: "hblk list \<Rightarrow> bool" where
  "no_adjacent_free [] \<longleftrightarrow> True"
| "no_adjacent_free [b] \<longleftrightarrow> True"
| "no_adjacent_free (b # c # bs) \<longleftrightarrow> (b_used b \<or> b_used c) \<and> no_adjacent_free (c # bs)"

lemma no_adjacent_free_append:
  "no_adjacent_free (xs @ ys) \<longleftrightarrow> no_adjacent_free xs \<and> no_adjacent_free ys \<and>
   (xs = [] \<or> ys = [] \<or> b_used (last xs) \<or> b_used (hd ys))"
proof (induction xs rule: no_adjacent_free.induct)
  case (2 v)
  then show ?case by (cases ys) auto
qed auto

text \<open>Addresses of the blocks stay inside their span, 32 bytes apart.\<close>

lemma addrs_bounds: "(x, b) \<in> set (addrs a bs) \<Longrightarrow> a \<le> x \<and> x + 24 + b_size b \<le> a + span bs"
  by (induction bs arbitrary: a) fastforce+

lemma layout_bounds:
  "(x, h) \<in> set (layout prev a bs nxt) \<Longrightarrow> \<forall>b\<in>set bs. blk_ok b \<Longrightarrow> a \<le> x \<and> x + 32 \<le> a + span bs"
proof (induction bs arbitrary: prev a)
  case (Cons b bs)
  show ?case
  proof (cases "x = a \<and> h = mk_hdr prev a b (if bs = [] then nxt else of_nat (a + 24 + b_size b))")
    case True
    then show ?thesis using Cons.prems(2) by (auto simp: blk_ok_def)
  next
    case False
    then have "(x, h) \<in> set (layout (of_nat a) (a + 24 + b_size b) bs nxt)" using Cons.prems(1) by auto
    from Cons.IH[OF this] Cons.prems(2) show ?thesis by auto
  qed
qed simp

definition stored :: "(u32 \<Rightarrow> heap_hdr option) \<Rightarrow> (nat \<times> heap_hdr) list \<Rightarrow> bool" where
  "stored H L \<longleftrightarrow> (\<forall>(a, h) \<in> set L. H (of_nat a) = Some h)"

lemma stored_simps [simp]:
  "stored H []" "stored H ((a, h) # L) \<longleftrightarrow> H (of_nat a) = Some h \<and> stored H L"
  "stored H (L @ L') \<longleftrightarrow> stored H L \<and> stored H L'"
  by (auto simp: stored_def)

lemma stored_cong: "stored H L \<Longrightarrow> (\<And>a h. (a, h) \<in> set L \<Longrightarrow> H' (of_nat a) = H (of_nat a)) \<Longrightarrow> stored H' L"
  by (fastforce simp: stored_def)

lemma of_nat_u32_eq: "x < 2 ^ 32 \<Longrightarrow> y < 2 ^ 32 \<Longrightarrow> (of_nat x :: u32) = of_nat y \<longleftrightarrow> x = y"
  using u32_of_nat by metis

definition canaries :: "(u32 \<Rightarrow> u8) \<Rightarrow> (nat \<times> hblk) list \<Rightarrow> bool" where
  "canaries m A \<longleftrightarrow> (\<forall>(x, b) \<in> set A. b_used b \<longrightarrow>
     (\<forall>i<4. m (of_nat (x + 24 + b_req b + i)) = u32_bytes (HEAP_CANARY XOR of_nat x) ! i))"

text \<open>Every header that reads as used belongs to a used block: releases leave no stale one.\<close>

definition used_live :: "(u32 \<Rightarrow> heap_hdr option) \<Rightarrow> (nat \<times> hblk) list \<Rightarrow> bool" where
  "used_live H A \<longleftrightarrow> (\<forall>k h. H k = Some h \<longrightarrow> hh_magic h = HEAP_MAGIC_USED \<longrightarrow>
     (\<exists>(x, b) \<in> set A. k = of_nat x \<and> b_used b))"

definition used_bytes :: "hblk list \<Rightarrow> nat" where
  "used_bytes bs = (\<Sum>b\<leftarrow>bs. if b_used b then b_size b + 24 else 0)"

definition used_count :: "hblk list \<Rightarrow> nat" where
  "used_count bs = length (filter b_used bs)"

definition heap_rep :: "heap_state \<Rightarrow> hblk list \<Rightarrow> bool" where
  "heap_rep st bs \<longleftrightarrow> bs \<noteq> [] \<and> heap_initialized st \<and> heap_first st = heap_begin st \<and>
     0 < unat (heap_begin st) \<and> unat (heap_begin st) mod 8 = 0 \<and>
     unat (heap_begin st) + span bs = unat (heap_end st) \<and>
     heap_total st = of_nat (span bs) \<and>
     (\<forall>b\<in>set bs. blk_ok b) \<and> no_adjacent_free bs \<and>
     stored (hdrs st) (layout 0 (unat (heap_begin st)) bs 0) \<and>
     canaries (hmem st) (addrs (unat (heap_begin st)) bs) \<and>
     used_live (hdrs st) (addrs (unat (heap_begin st)) bs) \<and>
     heap_current_used st = of_nat (used_bytes bs) \<and>
     heap_alloc_count st - heap_free_count st = of_nat (used_count bs)"

section \<open>Headers of a well-formed heap are valid\<close>

lemma mk_hdr_sel [simp]:
  "hh_magic (mk_hdr prev a b nxt) = (if b_used b then HEAP_MAGIC_USED else HEAP_MAGIC_FREE)"
  "hh_size (mk_hdr prev a b nxt) = of_nat (b_size b)"
  "hh_requested_size (mk_hdr prev a b nxt) = of_nat (b_req b)"
  "hh_next (mk_hdr prev a b nxt) = nxt" "hh_prev (mk_hdr prev a b nxt) = prev"
  by (simp_all add: mk_hdr_def)

lemma mk_hdr_valid:
  assumes h: "hdrs st (of_nat a) = Some (mk_hdr prev a b nxt)" and ok: "blk_ok b"
    and lo: "unat (heap_begin st) \<le> a" and hi: "a + 24 + b_size b \<le> unat (heap_end st)"
  shows "heap_header_valid st (of_nat a)"
proof -
  have e: "unat (heap_end st) < 2 ^ 32" by (rule u32_less)
  have a: "unat (of_nat a :: u32) = a" using hi e by (intro u32_of_nat) linarith
  have sz: "unat (of_nat (b_size b) :: u32) = b_size b" using hi e by (intro u32_of_nat) linarith
  have req: "b_req b + 4 \<le> b_size b" if "b_used b" using ok that by (simp add: blk_ok_def)
  have rq: "unat (of_nat (b_req b) :: u32) = b_req b"
    using ok hi e by (intro u32_of_nat) (auto simp: blk_ok_def split: if_splits)
  have a24: "unat (of_nat a + 24 :: u32) = a + 24"
    using a hi e by (simp add: unat_word_ariths)
  have "unat (heap_end st - of_nat a) = unat (heap_end st) - a"
    using hi a by (subst unat_sub) (auto simp: word_le_nat_alt)
  then have room: "unat (heap_end st - of_nat a - 24) = unat (heap_end st) - a - 24"
    using hi by (subst unat_sub) (auto simp: word_le_nat_alt)
  have r4: "unat (of_nat (b_req b) + 4 :: u32) = b_req b + 4" if "b_used b"
    using req[OF that] rq hi e by (simp add: unat_word_ariths)
  show ?thesis
    using lo hi req rq sz r4
    by (auto simp: heap_header_valid_def hdr_at_def h heap_header_guard_def mk_hdr_def Let_def
        word_less_nat_alt a a24 room)
qed

lemma stored_valid:
  assumes "stored (hdrs st) (layout prev a (b # bs) nxt)" "blk_ok b"
    and "unat (heap_begin st) \<le> a" "a + 24 + b_size b \<le> unat (heap_end st)"
  shows "heap_header_valid st (of_nat a)"
    and "hdr_at st (of_nat a) = mk_hdr prev a b (if bs = [] then nxt else of_nat (a + 24 + b_size b))"
  using assms mk_hdr_valid by (auto simp: hdr_at_def)

section \<open>The search\<close>

text \<open>Best fit over a block list: the loop of \<open>heap_allocate\<close> on the abstract blocks.\<close>

fun best_fit :: "nat \<Rightarrow> (nat \<times> hblk) list \<Rightarrow> (nat \<times> nat) \<Rightarrow> nat \<times> nat" where
  "best_fit sz [] (best, rem) = (best, rem)"
| "best_fit sz ((a, b) # A) (best, rem) =
     (if \<not> b_used b \<and> sz \<le> b_size b \<and> b_size b - sz < rem then best_fit sz A (a, b_size b - sz)
      else best_fit sz A (best, rem))"

lemma heap_search_best_fit:
  assumes "stored (hdrs st) (layout prev a bs 0)" "\<forall>b\<in>set bs. blk_ok b"
    and "unat (heap_begin st) \<le> a" "a + span bs = unat (heap_end st)" "0 < a" "rem < 2 ^ 32"
    and "best_fit (unat sz) (addrs a bs) (best, rem) = (best', rem')"
  shows "heap_search st sz (if bs = [] then 0 else of_nat a) (of_nat best) (of_nat rem) =
         Some (Some (of_nat best', of_nat rem')) \<and> rem' < 2 ^ 32"
  using assms
proof (induction bs arbitrary: prev a best rem)
  case Nil
  then show ?case by (subst heap_search.simps) simp
next
  case (Cons b bs)
  have e: "unat (heap_end st) < 2 ^ 32" by (rule u32_less)
  have hi: "a + 24 + b_size b \<le> unat (heap_end st)" using Cons.prems(4) by simp
  have ok: "blk_ok b" using Cons.prems(2) by simp
  note hdr = stored_valid[OF Cons.prems(1) ok Cons.prems(3) hi]
  have a0: "(of_nat a :: u32) \<noteq> 0" using Cons.prems(5) hi e of_nat_u32_eq[of a 0] by simp
  have sz: "unat (of_nat (b_size b) :: u32) = b_size b" using hi e by (intro u32_of_nat) linarith
  have rem: "unat (of_nat rem :: u32) = rem" using Cons.prems(6) by (rule u32_of_nat)
  have st': "stored (hdrs st) (layout (of_nat a) (a + 24 + b_size b) bs 0)" using Cons.prems(1) by simp
  have fit: "(hh_size (hdr_at st (of_nat a)) \<ge> sz \<and> hh_size (hdr_at st (of_nat a)) - sz < of_nat rem) \<longleftrightarrow>
      (unat sz \<le> b_size b \<and> b_size b - unat sz < rem)"
    using sz rem by (auto simp: hdr(2) word_le_nat_alt word_less_nat_alt unat_sub)
  have diff: "(of_nat (b_size b) - sz :: u32) = of_nat (b_size b - unat sz)" if "unat sz \<le> b_size b"
    using that by (simp add: of_nat_diff)
  define next' where "next' = (if bs = [] then 0 else (of_nat (a + 24 + b_size b) :: u32))"
  let ?take = "\<not> b_used b \<and> unat sz \<le> b_size b \<and> b_size b - unat sz < rem"
  have step: "heap_search st sz (of_nat a) (of_nat best) (of_nat rem) =
      (if ?take then heap_search st sz next' (of_nat a) (of_nat (b_size b - unat sz))
       else heap_search st sz next' (of_nat best) (of_nat rem))"
  proof -
    have m: "hh_magic (hdr_at st (of_nat a)) \<noteq> HEAP_MAGIC_FREE \<longleftrightarrow> b_used b" by (simp add: hdr(2))
    have n: "hh_next (hdr_at st (of_nat a)) = next'" by (simp add: hdr(2) next'_def)
    have s: "hh_size (hdr_at st (of_nat a)) = of_nat (b_size b)" by (simp add: hdr(2))
    have "heap_search st sz (of_nat a) (of_nat best) (of_nat rem) =
        (if b_used b then heap_search st sz next' (of_nat best) (of_nat rem)
         else if hh_size (hdr_at st (of_nat a)) \<ge> sz \<and> hh_size (hdr_at st (of_nat a)) - sz < of_nat rem
         then heap_search st sz next' (of_nat a) (of_nat (b_size b) - sz)
         else heap_search st sz next' (of_nat best) (of_nat rem))"
      by (subst heap_search.simps) (simp only: a0 hdr(1) m n Let_def if_False not_True_eq_False simp_thms s)
    then have *: "heap_search st sz (of_nat a) (of_nat best) (of_nat rem) =
        (if ?take then heap_search st sz next' (of_nat a) (of_nat (b_size b) - sz)
         else heap_search st sz next' (of_nat best) (of_nat rem))"
      unfolding fit by (cases "b_used b") (simp_all only: if_True if_False simp_thms)
    show ?thesis
    proof (cases ?take)
      case True
      then show ?thesis using * by (simp only: diff if_True)
    next
      case False
      then show ?thesis using * by (simp only: if_False)
    qed
  qed
  have pre: "\<forall>b\<in>set bs. blk_ok b" "unat (heap_begin st) \<le> a + 24 + b_size b"
    "a + 24 + b_size b + span bs = unat (heap_end st)" "0 < a + 24 + b_size b" "b_size b - unat sz < 2 ^ 32"
    using Cons.prems hi e by auto
  show ?case
  proof (cases ?take)
    case True
    then have "best_fit (unat sz) (addrs (a + 24 + b_size b) bs) (a, b_size b - unat sz) = (best', rem')"
      using Cons.prems(7) by simp
    from Cons.IH[OF st' pre(1-5) this] show ?thesis using True step by (simp add: next'_def)
  next
    case False
    then have "best_fit (unat sz) (addrs (a + 24 + b_size b) bs) (best, rem) = (best', rem')"
      using Cons.prems(7) by (simp only: addrs.simps best_fit.simps if_False)
    from Cons.IH[OF st' pre(1-4) Cons.prems(6) this] show ?thesis using False step by (simp only: next'_def if_False list.simps if_cancel)
  qed
qed

lemma best_fit_result:
  assumes "best_fit sz A (best, rem) = (best', rem')"
  shows "(best', rem') = (best, rem) \<or> (\<exists>b. (best', b) \<in> set A \<and> \<not> b_used b \<and> sz \<le> b_size b \<and> rem' = b_size b - sz)"
  using assms
proof (induction A arbitrary: best rem)
  case (Cons p A)
  obtain a b where p: "p = (a, b)" by (cases p)
  from Cons.prems Cons.IH[of a "b_size b - sz"] Cons.IH[of best rem] show ?case
    unfolding p by (auto split: if_splits)
qed simp

lemma best_fit_minimal:
  assumes "best_fit sz A (best, rem) = (best', rem')"
  shows "rem' \<le> rem \<and> (\<forall>(a, b)\<in>set A. \<not> b_used b \<and> sz \<le> b_size b \<longrightarrow> rem' \<le> b_size b - sz)"
  using assms
proof (induction A arbitrary: best rem)
  case (Cons p A)
  obtain a b where p: "p = (a, b)" by (cases p)
  from Cons.prems Cons.IH[of a "b_size b - sz"] Cons.IH[of best rem] show ?case
    unfolding p by (fastforce split: if_splits)
qed simp

section \<open>Frame facts\<close>

lemma mk_hdr_cong_prev: "(mk_hdr q c y n)\<lparr>hh_prev := q'\<rparr> = mk_hdr q' c y n"
  by (simp add: mk_hdr_def)

lemma mk_hdr_reguard:
  "(mk_hdr p a b n)\<lparr>hh_header_guard := heap_header_guard (of_nat a) (mk_hdr p a b n)\<rparr> = mk_hdr p a b n"
  by (simp add: mk_hdr_def heap_header_guard_def)

lemma hdr_at_upd [simp]:
  "hdr_at (upd_hdr a f st) x = (if x = a then f (hdr_at st a) else hdr_at st x)"
  by (simp add: hdr_at_def upd_hdr_def)

lemma hdr_at_Some: "hdrs st a = Some h \<Longrightarrow> hdr_at st a = h"
  by (simp add: hdr_at_def)

lemma hdrs_upd [simp]: "hdrs (upd_hdr a f st) = (hdrs st)(a \<mapsto> f (hdr_at st a))"
  by (simp add: upd_hdr_def)

lemma upd_hdr_fields [simp]:
  "hmem (upd_hdr a f st) = hmem st" "heap_begin (upd_hdr a f st) = heap_begin st"
  "heap_end (upd_hdr a f st) = heap_end st" "heap_first (upd_hdr a f st) = heap_first st"
  "heap_total (upd_hdr a f st) = heap_total st" "heap_initialized (upd_hdr a f st) = heap_initialized st"
  "heap_alloc_count (upd_hdr a f st) = heap_alloc_count st" "heap_free_count (upd_hdr a f st) = heap_free_count st"
  "heap_current_used (upd_hdr a f st) = heap_current_used st"
  "heap_runtime_locked (upd_hdr a f st) = heap_runtime_locked st"
  by (simp_all add: upd_hdr_def)

lemma write_hdr_fields [simp]:
  "hmem (write_hdr a h st) = hmem st" "heap_begin (write_hdr a h st) = heap_begin st"
  "heap_end (write_hdr a h st) = heap_end st" "heap_first (write_hdr a h st) = heap_first st"
  "heap_total (write_hdr a h st) = heap_total st" "heap_initialized (write_hdr a h st) = heap_initialized st"
  "heap_alloc_count (write_hdr a h st) = heap_alloc_count st" "heap_free_count (write_hdr a h st) = heap_free_count st"
  "heap_current_used (write_hdr a h st) = heap_current_used st"
  "heap_runtime_locked (write_hdr a h st) = heap_runtime_locked st"
  by (simp_all add: write_hdr_def)

lemma write_bytes_fields [simp]:
  "heap_begin (write_bytes a bs st) = heap_begin st"
  "heap_end (write_bytes a bs st) = heap_end st" "heap_first (write_bytes a bs st) = heap_first st"
  "heap_total (write_bytes a bs st) = heap_total st" "heap_initialized (write_bytes a bs st) = heap_initialized st"
  "heap_alloc_count (write_bytes a bs st) = heap_alloc_count st" "heap_free_count (write_bytes a bs st) = heap_free_count st"
  "heap_current_used (write_bytes a bs st) = heap_current_used st"
  "heap_runtime_locked (write_bytes a bs st) = heap_runtime_locked st"
  "hdrs (write_bytes a bs st) = clobber (unat a) (length bs) (hdrs st)"
  by (simp_all add: write_bytes_def)

lemma clobber_outside: "x < 2 ^ 32 \<Longrightarrow> x + 24 \<le> lo \<or> lo + n \<le> x \<Longrightarrow> clobber lo n H (of_nat x) = H (of_nat x)"
  by (auto simp: clobber_def u32_of_nat)

lemma clobber_Some: "clobber lo n H a = Some h \<Longrightarrow> H a = Some h"
  by (simp add: clobber_def split: if_splits)

lemma stored_upd_other:
  "stored H L \<Longrightarrow> (\<And>x h. (x, h) \<in> set L \<Longrightarrow> (of_nat x :: u32) \<noteq> k) \<Longrightarrow> stored (H(k \<mapsto> v)) L"
  by (fastforce simp: stored_def)

text \<open>Giving the first block of a stored suffix another predecessor.\<close>

lemma stored_reprev:
  assumes st: "stored H (layout q c ys 0)" and ok: "\<forall>b\<in>set ys. blk_ok b"
    and c: "c + span ys < 2 ^ 32" and ys: "ys \<noteq> []"
    and H: "H (of_nat c) = Some h"
  shows "stored (H(of_nat c \<mapsto> (let h = h\<lparr>hh_prev := q'\<rparr> in h\<lparr>hh_header_guard := heap_header_guard (of_nat c) h\<rparr>)))
           (layout q' c ys 0)"
proof -
  obtain y ys' where y: "ys = y # ys'" using ys by (cases ys) auto
  let ?n = "if ys' = [] then 0 else of_nat (c + 24 + b_size y)"
  have h: "h = mk_hdr q c y ?n" using st H by (simp add: y)
  have e: "(let h = h\<lparr>hh_prev := q'\<rparr> in h\<lparr>hh_header_guard := heap_header_guard (of_nat c) h\<rparr>) = mk_hdr q' c y ?n"
    unfolding h Let_def mk_hdr_cong_prev by (rule mk_hdr_reguard)
  have "stored (H(of_nat c \<mapsto> mk_hdr q' c y ?n)) (layout (of_nat c) (c + 24 + b_size y) ys' 0)"
  proof (rule stored_upd_other)
    show "stored H (layout (of_nat c) (c + 24 + b_size y) ys' 0)" using st by (simp add: y)
  next
    fix x h' assume "(x, h') \<in> set (layout (of_nat c) (c + 24 + b_size y) ys' 0)"
    then have "c + 24 + b_size y \<le> x" "x + 32 \<le> c + span ys"
      using layout_bounds ok by (fastforce simp: y)+
    then show "(of_nat x :: u32) \<noteq> of_nat c" using c by (subst of_nat_u32_eq) auto
  qed
  then show ?thesis unfolding e by (simp add: y)
qed

lemma u32_bytes_length [simp]: "length (u32_bytes w) = 4"
  by (simp add: u32_bytes_def)

section \<open>Taking a block\<close>

lemma heap_take_memory:
  assumes h: "hdrs st (of_nat a) = Some ((mk_hdr prev a b nx)\<lparr>hh_header_guard := g\<rparr>)"
    and r: "r + 4 \<le> b_size b" and hi: "a + 24 + b_size b < 2 ^ 32"
  shows "hdrs (heap_take (of_nat a) (of_nat r) st) =
      clobber (a + 24 + r) 4 (clobber (a + 24) r (clobber (a + 24 + r) 4
        ((hdrs st)(of_nat a \<mapsto> mk_hdr prev a (b\<lparr>b_used := True, b_req := r\<rparr>) nx))))"
    and "hmem (heap_take (of_nat a) (of_nat r) st) = (\<lambda>x.
      if a + 24 + r \<le> unat x \<and> unat x < a + 24 + r + 4
      then u32_bytes (HEAP_CANARY XOR of_nat a) ! (unat x - (a + 24 + r))
      else if a + 24 \<le> unat x \<and> unat x < a + 24 + r then 0xCC else hmem st x)"
    and "heap_current_used (heap_take (of_nat a) (of_nat r) st) = heap_current_used st + of_nat (b_size b + 24)"
    and "heap_alloc_count (heap_take (of_nat a) (of_nat r) st) = heap_alloc_count st + 1"
proof -
  let ?p = "of_nat a :: u32"
  define hb where "hb = mk_hdr prev a (b\<lparr>b_used := True, b_req := r\<rparr>) nx"
  have small: "a < 2 ^ 32" "a + 24 < 2 ^ 32" "a + 24 + r < 2 ^ 32" "r < 2 ^ 32" using r hi by linarith+
  have ua: "unat ?p = a" "unat (?p + 24) = a + 24" "unat (?p + 24 + of_nat r) = a + 24 + r" "unat (of_nat r :: u32) = r"
    using u32_of_nat[OF small(1)] u32_of_nat[OF small(2)] u32_of_nat[OF small(3)] u32_of_nat[OF small(4)]
    by simp_all
  have hbs: "hh_requested_size hb = of_nat r" "hh_size hb = of_nat (b_size b)" by (simp_all add: hb_def)
  define s2 where "s2 = upd_hdr ?p (\<lambda>h. h\<lparr>hh_header_guard := heap_header_guard ?p h\<rparr>)
    (upd_hdr ?p (\<lambda>h. h\<lparr>hh_magic := HEAP_MAGIC_USED, hh_requested_size := of_nat r\<rparr>) st)"
  have h2: "hdrs s2 = (hdrs st)(?p \<mapsto> hb)"
    by (simp add: s2_def hdr_at_Some[OF h]) (simp add: hb_def mk_hdr_def heap_header_guard_def)
  have m2: "hmem s2 = hmem st" "heap_current_used s2 = heap_current_used st" "heap_alloc_count s2 = heap_alloc_count st"
    by (simp_all add: s2_def)
  have at2: "hdr_at s2 ?p = hb" by (simp add: hdr_at_def h2)
  define s3 where "s3 = write_bytes (?p + 24 + of_nat r) (u32_bytes (HEAP_CANARY XOR ?p)) s2"
  have c3: "heap_write_canary ?p s2 = s3" by (simp add: heap_write_canary_def at2 hbs s3_def)
  have h3: "hdrs s3 = clobber (a + 24 + r) 4 ((hdrs st)(?p \<mapsto> hb))" by (simp add: s3_def ua h2)
  have keep: "clobber (a + 24 + r) 4 H ?p = H ?p" "clobber (a + 24) r H ?p = H ?p" for H
    using hi by (simp_all add: clobber_def ua)
  have at3: "hdr_at s3 ?p = hb" by (simp add: hdr_at_def h3 keep)
  define s5 where "s5 = (let st = s3\<lparr>heap_alloc_count := heap_alloc_count s3 + 1,
      heap_current_used := heap_current_used s3 + (hh_size hb + HEAP_HEADER_SIZE)\<rparr>
    in if heap_current_used st > heap_peak_used st then st\<lparr>heap_peak_used := heap_current_used st\<rparr> else st)"
  have h5: "hdrs s5 = hdrs s3" "hmem s5 = hmem s3" "heap_alloc_count s5 = heap_alloc_count s3 + 1"
    "heap_current_used s5 = heap_current_used s3 + (hh_size hb + HEAP_HEADER_SIZE)"
    by (simp_all add: s5_def Let_def)
  have at5: "hdr_at s5 ?p = hb" using at3 by (simp add: hdr_at_def h5)
  define s6 where "s6 = write_bytes (?p + 24) (replicate (unat (hh_requested_size hb)) 0xCC) s5"
  have h6: "hdrs s6 = clobber (a + 24) r (hdrs s3)" by (simp add: s6_def ua hbs h5)
  have at6: "hdr_at s6 ?p = hb" using at3 by (simp add: hdr_at_def h6 keep)
  have T: "heap_take ?p (of_nat r) st = write_bytes (?p + 24 + of_nat r) (u32_bytes (HEAP_CANARY XOR ?p)) s6"
  proof -
    have "heap_take ?p (of_nat r) st = heap_write_canary ?p s6"
      unfolding heap_take_def Let_def s2_def[symmetric] c3 at3 using s5_def[unfolded Let_def] at5
      by (simp only: s6_def)
    then show ?thesis by (simp only: heap_write_canary_def at6 hbs)
  qed
  show "hdrs (heap_take ?p (of_nat r) st) = clobber (a + 24 + r) 4 (clobber (a + 24) r (clobber (a + 24 + r) 4
        ((hdrs st)(?p \<mapsto> mk_hdr prev a (b\<lparr>b_used := True, b_req := r\<rparr>) nx))))"
    unfolding T by (simp add: h6 h3 hb_def ua)
  show "hmem (heap_take ?p (of_nat r) st) = (\<lambda>x.
      if a + 24 + r \<le> unat x \<and> unat x < a + 24 + r + 4
      then u32_bytes (HEAP_CANARY XOR of_nat a) ! (unat x - (a + 24 + r))
      else if a + 24 \<le> unat x \<and> unat x < a + 24 + r then 0xCC else hmem st x)"
    unfolding T by (rule ext) (auto simp: write_bytes_def ua s6_def h5 s3_def m2 hbs)
  show "heap_current_used (heap_take ?p (of_nat r) st) = heap_current_used st + of_nat (b_size b + 24)"
    unfolding T by (simp add: s6_def h5 s3_def m2 hbs)
  show "heap_alloc_count (heap_take ?p (of_nat r) st) = heap_alloc_count st + 1"
    unfolding T by (simp add: s6_def h5 s3_def m2)
qed

lemma heap_take_fields [simp]:
  "heap_begin (heap_take p r st) = heap_begin st" "heap_end (heap_take p r st) = heap_end st"
  "heap_first (heap_take p r st) = heap_first st" "heap_total (heap_take p r st) = heap_total st"
  "heap_initialized (heap_take p r st) = heap_initialized st"
  "heap_free_count (heap_take p r st) = heap_free_count st"
  "heap_runtime_locked (heap_take p r st) = heap_runtime_locked st"
  by (simp_all add: heap_take_def heap_write_canary_def Let_def)

section \<open>Splitting a block\<close>

lemma heap_split_fields [simp]:
  "hmem (heap_split p sz rem st) = hmem st" "heap_begin (heap_split p sz rem st) = heap_begin st"
  "heap_end (heap_split p sz rem st) = heap_end st" "heap_first (heap_split p sz rem st) = heap_first st"
  "heap_total (heap_split p sz rem st) = heap_total st"
  "heap_initialized (heap_split p sz rem st) = heap_initialized st"
  "heap_alloc_count (heap_split p sz rem st) = heap_alloc_count st"
  "heap_free_count (heap_split p sz rem st) = heap_free_count st"
  "heap_current_used (heap_split p sz rem st) = heap_current_used st"
  "heap_runtime_locked (heap_split p sz rem st) = heap_runtime_locked st"
  by (simp_all add: heap_split_def Let_def)

text \<open>The abstract remainder of a block of \<open>n\<close> bytes after \<open>sz\<close> are cut off.\<close>

definition rest_blk :: "nat \<Rightarrow> nat \<Rightarrow> hblk" where
  "rest_blk n sz = \<lparr>b_size = n - sz - 24, b_used = False, b_req = 0\<rparr>"

lemma hdr_at_write [simp]: "hdr_at (write_hdr a h st) a = h"
  by (simp add: hdr_at_def write_hdr_def)

lemma heap_split_hdrs:
  assumes h: "hdrs st p = Some hb" and nx: "hh_next hb = nx"
    and hn: "nx \<noteq> 0 \<Longrightarrow> hdrs st nx = Some hn" and q: "q = p + 24 + sz"
    and apart: "clobber (unat q) 24 (hdrs st) p = hdrs st p" "nx \<noteq> 0 \<Longrightarrow> clobber (unat q) 24 (hdrs st) nx = hdrs st nx"
    and ne: "p \<noteq> q" "nx \<noteq> q" "nx \<noteq> p"
  shows "hdrs (heap_split p sz rem st) = (\<lambda>x.
    if x = q then Some (let n = \<lparr>hh_magic = HEAP_MAGIC_FREE, hh_reserved = 0, hh_size = rem - 24,
        hh_requested_size = 0, hh_header_guard = 0, hh_next = nx, hh_prev = p\<rparr>
      in n\<lparr>hh_header_guard := heap_header_guard q n\<rparr>)
    else if x = p then Some (hb\<lparr>hh_next := q, hh_size := sz\<rparr>)
    else if nx \<noteq> 0 \<and> x = nx then Some (let h = hn\<lparr>hh_prev := q\<rparr> in h\<lparr>hh_header_guard := heap_header_guard nx h\<rparr>)
    else clobber (unat q) 24 (hdrs st) x)"
proof -
  define new where "new = \<lparr>hh_magic = HEAP_MAGIC_FREE, hh_reserved = 0, hh_size = rem - 24,
        hh_requested_size = 0, hh_header_guard = 0, hh_next = nx, hh_prev = p\<rparr>"
  have b: "hdr_at st p = hb" using h by (simp add: hdr_at_def)
  define s1 where "s1 = write_hdr q new st"
  have h1: "hdrs s1 = (clobber (unat q) 24 (hdrs st))(q \<mapsto> new)" by (simp add: s1_def write_hdr_def)
  have at1: "hdr_at s1 p = hb" "nx \<noteq> 0 \<Longrightarrow> hdr_at s1 nx = hn" "hdr_at s1 q = new"
    using apart ne h hn by (simp_all add: hdr_at_def h1)
  have T: "heap_split p sz rem st = (let s2 = (if nx \<noteq> 0 then upd_hdr nx (\<lambda>h. let h = h\<lparr>hh_prev := q\<rparr>
        in h\<lparr>hh_header_guard := heap_header_guard nx h\<rparr>) s1 else s1)
      in upd_hdr q (\<lambda>h. h\<lparr>hh_header_guard := heap_header_guard q h\<rparr>) (upd_hdr p (\<lambda>h. h\<lparr>hh_next := q, hh_size := sz\<rparr>) s2))"
    by (simp add: heap_split_def Let_def b nx q s1_def new_def)
  show ?thesis
    unfolding T using ne at1 by (intro ext) (auto simp: Let_def h1 new_def[symmetric])
qed

lemma heap_split_stored:
  assumes h: "hdrs st (of_nat a) = Some (mk_hdr prev a b nx)"
    and nx: "nx = (if ys = [] then 0 else of_nat (a + 24 + b_size b))"
    and st: "stored (hdrs st) (layout (of_nat a) (a + 24 + b_size b) ys 0)"
    and ok: "\<forall>y\<in>set ys. blk_ok y"
    and hi: "a + 24 + b_size b + span ys < 2 ^ 32" and sz: "sz + 32 < b_size b" and a: "0 < a"
    and st': "st' = heap_split (of_nat a) (of_nat sz) (of_nat (b_size b - sz)) st"
  shows "hdrs st' (of_nat a) = Some ((mk_hdr prev a (b\<lparr>b_size := sz\<rparr>) (of_nat (a + 24 + sz)))
           \<lparr>hh_header_guard := hh_header_guard (mk_hdr prev a b nx)\<rparr>)" (is ?A)
    and "stored (hdrs st') (layout (of_nat a) (a + 24 + sz) (rest_blk (b_size b) sz # ys) 0)" (is ?B)
    and "x + 24 \<le> a \<or> a + 24 + b_size b + 24 \<le> x \<Longrightarrow> x < 2 ^ 32 \<Longrightarrow> hdrs st' (of_nat x) = hdrs st (of_nat x)"
    and "hdrs st' k = Some h' \<Longrightarrow> hh_magic h' = HEAP_MAGIC_USED \<Longrightarrow>
         \<exists>h''. hdrs st k = Some h'' \<and> hh_magic h'' = HEAP_MAGIC_USED" (is "?D1 \<Longrightarrow> ?D2 \<Longrightarrow> ?D")
proof -
  let ?p = "of_nat a :: u32" and ?q = "of_nat (a + 24 + sz) :: u32" and ?c = "of_nat (a + 24 + b_size b) :: u32"
  let ?r = "rest_blk (b_size b) sz"
  have lt: "a < 2 ^ 32" "a + 24 + sz < 2 ^ 32" "a + 24 + b_size b < 2 ^ 32" "b_size b - sz < 2 ^ 32" using hi sz by linarith+
  have c0: "?c \<noteq> 0" using of_nat_u32_eq[OF lt(3), of 0] a by simp
  have pq: "?p \<noteq> ?q" using of_nat_u32_eq[OF lt(1,2)] by simp
  have cq: "?c \<noteq> ?q" using of_nat_u32_eq[OF lt(3,2)] sz by simp
  have cp: "?c \<noteq> ?p" using of_nat_u32_eq[OF lt(3,1)] by simp
  have q0: "?q \<noteq> 0" and p0: "?p \<noteq> 0" using of_nat_u32_eq[OF lt(2), of 0] of_nat_u32_eq[OF lt(1), of 0] a by simp_all
  have uq: "unat ?q = a + 24 + sz" by (rule u32_of_nat[OF lt(2)])
  have keep: "x < 2 ^ 32 \<Longrightarrow> x \<le> a \<or> a + 24 + b_size b \<le> x \<Longrightarrow> clobber (unat ?q) 24 H (of_nat x) = H (of_nat x)" for x H
    unfolding uq using sz by (intro clobber_outside) auto
  have nxs: "nx \<noteq> 0 \<longleftrightarrow> ys \<noteq> []" using nx c0 by auto
  define hn where "hn = hdr_at st nx"
  have hn: "hdrs st nx = Some hn" if "nx \<noteq> 0"
    using that st nxs nx by (cases ys) (auto simp: hn_def hdr_at_def)
  have H: "hdrs st' = (\<lambda>x.
    if x = ?q then Some (let n = \<lparr>hh_magic = HEAP_MAGIC_FREE, hh_reserved = 0, hh_size = of_nat (b_size b - sz) - 24,
        hh_requested_size = 0, hh_header_guard = 0, hh_next = nx, hh_prev = ?p\<rparr>
      in n\<lparr>hh_header_guard := heap_header_guard ?q n\<rparr>)
    else if x = ?p then Some ((mk_hdr prev a b nx)\<lparr>hh_next := ?q, hh_size := of_nat sz\<rparr>)
    else if nx \<noteq> 0 \<and> x = nx then Some (let h = hn\<lparr>hh_prev := ?q\<rparr> in h\<lparr>hh_header_guard := heap_header_guard nx h\<rparr>)
    else clobber (unat ?q) 24 (hdrs st) x)"
    unfolding st'
  proof (rule heap_split_hdrs[OF h _ hn])
    show "nx \<noteq> ?q" "nx \<noteq> ?p" using nx cq cp q0 p0 by (auto split: if_splits)
    show "nx \<noteq> 0 \<Longrightarrow> clobber (unat ?q) 24 (hdrs st) nx = hdrs st nx"
      using nx keep[OF lt(3)] by (simp split: if_splits)
  qed (use pq keep[OF lt(1)] in simp_all)
  show ?A using pq by (simp add: H) (simp add: mk_hdr_def)
  have rs: "of_nat (b_size b - sz) - 24 = (of_nat (b_size ?r) :: u32)"
    using sz by (simp add: rest_blk_def of_nat_diff)
  have newq: "hdrs st' ?q = Some (mk_hdr ?p (a + 24 + sz) ?r nx)"
    by (simp add: H Let_def rs) (simp add: mk_hdr_def heap_header_guard_def rest_blk_def)
  have tail: "stored (hdrs st') (layout ?q (a + 24 + b_size b) ys 0)"
  proof (cases "ys = []")
    case False
    have base: "stored ((hdrs st)(of_nat (a + 24 + b_size b) \<mapsto>
        (let h = hn\<lparr>hh_prev := ?q\<rparr> in h\<lparr>hh_header_guard := heap_header_guard ?c h\<rparr>)))
        (layout ?q (a + 24 + b_size b) ys 0)"
      using hn nxs nx False by (intro stored_reprev[OF st ok hi False]) auto
    show ?thesis
    proof (rule stored_cong[OF base])
      fix x h'' assume "(x, h'') \<in> set (layout ?q (a + 24 + b_size b) ys 0)"
      then have x: "a + 24 + b_size b \<le> x" "x < 2 ^ 32" using layout_bounds ok hi by fastforce+
      then have "(of_nat x :: u32) \<noteq> ?q" "(of_nat x :: u32) \<noteq> ?p"
        using sz of_nat_u32_eq[OF x(2) lt(2)] of_nat_u32_eq[OF x(2) lt(1)] by simp_all
      then show "hdrs st' (of_nat x) = ((hdrs st)(of_nat (a + 24 + b_size b) \<mapsto>
        (let h = hn\<lparr>hh_prev := ?q\<rparr> in h\<lparr>hh_header_guard := heap_header_guard ?c h\<rparr>))) (of_nat x)"
        using x nx False nxs keep[OF x(2)] by (simp only: H if_False fun_upd_apply) auto
    qed
  qed simp
  have E: "a + 24 + sz + 24 + b_size ?r = a + 24 + b_size b" using sz by (simp add: rest_blk_def)
  show ?B using newq tail by (simp only: layout.simps stored_simps E nx simp_thms)
  show "hdrs st' (of_nat x) = hdrs st (of_nat x)" if x: "x + 24 \<le> a \<or> a + 24 + b_size b + 24 \<le> x" "x < 2 ^ 32"
  proof -
    have "(of_nat x :: u32) \<noteq> ?q" "(of_nat x :: u32) \<noteq> ?p" "(of_nat x :: u32) \<noteq> ?c"
      using x sz of_nat_u32_eq[OF x(2) lt(2)] of_nat_u32_eq[OF x(2) lt(1)] of_nat_u32_eq[OF x(2) lt(3)] by auto
    then show ?thesis using x nx keep[OF x(2)] by (auto simp: H)
  qed
  show ?D if d: ?D1 ?D2
  proof -
    have mhn: "hdrs st nx = Some hn" if "nx \<noteq> 0" using hn that .
    show ?thesis
      using d h mhn by (auto simp: H Let_def mk_hdr_def split: if_splits dest: clobber_Some)
  qed
qed

section \<open>Allocation on the representation\<close>

lemma used_simps [simp]:
  "used_bytes [] = 0" "used_bytes (b # bs) = (if b_used b then b_size b + 24 else 0) + used_bytes bs"
  "used_bytes (xs @ ys) = used_bytes xs + used_bytes ys"
  "used_count [] = 0" "used_count (b # bs) = (if b_used b then 1 else 0) + used_count bs"
  "used_count (xs @ ys) = used_count xs + used_count ys"
  by (simp_all add: used_bytes_def used_count_def)

lemma stored_split_at:
  "stored H (layout 0 beg (xs @ b # ys) 0) \<longleftrightarrow>
   stored H (layout 0 beg xs (of_nat (beg + span xs))) \<and>
   H (of_nat (beg + span xs)) = Some (mk_hdr (lastp 0 beg xs) (beg + span xs) b
      (if ys = [] then 0 else of_nat (beg + span xs + 24 + b_size b))) \<and>
   stored H (layout (of_nat (beg + span xs)) (beg + span xs + 24 + b_size b) ys 0)"
  unfolding layout_append by (simp del: of_nat_add)

lemma canaries_append: "canaries m (A @ B) \<longleftrightarrow> canaries m A \<and> canaries m B"
  by (auto simp: canaries_def)

lemma canaries_cong:
  assumes "canaries m (addrs a bs)" "\<forall>b\<in>set bs. blk_ok b"
    and "\<And>x. a \<le> x \<Longrightarrow> x < a + span bs \<Longrightarrow> m' (of_nat x) = m (of_nat x)"
  shows "canaries m' (addrs a bs)"
  unfolding canaries_def
proof (intro ballI, clarify)
  fix x b i assume xb: "(x, b) \<in> set (addrs a bs)" and u: "b_used b" and i: "i < (4::nat)"
  have "b \<in> set bs" using xb by (induction bs arbitrary: a) auto
  then have ok: "b_req b + 4 \<le> b_size b" using assms(2) u by (auto simp: blk_ok_def)
  have "m (of_nat (x + 24 + b_req b + i)) = u32_bytes (HEAP_CANARY XOR of_nat x) ! i"
    using assms(1) xb u i unfolding canaries_def by fastforce
  moreover have "m' (of_nat (x + 24 + b_req b + i)) = m (of_nat (x + 24 + b_req b + i))"
    using addrs_bounds[OF xb] ok i by (intro assms(3)) auto
  ultimately show "m' (of_nat (x + 24 + b_req b + i)) = u32_bytes (HEAP_CANARY XOR of_nat x) ! i" by simp
qed

text \<open>A state whose block list is right except that the chosen block is still marked free and its
  guard may be stale: what \<open>heap_take\<close> is called on.\<close>

definition take_ready :: "heap_state \<Rightarrow> hblk list \<Rightarrow> hblk \<Rightarrow> hblk list \<Rightarrow> u32 \<Rightarrow> bool" where
  "take_ready st xs b ys g \<longleftrightarrow> (let beg = unat (heap_begin st); a = beg + span xs in
     heap_initialized st \<and> heap_first st = heap_begin st \<and> 0 < beg \<and> beg mod 8 = 0 \<and>
     beg + span (xs @ b # ys) = unat (heap_end st) \<and> heap_total st = of_nat (span (xs @ b # ys)) \<and>
     \<not> b_used b \<and> (\<forall>b\<in>set (xs @ b # ys). blk_ok b) \<and> no_adjacent_free xs \<and> no_adjacent_free ys \<and>
     stored (hdrs st) (layout 0 beg xs (of_nat a)) \<and>
     hdrs st (of_nat a) = Some ((mk_hdr (lastp 0 beg xs) a b
        (if ys = [] then 0 else of_nat (a + 24 + b_size b)))\<lparr>hh_header_guard := g\<rparr>) \<and>
     stored (hdrs st) (layout (of_nat a) (a + 24 + b_size b) ys 0) \<and>
     canaries (hmem st) (addrs beg xs) \<and> canaries (hmem st) (addrs (a + 24 + b_size b) ys) \<and>
     used_live (hdrs st) (addrs beg (xs @ b # ys)) \<and>
     heap_current_used st = of_nat (used_bytes (xs @ ys)) \<and>
     heap_alloc_count st - heap_free_count st = of_nat (used_count (xs @ ys)))"

lemma take_rep:
  assumes rdy: "take_ready st xs b ys g" and r: "0 < r" "r + 4 \<le> b_size b"
  shows "heap_rep (heap_take (of_nat (unat (heap_begin st) + span xs)) (of_nat r) st)
           (xs @ b\<lparr>b_used := True, b_req := r\<rparr> # ys)"
proof -
  let ?beg = "unat (heap_begin st)" and ?a = "unat (heap_begin st) + span xs"
  let ?p = "of_nat ?a :: u32" and ?b = "b\<lparr>b_used := True, b_req := r\<rparr>"
  let ?st = "heap_take ?p (of_nat r) st"
  let ?nx = "if ys = [] then 0 else of_nat (?a + 24 + b_size b) :: u32"
  have rd: "?beg + span (xs @ b # ys) = unat (heap_end st)" "\<forall>b\<in>set (xs @ b # ys). blk_ok b"
    "stored (hdrs st) (layout 0 ?beg xs ?p)"
    "hdrs st ?p = Some ((mk_hdr (lastp 0 ?beg xs) ?a b ?nx)\<lparr>hh_header_guard := g\<rparr>)"
    "stored (hdrs st) (layout ?p (?a + 24 + b_size b) ys 0)"
    "canaries (hmem st) (addrs ?beg xs)" "canaries (hmem st) (addrs (?a + 24 + b_size b) ys)"
    "used_live (hdrs st) (addrs ?beg (xs @ b # ys))" "\<not> b_used b"
    "no_adjacent_free xs" "no_adjacent_free ys"
    "heap_current_used st = of_nat (used_bytes (xs @ ys))"
    "heap_alloc_count st - heap_free_count st = of_nat (used_count (xs @ ys))"
    using rdy by (simp_all add: take_ready_def Let_def del: of_nat_add span_append)
  have e: "unat (heap_end st) < 2 ^ 32" by (rule u32_less)
  have hi: "?a + 24 + b_size b < 2 ^ 32" "?a + 24 + b_size b + span ys < 2 ^ 32" "?a < 2 ^ 32"
    using rd(1) e by simp_all
  note mem = heap_take_memory[OF rd(4) r(2) hi(1)]
  have hd: "hdrs ?st (of_nat x) = hdrs st (of_nat x)" if "x < 2 ^ 32" "x < ?a \<or> ?a + 24 + b_size b \<le> x" for x
  proof -
    have "(of_nat x :: u32) \<noteq> ?p" using of_nat_u32_eq[OF that(1) hi(3)] that(2) by auto
    moreover have c: "clobber (?a + 24 + r) 4 H (of_nat x) = H (of_nat x)" "clobber (?a + 24) r H (of_nat x) = H (of_nat x)" for H
      using that r(2) by (auto intro!: clobber_outside)
    ultimately show ?thesis by (simp add: mem(1) c del: of_nat_add)
  qed
  have hp: "hdrs ?st ?p = Some (mk_hdr (lastp 0 ?beg xs) ?a ?b ?nx)"
  proof -
    have c: "clobber (?a + 24 + r) 4 H ?p = H ?p" "clobber (?a + 24) r H ?p = H ?p" for H
      using hi(3) by (auto intro!: clobber_outside simp del: of_nat_add)
    show ?thesis by (simp add: mem(1) c del: of_nat_add)
  qed
  have bsz: "b_size ?b = b_size b" by simp
  have st: "stored (hdrs ?st) (layout 0 ?beg (xs @ ?b # ys) 0)"
    unfolding stored_split_at
  proof (intro conjI)
    show "stored (hdrs ?st) (layout 0 ?beg xs (of_nat (?beg + span xs)))"
    proof (rule stored_cong[OF rd(3)])
      fix x h assume "(x, h) \<in> set (layout 0 ?beg xs ?p)"
      then have "x + 32 \<le> ?a" using layout_bounds rd(2) by fastforce
      then show "hdrs ?st (of_nat x) = hdrs st (of_nat x)" using hi by (intro hd) auto
    qed
    show "stored (hdrs ?st) (layout (of_nat (?beg + span xs)) (?beg + span xs + 24 + b_size ?b) ys 0)"
      unfolding bsz
    proof (rule stored_cong[OF rd(5)])
      fix x h assume "(x, h) \<in> set (layout ?p (?a + 24 + b_size b) ys 0)"
      then have "?a + 24 + b_size b \<le> x" "x + 32 \<le> ?a + 24 + b_size b + span ys"
        using layout_bounds rd(2) by fastforce+
      then show "hdrs ?st (of_nat x) = hdrs st (of_nat x)" using hi by (intro hd) auto
    qed
  qed (use hp in simp)
  have m: "hmem ?st (of_nat x) = hmem st (of_nat x)" if "x < 2 ^ 32" "x < ?a + 24 \<or> ?a + 24 + b_size b \<le> x" for x
    using that r(2) by (auto simp: mem(2) u32_of_nat simp del: of_nat_add)
  have cb: "hmem ?st (of_nat (?a + 24 + r + i)) = u32_bytes (HEAP_CANARY XOR ?p) ! i" if "i < 4" for i
  proof -
    have "unat (of_nat (?a + 24 + r + i) :: u32) = ?a + 24 + r + i"
      using that r(2) hi(1) by (intro u32_of_nat) linarith
    then show ?thesis using that by (simp add: mem(2) del: of_nat_add)
  qed
  have can: "canaries (hmem ?st) (addrs ?beg (xs @ ?b # ys))"
  proof -
    have "canaries (hmem ?st) (addrs ?beg xs)"
      using rd(2) hi by (intro canaries_cong[OF rd(6)] m) auto
    moreover have "canaries (hmem ?st) (addrs (?a + 24 + b_size b) ys)"
      using rd(2) hi by (intro canaries_cong[OF rd(7)] m) auto
    moreover have "canaries (hmem ?st) [(?a, ?b)]" using cb by (simp add: canaries_def del: of_nat_add)
    ultimately show ?thesis by (auto simp: addrs_append canaries_def simp del: of_nat_add)
  qed
  have live: "used_live (hdrs ?st) (addrs ?beg (xs @ ?b # ys))"
    unfolding used_live_def
  proof (intro allI impI)
    fix k h assume k: "hdrs ?st k = Some h" "hh_magic h = HEAP_MAGIC_USED"
    show "\<exists>(x, b')\<in>set (addrs ?beg (xs @ ?b # ys)). k = of_nat x \<and> b_used b'"
    proof (cases "k = ?p")
      case True
      then show ?thesis by (auto simp: addrs_append simp del: of_nat_add)
    next
      case False
      then have "hdrs st k = Some h" using k(1) by (auto simp: mem(1) dest!: clobber_Some simp del: of_nat_add)
      then obtain x b' where "(x, b') \<in> set (addrs ?beg (xs @ b # ys))" "k = of_nat x" "b_used b'"
        using rd(8) k(2) unfolding used_live_def by fastforce
      then have "(x, b') \<in> set (addrs ?beg (xs @ ?b # ys))" using rd(9) by (auto simp: addrs_append)
      with \<open>k = of_nat x\<close> \<open>b_used b'\<close> show ?thesis by fastforce
    qed
  qed
  have adj: "no_adjacent_free (xs @ ?b # ys)"
    using rd(10,11) by (cases ys) (auto simp: no_adjacent_free_append)
  have ok: "\<forall>b\<in>set (xs @ ?b # ys). blk_ok b" using rd(2) r by (auto simp: blk_ok_def)
  have cnt: "heap_current_used ?st = of_nat (used_bytes (xs @ ?b # ys))"
    "heap_alloc_count ?st - heap_free_count ?st = of_nat (used_count (xs @ ?b # ys))"
    unfolding mem(3,4) heap_take_fields using rd(12,13) by (simp_all add: algebra_simps)
  show ?thesis
    unfolding heap_rep_def
    using rdy st can live adj ok cnt
    by (simp add: take_ready_def Let_def del: of_nat_add)
qed

lemma and_not_7: "(w AND NOT 7 :: u32) = w div 8 * 8"
proof -
  have "w AND NOT (mask 3) = push_bit 3 (drop_bit 3 w)"
  proof (rule bit_word_eqI)
    fix n assume "n < LENGTH(32)"
    have "3 \<le> n \<Longrightarrow> Suc (Suc (Suc (n - 3))) = n" by simp
    then show "bit (w AND NOT (mask 3)) n = bit (push_bit 3 (drop_bit 3 w)) n"
      using \<open>n < LENGTH(32)\<close> by (auto simp: bit_simps)
  qed
  moreover have "(7 :: u32) = mask 3" by (simp add: mask_eq_exp_minus_1)
  ultimately show ?thesis by (simp add: push_bit_eq_mult drop_bit_eq_div)
qed

definition round_size :: "nat \<Rightarrow> nat" where
  "round_size r = (r + 11) div 8 * 8"

lemma round_size_props: "0 < r \<Longrightarrow> r + 4 \<le> round_size r \<and> round_size r mod 8 = 0 \<and> 8 \<le> round_size r"
  unfolding round_size_def by auto

lemma heap_round_size_nat:
  assumes "unat w + 11 < 2 ^ 32"
  shows "unat (heap_round_size w) = round_size (unat w)" "round_size (unat w) < 2 ^ 32"
    "heap_round_size w = of_nat (round_size (unat w))"
proof -
  have "heap_round_size w = (w + 11) div 8 * 8"
    using and_not_7[of "w + 11"] by (simp add: heap_round_size_def add.commute)
  moreover have "unat (w + 11) = unat w + 11" using assms by (simp add: unat_word_ariths)
  moreover show lt: "round_size (unat w) < 2 ^ 32" using assms by (simp add: round_size_def)
  ultimately show "unat (heap_round_size w) = round_size (unat w)"
    by (simp add: unat_word_ariths unat_div round_size_def)
  then show "heap_round_size w = of_nat (round_size (unat w))" by (rule u32_of_unat)
qed

text \<open>Which blocks an allocation of \<open>r\<close> bytes out of the free block \<open>b\<close> leaves.\<close>

definition taken :: "hblk \<Rightarrow> nat \<Rightarrow> hblk" where
  "taken b r = \<lparr>b_size = (if b_size b - round_size r > 32 then round_size r else b_size b),
                b_used = True, b_req = r\<rparr>"

definition remainder :: "hblk \<Rightarrow> nat \<Rightarrow> hblk list" where
  "remainder b r = (if b_size b - round_size r > 32 then [rest_blk (b_size b) (round_size r)] else [])"

lemma addrs_nth_split:
  "(x, b) \<in> set (addrs a bs) \<Longrightarrow> \<exists>xs ys. bs = xs @ b # ys \<and> x = a + span xs"
proof (induction bs arbitrary: a)
  case (Cons c bs)
  show ?case
  proof (cases "(x, b) = (a, c)")
    case True
    then show ?thesis by (intro exI[of _ "[]"] exI[of _ bs]) simp
  next
    case False
    then have "(x, b) \<in> set (addrs (a + 24 + b_size c) bs)" using Cons.prems by auto
    from Cons.IH[OF this] obtain xs ys where "bs = xs @ b # ys" "x = a + 24 + b_size c + span xs" by blast
    then show ?thesis by (intro exI[of _ "c # xs"] exI[of _ ys]) simp
  qed
qed simp

lemma heap_rep_bounds:
  "heap_rep st (xs @ b # ys) \<Longrightarrow> 0 < unat (heap_begin st) \<and>
   unat (heap_begin st) + span xs + 24 + b_size b + span ys = unat (heap_end st) \<and>
   unat (heap_begin st) + span xs + 24 + b_size b + span ys < 2 ^ 32"
  using u32_less[of "heap_end st"] by (simp add: heap_rep_def)

lemma ready_nosplit:
  assumes rep: "heap_rep st (xs @ b # ys)" and free: "\<not> b_used b"
  shows "take_ready st xs b ys (hh_header_guard (mk_hdr (lastp 0 (unat (heap_begin st)) xs)
     (unat (heap_begin st) + span xs) b (if ys = [] then 0 else of_nat (unat (heap_begin st) + span xs + 24 + b_size b))))"
proof -
  let ?beg = "unat (heap_begin st)"
  have adj: "no_adjacent_free xs" "no_adjacent_free ys"
    using rep by (cases ys; auto simp: heap_rep_def no_adjacent_free_append)+
  have can: "canaries (hmem st) (addrs ?beg xs)" "canaries (hmem st) (addrs (?beg + span xs + 24 + b_size b) ys)"
    using rep by (auto simp: heap_rep_def addrs_append canaries_def)
  have st: "stored (hdrs st) (layout 0 ?beg (xs @ b # ys) 0)" using rep by (simp add: heap_rep_def)
  show ?thesis
    using rep free adj can st unfolding stored_split_at
    by (simp add: take_ready_def heap_rep_def Let_def del: of_nat_add)
qed

lemma ready_split:
  assumes rep: "heap_rep st (xs @ b # ys)" and free: "\<not> b_used b"
    and n: "n + 32 < b_size b" "n mod 8 = 0" "8 \<le> n"
    and st': "st' = heap_split (of_nat (unat (heap_begin st) + span xs)) (of_nat n) (of_nat (b_size b - n)) st"
  shows "take_ready st' xs (b\<lparr>b_size := n\<rparr>) (rest_blk (b_size b) n # ys)
    (hh_header_guard (mk_hdr (lastp 0 (unat (heap_begin st)) xs)
     (unat (heap_begin st) + span xs) b (if ys = [] then 0 else of_nat (unat (heap_begin st) + span xs + 24 + b_size b))))"
proof -
  let ?beg = "unat (heap_begin st)" and ?a = "unat (heap_begin st) + span xs" and ?r = "rest_blk (b_size b) n"
  let ?nx = "if ys = [] then 0 else of_nat (?a + 24 + b_size b) :: u32"
  note bd = heap_rep_bounds[OF rep]
  have R: "\<forall>b\<in>set (xs @ b # ys). blk_ok b" "no_adjacent_free (xs @ b # ys)"
    "canaries (hmem st) (addrs ?beg (xs @ b # ys))" "used_live (hdrs st) (addrs ?beg (xs @ b # ys))"
    using rep by (simp_all add: heap_rep_def)
  have st: "stored (hdrs st) (layout 0 ?beg xs (of_nat ?a))"
    "hdrs st (of_nat ?a) = Some (mk_hdr (lastp 0 ?beg xs) ?a b ?nx)"
    "stored (hdrs st) (layout (of_nat ?a) (?a + 24 + b_size b) ys 0)"
    using rep by (auto simp: heap_rep_def stored_split_at simp del: of_nat_add)
  have okys: "\<forall>y\<in>set ys. blk_ok y" using R(1) by simp
  have lt: "?a + 24 + b_size b + span ys < 2 ^ 32" "0 < ?a" using bd by simp_all
  note sp = heap_split_stored[OF st(2) refl st(3) okys lt(1) n(1) lt(2) st']
  have L1: "stored (hdrs st') (layout 0 ?beg xs (of_nat ?a))"
  proof (rule stored_cong[OF st(1)])
    fix x h assume "(x, h) \<in> set (layout 0 ?beg xs (of_nat ?a))"
    then have "x + 32 \<le> ?a" using layout_bounds R(1) by fastforce
    then show "hdrs st' (of_nat x) = hdrs st (of_nat x)" using lt by (intro sp(3)) auto
  qed
  have rs: "blk_ok ?r" "\<not> b_used ?r" "24 + b_size ?r + n = b_size b"
    using R(1) n by (auto simp: blk_ok_def rest_blk_def mod_simps)
  have bn: "blk_ok (b\<lparr>b_size := n\<rparr>)" using R(1) n free by (auto simp: blk_ok_def)
  have adj: "no_adjacent_free xs" "no_adjacent_free (?r # ys)"
    using R(2) free rs(2) by (cases ys; auto simp: no_adjacent_free_append)+
  have sz: "span (xs @ b\<lparr>b_size := n\<rparr> # ?r # ys) = span (xs @ b # ys)" using rs(3) by simp
  have end': "?a + 24 + n + 24 + b_size ?r = ?a + 24 + b_size b" using rs(3) by simp
  have rest: "addrs (?a + 24 + n) (?r # ys) = (?a + 24 + n, ?r) # addrs (?a + 24 + b_size b) ys"
    by (simp only: addrs.simps end')
  have split: "addrs ?beg (xs @ b\<lparr>b_size := n\<rparr> # ?r # ys) =
      addrs ?beg xs @ (?a, b\<lparr>b_size := n\<rparr>) # (?a + 24 + n, ?r) # addrs (?a + 24 + b_size b) ys"
    unfolding addrs_append using rest by simp
  from rest have can: "canaries (hmem st') (addrs ?beg xs)" "canaries (hmem st') (addrs (?a + 24 + n) (?r # ys))"
    using R(3) rs(2) by (auto simp: st' addrs_append canaries_def simp del: of_nat_add addrs.simps)
      (auto simp: st' simp del: of_nat_add)
  have live: "used_live (hdrs st') (addrs ?beg (xs @ b\<lparr>b_size := n\<rparr> # ?r # ys))"
    unfolding used_live_def
  proof (intro allI impI)
    fix k h assume "hdrs st' k = Some h" "hh_magic h = HEAP_MAGIC_USED"
    from sp(4)[OF this] obtain x b' where "(x, b') \<in> set (addrs ?beg (xs @ b # ys))" "k = of_nat x" "b_used b'"
      using R(4) unfolding used_live_def by fastforce
    moreover from this have "(x, b') \<in> set (addrs ?beg (xs @ b\<lparr>b_size := n\<rparr> # ?r # ys))"
      unfolding split using free by (auto simp: addrs_append)
    ultimately show "\<exists>(x, b')\<in>set (addrs ?beg (xs @ b\<lparr>b_size := n\<rparr> # ?r # ys)). k = of_nat x \<and> b_used b'" by fastforce
  qed
  have flds: "heap_begin st' = heap_begin st" "heap_end st' = heap_end st" "heap_first st' = heap_first st"
    "heap_total st' = heap_total st" "heap_initialized st' = heap_initialized st"
    "heap_current_used st' = heap_current_used st" "heap_alloc_count st' = heap_alloc_count st"
    "heap_free_count st' = heap_free_count st" by (simp_all add: st')
  have cnt: "heap_current_used st = of_nat (used_bytes (xs @ ys))"
    "heap_alloc_count st - heap_free_count st = of_nat (used_count (xs @ ys))"
    "heap_initialized st" "heap_first st = heap_begin st" "0 < ?beg" "?beg mod 8 = 0"
    "?beg + span (xs @ b # ys) = unat (heap_end st)" "heap_total st = of_nat (span (xs @ b # ys))"
    using rep free by (simp_all add: heap_rep_def)
  have cu: "used_bytes (xs @ ?r # ys) = used_bytes (xs @ ys)" "used_count (xs @ ?r # ys) = used_count (xs @ ys)"
    using rs(2) by simp_all
  have ok: "\<forall>y\<in>set (xs @ b\<lparr>b_size := n\<rparr> # ?r # ys). blk_ok y" using R(1) bn rs(1) by simp
  have bs: "b_size (b\<lparr>b_size := n\<rparr>) = n" "\<not> b_used (b\<lparr>b_size := n\<rparr>)" "(?r # ys = []) = False" using free by simp_all
  show ?thesis
    unfolding take_ready_def Let_def flds sz bs cu if_False
    using sp(1,2) L1 cnt can live adj ok bs(2)
    by (intro conjI) assumption+
qed

lemma heap_rep_counters:
  "heap_rep (heap_fail st) bs = heap_rep st bs" "heap_rep (heap_corrupt st) bs = heap_rep st bs"
  by (simp_all add: heap_rep_def heap_fail_def heap_corrupt_def)

text \<open>The best-fit search never reports a block that is too small, and finds one when there is one.\<close>

lemma heap_search_rep:
  assumes rep: "heap_rep st bs" and sz: "0 < unat sz"
  shows "(heap_search st sz (heap_first st) 0 0xFFFFFFFF = Some (Some (0, 0xFFFFFFFF)) \<and>
      (\<forall>b\<in>set bs. b_used b \<or> b_size b < unat sz)) \<or>
    (\<exists>xs b ys. bs = xs @ b # ys \<and> \<not> b_used b \<and> unat sz \<le> b_size b \<and>
      heap_search st sz (heap_first st) 0 0xFFFFFFFF =
        Some (Some (of_nat (unat (heap_begin st) + span xs), of_nat (b_size b - unat sz))) \<and>
      (\<forall>c\<in>set bs. \<not> b_used c \<and> unat sz \<le> b_size c \<longrightarrow> b_size b \<le> b_size c))"
proof -
  let ?beg = "unat (heap_begin st)" and ?A = "addrs (unat (heap_begin st)) bs"
  have R: "bs \<noteq> []" "heap_first st = heap_begin st" "0 < ?beg" "?beg + span bs = unat (heap_end st)"
    "\<forall>b\<in>set bs. blk_ok b" "stored (hdrs st) (layout 0 ?beg bs 0)"
    using rep by (simp_all add: heap_rep_def)
  obtain best rem where bf: "best_fit (unat sz) ?A (0, 0xFFFFFFFF) = (best, rem)"
    by (cases "best_fit (unat sz) ?A (0, 0xFFFFFFFF)")
  have s: "heap_search st sz (heap_first st) 0 0xFFFFFFFF = Some (Some (of_nat best, of_nat rem))"
    using heap_search_best_fit[OF R(6,5) _ R(4,3) _ bf] R(1,2) by simp
  have small: "b_size b - unat sz < 0xFFFFFFFF" if b: "b \<in> set bs" for b
  proof -
    obtain xs ys where "bs = xs @ b # ys" using split_list[OF b] by blast
    then have "b_size b + 24 \<le> unat (heap_end st)" using R(4) by simp
    then show ?thesis using u32_less[of "heap_end st"] by simp
  qed
  have inA: "\<exists>x. (x, b) \<in> set ?A" if "b \<in> set bs" for b
  proof -
    have "b \<in> set bs' \<Longrightarrow> \<exists>x. (x, b) \<in> set (addrs a bs')" for a bs'
      by (induction bs' arbitrary: a) auto
    then show ?thesis using that by blast
  qed
  have Ain: "b \<in> set bs" if "(x, b) \<in> set ?A" for x b using addrs_nth_split[OF that] by auto
  note mn = best_fit_minimal[OF bf]
  from best_fit_result[OF bf] show ?thesis
  proof
    assume e: "(best, rem) = (0, 0xFFFFFFFF)"
    have "b_used b \<or> b_size b < unat sz" if b: "b \<in> set bs" for b
    proof (rule ccontr)
      assume "\<not> ?thesis"
      then have f: "\<not> b_used b" "unat sz \<le> b_size b" by auto
      obtain x where "(x, b) \<in> set ?A" using inA[OF b] by blast
      then have "rem \<le> b_size b - unat sz" using mn f by fastforce
      then show False using small[OF b] e by simp
    qed
    then show ?thesis using s e by auto
  next
    assume "\<exists>b. (best, b) \<in> set ?A \<and> \<not> b_used b \<and> unat sz \<le> b_size b \<and> rem = b_size b - unat sz"
    then obtain b where b: "(best, b) \<in> set ?A" "\<not> b_used b" "unat sz \<le> b_size b" "rem = b_size b - unat sz" by blast
    obtain xs ys where x: "bs = xs @ b # ys" "best = ?beg + span xs" using addrs_nth_split[OF b(1)] by blast
    have "b_size b \<le> b_size c" if c: "c \<in> set bs" "\<not> b_used c" "unat sz \<le> b_size c" for c
    proof -
      obtain x where "(x, c) \<in> set ?A" using inA[OF c(1)] by blast
      then have "rem \<le> b_size c - unat sz" using mn c by fastforce
      then show ?thesis using b(3,4) c(3) by simp
    qed
    then show ?thesis using s x b by blast
  qed
qed

end
