(* ===== verification/Kheap_Alloc.thy ===== *)
theory Kheap_Alloc
  imports Kheap_Inv
begin

lemma remainder_taken_bytes: "\<not> b_used b \<Longrightarrow> round_size r \<le> b_size b \<Longrightarrow>
   b_size (taken b r) + span (remainder b r) = b_size b"
  by (simp add: taken_def remainder_def rest_blk_def)

definition alloc_refused :: "bool \<Rightarrow> nat \<Rightarrow> bool \<Rightarrow> heap_state \<Rightarrow> bool" where
  "alloc_refused in_isr r kern st \<longleftrightarrow> in_isr \<or> (r > 1024 \<and> \<not> kern) \<or> r > 2 ^ 32 - 12 \<or>
     (heap_runtime_locked st \<and> \<not> kern)"

definition asked :: "u32 \<Rightarrow> nat" where
  "asked size0 = (if size0 = 0 then 1 else unat size0)"

lemma asked_pos: "0 < asked size0"
  by (auto simp: asked_def unat_gt_0)

lemma heap_allocate_unfold:
  assumes init: "heap_initialized st" and w: "unat w = asked size0"
  shows "heap_allocate in_isr size0 kern st =
    (if in_isr \<or> (asked size0 > 1024 \<and> \<not> kern) \<or> asked size0 > 2 ^ 32 - 12 then Some (0, st)
     else if heap_runtime_locked st \<and> \<not> kern then Some (0, heap_fail st)
     else case heap_search st (heap_round_size w) (heap_first st) 0 0xFFFFFFFF of
             None \<Rightarrow> None
           | Some None \<Rightarrow> Some (0, heap_corrupt st)
           | Some (Some (best, best_remain)) \<Rightarrow>
               if best = 0 then Some (0, heap_fail st)
               else let st = (if best_remain > HEAP_HEADER_SIZE + HEAP_ALIGN
                              then heap_split best (heap_round_size w) best_remain st else st)
                    in Some (best + HEAP_HEADER_SIZE, heap_take best w st))"
proof -
  have ww: "w = (if size0 = 0 then 1 else size0)"
    using w by (simp add: asked_def word_unat_eq_iff split: if_splits)
  have ge: "w > of_nat AIXOS_CFG_MAX_IPC_COPY_BYTES \<longleftrightarrow> asked size0 > 1024"
    by (simp add: word_less_nat_alt w)
  have big: "w > UINT32_MAX - HEAP_CANARY_SIZE - (HEAP_ALIGN - 1) \<longleftrightarrow> asked size0 > 2 ^ 32 - 12"
    by (simp add: word_less_nat_alt w)
  show ?thesis
    unfolding heap_allocate_def Let_def ww[symmetric] ge big using init
    by (cases in_isr; cases "asked size0 > 1024 \<and> \<not> kern") simp_all
qed

lemma heap_allocate_refused:
  assumes rep: "heap_rep st bs" and ref: "alloc_refused in_isr (asked size0) kern st"
  shows "heap_allocate in_isr size0 kern st = Some (0, st) \<or> heap_allocate in_isr size0 kern st = Some (0, heap_fail st)"
proof -
  have init: "heap_initialized st" using rep by (simp add: heap_rep_def)
  have "unat (if size0 = 0 then 1 else size0) = asked size0" by (simp add: asked_def)
  note unf = heap_allocate_unfold[OF init this]
  show ?thesis unfolding unf using ref unfolding alloc_refused_def by presburger
qed

text \<open>The state just before the block is marked used, and the state after.\<close>

lemma heap_allocate_found:
  assumes rep: "heap_rep st (xs @ b # ys)" and fr: "\<not> b_used b" and fit: "round_size r \<le> b_size b" and r0: "0 < r"
    and st1: "st1 = (if b_size b - round_size r > 32
        then heap_split (of_nat (unat (heap_begin st) + span xs)) (of_nat (round_size r)) (of_nat (b_size b - round_size r)) st else st)"
  shows "heap_rep (heap_take (of_nat (unat (heap_begin st) + span xs)) (of_nat r) st1) (xs @ taken b r # remainder b r @ ys)"
    and "x < 2 ^ 32 \<Longrightarrow> x < unat (heap_begin st) + span xs + 24 \<or> unat (heap_begin st) + span xs + 24 + b_size b \<le> x \<Longrightarrow>
      hmem (heap_take (of_nat (unat (heap_begin st) + span xs)) (of_nat r) st1) (of_nat x) = hmem st (of_nat x)"
proof -
  have "\<exists>b' ys' g. take_ready st1 xs b' ys' g \<and> r + 4 \<le> b_size b' \<and> b_size b' \<le> b_size b \<and>
    xs @ b'\<lparr>b_used := True, b_req := r\<rparr> # ys' = xs @ taken b r # remainder b r @ ys"
  proof (cases "b_size b - round_size r > 32")
    case True
    note rp = round_size_props[OF r0]
    have n: "round_size r + 32 < b_size b" "round_size r mod 8 = 0" "8 \<le> round_size r" using True rp by auto
    have "st1 = heap_split (of_nat (unat (heap_begin st) + span xs)) (of_nat (round_size r)) (of_nat (b_size b - round_size r)) st"
      using st1 True by (simp only: if_True)
    note rdy = ready_split[OF rep fr n this]
    show ?thesis
      by (rule exI, rule exI, rule exI, rule conjI, rule rdy) (use True rp in \<open>simp add: taken_def remainder_def\<close>)
  next
    case False
    note rp = round_size_props[OF r0]
    have "st1 = st" using False by (simp add: st1)
    then have rdy: "take_ready st1 xs b ys (hh_header_guard (mk_hdr (lastp 0 (unat (heap_begin st)) xs)
     (unat (heap_begin st) + span xs) b (if ys = [] then 0 else of_nat (unat (heap_begin st) + span xs + 24 + b_size b))))"
      using ready_nosplit[OF rep fr] by simp
    show ?thesis
      by (rule exI, rule exI, rule exI, rule conjI, rule rdy) (use False rp fit in \<open>simp add: taken_def remainder_def\<close>)
  qed
  then obtain b' ys' g where rdy: "take_ready st1 xs b' ys' g" and r4: "r + 4 \<le> b_size b'" "b_size b' \<le> b_size b"
    and bs: "xs @ b'\<lparr>b_used := True, b_req := r\<rparr> # ys' = xs @ taken b r # remainder b r @ ys" by blast
  have beg: "heap_begin st1 = heap_begin st" "hmem st1 = hmem st" by (simp_all add: st1)
  show "heap_rep (heap_take (of_nat (unat (heap_begin st) + span xs)) (of_nat r) st1) (xs @ taken b r # remainder b r @ ys)"
    using take_rep[OF rdy r0 r4(1)] unfolding bs beg .
  have h: "hdrs st1 (of_nat (unat (heap_begin st) + span xs)) = Some ((mk_hdr (lastp 0 (unat (heap_begin st)) xs)
      (unat (heap_begin st) + span xs) b' (if ys' = [] then 0 else of_nat (unat (heap_begin st) + span xs + 24 + b_size b')))\<lparr>hh_header_guard := g\<rparr>)"
    using rdy unfolding take_ready_def Let_def beg by blast
  have hi: "unat (heap_begin st) + span xs + 24 + b_size b' < 2 ^ 32" using heap_rep_bounds[OF rep] r4(2) by simp
  show "hmem (heap_take (of_nat (unat (heap_begin st) + span xs)) (of_nat r) st1) (of_nat x) = hmem st (of_nat x)"
    if x: "x < 2 ^ 32" "x < unat (heap_begin st) + span xs + 24 \<or> unat (heap_begin st) + span xs + 24 + b_size b \<le> x"
    using x r4 by (auto simp: heap_take_memory(2)[OF h r4(1) hi] u32_of_nat beg simp del: of_nat_add)
qed

lemma heap_allocate_rep:
  fixes size0 :: u32
  assumes rep: "heap_rep st bs"
  shows "(\<exists>st'. heap_allocate in_isr size0 kern st = Some (0, st') \<and> st' \<in> {st, heap_fail st} \<and>
       (alloc_refused in_isr (asked size0) kern st \<or>
        (\<forall>b\<in>set bs. b_used b \<or> b_size b < round_size (asked size0)))) \<or>
    (\<exists>xs b ys st'. bs = xs @ b # ys \<and> \<not> b_used b \<and> round_size (asked size0) \<le> b_size b \<and>
       \<not> alloc_refused in_isr (asked size0) kern st \<and>
       (\<forall>c\<in>set bs. \<not> b_used c \<and> round_size (asked size0) \<le> b_size c \<longrightarrow> b_size b \<le> b_size c) \<and>
       heap_allocate in_isr size0 kern st = Some (of_nat (unat (heap_begin st) + span xs) + 24, st') \<and>
       heap_begin st' = heap_begin st \<and> heap_end st' = heap_end st \<and>
       heap_runtime_locked st' = heap_runtime_locked st \<and>
       (\<forall>x. x < 2 ^ 32 \<and> (x < unat (heap_begin st) + span xs + 24 \<or> unat (heap_begin st) + span xs + 24 + b_size b \<le> x) \<longrightarrow>
          hmem st' (of_nat x) = hmem st (of_nat x)) \<and>
       heap_rep st' (xs @ taken b (asked size0) # remainder b (asked size0) @ ys))"
proof (cases "alloc_refused in_isr (asked size0) kern st")
  case True
  then show ?thesis using heap_allocate_refused[OF rep True] by auto
next
  case False
  define r where "r = asked size0"
  define w where "w = (of_nat r :: u32)"
  have init: "heap_initialized st" using rep by (simp add: heap_rep_def)
  have fl: "\<not> in_isr" "\<not> (r > 1024 \<and> \<not> kern)" "\<not> r > 2 ^ 32 - 12" "\<not> (heap_runtime_locked st \<and> \<not> kern)"
    using False unfolding alloc_refused_def r_def by blast+
  have r0: "0 < r" unfolding r_def by (rule asked_pos)
  have w: "unat w = r" unfolding w_def using fl(3) by (intro u32_of_nat) simp
  have r11: "unat w + 11 < 2 ^ 32" using fl(3) w by simp
  note rnd = heap_round_size_nat[OF r11, unfolded w] note rp = round_size_props[OF r0]
  have unf: "heap_allocate in_isr size0 kern st =
    (case heap_search st (heap_round_size w) (heap_first st) 0 0xFFFFFFFF of
             None \<Rightarrow> None
           | Some None \<Rightarrow> Some (0, heap_corrupt st)
           | Some (Some (best, best_remain)) \<Rightarrow>
               if best = 0 then Some (0, heap_fail st)
               else let st = (if best_remain > HEAP_HEADER_SIZE + HEAP_ALIGN
                              then heap_split best (heap_round_size w) best_remain st else st)
                    in Some (best + HEAP_HEADER_SIZE, heap_take best w st))"
    using heap_allocate_unfold[OF init w[unfolded r_def]] fl[unfolded r_def] by (simp only: simp_thms if_False)
  have "0 < unat (heap_round_size w)" using rnd(1) rp by simp
  from heap_search_rep[OF rep this, unfolded rnd(1)] show ?thesis
  proof
    assume "heap_search st (heap_round_size w) (heap_first st) 0 0xFFFFFFFF = Some (Some (0, 0xFFFFFFFF)) \<and>
      (\<forall>b\<in>set bs. b_used b \<or> b_size b < round_size r)"
    then show ?thesis unfolding r_def[symmetric] unf by (intro disjI1) simp
  next
    assume "\<exists>xs b ys. bs = xs @ b # ys \<and> \<not> b_used b \<and> round_size r \<le> b_size b \<and>
      heap_search st (heap_round_size w) (heap_first st) 0 0xFFFFFFFF =
        Some (Some (of_nat (unat (heap_begin st) + span xs), of_nat (b_size b - round_size r))) \<and>
      (\<forall>c\<in>set bs. \<not> b_used c \<and> round_size r \<le> b_size c \<longrightarrow> b_size b \<le> b_size c)"
    then obtain xs b ys where bs: "bs = xs @ b # ys" and fr: "\<not> b_used b" and fit: "round_size r \<le> b_size b"
      and srch: "heap_search st (heap_round_size w) (heap_first st) 0 0xFFFFFFFF =
        Some (Some (of_nat (unat (heap_begin st) + span xs), of_nat (b_size b - round_size r)))"
      and best: "\<forall>c\<in>set bs. \<not> b_used c \<and> round_size r \<le> b_size c \<longrightarrow> b_size b \<le> b_size c" by blast
    let ?a = "unat (heap_begin st) + span xs" and ?n = "b_size b - round_size r"
    note rep' = rep[unfolded bs]
    note bd = heap_rep_bounds[OF rep']
    have lt: "?a < 2 ^ 32" "?n < 2 ^ 32" using bd by linarith+
    have "(of_nat ?a :: u32) \<noteq> of_nat 0" using of_nat_u32_eq[OF lt(1), of 0] bd by simp
    then have a0: "((of_nat ?a :: u32) = 0) = False" by (simp del: of_nat_add)
    have rem: "((of_nat ?n :: u32) > HEAP_HEADER_SIZE + HEAP_ALIGN) = (?n > 32)"
      by (simp only: word_less_nat_alt u32_of_nat[OF lt(2)]) simp
    define st1 where "st1 = (if ?n > 32 then heap_split (of_nat ?a) (of_nat (round_size r)) (of_nat ?n) st else st)"
    have al: "heap_allocate in_isr size0 kern st = Some (of_nat ?a + 24, heap_take (of_nat ?a) (of_nat r) st1)"
      unfolding unf srch option.case prod.case a0 if_False rem Let_def
      unfolding rnd(3) st1_def unfolding w_def by (rule refl)
    have beg: "heap_begin st1 = heap_begin st" "heap_end st1 = heap_end st"
      "heap_runtime_locked st1 = heap_runtime_locked st" by (simp_all add: st1_def)
    have rep1: "heap_rep (heap_take (of_nat ?a) (of_nat r) st1) (xs @ taken b r # remainder b r @ ys)"
      by (rule heap_allocate_found(1)[OF rep' fr fit r0 st1_def])
    have mem1: "\<forall>x. x < 2 ^ 32 \<and> (x < ?a + 24 \<or> ?a + 24 + b_size b \<le> x) \<longrightarrow>
        hmem (heap_take (of_nat ?a) (of_nat r) st1) (of_nat x) = hmem st (of_nat x)"
      using heap_allocate_found(2)[OF rep' fr fit r0 st1_def] by blast
    show ?thesis unfolding r_def[symmetric] al
    proof (rule disjI2, rule exI[of _ xs], rule exI[of _ b], rule exI[of _ ys],
        rule exI[of _ "heap_take (of_nat ?a) (of_nat r) st1"], intro conjI)
    qed (use rep1 mem1 bs fr fit best False[folded r_def] beg in \<open>simp_all only: heap_take_fields simp_thms\<close>)
  qed
qed

end
