(* ===== verification/Kheap_Free.thy ===== *)
theory Kheap_Free
  imports Kheap_Alloc
begin

text \<open>
  Release on block lists: \<open>heap_release\<close> marks the block free and merges it with a free neighbour
  on either side. \<open>take_ready\<close> describes the intermediate states, whose released block still has
  the guard of its former header.
\<close>

section \<open>Relinking the next block\<close>

definition link_prev :: "u32 \<Rightarrow> u32 \<Rightarrow> heap_state \<Rightarrow> heap_state" where
  "link_prev nx p st =
     (if nx \<noteq> 0 then upd_hdr nx (\<lambda>h. let h = h\<lparr>hh_prev := p\<rparr> in h\<lparr>hh_header_guard := heap_header_guard nx h\<rparr>) st
      else st)"

lemma link_prev_fields [simp]:
  "hmem (link_prev nx p st) = hmem st" "heap_begin (link_prev nx p st) = heap_begin st"
  "heap_end (link_prev nx p st) = heap_end st" "heap_first (link_prev nx p st) = heap_first st"
  "heap_total (link_prev nx p st) = heap_total st" "heap_initialized (link_prev nx p st) = heap_initialized st"
  "heap_alloc_count (link_prev nx p st) = heap_alloc_count st" "heap_free_count (link_prev nx p st) = heap_free_count st"
  "heap_current_used (link_prev nx p st) = heap_current_used st"
  "heap_runtime_locked (link_prev nx p st) = heap_runtime_locked st"
  by (simp_all add: link_prev_def)

lemma link_prev_other: "x \<noteq> nx \<or> nx = 0 \<Longrightarrow> hdrs (link_prev nx p st) x = hdrs st x"
  by (auto simp: link_prev_def)

lemma link_prev_used:
  "hdrs (link_prev nx p st) k = Some h \<Longrightarrow> hh_magic h = HEAP_MAGIC_USED \<Longrightarrow>
   \<exists>h'. hdrs st k = Some h' \<and> hh_magic h' = HEAP_MAGIC_USED"
  by (auto simp: link_prev_def hdr_at_def no_hdr_def Let_def split: if_splits option.splits)

lemma link_prev_stored:
  assumes st: "stored (hdrs st) (layout q c ys 0)" and ok: "\<forall>b\<in>set ys. blk_ok b"
    and c: "c + span ys < 2 ^ 32" "0 < c" and nx: "nx = (if ys = [] then 0 else of_nat c)"
  shows "stored (hdrs (link_prev nx p st)) (layout p c ys 0)"
proof (cases "ys = []")
  case False
  have "(of_nat c :: u32) \<noteq> 0" using of_nat_u32_eq[of c 0] c by simp
  then have n0: "nx \<noteq> 0" "nx = of_nat c" using nx False by simp_all
  obtain h where h: "hdrs st (of_nat c) = Some h" using st False by (cases ys) auto
  have "hdrs (link_prev nx p st) = (hdrs st)(of_nat c \<mapsto> (let h = h\<lparr>hh_prev := p\<rparr> in
      h\<lparr>hh_header_guard := heap_header_guard (of_nat c) h\<rparr>))"
    using n0 by (simp add: link_prev_def hdr_at_Some[OF h])
  then show ?thesis using stored_reprev[OF st ok c(1) False h] by simp
qed simp

lemma used_live_step:
  assumes live: "used_live H A"
    and H': "\<And>k h. H' k = Some h \<Longrightarrow> hh_magic h = HEAP_MAGIC_USED \<Longrightarrow>
      \<exists>h'. H k = Some h' \<and> hh_magic h' = HEAP_MAGIC_USED"
    and A: "\<And>x b. (x, b) \<in> set A \<Longrightarrow> b_used b \<Longrightarrow> (x, b) \<in> set A'"
  shows "used_live H' A'"
  unfolding used_live_def
proof (intro allI impI)
  fix k h assume "H' k = Some h" "hh_magic h = HEAP_MAGIC_USED"
  from H'[OF this] obtain x b where "(x, b) \<in> set A" "k = of_nat x" "b_used b"
    using live unfolding used_live_def by fastforce
  with A show "\<exists>(x, b)\<in>set A'. k = of_nat x \<and> b_used b" by fastforce
qed

section \<open>Merging with the next block\<close>

lemma take_readyD:
  assumes "take_ready st xs b ys g"
  defines "beg \<equiv> unat (heap_begin st)" and "a \<equiv> unat (heap_begin st) + span xs"
  shows "heap_initialized st" "heap_first st = heap_begin st" "0 < beg" "beg mod 8 = 0"
    "beg + span (xs @ b # ys) = unat (heap_end st)" "heap_total st = of_nat (span (xs @ b # ys))"
    "\<not> b_used b" "\<forall>b\<in>set (xs @ b # ys). blk_ok b" "no_adjacent_free xs" "no_adjacent_free ys"
    "stored (hdrs st) (layout 0 beg xs (of_nat a))"
    "hdrs st (of_nat a) = Some ((mk_hdr (lastp 0 beg xs) a b
        (if ys = [] then 0 else of_nat (a + 24 + b_size b)))\<lparr>hh_header_guard := g\<rparr>)"
    "stored (hdrs st) (layout (of_nat a) (a + 24 + b_size b) ys 0)"
    "canaries (hmem st) (addrs beg xs)" "canaries (hmem st) (addrs (a + 24 + b_size b) ys)"
    "used_live (hdrs st) (addrs beg (xs @ b # ys))"
    "heap_current_used st = of_nat (used_bytes (xs @ ys))"
    "heap_alloc_count st - heap_free_count st = of_nat (used_count (xs @ ys))"
    "a + 24 + b_size b + span ys < 2 ^ 32"
  using assms u32_less[of "heap_end st"]
  by (simp_all add: take_ready_def Let_def del: of_nat_add)

lemma take_readyI:
  assumes "heap_initialized st" "heap_first st = heap_begin st" "0 < unat (heap_begin st)" "unat (heap_begin st) mod 8 = 0"
    "unat (heap_begin st) + span (xs @ b # ys) = unat (heap_end st)" "heap_total st = of_nat (span (xs @ b # ys))"
    "\<not> b_used b" "\<forall>b\<in>set (xs @ b # ys). blk_ok b" "no_adjacent_free xs" "no_adjacent_free ys"
    "stored (hdrs st) (layout 0 (unat (heap_begin st)) xs (of_nat (unat (heap_begin st) + span xs)))"
    "hdrs st (of_nat (unat (heap_begin st) + span xs)) = Some ((mk_hdr (lastp 0 (unat (heap_begin st)) xs) (unat (heap_begin st) + span xs) b
        (if ys = [] then 0 else of_nat (unat (heap_begin st) + span xs + 24 + b_size b)))\<lparr>hh_header_guard := g\<rparr>)"
    "stored (hdrs st) (layout (of_nat (unat (heap_begin st) + span xs)) (unat (heap_begin st) + span xs + 24 + b_size b) ys 0)"
    "canaries (hmem st) (addrs (unat (heap_begin st)) xs)"
    "canaries (hmem st) (addrs (unat (heap_begin st) + span xs + 24 + b_size b) ys)"
    "used_live (hdrs st) (addrs (unat (heap_begin st)) (xs @ b # ys))"
    "heap_current_used st = of_nat (used_bytes (xs @ ys))"
    "heap_alloc_count st - heap_free_count st = of_nat (used_count (xs @ ys))"
  shows "take_ready st xs b ys g"
  unfolding take_ready_def Let_def using assms by (intro conjI) assumption+

lemma stored_below:
  assumes st: "stored H (layout q lo xs n)" and ok: "\<forall>b\<in>set xs. blk_ok b" and hi: "lo + span xs \<le> a" "a < 2 ^ 32"
    and H': "\<And>x. x < a \<Longrightarrow> H' (of_nat x) = H (of_nat x)"
  shows "stored H' (layout q lo xs n)"
proof (rule stored_cong[OF st])
  fix x h assume "(x, h) \<in> set (layout q lo xs n)"
  then have "x + 32 \<le> lo + span xs" using layout_bounds ok by fastforce
  then show "H' (of_nat x) = H (of_nat x)" using hi by (intro H') simp
qed

lemma of_nat_neq: "x < y \<Longrightarrow> y < 2 ^ 32 \<Longrightarrow> (of_nat x :: u32) \<noteq> of_nat y"
  using of_nat_u32_eq[of x y] by simp

lemma merge_next_ready:
  assumes rdy: "take_ready st xs b (y # ys) g" and y: "\<not> b_used y"
  shows "take_ready (heap_merge_next (of_nat (unat (heap_begin st) + span xs)) st) xs
     (b\<lparr>b_size := b_size b + 24 + b_size y\<rparr>) ys g"
proof -
  let ?beg = "unat (heap_begin st)" and ?a = "unat (heap_begin st) + span xs"
  let ?p = "of_nat ?a :: u32" and ?c = "?a + 24 + b_size b" and ?b = "b\<lparr>b_size := b_size b + 24 + b_size y\<rparr>"
  let ?d = "?c + 24 + b_size y"
  define nx where "nx = (if ys = [] then 0 else of_nat ?d :: u32)"
  note rd = take_readyD[OF rdy]
  have lt: "?d + span ys < 2 ^ 32" "?c < 2 ^ 32" "?d < 2 ^ 32" "0 < ?d" using rd(19) by simp_all
  have c0: "(of_nat ?c :: u32) \<noteq> 0" using of_nat_neq[of 0 ?c] lt rd(3) by (simp del: of_nat_add)
  have hc: "hdrs st (of_nat ?c) = Some (mk_hdr ?p ?c y nx)" using rd(13) by (simp add: nx_def del: of_nat_add)
  have tl: "stored (hdrs st) (layout (of_nat ?c) ?d ys 0)" using rd(13) by (simp del: of_nat_add)
  define s1 where "s1 = upd_hdr ?p (\<lambda>h. h\<lparr>hh_size := hh_size h + (24 + of_nat (b_size y)), hh_next := nx\<rparr>) st"
  define s' where "s' = heap_merge_next ?p st"
  have s': "s' = link_prev nx ?p s1"
    using c0 y unfolding s'_def heap_merge_next_def Let_def hdr_at_Some[OF rd(12)]
    by (simp add: hdr_at_Some[OF hc] s1_def link_prev_def Let_def del: of_nat_add)
  have nxp: "of_nat x \<noteq> nx \<or> nx = 0" if "x \<le> ?c" for x
    using that lt of_nat_neq[of x ?d] by (auto simp: nx_def simp del: of_nat_add)
  have s1h: "hdrs s1 = (hdrs st)(?p \<mapsto> (mk_hdr (lastp 0 ?beg xs) ?a ?b nx)\<lparr>hh_header_guard := g\<rparr>)"
    unfolding s1_def hdrs_upd hdr_at_Some[OF rd(12)] by (simp add: mk_hdr_def ac_simps)
  have flds: "heap_begin s' = heap_begin st" "heap_end s' = heap_end st" "heap_first s' = heap_first st"
    "heap_total s' = heap_total st" "heap_initialized s' = heap_initialized st" "hmem s' = hmem st"
    "heap_current_used s' = heap_current_used st" "heap_alloc_count s' = heap_alloc_count st"
    "heap_free_count s' = heap_free_count st" by (simp_all add: s' s1_def)
  have bsz: "?a + 24 + b_size ?b = ?d" by simp
  have hp: "hdrs s' ?p = Some ((mk_hdr (lastp 0 ?beg xs) ?a ?b nx)\<lparr>hh_header_guard := g\<rparr>)"
    using nxp[of ?a] by (simp add: s' link_prev_other s1h del: of_nat_add)
  have pre: "stored (hdrs s') (layout 0 ?beg xs ?p)"
  proof (rule stored_below[OF rd(11)])
    fix x assume x: "x < ?a"
    then have "(of_nat x :: u32) \<noteq> ?p" using of_nat_neq[OF x] lt by simp
    with nxp[of x] x show "hdrs s' (of_nat x) = hdrs st (of_nat x)"
      by (simp add: s' link_prev_other s1h del: of_nat_add)
  qed (use rd(8) lt in auto)
  have post: "stored (hdrs s') (layout ?p (?a + 24 + b_size ?b) ys 0)"
    unfolding s' bsz
  proof (rule link_prev_stored[OF _ _ lt(1) lt(4) nx_def])
    show "stored (hdrs s1) (layout (of_nat ?c) ?d ys 0)"
      unfolding s1h
    proof (rule stored_upd_other[OF tl])
      fix x h assume "(x, h) \<in> set (layout (of_nat ?c) ?d ys 0)"
      then have "?d \<le> x" "x < 2 ^ 32" using layout_bounds rd(8) lt(1) by fastforce+
      then show "(of_nat x :: u32) \<noteq> ?p" using of_nat_neq[of ?a x] by simp
    qed
  qed (use rd(8) in simp)
  have ok: "\<forall>b\<in>set (xs @ ?b # ys). blk_ok b"
    using rd(7,8) y by (auto simp: blk_ok_def mod_add_eq[symmetric] split: if_splits)
  have live: "used_live (hdrs s') (addrs ?beg (xs @ ?b # ys))"
  proof (rule used_live_step[OF rd(16)])
    fix k h assume "hdrs s' k = Some h" "hh_magic h = HEAP_MAGIC_USED"
    from link_prev_used[OF this[unfolded s']] rd(7) show "\<exists>h'. hdrs st k = Some h' \<and> hh_magic h' = HEAP_MAGIC_USED"
      by (auto simp: s1h split: if_splits)
  next
    fix x z assume "(x, z) \<in> set (addrs ?beg (xs @ b # y # ys))" "b_used z"
    then show "(x, z) \<in> set (addrs ?beg (xs @ ?b # ys))" using rd(7) y by (auto simp: addrs_append ac_simps)
  qed
  have can: "canaries (hmem st) (addrs (?a + 24 + b_size ?b) ys)"
    using rd(15) y by (simp add: canaries_def ac_simps del: of_nat_add)
  have eqs: "span (xs @ b # y # ys) = span (xs @ ?b # ys)" "used_bytes (xs @ y # ys) = used_bytes (xs @ ys)"
    "used_count (xs @ y # ys) = used_count (xs @ ys)"
    using rd(7) y by simp_all
  have adj: "no_adjacent_free ys" using rd(10) by (cases ys) simp_all
  have nb: "\<not> b_used ?b" using rd(7) by simp
  show ?thesis
    unfolding s'_def[symmetric]
    by (rule take_readyI; (simp only: flds bsz nx_def[symmetric])?)
      (use rd(1-4,9,14) rd(5,6,17,18)[unfolded eqs] adj pre hp post ok live can nb in \<open>simp_all only: bsz simp_thms\<close>)
qed

lemma merge_next_none:
  assumes rdy: "take_ready st xs b ys g" and y: "ys = [] \<or> b_used (hd ys)"
  shows "heap_merge_next (of_nat (unat (heap_begin st) + span xs)) st = st"
proof -
  note rd = take_readyD[OF rdy]
  show ?thesis
  proof (cases ys)
    case Nil
    then show ?thesis by (simp add: heap_merge_next_def Let_def hdr_at_Some[OF rd(12)] del: of_nat_add)
  next
    case (Cons y ys')
    have "hh_magic (hdr_at st (of_nat (unat (heap_begin st) + span xs + 24 + b_size b))) = HEAP_MAGIC_USED"
      using rd(13) y Cons by (auto simp: hdr_at_def simp del: of_nat_add)
    then show ?thesis
      unfolding heap_merge_next_def Let_def hdr_at_Some[OF rd(12)] by (simp add: Cons del: of_nat_add)
  qed
qed

section \<open>Merging with the previous block\<close>

lemma ready_rep:
  assumes rdy: "take_ready st xs b ys g" and g: "g = heap_header_guard (of_nat (unat (heap_begin st) + span xs))
      (mk_hdr (lastp 0 (unat (heap_begin st)) xs) (unat (heap_begin st) + span xs) b
        (if ys = [] then 0 else of_nat (unat (heap_begin st) + span xs + 24 + b_size b)))"
    and adj: "no_adjacent_free (xs @ b # ys)"
  shows "heap_rep st (xs @ b # ys)"
proof -
  note rd = take_readyD[OF rdy]
  have st: "stored (hdrs st) (layout 0 (unat (heap_begin st)) (xs @ b # ys) 0)"
    unfolding stored_split_at using rd(11,13) rd(12)[unfolded g mk_hdr_reguard] by blast
  have can: "canaries (hmem st) (addrs (unat (heap_begin st)) (xs @ b # ys))"
    using rd(7,14,15) by (auto simp: addrs_append canaries_def simp del: of_nat_add)
  have "xs @ b # ys \<noteq> []" "used_bytes (xs @ b # ys) = used_bytes (xs @ ys)"
    "used_count (xs @ b # ys) = used_count (xs @ ys)" using rd(7) by simp_all
  then show ?thesis unfolding heap_rep_def using rd(1-6,8,16-18) st can adj by (simp only: simp_thms)
qed

lemma reguard_ready:
  assumes rdy: "take_ready st xs b ys g"
  defines "a \<equiv> unat (heap_begin st) + span xs"
  shows "take_ready (upd_hdr (of_nat a) (\<lambda>h. h\<lparr>hh_header_guard := heap_header_guard (of_nat a) h\<rparr>) st) xs b ys
    (heap_header_guard (of_nat a) (mk_hdr (lastp 0 (unat (heap_begin st)) xs) a b
        (if ys = [] then 0 else of_nat (a + 24 + b_size b))))"
proof -
  let ?beg = "unat (heap_begin st)" and ?p = "of_nat a :: u32"
  note rd = take_readyD[OF rdy, folded a_def]
  let ?h = "mk_hdr (lastp 0 ?beg xs) a b (if ys = [] then 0 else of_nat (a + 24 + b_size b))"
  let ?s = "upd_hdr ?p (\<lambda>h. h\<lparr>hh_header_guard := heap_header_guard ?p h\<rparr>) st"
  have H: "hdrs ?s = (hdrs st)(?p \<mapsto> ?h\<lparr>hh_header_guard := heap_header_guard ?p ?h\<rparr>)"
    unfolding hdrs_upd hdr_at_Some[OF rd(12)] by (simp add: heap_header_guard_def)
  have pre: "stored (hdrs ?s) (layout 0 ?beg xs ?p)"
  proof (rule stored_below[OF rd(11)])
    fix x assume x: "x < a"
    then show "hdrs ?s (of_nat x) = hdrs st (of_nat x)" using of_nat_neq[OF x] rd(19) by simp
  qed (use rd(8,19) in \<open>auto simp: a_def\<close>)
  have post: "stored (hdrs ?s) (layout ?p (a + 24 + b_size b) ys 0)"
    unfolding H
  proof (rule stored_upd_other[OF rd(13)])
    fix x h assume "(x, h) \<in> set (layout ?p (a + 24 + b_size b) ys 0)"
    then have "a + 24 + b_size b \<le> x" "x < 2 ^ 32" using layout_bounds rd(8,19) by fastforce+
    then show "(of_nat x :: u32) \<noteq> ?p" using of_nat_neq[of a x] by simp
  qed
  have live: "used_live (hdrs ?s) (addrs ?beg (xs @ b # ys))"
    by (rule used_live_step[OF rd(16)]) (use rd(7) in \<open>auto simp: hdr_at_Some[OF rd(12)] split: if_splits\<close>)
  show ?thesis
    by (rule take_readyI; (simp only: upd_hdr_fields)?)
      (use rd pre post live H in \<open>simp_all only: a_def[symmetric] fun_upd_same simp_thms\<close>)
qed

text \<open>The block before absorbs the released one.\<close>

lemma absorb_ready:
  assumes rdy: "take_ready st (xs @ [z]) b ys g" and z: "\<not> b_used z"
  defines "q \<equiv> unat (heap_begin st) + span xs"
  defines "d \<equiv> q + 24 + b_size z + 24 + b_size b"
  defines "nx \<equiv> (if ys = [] then 0 else of_nat d :: u32)"
  shows "take_ready (link_prev nx (of_nat q)
      (upd_hdr (of_nat q) (\<lambda>p. p\<lparr>hh_size := hh_size p + (24 + of_nat (b_size b)), hh_next := nx\<rparr>) st))
    xs (z\<lparr>b_size := b_size z + 24 + b_size b\<rparr>) ys
    (hh_header_guard (mk_hdr (lastp 0 (unat (heap_begin st)) xs) q z (of_nat (q + 24 + b_size z))))"
    (is "take_ready ?s xs ?z ys ?g")
proof -
  let ?beg = "unat (heap_begin st)" and ?q = "of_nat q :: u32" and ?a = "q + 24 + b_size z"
  note rd = take_readyD[OF rdy]
  have a: "unat (heap_begin st) + span (xs @ [z]) = ?a" by (simp add: q_def)
  note rd = rd[unfolded a]
  have d: "d = ?a + 24 + b_size b" by (simp add: d_def)
  have lt: "d + span ys < 2 ^ 32" "0 < d" "q < d" using rd(19) by (simp_all add: d_def)
  have sz: "stored (hdrs st) (layout 0 ?beg xs ?q)"
    "hdrs st ?q = Some (mk_hdr (lastp 0 ?beg xs) q z (of_nat ?a))"
    using rd(11) unfolding layout_append by (simp_all add: q_def del: of_nat_add)
  define s1 where "s1 = upd_hdr ?q (\<lambda>p. p\<lparr>hh_size := hh_size p + (24 + of_nat (b_size b)), hh_next := nx\<rparr>) st"
  have s1h: "hdrs s1 = (hdrs st)(?q \<mapsto> (mk_hdr (lastp 0 ?beg xs) q ?z nx)\<lparr>hh_header_guard := ?g\<rparr>)"
    unfolding s1_def hdrs_upd hdr_at_Some[OF sz(2)] by (simp add: mk_hdr_def ac_simps)
  have nxp: "of_nat x \<noteq> nx \<or> nx = 0" if "x < d" for x
    using that lt of_nat_neq[of x d] by (auto simp: nx_def)
  have flds: "heap_begin (link_prev nx ?q s1) = heap_begin st" "heap_end (link_prev nx ?q s1) = heap_end st"
    "heap_first (link_prev nx ?q s1) = heap_first st"
    "heap_total (link_prev nx ?q s1) = heap_total st" "heap_initialized (link_prev nx ?q s1) = heap_initialized st"
    "hmem (link_prev nx ?q s1) = hmem st"
    "heap_current_used (link_prev nx ?q s1) = heap_current_used st"
    "heap_alloc_count (link_prev nx ?q s1) = heap_alloc_count st"
    "heap_free_count (link_prev nx ?q s1) = heap_free_count st" by (simp_all add: s1_def)
  have bsz: "q + 24 + b_size ?z = d" by (simp add: d_def)
  have hp: "hdrs (link_prev nx ?q s1) ?q = Some ((mk_hdr (lastp 0 ?beg xs) q ?z nx)\<lparr>hh_header_guard := ?g\<rparr>)"
    using nxp[OF lt(3)] by (simp add: link_prev_other s1h)
  have pre: "stored (hdrs (link_prev nx ?q s1)) (layout 0 ?beg xs ?q)"
  proof (rule stored_below[OF sz(1)])
    fix x assume x: "x < q"
    then have "(of_nat x :: u32) \<noteq> ?q" using of_nat_neq[OF x] lt by simp
    with nxp[of x] x lt(3) show "hdrs (link_prev nx ?q s1) (of_nat x) = hdrs st (of_nat x)"
      by (simp add: link_prev_other s1h)
  qed (use rd(8) lt in \<open>auto simp: q_def\<close>)
  have post: "stored (hdrs (link_prev nx ?q s1)) (layout ?q d ys 0)"
  proof (rule link_prev_stored[OF _ _ lt(1) lt(2) nx_def[THEN meta_eq_to_obj_eq]])
    show "stored (hdrs s1) (layout (of_nat ?a) d ys 0)"
      unfolding s1h
    proof (rule stored_upd_other[OF rd(13)[folded d]])
      fix x h assume "(x, h) \<in> set (layout (of_nat ?a) d ys 0)"
      then have "d \<le> x" "x < 2 ^ 32" using layout_bounds rd(8) lt(1) by fastforce+
      then show "(of_nat x :: u32) \<noteq> ?q" using of_nat_neq[of q x] lt(3) by simp
    qed
  qed (use rd(8) in simp)
  have ok: "\<forall>b\<in>set (xs @ ?z # ys). blk_ok b"
    using rd(7,8) z by (auto simp: blk_ok_def mod_add_eq[symmetric] split: if_splits)
  have live: "used_live (hdrs (link_prev nx ?q s1)) (addrs ?beg (xs @ ?z # ys))"
  proof (rule used_live_step[OF rd(16)])
    fix k h assume "hdrs (link_prev nx ?q s1) k = Some h" "hh_magic h = HEAP_MAGIC_USED"
    from link_prev_used[OF this] z show "\<exists>h'. hdrs st k = Some h' \<and> hh_magic h' = HEAP_MAGIC_USED"
      by (auto simp: s1h split: if_splits)
  next
    fix x y assume "(x, y) \<in> set (addrs ?beg ((xs @ [z]) @ b # ys))" "b_used y"
    then show "(x, y) \<in> set (addrs ?beg (xs @ ?z # ys))" using rd(7) z by (auto simp: addrs_append ac_simps)
  qed
  have can: "canaries (hmem st) (addrs ?beg xs)" using rd(14) by (simp add: addrs_append canaries_append)
  have eqs: "span ((xs @ [z]) @ b # ys) = span (xs @ ?z # ys)" "used_bytes ((xs @ [z]) @ ys) = used_bytes (xs @ ys)"
    "used_count ((xs @ [z]) @ ys) = used_count (xs @ ys)"
    using z by simp_all
  have adj: "no_adjacent_free xs" using rd(9) by (simp add: no_adjacent_free_append)
  have nb: "\<not> b_used ?z" using z by simp
  have "take_ready (link_prev nx ?q s1) xs ?z ys ?g"
    by (rule take_readyI; (simp only: flds q_def[symmetric] bsz nx_def[symmetric])?)
      (use rd(1-4,10) rd(5,6,17,18)[unfolded eqs] rd(15)[folded d] adj pre hp post ok live can nb in \<open>simp_all only: simp_thms\<close>)
  then show ?thesis by (simp only: s1_def)
qed

section \<open>Releasing a block\<close>

definition freed :: "hblk \<Rightarrow> hblk" where
  "freed b = \<lparr>b_size = b_size b, b_used = False, b_req = 0\<rparr>"

definition join :: "hblk \<Rightarrow> hblk \<Rightarrow> hblk" where
  "join b c = b\<lparr>b_size := b_size b + 24 + b_size c\<rparr>"

text \<open>What a release does to the block list: the released block joined with its free neighbours.\<close>

definition join_next :: "hblk \<Rightarrow> hblk list \<Rightarrow> hblk list" where
  "join_next b ys = (if ys \<noteq> [] \<and> \<not> b_used (hd ys) then join b (hd ys) # tl ys else b # ys)"

definition join_prev :: "hblk list \<Rightarrow> hblk list \<Rightarrow> hblk list" where
  "join_prev xs ys = (if xs \<noteq> [] \<and> \<not> b_used (last xs) then butlast xs @ join (last xs) (hd ys) # tl ys else xs @ ys)"

definition release_blocks :: "hblk list \<Rightarrow> hblk \<Rightarrow> hblk list \<Rightarrow> hblk list" where
  "release_blocks xs b ys = join_prev xs (join_next (freed b) ys)"

lemma lastp_snoc: "lastp q a (xs @ [z]) = of_nat (a + span xs)"
  by (induction xs arbitrary: q a) (simp_all add: add.assoc del: of_nat_add)

lemma last_stored:
  "stored H (layout 0 beg (xs @ [z]) n) \<Longrightarrow>
   H (of_nat (beg + span xs)) = Some (mk_hdr (lastp 0 beg xs) (beg + span xs) z n)"
  unfolding layout_append by (simp del: of_nat_add)

lemma merge_prev_rep:
  assumes rdy: "take_ready st xs b ys g" and adj: "ys = [] \<or> b_used (hd ys)"
  shows "heap_rep (heap_merge_prev (of_nat (unat (heap_begin st) + span xs)) st) (join_prev xs (b # ys))"
proof -
  let ?beg = "unat (heap_begin st)" and ?a = "unat (heap_begin st) + span xs"
  note rd = take_readyD[OF rdy]
  have adjb: "no_adjacent_free (c # ys)" for c using rd(10) adj by (cases ys) simp_all
  have at: "hdr_at st (of_nat ?a) = (mk_hdr (lastp 0 ?beg xs) ?a b
        (if ys = [] then 0 else of_nat (?a + 24 + b_size b)))\<lparr>hh_header_guard := g\<rparr>"
    by (rule hdr_at_Some[OF rd(12)])
  show ?thesis
  proof (cases "xs \<noteq> [] \<and> \<not> b_used (last xs)")
    case False
    have at0: "hh_prev (hdr_at st (of_nat ?a)) = 0 \<or>
        hh_magic (hdr_at st (hh_prev (hdr_at st (of_nat ?a)))) = HEAP_MAGIC_USED"
    proof (cases xs rule: rev_cases)
      case (snoc xs' z)
      have "hdr_at st (of_nat (?beg + span xs')) = mk_hdr (lastp 0 ?beg xs') (?beg + span xs') z (of_nat ?a)"
        by (rule hdr_at_Some[OF last_stored[OF rd(11)[unfolded snoc], folded snoc]])
      moreover have "hh_prev (hdr_at st (of_nat ?a)) = of_nat (?beg + span xs')"
        unfolding at by (simp add: snoc lastp_snoc del: of_nat_add)
      ultimately show ?thesis using False snoc by (simp del: of_nat_add span_append)
    next
      case Nil
      then show ?thesis unfolding at by simp
    qed
    let ?s = "upd_hdr (of_nat ?a) (\<lambda>h. h\<lparr>hh_header_guard := heap_header_guard (of_nat ?a) h\<rparr>) st"
    have "heap_merge_prev (of_nat ?a) st = ?s"
      using at0 unfolding heap_merge_prev_def Let_def by auto
    moreover have "heap_rep ?s (xs @ b # ys)"
    proof (rule ready_rep)
      show "take_ready ?s xs b ys (heap_header_guard (of_nat ?a) (mk_hdr (lastp 0 ?beg xs) ?a b
        (if ys = [] then 0 else of_nat (?a + 24 + b_size b))))" by (rule reguard_ready[OF rdy])
      show "no_adjacent_free (xs @ b # ys)"
        using False rd(9) adjb by (auto simp: no_adjacent_free_append)
    qed simp
    ultimately show ?thesis using False by (auto simp: join_prev_def simp del: of_nat_add)
  next
    case True
    then obtain xs' z where xs: "xs = xs' @ [z]" and z: "\<not> b_used z" by (cases xs rule: rev_cases) auto
    let ?q = "?beg + span xs'"
    have h: "hdrs st (of_nat ?q) = Some (mk_hdr (lastp 0 ?beg xs') ?q z (of_nat ?a))"
      using last_stored[OF rd(11)[unfolded xs], folded xs] .
    have l: "lastp 0 ?beg xs = of_nat ?q" unfolding xs by (rule lastp_snoc)
    have q0: "(of_nat ?q :: u32) \<noteq> 0" using of_nat_neq[of 0 ?q] rd(3,19) xs by (simp del: of_nat_add)
    define d where "d = ?q + 24 + b_size z + 24 + b_size b"
    have ad: "?a + 24 + b_size b = d" by (simp add: d_def xs)
    define nx where "nx = (if ys = [] then 0 else of_nat d :: u32)"
    let ?s = "link_prev nx (of_nat ?q)
      (upd_hdr (of_nat ?q) (\<lambda>p. p\<lparr>hh_size := hh_size p + (24 + of_nat (b_size b)), hh_next := nx\<rparr>) st)"
    have m: "heap_merge_prev (of_nat ?a) st = upd_hdr (of_nat ?q) (\<lambda>p. p\<lparr>hh_header_guard := heap_header_guard (of_nat ?q) p\<rparr>) ?s"
      unfolding heap_merge_prev_def Let_def at ad nx_def[symmetric]
      using q0 z by (simp add: l hdr_at_Some[OF h] link_prev_def Let_def del: of_nat_add)
    note ab = absorb_ready[OF rdy[unfolded xs] z, folded d_def, folded nx_def]
    have sb: "heap_begin ?s = heap_begin st" by simp
    note rg = reguard_ready[OF ab, unfolded sb]
    have "heap_rep (heap_merge_prev (of_nat ?a) st) (xs' @ join z b # ys)"
      unfolding m join_def
    proof (rule ready_rep[OF rg])
      show "no_adjacent_free (xs' @ z\<lparr>b_size := b_size z + 24 + b_size b\<rparr> # ys)"
        using rd(9) z adjb[of "z\<lparr>b_size := b_size z + 24 + b_size b\<rparr>"] by (auto simp: no_adjacent_free_append xs)
    qed (simp del: of_nat_add)
    then show ?thesis using z by (simp add: join_prev_def xs del: of_nat_add)
  qed
qed

lemma release_ready:
  assumes rep: "heap_rep st (xs @ b # ys)" and u: "b_used b"
  defines "a \<equiv> unat (heap_begin st) + span xs"
  shows "\<exists>s1. heap_release (of_nat a) st = heap_merge_prev (of_nat a) (heap_merge_next (of_nat a) s1) \<and>
     heap_begin s1 = heap_begin st \<and> (\<exists>g. take_ready s1 xs (freed b) ys g)"
proof -
  let ?beg = "unat (heap_begin st)" and ?p = "of_nat a :: u32"
  let ?nx = "if ys = [] then 0 else of_nat (a + 24 + b_size b) :: u32"
  have R: "heap_initialized st" "heap_first st = heap_begin st" "0 < ?beg" "?beg mod 8 = 0"
    "?beg + span (xs @ b # ys) = unat (heap_end st)" "heap_total st = of_nat (span (xs @ b # ys))"
    "\<forall>b\<in>set (xs @ b # ys). blk_ok b" "no_adjacent_free (xs @ b # ys)"
    "canaries (hmem st) (addrs ?beg (xs @ b # ys))" "used_live (hdrs st) (addrs ?beg (xs @ b # ys))"
    "heap_current_used st = of_nat (used_bytes (xs @ b # ys))"
    "heap_alloc_count st - heap_free_count st = of_nat (used_count (xs @ b # ys))"
    using rep by (simp_all add: heap_rep_def)
  have st: "stored (hdrs st) (layout 0 ?beg xs ?p)"
    "hdrs st ?p = Some (mk_hdr (lastp 0 ?beg xs) a b ?nx)"
    "stored (hdrs st) (layout ?p (a + 24 + b_size b) ys 0)"
    using rep by (auto simp: heap_rep_def stored_split_at a_def simp del: of_nat_add)
  have lt: "a + 24 + b_size b + span ys < 2 ^ 32" using heap_rep_bounds[OF rep] by (simp add: a_def)
  define s1 where "s1 = (let s0 = upd_hdr ?p (\<lambda>h. h\<lparr>hh_magic := HEAP_MAGIC_FREE, hh_requested_size := 0\<rparr>)
      (st\<lparr>heap_current_used := heap_current_used st - (of_nat (b_size b) + HEAP_HEADER_SIZE)\<rparr>)
    in s0\<lparr>heap_free_count := heap_free_count s0 + 1\<rparr>)"
  let ?g = "hh_header_guard (mk_hdr (lastp 0 ?beg xs) a b ?nx)"
  have at0: "hdr_at (st\<lparr>heap_current_used := c\<rparr>) ?p = mk_hdr (lastp 0 ?beg xs) a b ?nx" for c
    by (simp add: hdr_at_def st(2))
  have H: "hdrs s1 = (hdrs st)(?p \<mapsto> (mk_hdr (lastp 0 ?beg xs) a (freed b) ?nx)\<lparr>hh_header_guard := ?g\<rparr>)"
    unfolding s1_def Let_def by (simp add: at0) (simp add: mk_hdr_def freed_def u)
  have at1: "hdr_at s1 ?p = (mk_hdr (lastp 0 ?beg xs) a (freed b) ?nx)\<lparr>hh_header_guard := ?g\<rparr>"
    by (rule hdr_at_Some) (simp add: H)
  have flds: "heap_begin s1 = heap_begin st" "heap_end s1 = heap_end st" "heap_first s1 = heap_first st"
    "heap_total s1 = heap_total st" "heap_initialized s1 = heap_initialized st" "hmem s1 = hmem st"
    "heap_current_used s1 = heap_current_used st - (of_nat (b_size b) + 24)"
    "heap_alloc_count s1 = heap_alloc_count st"
    "heap_free_count s1 = heap_free_count st + 1" by (simp_all add: s1_def Let_def)
  have guard: "\<not> (hh_next (hdr_at s1 ?p) \<noteq> 0 \<and>
      hh_next (hdr_at s1 ?p) \<noteq> ?p + HEAP_HEADER_SIZE + hh_size (hdr_at s1 ?p))"
    unfolding at1 by (simp add: freed_def)
  have rel: "heap_release ?p st = heap_merge_prev ?p (heap_merge_next ?p s1)"
    using guard unfolding heap_release_def Let_def hdr_at_Some[OF st(2)] mk_hdr_sel s1_def[unfolded Let_def, symmetric]
    by (simp only: if_False)
  have fb: "b_size (freed b) = b_size b" "\<not> b_used (freed b)" by (simp_all add: freed_def)
  have pre: "stored (hdrs s1) (layout 0 ?beg xs ?p)"
  proof (rule stored_below[OF st(1)])
    fix x assume x: "x < a"
    then show "hdrs s1 (of_nat x) = hdrs st (of_nat x)" using of_nat_neq[OF x] lt by (simp add: H)
  qed (use R(7) lt in \<open>auto simp: a_def\<close>)
  have post: "stored (hdrs s1) (layout ?p (a + 24 + b_size b) ys 0)"
    unfolding H
  proof (rule stored_upd_other[OF st(3)])
    fix x h assume "(x, h) \<in> set (layout ?p (a + 24 + b_size b) ys 0)"
    then have "a + 24 + b_size b \<le> x" "x < 2 ^ 32" using layout_bounds R(7) lt by fastforce+
    then show "(of_nat x :: u32) \<noteq> ?p" using of_nat_neq[of a x] by simp
  qed
  have live: "used_live (hdrs s1) (addrs ?beg (xs @ freed b # ys))"
    unfolding used_live_def
  proof (intro allI impI)
    fix k h assume k: "hdrs s1 k = Some h" "hh_magic h = HEAP_MAGIC_USED"
    then have kp: "k \<noteq> ?p" by (auto simp: H fb)
    then have "hdrs st k = Some h" using k by (simp add: H)
    then obtain x z where "(x, z) \<in> set (addrs ?beg (xs @ b # ys))" "k = of_nat x" "b_used z"
      using R(10) k(2) unfolding used_live_def by fastforce
    moreover from this have "(x, z) \<in> set (addrs ?beg (xs @ freed b # ys))"
      using kp by (auto simp: addrs_append fb a_def simp del: of_nat_add)
    ultimately show "\<exists>(x, z)\<in>set (addrs ?beg (xs @ freed b # ys)). k = of_nat x \<and> b_used z" by fastforce
  qed
  have adj: "no_adjacent_free xs" "no_adjacent_free ys"
    using R(8) by (cases ys; auto simp: no_adjacent_free_append)+
  have can: "canaries (hmem st) (addrs ?beg xs)" "canaries (hmem st) (addrs (a + 24 + b_size b) ys)"
    using R(9) by (simp_all add: addrs_append canaries_def a_def)
  have ok: "\<forall>b\<in>set (xs @ freed b # ys). blk_ok b" using R(7) by (auto simp: blk_ok_def freed_def)
  have cnt: "heap_current_used st - (of_nat (b_size b) + 24) = of_nat (used_bytes (xs @ ys))"
    "heap_alloc_count st - (heap_free_count st + 1) = of_nat (used_count (xs @ ys))"
    using R(11,12) u by (simp_all add: algebra_simps)
  have sp: "span (xs @ b # ys) = span (xs @ freed b # ys)" by (simp add: fb)
  have hp: "hdrs s1 ?p = Some ((mk_hdr (lastp 0 ?beg xs) a (freed b) ?nx)\<lparr>hh_header_guard := ?g\<rparr>)" by (simp add: H)
  have "take_ready s1 xs (freed b) ys ?g"
    by (rule take_readyI; (simp only: flds a_def[symmetric] fb)?)
      (use R(1-4) R(5,6)[unfolded sp] fb adj can ok cnt pre post live hp in \<open>simp_all only: a_def[symmetric] simp_thms\<close>)
  then show ?thesis using rel flds(1) by blast
qed

lemma heap_release_rep:
  assumes rep: "heap_rep st (xs @ b # ys)" and u: "b_used b"
  shows "heap_rep (heap_release (of_nat (unat (heap_begin st) + span xs)) st) (release_blocks xs b ys)"
proof -
  let ?p = "of_nat (unat (heap_begin st) + span xs)"
  obtain s1 g where s1: "heap_release ?p st = heap_merge_prev ?p (heap_merge_next ?p s1)"
    "heap_begin s1 = heap_begin st" "take_ready s1 xs (freed b) ys g"
    using release_ready[OF rep u] by blast
  show ?thesis
  proof (cases "ys \<noteq> [] \<and> \<not> b_used (hd ys)")
    case True
    then obtain y ys' where y: "ys = y # ys'" "\<not> b_used y" by (cases ys) auto
    note m = merge_next_ready[OF s1(3)[unfolded y(1)] y(2), unfolded s1(2)]
    have b: "heap_begin (heap_merge_next ?p s1) = heap_begin s1" by (simp add: heap_merge_next_def Let_def)
    have "ys' = [] \<or> b_used (hd ys')"
      using rep y by (cases ys') (auto simp: heap_rep_def no_adjacent_free_append)
    from merge_prev_rep[OF m this, unfolded b s1(2)] show ?thesis
      unfolding s1(1) release_blocks_def by (simp add: join_next_def join_def y del: of_nat_add)
  next
    case False
    then have n: "ys = [] \<or> b_used (hd ys)" by auto
    have "heap_merge_next ?p s1 = s1" using merge_next_none[OF s1(3) n] by (simp only: s1(2))
    with merge_prev_rep[OF s1(3) n, unfolded s1(2)] show ?thesis
      unfolding s1(1) release_blocks_def using False by (auto simp: join_next_def simp del: of_nat_add)
  qed
qed

end
