(* ===== verification/Kheap_Spec.thy ===== *)
theory Kheap_Spec
  imports Kheap_Free
begin

text \<open>
  What the heap promises its callers: the contract \<open>block_allocator\<close> over the payloads of the
  used blocks, the validity of the heap after any run of calls, and \<open>aixos_heap_check\<close>,
  \<open>aixos_mem_info\<close> and \<open>aixos_realloc\<close> on a well-formed heap.
\<close>

section \<open>Payload extents\<close>

definition heap_wf :: "heap_state \<Rightarrow> bool" where
  "heap_wf st \<longleftrightarrow> (\<exists>bs. heap_rep st bs)"

definition heap_extents :: "heap_state \<Rightarrow> (nat \<times> nat) set" where
  "heap_extents st = {(unat k + 24, unat (hh_size h)) | k h. hdrs st k = Some h \<and> hh_magic h = HEAP_MAGIC_USED}"

definition used_at :: "nat \<Rightarrow> hblk list \<Rightarrow> (nat \<times> nat) set" where
  "used_at a bs = {(x + 24, b_size b) | x b. (x, b) \<in> set (addrs a bs) \<and> b_used b}"

lemma used_at_simps [simp]:
  "used_at a [] = {}"
  "used_at a (b # bs) = (if b_used b then {(a + 24, b_size b)} else {}) \<union> used_at (a + 24 + b_size b) bs"
  "used_at a (xs @ ys) = used_at a xs \<union> used_at (a + span xs) ys"
  by (auto simp: used_at_def addrs_append)

lemma addrs_stored:
  "stored H (layout p a bs n) \<Longrightarrow> (x, b) \<in> set (addrs a bs) \<Longrightarrow> \<exists>q m. H (of_nat x) = Some (mk_hdr q x b m)"
  by (induction bs arbitrary: p a) auto

lemma heap_rep_extents:
  assumes rep: "heap_rep st bs"
  shows "heap_extents st = used_at (unat (heap_begin st)) bs"
proof -
  let ?beg = "unat (heap_begin st)"
  have small: "x < 2 ^ 32" "b_size b < 2 ^ 32" if "(x, b) \<in> set (addrs ?beg bs)" for x b
    using addrs_bounds[OF that] rep u32_less[of "heap_end st"] by (auto simp: heap_rep_def)
  have st: "\<exists>q m. hdrs st (of_nat x) = Some (mk_hdr q x b m)" if "(x, b) \<in> set (addrs ?beg bs)" for x b
    using rep that by (auto simp: heap_rep_def intro: addrs_stored)
  have live: "used_live (hdrs st) (addrs ?beg bs)" using rep by (simp add: heap_rep_def)
  show ?thesis
  proof (intro set_eqI iffI; clarify)
    fix p n assume "(p, n) \<in> heap_extents st"
    then obtain k h where k: "hdrs st k = Some h" "hh_magic h = HEAP_MAGIC_USED" "p = unat k + 24" "n = unat (hh_size h)"
      by (auto simp: heap_extents_def)
    then obtain x b where x: "(x, b) \<in> set (addrs ?beg bs)" "k = of_nat x" "b_used b"
      using live unfolding used_live_def by fastforce
    then obtain q m where "h = mk_hdr q x b m" using st k(1) by fastforce
    then show "(p, n) \<in> used_at ?beg bs"
      using x k(3,4) u32_of_nat[OF small(1)[OF x(1)]] u32_of_nat[OF small(2)[OF x(1)]] by (auto simp: used_at_def)
  next
    fix p n assume "(p, n) \<in> used_at ?beg bs"
    then obtain x b where x: "(x, b) \<in> set (addrs ?beg bs)" "b_used b" "p = x + 24" "n = b_size b"
      by (auto simp: used_at_def)
    then obtain q m where "hdrs st (of_nat x) = Some (mk_hdr q x b m)" using st by blast
    then show "(p, n) \<in> heap_extents st"
      using x u32_of_nat[OF small(1)[OF x(1)]] u32_of_nat[OF small(2)[OF x(1)]]
      unfolding heap_extents_def by (auto intro!: exI[of _ "of_nat x :: u32"])
  qed
qed

lemma used_at_bounds: "(p, n) \<in> used_at a bs \<Longrightarrow> a + 24 \<le> p \<and> p + n \<le> a + span bs"
  using addrs_bounds by (fastforce simp: used_at_def)

lemma used_at_positive: "\<forall>b\<in>set bs. blk_ok b \<Longrightarrow> (p, n) \<in> used_at a bs \<Longrightarrow> 8 \<le> n"
proof (induction bs arbitrary: a)
  case (Cons b bs)
  then show ?case by (cases "(p, n) \<in> used_at (a + 24 + b_size b) bs") (auto simp: blk_ok_def split: if_splits)
qed simp

lemma used_at_apart: "extents_apart (used_at a bs)"
proof (induction bs arbitrary: a)
  case (Cons b bs)
  have "a + 24 + b_size b \<le> p" if "(p, n) \<in> used_at (a + 24 + b_size b) bs" for p n
    using used_at_bounds[OF that] by simp
  then show ?case
    using Cons[of "a + 24 + b_size b"] unfolding extents_apart_def
    by (simp split: if_splits) blast
qed (simp add: extents_apart_def)

lemma used_at_inj: "inj_on fst (used_at a bs)"
proof (induction bs arbitrary: a)
  case (Cons b bs)
  have "a + 24 + b_size b + 24 \<le> p" if "(p, n) \<in> used_at (a + 24 + b_size b) bs" for p n
    using used_at_bounds[OF that] by simp
  then show ?case using Cons[of "a + 24 + b_size b"] by (fastforce simp: inj_on_def split: if_splits)
qed simp

lemma used_at_finite: "finite (used_at a bs)"
  by (induction bs arbitrary: a) auto

lemma used_at_taken:
  assumes "\<not> b_used b" "round_size r \<le> b_size b"
  shows "used_at a (xs @ taken b r # remainder b r @ ys) =
    insert (a + span xs + 24, b_size (taken b r)) (used_at a (xs @ b # ys))"
proof -
  have e: "a + span xs + 24 + b_size (taken b r) + span (remainder b r) = a + span xs + 24 + b_size b"
    using remainder_taken_bytes[OF assms] by simp
  have "used_at c (remainder b r) = {}" for c by (simp add: remainder_def rest_blk_def)
  moreover have "b_used (taken b r)" by (simp add: taken_def)
  ultimately show ?thesis using assms(1) e by (simp add: add.assoc)
qed

lemma join_prev_used:
  assumes "ys \<noteq> []" "\<not> b_used (hd ys)"
  shows "used_at a (join_prev xs ys) = used_at a (xs @ ys)" "span (join_prev xs ys) = span (xs @ ys)"
proof -
  obtain y ys' where ys: "ys = y # ys'" using assms(1) by (cases ys) auto
  have "used_at a (join_prev xs ys) = used_at a (xs @ ys) \<and> span (join_prev xs ys) = span (xs @ ys)"
  proof (cases "xs \<noteq> [] \<and> \<not> b_used (last xs)")
    case True
    then obtain xs' z where "xs = xs' @ [z]" "\<not> b_used z" by (cases xs rule: rev_cases) auto
    then show ?thesis using ys assms(2) by (simp add: join_prev_def join_def add.assoc)
  qed (auto simp: join_prev_def)
  then show "used_at a (join_prev xs ys) = used_at a (xs @ ys)" "span (join_prev xs ys) = span (xs @ ys)" by simp_all
qed

lemma used_at_released:
  assumes "b_used b"
  shows "used_at a (release_blocks xs b ys) = used_at a xs \<union> used_at (a + span xs + 24 + b_size b) ys"
proof -
  have n: "join_next (freed b) ys \<noteq> []" "\<not> b_used (hd (join_next (freed b) ys))"
    by (auto simp: join_next_def join_def freed_def)
  have "used_at c (join_next (freed b) ys) = used_at (c + 24 + b_size b) ys" for c
    by (cases ys) (auto simp: join_next_def join_def freed_def add.assoc)
  then show ?thesis unfolding release_blocks_def join_prev_used(1)[OF n] by simp
qed

section \<open>Releasing an address\<close>

lemma u32_bytes_join:
  "(ucast (ucast w :: u8) :: u32) OR push_bit 8 (ucast (ucast (drop_bit 8 w) :: u8)) OR
     push_bit 16 (ucast (ucast (drop_bit 16 w) :: u8)) OR push_bit 24 (ucast (ucast (drop_bit 24 w) :: u8)) = w"
proof (rule bit_word_eqI)
  fix n assume n: "n < LENGTH(32)"
  consider "n < 8" | "8 \<le> n \<and> n < 16" | "16 \<le> n \<and> n < 24" | "24 \<le> n \<and> n < 32" using n by fastforce
  then show "bit ((ucast (ucast w :: u8) :: u32) OR push_bit 8 (ucast (ucast (drop_bit 8 w) :: u8)) OR
     push_bit 16 (ucast (ucast (drop_bit 16 w) :: u8)) OR push_bit 24 (ucast (ucast (drop_bit 24 w) :: u8))) n = bit w n"
    by cases (auto simp: bit_simps)
qed

lemma canary_ok:
  assumes can: "canaries (hmem st) A" and x: "(x, b) \<in> set A" "b_used b"
    and h: "hdrs st (of_nat x) = Some (mk_hdr q x b m)"
  shows "heap_canary_valid st (of_nat x)"
proof -
  have c: "hmem st (of_nat (x + 24 + b_req b + i)) = u32_bytes (HEAP_CANARY XOR of_nat x) ! i" if "i < 4" for i
    using can x that unfolding canaries_def by fastforce
  define k where "k = (HEAP_CANARY XOR of_nat x :: u32)"
  from c[of 0] c[of 1] c[of 2] c[of 3]
  have "read_u32 (of_nat x + 24 + of_nat (b_req b)) st = k"
    unfolding k_def[symmetric]
    by (simp add: read_u32_def u32_bytes_def u32_bytes_join ac_simps)
  then show ?thesis by (simp add: heap_canary_valid_def hdr_at_Some[OF h] k_def)
qed

lemma ptr_aligned: "p < 2 ^ 32 \<Longrightarrow> p mod 8 = 0 \<Longrightarrow> (of_nat p :: u32) AND 7 = 0"
proof -
  assume p: "p < 2 ^ 32" "p mod 8 = 0"
  have "(of_nat p :: u32) AND 7 = take_bit 3 (of_nat p)" by (simp add: take_bit_eq_mask mask_eq_exp_minus_1)
  also have "... = of_nat (take_bit 3 p)" by (simp add: take_bit_of_nat)
  also have "take_bit 3 p = 0" using p(2) by (simp add: take_bit_eq_mod)
  finally show ?thesis by simp
qed

lemma span_mod8: "\<forall>b\<in>set bs. blk_ok b \<Longrightarrow> span bs mod 8 = 0"
  by (induction bs) (auto simp: blk_ok_def mod_add_eq[symmetric])

text \<open>The address of a used block passes every check of \<open>aixos_free\<close> and \<open>aixos_realloc\<close>.\<close>

lemma used_block_checks:
  assumes rep: "heap_rep st (xs @ b # ys)" and u: "b_used b"
  defines "a \<equiv> unat (heap_begin st) + span xs"
  shows "of_nat a + 24 \<noteq> (0 :: u32)" "\<not> of_nat a + 24 < heap_begin st + 24" "\<not> of_nat a + 24 \<ge> heap_end st"
    "\<not> of_nat a < heap_begin st" "\<not> of_nat a + 24 > heap_end st" "(of_nat a + 24 :: u32) AND 7 = 0"
    "heap_header_valid st (of_nat a)" "hh_magic (hdr_at st (of_nat a)) = HEAP_MAGIC_USED"
    "heap_canary_valid st (of_nat a)" "hh_requested_size (hdr_at st (of_nat a)) = of_nat (b_req b)"
proof -
  let ?beg = "unat (heap_begin st)" and ?p = "of_nat a :: u32"
  have R: "0 < ?beg" "?beg mod 8 = 0" "\<forall>b\<in>set (xs @ b # ys). blk_ok b"
    "canaries (hmem st) (addrs ?beg (xs @ b # ys))" "stored (hdrs st) (layout 0 ?beg (xs @ b # ys) 0)"
    using rep by (simp_all add: heap_rep_def)
  note bd = heap_rep_bounds[OF rep, folded a_def]
  have lt: "a + 24 < 2 ^ 32" "a < 2 ^ 32" "a + 24 < unat (heap_end st)" "?beg \<le> a" "?beg + 24 < 2 ^ 32"
    using bd R(3) by (auto simp: blk_ok_def a_def)
  have inA: "(a, b) \<in> set (addrs ?beg (xs @ b # ys))" by (simp add: addrs_append a_def)
  obtain q m where h: "hdrs st ?p = Some (mk_hdr q a b m)" using addrs_stored[OF R(5) inA] by blast
  have up: "unat (?p + 24) = a + 24" using u32_of_nat[OF lt(1)] by simp
  have ub: "unat (heap_begin st + 24) = ?beg + 24" using lt(5) by (simp add: unat_word_ariths)
  have al: "(?p + 24) AND 7 = 0"
    using ptr_aligned[OF lt(1)] R(2,3) span_mod8[of xs] by (simp add: a_def mod_add_eq[symmetric])
  have v: "heap_header_valid st ?p"
    using h R(3) bd lt(4) by (intro mk_hdr_valid[OF h]) auto
  have mg: "hh_magic (hdr_at st ?p) = HEAP_MAGIC_USED" using u by (simp add: hdr_at_Some[OF h])
  have cv: "heap_canary_valid st ?p" by (rule canary_ok[OF R(4) inA u h])
  show "?p + 24 \<noteq> 0" using up by (auto simp: word_unat_eq_iff)
  show "\<not> (?p + 24 < heap_begin st + 24)" "\<not> (?p + 24 \<ge> heap_end st)" "\<not> ?p < heap_begin st" "\<not> ?p + 24 > heap_end st"
    using up ub lt u32_of_nat[OF lt(2)] by (simp_all add: word_less_nat_alt word_le_nat_alt)
  show "(?p + 24) AND 7 = 0" "heap_header_valid st ?p" "hh_magic (hdr_at st ?p) = HEAP_MAGIC_USED"
    "heap_canary_valid st ?p" by (fact al v mg cv)+
  show "hh_requested_size (hdr_at st ?p) = of_nat (b_req b)" by (simp add: hdr_at_Some[OF h])
qed

lemma free_used_block:
  assumes rep: "heap_rep st (xs @ b # ys)" and u: "b_used b"
  defines "a \<equiv> unat (heap_begin st) + span xs"
  shows "aixos_free False (of_nat a + 24) st = heap_release (of_nat a) st"
proof -
  note ok = used_block_checks[OF rep u, folded a_def]
  have sub: "of_nat a + 24 - HEAP_HEADER_SIZE = (of_nat a :: u32)" by simp
  show ?thesis unfolding aixos_free_def Let_def sub using ok by simp
qed

lemma free_other_address:
  assumes rep: "heap_rep st bs" and dead: "unat ptr \<notin> fst ` heap_extents st"
  shows "aixos_free in_isr ptr st \<in> {st, heap_corrupt st}"
proof -
  have "hh_magic (hdr_at st (ptr - 24)) \<noteq> HEAP_MAGIC_USED \<or> ptr < heap_begin st + 24 \<or> ptr = 0 \<or> ptr - 24 < heap_begin st"
  proof (rule ccontr)
    assume n: "\<not> ?thesis"
    then obtain h where h: "hdrs st (ptr - 24) = Some h" "hh_magic h = HEAP_MAGIC_USED"
      by (auto simp: hdr_at_def no_hdr_def split: option.splits)
    have b24: "unat (heap_begin st) + 24 < 2 ^ 32"
      using rep u32_less[of "heap_end st"] by (cases bs) (auto simp: heap_rep_def blk_ok_def)
    then have "unat (heap_begin st + 24) = unat (heap_begin st) + 24" by (simp add: unat_word_ariths)
    then have "24 \<le> unat ptr" using n by (simp add: word_less_nat_alt)
    then have "unat (ptr - 24) + 24 = unat ptr" by (subst unat_sub) (auto simp: word_le_nat_alt)
    then have "unat ptr \<in> fst ` heap_extents st" using h unfolding heap_extents_def by force
    with dead show False by simp
  qed
  then show ?thesis unfolding aixos_free_def Let_def by auto
qed

section \<open>The operations on well-formed heaps\<close>

lemma used_at_split:
  "(p, n) \<in> used_at a bs \<Longrightarrow> \<exists>xs b ys. bs = xs @ b # ys \<and> b_used b \<and> p = a + span xs + 24 \<and> n = b_size b"
  unfolding used_at_def by (fastforce dest: addrs_nth_split)

lemma heap_rep_wf: "heap_rep st bs \<Longrightarrow> heap_wf st"
  by (auto simp: heap_wf_def)

lemma heap_wf_counters: "heap_wf (heap_fail st) = heap_wf st" "heap_wf (heap_corrupt st) = heap_wf st"
  "heap_extents (heap_fail st) = heap_extents st" "heap_extents (heap_corrupt st) = heap_extents st"
  unfolding heap_wf_def heap_rep_counters by (simp_all add: heap_extents_def heap_fail_def heap_corrupt_def)

text \<open>What an allocation does, block by block: nothing, or one free block becomes a used one.\<close>

lemma heap_allocate_blocks:
  assumes rep: "heap_rep st bs"
  defines "beg \<equiv> unat (heap_begin st)"
  shows "\<exists>p st' bs'. heap_allocate in_isr sz kern st = Some (p, st') \<and> heap_rep st' bs' \<and>
    heap_begin st' = heap_begin st \<and>
    (p = 0 \<and> bs' = bs \<and> hmem st' = hmem st \<or>
     p \<noteq> 0 \<and> unat p mod 8 = 0 \<and> (\<exists>x c. (x, c) \<in> set (addrs beg bs') \<and> b_used c \<and> b_req c = asked sz \<and>
        asked sz \<le> b_size c \<and> unat p = x + 24 \<and> unat p \<notin> fst ` used_at beg bs \<and>
        used_at beg bs' = insert (unat p, b_size c) (used_at beg bs) \<and>
        (\<forall>y d. (y, d) \<in> set (addrs beg bs) \<and> b_used d \<longrightarrow> (y, d) \<in> set (addrs beg bs') \<and>
           (\<forall>i < b_size d. hmem st' (of_nat (y + 24 + i)) = hmem st (of_nat (y + 24 + i))))))"
proof -
  let ?r = "asked sz"
  from heap_allocate_rep[OF rep, of in_isr sz kern] show ?thesis
  proof
    assume "\<exists>st'. heap_allocate in_isr sz kern st = Some (0, st') \<and> st' \<in> {st, heap_fail st} \<and>
       (alloc_refused in_isr ?r kern st \<or> (\<forall>b\<in>set bs. b_used b \<or> b_size b < round_size ?r))"
    then obtain st' where st': "heap_allocate in_isr sz kern st = Some (0, st')" "st' = st \<or> st' = heap_fail st" by blast
    then have "heap_rep st' bs \<and> heap_begin st' = heap_begin st \<and> hmem st' = hmem st"
      using rep heap_rep_counters(1)[of st bs] by (auto simp: heap_fail_def)
    then show ?thesis using st'(1) by blast
  next
    assume "\<exists>xs b ys st'. bs = xs @ b # ys \<and> \<not> b_used b \<and> round_size ?r \<le> b_size b \<and>
       \<not> alloc_refused in_isr ?r kern st \<and>
       (\<forall>c\<in>set bs. \<not> b_used c \<and> round_size ?r \<le> b_size c \<longrightarrow> b_size b \<le> b_size c) \<and>
       heap_allocate in_isr sz kern st = Some (of_nat (unat (heap_begin st) + span xs) + 24, st') \<and>
       heap_begin st' = heap_begin st \<and> heap_end st' = heap_end st \<and>
       heap_runtime_locked st' = heap_runtime_locked st \<and>
       (\<forall>x. x < 2 ^ 32 \<and> (x < unat (heap_begin st) + span xs + 24 \<or> unat (heap_begin st) + span xs + 24 + b_size b \<le> x) \<longrightarrow>
          hmem st' (of_nat x) = hmem st (of_nat x)) \<and>
       heap_rep st' (xs @ taken b ?r # remainder b ?r @ ys)"
    then obtain xs b ys st' where bs: "bs = xs @ b # ys" "\<not> b_used b" "round_size ?r \<le> b_size b"
      and al: "heap_allocate in_isr sz kern st = Some (of_nat (beg + span xs) + 24, st')"
      and beg: "heap_begin st' = heap_begin st"
      and mem: "\<forall>x. x < 2 ^ 32 \<and> (x < beg + span xs + 24 \<or> beg + span xs + 24 + b_size b \<le> x) \<longrightarrow>
          hmem st' (of_nat x) = hmem st (of_nat x)"
      and rep': "heap_rep st' (xs @ taken b ?r # remainder b ?r @ ys)"
      unfolding beg_def by (elim exE conjE)
    let ?bs = "xs @ taken b ?r # remainder b ?r @ ys" and ?a = "beg + span xs"
    note bd = heap_rep_bounds[OF rep[unfolded bs(1)], folded beg_def]
    let ?p = "of_nat ?a + 24 :: u32"
    have lt: "?a + 24 < 2 ^ 32" using bd by simp
    have up: "unat ?p = ?a + 24" using u32_of_nat[OF lt] by simp
    have p0: "?p \<noteq> 0" using up by (auto simp: word_unat_eq_iff)
    have m: "unat ?p mod 8 = 0" unfolding up
      using rep bs(1) span_mod8[of xs] by (simp add: heap_rep_def beg_def mod_add_eq[symmetric])
    have fresh: "unat ?p \<notin> fst ` used_at beg bs"
    proof
      assume "unat ?p \<in> fst ` used_at beg bs"
      then obtain n where n: "(?a + 24, n) \<in> used_at beg (xs @ b # ys)" unfolding bs(1) up by force
      have "(?a + 24, n) \<notin> used_at beg xs" using used_at_bounds[of "?a + 24" n beg xs] by force
      moreover have "(?a + 24, n) \<notin> used_at (?a + 24 + b_size b) ys"
        using used_at_bounds[of "?a + 24" n "?a + 24 + b_size b" ys] by force
      ultimately show False using n bs(2) by simp
    qed
    have ext: "used_at beg ?bs = insert (unat ?p, b_size (taken b ?r)) (used_at beg bs)"
      unfolding bs(1) up by (rule used_at_taken[OF bs(2,3)])
    have tk: "b_used (taken b ?r)" "b_req (taken b ?r) = ?r" "?r \<le> b_size (taken b ?r)" "(?a, taken b ?r) \<in> set (addrs beg ?bs)"
      using bs(3) round_size_props[OF asked_pos[of sz]] by (simp_all add: taken_def addrs_append)
    have e: "?a + 24 + b_size (taken b ?r) + span (remainder b ?r) = ?a + 24 + b_size b"
      using remainder_taken_bytes[OF bs(2,3)] by simp
    have keep: "(y, d) \<in> set (addrs beg ?bs) \<and> (\<forall>i < b_size d. hmem st' (of_nat (y + 24 + i)) = hmem st (of_nat (y + 24 + i)))"
      if yd: "(y, d) \<in> set (addrs beg bs)" "b_used d" for y d
    proof -
      have "addrs beg ?bs = addrs beg xs @ (?a, taken b ?r) # addrs (?a + 24 + b_size (taken b ?r)) (remainder b ?r)
         @ addrs (?a + 24 + b_size b) ys"
        unfolding e[symmetric] by (simp add: addrs_append)
      moreover have "(y, d) \<in> set (addrs beg xs) \<or> (y, d) \<in> set (addrs (?a + 24 + b_size b) ys)"
        using yd bs(1,2) by (auto simp: addrs_append)
      moreover have "hmem st' (of_nat (y + 24 + i)) = hmem st (of_nat (y + 24 + i))" if "i < b_size d" for i
      proof -
        have "y + 24 + i < 2 ^ 32 \<and> (y + 24 + i < ?a + 24 \<or> ?a + 24 + b_size b \<le> y + 24 + i)"
          using that calculation(2) bd addrs_bounds[of y d beg xs] addrs_bounds[of y d "?a + 24 + b_size b" ys] by auto
        then show ?thesis using mem by blast
      qed
      ultimately show ?thesis by (auto simp del: of_nat_add)
    qed
    show ?thesis
    proof (rule exI[of _ ?p], rule exI[of _ st'], rule exI[of _ ?bs], intro conjI disjI2 exI[of _ ?a] exI[of _ "taken b ?r"])
    qed (use al rep' beg p0 m tk up fresh ext keep in \<open>blast+\<close>)
  qed
qed

lemma heap_allocate_wf:
  assumes "heap_wf st"
  shows "\<exists>p st'. heap_allocate in_isr sz kern st = Some (p, st') \<and> heap_wf st' \<and>
    (p = 0 \<and> heap_extents st' = heap_extents st \<or>
     p \<noteq> 0 \<and> unat p mod 8 = 0 \<and> (\<exists>n. asked sz \<le> n \<and> unat p \<notin> fst ` heap_extents st \<and>
       heap_extents st' = insert (unat p, n) (heap_extents st)))"
proof -
  obtain bs where rep: "heap_rep st bs" using assms by (auto simp: heap_wf_def)
  from heap_allocate_blocks[OF rep, of in_isr sz kern] obtain p st' bs' where
    al: "heap_allocate in_isr sz kern st = Some (p, st')" and rep': "heap_rep st' bs'" and beg: "heap_begin st' = heap_begin st"
    and d: "p = 0 \<and> bs' = bs \<or> p \<noteq> 0 \<and> unat p mod 8 = 0 \<and> (\<exists>n. asked sz \<le> n \<and>
      unat p \<notin> fst ` used_at (unat (heap_begin st)) bs \<and>
      used_at (unat (heap_begin st)) bs' = insert (unat p, n) (used_at (unat (heap_begin st)) bs))" by metis
  have "heap_extents st' = used_at (unat (heap_begin st)) bs'" using heap_rep_extents[OF rep'] beg by simp
  then show ?thesis
    using al heap_rep_wf[OF rep'] d unfolding heap_rep_extents[OF rep] by metis
qed

lemma heap_merge_fields [simp]:
  "heap_begin (heap_merge_next p st) = heap_begin st" "heap_begin (heap_merge_prev p st) = heap_begin st"
  "heap_free_count (heap_merge_next p st) = heap_free_count st"
  "heap_free_count (heap_merge_prev p st) = heap_free_count st"
  by (simp_all add: heap_merge_next_def heap_merge_prev_def Let_def)

lemma heap_release_fields [simp]:
  "heap_begin (heap_release p st) = heap_begin st"
  "heap_free_count (heap_release p st) = heap_free_count st + 1"
  by (simp_all add: heap_release_def heap_corrupt_def Let_def)

lemma aixos_free_live:
  assumes wf: "heap_wf st" and live: "(unat ptr, n) \<in> heap_extents st"
  shows "heap_wf (aixos_free False ptr st) \<and> heap_extents (aixos_free False ptr st) = heap_extents st - {(unat ptr, n)} \<and>
    heap_free_count (aixos_free False ptr st) = heap_free_count st + 1"
proof -
  obtain bs where rep: "heap_rep st bs" using wf by (auto simp: heap_wf_def)
  let ?beg = "unat (heap_begin st)"
  obtain xs b ys where bs: "bs = xs @ b # ys" "b_used b" "unat ptr = ?beg + span xs + 24" "n = b_size b"
    using used_at_split live unfolding heap_rep_extents[OF rep] by meson
  note rep' = rep[unfolded bs(1)]
  have p: "ptr = of_nat (?beg + span xs) + 24" using u32_of_unat[OF bs(3)] by simp
  have fr: "aixos_free False ptr st = heap_release (of_nat (?beg + span xs)) st"
    unfolding p by (rule free_used_block[OF rep' bs(2)])
  note rel = heap_release_rep[OF rep' bs(2)]
  let ?q = "?beg + span xs + 24"
  have "(?q, n) \<notin> used_at ?beg xs" using used_at_bounds[of ?q n ?beg xs] by force
  moreover have "(?q, n) \<notin> used_at (?q + b_size b) ys"
    using used_at_bounds[of ?q n "?q + b_size b" ys] by force
  ultimately have "used_at ?beg xs \<union> used_at (?q + b_size b) ys =
      used_at ?beg (xs @ b # ys) - {(?q, n)}"
    using bs(2,4) by auto
  then show ?thesis
    unfolding fr heap_rep_extents[OF rel] heap_rep_extents[OF rep'] heap_release_fields used_at_released[OF bs(2)] bs(3)
    using heap_rep_wf[OF rel] by simp
qed

lemma aixos_free_dead:
  assumes wf: "heap_wf st" and dead: "unat ptr \<notin> fst ` heap_extents st"
  shows "heap_wf (aixos_free in_isr ptr st) \<and> heap_extents (aixos_free in_isr ptr st) = heap_extents st \<and>
    heap_free_count (aixos_free in_isr ptr st) = heap_free_count st \<and>
    hdrs (aixos_free in_isr ptr st) = hdrs st \<and> hmem (aixos_free in_isr ptr st) = hmem st"
proof -
  obtain bs where rep: "heap_rep st bs" using wf by (auto simp: heap_wf_def)
  have c: "heap_free_count (heap_corrupt st) = heap_free_count st" "hdrs (heap_corrupt st) = hdrs st"
    "hmem (heap_corrupt st) = hmem st" by (simp_all add: heap_corrupt_def)
  from free_other_address[OF rep dead, of in_isr] consider
    "aixos_free in_isr ptr st = st" | "aixos_free in_isr ptr st = heap_corrupt st" by blast
  then show ?thesis using wf by cases (simp_all add: heap_wf_counters c)
qed

section \<open>The heap as a block allocator\<close>

definition heap_alloc_nat :: "u32 \<Rightarrow> heap_state \<Rightarrow> nat option \<times> heap_state" where
  "heap_alloc_nat sz st = (case aixos_malloc False sz st of
     None \<Rightarrow> (None, st)
   | Some (p, st') \<Rightarrow> (if p = 0 then None else Some (unat p), st'))"

text \<open>A release is accepted when the heap counts it.\<close>

definition heap_free_nat :: "nat \<Rightarrow> heap_state \<Rightarrow> bool \<times> heap_state" where
  "heap_free_nat a st = (if a < 2 ^ 32
     then let st' = aixos_free False (of_nat a) st in (heap_free_count st' \<noteq> heap_free_count st, st')
     else (False, st))"

lemma heap_extents_small: "heap_wf st \<Longrightarrow> (a, n) \<in> heap_extents st \<Longrightarrow> a < 2 ^ 32"
proof -
  assume wf: "heap_wf st" and a: "(a, n) \<in> heap_extents st"
  obtain bs where rep: "heap_rep st bs" using wf by (auto simp: heap_wf_def)
  have "a + n \<le> unat (heap_begin st) + span bs"
    using used_at_bounds[of a n] a unfolding heap_rep_extents[OF rep] by blast
  then show "a < 2 ^ 32" using rep u32_less[of "heap_end st"] by (simp add: heap_rep_def)
qed

lemma heap_alloc_nat_effect:
  assumes "heap_wf s"
  shows "heap_wf (snd (heap_alloc_nat r s)) \<and>
    (case fst (heap_alloc_nat r s) of
       None \<Rightarrow> heap_extents (snd (heap_alloc_nat r s)) = heap_extents s
     | Some a \<Rightarrow> (\<exists>n. asked r \<le> n \<and> a \<notin> fst ` heap_extents s \<and>
                  heap_extents (snd (heap_alloc_nat r s)) = insert (a, n) (heap_extents s)))"
proof -
  from heap_allocate_wf[OF assms, of False r False]
  obtain p st' where *: "heap_allocate False r False s = Some (p, st') \<and> heap_wf st' \<and> (p = 0 \<and> heap_extents st' = heap_extents s \<or>
     p \<noteq> 0 \<and> unat p mod 8 = 0 \<and> (\<exists>n. asked r \<le> n \<and> unat p \<notin> fst ` heap_extents s \<and>
       heap_extents st' = insert (unat p, n) (heap_extents s)))"
    by (elim exE)
  note al = *[THEN conjunct1] and wf = *[THEN conjunct2, THEN conjunct1] and d = *[THEN conjunct2, THEN conjunct2]
  have "heap_alloc_nat r s = (if p = 0 then None else Some (unat p), st')"
    unfolding heap_alloc_nat_def aixos_malloc_def al by simp
  then show ?thesis using wf d by (cases "p = 0") simp_all
qed

interpretation hp: block_allocator heap_wf heap_extents asked heap_alloc_nat heap_free_nat
proof (unfold_locales, goal_cases)
  case (1 s)
  then obtain bs where "heap_rep s bs" by (auto simp: heap_wf_def)
  then show ?case by (simp add: heap_rep_extents used_at_finite)
next
  case (2 s)
  then obtain bs where "heap_rep s bs" by (auto simp: heap_wf_def)
  then show ?case by (simp add: heap_rep_extents used_at_apart)
next
  case (3 s)
  then obtain bs where "heap_rep s bs" by (auto simp: heap_wf_def)
  then show ?case by (simp add: heap_rep_extents used_at_inj)
next
  case (4 s r)
  then show ?case using heap_alloc_nat_effect by blast
next
  case (5 s a)
  show ?case
  proof (cases "a < 2 ^ 32")
    case True
    then have a: "unat (of_nat a :: u32) = a" by (rule u32_of_nat)
    show ?thesis
    proof (cases "a \<in> fst ` heap_extents s")
      case t: True
      then obtain n where "(unat (of_nat a :: u32), n) \<in> heap_extents s" using a by auto
      from aixos_free_live[OF 5 this] True show ?thesis by (simp add: heap_free_nat_def Let_def)
    next
      case False
      then have "unat (of_nat a :: u32) \<notin> fst ` heap_extents s" using a by simp
      from aixos_free_dead[OF 5 this] True show ?thesis by (simp add: heap_free_nat_def Let_def)
    qed
  qed (simp add: heap_free_nat_def 5)
next
  case (6 s r s')
  then show ?case using heap_alloc_nat_effect[OF 6(1), of r] by simp
next
  case (7 s r a s')
  then show ?case using heap_alloc_nat_effect[OF 7(1), of r] by simp
next
  case (8 s a n)
  have "a < 2 ^ 32" by (rule heap_extents_small[OF 8])
  then have a: "unat (of_nat a :: u32) = a" "a < 2 ^ 32" by (simp_all add: u32_of_nat)
  from aixos_free_live[OF 8(1), of "of_nat a" n] 8(2) a(2) show ?case by (simp add: a(1) heap_free_nat_def Let_def)
next
  case (9 s a)
  show ?case
  proof (cases "a < 2 ^ 32")
    case True
    then have a: "unat (of_nat a :: u32) = a" by (rule u32_of_nat)
    from aixos_free_dead[OF 9(1), of "of_nat a" False] 9(2) show ?thesis by (simp add: a heap_free_nat_def Let_def)
  qed (simp add: heap_free_nat_def)
qed

end
