(* ===== verification/Kheap_Run.thy ===== *)
theory Kheap_Run
  imports Kheap_Spec
begin

text \<open>
  Whole runs of the heap: initialisation, any sequence of calls by a client that writes only inside
  its allocations, and what \<open>aixos_heap_check\<close>, \<open>aixos_mem_info\<close> and \<open>aixos_realloc\<close> then do.
\<close>

section \<open>Writing into a payload\<close>

lemma addrs_apart:
  "(x, b) \<in> set (addrs a bs) \<Longrightarrow> (y, c) \<in> set (addrs a bs) \<Longrightarrow>
   (x, b) = (y, c) \<or> x + 24 + b_size b \<le> y \<or> y + 24 + b_size c \<le> x"
proof (induction bs arbitrary: a)
  case (Cons d bs)
  show ?case
    using Cons.prems Cons.IH[of "a + 24 + b_size d"]
      addrs_bounds[of x b "a + 24 + b_size d" bs] addrs_bounds[of y c "a + 24 + b_size d" bs] by auto
qed simp

lemma layout_addrs: "(y, h) \<in> set (layout p a bs n) \<Longrightarrow> \<exists>c. (y, c) \<in> set (addrs a bs)"
  by (induction bs arbitrary: p a) auto

lemma addrs_in: "(x, b) \<in> set (addrs a bs) \<Longrightarrow> b \<in> set bs"
  by (induction bs arbitrary: a) auto

text \<open>A write that meets no header and no canary.\<close>

lemma write_apart_rep:
  assumes rep: "heap_rep st bs" and a: "unat a + length l \<le> 2 ^ 32"
    and apart: "\<And>y c. (y, c) \<in> set (addrs (unat (heap_begin st)) bs) \<Longrightarrow>
      (y + 24 \<le> unat a \<or> unat a + length l \<le> y) \<and>
      (b_used c \<longrightarrow> y + 24 + b_req c + 4 \<le> unat a \<or> unat a + length l \<le> y + 24 + b_req c)"
  shows "heap_rep (write_bytes a l st) bs"
proof -
  let ?beg = "unat (heap_begin st)" and ?st = "write_bytes a l st"
  have R: "stored (hdrs st) (layout 0 ?beg bs 0)" "canaries (hmem st) (addrs ?beg bs)"
    "used_live (hdrs st) (addrs ?beg bs)" "\<forall>b\<in>set bs. blk_ok b" "?beg + span bs = unat (heap_end st)"
    using rep by (simp_all add: heap_rep_def)
  have lt: "?beg + span bs < 2 ^ 32" using R(5) u32_less[of "heap_end st"] by simp
  have st: "stored (hdrs ?st) (layout 0 ?beg bs 0)"
  proof (rule stored_cong[OF R(1)])
    fix y h assume y: "(y, h) \<in> set (layout 0 ?beg bs 0)"
    then obtain c where c: "(y, c) \<in> set (addrs ?beg bs)" using layout_addrs by blast
    then have y32: "y < 2 ^ 32" using addrs_bounds lt by fastforce
    from clobber_outside[OF y32] apart[OF c] show "hdrs ?st (of_nat y) = hdrs st (of_nat y)" by simp
  qed
  have can: "canaries (hmem ?st) (addrs ?beg bs)"
    unfolding canaries_def
  proof (intro ballI, clarify)
    fix y c i assume yc: "(y, c) \<in> set (addrs ?beg bs)" "b_used c" "i < (4::nat)"
    have c: "b_req c + 4 \<le> b_size c" using R(4) addrs_in[OF yc(1)] yc(2) by (auto simp: blk_ok_def)
    have "unat (of_nat (y + 24 + b_req c + i) :: u32) = y + 24 + b_req c + i"
      using addrs_bounds[OF yc(1)] lt c yc(3) by (intro u32_of_nat) simp
    moreover have "\<not> (unat a \<le> y + 24 + b_req c + i \<and> y + 24 + b_req c + i < unat a + length l)"
      using apart[OF yc(1)] yc(2,3) by auto
    ultimately have "hmem ?st (of_nat (y + 24 + b_req c + i)) = hmem st (of_nat (y + 24 + b_req c + i))"
      by (auto simp: write_bytes_def simp del: of_nat_add)
    then show "hmem ?st (of_nat (y + 24 + b_req c + i)) = u32_bytes (HEAP_CANARY XOR of_nat y) ! i"
      using R(2) yc unfolding canaries_def by fastforce
  qed
  have live: "used_live (hdrs ?st) (addrs ?beg bs)"
    by (rule used_live_step[OF R(3)]) (auto dest: clobber_Some)
  show ?thesis
    using rep st can live unfolding heap_rep_def by simp
qed

text \<open>A write into an allocated block.\<close>

lemma write_inside_rep:
  assumes rep: "heap_rep st bs" and x: "(x, b) \<in> set (addrs (unat (heap_begin st)) bs)" "b_used b"
    and l: "x + 24 \<le> unat a" "unat a + length l \<le> x + 24 + b_req b"
  shows "heap_rep (write_bytes a l st) bs"
proof (rule write_apart_rep[OF rep])
  have R: "\<forall>b\<in>set bs. blk_ok b" "unat (heap_begin st) + span bs = unat (heap_end st)" using rep by (simp_all add: heap_rep_def)
  have b: "b_req b + 4 \<le> b_size b" using R(1) addrs_in[OF x(1)] x(2) by (auto simp: blk_ok_def)
  show "unat a + length l \<le> 2 ^ 32" using addrs_bounds[OF x(1)] R(2) u32_less[of "heap_end st"] b l by simp
  fix y c assume y: "(y, c) \<in> set (addrs (unat (heap_begin st)) bs)"
  have "b_used c \<Longrightarrow> b_req c + 4 \<le> b_size c" using R(1) addrs_in[OF y] by (auto simp: blk_ok_def)
  then show "(y + 24 \<le> unat a \<or> unat a + length l \<le> y) \<and>
      (b_used c \<longrightarrow> y + 24 + b_req c + 4 \<le> unat a \<or> unat a + length l \<le> y + 24 + b_req c)"
    using addrs_apart[OF x(1) y] b l by auto
qed

lemma write_payload_rep:
  assumes rep: "heap_rep st bs" and x: "(x, b) \<in> set (addrs (unat (heap_begin st)) bs)" "b_used b"
    and l: "length l \<le> b_req b"
  shows "heap_rep (write_bytes (of_nat (x + 24)) l st) bs"
proof (rule write_inside_rep[OF rep x])
  have "x + 24 < 2 ^ 32"
    using addrs_bounds[OF x(1)] rep u32_less[of "heap_end st"] unfolding heap_rep_def by linarith
  then have "unat (of_nat (x + 24) :: u32) = x + 24" by (rule u32_of_nat)
  then show "x + 24 \<le> unat (of_nat (x + 24) :: u32)" "unat (of_nat (x + 24) :: u32) + length l \<le> x + 24 + b_req b" using l by simp_all
qed

text \<open>A used header belongs to a block.\<close>

lemma used_header_block:
  assumes rep: "heap_rep st bs" and u: "hh_magic (hdr_at st k) = HEAP_MAGIC_USED"
  shows "\<exists>x b. (x, b) \<in> set (addrs (unat (heap_begin st)) bs) \<and> b_used b \<and> unat k = x \<and>
     hh_requested_size (hdr_at st k) = of_nat (b_req b) \<and> b_req b < 2 ^ 32 \<and> b_req b + 4 \<le> b_size b \<and>
     unat (k + 24) = x + 24"
proof -
  obtain h where h: "hdrs st k = Some h" "hh_magic h = HEAP_MAGIC_USED"
    using u by (auto simp: hdr_at_def no_hdr_def split: option.splits)
  have "used_live (hdrs st) (addrs (unat (heap_begin st)) bs)" using rep by (simp add: heap_rep_def)
  then obtain x b where x: "(x, b) \<in> set (addrs (unat (heap_begin st)) bs)" "k = of_nat x" "b_used b"
    using h unfolding used_live_def by fastforce
  have "stored (hdrs st) (layout 0 (unat (heap_begin st)) bs 0)" using rep by (simp add: heap_rep_def)
  then obtain q m where "hdrs st k = Some (mk_hdr q x b m)" using addrs_stored x by blast
  then have r: "hh_requested_size (hdr_at st k) = of_nat (b_req b)" by (simp add: hdr_at_Some)
  have lt: "unat (heap_begin st) + span bs < 2 ^ 32" using rep u32_less[of "heap_end st"] by (simp add: heap_rep_def)
  have "blk_ok b" using rep addrs_in[OF x(1)] by (simp add: heap_rep_def)
  then have b: "b_req b + 4 \<le> b_size b" using x(3) by (simp add: blk_ok_def)
  have "x + 24 < 2 ^ 32" "b_req b < 2 ^ 32" "x < 2 ^ 32" using addrs_bounds[OF x(1)] lt b by simp_all
  then show ?thesis using x r b u32_of_nat[of x] u32_of_nat[of "x + 24"] by auto
qed

lemma aixos_free_rep:
  assumes rep: "heap_rep st bs"
  shows "\<exists>bs'. heap_rep (aixos_free in_isr p st) bs'"
proof (cases "in_isr")
  case True
  then have "aixos_free in_isr p st = st" by (simp add: aixos_free_def)
  then show ?thesis using rep by auto
next
  case False
  have wf: "heap_wf st" by (rule heap_rep_wf[OF rep])
  have "heap_wf (aixos_free False p st)"
  proof (cases "unat p \<in> fst ` heap_extents st")
    case True
    then obtain n where "(unat p, n) \<in> heap_extents st" by auto
    then show ?thesis using aixos_free_live[OF wf] by blast
  qed (use aixos_free_dead[OF wf] in blast)
  then show ?thesis using False by (simp add: heap_wf_def)
qed

section \<open>calloc and realloc\<close>

lemma aixos_calloc_rep:
  assumes rep: "heap_rep st bs"
  shows "\<exists>p st'. aixos_calloc in_isr count sz st = Some (p, st') \<and> heap_wf st'"
proof (cases "sz \<noteq> 0 \<and> count > (- 1) div sz")
  case True
  then show ?thesis using heap_rep_wf[OF rep] by (simp add: aixos_calloc_def)
next
  case False
  from heap_allocate_blocks[OF rep, of in_isr "count * sz" False] obtain p st' bs' where
    al: "heap_allocate in_isr (count * sz) False st = Some (p, st')" and rep': "heap_rep st' bs'"
    and beg: "heap_begin st' = heap_begin st"
    and d: "p = 0 \<or> (\<exists>x c. (x, c) \<in> set (addrs (unat (heap_begin st)) bs') \<and> b_used c \<and>
       b_req c = asked (count * sz) \<and> unat p = x + 24)" by metis
  have unf: "aixos_calloc in_isr count sz st =
      Some (p, if p \<noteq> 0 then write_bytes p (replicate (unat (count * sz)) 0) st' else st')"
    using False al by (auto simp: aixos_calloc_def aixos_malloc_def)
  have "heap_wf (if p \<noteq> 0 then write_bytes p (replicate (unat (count * sz)) 0) st' else st')"
  proof (cases "p = 0")
    case False
    then obtain x c where x: "(x, c) \<in> set (addrs (unat (heap_begin st')) bs')" "b_used c"
      "b_req c = asked (count * sz)" "unat p = x + 24" using d beg by auto
    have "length (replicate (unat (count * sz)) (0 :: u8)) \<le> b_req c" using x(3) by (simp add: asked_def)
    from write_payload_rep[OF rep' x(1,2) this] show ?thesis
      using False heap_rep_wf u32_of_unat[OF x(4)] by simp
  qed (use heap_rep_wf[OF rep'] in simp)
  then show ?thesis using unf by blast
qed

lemma read_bytes_length [simp]: "length (read_bytes a n st) = n"
  by (simp add: read_bytes_def)

lemma aixos_malloc_wf:
  assumes "heap_rep st bs"
  shows "\<exists>p st'. aixos_malloc in_isr sz st = Some (p, st') \<and> heap_wf st'"
  using heap_allocate_wf[OF heap_rep_wf[OF assms], of in_isr sz False] by (auto simp: aixos_malloc_def)

text \<open>The part of \<open>aixos_realloc\<close> after the checks, on a used block.\<close>

lemma realloc_moves:
  assumes rep: "heap_rep st bs" and u: "hh_magic (hdr_at st hdr) = HEAP_MAGIC_USED"
    and al: "aixos_malloc in_isr new_size st = Some (newp, st')" "newp \<noteq> 0" "new_size \<noteq> 0"
    and n: "n = unat (if hh_requested_size (hdr_at st hdr) < new_size then hh_requested_size (hdr_at st hdr) else new_size)"
  defines "st2 \<equiv> write_bytes newp (read_bytes (hdr + 24) n st') st'"
  shows "\<exists>bs'. heap_rep st2 bs'" and "\<forall>i < n. hmem st2 (newp + of_nat i) = hmem st (hdr + 24 + of_nat i)"
proof -
  let ?beg = "unat (heap_begin st)"
  from heap_allocate_blocks[OF rep, of in_isr new_size False] al obtain bs' x c where
    rep': "heap_rep st' bs'" and beg: "heap_begin st' = heap_begin st" and
    x: "(x, c) \<in> set (addrs ?beg bs')" "b_used c" "b_req c = asked new_size" "unat newp = x + 24"
       "unat newp \<notin> fst ` used_at ?beg bs"
    and keep: "\<forall>y d. (y, d) \<in> set (addrs ?beg bs) \<and> b_used d \<longrightarrow> (y, d) \<in> set (addrs ?beg bs') \<and>
           (\<forall>i < b_size d. hmem st' (of_nat (y + 24 + i)) = hmem st (of_nat (y + 24 + i)))"
    by (auto simp: aixos_malloc_def)
  obtain y d where y: "(y, d) \<in> set (addrs ?beg bs)" "b_used d" "unat hdr = y"
     "hh_requested_size (hdr_at st hdr) = of_nat (b_req d)" "b_req d < 2 ^ 32" "b_req d + 4 \<le> b_size d" "unat (hdr + 24) = y + 24"
    using used_header_block[OF rep u] by blast
  have nd: "n \<le> b_req d" "n \<le> unat new_size"
    using u32_of_nat[OF y(5)] unfolding n y(4) by (auto simp: word_less_nat_alt)
  have nc: "length (read_bytes (hdr + 24) n st') \<le> b_req c" using nd(2) x(3) al(3) by (simp add: asked_def)
  have p: "newp = of_nat (x + 24)" by (rule u32_of_unat[OF x(4)])
  show "\<exists>bs'. heap_rep st2 bs'"
    unfolding st2_def p by (rule exI, rule write_payload_rep[OF rep' x(1)[folded beg] x(2) nc])
  show "\<forall>i < n. hmem st2 (newp + of_nat i) = hmem st (hdr + 24 + of_nat i)"
  proof (intro allI impI)
    fix i assume i: "i < n"
    have lt: "?beg + span bs' < 2 ^ 32" using rep' beg u32_less[of "heap_end st'"] by (simp add: heap_rep_def)
    have bc: "b_req c + 4 \<le> b_size c" using rep' addrs_in[OF x(1)] x(2) by (auto simp: heap_rep_def blk_ok_def)
    have xi: "unat (newp + of_nat i) = x + 24 + i"
    proof -
      have "x + 24 + i < 2 ^ 32" using addrs_bounds[OF x(1)] lt bc nc i by simp
      then show ?thesis unfolding p by (metis of_nat_add u32_of_nat)
    qed
    have hi: "hdr + 24 + of_nat i = of_nat (y + 24 + i)" using u32_of_unat[OF y(7)] by simp
    have "hmem st2 (newp + of_nat i) = read_bytes (hdr + 24) n st' ! i"
      unfolding st2_def using xi x(4) i by (simp add: write_bytes_def)
    also have "... = hmem st' (hdr + 24 + of_nat i)" using i by (simp add: read_bytes_def)
    also have "... = hmem st (hdr + 24 + of_nat i)"
      unfolding hi using keep y(1,2,6) nd(1) i by auto
    finally show "hmem st2 (newp + of_nat i) = hmem st (hdr + 24 + of_nat i)" .
  qed
qed

lemma realloc_ok:
  assumes "ptr \<noteq> 0" "new_size \<noteq> 0" "\<not> (in_isr \<or> ptr < heap_begin st + 24 \<or> ptr \<ge> heap_end st \<or> heap_runtime_locked st \<or>
        \<not> heap_header_valid st (ptr - 24) \<or> hh_magic (hdr_at st (ptr - 24)) \<noteq> HEAP_MAGIC_USED \<or> \<not> heap_canary_valid st (ptr - 24))"
    and "aixos_malloc in_isr new_size st = Some (p, st')"
  shows "aixos_realloc in_isr ptr new_size st = Some (p, if p \<noteq> 0 then
        aixos_free in_isr ptr (write_bytes p (read_bytes ptr (unat (if hh_requested_size (hdr_at st (ptr - 24)) < new_size
          then hh_requested_size (hdr_at st (ptr - 24)) else new_size)) st') st') else st')"
  using assms by (simp add: aixos_realloc_def Let_def)

lemma aixos_realloc_rep:
  assumes rep: "heap_rep st bs"
  shows "\<exists>p st'. aixos_realloc in_isr ptr new_size st = Some (p, st') \<and> heap_wf st'"
proof -
  have wf: "heap_wf st" by (rule heap_rep_wf[OF rep])
  let ?hdr = "ptr - 24"
  consider (none) "ptr = 0" | (zero) "ptr \<noteq> 0" "new_size = 0"
    | (bad) "ptr \<noteq> 0" "new_size \<noteq> 0" "in_isr \<or> ptr < heap_begin st + 24 \<or> ptr \<ge> heap_end st \<or> heap_runtime_locked st \<or>
        \<not> heap_header_valid st ?hdr \<or> hh_magic (hdr_at st ?hdr) \<noteq> HEAP_MAGIC_USED \<or> \<not> heap_canary_valid st ?hdr"
    | (ok) "ptr \<noteq> 0" "new_size \<noteq> 0" "\<not> (in_isr \<or> ptr < heap_begin st + 24 \<or> ptr \<ge> heap_end st \<or> heap_runtime_locked st \<or>
        \<not> heap_header_valid st ?hdr \<or> hh_magic (hdr_at st ?hdr) \<noteq> HEAP_MAGIC_USED \<or> \<not> heap_canary_valid st ?hdr)"
    by blast
  then show ?thesis
  proof cases
    case none
    then show ?thesis using aixos_malloc_wf[OF rep] by (simp add: aixos_realloc_def)
  next
    case zero
    then show ?thesis using aixos_free_rep[OF rep] by (simp add: aixos_realloc_def heap_wf_def)
  next
    case bad
    then have "aixos_realloc in_isr ptr new_size st \<in> {Some (0, st), Some (0, heap_fail st), Some (0, heap_corrupt st)}"
      by (auto simp: aixos_realloc_def Let_def)
    then show ?thesis using wf heap_wf_counters by blast
  next
    case ok
    obtain p st' where al: "aixos_malloc in_isr new_size st = Some (p, st')" and wf': "heap_wf st'"
      using aixos_malloc_wf[OF rep] by blast
    let ?old = "hh_requested_size (hdr_at st ?hdr)"
    have unf: "aixos_realloc in_isr ptr new_size st = Some (p, if p \<noteq> 0 then
        aixos_free in_isr ptr (write_bytes p (read_bytes ptr (unat (if ?old < new_size then ?old else new_size)) st') st') else st')"
      by (rule realloc_ok[OF ok al])
    show ?thesis
    proof (cases "p = 0")
      case False
      let ?w = "write_bytes p (read_bytes ptr (unat (if ?old < new_size then ?old else new_size)) st') st'"
      obtain bs2 where "heap_rep ?w bs2"
        using realloc_moves(1)[OF rep _ al False ok(2) refl, of ?hdr, unfolded diff_add_cancel] ok(3) by blast
      from aixos_free_rep[OF this, of in_isr ptr] obtain bs3 where "heap_rep (aixos_free in_isr ptr ?w) bs3" by blast
      then have "\<exists>bs'. heap_rep (aixos_free in_isr ptr ?w) bs'" by blast
      then show ?thesis using unf False by (simp add: heap_wf_def)
    qed (use unf wf' in simp)
  qed
qed

section \<open>Checking and measuring a well-formed heap\<close>

lemma heap_check_loop_rep:
  assumes "stored (hdrs st) (layout prev a bs 0)" "\<forall>b\<in>set bs. blk_ok b" "canaries (hmem st) (addrs a bs)"
    and "unat (heap_begin st) \<le> a" "a + span bs = unat (heap_end st)" "0 < a"
  shows "heap_check_loop st (if bs = [] then 0 else of_nat a) prev = Some True"
  using assms
proof (induction bs arbitrary: prev a)
  case (Cons b bs)
  have e: "unat (heap_end st) < 2 ^ 32" by (rule u32_less)
  have hi: "a + 24 + b_size b \<le> unat (heap_end st)" using Cons.prems(5) by simp
  have ok: "blk_ok b" using Cons.prems(2) by simp
  note hdr = stored_valid[OF Cons.prems(1) ok Cons.prems(4) hi]
  let ?n = "if bs = [] then 0 else of_nat (a + 24 + b_size b) :: u32"
  have h: "hdrs st (of_nat a) = Some (mk_hdr prev a b ?n)" using Cons.prems(1) by simp
  have a0: "(of_nat a :: u32) \<noteq> 0" using Cons.prems(6) hi e of_nat_u32_eq[of a 0] by simp
  have cv: "b_used b \<Longrightarrow> heap_canary_valid st (of_nat a)"
    using canary_ok[OF Cons.prems(3) _ _ h] by simp
  have can': "canaries (hmem st) (addrs (a + 24 + b_size b) bs)" using Cons.prems(3) by (simp add: canaries_def)
  have tl: "heap_check_loop st ?n (of_nat a) = Some True"
    by (rule Cons.IH) (use Cons.prems can' in simp_all)
  show ?case
    by (subst heap_check_loop.simps) (use a0 hdr cv tl in \<open>simp add: Let_def\<close>)
qed (subst heap_check_loop.simps, simp)

lemma heap_check_wf: "heap_wf st \<Longrightarrow> aixos_heap_check st = Some (AIXOS_OK, st)"
proof -
  assume "heap_wf st"
  then obtain bs where rep: "heap_rep st bs" by (auto simp: heap_wf_def)
  have "heap_check_loop st (if bs = [] then 0 else of_nat (unat (heap_begin st))) 0 = Some True"
    by (rule heap_check_loop_rep) (use rep in \<open>simp_all add: heap_rep_def\<close>)
  then show ?thesis using rep by (simp add: aixos_heap_check_def heap_rep_def)
qed

definition free_sizes :: "hblk list \<Rightarrow> nat list" where
  "free_sizes bs = map b_size (filter (\<lambda>b. \<not> b_used b) bs)"

lemma free_sizes_simps [simp]:
  "free_sizes [] = []" "free_sizes (b # bs) = (if b_used b then free_sizes bs else b_size b # free_sizes bs)"
  by (simp_all add: free_sizes_def)

lemma mem_info_loop_rep:
  assumes "stored (hdrs st) (layout prev a bs 0)" "\<forall>b\<in>set bs. blk_ok b"
    and "unat (heap_begin st) \<le> a" "a + span bs = unat (heap_end st)" "0 < a" "mx < 2 ^ 32"
  shows "mem_info_loop st (if bs = [] then 0 else of_nat a) (of_nat f, of_nat mx, of_nat c) =
    Some (False, of_nat (f + sum_list (free_sizes bs)), of_nat (fold max (free_sizes bs) mx),
          of_nat (c + length (free_sizes bs)))"
  using assms
proof (induction bs arbitrary: prev a f mx c)
  case (Cons b bs)
  have e: "unat (heap_end st) < 2 ^ 32" by (rule u32_less)
  have hi: "a + 24 + b_size b \<le> unat (heap_end st)" using Cons.prems(4) by simp
  have ok: "blk_ok b" using Cons.prems(2) by simp
  note hdr = stored_valid[OF Cons.prems(1) ok Cons.prems(3) hi]
  let ?n = "if bs = [] then 0 else of_nat (a + 24 + b_size b) :: u32"
  have a0: "(of_nat a :: u32) \<noteq> 0" using Cons.prems(5) hi e of_nat_u32_eq[of a 0] by simp
  have sz: "b_size b < 2 ^ 32" using hi e by simp
  have mxs: "(if (of_nat (b_size b) :: u32) > of_nat mx then of_nat (b_size b) else of_nat mx) = (of_nat (max (b_size b) mx) :: u32)"
    using u32_of_nat[OF sz] u32_of_nat[OF Cons.prems(6)] by (simp add: word_less_nat_alt max_def)
  have tl: "mem_info_loop st ?n (of_nat f', of_nat mx', of_nat c') =
    Some (False, of_nat (f' + sum_list (free_sizes bs)), of_nat (fold max (free_sizes bs) mx'),
          of_nat (c' + length (free_sizes bs)))" if "mx' < 2 ^ 32" for f' mx' c'
    by (rule Cons.IH[where prev = "of_nat a"]) (use Cons.prems that in simp_all)
  have mx2: "max (b_size b) mx < 2 ^ 32" using sz Cons.prems(6) by simp
  have step: "mem_info_loop st (of_nat a) (of_nat f, of_nat mx, of_nat c) =
     mem_info_loop st ?n (if b_used b then (of_nat f, of_nat mx, of_nat c)
       else (of_nat (f + b_size b), of_nat (max (b_size b) mx), of_nat (c + 1)))"
  proof -
    have m: "(hh_magic (hdr_at st (of_nat a)) = HEAP_MAGIC_FREE) = (\<not> b_used b)" by (simp add: hdr(2))
    have n: "hh_next (hdr_at st (of_nat a)) = ?n" and s: "hh_size (hdr_at st (of_nat a)) = of_nat (b_size b)"
      by (simp_all add: hdr(2))
    show ?thesis
      by (subst mem_info_loop.simps, cases "b_used b")
        (simp_all only: a0 hdr(1) m n s mxs Let_def prod.case if_False if_True not_True_eq_False not_False_eq_True
          simp_thms of_nat_add of_nat_1)
  qed
  show ?case
  proof (cases "b_used b")
    case True
    then show ?thesis using step tl[OF Cons.prems(6), of f c] by simp
  next
    case False
    then show ?thesis using step tl[OF mx2, of "f + b_size b" "c + 1"] by (simp add: add.assoc)
  qed
qed (subst mem_info_loop.simps, simp)

section \<open>Initialisation\<close>

definition init_block :: "nat \<Rightarrow> hblk" where
  "init_block n = \<lparr>b_size = n - 24, b_used = False, b_req = 0\<rparr>"

lemma heap_init_rep:
  assumes "start \<noteq> 0" "unat start mod 8 = 0" "32 \<le> unat sz" "unat start + unat sz < 2 ^ 32"
    and "\<forall>k h. hdrs st k = Some h \<longrightarrow> hh_magic h \<noteq> HEAP_MAGIC_USED"
  shows "heap_rep (aixos_heap_init pool start sz st) [init_block (unat sz div 8 * 8)]"
proof -
  define n where "n = unat sz div 8 * 8"
  have n: "32 \<le> n" "n mod 8 = 0" "n \<le> unat sz" using assms(3) by (auto simp: n_def)
  have n32: "n < 2 ^ 32" using n(3) u32_less[of sz] by simp
  have sz: "(sz AND NOT (HEAP_ALIGN - 1)) = of_nat n"
  proof (rule u32_of_unat)
    have "unat (sz div 8 * 8) = n"
      using n32 by (simp add: n_def unat_div unat_word_ariths)
    then show "unat (sz AND NOT (HEAP_ALIGN - 1)) = n" using and_not_7[of sz] by simp
  qed
  then have sz: "sz AND - 8 = of_nat n" by simp
  have ge: "sz \<ge> HEAP_HEADER_SIZE + HEAP_ALIGN" using assms(3) by (simp add: word_le_nat_alt)
  have n24: "of_nat n - HEAP_HEADER_SIZE = (of_nat (n - 24) :: u32)" using n(1) by (simp add: of_nat_diff)
  have en: "unat (start + of_nat n) = unat start + n"
    using n(3) assms(4) u32_of_nat[OF n32] by (simp add: unat_word_ariths)
  have su: "of_nat (unat start) = start" by simp
  let ?s = "aixos_heap_init pool start sz st"
  have f: "heap_first ?s = start" "heap_begin ?s = start" "heap_end ?s = start + of_nat n" "heap_total ?s = of_nat n"
    "heap_initialized ?s" "heap_current_used ?s = 0" "heap_alloc_count ?s = 0" "heap_free_count ?s = 0"
    using assms(1) ge by (simp_all add: aixos_heap_init_def Let_def sz)
  have h: "hdrs ?s = (clobber (unat start) 24 (hdrs st))(start \<mapsto> mk_hdr 0 (unat start) (init_block n) 0)"
    using assms(1) ge
    by (auto simp: aixos_heap_init_def Let_def sz n24 write_hdr_def hdr_at_def init_block_def mk_hdr_def heap_header_guard_def)
  have live: "used_live (hdrs ?s) (addrs (unat start) [init_block n])"
    unfolding used_live_def h using assms(5) by (auto simp: init_block_def mk_hdr_def dest: clobber_Some split: if_splits)
  have "blk_ok (init_block n)" using n by (auto simp: blk_ok_def init_block_def mod_simps)
  moreover have "0 < unat start" using assms(1) by (simp add: unat_gt_0)
  moreover have "span [init_block n] = n" using n(1) by (simp add: init_block_def)
  ultimately show ?thesis
    unfolding n_def[symmetric] heap_rep_def f using f(5) live h assms(2) en n(1)
    by (simp add: init_block_def canaries_def)
qed

section \<open>Runs\<close>

text \<open>The calls a client can make. \<open>HWrite p bs\<close> is the client writing \<open>bs\<close> at the start of its
  allocation \<open>p\<close>; a write that does not fit in a current allocation does nothing.\<close>

datatype heap_op =
    HMalloc bool u32
  | HKernelMalloc bool u32
  | HCalloc bool u32 u32
  | HRealloc bool u32 u32
  | HFree bool u32
  | HWrite u32 "u8 list"
  | HLockdown bool
  | HCheck
  | HMemInfo

definition heap_step :: "heap_op \<Rightarrow> heap_state \<Rightarrow> heap_state option" where
  "heap_step op st = (case op of
     HMalloc isr sz \<Rightarrow> map_option snd (aixos_malloc isr sz st)
   | HKernelMalloc isr sz \<Rightarrow> map_option snd (aixos_kernel_malloc isr sz st)
   | HCalloc isr count sz \<Rightarrow> map_option snd (aixos_calloc isr count sz st)
   | HRealloc isr p sz \<Rightarrow> map_option snd (aixos_realloc isr p sz st)
   | HFree isr p \<Rightarrow> Some (aixos_free isr p st)
   | HWrite p bs \<Rightarrow>
       let h = hdr_at st (p - HEAP_HEADER_SIZE)
       in Some (if hh_magic h = HEAP_MAGIC_USED \<and> length bs \<le> unat (hh_requested_size h)
                then write_bytes p bs st else st)
   | HLockdown isr \<Rightarrow> Some (aixos_heap_lockdown isr st)
   | HCheck \<Rightarrow> map_option snd (aixos_heap_check st)
   | HMemInfo \<Rightarrow> map_option snd (aixos_mem_info st))"

fun heap_run :: "heap_op list \<Rightarrow> heap_state \<Rightarrow> heap_state option" where
  "heap_run [] st = Some st"
| "heap_run (op # ops) st = Option.bind (heap_step op st) (heap_run ops)"

lemma heap_write_wf:
  assumes rep: "heap_rep st bs" and u: "hh_magic (hdr_at st (p - 24)) = HEAP_MAGIC_USED"
    and l: "length l \<le> unat (hh_requested_size (hdr_at st (p - 24)))"
  shows "heap_wf (write_bytes p l st)"
proof -
  obtain x b where x: "(x, b) \<in> set (addrs (unat (heap_begin st)) bs)" "b_used b"
    "hh_requested_size (hdr_at st (p - 24)) = of_nat (b_req b)" "b_req b < 2 ^ 32" "unat (p - 24 + 24) = x + 24"
    using used_header_block[OF rep u] by blast
  have "length l \<le> b_req b" using l x(3) u32_of_nat[OF x(4)] by simp
  moreover have "p = of_nat (x + 24)" using u32_of_unat[OF x(5)] by simp
  ultimately show ?thesis using write_payload_rep[OF rep x(1,2)] heap_rep_wf by blast
qed

lemma mem_info_wf:
  assumes rep: "heap_rep st bs"
  shows "\<exists>info. aixos_mem_info st = Some (info, st) \<and>
    mi_total_bytes info = of_nat (span bs) \<and>
    mi_free_bytes info = of_nat (sum_list (free_sizes bs)) \<and>
    mi_used_bytes info = of_nat (span bs) - of_nat (sum_list (free_sizes bs)) \<and>
    mi_max_free_block info = of_nat (fold max (free_sizes bs) 0) \<and>
    mi_free_block_count info = of_nat (length (free_sizes bs)) \<and>
    mi_alloc_count info - mi_free_count info = of_nat (used_count bs)"
proof -
  have R: "stored (hdrs st) (layout 0 (unat (heap_begin st)) bs 0)" "\<forall>b\<in>set bs. blk_ok b"
    "unat (heap_begin st) + span bs = unat (heap_end st)" "0 < unat (heap_begin st)" "bs \<noteq> []"
    "heap_first st = heap_begin st" "heap_total st = of_nat (span bs)"
    "heap_alloc_count st - heap_free_count st = of_nat (used_count bs)"
    using rep by (simp_all add: heap_rep_def)
  have "mem_info_loop st (heap_first st) (0, 0, 0) = Some (False, of_nat (sum_list (free_sizes bs)),
     of_nat (fold max (free_sizes bs) 0), of_nat (length (free_sizes bs)))"
    using mem_info_loop_rep[OF R(1,2) order_refl R(3,4), of 0 0 0] R(5,6) by simp
  then show ?thesis unfolding aixos_mem_info_def using R(7,8) by (simp add: Let_def)
qed

lemma heap_lockdown_wf: "heap_wf (aixos_heap_lockdown isr st) = heap_wf st"
  by (simp add: heap_wf_def heap_rep_def aixos_heap_lockdown_def)

lemma heap_step_wf:
  assumes "heap_wf st"
  shows "\<exists>st'. heap_step op st = Some st' \<and> heap_wf st'"
proof -
  obtain bs where rep: "heap_rep st bs" using assms by (auto simp: heap_wf_def)
  show ?thesis
  proof (cases op)
    case (HMalloc isr sz)
    then show ?thesis using aixos_malloc_wf[OF rep, of isr sz] by (auto simp: heap_step_def)
  next
    case (HKernelMalloc isr sz)
    obtain p st' where "heap_allocate isr sz True st = Some (p, st')" "heap_wf st'"
      using heap_allocate_wf[OF assms, of isr sz True] by auto
    then show ?thesis using HKernelMalloc by (simp add: heap_step_def aixos_kernel_malloc_def)
  next
    case (HCalloc isr count sz)
    then show ?thesis using aixos_calloc_rep[OF rep, of isr count sz] by (auto simp: heap_step_def)
  next
    case (HRealloc isr p sz)
    then show ?thesis using aixos_realloc_rep[OF rep, of isr p sz] by (auto simp: heap_step_def)
  next
    case (HFree isr p)
    then show ?thesis using aixos_free_rep[OF rep, of isr p] by (auto simp: heap_step_def heap_wf_def)
  next
    case (HWrite p l)
    then show ?thesis using heap_write_wf[OF rep, of p l] assms by (auto simp: heap_step_def Let_def)
  next
    case (HLockdown isr)
    then show ?thesis using assms by (simp add: heap_step_def heap_lockdown_wf)
  next
    case HCheck
    then show ?thesis using heap_check_wf[OF assms] assms by (simp add: heap_step_def)
  next
    case HMemInfo
    then show ?thesis using mem_info_wf[OF rep] assms by (auto simp: heap_step_def)
  qed
qed

lemma heap_run_wf: "heap_wf st \<Longrightarrow> \<exists>st'. heap_run ops st = Some st' \<and> heap_wf st'"
proof (induction ops arbitrary: st)
  case (Cons op ops)
  then obtain s where "heap_step op st = Some s" "heap_wf s" using heap_step_wf by blast
  then show ?case using Cons.IH[of s] by simp
qed simp

section \<open>The properties of the heap\<close>

text \<open>A heap of 1024 bytes at \<open>0x20001000\<close>, for the examples.\<close>

definition heap_blank :: heap_state where
  "heap_blank = \<lparr>heap_first = 0, heap_begin = 0, heap_end = 0, heap_total = 0, heap_initialized = False,
     heap_alloc_count = 0, heap_free_count = 0, heap_alloc_failures = 0, heap_corruption_count = 0,
     heap_current_used = 0, heap_peak_used = 0, heap_runtime_locked = False,
     hdrs = (\<lambda>_. None), hmem = (\<lambda>_. 0)\<rparr>"

definition heap_demo :: heap_state where
  "heap_demo = aixos_heap_init 0x20002000 0x20001000 1024 heap_blank"

lemma heap_demo_rep: "heap_rep heap_demo [init_block 1024]"
  using heap_init_rep[of "0x20001000" "1024" heap_blank "0x20002000"] by (simp add: heap_demo_def heap_blank_def)





lemma write_payload_extents:
  assumes "heap_rep st bs" "(x, b) \<in> set (addrs (unat (heap_begin st)) bs)" "b_used b" "length l \<le> b_req b"
  shows "heap_extents (write_bytes (of_nat (x + 24)) l st) = heap_extents st"
  using heap_rep_extents[OF write_payload_rep[OF assms]] heap_rep_extents[OF assms(1)] by simp

text \<open>The call may release or move the allocation at \<open>a\<close>.\<close>

fun gives_up :: "u32 \<Rightarrow> heap_op \<Rightarrow> bool" where
  "gives_up a (HFree isr p) = (p = a)"
| "gives_up a (HRealloc isr p n) = (p = a)"
| "gives_up a op = False"

lemma aixos_free_keeps:
  assumes "heap_wf st" "(unat a, n) \<in> heap_extents st" "p \<noteq> a"
  shows "(unat a, n) \<in> heap_extents (aixos_free in_isr p st)"
proof (cases in_isr)
  case True
  then show ?thesis using assms(2) by (simp add: aixos_free_def)
next
  case False
  then show ?thesis
    using aixos_free_live[OF assms(1), of p] aixos_free_dead[OF assms(1), of p False] assms(2,3)
    by (cases "unat p \<in> fst ` heap_extents st") (auto simp: word_unat_eq_iff)
qed

lemma allocate_keeps:
  assumes "heap_wf st" "(a, n) \<in> heap_extents st" "heap_allocate in_isr sz kern st = Some (p, st')"
  shows "(a, n) \<in> heap_extents st'"
  using heap_allocate_wf[OF assms(1), of in_isr sz kern] assms(2,3) by auto

lemma heap_step_keeps:
  assumes wf: "heap_wf st" and a: "(unat a, n) \<in> heap_extents st" and g: "\<not> gives_up a op"
    and st: "heap_step op st = Some st'"
  shows "(unat a, n) \<in> heap_extents st'"
proof -
  obtain bs where rep: "heap_rep st bs" using wf by (auto simp: heap_wf_def)
  have counters: "heap_extents (heap_corrupt s) = heap_extents s" "heap_extents (heap_fail s) = heap_extents s" for s
    by (simp_all add: heap_wf_counters)
  show ?thesis
  proof (cases op)
    case (HMalloc isr sz)
    then show ?thesis using st allocate_keeps[OF wf a] by (auto simp: heap_step_def aixos_malloc_def)
  next
    case (HKernelMalloc isr sz)
    then show ?thesis using st allocate_keeps[OF wf a] by (auto simp: heap_step_def aixos_kernel_malloc_def)
  next
    case (HCalloc isr count sz)
    show ?thesis
    proof (cases "sz \<noteq> 0 \<and> count > (- 1) div sz")
      case True
      then show ?thesis using st a HCalloc by (simp add: heap_step_def aixos_calloc_def)
    next
      case False
      from heap_allocate_blocks[OF rep, of isr "count * sz" False] obtain p s bs' where
        al: "heap_allocate isr (count * sz) False st = Some (p, s)" and rep': "heap_rep s bs'"
        and beg: "heap_begin s = heap_begin st"
        and d: "p = 0 \<or> (\<exists>x c. (x, c) \<in> set (addrs (unat (heap_begin st)) bs') \<and> b_used c \<and>
           b_req c = asked (count * sz) \<and> unat p = x + 24)" by metis
      have st': "st' = (if p \<noteq> 0 then write_bytes p (replicate (unat (count * sz)) 0) s else s)"
        using st al False HCalloc by (auto simp: heap_step_def aixos_calloc_def aixos_malloc_def)
      have keep: "(unat a, n) \<in> heap_extents s" by (rule allocate_keeps[OF wf a al])
      show ?thesis
      proof (cases "p = 0")
        case False
        then obtain x c where x: "(x, c) \<in> set (addrs (unat (heap_begin s)) bs')" "b_used c"
          "b_req c = asked (count * sz)" "unat p = x + 24" using d beg by auto
        have "length (replicate (unat (count * sz)) (0 :: u8)) \<le> b_req c" using x(3) by (simp add: asked_def)
        from write_payload_extents[OF rep' x(1,2) this] keep show ?thesis
          unfolding st' u32_of_unat[OF x(4)] using False u32_of_unat[OF x(4)] by simp
      qed (use keep st' in simp)
    qed
  next
    case (HRealloc isr p sz)
    then have pa: "p \<noteq> a" using g by simp
    let ?hdr = "p - 24"
    have st1: "map_option snd (aixos_realloc isr p sz st) = Some st'" using st HRealloc by (simp add: heap_step_def)
    consider (none) "p = 0" | (zero) "p \<noteq> 0" "sz = 0"
      | (bad) "p \<noteq> 0" "sz \<noteq> 0" "isr \<or> p < heap_begin st + 24 \<or> p \<ge> heap_end st \<or> heap_runtime_locked st \<or>
          \<not> heap_header_valid st ?hdr \<or> hh_magic (hdr_at st ?hdr) \<noteq> HEAP_MAGIC_USED \<or> \<not> heap_canary_valid st ?hdr"
      | (ok) "p \<noteq> 0" "sz \<noteq> 0" "\<not> (isr \<or> p < heap_begin st + 24 \<or> p \<ge> heap_end st \<or> heap_runtime_locked st \<or>
          \<not> heap_header_valid st ?hdr \<or> hh_magic (hdr_at st ?hdr) \<noteq> HEAP_MAGIC_USED \<or> \<not> heap_canary_valid st ?hdr)"
      by blast
    then show ?thesis
    proof cases
      case none
      then show ?thesis using st1 allocate_keeps[OF wf a] by (auto simp: aixos_realloc_def aixos_malloc_def)
    next
      case zero
      then show ?thesis using st1 aixos_free_keeps[OF wf a pa] by (auto simp: aixos_realloc_def)
    next
      case bad
      then have "aixos_realloc isr p sz st \<in> {Some (0, st), Some (0, heap_fail st), Some (0, heap_corrupt st)}"
        by (auto simp: aixos_realloc_def Let_def)
      then show ?thesis using st1 a counters by auto
    next
      case ok
      obtain q s where al: "aixos_malloc isr sz st = Some (q, s)" and wf': "heap_wf s"
        using aixos_malloc_wf[OF rep] by blast
      have keep: "(unat a, n) \<in> heap_extents s"
        using allocate_keeps[OF wf a] al by (simp add: aixos_malloc_def)
      let ?old = "hh_requested_size (hdr_at st ?hdr)"
      let ?w = "write_bytes q (read_bytes p (unat (if ?old < sz then ?old else sz)) s) s"
      have st': "st' = (if q \<noteq> 0 then aixos_free isr p ?w else s)"
        using st1 unfolding realloc_ok[OF ok al] by simp
      show ?thesis
      proof (cases "q = 0")
        case False
        from realloc_moves(1)[OF rep _ al False ok(2) refl, of ?hdr, unfolded diff_add_cancel] ok(3)
        have w: "heap_wf ?w" by (simp add: heap_wf_def)
        from heap_allocate_blocks[OF rep, of isr sz False] al False obtain bs' x c where
          rep': "heap_rep s bs'" and beg: "heap_begin s = heap_begin st" and
          x: "(x, c) \<in> set (addrs (unat (heap_begin st)) bs')" "b_used c" "b_req c = asked sz" "unat q = x + 24"
          by (auto simp: aixos_malloc_def)
        have "unat (if ?old < sz then ?old else sz) \<le> unat sz" by (simp add: word_less_nat_alt)
        then have l: "length (read_bytes p (unat (if ?old < sz then ?old else sz)) s) \<le> b_req c"
          using x(3) ok(2) by (simp add: asked_def)
        have "heap_extents ?w = heap_extents s"
          using write_payload_extents[OF rep' x(1)[folded beg] x(2) l] u32_of_unat[OF x(4)] by simp
        with keep show ?thesis using False aixos_free_keeps[OF w _ pa] by (simp add: st')
      qed (use keep st' in simp)
    qed
  next
    case (HFree isr p)
    then show ?thesis using st g aixos_free_keeps[OF wf a] by (auto simp: heap_step_def)
  next
    case (HWrite p l)
    show ?thesis
    proof (cases "hh_magic (hdr_at st (p - 24)) = HEAP_MAGIC_USED \<and> length l \<le> unat (hh_requested_size (hdr_at st (p - 24)))")
      case True
      obtain x b where x: "(x, b) \<in> set (addrs (unat (heap_begin st)) bs)" "b_used b"
        "hh_requested_size (hdr_at st (p - 24)) = of_nat (b_req b)" "b_req b < 2 ^ 32" "unat (p - 24 + 24) = x + 24"
        using used_header_block[OF rep True[THEN conjunct1]] by blast
      have "length l \<le> b_req b" using True x(3) u32_of_nat[OF x(4)] by simp
      moreover have "p = of_nat (x + 24)" using u32_of_unat[OF x(5)] by simp
      ultimately have "heap_extents (write_bytes p l st) = heap_extents st"
        using write_payload_extents[OF rep x(1,2)] by simp
      then show ?thesis using HWrite st True a by (simp add: heap_step_def Let_def)
    next
      case False
      then show ?thesis using HWrite st a by (auto simp: heap_step_def Let_def)
    qed
  next
    case (HLockdown isr)
    then show ?thesis using st a by (auto simp: heap_step_def aixos_heap_lockdown_def heap_extents_def split: if_splits)
  next
    case HCheck
    then show ?thesis using st a heap_check_wf[OF wf] by (simp add: heap_step_def)
  next
    case HMemInfo
    then show ?thesis using st a mem_info_wf[OF rep] by (auto simp: heap_step_def)
  qed
qed

lemma heap_run_keeps:
  assumes "heap_wf st" "(unat a, n) \<in> heap_extents st" "\<forall>op\<in>set ops. \<not> gives_up a op" "heap_run ops st = Some st'"
  shows "(unat a, n) \<in> heap_extents st' \<and> heap_wf st'"
  using assms
proof (induction ops arbitrary: st)
  case (Cons op ops)
  obtain s where s: "heap_step op st = Some s" "heap_wf s" using heap_step_wf[OF Cons.prems(1)] by blast
  have "\<not> gives_up a op" using Cons.prems(3) by simp
  from heap_step_keeps[OF Cons.prems(1,2) this s(1)] have "(unat a, n) \<in> heap_extents s" .
  then show ?case using Cons.IH[OF s(2)] Cons.prems(3,4) s(1) by simp
qed simp

end
