(* ===== verification/Kheap_Props.thy ===== *)
theory Kheap_Props
  imports Kheap_Run
begin

text \<open>
  The contracts of the heap that concern one allocation over time: exclusive ownership, releases,
  coalescing, and what \<open>aixos_realloc\<close> keeps.
\<close>


lemma malloc_fits:
  assumes "heap_rep st bs" "asked sz \<le> 1024" "\<not> heap_runtime_locked st"
    and "\<exists>b\<in>set bs. \<not> b_used b \<and> round_size (asked sz) \<le> b_size b"
  shows "\<exists>xs b ys p st'. bs = xs @ b # ys \<and> \<not> b_used b \<and> aixos_malloc False sz st = Some (p, st') \<and> p \<noteq> 0 \<and>
     heap_wf st' \<and> heap_begin st' = heap_begin st \<and> \<not> heap_runtime_locked st' \<and>
     heap_rep st' (xs @ taken b (asked sz) # remainder b (asked sz) @ ys)"
proof -
  have nr: "\<not> alloc_refused False (asked sz) False st" using assms(2,3) by (simp add: alloc_refused_def)
  from heap_allocate_rep[OF assms(1), of False sz False] show ?thesis
  proof
    assume "\<exists>st'. heap_allocate False sz False st = Some (0, st') \<and> st' \<in> {st, heap_fail st} \<and>
       (alloc_refused False (asked sz) False st \<or>
        (\<forall>b\<in>set bs. b_used b \<or> b_size b < round_size (asked sz)))"
    then have "\<forall>b\<in>set bs. b_used b \<or> b_size b < round_size (asked sz)" using nr by (elim exE conjE disjE) simp_all
    then show ?thesis using assms(4) by fastforce
  next
    assume "\<exists>xs b ys st'. bs = xs @ b # ys \<and> \<not> b_used b \<and> round_size (asked sz) \<le> b_size b \<and>
       \<not> alloc_refused False (asked sz) False st \<and>
       (\<forall>c\<in>set bs. \<not> b_used c \<and> round_size (asked sz) \<le> b_size c \<longrightarrow> b_size b \<le> b_size c) \<and>
       heap_allocate False sz False st = Some (of_nat (unat (heap_begin st) + span xs) + 24, st') \<and>
       heap_begin st' = heap_begin st \<and> heap_end st' = heap_end st \<and>
       heap_runtime_locked st' = heap_runtime_locked st \<and>
       (\<forall>x. x < 2 ^ 32 \<and> (x < unat (heap_begin st) + span xs + 24 \<or> unat (heap_begin st) + span xs + 24 + b_size b \<le> x) \<longrightarrow>
          hmem st' (of_nat x) = hmem st (of_nat x)) \<and>
       heap_rep st' (xs @ taken b (asked sz) # remainder b (asked sz) @ ys)"
    then obtain xs b ys st' where bs: "bs = xs @ b # ys" "\<not> b_used b"
      and al: "heap_allocate False sz False st = Some (of_nat (unat (heap_begin st) + span xs) + 24, st')"
      and e: "heap_begin st' = heap_begin st" "heap_runtime_locked st' = heap_runtime_locked st"
      and rep': "heap_rep st' (xs @ taken b (asked sz) # remainder b (asked sz) @ ys)" by (elim exE conjE)
    let ?p = "of_nat (unat (heap_begin st) + span xs) + 24 :: u32"
    have "unat ?p = unat (heap_begin st) + span xs + 24"
      using u32_of_nat[of "unat (heap_begin st) + span xs + 24"] heap_rep_bounds[OF assms(1)[unfolded bs(1)]] by simp
    then have "?p \<noteq> 0" by (auto simp: word_unat_eq_iff)
    then have "aixos_malloc False sz st = Some (?p, st') \<and> ?p \<noteq> 0" using al by (simp add: aixos_malloc_def)
    then show ?thesis using bs e rep' heap_rep_wf[OF rep'] assms(3) by blast
  qed
qed

lemma heap_free_nat_unat:
  "heap_free_nat (unat p) st = (heap_free_count (aixos_free False p st) \<noteq> heap_free_count st, aixos_free False p st)"
  using u32_less[of p] by (simp add: heap_free_nat_def Let_def)

lemma merge_memory: "hmem (heap_merge_next p st) = hmem st" "hmem (heap_merge_prev p st) = hmem st"
  by (simp_all add: heap_merge_next_def heap_merge_prev_def Let_def)

lemma release_memory: "hmem (heap_release p st) = hmem st"
  by (simp add: heap_release_def heap_corrupt_def Let_def merge_memory)

lemma free_memory: "hmem (aixos_free in_isr p st) = hmem st"
  unfolding aixos_free_def Let_def heap_corrupt_def by (simp add: release_memory)

lemma singleton_split: "[c] = xs @ b # ys \<longleftrightarrow> xs = [] \<and> b = c \<and> ys = []"
  by (cases xs) auto

lemma demo_first_malloc:
  "\<exists>p st'. aixos_malloc False 40 heap_demo = Some (p, st') \<and> p \<noteq> 0 \<and> heap_wf st' \<and> heap_begin st' = heap_begin heap_demo \<and>
     \<not> heap_runtime_locked st' \<and> heap_rep st' [\<lparr>b_size = 48, b_used = True, b_req = 40\<rparr>, init_block 952]"
proof -
  have lock: "\<not> heap_runtime_locked heap_demo" by (simp add: heap_demo_def aixos_heap_init_def Let_def)
  have r: "asked 40 = 40" "round_size 40 = 48" by (simp_all add: asked_def round_size_def)
  have "asked 40 \<le> 1024" "\<exists>b\<in>set [init_block 1024]. \<not> b_used b \<and> round_size (asked 40) \<le> b_size b"
    by (simp_all add: r init_block_def)
  from malloc_fits[OF heap_demo_rep this(1) lock this(2)] show ?thesis
    by (auto simp: r singleton_split init_block_def taken_def remainder_def rest_blk_def)
qed






text \<open>C8. A successful \<open>aixos_realloc\<close> carries the contents over: the new allocation starts with the
  first \<open>min\<close> of the old and the new size bytes of the old one, and is 8-byte aligned.\<close>

theorem heap_realloc_preserves:
  assumes "heap_wf st" "ptr \<noteq> 0" "new_size \<noteq> 0" "aixos_realloc False ptr new_size st = Some (p, st')" "p \<noteq> 0"
  shows "(\<forall>i < min (unat (hh_requested_size (hdr_at st (ptr - 24)))) (unat new_size).
      hmem st' (p + of_nat i) = hmem st (ptr + of_nat i)) \<and> unat p mod 8 = 0 \<and> heap_wf st'"
proof -
  obtain bs where rep: "heap_rep st bs" using assms(1) by (auto simp: heap_wf_def)
  let ?old = "hh_requested_size (hdr_at st (ptr - 24))"
  have ok: "\<not> (False \<or> ptr < heap_begin st + 24 \<or> ptr \<ge> heap_end st \<or> heap_runtime_locked st \<or>
        \<not> heap_header_valid st (ptr - 24) \<or> hh_magic (hdr_at st (ptr - 24)) \<noteq> HEAP_MAGIC_USED \<or> \<not> heap_canary_valid st (ptr - 24))"
    using assms(2-5) by (auto simp: aixos_realloc_def Let_def split: if_splits)
  obtain q s where al: "aixos_malloc False new_size st = Some (q, s)" using aixos_malloc_wf[OF rep] by blast
  define n where "n = unat (if ?old < new_size then ?old else new_size)"
  define w where "w = write_bytes q (read_bytes ptr n s) s"
  have eq: "p = q" "st' = aixos_free False ptr w"
    using realloc_ok[OF assms(2,3) ok al] assms(4,5) by (auto simp: w_def n_def)
  note mv = realloc_moves[OF rep _ al _ assms(3) n_def, unfolded diff_add_cancel, folded w_def]
  have used: "hh_magic (hdr_at st (ptr - 24)) = HEAP_MAGIC_USED" using ok by blast
  have q0: "q \<noteq> 0" using assms(5) eq by simp
  have "n = min (unat ?old) (unat new_size)" by (simp add: n_def word_less_nat_alt min_def)
  moreover have "\<forall>i<n. hmem st' (p + of_nat i) = hmem st (ptr + of_nat i)"
    unfolding eq free_memory using mv(2)[OF used q0] .
  moreover have "unat p mod 8 = 0"
    using heap_allocate_wf[OF assms(1), of False new_size False] al q0 eq(1) by (auto simp: aixos_malloc_def)
  moreover have "heap_wf st'"
    using aixos_realloc_rep[OF rep, of False ptr new_size] assms(4) by auto
  ultimately show ?thesis by simp
qed

theorem heap_realloc_preserves_witness:
  "\<exists>st1 p st2. heap_rep st1 [\<lparr>b_size = 48, b_used = True, b_req = 40\<rparr>, init_block 952] \<and>
     aixos_realloc False (heap_begin st1 + 24) 100 st1 = Some (p, st2) \<and> p \<noteq> 0 \<and>
     hmem st2 (p + 7) = hmem st1 (heap_begin st1 + 24 + 7) \<and> unat p mod 8 = 0"
proof -
  let ?b = "\<lparr>b_size = 48, b_used = True, b_req = 40\<rparr>"
  obtain a st1 where a: "heap_wf st1" "\<not> heap_runtime_locked st1" "heap_rep st1 [?b, init_block 952]"
    using demo_first_malloc by blast
  have "heap_rep st1 ([] @ ?b # [init_block 952])" "b_used ?b" using a(3) by simp_all
  note ok = used_block_checks[OF this]
  have "asked 100 \<le> 1024" "\<exists>b\<in>set [?b, init_block 952]. \<not> b_used b \<and> round_size (asked 100) \<le> b_size b"
    by (simp_all add: asked_def round_size_def init_block_def)
  from malloc_fits[OF a(3) this(1) a(2) this(2)] obtain p s where p: "aixos_malloc False 100 st1 = Some (p, s)" "p \<noteq> 0"
    by blast
  have "heap_begin st1 + 24 \<noteq> 0" "(100 :: u32) \<noteq> 0" using ok(1) by simp_all
  moreover have "\<not> (False \<or> heap_begin st1 + 24 < heap_begin st1 + 24 \<or> heap_begin st1 + 24 \<ge> heap_end st1 \<or>
      heap_runtime_locked st1 \<or> \<not> heap_header_valid st1 (heap_begin st1 + 24 - 24) \<or>
      hh_magic (hdr_at st1 (heap_begin st1 + 24 - 24)) \<noteq> HEAP_MAGIC_USED \<or>
      \<not> heap_canary_valid st1 (heap_begin st1 + 24 - 24))"
    using ok a(2) by simp
  ultimately obtain st2 where r: "aixos_realloc False (heap_begin st1 + 24) 100 st1 = Some (p, st2)"
    using realloc_ok p(1) by blast
  have old: "hh_requested_size (hdr_at st1 (heap_begin st1 + 24 - 24)) = 40" using ok(10) by simp
  from heap_realloc_preserves[OF a(1) \<open>heap_begin st1 + 24 \<noteq> 0\<close> \<open>100 \<noteq> 0\<close> r p(2)]
  have "hmem st2 (p + of_nat 7) = hmem st1 (heap_begin st1 + 24 + of_nat 7)" "unat p mod 8 = 0"
    unfolding old by (auto simp del: of_nat_numeral)
  then show ?thesis using a(3) r p(2) by auto
qed

end
