(* ===== verification/Lists.thy ===== *)
theory Lists
  imports Aix_Prelude
begin

text \<open>
  The intrusive doubly linked lists of \<^verbatim>\<open>kernel/list.h\<close>, in two forms. The pointer form is the C
  code: \<open>nx\<close> and \<open>pv\<close> are the fields \<open>next\<close> and \<open>prev\<close> of every head and node, \<open>None\<close> is the null
  pointer, and an operation is \<open>None\<close> when the C code dereferences a null pointer. The abstract
  form keeps the members of each initialised head and the status of each node, and is \<open>None\<close> also
  where the C code would silently corrupt a list (adding a node that is a member already).
  \<open>models\<close> relates the two; the kernel components are built on the abstract form.
\<close>

section \<open>The pointer form\<close>

datatype ('h, 'n) ptr = PH 'h | PN 'n

record ('h, 'n) pmem =
  nx :: "('h, 'n) ptr \<Rightarrow> ('h, 'n) ptr option"
  pv :: "('h, 'n) ptr \<Rightarrow> ('h, 'n) ptr option"

definition p_list_init :: "('h, 'n) ptr \<Rightarrow> ('h, 'n) pmem \<Rightarrow> ('h, 'n) pmem" where
  "p_list_init list m = m\<lparr>nx := (nx m)(list := Some list), pv := (pv m)(list := Some list)\<rparr>"

text \<open>\<open>__aixos_list_add\<close>\<close>

definition p_list_add_between ::
  "('h, 'n) ptr \<Rightarrow> ('h, 'n) ptr \<Rightarrow> ('h, 'n) ptr \<Rightarrow> ('h, 'n) pmem \<Rightarrow> ('h, 'n) pmem" where
  "p_list_add_between new prev next m =
     (let m = m\<lparr>pv := (pv m)(next := Some new)\<rparr>;
          m = m\<lparr>nx := (nx m)(new := Some next)\<rparr>;
          m = m\<lparr>pv := (pv m)(new := Some prev)\<rparr>
      in m\<lparr>nx := (nx m)(prev := Some new)\<rparr>)"

definition p_list_add :: "('h, 'n) ptr \<Rightarrow> ('h, 'n) ptr \<Rightarrow> ('h, 'n) pmem \<Rightarrow> ('h, 'n) pmem option" where
  "p_list_add new head m =
     (case nx m head of None \<Rightarrow> None | Some next \<Rightarrow> Some (p_list_add_between new head next m))"

definition p_list_add_tail :: "('h, 'n) ptr \<Rightarrow> ('h, 'n) ptr \<Rightarrow> ('h, 'n) pmem \<Rightarrow> ('h, 'n) pmem option" where
  "p_list_add_tail new head m =
     (case pv m head of None \<Rightarrow> None | Some prev \<Rightarrow> Some (p_list_add_between new prev head m))"

text \<open>The insertion of the sorted queues: \<open>__aixos_list_add(new, position->prev, position)\<close>.\<close>

definition p_list_add_before :: "('h, 'n) ptr \<Rightarrow> ('h, 'n) ptr \<Rightarrow> ('h, 'n) pmem \<Rightarrow> ('h, 'n) pmem option" where
  "p_list_add_before new position m =
     (case pv m position of None \<Rightarrow> None | Some prev \<Rightarrow> Some (p_list_add_between new prev position m))"

text \<open>\<open>__aixos_list_del\<close>\<close>

definition p_list_del_between :: "('h, 'n) ptr \<Rightarrow> ('h, 'n) ptr \<Rightarrow> ('h, 'n) pmem \<Rightarrow> ('h, 'n) pmem" where
  "p_list_del_between prev next m =
     (let m = m\<lparr>pv := (pv m)(next := Some prev)\<rparr> in m\<lparr>nx := (nx m)(prev := Some next)\<rparr>)"

definition p_list_del :: "('h, 'n) ptr \<Rightarrow> ('h, 'n) pmem \<Rightarrow> ('h, 'n) pmem option" where
  "p_list_del entry m =
     (case (pv m entry, nx m entry) of
        (Some prev, Some next) \<Rightarrow>
          let m = p_list_del_between prev next m
          in Some (m\<lparr>nx := (nx m)(entry := None), pv := (pv m)(entry := None)\<rparr>)
      | _ \<Rightarrow> None)"

definition p_list_is_empty :: "('h, 'n) ptr \<Rightarrow> ('h, 'n) pmem \<Rightarrow> bool" where
  "p_list_is_empty head m = (nx m head = Some head)"

definition p_list_first :: "('h, 'n) ptr \<Rightarrow> ('h, 'n) pmem \<Rightarrow> ('h, 'n) ptr option" where
  "p_list_first head m = nx m head"

section \<open>The abstract form\<close>

datatype 'h nstate = NNull | NSelf | NIn 'h

record ('h, 'n) lstore =
  lists :: "'h \<Rightarrow> 'n list option"
  nstat :: "'n \<Rightarrow> 'h nstate"

definition linked :: "'n \<Rightarrow> ('h, 'n) lstore \<Rightarrow> bool" where
  "linked n ls = (case nstat ls n of NIn _ \<Rightarrow> True | _ \<Rightarrow> False)"

definition list_init_head :: "'h \<Rightarrow> ('h, 'n) lstore \<Rightarrow> ('h, 'n) lstore option" where
  "list_init_head h ls = (if lists ls h = None \<or> lists ls h = Some []
     then Some (ls\<lparr>lists := (lists ls)(h \<mapsto> [])\<rparr>) else None)"

definition list_init_node :: "'n \<Rightarrow> ('h, 'n) lstore \<Rightarrow> ('h, 'n) lstore option" where
  "list_init_node n ls = (if linked n ls then None else Some (ls\<lparr>nstat := (nstat ls)(n := NSelf)\<rparr>))"

text \<open>\<open>memset\<close> to zero of a structure that holds an empty head or an unlinked node.\<close>

definition list_zero_head :: "'h \<Rightarrow> ('h, 'n) lstore \<Rightarrow> ('h, 'n) lstore option" where
  "list_zero_head h ls = (if lists ls h = None \<or> lists ls h = Some []
     then Some (ls\<lparr>lists := (lists ls)(h := None)\<rparr>) else None)"

definition list_zero_node :: "'n \<Rightarrow> ('h, 'n) lstore \<Rightarrow> ('h, 'n) lstore option" where
  "list_zero_node n ls = (if linked n ls then None else Some (ls\<lparr>nstat := (nstat ls)(n := NNull)\<rparr>))"

definition list_add_tail :: "'n \<Rightarrow> 'h \<Rightarrow> ('h, 'n) lstore \<Rightarrow> ('h, 'n) lstore option" where
  "list_add_tail n h ls = (case lists ls h of
      None \<Rightarrow> None
    | Some xs \<Rightarrow> if linked n ls then None
        else Some (ls\<lparr>lists := (lists ls)(h \<mapsto> xs @ [n]), nstat := (nstat ls)(n := NIn h)\<rparr>))"

fun insert_before :: "'n \<Rightarrow> 'n \<Rightarrow> 'n list \<Rightarrow> 'n list" where
  "insert_before n p [] = []"
| "insert_before n p (x # xs) = (if x = p then n # x # xs else x # insert_before n p xs)"

definition list_add_before :: "'n \<Rightarrow> 'n \<Rightarrow> ('h, 'n) lstore \<Rightarrow> ('h, 'n) lstore option" where
  "list_add_before n p ls = (case nstat ls p of
      NIn h \<Rightarrow> (case lists ls h of
          None \<Rightarrow> None
        | Some xs \<Rightarrow> if linked n ls then None
            else Some (ls\<lparr>lists := (lists ls)(h \<mapsto> insert_before n p xs), nstat := (nstat ls)(n := NIn h)\<rparr>))
    | _ \<Rightarrow> None)"

definition list_del :: "'n \<Rightarrow> ('h, 'n) lstore \<Rightarrow> ('h, 'n) lstore option" where
  "list_del n ls = (case nstat ls n of
      NNull \<Rightarrow> None
    | NSelf \<Rightarrow> Some (ls\<lparr>nstat := (nstat ls)(n := NNull)\<rparr>)
    | NIn h \<Rightarrow> Some (ls\<lparr>lists := (lists ls)(h := map_option (remove1 n) (lists ls h)),
                        nstat := (nstat ls)(n := NNull)\<rparr>))"

definition list_is_empty :: "'h \<Rightarrow> ('h, 'n) lstore \<Rightarrow> bool" where
  "list_is_empty h ls = (lists ls h = Some [])"

text \<open>The first member; \<open>None\<close> where the C code would take the head itself (or null) for one.\<close>

definition list_first :: "'h \<Rightarrow> ('h, 'n) lstore \<Rightarrow> 'n option" where
  "list_first h ls = (case lists ls h of Some (x # _) \<Rightarrow> Some x | _ \<Rightarrow> None)"

section \<open>Well-formed stores\<close>

definition lwf :: "('h, 'n) lstore \<Rightarrow> bool" where
  "lwf ls \<longleftrightarrow> (\<forall>h xs. lists ls h = Some xs \<longrightarrow> distinct xs \<and> (\<forall>n \<in> set xs. nstat ls n = NIn h)) \<and>
     (\<forall>n h. nstat ls n = NIn h \<longrightarrow> (\<exists>xs. lists ls h = Some xs \<and> n \<in> set xs))"

lemma lwfD:
  assumes "lwf ls"
  shows "lists ls h = Some xs \<Longrightarrow> distinct xs"
    and "lists ls h = Some xs \<Longrightarrow> n \<in> set xs \<Longrightarrow> nstat ls n = NIn h"
    and "nstat ls n = NIn h \<Longrightarrow> \<exists>xs. lists ls h = Some xs \<and> n \<in> set xs"
  using assms by (auto simp: lwf_def)

lemma lwf_in_iff: "lwf ls \<Longrightarrow> lists ls h = Some xs \<Longrightarrow> n \<in> set xs \<longleftrightarrow> nstat ls n = NIn h"
  using lwfD(2)[of ls h xs n] lwfD(3)[of ls n h] by auto

lemma lwfI:
  assumes "\<And>h xs. lists ls h = Some xs \<Longrightarrow> distinct xs"
    and "\<And>h xs n. lists ls h = Some xs \<Longrightarrow> n \<in> set xs \<Longrightarrow> nstat ls n = NIn h"
    and "\<And>n h. nstat ls n = NIn h \<Longrightarrow> \<exists>xs. lists ls h = Some xs \<and> n \<in> set xs"
  shows "lwf ls"
  using assms unfolding lwf_def by blast

lemma lwf_updI:
  assumes "\<And>h xs. L h = Some xs \<Longrightarrow> distinct xs"
    and "\<And>h xs n. L h = Some xs \<Longrightarrow> n \<in> set xs \<Longrightarrow> N n = NIn h"
    and "\<And>n h. N n = NIn h \<Longrightarrow> \<exists>xs. L h = Some xs \<and> n \<in> set xs"
  shows "lwf (ls\<lparr>lists := L, nstat := N\<rparr>)"
  by (rule lwfI) (use assms in simp_all)

lemma set_insert_before: "p \<in> set xs \<Longrightarrow> set (insert_before n p xs) = insert n (set xs)"
  by (induction xs) auto

lemma set_insert_before_sub: "set (insert_before n p xs) \<subseteq> insert n (set xs)"
  by (induction xs) auto

lemma distinct_insert_before: "distinct xs \<Longrightarrow> n \<notin> set xs \<Longrightarrow> distinct (insert_before n p xs)"
proof (induction xs)
  case (Cons x xs)
  then show ?case using set_insert_before_sub[of n p xs] by auto
qed simp

lemma insert_before_split: "p \<notin> set us \<Longrightarrow> insert_before n p (us @ p # vs) = us @ n # p # vs"
  by (induction us) auto

lemma list_init_head_lwf: "list_init_head h ls = Some ls' \<Longrightarrow> lwf ls \<Longrightarrow> lwf ls'"
  unfolding lwf_def list_init_head_def by (fastforce split: if_splits)

lemma list_zero_head_lwf: "list_zero_head h ls = Some ls' \<Longrightarrow> lwf ls \<Longrightarrow> lwf ls'"
  unfolding lwf_def list_zero_head_def by (fastforce split: if_splits)

lemma unlinked_notin: "lwf ls \<Longrightarrow> \<not> linked n ls \<Longrightarrow> lists ls h = Some xs \<Longrightarrow> n \<notin> set xs"
  by (auto simp: lwf_def linked_def)

lemma set_nstat_lwf: "lwf ls \<Longrightarrow> \<not> linked n ls \<Longrightarrow> (\<And>h. s \<noteq> NIn h) \<Longrightarrow> lwf (ls\<lparr>nstat := (nstat ls)(n := s)\<rparr>)"
  unfolding lwf_def linked_def by (auto split: nstate.splits)

lemma list_init_node_lwf: "list_init_node n ls = Some ls' \<Longrightarrow> lwf ls \<Longrightarrow> lwf ls'"
  by (auto simp: list_init_node_def intro!: set_nstat_lwf split: if_splits)

lemma list_zero_node_lwf: "list_zero_node n ls = Some ls' \<Longrightarrow> lwf ls \<Longrightarrow> lwf ls'"
  by (auto simp: list_zero_node_def intro!: set_nstat_lwf split: if_splits)

lemma insert_member_lwf:
  assumes wf: "lwf ls" and n: "\<not> linked n ls" and h: "lists ls h = Some xs"
    and ys: "set ys = insert n (set xs)" "distinct ys"
  shows "lwf (ls\<lparr>lists := (lists ls)(h \<mapsto> ys), nstat := (nstat ls)(n := NIn h)\<rparr>)"
proof -
  note nin = unlinked_notin[OF wf n]
  show ?thesis
  proof (rule lwf_updI)
    fix h' zs assume "((lists ls)(h \<mapsto> ys)) h' = Some zs"
    then show "distinct zs" using ys(2) lwfD(1)[OF wf] by (cases "h' = h") auto
  next
    fix h' zs m assume "((lists ls)(h \<mapsto> ys)) h' = Some zs" "m \<in> set zs"
    then show "((nstat ls)(n := NIn h)) m = NIn h'"
      using ys(1) lwfD(2)[OF wf] h nin by (cases "h' = h") auto
  next
    fix m h' assume m: "((nstat ls)(n := NIn h)) m = NIn h'"
    show "\<exists>zs. ((lists ls)(h \<mapsto> ys)) h' = Some zs \<and> m \<in> set zs"
    proof (cases "m = n")
      case True
      then show ?thesis using m ys(1) by auto
    next
      case False
      then obtain zs where "lists ls h' = Some zs" "m \<in> set zs" using m lwfD(3)[OF wf] by fastforce
      then show ?thesis using h ys(1) by (cases "h' = h") auto
    qed
  qed
qed

lemma list_add_tail_lwf: "list_add_tail n h ls = Some ls' \<Longrightarrow> lwf ls \<Longrightarrow> lwf ls'"
  using insert_member_lwf[of ls n h _ "the (lists ls h) @ [n]"] unlinked_notin[of ls n h] lwfD(1)[of ls h]
  by (auto simp: list_add_tail_def split: option.splits if_splits)

lemma list_add_before_lwf:
  assumes "list_add_before n p ls = Some ls'" "lwf ls"
  shows "lwf ls'"
proof -
  obtain h xs where h: "nstat ls p = NIn h" "lists ls h = Some xs" "\<not> linked n ls"
    "ls' = ls\<lparr>lists := (lists ls)(h \<mapsto> insert_before n p xs), nstat := (nstat ls)(n := NIn h)\<rparr>"
    using assms(1) by (auto simp: list_add_before_def split: nstate.splits option.splits if_splits)
  have p: "p \<in> set xs" using lwf_in_iff[OF assms(2) h(2)] h(1) by simp
  show ?thesis
    unfolding h(4) by (rule insert_member_lwf[OF assms(2) h(3,2) set_insert_before[OF p]
        distinct_insert_before[OF lwfD(1)[OF assms(2) h(2)] unlinked_notin[OF assms(2) h(3,2)]]])
qed

lemma list_del_lwf:
  assumes "list_del n ls = Some ls'" "lwf ls"
  shows "lwf ls'"
proof (cases "nstat ls n")
  case NSelf
  then show ?thesis using assms by (auto simp: list_del_def linked_def intro!: set_nstat_lwf)
next
  case (NIn h)
  then obtain xs where xs: "lists ls h = Some xs" "n \<in> set xs" using lwfD(3)[OF assms(2)] by blast
  note wf = assms(2)
  have d: "set (remove1 n xs) = set xs - {n}" "distinct (remove1 n xs)"
    using lwfD(1)[OF wf xs(1)] by auto
  have ls': "ls' = ls\<lparr>lists := (lists ls)(h \<mapsto> remove1 n xs), nstat := (nstat ls)(n := NNull)\<rparr>"
    using assms(1) NIn xs by (simp add: list_del_def)
  show ?thesis
    unfolding ls'
  proof (rule lwf_updI)
    fix h' zs assume "((lists ls)(h \<mapsto> remove1 n xs)) h' = Some zs"
    then show "distinct zs" using d(2) lwfD(1)[OF wf] by (cases "h' = h") auto
  next
    fix h' zs m assume z: "((lists ls)(h \<mapsto> remove1 n xs)) h' = Some zs" "m \<in> set zs"
    show "((nstat ls)(n := NNull)) m = NIn h'"
    proof (cases "h' = h")
      case True
      then show ?thesis using z d(1) lwfD(2)[OF wf xs(1)] by auto
    next
      case False
      then have "nstat ls m = NIn h'" using z lwfD(2)[OF wf] by simp
      then show ?thesis using NIn False by auto
    qed
  next
    fix m h' assume m: "((nstat ls)(n := NNull)) m = NIn h'"
    then have "m \<noteq> n" "nstat ls m = NIn h'" by (auto split: if_splits)
    then show "\<exists>zs. ((lists ls)(h \<mapsto> remove1 n xs)) h' = Some zs \<and> m \<in> set zs"
      using lwfD(3)[OF wf] xs(1) d(1) by (cases "h' = h") fastforce+
  qed
qed (use assms in \<open>simp add: list_del_def\<close>)

section \<open>The pointer form implements the abstract form\<close>

text \<open>Following \<open>next\<close> from \<open>a\<close> visits \<open>qs\<close> and then \<open>b\<close>, and \<open>prev\<close> leads back.\<close>

fun chain :: "('h, 'n) pmem \<Rightarrow> ('h, 'n) ptr \<Rightarrow> ('h, 'n) ptr list \<Rightarrow> ('h, 'n) ptr \<Rightarrow> bool" where
  "chain m a [] b \<longleftrightarrow> nx m a = Some b \<and> pv m b = Some a"
| "chain m a (q # qs) b \<longleftrightarrow> nx m a = Some q \<and> pv m q = Some a \<and> chain m q qs b"

definition models :: "('h, 'n) lstore \<Rightarrow> ('h, 'n) pmem \<Rightarrow> bool" where
  "models ls m \<longleftrightarrow> lwf ls \<and>
     (\<forall>h. lists ls h = None \<longrightarrow> nx m (PH h) = None \<and> pv m (PH h) = None) \<and>
     (\<forall>h xs. lists ls h = Some xs \<longrightarrow> chain m (PH h) (map PN xs) (PH h)) \<and>
     (\<forall>n. (nstat ls n = NNull \<longrightarrow> nx m (PN n) = None \<and> pv m (PN n) = None) \<and>
          (nstat ls n = NSelf \<longrightarrow> nx m (PN n) = Some (PN n) \<and> pv m (PN n) = Some (PN n)))"

lemma chain_split: "chain m a (xs @ y # ys) b \<longleftrightarrow> chain m a xs y \<and> chain m y ys b"
  by (induction xs arbitrary: a) auto

lemma chain_frame:
  assumes "chain m a xs b"
    and "\<And>p. p = a \<or> p \<in> set xs \<Longrightarrow> nx m' p = nx m p" "\<And>p. p = b \<or> p \<in> set xs \<Longrightarrow> pv m' p = pv m p"
  shows "chain m' a xs b"
  using assms by (induction xs arbitrary: a) auto

lemma chain_last: "chain m a xs b \<Longrightarrow> pv m b = Some (if xs = [] then a else last xs)"
  by (induction xs arbitrary: a) auto

lemma chain_first: "chain m a xs b \<Longrightarrow> nx m a = Some (if xs = [] then b else hd xs)"
  by (cases xs) auto

text \<open>Linking \<open>n\<close> into the middle of a chain, and unlinking it.\<close>

lemma add_between_fields:
  "nx (p_list_add_between n q p m) = (nx m)(n := Some p, q := Some n)"
  "pv (p_list_add_between n q p m) = (pv m)(p := Some n, n := Some q)"
  by (simp_all add: p_list_add_between_def Let_def)

lemma chain_add_between:
  assumes "chain m a us p" "n \<notin> set us" "n \<noteq> a" "n \<noteq> p" "p \<notin> set us" "a \<notin> set us" "distinct us"
    and "q = (if us = [] then a else last us)"
  shows "chain (p_list_add_between n q p m) a (us @ [n]) p"
proof (cases us rule: rev_cases)
  case Nil
  then show ?thesis using assms by (auto simp: add_between_fields)
next
  case (snoc us' u)
  then have c: "chain m a us' u" "chain m u [] p" using assms(1) by (simp_all add: chain_split)
  have "chain (p_list_add_between n u p m) a us' u"
    by (rule chain_frame[OF c(1)]) (use assms snoc in \<open>auto simp: add_between_fields\<close>)
  moreover have "chain (p_list_add_between n u p m) u [n] p"
    using assms snoc by (auto simp: add_between_fields)
  ultimately show ?thesis using assms(8) snoc by (simp add: chain_split)
qed

lemma modelsD:
  assumes "models ls m"
  shows "lwf ls" "lists ls h = None \<Longrightarrow> nx m (PH h) = None" "lists ls h = None \<Longrightarrow> pv m (PH h) = None"
    "lists ls h = Some xs \<Longrightarrow> chain m (PH h) (map PN xs) (PH h)"
    "nstat ls n = NNull \<Longrightarrow> nx m (PN n) = None" "nstat ls n = NNull \<Longrightarrow> pv m (PN n) = None"
    "nstat ls n = NSelf \<Longrightarrow> nx m (PN n) = Some (PN n)" "nstat ls n = NSelf \<Longrightarrow> pv m (PN n) = Some (PN n)"
  using assms unfolding models_def by blast+

lemma modelsI:
  assumes "lwf ls" "\<And>h. lists ls h = None \<Longrightarrow> nx m (PH h) = None \<and> pv m (PH h) = None"
    "\<And>h xs. lists ls h = Some xs \<Longrightarrow> chain m (PH h) (map PN xs) (PH h)"
    "\<And>n. nstat ls n = NNull \<Longrightarrow> nx m (PN n) = None \<and> pv m (PN n) = None"
    "\<And>n. nstat ls n = NSelf \<Longrightarrow> nx m (PN n) = Some (PN n) \<and> pv m (PN n) = Some (PN n)"
  shows "models ls m"
  using assms unfolding models_def by blast+

text \<open>Chains of other heads, and unlinked nodes, are not touched by writes to the members of one
  list: the members and the head of list \<open>h\<close>, and one node that is not a member of any list.\<close>

definition touched :: "'h \<Rightarrow> 'n list \<Rightarrow> 'n \<Rightarrow> ('h, 'n) ptr set" where
  "touched h xs n = insert (PH h) (PN ` insert n (set xs))"

lemma models_update:
  assumes m: "models ls m" and wf: "lwf ls'" and h: "lists ls h = Some xs"
    and n: "\<And>h' zs. h' \<noteq> h \<Longrightarrow> lists ls h' = Some zs \<Longrightarrow> n \<notin> set zs"
    and eq: "\<And>p. p \<notin> touched h xs n \<Longrightarrow> nx m' p = nx m p \<and> pv m' p = pv m p"
    and L: "lists ls' = (lists ls)(h \<mapsto> ys)" and N: "\<And>k. k \<noteq> n \<Longrightarrow> nstat ls' k = nstat ls k"
    and c: "chain m' (PH h) (map PN ys) (PH h)"
    and s: "nstat ls' n = NNull \<Longrightarrow> nx m' (PN n) = None \<and> pv m' (PN n) = None" "nstat ls' n \<noteq> NSelf"
  shows "models ls' m'"
proof (rule modelsI)
  show "lwf ls'" by (rule wf)
  fix h' assume "lists ls' h' = None"
  then have "h' \<noteq> h" "lists ls h' = None" using L by (auto split: if_splits)
  then show "nx m' (PH h') = None \<and> pv m' (PH h') = None"
    using eq[of "PH h'"] modelsD(2,3)[OF m, of h'] by (auto simp: touched_def)
next
  fix h' zs assume z: "lists ls' h' = Some zs"
  show "chain m' (PH h') (map PN zs) (PH h')"
  proof (cases "h' = h")
    case True
    then show ?thesis using z L c by simp
  next
    case False
    then have z': "lists ls h' = Some zs" using z L by simp
    have "k \<notin> set xs" if "k \<in> set zs" for k
      using that lwfD(2)[OF modelsD(1)[OF m] z'] lwfD(2)[OF modelsD(1)[OF m] h] False by fastforce
    then have "PN k \<notin> touched h xs n" if "k \<in> set zs" for k
      using that n[OF False z'] by (auto simp: touched_def)
    moreover have "PH h' \<notin> touched h xs n" using False by (auto simp: touched_def)
    ultimately show ?thesis
      by (intro chain_frame[OF modelsD(4)[OF m z']]) (use eq in auto)
  qed
next
  fix k
  show "nx m' (PN k) = None \<and> pv m' (PN k) = None" if k: "nstat ls' k = NNull"
  proof (cases "k = n")
    case False
    then have st: "nstat ls k = NNull" using N k by simp
    then have "k \<notin> set xs" using lwfD(2)[OF modelsD(1)[OF m] h] by fastforce
    then have "PN k \<notin> touched h xs n" using False by (auto simp: touched_def)
    then show ?thesis using eq modelsD(5,6)[OF m st] by simp
  qed (use s(1) k in simp)
  show "nx m' (PN k) = Some (PN k) \<and> pv m' (PN k) = Some (PN k)" if k: "nstat ls' k = NSelf"
  proof -
    have kn: "k \<noteq> n" using s(2) k by auto
    then have st: "nstat ls k = NSelf" using N k by simp
    then have "k \<notin> set xs" using lwfD(2)[OF modelsD(1)[OF m] h] by fastforce
    then have "PN k \<notin> touched h xs n" using kn by (auto simp: touched_def)
    then show ?thesis using eq modelsD(7,8)[OF m st] by simp
  qed
qed

lemma add_between_models:
  assumes m: "models ls m" and h: "lists ls h = Some (us @ vs)" and n: "\<not> linked n ls"
    and q: "q = (if us = [] then PH h else PN (last us))" and p: "p = (if vs = [] then PH h else PN (hd vs))"
    and ls': "ls' = ls\<lparr>lists := (lists ls)(h \<mapsto> us @ n # vs), nstat := (nstat ls)(n := NIn h)\<rparr>"
  shows "models ls' (p_list_add_between (PN n) q p m)"
proof -
  note wf = modelsD(1)[OF m]
  have nin: "n \<notin> set (us @ vs)" by (rule unlinked_notin[OF wf n h])
  have d: "distinct (us @ vs)" by (rule lwfD(1)[OF wf h])
  let ?m = "p_list_add_between (PN n) q p m"
  have c: "chain m (PH h) (map PN (us @ vs)) (PH h)" by (rule modelsD(4)[OF m h])
  have ch: "chain ?m (PH h) (map PN (us @ n # vs)) (PH h)"
  proof (cases vs)
    case Nil
    then have p': "p = PH h" using p by simp
    have "chain ?m (PH h) (map PN us @ [PN n]) (PH h)"
      unfolding p' by (rule chain_add_between) (use c nin d q Nil in \<open>auto simp: last_map distinct_map inj_on_def\<close>)
    then show ?thesis using Nil by simp
  next
    case (Cons v vs')
    have cs: "chain m (PH h) (map PN us) (PN v)" "chain m (PN v) (map PN vs') (PH h)"
      using c Cons by (simp_all add: chain_split)
    have p': "p = PN v" using p Cons by simp
    have l: "chain ?m (PH h) (map PN us @ [PN n]) (PN v)"
      unfolding p' by (rule chain_add_between)
        (use cs nin d q Cons in \<open>auto simp: last_map distinct_map inj_on_def\<close>)
    have "q \<notin> set (map PN (v # vs'))"
      using q d Cons disjoint_iff[of "set us" "set vs'"] last_in_set[of us] by (cases "us = []") fastforce+
    then have "chain ?m (PN v) (map PN vs') (PH h)"
      by (intro chain_frame[OF cs(2)]) (use nin p' d Cons in \<open>auto simp: add_between_fields\<close>)
    then have "chain ?m (PH h) ((map PN us @ [PN n]) @ PN v # map PN vs') (PH h)"
      unfolding chain_split[of _ _ "map PN us @ [PN n]"] using l by blast
    then show ?thesis using Cons by simp
  qed
  show ?thesis
  proof (rule models_update[OF m _ h _ _ _ _ ch])
    show "lwf ls'" unfolding ls' by (rule insert_member_lwf[OF wf n h]) (use nin d in auto)
    show "lists ls' = (lists ls)(h \<mapsto> us @ n # vs)" "\<And>k. k \<noteq> n \<Longrightarrow> nstat ls' k = nstat ls k"
      "nstat ls' n = NNull \<Longrightarrow> nx ?m (PN n) = None \<and> pv ?m (PN n) = None" "nstat ls' n \<noteq> NSelf"
      by (simp_all add: ls')
    fix p' assume "p' \<notin> touched h (us @ vs) n"
    then have "p' \<noteq> q" "p' \<noteq> p" "p' \<noteq> PN n" using q p by (auto simp: touched_def split: if_splits)
    then show "nx ?m p' = nx m p' \<and> pv ?m p' = pv m p'" by (simp add: add_between_fields)
  qed (use unlinked_notin[OF wf n] in blast)
qed

lemma del_between_fields:
  "nx (p_list_del_between q p m) = (nx m)(q := Some p)" "pv (p_list_del_between q p m) = (pv m)(p := Some q)"
  by (simp_all add: p_list_del_between_def Let_def)

lemma list_del_models:
  assumes m: "models ls m" and del: "list_del n ls = Some ls'"
  shows "\<exists>m'. p_list_del (PN n) m = Some m' \<and> models ls' m'"
proof (cases "nstat ls n")
  case NNull
  then show ?thesis using del by (simp add: list_del_def)
next
  case NSelf
  have ls': "ls' = ls\<lparr>nstat := (nstat ls)(n := NNull)\<rparr>" using del NSelf by (simp add: list_del_def)
  let ?m = "m\<lparr>nx := (nx m)(PN n := None), pv := (pv m)(PN n := None)\<rparr>"
  have "p_list_del (PN n) m = Some ?m"
    using modelsD(7,8)[OF m NSelf] by (simp add: p_list_del_def p_list_del_between_def)
  moreover have "models ls' ?m"
  proof (rule modelsI)
    show "lwf ls'" using list_del_lwf[OF del modelsD(1)[OF m]] .
    fix h xs assume x: "lists ls' h = Some xs"
    then have x': "lists ls h = Some xs" by (simp add: ls')
    then have "n \<notin> set xs" using lwfD(2)[OF modelsD(1)[OF m]] NSelf by fastforce
    then show "chain ?m (PH h) (map PN xs) (PH h)" by (intro chain_frame[OF modelsD(4)[OF m x']]) auto
  qed (use modelsD[OF m] in \<open>auto simp: ls' split: if_splits\<close>)
  ultimately show ?thesis by blast
next
  case (NIn h)
  note wf = modelsD(1)[OF m]
  obtain xs where xs: "lists ls h = Some xs" "n \<in> set xs" using lwfD(3)[OF wf NIn] by blast
  obtain us vs where uv: "xs = us @ n # vs" using split_list[OF xs(2)] by blast
  have d: "distinct xs" by (rule lwfD(1)[OF wf xs(1)])
  have c: "chain m (PH h) (map PN us) (PN n)" "chain m (PN n) (map PN vs) (PH h)"
    using modelsD(4)[OF m xs(1)] by (simp_all add: uv chain_split)
  define q where "q = (if us = [] then PH h else PN (last us))"
  define p where "p = (if vs = [] then PH h else PN (hd vs))"
  have qp: "pv m (PN n) = Some q" "nx m (PN n) = Some p"
    using chain_last[OF c(1)] chain_first[OF c(2)] by (auto simp: q_def p_def last_map hd_map)
  let ?b = "p_list_del_between q p m"
  let ?m = "?b\<lparr>nx := (nx ?b)(PN n := None), pv := (pv ?b)(PN n := None)\<rparr>"
  have e: "p_list_del (PN n) m = Some ?m" by (simp add: p_list_del_def qp Let_def)
  have ls': "ls' = ls\<lparr>lists := (lists ls)(h \<mapsto> us @ vs), nstat := (nstat ls)(n := NNull)\<rparr>"
    using del NIn xs(1) d by (simp add: list_del_def uv remove1_append)
  have ch: "chain ?m (PH h) (map PN (us @ vs)) (PH h)"
  proof (cases us rule: rev_cases)
    case Nil
    show ?thesis
    proof (cases vs)
      case Nil
      then show ?thesis using \<open>us = []\<close> by (simp add: del_between_fields q_def p_def)
    next
      case (Cons v vs')
      have "chain ?m (PN v) (map PN vs') (PH h)"
        by (rule chain_frame[of m]) (use c(2) Cons d uv in \<open>auto simp: del_between_fields q_def p_def \<open>us = []\<close>\<close>)
      then show ?thesis using Cons \<open>us = []\<close> d uv by (auto simp: del_between_fields q_def p_def)
    qed
  next
    case (snoc us' u)
    have c1: "chain m (PH h) (map PN us') (PN u)" using c(1) snoc by (simp add: chain_split)
    have c1': "chain ?m (PH h) (map PN us') (PN u)"
      by (rule chain_frame[OF c1]) (use d uv snoc in \<open>auto simp: del_between_fields q_def p_def split: if_splits\<close>)
    show ?thesis
    proof (cases vs)
      case Nil
      have "chain ?m (PN u) [] (PH h)" using d uv snoc Nil by (auto simp: del_between_fields q_def p_def)
      then show ?thesis using c1' snoc Nil by (simp add: chain_split)
    next
      case (Cons v vs')
      have "chain ?m (PN v) (map PN vs') (PH h)"
        by (rule chain_frame[of m]) (use c(2) Cons d uv snoc in \<open>auto simp: del_between_fields q_def p_def\<close>)
      moreover have "nx ?m (PN u) = Some (PN v)" "pv ?m (PN v) = Some (PN u)"
        using d uv snoc Cons by (auto simp: del_between_fields q_def p_def)
      ultimately have "chain ?m (PN u) (map PN vs) (PH h)" using Cons by simp
      then show ?thesis using c1' snoc by (simp add: chain_split)
    qed
  qed
  have "models ls' ?m"
  proof (rule models_update[OF m _ xs(1) _ _ _ _ ch])
    show "lwf ls'" by (rule list_del_lwf[OF del wf])
    show "lists ls' = (lists ls)(h \<mapsto> us @ vs)" "\<And>k. k \<noteq> n \<Longrightarrow> nstat ls' k = nstat ls k"
      "nstat ls' n = NNull \<Longrightarrow> nx ?m (PN n) = None \<and> pv ?m (PN n) = None" "nstat ls' n \<noteq> NSelf"
      by (simp_all add: ls')
    show "n \<notin> set zs" if "h' \<noteq> h" "lists ls h' = Some zs" for h' zs
      using lwfD(2)[OF wf that(2), of n] NIn that(1) by auto
    fix p' assume "p' \<notin> touched h xs n"
    then have "p' \<noteq> q" "p' \<noteq> p" "p' \<noteq> PN n" by (auto simp: touched_def uv q_def p_def split: if_splits)
    then show "nx ?m p' = nx m p' \<and> pv ?m p' = pv m p'" by (simp add: del_between_fields)
  qed
  then show ?thesis using e by blast
qed

lemma list_add_tail_models:
  assumes m: "models ls m" and add: "list_add_tail n h ls = Some ls'"
  shows "\<exists>m'. p_list_add_tail (PN n) (PH h) m = Some m' \<and> models ls' m'"
proof -
  obtain xs where xs: "lists ls h = Some xs" "\<not> linked n ls"
    "ls' = ls\<lparr>lists := (lists ls)(h \<mapsto> xs @ [n]), nstat := (nstat ls)(n := NIn h)\<rparr>"
    using add by (auto simp: list_add_tail_def split: option.splits if_splits)
  have "models ls' (p_list_add_between (PN n) (if xs = [] then PH h else PN (last xs)) (PH h) m)"
    by (rule add_between_models[OF m, of h xs "[]"]) (use xs in simp_all)
  then show ?thesis
    using chain_last[OF modelsD(4)[OF m xs(1)]]
    by (auto simp: p_list_add_tail_def last_map split: if_splits)
qed

lemma list_add_before_models:
  assumes m: "models ls m" and add: "list_add_before n p ls = Some ls'"
  shows "\<exists>m'. p_list_add_before (PN n) (PN p) m = Some m' \<and> models ls' m'"
proof -
  note wf = modelsD(1)[OF m]
  obtain h xs where h: "nstat ls p = NIn h" "lists ls h = Some xs" "\<not> linked n ls"
    "ls' = ls\<lparr>lists := (lists ls)(h \<mapsto> insert_before n p xs), nstat := (nstat ls)(n := NIn h)\<rparr>"
    using add by (auto simp: list_add_before_def split: nstate.splits option.splits if_splits)
  have "p \<in> set xs" using lwf_in_iff[OF wf h(2)] h(1) by simp
  then obtain us vs where uv: "xs = us @ p # vs" using split_list by fast
  have np: "p \<notin> set us" using lwfD(1)[OF wf h(2)] uv by simp
  have l: "models ls' (p_list_add_between (PN n) (if us = [] then PH h else PN (last us)) (PN p) m)"
    by (rule add_between_models[OF m, of h us "p # vs"]) (use h uv np in \<open>simp_all add: insert_before_split\<close>)
  have "chain m (PH h) (map PN us) (PN p)"
    using modelsD(4)[OF m h(2)] by (simp add: uv chain_split)
  from chain_last[OF this] have "pv m (PN p) = Some (if us = [] then PH h else PN (last us))"
    by (simp add: last_map)
  then show ?thesis using l by (simp add: p_list_add_before_def)
qed

lemma list_init_head_models:
  assumes m: "models ls m" and i: "list_init_head h ls = Some ls'"
  shows "models ls' (p_list_init (PH h) m)"
proof -
  have ls': "ls' = ls\<lparr>lists := (lists ls)(h \<mapsto> [])\<rparr>" using i by (auto simp: list_init_head_def split: if_splits)
  show ?thesis
  proof (rule modelsI)
    show "lwf ls'" by (rule list_init_head_lwf[OF i modelsD(1)[OF m]])
    fix h' xs assume x: "lists ls' h' = Some xs"
    show "chain (p_list_init (PH h) m) (PH h') (map PN xs) (PH h')"
    proof (cases "h' = h")
      case True
      then show ?thesis using x by (simp add: ls' p_list_init_def)
    next
      case False
      then have "chain m (PH h') (map PN xs) (PH h')" using x modelsD(4)[OF m] by (simp add: ls')
      then show ?thesis by (rule chain_frame) (use False in \<open>auto simp: p_list_init_def\<close>)
    qed
  qed (use modelsD[OF m] in \<open>auto simp: ls' p_list_init_def split: if_splits\<close>)
qed

lemma list_init_node_models:
  assumes m: "models ls m" and i: "list_init_node n ls = Some ls'"
  shows "models ls' (p_list_init (PN n) m)"
proof -
  have ls': "ls' = ls\<lparr>nstat := (nstat ls)(n := NSelf)\<rparr>" "\<not> linked n ls"
    using i by (auto simp: list_init_node_def split: if_splits)
  show ?thesis
  proof (rule modelsI)
    show "lwf ls'" by (rule list_init_node_lwf[OF i modelsD(1)[OF m]])
    fix h xs assume x: "lists ls' h = Some xs"
    then have x': "lists ls h = Some xs" by (simp add: ls')
    have "n \<notin> set xs" by (rule unlinked_notin[OF modelsD(1)[OF m] ls'(2) x'])
    then show "chain (p_list_init (PN n) m) (PH h) (map PN xs) (PH h)"
      by (intro chain_frame[OF modelsD(4)[OF m x']]) (auto simp: p_list_init_def)
  qed (use modelsD[OF m] in \<open>auto simp: ls' p_list_init_def split: if_splits\<close>)
qed

lemma list_is_empty_models:
  assumes m: "models ls m"
  shows "p_list_is_empty (PH h) m \<longleftrightarrow> list_is_empty h ls"
proof (cases "lists ls h")
  case None
  then show ?thesis using modelsD(2)[OF m None] by (simp add: p_list_is_empty_def list_is_empty_def)
next
  case (Some xs)
  then show ?thesis using chain_first[OF modelsD(4)[OF m Some]]
    by (auto simp: p_list_is_empty_def list_is_empty_def hd_map)
qed

lemma list_first_models: "models ls m \<Longrightarrow> list_first h ls = Some n \<Longrightarrow> p_list_first (PH h) m = Some (PN n)"
  using chain_first[OF modelsD(4)[of ls m h]]
  by (fastforce simp: p_list_first_def list_first_def split: option.splits list.splits)

section \<open>The refinement\<close>

datatype ('h, 'n) list_op = OpInitHead 'h | OpInitNode 'n | OpAddTail 'n 'h | OpAddBefore 'n 'n | OpDel 'n

fun list_step :: "('h, 'n) list_op \<Rightarrow> ('h, 'n) lstore \<Rightarrow> ('h, 'n) lstore option" where
  "list_step (OpInitHead h) ls = list_init_head h ls"
| "list_step (OpInitNode n) ls = list_init_node n ls"
| "list_step (OpAddTail n h) ls = list_add_tail n h ls"
| "list_step (OpAddBefore n p) ls = list_add_before n p ls"
| "list_step (OpDel n) ls = list_del n ls"

fun p_list_step :: "('h, 'n) list_op \<Rightarrow> ('h, 'n) pmem \<Rightarrow> ('h, 'n) pmem option" where
  "p_list_step (OpInitHead h) m = Some (p_list_init (PH h) m)"
| "p_list_step (OpInitNode n) m = Some (p_list_init (PN n) m)"
| "p_list_step (OpAddTail n h) m = p_list_add_tail (PN n) (PH h) m"
| "p_list_step (OpAddBefore n p) m = p_list_add_before (PN n) (PN p) m"
| "p_list_step (OpDel n) m = p_list_del (PN n) m"

fun list_run :: "('h, 'n) list_op list \<Rightarrow> ('h, 'n) lstore \<Rightarrow> ('h, 'n) lstore option" where
  "list_run [] ls = Some ls"
| "list_run (p # ps) ls = Option.bind (list_step p ls) (list_run ps)"

fun p_list_run :: "('h, 'n) list_op list \<Rightarrow> ('h, 'n) pmem \<Rightarrow> ('h, 'n) pmem option" where
  "p_list_run [] m = Some m"
| "p_list_run (p # ps) m = Option.bind (p_list_step p m) (p_list_run ps)"

lemma list_step_models:
  "models ls m \<Longrightarrow> list_step p ls = Some ls' \<Longrightarrow> \<exists>m'. p_list_step p m = Some m' \<and> models ls' m'"
  by (cases p) (auto intro: list_init_head_models list_init_node_models
      list_add_tail_models list_add_before_models list_del_models)

text \<open>Zeroed memory: no head and no node is initialised.\<close>

definition ls_zero :: "('h, 'n) lstore" where
  "ls_zero = \<lparr>lists = \<lambda>_. None, nstat = \<lambda>_. NNull\<rparr>"

definition p_zero :: "('h, 'n) pmem" where
  "p_zero = \<lparr>nx = \<lambda>_. None, pv = \<lambda>_. None\<rparr>"

lemma models_zero: "models ls_zero p_zero"
  by (simp add: models_def lwf_def ls_zero_def p_zero_def)

lemma list_run_models:
  "models ls m \<Longrightarrow> list_run ps ls = Some ls' \<Longrightarrow> \<exists>m'. p_list_run ps m = Some m' \<and> models ls' m'"
proof (induction ps arbitrary: ls m)
  case (Cons p ps)
  then obtain ls1 where s: "list_step p ls = Some ls1" "list_run ps ls1 = Some ls'"
    by (auto split: bind_splits)
  then obtain m1 where "p_list_step p m = Some m1" "models ls1 m1"
    using list_step_models[OF Cons.prems(1)] by blast
  then show ?case using Cons.IH s(2) by simp
qed simp

text \<open>C20. The intrusive lists implement sequences: starting from zeroed memory, whenever a series of
  \<^verbatim>\<open>list.h\<close> operations is meaningful on sequences of members, the pointer code runs without a null
  dereference, following \<open>next\<close> (and \<open>prev\<close>) from each head visits exactly its members in order and
  returns to the head, an unlinked node has both pointers null, and the emptiness test and the
  first entry read from the pointers are those of the sequence.\<close>

theorem list_ops_refine:
  assumes "list_run ps ls_zero = Some ls"
  shows "\<exists>m. p_list_run ps p_zero = Some m \<and>
    (\<forall>h xs. lists ls h = Some xs \<longrightarrow> chain m (PH h) (map PN xs) (PH h)) \<and>
    (\<forall>n. nstat ls n = NNull \<longrightarrow> nx m (PN n) = None \<and> pv m (PN n) = None) \<and>
    (\<forall>h. p_list_is_empty (PH h) m \<longleftrightarrow> list_is_empty h ls) \<and>
    (\<forall>h n. list_first h ls = Some n \<longrightarrow> p_list_first (PH h) m = Some (PN n))"
proof -
  obtain m where m: "p_list_run ps p_zero = Some m" "models ls m"
    using list_run_models[OF models_zero assms] by blast
  then show ?thesis
    using modelsD(4-6)[OF m(2)] list_is_empty_models[OF m(2)] list_first_models[OF m(2)] by blast
qed

theorem list_ops_refine_witness:
  "list_run [OpInitHead (0::nat), OpInitNode (1::nat), OpAddTail 1 0, OpAddTail 2 0, OpAddBefore 3 2, OpDel 1] ls_zero
     \<noteq> None \<and> (\<exists>m. p_list_run [OpInitHead (0::nat), OpInitNode (1::nat), OpAddTail 1 0, OpAddTail 2 0,
       OpAddBefore 3 2, OpDel 1] p_zero = Some m \<and> chain m (PH 0) [PN 3, PN 2] (PH 0))"
proof -
  let ?ps = "[OpInitHead (0::nat), OpInitNode (1::nat), OpAddTail 1 0, OpAddTail 2 0, OpAddBefore 3 2, OpDel 1]"
  obtain ls where ls: "list_run ?ps ls_zero = Some ls" "lists ls 0 = Some [3, 2]"
    by (simp add: ls_zero_def list_init_head_def list_init_node_def list_add_tail_def list_add_before_def
        list_del_def linked_def)
  show ?thesis using list_ops_refine[OF ls(1)] ls by (auto dest!: spec[of _ 0])
qed

end
