(* ===== verification/Kernel_State.thy ===== *)
theory Kernel_State
  imports Objects Handles Lists Isr Trace Crash Kheap_Run
begin

text \<open>
  The state of the running kernel: the task control block of \<^verbatim>\<open>include/aixos/task.h\<close>, the pooled
  IPC objects, and one record that holds every static variable of the kernel next to the states of
  the components below (object pools, heap, trace, interrupt nesting). Memory that C code reaches
  through typed pointers (control blocks, pooled objects) is kept in typed fields; buffers and
  stacks are bytes of the memory \<open>hmem\<close> of the heap state. An operation that dereferences a null
  or freed control block, or that would corrupt a list, is \<open>None\<close>.
\<close>

section \<open>Configuration\<close>

abbreviation (input) AIXOS_CFG_IDLE_PRIORITY :: int where "AIXOS_CFG_IDLE_PRIORITY \<equiv> 0"
abbreviation (input) AIXOS_CFG_TIMER_TASK_PRIORITY :: int where "AIXOS_CFG_TIMER_TASK_PRIORITY \<equiv> 63"
abbreviation (input) AIXOS_CFG_TIME_SLICE_TICKS :: u32 where "AIXOS_CFG_TIME_SLICE_TICKS \<equiv> 1"
abbreviation (input) AIXOS_CFG_SYSTICK_HZ :: nat where "AIXOS_CFG_SYSTICK_HZ \<equiv> 1000"
abbreviation (input) AIXOS_CFG_MIN_TASK_STACK_SIZE :: u32 where "AIXOS_CFG_MIN_TASK_STACK_SIZE \<equiv> 192"
abbreviation (input) AIXOS_CFG_STACK_GUARD_BYTES :: u32 where "AIXOS_CFG_STACK_GUARD_BYTES \<equiv> 16"
abbreviation (input) AIXOS_CFG_IDLE_STACK_SIZE :: u32 where "AIXOS_CFG_IDLE_STACK_SIZE \<equiv> 256"
abbreviation (input) AIXOS_CFG_TIMER_STACK_SIZE :: u32 where "AIXOS_CFG_TIMER_STACK_SIZE \<equiv> 512"
abbreviation (input) AIXOS_CFG_CAPS_PER_TASK :: nat where "AIXOS_CFG_CAPS_PER_TASK \<equiv> 16"
abbreviation (input) AIXOS_CFG_POSIX_KEYS :: nat where "AIXOS_CFG_POSIX_KEYS \<equiv> 16"
abbreviation (input) AIXOS_CFG_MPU_REGIONS_PER_TASK :: nat where "AIXOS_CFG_MPU_REGIONS_PER_TASK \<equiv> 3"
abbreviation (input) AIXOS_CFG_MPU_MIN_REGION_SIZE :: u32 where "AIXOS_CFG_MPU_MIN_REGION_SIZE \<equiv> 32"
abbreviation (input) AIXOS_CFG_MQ_PRIORITY_MAX :: u32 where "AIXOS_CFG_MQ_PRIORITY_MAX \<equiv> 31"
abbreviation (input) AIXOS_CFG_ISR_MQ_SHIFT_MAX :: u32 where "AIXOS_CFG_ISR_MQ_SHIFT_MAX \<equiv> 2"
abbreviation (input) AIXOS_CFG_NAMESPACE_MAX :: nat where "AIXOS_CFG_NAMESPACE_MAX \<equiv> 32"
abbreviation (input) AIXOS_CFG_FLASH_BASE :: u32 where "AIXOS_CFG_FLASH_BASE \<equiv> 0x08000000"
abbreviation (input) AIXOS_CFG_FLASH_SIZE :: u32 where "AIXOS_CFG_FLASH_SIZE \<equiv> 0x80000"

section \<open>List heads and nodes\<close>

text \<open>Every \<open>aixos_list_t\<close> of the kernel. Heads and nodes inside a control block are named by the
  block's address, those inside a pooled object by its index.\<close>

datatype lhead =
    AllTasks | TimeoutList | ReapList | ReadyQ nat | HeldMutexes u32
  | SemWait nat | MutexWait nat | MqSend nat | MqRecv nat | EventWait nat | PipeRead nat | PipeWrite nat
  | ActiveTimers | PendingTimers | ServiceWaiters | TwL1 nat | TwL2 nat
  | ChConns nat | ChMsgs nat

datatype lnode =
    ReadyN u32 | AllN u32 | WaitN u32 | TimeoutN u32
  | OwnerN nat | ActiveN nat | PendingN nat | ConnN nat | MsgN nat

text \<open>\<open>AIXOS_CONTAINER_OF\<close>\<close>

fun node_task :: "lnode \<Rightarrow> u32 option" where
  "node_task (ReadyN a) = Some a"
| "node_task (AllN a) = Some a"
| "node_task (WaitN a) = Some a"
| "node_task (TimeoutN a) = Some a"
| "node_task _ = None"

fun node_object :: "lnode \<Rightarrow> nat option" where
  "node_object (OwnerN i) = Some i"
| "node_object (ActiveN i) = Some i"
| "node_object (PendingN i) = Some i"
| "node_object (ConnN i) = Some i"
| "node_object (MsgN i) = Some i"
| "node_object _ = None"

section \<open>Task control blocks\<close>

record aixos_mpu_region_t =
  mr_base :: u32
  mr_size :: u32
  mr_attr :: u32

record capability =
  cap_object :: aixos_handle_t
  cap_rights :: u16
  cap_type :: aixos_obj_type
  cap_used :: bool

record aixos_tcb =
  t_stack_top :: u32
  t_arch_control :: u32
  t_name :: string
  t_priority :: int
  t_state :: aixos_task_state
  t_handle :: aixos_handle_t
  t_stack_base :: u32
  t_stack_alloc_base :: u32
  t_stack_size :: u32
  t_time_slice :: u32
  t_runtime_ticks :: u64
  t_switch_count :: u64
  t_wait_obj :: kptr
  t_wait_list :: "lhead option"
  t_wait_type :: aixos_obj_type
  t_wait_result :: int
  t_wake_tick :: u32
  t_base_priority :: int
  t_pend_mask :: u32
  t_pend_result :: u32
  t_pend_mode :: u8
  t_owns_tcb :: bool
  t_owns_stack :: bool
  t_stack_guard_failed :: bool
  t_notify_pending :: bool
  t_domain :: aixos_domain
  t_faulted :: bool
  t_notify_value :: u32
  t_capabilities :: "capability list"
  t_posix_errno :: int
  t_posix_values :: "u32 list"
  t_posix_key_generations :: "u32 list"
  t_signal_pending :: u32
  t_signal_mask :: u32
  t_signal_handler :: "u32 list"
  t_signal_arg :: "u32 list"
  t_sched_policy :: int
  t_sched_priority :: u32
  t_sched_boosted :: bool
  t_pending_signal :: bool
  t_sched_wait_obj :: kptr
  t_mpu_region_count :: nat
  t_mpu_regions :: "aixos_mpu_region_t list"

text \<open>\<open>sizeof(aixos_tcb_t)\<close> of the 32-bit target.\<close>

abbreviation (input) sizeof_tcb :: u32 where "sizeof_tcb \<equiv> 736"

definition zero_capability :: capability where
  "zero_capability = \<lparr>cap_object = 0, cap_rights = 0, cap_type = AIXOS_OBJ_UNUSED, cap_used = False\<rparr>"

definition zero_region :: aixos_mpu_region_t where
  "zero_region = \<lparr>mr_base = 0, mr_size = 0, mr_attr = 0\<rparr>"

definition zero_tcb :: aixos_tcb where
  "zero_tcb = \<lparr>t_stack_top = 0, t_arch_control = 0, t_name = replicate 16 NUL, t_priority = 0,
     t_state = AIXOS_TASK_READY, t_handle = 0, t_stack_base = 0, t_stack_alloc_base = 0,
     t_stack_size = 0, t_time_slice = 0, t_runtime_ticks = 0, t_switch_count = 0,
     t_wait_obj = KNull, t_wait_list = None, t_wait_type = AIXOS_OBJ_UNUSED, t_wait_result = 0,
     t_wake_tick = 0, t_base_priority = 0, t_pend_mask = 0, t_pend_result = 0, t_pend_mode = 0,
     t_owns_tcb = False, t_owns_stack = False, t_stack_guard_failed = False,
     t_notify_pending = False, t_domain = AIXOS_DOMAIN_KERNEL, t_faulted = False,
     t_notify_value = 0, t_capabilities = replicate AIXOS_CFG_CAPS_PER_TASK zero_capability,
     t_posix_errno = 0, t_posix_values = replicate AIXOS_CFG_POSIX_KEYS 0,
     t_posix_key_generations = replicate AIXOS_CFG_POSIX_KEYS 0, t_signal_pending = 0,
     t_signal_mask = 0, t_signal_handler = replicate 32 0, t_signal_arg = replicate 32 0,
     t_sched_policy = 0, t_sched_priority = 0, t_sched_boosted = False, t_pending_signal = False,
     t_sched_wait_obj = KNull, t_mpu_region_count = 0,
     t_mpu_regions = replicate AIXOS_CFG_MPU_REGIONS_PER_TASK zero_region\<rparr>"

section \<open>Pooled objects\<close>

record aixos_sem_t =
  sem_count :: int
  sem_handle :: aixos_handle_t

record aixos_mutex_t =
  mx_owner :: aixos_handle_t
  mx_lock_count :: u32
  mx_handle :: aixos_handle_t

record aixos_event_t =
  ev_flags :: u32
  ev_handle :: aixos_handle_t

record aixos_mq_t =
  mq_buffer :: u32
  mq_lengths :: u32
  mq_priorities :: u32
  mq_max_msgs :: u32
  mq_msg_size :: u32
  mq_head :: u32
  mq_tail :: u32
  mq_count :: u32
  mq_handle :: aixos_handle_t
  mq_owns_buffers :: bool

record aixos_pipe_t =
  pp_buffer :: u32
  pp_size :: u32
  pp_head :: u32
  pp_tail :: u32
  pp_count :: u32
  pp_handle :: aixos_handle_t
  pp_owns_buffer :: bool

datatype aixos_timer_type = AIXOS_TIMER_ONESHOT | AIXOS_TIMER_PERIODIC

record aixos_timer_inner_t =
  tm_name :: string
  tm_type :: aixos_timer_type
  tm_callback :: u32
  tm_arg :: u32
  tm_interval :: u32
  tm_deadline :: u32
  tm_active :: bool
  tm_pending :: bool
  tm_handle :: aixos_handle_t

record namespace_entry_t =
  ns_name :: string
  ns_object :: aixos_handle_t
  ns_type :: aixos_obj_type
  ns_default_rights :: u16
  ns_used :: bool

record channel_t =
  ch_used :: bool
  ch_flags :: u8
  ch_owner :: aixos_handle_t
  ch_receiver :: u32

record connection_t =
  cn_used :: bool
  cn_ch_cap :: int
  cn_ch_idx :: nat
  cn_owner :: aixos_handle_t

record pending_msg_t =
  pm_used :: bool
  pm_msg_buf :: "u8 list"
  pm_msg_size :: u32
  pm_reply_buf :: "u8 list"
  pm_reply_size :: u32
  pm_reply_capacity :: u32
  pm_sender_conn_idx :: nat
  pm_sender :: u32
  pm_reply_user_ptr :: u32

definition zero_sem :: aixos_sem_t where "zero_sem = \<lparr>sem_count = 0, sem_handle = 0\<rparr>"

definition zero_mutex :: aixos_mutex_t where
  "zero_mutex = \<lparr>mx_owner = 0, mx_lock_count = 0, mx_handle = 0\<rparr>"

definition zero_event :: aixos_event_t where "zero_event = \<lparr>ev_flags = 0, ev_handle = 0\<rparr>"

definition zero_mq :: aixos_mq_t where
  "zero_mq = \<lparr>mq_buffer = 0, mq_lengths = 0, mq_priorities = 0, mq_max_msgs = 0, mq_msg_size = 0,
     mq_head = 0, mq_tail = 0, mq_count = 0, mq_handle = 0, mq_owns_buffers = False\<rparr>"

definition zero_pipe :: aixos_pipe_t where
  "zero_pipe = \<lparr>pp_buffer = 0, pp_size = 0, pp_head = 0, pp_tail = 0, pp_count = 0, pp_handle = 0,
     pp_owns_buffer = False\<rparr>"

definition zero_timer :: aixos_timer_inner_t where
  "zero_timer = \<lparr>tm_name = replicate 16 NUL, tm_type = AIXOS_TIMER_ONESHOT, tm_callback = 0,
     tm_arg = 0, tm_interval = 0, tm_deadline = 0, tm_active = False, tm_pending = False,
     tm_handle = 0\<rparr>"

definition zero_ns_entry :: namespace_entry_t where
  "zero_ns_entry = \<lparr>ns_name = replicate 32 NUL, ns_object = 0, ns_type = AIXOS_OBJ_UNUSED,
     ns_default_rights = 0, ns_used = False\<rparr>"

definition zero_channel :: channel_t where
  "zero_channel = \<lparr>ch_used = False, ch_flags = 0, ch_owner = 0, ch_receiver = 0\<rparr>"

definition zero_connection :: connection_t where
  "zero_connection = \<lparr>cn_used = False, cn_ch_cap = 0, cn_ch_idx = 0, cn_owner = 0\<rparr>"

definition zero_pending_msg :: pending_msg_t where
  "zero_pending_msg = \<lparr>pm_used = False, pm_msg_buf = replicate 256 0, pm_msg_size = 0,
     pm_reply_buf = replicate 256 0, pm_reply_size = 0, pm_reply_capacity = 0,
     pm_sender_conn_idx = 0, pm_sender = 0, pm_reply_user_ptr = 0\<rparr>"

section \<open>The kernel state\<close>

text \<open>The MPU registers, and the addresses the linker gives to the three kernel routines whose
  address the code stores: they are data of the state, so every theorem holds for all of them.\<close>

record mpu_hw =
  mpu_type :: u32
  mpu_ctrl :: u32
  mpu_rbar :: "u32 list"
  mpu_rasr :: "u32 list"

record link_map =
  ln_return_trap :: u32
  ln_idle_entry :: u32
  ln_timer_entry :: u32

text \<open>\<open>k_switch\<close>: a context switch has been requested from the port (PendSV is pending).\<close>

record kstate =
  k_isr :: isr_state
  k_switch :: bool
  k_heap :: heap_state
  k_trace :: trace_state
  k_obj :: obj_state
  k_mpu :: mpu_hw
  k_link :: link_map
  k_ls :: "(lhead, lnode) lstore"
  tcbs :: "u32 \<Rightarrow> aixos_tcb option"
  cur_task :: u32
  ready_bitmap :: "u64 list"
  total_ticks :: u64
  idle_ticks :: u64
  switch_count :: u64
  task_count :: int
  system_running :: bool
  first_start :: bool
  sem_pool :: "aixos_sem_t list"
  mutex_pool :: "aixos_mutex_t list"
  mq_pool :: "aixos_mq_t list"
  event_pool :: "aixos_event_t list"
  pipe_pool :: "aixos_pipe_t list"
  timer_pool :: "aixos_timer_inner_t list"
  tw_low :: nat
  tw_high :: nat
  ns_table :: "namespace_entry_t list"
  channels :: "channel_t list"
  connections :: "connection_t list"
  pending_msgs :: "pending_msg_t list"

section \<open>Access\<close>

text \<open>A write through a control block pointer.\<close>

definition upd_tcb :: "u32 \<Rightarrow> (aixos_tcb \<Rightarrow> aixos_tcb) \<Rightarrow> kstate \<Rightarrow> kstate option" where
  "upd_tcb a f s = (case tcbs s a of None \<Rightarrow> None | Some t \<Rightarrow> Some (s\<lparr>tcbs := (tcbs s)(a \<mapsto> f t)\<rparr>))"

definition on_ls :: "((lhead, lnode) lstore \<Rightarrow> (lhead, lnode) lstore option) \<Rightarrow> kstate \<Rightarrow> kstate option" where
  "on_ls f s = (case f (k_ls s) of None \<Rightarrow> None | Some ls \<Rightarrow> Some (s\<lparr>k_ls := ls\<rparr>))"

text \<open>The members of an initialised head, in order; \<open>None\<close> for a head that is not.\<close>

definition members :: "lhead \<Rightarrow> kstate \<Rightarrow> lnode list option" where
  "members h s = lists (k_ls s) h"

definition head_empty :: "lhead \<Rightarrow> kstate \<Rightarrow> bool" where
  "head_empty h s = list_is_empty h (k_ls s)"

text \<open>\<open>AIXOS_CONTAINER_OF(aixos_list_first(head), aixos_tcb_t, ...)\<close>\<close>

definition first_task :: "lhead \<Rightarrow> kstate \<Rightarrow> u32 option" where
  "first_task h s = Option.bind (list_first h (k_ls s)) node_task"

definition nstatus :: "lnode \<Rightarrow> kstate \<Rightarrow> lhead nstate" where
  "nstatus n s = nstat (k_ls s) n"

definition in_isr :: "kstate \<Rightarrow> bool" where
  "in_isr s = aixos_in_isr (k_isr s)"

definition sched_locked :: "kstate \<Rightarrow> bool" where
  "sched_locked s = aixos_sched_is_locked (k_isr s)"

definition reschedule_request :: "kstate \<Rightarrow> kstate" where
  "reschedule_request s = (let (now, isr) = aixos_reschedule_request (k_isr s)
     in s\<lparr>k_isr := isr, k_switch := (k_switch s \<or> now)\<rparr>)"

definition aixos_get_tick :: "kstate \<Rightarrow> u32" where
  "aixos_get_tick s = ucast (total_ticks s)"

definition k_record :: "aixos_trace_event \<Rightarrow> u32 \<Rightarrow> u32 \<Rightarrow> kstate \<Rightarrow> kstate" where
  "k_record ev d0 d1 s = s\<lparr>k_trace := aixos_trace_record (aixos_get_tick s) ev d0 d1 (k_trace s)\<rparr>"

text \<open>Calls to the heap and to the object pools. \<open>sizeof(aixos_task_slot_page_t)\<close> is 196.\<close>

abbreviation (input) sizeof_task_page :: u32 where "sizeof_task_page \<equiv> 196"

definition on_heap :: "(heap_state \<Rightarrow> ('a \<times> heap_state) option) \<Rightarrow> kstate \<Rightarrow> ('a \<times> kstate) option" where
  "on_heap f s = (case f (k_heap s) of None \<Rightarrow> None | Some (r, h) \<Rightarrow> Some (r, s\<lparr>k_heap := h\<rparr>))"

definition k_free :: "u32 \<Rightarrow> kstate \<Rightarrow> kstate" where
  "k_free p s = s\<lparr>k_heap := aixos_free (in_isr s) p (k_heap s)\<rparr>"

definition k_write :: "u32 \<Rightarrow> u8 list \<Rightarrow> kstate \<Rightarrow> kstate" where
  "k_write a bs s = s\<lparr>k_heap := write_bytes a bs (k_heap s)\<rparr>"

definition k_read :: "u32 \<Rightarrow> nat \<Rightarrow> kstate \<Rightarrow> u8 list" where
  "k_read a n s = read_bytes a n (k_heap s)"

definition k_read_u32 :: "u32 \<Rightarrow> kstate \<Rightarrow> u32" where
  "k_read_u32 a s = read_u32 a (k_heap s)"

definition k_write_u32 :: "u32 \<Rightarrow> u32 \<Rightarrow> kstate \<Rightarrow> kstate" where
  "k_write_u32 a w s = k_write a (u32_bytes w) s"

definition page_malloc :: "bool \<Rightarrow> heap_state option \<Rightarrow> bool \<times> heap_state option" where
  "page_malloc isr h = (case Option.bind h (aixos_kernel_malloc isr sizeof_task_page) of
      None \<Rightarrow> (False, None) | Some (p, h) \<Rightarrow> (p \<noteq> 0, Some h))"

definition k_slot_alloc :: "int \<Rightarrow> kptr \<Rightarrow> kstate \<Rightarrow> (int \<times> kstate) option" where
  "k_slot_alloc pool obj s =
     (case aixos_slot_alloc (page_malloc (in_isr s)) pool obj (Some (k_heap s)) (k_obj s) of
        (i, Some h, os) \<Rightarrow> Some (i, s\<lparr>k_heap := h, k_obj := os\<rparr>)
      | (_, None, _) \<Rightarrow> None)"

definition k_slot_free :: "int \<Rightarrow> aixos_handle_t \<Rightarrow> kstate \<Rightarrow> kstate" where
  "k_slot_free pool h s = s\<lparr>k_obj := aixos_slot_free pool (uint (AIXOS_HANDLE_IDX h)) (k_obj s)\<rparr>"

definition k_lookup :: "aixos_handle_t \<Rightarrow> aixos_obj_type \<Rightarrow> kstate \<Rightarrow> kptr" where
  "k_lookup h ty s = aixos_obj_from_handle h ty (k_obj s)"

text \<open>\<open>aixos_tcb_from_handle\<close>; 0 is the null pointer.\<close>

definition aixos_tcb_from_handle :: "aixos_handle_t \<Rightarrow> kstate \<Rightarrow> u32" where
  "aixos_tcb_from_handle h s = (case k_lookup h AIXOS_OBJ_TASK s of KTask a \<Rightarrow> a | _ \<Rightarrow> 0)"

text \<open>\<open>for (i = 0; i < MAX; i++) if (pool[i].handle == 0) break;\<close>\<close>

fun find_index :: "('a \<Rightarrow> bool) \<Rightarrow> 'a list \<Rightarrow> nat \<Rightarrow> nat option" where
  "find_index P [] i = None"
| "find_index P (x # xs) i = (if P x then Some i else find_index P xs (Suc i))"

text \<open>What a call that may block reports: it returned, or the caller now waits and the call
  continues (in the \<open>_resume\<close> function) when it is scheduled again.\<close>

datatype 'a outcome = Done 'a | Blocked

end
