(* ===== verification/Mpu.thy ===== *)
theory Mpu
  imports Kernel_State
begin

text \<open>
  \<^verbatim>\<open>kernel/mpu.c\<close> and the memory protection part of \<^verbatim>\<open>arch/arm/cortex-m3/port.c\<close>: which regions a user
  task may have, what it may access, and how the regions are loaded into the eight MPU slots on a
  context switch; and the initial stack frame of a task. \<open>MPU_RNR\<close> only selects the slot that the
  next register write goes to, so a pair of writes is one update of that slot.
\<close>

section \<open>Regions\<close>

abbreviation (input) AIXOS_MPU_READ :: u32 where "AIXOS_MPU_READ \<equiv> 1"
abbreviation (input) AIXOS_MPU_WRITE :: u32 where "AIXOS_MPU_WRITE \<equiv> 2"
abbreviation (input) AIXOS_MPU_EXEC :: u32 where "AIXOS_MPU_EXEC \<equiv> 4"
abbreviation (input) AIXOS_MPU_DEVICE :: u32 where "AIXOS_MPU_DEVICE \<equiv> 8"

definition is_power_of_two :: "u32 \<Rightarrow> bool" where
  "is_power_of_two v = (v \<noteq> 0 \<and> v AND (v - 1) = 0)"

definition aixos_mpu_region_valid :: "u32 \<Rightarrow> u32 \<Rightarrow> u32 \<Rightarrow> bool" where
  "aixos_mpu_region_valid base sz attr =
     (if attr = 0 \<or> attr AND NOT (AIXOS_MPU_READ OR AIXOS_MPU_WRITE OR AIXOS_MPU_EXEC OR AIXOS_MPU_DEVICE) \<noteq> 0
      then False
      else if sz < AIXOS_CFG_MPU_MIN_REGION_SIZE \<or> \<not> is_power_of_two sz then False
      else if sz > UINT32_MAX - base then False
      else if base AND (sz - 1) \<noteq> 0 then False
      else if attr AND AIXOS_MPU_WRITE \<noteq> 0 \<and> attr AND AIXOS_MPU_READ = 0 then False
      else True)"

definition aixos_mpu_task_init :: "aixos_tcb \<Rightarrow> aixos_tcb" where
  "aixos_mpu_task_init t =
     (let t = t\<lparr>t_mpu_region_count := 0\<rparr>
      in if t_domain t = AIXOS_DOMAIN_USER \<and>
            aixos_mpu_region_valid (t_stack_base t) (t_stack_size t) (AIXOS_MPU_READ OR AIXOS_MPU_WRITE)
         then t\<lparr>t_mpu_regions := (t_mpu_regions t)[0 := \<lparr>mr_base = t_stack_base t,
                  mr_size = t_stack_size t, mr_attr = AIXOS_MPU_READ OR AIXOS_MPU_WRITE\<rparr>],
                t_mpu_region_count := 1\<rparr>
         else t)"

text \<open>The loop of \<open>aixos_mpu_task_allows\<close>: the first region that contains the range decides.\<close>

fun mpu_allows_loop :: "aixos_mpu_region_t list \<Rightarrow> u32 \<Rightarrow> u32 \<Rightarrow> bool \<Rightarrow> bool \<Rightarrow> bool" where
  "mpu_allows_loop [] base end write_access execute_access = False"
| "mpu_allows_loop (region # rest) base end write_access execute_access =
     (let region_end = mr_base region + mr_size region
      in if base < mr_base region \<or> end > region_end
         then mpu_allows_loop rest base end write_access execute_access
         else if write_access \<and> mr_attr region AND AIXOS_MPU_WRITE = 0 then False
         else if execute_access \<and> mr_attr region AND AIXOS_MPU_EXEC = 0 then False
         else if \<not> write_access \<and> \<not> execute_access \<and> mr_attr region AND AIXOS_MPU_READ = 0 then False
         else True)"

definition aixos_mpu_task_allows :: "aixos_tcb option \<Rightarrow> u32 \<Rightarrow> u32 \<Rightarrow> bool \<Rightarrow> bool \<Rightarrow> bool" where
  "aixos_mpu_task_allows tcb base sz write_access execute_access =
     (case tcb of None \<Rightarrow> False
      | Some t \<Rightarrow>
          if t_domain t \<noteq> AIXOS_DOMAIN_USER \<or> sz = 0 \<or> sz > UINT32_MAX - base then False
          else mpu_allows_loop (take (t_mpu_region_count t) (t_mpu_regions t)) base (base + sz)
                 write_access execute_access)"

section \<open>The MPU registers\<close>

abbreviation (input) MPU_CTRL_ENABLE :: u32 where "MPU_CTRL_ENABLE \<equiv> 1"
abbreviation (input) MPU_CTRL_PRIVDEFENA :: u32 where "MPU_CTRL_PRIVDEFENA \<equiv> 4"
abbreviation (input) MPU_RASR_ENABLE :: u32 where "MPU_RASR_ENABLE \<equiv> 1"
abbreviation (input) MPU_RASR_XN :: u32 where "MPU_RASR_XN \<equiv> 0x10000000"
abbreviation (input) MPU_RASR_AP_RO :: u32 where "MPU_RASR_AP_RO \<equiv> 0x06000000"
abbreviation (input) MPU_RASR_AP_RW :: u32 where "MPU_RASR_AP_RW \<equiv> 0x03000000"
abbreviation (input) MPU_RASR_NORMAL :: u32 where "MPU_RASR_NORMAL \<equiv> 0x00070000"
abbreviation (input) MPU_RASR_DEVICE :: u32 where "MPU_RASR_DEVICE \<equiv> 0x00010000"

function mpu_log2_loop :: "u32 \<Rightarrow> u32 \<Rightarrow> u32" where
  "mpu_log2_loop v log = (if v > 1 then mpu_log2_loop (drop_bit 1 v) (log + 1) else log)"
  by pat_completeness auto
termination
  by (relation "measure (\<lambda>(v, _). unat v)") (auto intro: unat_shr1_less simp del: drop_bit_Suc One_nat_def)

declare mpu_log2_loop.simps [simp del]

definition mpu_log2 :: "u32 \<Rightarrow> u32" where
  "mpu_log2 v = mpu_log2_loop v 0"

definition mpu_rasr_size :: "u32 \<Rightarrow> u32" where
  "mpu_rasr_size sz = push_bit 1 (mpu_log2 sz - 1)"

definition mpu_region_disable :: "nat \<Rightarrow> mpu_hw \<Rightarrow> mpu_hw" where
  "mpu_region_disable region hw = hw\<lparr>mpu_rasr := (mpu_rasr hw)[region := 0]\<rparr>"

definition mpu_region_configure :: "nat \<Rightarrow> u32 \<Rightarrow> u32 \<Rightarrow> u32 \<Rightarrow> mpu_hw \<Rightarrow> mpu_hw" where
  "mpu_region_configure region base sz attr hw =
     (let rasr = MPU_RASR_ENABLE OR mpu_rasr_size sz;
          hw = hw\<lparr>mpu_rbar := (mpu_rbar hw)[region := base]\<rparr>;
          rasr = (if attr AND AIXOS_MPU_WRITE \<noteq> 0 then rasr OR MPU_RASR_AP_RW else rasr OR MPU_RASR_AP_RO);
          rasr = (if attr AND AIXOS_MPU_EXEC = 0 then rasr OR MPU_RASR_XN else rasr);
          rasr = rasr OR (if attr AND AIXOS_MPU_DEVICE \<noteq> 0 then MPU_RASR_DEVICE else MPU_RASR_NORMAL)
      in hw\<lparr>mpu_rasr := (mpu_rasr hw)[region := rasr]\<rparr>)"

fun mpu_configure_loop :: "aixos_mpu_region_t list \<Rightarrow> nat \<Rightarrow> mpu_hw \<Rightarrow> mpu_hw" where
  "mpu_configure_loop [] i hw = hw"
| "mpu_configure_loop (r # rs) i hw =
     mpu_configure_loop rs (Suc i) (mpu_region_configure (i + 1) (mr_base r) (mr_size r) (mr_attr r) hw)"

definition aixos_arch_mpu_configure_task :: "aixos_tcb option \<Rightarrow> mpu_hw \<Rightarrow> mpu_hw" where
  "aixos_arch_mpu_configure_task task hw =
     (if mpu_type hw AND 0xFF00 = 0 then hw
      else let hw = hw\<lparr>mpu_ctrl := 0\<rparr>;
               hw = fold mpu_region_disable [0..<8] hw;
               hw = mpu_region_configure 0 AIXOS_CFG_FLASH_BASE AIXOS_CFG_FLASH_SIZE
                      (AIXOS_MPU_READ OR AIXOS_MPU_EXEC) hw;
               dynamic_regions = (case task of
                   Some t \<Rightarrow> if t_domain t = AIXOS_DOMAIN_USER then t_mpu_region_count t else 0
                 | None \<Rightarrow> 0);
               dynamic_regions = (if dynamic_regions > AIXOS_CFG_MPU_REGIONS_PER_TASK
                                  then AIXOS_CFG_MPU_REGIONS_PER_TASK else dynamic_regions);
               regions = (case task of Some t \<Rightarrow> take dynamic_regions (t_mpu_regions t) | None \<Rightarrow> []);
               hw = mpu_configure_loop regions 0 hw
           in hw\<lparr>mpu_ctrl := MPU_CTRL_ENABLE OR MPU_CTRL_PRIVDEFENA\<rparr>)"

section \<open>The initial stack frame\<close>

text \<open>\<open>*(--stk) = word\<close>\<close>

definition push_word :: "u32 \<Rightarrow> u32 \<times> heap_state \<Rightarrow> u32 \<times> heap_state" where
  "push_word w p = (fst p - 4, write_bytes (fst p - 4) (u32_bytes w) (snd p))"

definition initial_frame :: "u32 \<Rightarrow> u32 \<Rightarrow> u32 \<Rightarrow> u32 list" where
  "initial_frame entry return_trap arg =
     [0x01000000, entry, return_trap, 0x0C, 0x0B, 0x0A, 0x09, arg,
      0x08, 0x07, 0x06, 0x05, 0x04, 0x03, 0x02, 0x01]"

definition aixos_arch_stack_init :: "u32 \<Rightarrow> u32 \<Rightarrow> u32 \<Rightarrow> kstate \<Rightarrow> u32 \<times> kstate" where
  "aixos_arch_stack_init entry stack_top arg s =
     (let (stk, h) = fold push_word (initial_frame entry (ln_return_trap (k_link s)) arg)
                       (stack_top, k_heap s)
      in (stk, s\<lparr>k_heap := h\<rparr>))"

section \<open>Adding a region\<close>

definition aixos_task_mpu_region_add :: "aixos_handle_t \<Rightarrow> u32 \<Rightarrow> u32 \<Rightarrow> u32 \<Rightarrow> kstate \<Rightarrow> (int \<times> kstate) option" where
  "aixos_task_mpu_region_add task base sz attr s =
     (if in_isr s then Some (AIXOS_ERR_CONTEXT, s)
      else if \<not> aixos_mpu_region_valid base sz attr then Some (AIXOS_ERR_INVAL, s)
      else let tcb = aixos_tcb_from_handle task s
      in if tcb = 0 then Some (AIXOS_ERR_INVAL, s)
      else do {
        t \<leftarrow> tcbs s tcb;
        if t_domain t \<noteq> AIXOS_DOMAIN_USER then Some (AIXOS_ERR_INVAL, s)
        else if t_mpu_region_count t \<ge> AIXOS_CFG_MPU_REGIONS_PER_TASK then Some (AIXOS_ERR_OVERFLOW, s)
        else do {
          s \<leftarrow> upd_tcb tcb (\<lambda>t. t\<lparr>t_mpu_regions := (t_mpu_regions t)[t_mpu_region_count t :=
                                     \<lparr>mr_base = base, mr_size = sz, mr_attr = attr\<rparr>],
                                   t_mpu_region_count := t_mpu_region_count t + 1\<rparr>) s;
          Some (AIXOS_OK, if tcb = cur_task s
                          then s\<lparr>k_mpu := aixos_arch_mpu_configure_task (tcbs s tcb) (k_mpu s)\<rparr> else s)
        }
      })"

end
