(* ===== verification/Sched.thy ===== *)
theory Sched
  imports Mpu
begin

text \<open>
  \<^verbatim>\<open>kernel/sched.c\<close> with the bitmap scheduler of the default configuration: one FIFO ready queue per
  priority, a bitmap of the queues that are not empty, and the choice of the next task. The tick
  handler is in \<open>Tick\<close>, because it calls the task and timer components.
\<close>

section \<open>Ready queues\<close>

text \<open>\<open>&ready_queues[priority]\<close>; an index out of range is an error.\<close>

definition ready_queue :: "int \<Rightarrow> lhead option" where
  "ready_queue priority =
     (if 0 \<le> priority \<and> priority < int AIXOS_CFG_MAX_PRIORITY then Some (ReadyQ (nat priority)) else None)"

fun init_queues :: "nat list \<Rightarrow> kstate \<Rightarrow> kstate option" where
  "init_queues [] s = Some s"
| "init_queues (i # is) s = Option.bind (on_ls (list_init_head (ReadyQ i)) s) (init_queues is)"

definition aixos_sched_init :: "kstate \<Rightarrow> kstate option" where
  "aixos_sched_init s = do {
     s \<leftarrow> init_queues [0..<AIXOS_CFG_MAX_PRIORITY] s;
     Some (s\<lparr>ready_bitmap := replicate 4 0, total_ticks := 0, idle_ticks := 0, switch_count := 0,
             cur_task := 0\<rparr>)
   }"

definition bitmap_set :: "nat \<Rightarrow> kstate \<Rightarrow> kstate" where
  "bitmap_set p s = s\<lparr>ready_bitmap := (ready_bitmap s)[p div 64 := ready_bitmap s ! (p div 64) OR bitm (p mod 64)]\<rparr>"

definition bitmap_clear :: "nat \<Rightarrow> kstate \<Rightarrow> kstate" where
  "bitmap_clear p s = s\<lparr>ready_bitmap := (ready_bitmap s)[p div 64 := ready_bitmap s ! (p div 64) AND NOT (bitm (p mod 64))]\<rparr>"

definition aixos_sched_add_task :: "u32 \<Rightarrow> kstate \<Rightarrow> kstate option" where
  "aixos_sched_add_task tcb s =
     (if tcb = 0 then Some s
      else do {
        t \<leftarrow> tcbs s tcb;
        if t_priority t < 0 \<or> t_priority t \<ge> int AIXOS_CFG_MAX_PRIORITY then Some s
        else do {
          s \<leftarrow> on_ls (list_add_tail (ReadyN tcb) (ReadyQ (nat (t_priority t)))) s;
          Some (bitmap_set (nat (t_priority t)) s)
        }
      })"

text \<open>Unlinking from the queue of priority \<open>p\<close>, shared by the two operations below.\<close>

definition ready_unlink :: "u32 \<Rightarrow> int \<Rightarrow> kstate \<Rightarrow> kstate option" where
  "ready_unlink tcb priority s = do {
     s \<leftarrow> on_ls (list_del (ReadyN tcb)) s;
     h \<leftarrow> ready_queue priority;
     Some (if head_empty h s then bitmap_clear (nat priority) s else s)
   }"

definition aixos_sched_remove_task :: "u32 \<Rightarrow> kstate \<Rightarrow> kstate option" where
  "aixos_sched_remove_task tcb s =
     (if tcb = 0 then Some s
      else do {
        t \<leftarrow> tcbs s tcb;
        if nstatus (ReadyN tcb) s = NNull then Some s else ready_unlink tcb (t_priority t) s
      })"

definition aixos_sched_requeue_task :: "u32 \<Rightarrow> int \<Rightarrow> kstate \<Rightarrow> kstate option" where
  "aixos_sched_requeue_task tcb old_priority s =
     (if tcb = 0 \<or> old_priority < 0 \<or> old_priority \<ge> int AIXOS_CFG_MAX_PRIORITY then Some s
      else do {
        t \<leftarrow> tcbs s tcb;
        if nstatus (ReadyN tcb) s \<noteq> NNull
        then do { s \<leftarrow> ready_unlink tcb old_priority s; aixos_sched_add_task tcb s }
        else Some s
      })"

text \<open>\<open>head->next != head->prev\<close>: the queue has at least two members.\<close>

definition aixos_sched_rotate_current :: "kstate \<Rightarrow> kstate option" where
  "aixos_sched_rotate_current s =
     (if cur_task s = 0 then Some s
      else do {
        t \<leftarrow> tcbs s (cur_task s);
        if nstatus (ReadyN (cur_task s)) s = NNull then Some s
        else do {
          h \<leftarrow> ready_queue (t_priority t);
          xs \<leftarrow> members h s;
          if 2 \<le> length xs
          then do {
            s \<leftarrow> on_ls (list_del (ReadyN (cur_task s))) s;
            on_ls (list_add_tail (ReadyN (cur_task s)) h) s
          }
          else Some s
        }
      })"

section \<open>Choosing the next task\<close>

fun find_highest_loop :: "nat list \<Rightarrow> kstate \<Rightarrow> u32 option" where
  "find_highest_loop [] s = Some 0"
| "find_highest_loop (word # ws) s =
     (if ready_bitmap s ! word \<noteq> 0
      then let highest = word * 64 + top_bit (ready_bitmap s ! word);
               highest = (if highest \<ge> AIXOS_CFG_MAX_PRIORITY then AIXOS_CFG_MAX_PRIORITY - 1 else highest)
           in first_task (ReadyQ highest) s
      else find_highest_loop ws s)"

definition sched_find_highest :: "kstate \<Rightarrow> u32 option" where
  "sched_find_highest s = find_highest_loop (rev [0..<4]) s"

definition aixos_sched_request_preemption :: "kstate \<Rightarrow> kstate option" where
  "aixos_sched_request_preemption s = do {
     highest \<leftarrow> sched_find_highest s;
     if highest = 0 \<or> highest = cur_task s then Some s
     else do {
       h \<leftarrow> tcbs s highest;
       if cur_task s = 0 then Some (reschedule_request s)
       else do {
         c \<leftarrow> tcbs s (cur_task s);
         Some (if t_priority h > t_priority c then reschedule_request s else s)
       }
     }
   }"

definition aixos_schedule :: "kstate \<Rightarrow> kstate option" where
  "aixos_schedule s = do {
     let previous = cur_task s;
     next \<leftarrow> sched_find_highest s;
     s \<leftarrow> (if previous \<noteq> 0
           then upd_tcb previous (\<lambda>t. if t_state t = AIXOS_TASK_RUNNING then t\<lparr>t_state := AIXOS_TASK_READY\<rparr> else t) s
           else Some s);
     s \<leftarrow> Some (s\<lparr>cur_task := next\<rparr>);
     s \<leftarrow> (if next \<noteq> 0 then upd_tcb next (\<lambda>t. t\<lparr>t_state := AIXOS_TASK_RUNNING\<rparr>) s else Some s);
     s \<leftarrow> Some (s\<lparr>k_mpu := aixos_arch_mpu_configure_task (if next = 0 then None else tcbs s next) (k_mpu s)\<rparr>);
     if next \<noteq> previous
     then do {
       s \<leftarrow> Some (s\<lparr>switch_count := switch_count s + 1\<rparr>);
       s \<leftarrow> (if next \<noteq> 0 then upd_tcb next (\<lambda>t. t\<lparr>t_switch_count := t_switch_count t + 1\<rparr>) s else Some s);
       d0 \<leftarrow> (if previous \<noteq> 0 then map_option t_handle (tcbs s previous) else Some UINT32_MAX);
       d1 \<leftarrow> (if next \<noteq> 0 then map_option t_handle (tcbs s next) else Some UINT32_MAX);
       Some (k_record AIXOS_TRACE_TASK_SWITCH d0 d1 s)
     }
     else Some s
   }"

section \<open>Statistics\<close>

definition aixos_cpu_usage_get :: "kstate \<Rightarrow> u32" where
  "aixos_cpu_usage_get s =
     (let total = total_ticks s; idle = idle_ticks s
      in if total = 0 \<or> idle > total then 0 else ucast (((total - idle) * 100) div total))"

record aixos_sched_stats_t =
  st_total_ticks :: u64
  st_idle_ticks :: u64
  st_switch_count :: u64

definition aixos_sched_stats_snapshot :: "kstate \<Rightarrow> aixos_sched_stats_t" where
  "aixos_sched_stats_snapshot s =
     \<lparr>st_total_ticks = total_ticks s, st_idle_ticks = idle_ticks s, st_switch_count = switch_count s\<rparr>"

end
