(* ===== verification/Waiting.thy ===== *)
theory Waiting
  imports Sched
begin

text \<open>
  Blocking and waking: the wait queue and timeout queue operations of \<^verbatim>\<open>kernel/task.c\<close>, and the priority
  inheritance of \<^verbatim>\<open>kernel/ipc/mutex.c\<close> that they call. A task that blocks is taken off its ready queue,
  inserted into the wait queue of the object by priority and, with a timeout, into the timeout
  queue by its wake tick; waking it undoes all three.
\<close>

section \<open>Ticks\<close>

definition tick_reached :: "u32 \<Rightarrow> u32 \<Rightarrow> bool" where
  "tick_reached now deadline = (0 \<le> sint (now - deadline))"

definition aixos_ms_to_ticks :: "u32 \<Rightarrow> u32" where
  "aixos_ms_to_ticks ms =
     (if ms = UINT32_MAX then UINT32_MAX
      else let ticks = (ucast ms * of_nat AIXOS_CFG_SYSTICK_HZ + 999) div 1000 :: u64;
               ticks = (if ticks = 0 \<and> ms \<noteq> 0 then 1 else ticks);
               ticks = (if ticks > ucast AIXOS_CFG_TIMEOUT_MAX_TICKS then ucast AIXOS_CFG_TIMEOUT_MAX_TICKS else ticks)
           in ucast ticks)"

definition aixos_timeout_remaining_ms :: "u32 \<Rightarrow> u32 \<Rightarrow> kstate \<Rightarrow> u32" where
  "aixos_timeout_remaining_ms start_tick timeout_ms s =
     (if timeout_ms = UINT32_MAX then UINT32_MAX
      else let total = aixos_ms_to_ticks timeout_ms; elapsed = aixos_get_tick s - start_tick
      in if elapsed \<ge> total then 0
         else let remaining = total - elapsed;
                  milliseconds = (ucast remaining * 1000 + of_nat AIXOS_CFG_SYSTICK_HZ - 1) div of_nat AIXOS_CFG_SYSTICK_HZ :: u64
              in if milliseconds > ucast UINT32_MAX then UINT32_MAX else ucast milliseconds)"

section \<open>Sorted insertion\<close>

text \<open>The loop that all sorted queues share: insert before the first member that satisfies \<open>P\<close>, or
  at the end.\<close>

fun find_position :: "(lnode \<Rightarrow> bool option) \<Rightarrow> lnode list \<Rightarrow> lnode option option" where
  "find_position P [] = Some None"
| "find_position P (n # ns) =
     (case P n of None \<Rightarrow> None | Some b \<Rightarrow> if b then Some (Some n) else find_position P ns)"

definition insert_sorted :: "(lnode \<Rightarrow> bool option) \<Rightarrow> lnode \<Rightarrow> lhead \<Rightarrow> kstate \<Rightarrow> kstate option" where
  "insert_sorted P n h s = do {
     xs \<leftarrow> members h s;
     pos \<leftarrow> find_position P xs;
     case pos of Some p \<Rightarrow> on_ls (list_add_before n p) s | None \<Rightarrow> on_ls (list_add_tail n h) s
   }"

definition task_wait_insert_priority :: "lhead \<Rightarrow> u32 \<Rightarrow> kstate \<Rightarrow> kstate option" where
  "task_wait_insert_priority wait_list tcb s = do {
     t \<leftarrow> tcbs s tcb;
     insert_sorted (\<lambda>n. do { a \<leftarrow> node_task n; queued \<leftarrow> tcbs s a; Some (t_priority t > t_priority queued) })
       (WaitN tcb) wait_list s
   }"

definition timeout_insert :: "u32 \<Rightarrow> kstate \<Rightarrow> kstate option" where
  "timeout_insert tcb s = do {
     t \<leftarrow> tcbs s tcb;
     insert_sorted (\<lambda>n. do { a \<leftarrow> node_task n; queued \<leftarrow> tcbs s a;
                             Some (sint (t_wake_tick t - t_wake_tick queued) < 0) })
       (TimeoutN tcb) TimeoutList s
   }"

text \<open>\<open>aixos_list_del(node); aixos_list_init(node);\<close>\<close>

definition unlink_node :: "lnode \<Rightarrow> kstate \<Rightarrow> kstate option" where
  "unlink_node n s = do { s \<leftarrow> on_ls (list_del n) s; on_ls (list_init_node n) s }"

definition aixos_task_waiter_priority_changed :: "u32 \<Rightarrow> kstate \<Rightarrow> kstate option" where
  "aixos_task_waiter_priority_changed tcb s =
     (if tcb = 0 then Some s
      else do {
        t \<leftarrow> tcbs s tcb;
        case t_wait_list t of
          None \<Rightarrow> Some s
        | Some h \<Rightarrow>
            if nstatus (WaitN tcb) s = NSelf \<or> nstatus (WaitN tcb) s = NNull then Some s
            else do { s \<leftarrow> unlink_node (WaitN tcb) s; task_wait_insert_priority h tcb s }
      })"

section \<open>Priority inheritance\<close>

fun effective_loop :: "lnode list \<Rightarrow> int \<Rightarrow> kstate \<Rightarrow> int option" where
  "effective_loop [] priority s = Some priority"
| "effective_loop (n # ns) priority s = do {
     mutex \<leftarrow> node_object n;
     if \<not> head_empty (MutexWait mutex) s
     then do {
       waiter \<leftarrow> first_task (MutexWait mutex) s;
       w \<leftarrow> tcbs s waiter;
       effective_loop ns (if t_priority w > priority then t_priority w else priority) s
     }
     else effective_loop ns priority s
   }"

definition task_effective_priority :: "u32 \<Rightarrow> kstate \<Rightarrow> int option" where
  "task_effective_priority tcb s = do {
     t \<leftarrow> tcbs s tcb;
     held \<leftarrow> members (HeldMutexes tcb) s;
     effective_loop held (t_base_priority t) s
   }"

definition mutex_of :: "kptr \<Rightarrow> nat option" where
  "mutex_of p = (case p of KMutex i \<Rightarrow> if i < AIXOS_CFG_MAX_MUTEX then Some i else None | _ \<Rightarrow> None)"

definition mutex_owner :: "nat \<Rightarrow> kstate \<Rightarrow> u32" where
  "mutex_owner i s = aixos_tcb_from_handle (mx_owner (mutex_pool s ! i)) s"

text \<open>\<open>fuel\<close> is \<open>AIXOS_CFG_TASK_HANDLE_LIMIT - depth\<close>. The last loop of the C function, over the waiters
  of the held mutexes, has an empty body and is left out.\<close>

fun recompute_chain :: "nat \<Rightarrow> u32 \<Rightarrow> kstate \<Rightarrow> kstate option" where
  "recompute_chain 0 tcb s = Some s"
| "recompute_chain (Suc fuel) tcb s =
     (if tcb = 0 then Some s
      else do {
        t \<leftarrow> tcbs s tcb;
        new_priority \<leftarrow> task_effective_priority tcb s;
        s \<leftarrow> (if new_priority \<noteq> t_priority t
              then do {
                s \<leftarrow> upd_tcb tcb (\<lambda>t. t\<lparr>t_priority := new_priority,
                                         t_sched_boosted := (new_priority > t_base_priority t)\<rparr>) s;
                s \<leftarrow> aixos_sched_requeue_task tcb (t_priority t) s;
                if t_wait_type t = AIXOS_OBJ_MUTEX \<and> t_wait_obj t \<noteq> KNull
                then aixos_task_waiter_priority_changed tcb s
                else Some s
              }
              else Some s);
        if t_wait_type t = AIXOS_OBJ_MUTEX \<and> t_wait_obj t \<noteq> KNull
        then do {
          waiting_on \<leftarrow> mutex_of (t_wait_obj t);
          let owner = mutex_owner waiting_on s;
          if owner \<noteq> 0 \<and> owner \<noteq> tcb then recompute_chain fuel owner s else Some s
        }
        else Some s
      })"

definition recompute :: "u32 \<Rightarrow> kstate \<Rightarrow> kstate option" where
  "recompute tcb s = recompute_chain AIXOS_CFG_TASK_HANDLE_LIMIT tcb s"

definition aixos_mutex_task_can_delete :: "u32 \<Rightarrow> kstate \<Rightarrow> bool" where
  "aixos_mutex_task_can_delete tcb s = (tcb \<noteq> 0 \<and> head_empty (HeldMutexes tcb) s)"

definition aixos_mutex_waiter_added :: "u32 \<Rightarrow> kstate \<Rightarrow> kstate option" where
  "aixos_mutex_waiter_added tcb s =
     (if tcb = 0 then Some s
      else do {
        t \<leftarrow> tcbs s tcb;
        if t_wait_type t \<noteq> AIXOS_OBJ_MUTEX \<or> t_wait_obj t = KNull then Some s
        else do { mutex \<leftarrow> mutex_of (t_wait_obj t); recompute (mutex_owner mutex s) s }
      })"

definition aixos_mutex_waiter_removed :: "u32 \<Rightarrow> kstate \<Rightarrow> kstate option" where
  "aixos_mutex_waiter_removed tcb s =
     (if tcb = 0 then Some s
      else do {
        t \<leftarrow> tcbs s tcb;
        if t_wait_type t \<noteq> AIXOS_OBJ_MUTEX \<or> t_wait_obj t = KNull then Some s
        else do {
          mutex \<leftarrow> mutex_of (t_wait_obj t);
          let owner = mutex_owner mutex s;
          recompute owner s
        }
      })"

definition aixos_mutex_task_priority_changed :: "u32 \<Rightarrow> kstate \<Rightarrow> kstate option" where
  "aixos_mutex_task_priority_changed tcb s =
     (if tcb = 0 then Some s
      else do {
        s \<leftarrow> aixos_task_waiter_priority_changed tcb s;
        t \<leftarrow> tcbs s tcb;
        s \<leftarrow> (if t_wait_type t = AIXOS_OBJ_MUTEX \<and> t_wait_obj t \<noteq> KNull \<and>
                 nstatus (WaitN tcb) s \<noteq> NSelf \<and> nstatus (WaitN tcb) s \<noteq> NNull
              then do { mutex \<leftarrow> mutex_of (t_wait_obj t); recompute (mutex_owner mutex s) s }
              else Some s);
        recompute tcb s
      })"

section \<open>Blocking and waking\<close>

definition task_detach_wait_locked :: "u32 \<Rightarrow> int \<Rightarrow> kstate \<Rightarrow> kstate option" where
  "task_detach_wait_locked tcb result s = do {
     s \<leftarrow> (if nstatus (WaitN tcb) s \<noteq> NSelf
           then do { s \<leftarrow> unlink_node (WaitN tcb) s; aixos_mutex_waiter_removed tcb s }
           else Some s);
     s \<leftarrow> (if nstatus (TimeoutN tcb) s \<noteq> NSelf then unlink_node (TimeoutN tcb) s else Some s);
     upd_tcb tcb (\<lambda>t. t\<lparr>t_wait_obj := KNull, t_wait_list := None, t_wait_type := AIXOS_OBJ_UNUSED,
                         t_wait_result := result\<rparr>) s
   }"

definition aixos_task_wake :: "u32 \<Rightarrow> int \<Rightarrow> kstate \<Rightarrow> kstate option" where
  "aixos_task_wake tcb result s =
     (if tcb = 0 then Some s
      else do {
        t \<leftarrow> tcbs s tcb;
        if t_state t \<noteq> AIXOS_TASK_BLOCKED \<and> t_state t \<noteq> AIXOS_TASK_DELAYED then Some s
        else do {
          s \<leftarrow> task_detach_wait_locked tcb result s;
          s \<leftarrow> upd_tcb tcb (\<lambda>t. t\<lparr>t_state := AIXOS_TASK_READY\<rparr>) s;
          s \<leftarrow> aixos_sched_add_task tcb s;
          aixos_sched_request_preemption s
        }
      })"

definition aixos_task_wake_recheck :: "u32 \<Rightarrow> int \<Rightarrow> kstate \<Rightarrow> kstate option" where
  "aixos_task_wake_recheck tcb result s =
     (if tcb = 0 then Some s
      else do {
        s \<leftarrow> upd_tcb tcb (\<lambda>t. t\<lparr>t_wait_result := result\<rparr>) s;
        t \<leftarrow> tcbs s tcb;
        if t_state t = AIXOS_TASK_BLOCKED \<or> t_state t = AIXOS_TASK_DELAYED
        then aixos_task_wake tcb result s else Some s
      })"

text \<open>On \<open>Blocked\<close> the caller is off the ready queue and a context switch is pending; when it runs
  again the call returns \<open>wait_result\<close>, which \<open>block_result\<close> reads.\<close>

definition aixos_task_block_current ::
  "lhead option \<Rightarrow> kptr \<Rightarrow> aixos_obj_type \<Rightarrow> u32 \<Rightarrow> kstate \<Rightarrow> (int outcome \<times> kstate) option" where
  "aixos_task_block_current wait_list wait_obj wait_type timeout_ms s =
     (let current = cur_task s
      in if current = 0 \<or> in_isr s then Some (Done AIXOS_ERR_CONTEXT, s)
      else if sched_locked s then Some (Done AIXOS_ERR_LOCKED, s)
      else do {
        s \<leftarrow> upd_tcb current (\<lambda>t. t\<lparr>
               t_state := (if wait_type = AIXOS_OBJ_UNUSED then AIXOS_TASK_DELAYED else AIXOS_TASK_BLOCKED),
               t_wait_obj := wait_obj, t_wait_list := wait_list, t_wait_type := wait_type,
               t_wait_result := AIXOS_OK\<rparr>) s;
        s \<leftarrow> aixos_sched_remove_task current s;
        s \<leftarrow> (case wait_list of Some h \<Rightarrow> task_wait_insert_priority h current s | None \<Rightarrow> Some s);
        s \<leftarrow> (if wait_type = AIXOS_OBJ_MUTEX then aixos_mutex_waiter_added current s else Some s);
        s \<leftarrow> (let timeout_ticks = aixos_ms_to_ticks timeout_ms
              in if timeout_ticks \<noteq> UINT32_MAX
                 then do {
                   s \<leftarrow> upd_tcb current (\<lambda>t. t\<lparr>t_wake_tick := aixos_get_tick s + timeout_ticks\<rparr>) s;
                   timeout_insert current s
                 }
                 else Some s);
        Some (Blocked, reschedule_request s)
      })"

definition block_result :: "kstate \<Rightarrow> int option" where
  "block_result s = map_option t_wait_result (tcbs s (cur_task s))"

end
