(* ===== verification/Task.thy ===== *)
theory Task
  imports Waiting
begin

text \<open>
  \<^verbatim>\<open>kernel/task.c\<close>: creation and deletion of tasks, the timeout processing of the system tick, the task
  API and task signals. \<open>aixos_start\<close> is in \<open>Tick\<close>.
\<close>

section \<open>Initialisation and deletion of stopped tasks\<close>

definition aixos_task_init :: "kstate \<Rightarrow> (int \<times> kstate) option" where
  "aixos_task_init s = do {
     s \<leftarrow> on_ls (list_init_head AllTasks) s;
     s \<leftarrow> on_ls (list_init_head TimeoutList) s;
     s \<leftarrow> on_ls (list_init_head ReapList) s;
     Some (AIXOS_OK, s\<lparr>task_count := 0, system_running := False, first_start := False\<rparr>)
   }"

text \<open>\<open>if (tcb->owns_stack) aixos_free(tcb->stack_alloc_base); if (tcb->owns_tcb) aixos_free(tcb);\<close>\<close>

definition release_task_memory :: "u32 \<Rightarrow> kstate \<Rightarrow> kstate option" where
  "release_task_memory tcb s = do {
     t \<leftarrow> tcbs s tcb;
     s \<leftarrow> Some (if t_owns_stack t then k_free (t_stack_alloc_base t) s else s);
     Some (if t_owns_tcb t then (k_free tcb s)\<lparr>tcbs := (tcbs s)(tcb := None)\<rparr> else s)
   }"

fun reap_loop :: "lnode list \<Rightarrow> kstate \<Rightarrow> kstate option" where
  "reap_loop [] s = Some s"
| "reap_loop (position # rest) s = do {
     tcb \<leftarrow> node_task position;
     s \<leftarrow> on_ls (list_del (AllN tcb)) s;
     s \<leftarrow> release_task_memory tcb s;
     reap_loop rest s
   }"

definition reap_stopped_tasks :: "kstate \<Rightarrow> kstate option" where
  "reap_stopped_tasks s = do { xs \<leftarrow> members ReapList s; reap_loop xs s }"

text \<open>One turn of the idle task, before its \<open>wfi\<close>.\<close>

definition idle_task_entry :: "kstate \<Rightarrow> kstate option" where
  "idle_task_entry s = reap_stopped_tasks s"

definition task_stack_guard_ok :: "u32 \<Rightarrow> kstate \<Rightarrow> bool option" where
  "task_stack_guard_ok tcb s =
     (if tcb = 0 then Some False
      else do {
        t \<leftarrow> tcbs s tcb;
        if t_stack_base t = 0 \<or> t_stack_size t < AIXOS_CFG_STACK_GUARD_BYTES then Some False
        else Some (list_all (\<lambda>b. b = 0xE7) (k_read (t_stack_base t) (unat AIXOS_CFG_STACK_GUARD_BYTES) s))
      })"

section \<open>Creation\<close>

text \<open>\<open>memset(tcb, 0, sizeof *tcb)\<close> and the five \<open>aixos_list_init\<close>.\<close>

definition tcb_lists_init :: "u32 \<Rightarrow> kstate \<Rightarrow> kstate option" where
  "tcb_lists_init tcb s = do {
     s \<leftarrow> on_ls (list_init_node (ReadyN tcb)) s;
     s \<leftarrow> on_ls (list_init_node (AllN tcb)) s;
     s \<leftarrow> on_ls (list_init_node (WaitN tcb)) s;
     s \<leftarrow> on_ls (list_init_node (TimeoutN tcb)) s;
     on_ls (list_init_head (HeldMutexes tcb)) s
   }"

text \<open>The stack of a new task: the address, the address to free, and the state after the
  allocation; \<open>0\<close> when there is no memory.\<close>

definition create_stack :: "u32 \<Rightarrow> u32 \<Rightarrow> bool \<Rightarrow> kstate \<Rightarrow> ((u32 \<times> u32) \<times> kstate) option" where
  "create_stack stack stack_size user_task s =
     (if stack \<noteq> 0 then Some ((stack, stack), s)
      else if user_task \<and> stack_size > UINT32_MAX - (stack_size - 1) then Some ((0, 0), s)
      else do {
        let alloc_size = (if user_task then stack_size + (stack_size - 1) else stack_size);
        (stack_alloc_base, s) \<leftarrow> on_heap (aixos_kernel_malloc (in_isr s) alloc_size) s;
        Some (if stack_alloc_base = 0 then ((0, 0), s)
              else if user_task
              then (((stack_alloc_base + (stack_size - 1)) AND NOT (stack_size - 1), stack_alloc_base), s)
              else ((stack_alloc_base, stack_alloc_base), s))
      })"

definition new_tcb :: "string option \<Rightarrow> int \<Rightarrow> aixos_handle_t \<Rightarrow> u32 \<Rightarrow> u32 \<Rightarrow> u32 \<Rightarrow> bool \<Rightarrow> bool \<Rightarrow> bool \<Rightarrow> aixos_tcb" where
  "new_tcb name priority handle stack_base stack_alloc_base stack_size owns_tcb owns_stack user_task =
     zero_tcb\<lparr>
       t_name := (case name of Some nm \<Rightarrow> strncpy (t_name zero_tcb) nm 15 | None \<Rightarrow> t_name zero_tcb),
       t_priority := priority, t_base_priority := priority, t_state := AIXOS_TASK_READY,
       t_handle := handle, t_stack_base := stack_base, t_stack_alloc_base := stack_alloc_base,
       t_stack_size := stack_size, t_time_slice := AIXOS_CFG_TIME_SLICE_TICKS,
       t_owns_tcb := owns_tcb, t_owns_stack := owns_stack,
       t_domain := (if user_task then AIXOS_DOMAIN_USER else AIXOS_DOMAIN_KERNEL),
       t_arch_control := (if user_task then 3 else 2)\<rparr>"

definition task_create_common ::
  "string option \<Rightarrow> u32 \<Rightarrow> u32 \<Rightarrow> u32 \<Rightarrow> u32 \<Rightarrow> int \<Rightarrow> u32 \<Rightarrow> bool \<Rightarrow> bool \<Rightarrow> kstate \<Rightarrow>
   (aixos_handle_t \<times> kstate) option" where
  "task_create_common name entry arg stack stack_size priority provided_tcb system_task user_task s =
     (if in_isr s \<or> entry = 0 \<or> priority < 0 \<or> priority \<ge> int AIXOS_CFG_MAX_PRIORITY \<or>
         task_count s \<ge> int AIXOS_CFG_TASK_HANDLE_LIMIT \<or>
         (\<not> system_task \<and> \<not> system_running s \<and>
          task_count s \<ge> int AIXOS_CFG_TASK_HANDLE_LIMIT - int AIXOS_CFG_SYSTEM_TASKS_RESERVED)
      then Some (AIXOS_HANDLE_INVALID, s)
      else if user_task \<and> (stack_size < AIXOS_CFG_MPU_MIN_REGION_SIZE \<or> stack_size AND (stack_size - 1) \<noteq> 0)
      then Some (AIXOS_HANDLE_INVALID, s)
      else if stack_size < AIXOS_CFG_MIN_TASK_STACK_SIZE then Some (AIXOS_HANDLE_INVALID, s)
      else if user_task \<and> stack \<noteq> 0 \<and> stack AND (stack_size - 1) \<noteq> 0 then Some (AIXOS_HANDLE_INVALID, s)
      else do {
        (tcb, s) \<leftarrow> (if provided_tcb = 0 then on_heap (aixos_kernel_malloc (in_isr s) sizeof_tcb) s
                     else Some (provided_tcb, s));
        if tcb = 0 then Some (AIXOS_HANDLE_INVALID, s)
        else do {
          ((stack_base, stack_alloc_base), s) \<leftarrow> create_stack stack stack_size user_task s;
          if stack_alloc_base = 0
          then Some (AIXOS_HANDLE_INVALID, if provided_tcb = 0 then k_free tcb s else s)
          else do {
            (slot, s) \<leftarrow> k_slot_alloc AIXOS_POOL_TASK (KTask tcb) s;
            if slot < 0
            then do {
              s \<leftarrow> Some (if stack = 0 then k_free stack_alloc_base s else s);
              Some (AIXOS_HANDLE_INVALID, if provided_tcb = 0 then k_free tcb s else s)
            }
            else do {
              let handle = aixos_slot_handle AIXOS_POOL_TASK slot (k_obj s);
              s \<leftarrow> tcb_lists_init tcb s;
              s \<leftarrow> Some (k_write stack_base (replicate (unat stack_size) 0xA5) s);
              s \<leftarrow> Some (k_write stack_base (replicate (unat AIXOS_CFG_STACK_GUARD_BYTES) 0xE7) s);
              (stack_top, s) \<leftarrow> Some (aixos_arch_stack_init entry (stack_base + stack_size) arg s);
              let t = aixos_mpu_task_init ((new_tcb name priority handle stack_base stack_alloc_base stack_size
                        (provided_tcb = 0) (stack = 0) user_task)\<lparr>t_stack_top := stack_top\<rparr>);
              s \<leftarrow> Some (s\<lparr>tcbs := (tcbs s)(tcb \<mapsto> t)\<rparr>);
              s \<leftarrow> on_ls (list_add_tail (AllN tcb) AllTasks) s;
              s \<leftarrow> Some (s\<lparr>task_count := task_count s + 1\<rparr>);
              s \<leftarrow> (if system_running s then aixos_sched_add_task tcb s else Some s);
              Some (handle, k_record AIXOS_TRACE_TASK_CREATE handle (word_of_int priority) s)
            }
          }
        }
      })"

definition aixos_task_create ::
  "string option \<Rightarrow> u32 \<Rightarrow> u32 \<Rightarrow> u32 \<Rightarrow> int \<Rightarrow> kstate \<Rightarrow> (aixos_handle_t \<times> kstate) option" where
  "aixos_task_create name entry arg stack_size priority s =
     task_create_common name entry arg 0 stack_size priority 0 False False s"

definition aixos_user_task_create ::
  "string option \<Rightarrow> u32 \<Rightarrow> u32 \<Rightarrow> u32 \<Rightarrow> int \<Rightarrow> kstate \<Rightarrow> (aixos_handle_t \<times> kstate) option" where
  "aixos_user_task_create name entry arg stack_size priority s =
     (if stack_size < 256 \<or> stack_size AND (stack_size - 1) \<noteq> 0 then Some (AIXOS_HANDLE_INVALID, s)
      else task_create_common name entry arg 0 stack_size priority 0 False True s)"

definition aixos_task_create_static ::
  "string option \<Rightarrow> u32 \<Rightarrow> u32 \<Rightarrow> u32 \<Rightarrow> u32 \<Rightarrow> int \<Rightarrow> u32 \<Rightarrow> kstate \<Rightarrow> (aixos_handle_t \<times> kstate) option" where
  "aixos_task_create_static name entry arg stack stack_size priority tcb s =
     task_create_common name entry arg stack stack_size priority tcb False False s"

definition aixos_user_task_create_static ::
  "string option \<Rightarrow> u32 \<Rightarrow> u32 \<Rightarrow> u32 \<Rightarrow> u32 \<Rightarrow> int \<Rightarrow> u32 \<Rightarrow> kstate \<Rightarrow> (aixos_handle_t \<times> kstate) option" where
  "aixos_user_task_create_static name entry arg stack stack_size priority tcb s =
     task_create_common name entry arg stack stack_size priority tcb False True s"

section \<open>Deletion\<close>

text \<open>A task that deletes itself never returns (\<open>Blocked\<close>): the idle task frees its memory.\<close>

definition aixos_task_delete :: "aixos_handle_t \<Rightarrow> kstate \<Rightarrow> (int outcome \<times> kstate) option" where
  "aixos_task_delete task s =
     (let tcb = aixos_tcb_from_handle task s
      in if tcb = 0 then Some (Done AIXOS_ERR_INVAL, s)
      else if \<not> aixos_mutex_task_can_delete tcb s then Some (Done AIXOS_ERR_BUSY, s)
      else let is_current = (tcb = cur_task s)
      in if is_current \<and> sched_locked s then Some (Done AIXOS_ERR_LOCKED, s)
      else do {
        s \<leftarrow> aixos_sched_remove_task tcb s;
        s \<leftarrow> task_detach_wait_locked tcb AIXOS_ERR_INTR s;
        s \<leftarrow> on_ls (list_del (AllN tcb)) s;
        s \<leftarrow> upd_tcb tcb (\<lambda>t. t\<lparr>t_state := AIXOS_TASK_STOP\<rparr>) s;
        s \<leftarrow> Some (k_slot_free AIXOS_POOL_TASK task s);
        s \<leftarrow> Some (s\<lparr>task_count := task_count s - 1\<rparr>);
        if is_current
        then do {
          s \<leftarrow> on_ls (list_add_tail (AllN tcb) ReapList) s;
          Some (Blocked, reschedule_request (s\<lparr>cur_task := tcb\<rparr>))
        }
        else do {
          s \<leftarrow> release_task_memory tcb s;
          Some (Done AIXOS_OK, k_record AIXOS_TRACE_TASK_DELETE task 0 s)
        }
      })"

definition aixos_task_self :: "kstate \<Rightarrow> aixos_handle_t option" where
  "aixos_task_self s = (if cur_task s \<noteq> 0 then map_option t_handle (tcbs s (cur_task s)) else Some AIXOS_HANDLE_INVALID)"

text \<open>A task whose entry function returns deletes itself.\<close>

definition aixos_task_return_trap :: "kstate \<Rightarrow> (int outcome \<times> kstate) option" where
  "aixos_task_return_trap s = do { h \<leftarrow> aixos_task_self s; aixos_task_delete h s }"

section \<open>The system tick\<close>

fun timeout_loop :: "u32 \<Rightarrow> lnode list \<Rightarrow> kstate \<Rightarrow> kstate option" where
  "timeout_loop now [] s = Some s"
| "timeout_loop now (position # rest) s = do {
     tcb \<leftarrow> node_task position;
     t \<leftarrow> tcbs s tcb;
     if \<not> tick_reached now (t_wake_tick t) then Some s
     else do {
       s \<leftarrow> aixos_task_wake tcb (if t_state t = AIXOS_TASK_DELAYED then AIXOS_OK else AIXOS_ERR_TIMEOUT) s;
       timeout_loop now rest s
     }
   }"

definition check_current_stack :: "kstate \<Rightarrow> kstate option" where
  "check_current_stack s =
     (if cur_task s = 0 then Some s
      else do {
        t \<leftarrow> tcbs s (cur_task s);
        ok \<leftarrow> task_stack_guard_ok (cur_task s) s;
        if \<not> t_stack_guard_failed t \<and> \<not> ok
        then do {
          s \<leftarrow> upd_tcb (cur_task s) (\<lambda>t. t\<lparr>t_stack_guard_failed := True\<rparr>) s;
          Some (k_record AIXOS_TRACE_STACK_GUARD (t_handle t) 0 s)
        }
        else Some s
      })"

definition aixos_task_tick :: "u32 \<Rightarrow> kstate \<Rightarrow> kstate option" where
  "aixos_task_tick now s = do {
     s \<leftarrow> check_current_stack s;
     xs \<leftarrow> members TimeoutList s;
     timeout_loop now xs s
   }"

section \<open>Task API\<close>

definition aixos_task_yield :: "kstate \<Rightarrow> (int \<times> kstate) option" where
  "aixos_task_yield s =
     (if in_isr s then Some (AIXOS_ERR_CONTEXT, s)
      else do { s \<leftarrow> aixos_sched_rotate_current s; Some (AIXOS_OK, reschedule_request s) })"

definition aixos_task_sleep :: "u32 \<Rightarrow> kstate \<Rightarrow> (int outcome \<times> kstate) option" where
  "aixos_task_sleep ms s =
     (if in_isr s then Some (Done AIXOS_ERR_CONTEXT, s)
      else if ms = 0 then map_option (\<lambda>(r, s). (Done r, s)) (aixos_task_yield s)
      else aixos_task_block_current None KNull AIXOS_OBJ_UNUSED ms s)"

definition aixos_task_suspend :: "aixos_handle_t \<Rightarrow> kstate \<Rightarrow> (int \<times> kstate) option" where
  "aixos_task_suspend task s =
     (if in_isr s then Some (AIXOS_ERR_CONTEXT, s)
      else let tcb = aixos_tcb_from_handle task s
      in if tcb = 0 then Some (AIXOS_ERR_INVAL, s)
      else do {
        t \<leftarrow> tcbs s tcb;
        if t_state t = AIXOS_TASK_STOP \<or> t_state t = AIXOS_TASK_SUSPENDED then Some (AIXOS_ERR_INVAL, s)
        else if tcb = cur_task s \<and> sched_locked s then Some (AIXOS_ERR_LOCKED, s)
        else do {
          s \<leftarrow> aixos_sched_remove_task tcb s;
          s \<leftarrow> (if t_state t = AIXOS_TASK_BLOCKED \<or> t_state t = AIXOS_TASK_DELAYED
                then task_detach_wait_locked tcb AIXOS_ERR_INTR s else Some s);
          s \<leftarrow> upd_tcb tcb (\<lambda>t. t\<lparr>t_state := AIXOS_TASK_SUSPENDED\<rparr>) s;
          Some (AIXOS_OK, if tcb = cur_task s then reschedule_request s else s)
        }
      })"

definition aixos_task_resume :: "aixos_handle_t \<Rightarrow> kstate \<Rightarrow> (int \<times> kstate) option" where
  "aixos_task_resume task s =
     (if in_isr s then Some (AIXOS_ERR_CONTEXT, s)
      else let tcb = aixos_tcb_from_handle task s
      in if tcb = 0 then Some (AIXOS_ERR_INVAL, s)
      else do {
        t \<leftarrow> tcbs s tcb;
        if t_state t \<noteq> AIXOS_TASK_SUSPENDED then Some (AIXOS_ERR_INVAL, s)
        else do {
          s \<leftarrow> upd_tcb tcb (\<lambda>t. t\<lparr>t_state := AIXOS_TASK_READY\<rparr>) s;
          s \<leftarrow> aixos_sched_add_task tcb s;
          s \<leftarrow> aixos_sched_request_preemption s;
          Some (AIXOS_OK, s)
        }
      })"

definition aixos_task_set_priority :: "aixos_handle_t \<Rightarrow> int \<Rightarrow> kstate \<Rightarrow> (int \<times> kstate) option" where
  "aixos_task_set_priority task priority s =
     (if priority < 0 \<or> priority \<ge> int AIXOS_CFG_MAX_PRIORITY then Some (AIXOS_ERR_INVAL, s)
      else let tcb = aixos_tcb_from_handle task s
      in if tcb = 0 then Some (AIXOS_ERR_INVAL, s)
      else do {
        t \<leftarrow> tcbs s tcb;
        s \<leftarrow> upd_tcb tcb (\<lambda>t. t\<lparr>t_base_priority := priority, t_priority := priority\<rparr>) s;
        s \<leftarrow> aixos_sched_requeue_task tcb (t_priority t) s;
        s \<leftarrow> aixos_mutex_task_priority_changed tcb s;
        s \<leftarrow> aixos_sched_request_preemption s;
        Some (AIXOS_OK, s)
      })"

record aixos_task_info_t =
  inf_name :: string
  inf_handle :: aixos_handle_t
  inf_priority :: int
  inf_state :: aixos_task_state
  inf_stack_size :: u32
  inf_stack_used :: u32
  inf_stack_free :: u32
  inf_stack_guard_ok :: bool
  inf_runtime_ticks :: u64
  inf_switch_count :: u64

text \<open>\<open>while (used < stack_size && stack[used] == 0xA5) used++;\<close>\<close>

function stack_used_loop :: "u32 \<Rightarrow> u32 \<Rightarrow> u32 \<Rightarrow> heap_state \<Rightarrow> u32" where
  "stack_used_loop stack sz used h =
     (if used < sz \<and> hmem h (stack + used) = 0xA5 then stack_used_loop stack sz (used + 1) h else used)"
  by pat_completeness auto
termination
proof (relation "measure (\<lambda>(_, sz, used, _). unat sz - unat used)")
  fix stack sz used :: u32 and h :: heap_state
  assume "used < sz \<and> hmem h (stack + used) = 0xA5"
  then have lt: "used < sz" ..
  then have "unat used < unat sz" by (simp only: word_less_nat_alt)
  then show "((stack, sz, used + 1, h), stack, sz, used, h) \<in> measure (\<lambda>(_, sz, used, _). unat sz - unat used)"
    by (simp add: u32_next_below[OF lt])
qed simp

declare stack_used_loop.simps [simp del]

text \<open>\<open>info\<close> is a valid pointer; the name buffer it points to is overwritten.\<close>

definition aixos_task_get_info :: "aixos_handle_t \<Rightarrow> kstate \<Rightarrow> (int \<times> aixos_task_info_t option) option" where
  "aixos_task_get_info task s =
     (let tcb = aixos_tcb_from_handle task s
      in if tcb = 0 then Some (AIXOS_ERR_INVAL, None)
      else do {
        t \<leftarrow> tcbs s tcb;
        ok \<leftarrow> task_stack_guard_ok tcb s;
        let used = stack_used_loop (t_stack_base t) (t_stack_size t) AIXOS_CFG_STACK_GUARD_BYTES (k_heap s);
        Some (AIXOS_OK, Some \<lparr>inf_name = strncpy (replicate 16 NUL) (cstr (t_name t)) 16,
          inf_handle = t_handle t, inf_priority = t_priority t, inf_state = t_state t,
          inf_stack_size = t_stack_size t, inf_stack_used = t_stack_size t - used,
          inf_stack_free = used - AIXOS_CFG_STACK_GUARD_BYTES, inf_stack_guard_ok = ok,
          inf_runtime_ticks = t_runtime_ticks t, inf_switch_count = t_switch_count t\<rparr>)
      })"

definition aixos_task_stack_check :: "aixos_handle_t \<Rightarrow> kstate \<Rightarrow> int option" where
  "aixos_task_stack_check task s =
     (let tcb = aixos_tcb_from_handle task s
      in if tcb = 0 then Some AIXOS_ERR_INVAL
         else map_option (\<lambda>ok. if ok then AIXOS_OK else AIXOS_ERR_CORRUPT) (task_stack_guard_ok tcb s))"

definition aixos_task_is_user :: "aixos_handle_t \<Rightarrow> kstate \<Rightarrow> int option" where
  "aixos_task_is_user task s =
     (let tcb = aixos_tcb_from_handle task s
      in if tcb = 0 then Some AIXOS_ERR_INVAL
         else map_option (\<lambda>t. if t_domain t = AIXOS_DOMAIN_USER then 1 else 0) (tcbs s tcb))"

definition aixos_task_count :: "kstate \<Rightarrow> u32" where
  "aixos_task_count s = word_of_int (task_count s)"

section \<open>Signals\<close>

definition aixos_task_signal_send :: "aixos_handle_t \<Rightarrow> u32 \<Rightarrow> kstate \<Rightarrow> (int \<times> kstate) option" where
  "aixos_task_signal_send task signo s =
     (if signo \<ge> 32 then Some (AIXOS_ERR_INVAL, s)
      else let tcb = aixos_tcb_from_handle task s
      in if tcb = 0 then Some (AIXOS_ERR_INVAL, s)
      else do {
        t \<leftarrow> tcbs s tcb;
        if t_signal_mask t AND bitm (unat signo) \<noteq> 0
        then do {
          s \<leftarrow> upd_tcb tcb (\<lambda>t. t\<lparr>t_signal_pending := t_signal_pending t OR bitm (unat signo)\<rparr>) s;
          Some (AIXOS_OK, s)
        }
        else do {
          s \<leftarrow> upd_tcb tcb (\<lambda>t. t\<lparr>t_signal_pending := t_signal_pending t OR bitm (unat signo),
                                   t_pending_signal := True\<rparr>) s;
          s \<leftarrow> (if t_state t = AIXOS_TASK_BLOCKED \<and> t_wait_type t = AIXOS_OBJ_SIGNAL \<and>
                   t_wait_obj t = KTask tcb
                then aixos_task_wake tcb AIXOS_OK s else Some s);
          Some (AIXOS_OK, s)
        }
      })"

definition aixos_task_signal_handle :: "u32 \<Rightarrow> u32 \<Rightarrow> u32 \<Rightarrow> kstate \<Rightarrow> (int \<times> kstate) option" where
  "aixos_task_signal_handle signo handler arg s =
     (if cur_task s = 0 \<or> signo \<ge> 32 then Some (AIXOS_ERR_INVAL, s)
      else do {
        s \<leftarrow> upd_tcb (cur_task s) (\<lambda>t. t\<lparr>t_signal_handler := (t_signal_handler t)[unat signo := handler],
                                          t_signal_arg := (t_signal_arg t)[unat signo := arg]\<rparr>) s;
        Some (AIXOS_OK, s)
      })"

definition aixos_task_signal_mask :: "u32 \<Rightarrow> kstate \<Rightarrow> (int \<times> kstate) option" where
  "aixos_task_signal_mask msk s =
     (if cur_task s = 0 then Some (AIXOS_ERR_INVAL, s)
      else do {
        s \<leftarrow> upd_tcb (cur_task s) (\<lambda>t. t\<lparr>t_signal_mask := msk,
               t_pending_signal := (if t_signal_pending t AND NOT msk \<noteq> 0 then True else t_pending_signal t)\<rparr>) s;
        Some (AIXOS_OK, s)
      })"

definition aixos_task_signal_pending :: "aixos_handle_t \<Rightarrow> kstate \<Rightarrow> (int \<times> u32 option) option" where
  "aixos_task_signal_pending task s =
     (let tcb = aixos_tcb_from_handle task s
      in if tcb = 0 then Some (AIXOS_ERR_INVAL, None)
         else map_option (\<lambda>t. (AIXOS_OK, Some (t_signal_pending t))) (tcbs s tcb))"

text \<open>The result carries the handler call \<open>handler(arg)\<close>, which runs in the task's context.\<close>

definition aixos_task_signal_deliver :: "kstate \<Rightarrow> ((int \<times> (u32 \<times> u32) option) \<times> kstate) option" where
  "aixos_task_signal_deliver s =
     (if cur_task s = 0 then Some ((AIXOS_OK, None), s)
      else do {
        t \<leftarrow> tcbs s (cur_task s);
        let pending = t_signal_pending t AND NOT (t_signal_mask t);
        if \<not> t_pending_signal t \<or> pending = 0 then Some ((AIXOS_OK, None), s)
        else do {
          let signo = ctz pending;
          s \<leftarrow> upd_tcb (cur_task s) (\<lambda>t. let t = t\<lparr>t_signal_pending := t_signal_pending t AND NOT (bitm signo)\<rparr>
                 in if t_signal_pending t = 0 then t\<lparr>t_pending_signal := False\<rparr> else t) s;
          let handler = t_signal_handler t ! signo;
          Some ((AIXOS_OK, if handler \<noteq> 0 then Some (handler, t_signal_arg t ! signo) else None), s)
        }
      })"

end
