(* ===== verification/Sem.thy ===== *)
theory Sem
  imports Task
begin

text \<open>\<^verbatim>\<open>kernel/ipc/sem.c\<close>: counting semaphores.\<close>

definition sem_from_handle :: "aixos_handle_t \<Rightarrow> kstate \<Rightarrow> nat option" where
  "sem_from_handle handle s = (case k_lookup handle AIXOS_OBJ_SEM s of KSem i \<Rightarrow> Some i | _ \<Rightarrow> None)"

definition set_sem :: "nat \<Rightarrow> aixos_sem_t \<Rightarrow> kstate \<Rightarrow> kstate" where
  "set_sem i x s = s\<lparr>sem_pool := (sem_pool s)[i := x]\<rparr>"

definition aixos_sem_create :: "int \<Rightarrow> kstate \<Rightarrow> (aixos_handle_t \<times> kstate) option" where
  "aixos_sem_create initial_count s =
     (if in_isr s \<or> initial_count < 0 \<or> initial_count > AIXOS_CFG_SEM_MAX_COUNT
      then Some (AIXOS_HANDLE_INVALID, s)
      else case find_index (\<lambda>x. sem_handle x = 0) (sem_pool s) 0 of
        None \<Rightarrow> Some (AIXOS_HANDLE_INVALID, s)
      | Some i \<Rightarrow> do {
          (slot, s) \<leftarrow> k_slot_alloc AIXOS_POOL_SEM (KSem i) s;
          if slot < 0 then Some (AIXOS_HANDLE_INVALID, s)
          else do {
            let handle = aixos_slot_handle AIXOS_POOL_SEM slot (k_obj s);
            s \<leftarrow> Some (set_sem i \<lparr>sem_count = initial_count, sem_handle = handle\<rparr> s);
            s \<leftarrow> on_ls (list_init_head (SemWait i)) s;
            Some (handle, s)
          }
        })"

definition aixos_sem_wait :: "aixos_handle_t \<Rightarrow> u32 \<Rightarrow> kstate \<Rightarrow> (int outcome \<times> kstate) option" where
  "aixos_sem_wait handle timeout_ms s =
     (if in_isr s then Some (Done AIXOS_ERR_CONTEXT, s)
      else case sem_from_handle handle s of
        None \<Rightarrow> Some (Done AIXOS_ERR_INVAL, s)
      | Some i \<Rightarrow>
          let sem = sem_pool s ! i
          in if sem_count sem > 0
             then Some (Done AIXOS_OK, set_sem i (sem\<lparr>sem_count := sem_count sem - 1\<rparr>) s)
             else if timeout_ms = 0 then Some (Done AIXOS_ERR_TIMEOUT, s)
             else aixos_task_block_current (Some (SemWait i)) (KSem i) AIXOS_OBJ_SEM timeout_ms s)"

definition sem_post_common :: "aixos_handle_t \<Rightarrow> kstate \<Rightarrow> (int \<times> kstate) option" where
  "sem_post_common handle s =
     (case sem_from_handle handle s of
        None \<Rightarrow> Some (AIXOS_ERR_INVAL, s)
      | Some i \<Rightarrow>
          let sem = sem_pool s ! i
          in if \<not> head_empty (SemWait i) s
             then do {
               tcb \<leftarrow> first_task (SemWait i) s;
               s \<leftarrow> aixos_task_wake tcb AIXOS_OK s;
               Some (AIXOS_OK, s)
             }
             else if sem_count sem = AIXOS_CFG_SEM_MAX_COUNT then Some (AIXOS_ERR_OVERFLOW, s)
             else Some (AIXOS_OK, set_sem i (sem\<lparr>sem_count := sem_count sem + 1\<rparr>) s))"

definition aixos_sem_post :: "aixos_handle_t \<Rightarrow> kstate \<Rightarrow> (int \<times> kstate) option" where
  "aixos_sem_post handle s = (if in_isr s then Some (AIXOS_ERR_CONTEXT, s) else sem_post_common handle s)"

definition aixos_sem_post_from_isr :: "aixos_handle_t \<Rightarrow> kstate \<Rightarrow> (int \<times> kstate) option" where
  "aixos_sem_post_from_isr handle s =
     (if \<not> in_isr s then Some (AIXOS_ERR_CONTEXT, s) else sem_post_common handle s)"

definition aixos_sem_delete :: "aixos_handle_t \<Rightarrow> kstate \<Rightarrow> (int \<times> kstate) option" where
  "aixos_sem_delete handle s =
     (if in_isr s then Some (AIXOS_ERR_CONTEXT, s)
      else case sem_from_handle handle s of
        None \<Rightarrow> Some (AIXOS_ERR_INVAL, s)
      | Some i \<Rightarrow>
          if \<not> head_empty (SemWait i) s then Some (AIXOS_ERR_BUSY, s)
          else do {
            s \<leftarrow> Some (k_slot_free AIXOS_POOL_SEM handle s);
            s \<leftarrow> Some (set_sem i zero_sem s);
            s \<leftarrow> on_ls (list_zero_head (SemWait i)) s;
            Some (AIXOS_OK, s)
          })"

definition aixos_sem_get_count :: "aixos_handle_t \<Rightarrow> kstate \<Rightarrow> int" where
  "aixos_sem_get_count handle s =
     (case sem_from_handle handle s of Some i \<Rightarrow> sem_count (sem_pool s ! i) | None \<Rightarrow> AIXOS_ERR_INVAL)"

end
