(* ===== verification/Mutex.thy ===== *)
theory Mutex
  imports Task
begin

text \<open>\<^verbatim>\<open>kernel/ipc/mutex.c\<close>: recursive mutexes with priority inheritance (the inheritance itself is in
  \<open>Waiting\<close>). Unlocking hands the mutex over to the first waiter.\<close>

definition mutex_from_handle :: "aixos_handle_t \<Rightarrow> kstate \<Rightarrow> nat option" where
  "mutex_from_handle handle s = (case k_lookup handle AIXOS_OBJ_MUTEX s of KMutex i \<Rightarrow> Some i | _ \<Rightarrow> None)"

definition set_mutex :: "nat \<Rightarrow> aixos_mutex_t \<Rightarrow> kstate \<Rightarrow> kstate" where
  "set_mutex i x s = s\<lparr>mutex_pool := (mutex_pool s)[i := x]\<rparr>"

definition aixos_mutex_create :: "kstate \<Rightarrow> (aixos_handle_t \<times> kstate) option" where
  "aixos_mutex_create s =
     (if in_isr s then Some (AIXOS_HANDLE_INVALID, s)
      else case find_index (\<lambda>x. mx_handle x = 0) (mutex_pool s) 0 of
        None \<Rightarrow> Some (AIXOS_HANDLE_INVALID, s)
      | Some i \<Rightarrow> do {
          (slot, s) \<leftarrow> k_slot_alloc AIXOS_POOL_MUTEX (KMutex i) s;
          if slot < 0 then Some (AIXOS_HANDLE_INVALID, s)
          else do {
            let handle = aixos_slot_handle AIXOS_POOL_MUTEX slot (k_obj s);
            s \<leftarrow> Some (set_mutex i \<lparr>mx_owner = AIXOS_HANDLE_INVALID, mx_lock_count = 0, mx_handle = handle\<rparr> s);
            s \<leftarrow> on_ls (list_init_head (MutexWait i)) s;
            s \<leftarrow> on_ls (list_init_node (OwnerN i)) s;
            Some (handle, s)
          }
        })"

definition aixos_mutex_lock :: "aixos_handle_t \<Rightarrow> u32 \<Rightarrow> kstate \<Rightarrow> (int outcome \<times> kstate) option" where
  "aixos_mutex_lock handle timeout_ms s =
     (let self = cur_task s
      in if in_isr s \<or> self = 0 then Some (Done AIXOS_ERR_CONTEXT, s)
      else case mutex_from_handle handle s of
        None \<Rightarrow> Some (Done AIXOS_ERR_INVAL, s)
      | Some i \<Rightarrow> do {
          t \<leftarrow> tcbs s self;
          let mutex = mutex_pool s ! i;
          if mx_owner mutex = AIXOS_HANDLE_INVALID
          then do {
            s \<leftarrow> Some (set_mutex i (mutex\<lparr>mx_owner := t_handle t, mx_lock_count := 1\<rparr>) s);
            s \<leftarrow> on_ls (list_add_tail (OwnerN i) (HeldMutexes self)) s;
            Some (Done AIXOS_OK, s)
          }
          else if mx_owner mutex = t_handle t
          then if mx_lock_count mutex = UINT32_MAX then Some (Done AIXOS_ERR_OVERFLOW, s)
               else Some (Done AIXOS_OK, set_mutex i (mutex\<lparr>mx_lock_count := mx_lock_count mutex + 1\<rparr>) s)
          else if timeout_ms = 0 then Some (Done AIXOS_ERR_BUSY, s)
          else aixos_task_block_current (Some (MutexWait i)) (KMutex i) AIXOS_OBJ_MUTEX timeout_ms s
        })"

text \<open>The part of \<open>aixos_mutex_unlock\<close> after the last unlock: the mutex passes to the first waiter.\<close>

definition mutex_hand_over :: "nat \<Rightarrow> kstate \<Rightarrow> kstate option" where
  "mutex_hand_over i s = do {
     s \<leftarrow> unlink_node (OwnerN i) s;
     if \<not> head_empty (MutexWait i) s
     then do {
       next \<leftarrow> first_task (MutexWait i) s;
       n \<leftarrow> tcbs s next;
       s \<leftarrow> Some (set_mutex i ((mutex_pool s ! i)\<lparr>mx_owner := t_handle n, mx_lock_count := 1\<rparr>) s);
       s \<leftarrow> on_ls (list_add_tail (OwnerN i) (HeldMutexes next)) s;
       aixos_task_wake next AIXOS_OK s
     }
     else Some (set_mutex i ((mutex_pool s ! i)\<lparr>mx_owner := AIXOS_HANDLE_INVALID\<rparr>) s)
   }"

definition aixos_mutex_unlock :: "aixos_handle_t \<Rightarrow> kstate \<Rightarrow> (int \<times> kstate) option" where
  "aixos_mutex_unlock handle s =
     (let self = cur_task s
      in if in_isr s \<or> self = 0 then Some (AIXOS_ERR_CONTEXT, s)
      else case mutex_from_handle handle s of
        None \<Rightarrow> Some (AIXOS_ERR_INVAL, s)
      | Some i \<Rightarrow> do {
          t \<leftarrow> tcbs s self;
          let mutex = mutex_pool s ! i;
          if mx_owner mutex \<noteq> t_handle t then Some (AIXOS_ERR_INVAL, s)
          else do {
            let mutex = mutex\<lparr>mx_lock_count := mx_lock_count mutex - 1\<rparr>;
            s \<leftarrow> Some (set_mutex i mutex s);
            if mx_lock_count mutex \<noteq> 0 then Some (AIXOS_OK, s)
            else do {
              s \<leftarrow> mutex_hand_over i s;
              s \<leftarrow> recompute self s;
              Some (AIXOS_OK, s)
            }
          }
        })"

definition aixos_mutex_delete :: "aixos_handle_t \<Rightarrow> kstate \<Rightarrow> (int \<times> kstate) option" where
  "aixos_mutex_delete handle s =
     (if in_isr s then Some (AIXOS_ERR_CONTEXT, s)
      else case mutex_from_handle handle s of
        None \<Rightarrow> Some (AIXOS_ERR_INVAL, s)
      | Some i \<Rightarrow>
          if \<not> head_empty (MutexWait i) s then Some (AIXOS_ERR_BUSY, s)
          else do {
            s \<leftarrow> (if mx_owner (mutex_pool s ! i) \<noteq> AIXOS_HANDLE_INVALID
                  then let owner = mutex_owner i s
                       in if owner \<noteq> 0 \<and> nstatus (OwnerN i) s \<noteq> NSelf
                          then do { s \<leftarrow> unlink_node (OwnerN i) s; recompute owner s }
                          else Some s
                  else Some s);
            s \<leftarrow> Some (k_slot_free AIXOS_POOL_MUTEX handle s);
            s \<leftarrow> Some (set_mutex i zero_mutex s);
            s \<leftarrow> on_ls (list_zero_head (MutexWait i)) s;
            s \<leftarrow> on_ls (list_zero_node (OwnerN i)) s;
            Some (AIXOS_OK, s)
          })"

end
