(* ===== verification/Event.thy ===== *)
theory Event
  imports Task
begin

text \<open>\<^verbatim>\<open>kernel/ipc/event.c\<close>: event flag groups. A waiter re-checks its condition after every wake-up;
  \<open>event_wait_resume\<close> is the continuation of a wait that blocked.\<close>

abbreviation (input) AIXOS_EVENT_AND :: u8 where "AIXOS_EVENT_AND \<equiv> 1"
abbreviation (input) AIXOS_EVENT_OR :: u8 where "AIXOS_EVENT_OR \<equiv> 2"
abbreviation (input) AIXOS_EVENT_CLEAR :: u8 where "AIXOS_EVENT_CLEAR \<equiv> 4"

definition event_from_handle :: "aixos_handle_t \<Rightarrow> kstate \<Rightarrow> nat option" where
  "event_from_handle handle s = (case k_lookup handle AIXOS_OBJ_EVENT s of KEvent i \<Rightarrow> Some i | _ \<Rightarrow> None)"

definition set_event :: "nat \<Rightarrow> aixos_event_t \<Rightarrow> kstate \<Rightarrow> kstate" where
  "set_event i x s = s\<lparr>event_pool := (event_pool s)[i := x]\<rparr>"

definition event_match :: "aixos_event_t \<Rightarrow> u32 \<Rightarrow> u8 \<Rightarrow> u32" where
  "event_match event msk mode =
     (let match = ev_flags event AND msk
      in if mode AND AIXOS_EVENT_AND \<noteq> 0 then (if match = msk then match else 0) else match)"

definition aixos_event_create :: "kstate \<Rightarrow> (aixos_handle_t \<times> kstate) option" where
  "aixos_event_create s =
     (if in_isr s then Some (AIXOS_HANDLE_INVALID, s)
      else case find_index (\<lambda>x. ev_handle x = 0) (event_pool s) 0 of
        None \<Rightarrow> Some (AIXOS_HANDLE_INVALID, s)
      | Some i \<Rightarrow> do {
          (slot, s) \<leftarrow> k_slot_alloc AIXOS_POOL_EVENT (KEvent i) s;
          if slot < 0 then Some (AIXOS_HANDLE_INVALID, s)
          else do {
            let handle = aixos_slot_handle AIXOS_POOL_EVENT slot (k_obj s);
            s \<leftarrow> Some (set_event i \<lparr>ev_flags = 0, ev_handle = handle\<rparr> s);
            s \<leftarrow> on_ls (list_init_head (EventWait i)) s;
            Some (handle, s)
          }
        })"

text \<open>One turn of the loop of \<open>aixos_event_wait\<close>; the result holds \<open>*matched\<close> when it was written.\<close>

definition event_wait_turn ::
  "aixos_handle_t \<Rightarrow> u32 \<Rightarrow> u8 \<Rightarrow> u32 \<Rightarrow> int \<Rightarrow> kstate \<Rightarrow> ((int \<times> u32 option) outcome \<times> kstate) option" where
  "event_wait_turn handle msk mode remaining result s =
     (case event_from_handle handle s of
        None \<Rightarrow> Some (Done (AIXOS_ERR_INVAL, None), s)
      | Some i \<Rightarrow>
          let event = event_pool s ! i; match = event_match event msk mode
          in if match \<noteq> 0
             then Some (Done (AIXOS_OK, Some match),
                        if mode AND AIXOS_EVENT_CLEAR \<noteq> 0
                        then set_event i (event\<lparr>ev_flags := ev_flags event AND NOT match\<rparr>) s else s)
             else if remaining = 0
             then Some (Done (if result = AIXOS_ERR_TIMEOUT then AIXOS_ERR_TIMEOUT else AIXOS_ERR_AGAIN, None), s)
             else do {
               s \<leftarrow> upd_tcb (cur_task s) (\<lambda>t. t\<lparr>t_pend_mask := msk, t_pend_mode := mode, t_pend_result := 0\<rparr>) s;
               (r, s) \<leftarrow> aixos_task_block_current (Some (EventWait i)) (KEvent i) AIXOS_OBJ_EVENT remaining s;
               Some (case r of Done e \<Rightarrow> Done (e, None) | Blocked \<Rightarrow> Blocked, s)
             })"

definition aixos_event_wait ::
  "aixos_handle_t \<Rightarrow> u32 \<Rightarrow> u8 \<Rightarrow> u32 \<Rightarrow> kstate \<Rightarrow> ((int \<times> u32 option) outcome \<times> kstate) option" where
  "aixos_event_wait handle msk mode timeout_ms s =
     (let match_mode = mode AND (AIXOS_EVENT_AND OR AIXOS_EVENT_OR)
      in if in_isr s then Some (Done (AIXOS_ERR_CONTEXT, None), s)
      else if msk = 0 \<or> (match_mode \<noteq> AIXOS_EVENT_AND \<and> match_mode \<noteq> AIXOS_EVENT_OR) \<or>
              mode AND NOT (AIXOS_EVENT_AND OR AIXOS_EVENT_OR OR AIXOS_EVENT_CLEAR) \<noteq> 0
      then Some (Done (AIXOS_ERR_INVAL, None), s)
      else event_wait_turn handle msk mode timeout_ms AIXOS_OK s)"

definition event_wait_resume ::
  "aixos_handle_t \<Rightarrow> u32 \<Rightarrow> u8 \<Rightarrow> u32 \<Rightarrow> u32 \<Rightarrow> kstate \<Rightarrow> ((int \<times> u32 option) outcome \<times> kstate) option" where
  "event_wait_resume handle msk mode start_tick timeout_ms s = do {
     result \<leftarrow> block_result s;
     if result = AIXOS_OK
     then event_wait_turn handle msk mode (aixos_timeout_remaining_ms start_tick timeout_ms s) result s
     else Some (Done (result, None), s)
   }"

fun event_set_loop :: "nat \<Rightarrow> lnode list \<Rightarrow> kstate \<Rightarrow> kstate option" where
  "event_set_loop i [] s = Some s"
| "event_set_loop i (position # rest) s = do {
     tcb \<leftarrow> node_task position;
     t \<leftarrow> tcbs s tcb;
     let event = event_pool s ! i;
     let match = event_match event (t_pend_mask t) (t_pend_mode t);
     s \<leftarrow> (if match \<noteq> 0
           then do {
             s \<leftarrow> Some (if t_pend_mode t AND AIXOS_EVENT_CLEAR \<noteq> 0
                        then set_event i (event\<lparr>ev_flags := ev_flags event AND NOT match\<rparr>) s else s);
             s \<leftarrow> upd_tcb tcb (\<lambda>t. t\<lparr>t_pend_result := match\<rparr>) s;
             aixos_task_wake tcb AIXOS_OK s
           }
           else Some s);
     event_set_loop i rest s
   }"

definition event_set_common :: "aixos_handle_t \<Rightarrow> u32 \<Rightarrow> kstate \<Rightarrow> (int \<times> kstate) option" where
  "event_set_common handle flags_to_set s =
     (case event_from_handle handle s of
        None \<Rightarrow> Some (AIXOS_ERR_INVAL, s)
      | Some i \<Rightarrow> do {
          let event = event_pool s ! i;
          s \<leftarrow> Some (set_event i (event\<lparr>ev_flags := ev_flags event OR flags_to_set\<rparr>) s);
          xs \<leftarrow> members (EventWait i) s;
          s \<leftarrow> event_set_loop i xs s;
          Some (AIXOS_OK, s)
        })"

definition aixos_event_set :: "aixos_handle_t \<Rightarrow> u32 \<Rightarrow> kstate \<Rightarrow> (int \<times> kstate) option" where
  "aixos_event_set handle flags_to_set s =
     (if in_isr s then Some (AIXOS_ERR_CONTEXT, s) else event_set_common handle flags_to_set s)"

definition aixos_event_clear :: "aixos_handle_t \<Rightarrow> u32 \<Rightarrow> kstate \<Rightarrow> (int \<times> kstate) option" where
  "aixos_event_clear handle flags_to_clear s =
     (if in_isr s then Some (AIXOS_ERR_CONTEXT, s)
      else case event_from_handle handle s of
        None \<Rightarrow> Some (AIXOS_ERR_INVAL, s)
      | Some i \<Rightarrow>
          let event = event_pool s ! i
          in Some (AIXOS_OK, set_event i (event\<lparr>ev_flags := ev_flags event AND NOT flags_to_clear\<rparr>) s))"

definition aixos_event_delete :: "aixos_handle_t \<Rightarrow> kstate \<Rightarrow> (int \<times> kstate) option" where
  "aixos_event_delete handle s =
     (if in_isr s then Some (AIXOS_ERR_CONTEXT, s)
      else case event_from_handle handle s of
        None \<Rightarrow> Some (AIXOS_ERR_INVAL, s)
      | Some i \<Rightarrow>
          if \<not> head_empty (EventWait i) s then Some (AIXOS_ERR_BUSY, s)
          else do {
            s \<leftarrow> Some (k_slot_free AIXOS_POOL_EVENT handle s);
            s \<leftarrow> Some (set_event i zero_event s);
            s \<leftarrow> on_ls (list_zero_head (EventWait i)) s;
            Some (AIXOS_OK, s)
          })"

end
