(* ===== verification/Notify.thy ===== *)
theory Notify
  imports Task
begin

text \<open>\<^verbatim>\<open>kernel/ipc/notify.c\<close>: direct notifications to a task, kept in its control block. A caller passes
  a valid \<open>value\<close> pointer; the value written to it is part of the result.\<close>

datatype aixos_notify_action =
    AIXOS_NOTIFY_SET_BITS | AIXOS_NOTIFY_INCREMENT | AIXOS_NOTIFY_OVERWRITE | AIXOS_NOTIFY_NO_OVERWRITE

text \<open>The new notification value of the task, or the error; an action outside the enumeration
  (the \<open>default\<close> case) is not a value of this type.\<close>

definition notify_value_after :: "aixos_notify_action \<Rightarrow> u32 \<Rightarrow> aixos_tcb \<Rightarrow> int + u32" where
  "notify_value_after action v t =
     (case action of
        AIXOS_NOTIFY_SET_BITS \<Rightarrow> Inr (t_notify_value t OR v)
      | AIXOS_NOTIFY_INCREMENT \<Rightarrow>
          if t_notify_value t = UINT32_MAX then Inl AIXOS_ERR_OVERFLOW else Inr (t_notify_value t + 1)
      | AIXOS_NOTIFY_OVERWRITE \<Rightarrow> Inr v
      | AIXOS_NOTIFY_NO_OVERWRITE \<Rightarrow> if t_notify_pending t then Inl AIXOS_ERR_BUSY else Inr v)"

definition notify_common :: "aixos_handle_t \<Rightarrow> u32 \<Rightarrow> aixos_notify_action \<Rightarrow> kstate \<Rightarrow> (int \<times> kstate) option" where
  "notify_common handle v action s =
     (let tcb = aixos_tcb_from_handle handle s
      in if tcb = 0 then Some (AIXOS_ERR_INVAL, s)
      else do {
        t \<leftarrow> tcbs s tcb;
        case notify_value_after action v t of
          Inl e \<Rightarrow> Some (e, s)
        | Inr v' \<Rightarrow> do {
            s \<leftarrow> upd_tcb tcb (\<lambda>t. t\<lparr>t_notify_value := v', t_notify_pending := True\<rparr>) s;
            s \<leftarrow> (if t_state t = AIXOS_TASK_BLOCKED \<and> t_wait_type t = AIXOS_OBJ_TASK \<and> t_wait_obj t = KTask tcb
                  then aixos_task_wake tcb AIXOS_OK s else Some s);
            Some (AIXOS_OK, s)
          }
      })"

definition aixos_task_notify :: "aixos_handle_t \<Rightarrow> u32 \<Rightarrow> aixos_notify_action \<Rightarrow> kstate \<Rightarrow> (int \<times> kstate) option" where
  "aixos_task_notify task v action s =
     (if in_isr s then Some (AIXOS_ERR_CONTEXT, s) else notify_common task v action s)"

definition aixos_task_notify_from_isr ::
  "aixos_handle_t \<Rightarrow> u32 \<Rightarrow> aixos_notify_action \<Rightarrow> kstate \<Rightarrow> (int \<times> kstate) option" where
  "aixos_task_notify_from_isr task v action s =
     (if \<not> in_isr s then Some (AIXOS_ERR_CONTEXT, s) else notify_common task v action s)"

text \<open>The end of \<open>aixos_task_notify_wait\<close>: the value is read and consumed.\<close>

definition notify_consume :: "u32 \<Rightarrow> kstate \<Rightarrow> ((int \<times> u32 option) outcome \<times> kstate) option" where
  "notify_consume clear_on_exit s = do {
     t \<leftarrow> tcbs s (cur_task s);
     s \<leftarrow> upd_tcb (cur_task s) (\<lambda>t. t\<lparr>t_notify_value := t_notify_value t AND NOT clear_on_exit,
                                       t_notify_pending := False\<rparr>) s;
     Some (Done (AIXOS_OK, Some (t_notify_value t)), s)
   }"

definition aixos_task_notify_wait ::
  "u32 \<Rightarrow> u32 \<Rightarrow> u32 \<Rightarrow> kstate \<Rightarrow> ((int \<times> u32 option) outcome \<times> kstate) option" where
  "aixos_task_notify_wait clear_on_entry clear_on_exit timeout_ms s =
     (if in_isr s \<or> cur_task s = 0 then Some (Done (AIXOS_ERR_CONTEXT, None), s)
      else do {
        s \<leftarrow> upd_tcb (cur_task s) (\<lambda>t. t\<lparr>t_notify_value := t_notify_value t AND NOT clear_on_entry\<rparr>) s;
        t \<leftarrow> tcbs s (cur_task s);
        if \<not> t_notify_pending t
        then if timeout_ms = 0 then Some (Done (AIXOS_ERR_AGAIN, None), s)
             else do {
               (r, s) \<leftarrow> aixos_task_block_current None (KTask (cur_task s)) AIXOS_OBJ_TASK timeout_ms s;
               Some (case r of Done e \<Rightarrow> Done (e, None) | Blocked \<Rightarrow> Blocked, s)
             }
        else notify_consume clear_on_exit s
      })"

definition notify_wait_resume :: "u32 \<Rightarrow> kstate \<Rightarrow> ((int \<times> u32 option) outcome \<times> kstate) option" where
  "notify_wait_resume clear_on_exit s = do {
     result \<leftarrow> block_result s;
     t \<leftarrow> tcbs s (cur_task s);
     if result \<noteq> AIXOS_OK \<or> t_state t = AIXOS_TASK_BLOCKED then Some (Done (result, None), s)
     else notify_consume clear_on_exit s
   }"

text \<open>What \<open>aixos_task_notify_take\<close> does after the wait it calls has returned.\<close>

definition notify_take_finish ::
  "bool \<Rightarrow> (int \<times> u32 option) outcome \<times> kstate \<Rightarrow> ((int \<times> u32 option) outcome \<times> kstate) option" where
  "notify_take_finish clear_count rs =
     (case rs of
        (Done (r, v), s) \<Rightarrow>
          if r \<noteq> AIXOS_OK then Some (Done (r, v), s)
          else do {
            s \<leftarrow> upd_tcb (cur_task s) (\<lambda>t.
                   if clear_count then t\<lparr>t_notify_value := 0\<rparr>
                   else if t_notify_value t \<noteq> 0
                   then (let t = t\<lparr>t_notify_value := t_notify_value t - 1\<rparr>
                         in if t_notify_value t \<noteq> 0 then t\<lparr>t_notify_pending := True\<rparr> else t)
                   else t) s;
            Some (Done (AIXOS_OK, v), s)
          }
      | (Blocked, s) \<Rightarrow> Some (Blocked, s))"

definition aixos_task_notify_take :: "bool \<Rightarrow> u32 \<Rightarrow> kstate \<Rightarrow> ((int \<times> u32 option) outcome \<times> kstate) option" where
  "aixos_task_notify_take clear_count timeout_ms s =
     Option.bind (aixos_task_notify_wait 0 0 timeout_ms s) (notify_take_finish clear_count)"

definition notify_take_resume :: "bool \<Rightarrow> kstate \<Rightarrow> ((int \<times> u32 option) outcome \<times> kstate) option" where
  "notify_take_resume clear_count s = Option.bind (notify_wait_resume 0 s) (notify_take_finish clear_count)"

end
