(* ===== verification/Mq.thy ===== *)
theory Mq
  imports Task
begin

text \<open>
  \<^verbatim>\<open>kernel/ipc/mq.c\<close>: message queues, rings of fixed-size cells with a length and a priority per cell,
  stored in memory. A caller's message is passed as its bytes (\<open>None\<close> for a null pointer), a
  received message is returned as its bytes. \<open>mq_send_resume\<close> and \<open>mq_recv_resume\<close> are the
  continuations of calls that blocked.
\<close>

definition mq_from_handle :: "aixos_handle_t \<Rightarrow> kstate \<Rightarrow> nat option" where
  "mq_from_handle handle s = (case k_lookup handle AIXOS_OBJ_MQ s of KMq i \<Rightarrow> Some i | _ \<Rightarrow> None)"

definition set_mq :: "nat \<Rightarrow> aixos_mq_t \<Rightarrow> kstate \<Rightarrow> kstate" where
  "set_mq i x s = s\<lparr>mq_pool := (mq_pool s)[i := x]\<rparr>"

section \<open>Creation\<close>

definition mq_sizes_bad :: "u32 \<Rightarrow> u32 \<Rightarrow> bool" where
  "mq_sizes_bad max_msgs msg_size =
     (max_msgs = 0 \<or> msg_size = 0 \<or> msg_size > of_nat AIXOS_CFG_MAX_IPC_COPY_BYTES \<or>
      max_msgs > UINT32_MAX div msg_size \<or> max_msgs > UINT32_MAX div 4)"

definition mq_create_common ::
  "u32 \<Rightarrow> u32 \<Rightarrow> u32 \<Rightarrow> u32 \<Rightarrow> u32 \<Rightarrow> bool \<Rightarrow> kstate \<Rightarrow> (aixos_handle_t \<times> kstate) option" where
  "mq_create_common max_msgs msg_size buffer lengths priorities owns_buffers s =
     (if in_isr s \<or> mq_sizes_bad max_msgs msg_size \<or> buffer = 0 \<or> lengths = 0
      then Some (AIXOS_HANDLE_INVALID, s)
      else case find_index (\<lambda>x. mq_handle x = 0) (mq_pool s) 0 of
        None \<Rightarrow> Some (AIXOS_HANDLE_INVALID, s)
      | Some i \<Rightarrow> do {
          (slot, s) \<leftarrow> k_slot_alloc AIXOS_POOL_MQ (KMq i) s;
          if slot < 0 then Some (AIXOS_HANDLE_INVALID, s)
          else do {
            let handle = aixos_slot_handle AIXOS_POOL_MQ slot (k_obj s);
            s \<leftarrow> Some (k_write lengths (replicate (unat max_msgs * 4) 0) s);
            s \<leftarrow> Some (if priorities \<noteq> 0 then k_write priorities (replicate (unat max_msgs * 4) 0) s else s);
            s \<leftarrow> Some (set_mq i (zero_mq\<lparr>mq_buffer := buffer, mq_lengths := lengths,
                   mq_priorities := priorities, mq_max_msgs := max_msgs, mq_msg_size := msg_size,
                   mq_handle := handle, mq_owns_buffers := owns_buffers\<rparr>) s);
            s \<leftarrow> on_ls (list_init_head (MqSend i)) s;
            s \<leftarrow> on_ls (list_init_head (MqRecv i)) s;
            Some (handle, s)
          }
        })"

text \<open>The three buffers of a dynamic queue, freed together; freeing \<open>NULL\<close> does nothing.\<close>

definition mq_free_buffers :: "u32 \<Rightarrow> u32 \<Rightarrow> u32 \<Rightarrow> kstate \<Rightarrow> kstate" where
  "mq_free_buffers buffer lengths priorities s = k_free priorities (k_free lengths (k_free buffer s))"

definition aixos_mq_create :: "u32 \<Rightarrow> u32 \<Rightarrow> kstate \<Rightarrow> (aixos_handle_t \<times> kstate) option" where
  "aixos_mq_create max_msgs msg_size s =
     (if mq_sizes_bad max_msgs msg_size then Some (AIXOS_HANDLE_INVALID, s)
      else do {
        (buffer, s) \<leftarrow> on_heap (aixos_malloc (in_isr s) (max_msgs * msg_size)) s;
        (lengths, s) \<leftarrow> on_heap (aixos_calloc (in_isr s) max_msgs 4) s;
        (priorities, s) \<leftarrow> on_heap (aixos_calloc (in_isr s) max_msgs 4) s;
        if buffer = 0 \<or> lengths = 0 \<or> priorities = 0
        then Some (AIXOS_HANDLE_INVALID, mq_free_buffers buffer lengths priorities s)
        else do {
          (handle, s) \<leftarrow> mq_create_common max_msgs msg_size buffer lengths priorities True s;
          Some (handle, if handle = AIXOS_HANDLE_INVALID then mq_free_buffers buffer lengths priorities s else s)
        }
      })"

definition aixos_mq_create_static :: "u32 \<Rightarrow> u32 \<Rightarrow> u32 \<Rightarrow> u32 \<Rightarrow> kstate \<Rightarrow> (aixos_handle_t \<times> kstate) option" where
  "aixos_mq_create_static max_msgs msg_size buffer lengths s =
     mq_create_common max_msgs msg_size buffer lengths 0 False s"

section \<open>Cells\<close>

definition mq_cell :: "aixos_mq_t \<Rightarrow> u32 \<Rightarrow> u32" where
  "mq_cell q index = mq_buffer q + index * mq_msg_size q"

definition mq_length :: "aixos_mq_t \<Rightarrow> u32 \<Rightarrow> kstate \<Rightarrow> u32" where
  "mq_length q index s = k_read_u32 (mq_lengths q + 4 * index) s"

definition mq_priority :: "aixos_mq_t \<Rightarrow> u32 \<Rightarrow> kstate \<Rightarrow> u32" where
  "mq_priority q index s = k_read_u32 (mq_priorities q + 4 * index) s"

text \<open>\<open>(queue->head + logical) % queue->max_msgs\<close>\<close>

definition mq_index :: "aixos_mq_t \<Rightarrow> nat \<Rightarrow> u32" where
  "mq_index q logical = (mq_head q + of_nat logical) mod mq_max_msgs q"

fun mq_find_insert :: "aixos_mq_t \<Rightarrow> u32 \<Rightarrow> nat list \<Rightarrow> nat \<Rightarrow> kstate \<Rightarrow> nat" where
  "mq_find_insert q priority [] ins s = ins"
| "mq_find_insert q priority (logical # ls) ins s =
     (if mq_priority q (mq_index q logical) s < priority then logical
      else mq_find_insert q priority ls ins s)"

text \<open>Moving the cell before \<open>logical\<close> up by one, for \<open>logical\<close> from \<open>count\<close> down to \<open>ins + 1\<close>.\<close>

definition mq_shift_cell :: "aixos_mq_t \<Rightarrow> nat \<Rightarrow> kstate \<Rightarrow> kstate" where
  "mq_shift_cell q logical s =
     (let destination = mq_index q logical; source = mq_index q (logical - 1);
          s = k_write (mq_cell q destination) (k_read (mq_cell q source) (unat (mq_msg_size q)) s) s;
          s = k_write_u32 (mq_lengths q + 4 * destination) (mq_length q source s) s
      in if mq_priorities q \<noteq> 0
         then k_write_u32 (mq_priorities q + 4 * destination) (mq_priority q source s) s else s)"

section \<open>Sending\<close>

definition mq_wake_first :: "lhead \<Rightarrow> kstate \<Rightarrow> kstate option" where
  "mq_wake_first h s =
     (if \<not> head_empty h s then do { tcb \<leftarrow> first_task h s; aixos_task_wake tcb AIXOS_OK s } else Some s)"

definition mq_store :: "nat \<Rightarrow> u8 list \<Rightarrow> u32 \<Rightarrow> bool \<Rightarrow> kstate \<Rightarrow> (int \<times> kstate) option" where
  "mq_store i message priority from_isr s =
     (let q = mq_pool s ! i; count = unat (mq_count q)
      in if mq_priorities q = 0 \<and> priority \<noteq> 0 then Some (AIXOS_ERR_INVAL, s)
      else if from_isr \<and> priority \<noteq> 0 \<and> mq_count q > AIXOS_CFG_ISR_MQ_SHIFT_MAX then Some (AIXOS_ERR_BUSY, s)
      else let ins = (if mq_priorities q \<noteq> 0 \<and> priority \<noteq> 0
                         then mq_find_insert q priority [0..<count] count s else count);
               s = fold (mq_shift_cell q) (rev [ins + 1..<count + 1]) s;
               tail = mq_index q ins;
               s = k_write (mq_cell q tail) message s;
               s = k_write_u32 (mq_lengths q + 4 * tail) (of_nat (length message)) s;
               s = (if mq_priorities q \<noteq> 0 then k_write_u32 (mq_priorities q + 4 * tail) priority s else s);
               s = set_mq i (q\<lparr>mq_tail := (tail + 1) mod mq_max_msgs q, mq_count := mq_count q + 1\<rparr>) s
           in do { s \<leftarrow> mq_wake_first (MqRecv i) s; Some (AIXOS_OK, s) })"

text \<open>One turn of the \<open>while\<close> loop, or the end of the call.\<close>

definition mq_send_turn :: "nat \<Rightarrow> u8 list \<Rightarrow> u32 \<Rightarrow> u32 \<Rightarrow> bool \<Rightarrow> kstate \<Rightarrow> (int outcome \<times> kstate) option" where
  "mq_send_turn i message priority remaining from_isr s =
     (let q = mq_pool s ! i
      in if mq_count q = mq_max_msgs q
         then if from_isr \<or> remaining = 0 then Some (Done AIXOS_ERR_BUSY, s)
              else aixos_task_block_current (Some (MqSend i)) (KMq i) AIXOS_OBJ_MQ remaining s
         else map_option (\<lambda>(r, s). (Done r, s)) (mq_store i message priority from_isr s))"

definition mq_send_common ::
  "aixos_handle_t \<Rightarrow> u8 list option \<Rightarrow> u32 \<Rightarrow> u32 \<Rightarrow> bool \<Rightarrow> kstate \<Rightarrow> (int outcome \<times> kstate) option" where
  "mq_send_common handle message priority timeout_ms from_isr s =
     (case message of
        None \<Rightarrow> Some (Done (if from_isr then AIXOS_ERR_CONTEXT else AIXOS_ERR_INVAL), s)
      | Some bytes \<Rightarrow>
          if priority > AIXOS_CFG_MQ_PRIORITY_MAX \<or> in_isr s \<noteq> from_isr
          then Some (Done (if from_isr then AIXOS_ERR_CONTEXT else AIXOS_ERR_INVAL), s)
          else if from_isr \<and> length bytes > AIXOS_CFG_ISR_COPY_MAX_BYTES then Some (Done AIXOS_ERR_INVAL, s)
          else case mq_from_handle handle s of
            None \<Rightarrow> Some (Done AIXOS_ERR_INVAL, s)
          | Some i \<Rightarrow>
              if length bytes > unat (mq_msg_size (mq_pool s ! i)) then Some (Done AIXOS_ERR_INVAL, s)
              else mq_send_turn i bytes priority timeout_ms from_isr s)"

definition mq_send_resume ::
  "aixos_handle_t \<Rightarrow> u8 list \<Rightarrow> u32 \<Rightarrow> u32 \<Rightarrow> u32 \<Rightarrow> kstate \<Rightarrow> (int outcome \<times> kstate) option" where
  "mq_send_resume handle message priority start_tick timeout_ms s = do {
     result \<leftarrow> block_result s;
     if result \<noteq> AIXOS_OK then Some (Done result, s)
     else case mq_from_handle handle s of
       None \<Rightarrow> Some (Done AIXOS_ERR_INVAL, s)
     | Some i \<Rightarrow> mq_send_turn i message priority (aixos_timeout_remaining_ms start_tick timeout_ms s) False s
   }"

definition aixos_mq_send ::
  "aixos_handle_t \<Rightarrow> u8 list option \<Rightarrow> u32 \<Rightarrow> kstate \<Rightarrow> (int outcome \<times> kstate) option" where
  "aixos_mq_send handle message timeout_ms s =
     (if in_isr s then Some (Done AIXOS_ERR_CONTEXT, s) else mq_send_common handle message 0 timeout_ms False s)"

definition aixos_mq_send_priority ::
  "aixos_handle_t \<Rightarrow> u8 list option \<Rightarrow> u32 \<Rightarrow> u32 \<Rightarrow> kstate \<Rightarrow> (int outcome \<times> kstate) option" where
  "aixos_mq_send_priority handle message priority timeout_ms s =
     (if in_isr s then Some (Done AIXOS_ERR_CONTEXT, s)
      else mq_send_common handle message priority timeout_ms False s)"

definition aixos_mq_send_from_isr :: "aixos_handle_t \<Rightarrow> u8 list option \<Rightarrow> kstate \<Rightarrow> (int outcome \<times> kstate) option" where
  "aixos_mq_send_from_isr handle message s =
     (if \<not> in_isr s then Some (Done AIXOS_ERR_CONTEXT, s) else mq_send_common handle message 0 0 True s)"

section \<open>Receiving\<close>

text \<open>What a receive writes: the size (also when the buffer is too small), the bytes, the priority.\<close>

record mq_received =
  rx_size :: "u32 option"
  rx_bytes :: "u8 list"
  rx_priority :: u32

definition rx_nothing :: mq_received where
  "rx_nothing = \<lparr>rx_size = None, rx_bytes = [], rx_priority = 0\<rparr>"

definition mq_take :: "nat \<Rightarrow> u32 \<Rightarrow> kstate \<Rightarrow> ((int \<times> mq_received) \<times> kstate) option" where
  "mq_take i capacity s =
     (let q = mq_pool s ! i; message_size = mq_length q (mq_head q) s
      in if message_size > capacity then Some ((AIXOS_ERR_OVERFLOW, rx_nothing\<lparr>rx_size := Some message_size\<rparr>), s)
         else let bytes = k_read (mq_cell q (mq_head q)) (unat message_size) s;
                  priority = (if mq_priorities q \<noteq> 0 then mq_priority q (mq_head q) s else 0);
                  s = set_mq i (q\<lparr>mq_head := (mq_head q + 1) mod mq_max_msgs q, mq_count := mq_count q - 1\<rparr>) s
              in do {
                s \<leftarrow> mq_wake_first (MqSend i) s;
                Some ((AIXOS_OK, \<lparr>rx_size = Some message_size, rx_bytes = bytes, rx_priority = priority\<rparr>), s)
              })"

definition mq_recv_turn :: "nat \<Rightarrow> u32 \<Rightarrow> u32 \<Rightarrow> kstate \<Rightarrow> ((int \<times> mq_received) outcome \<times> kstate) option" where
  "mq_recv_turn i capacity remaining s =
     (let q = mq_pool s ! i
      in if mq_count q = 0
         then if remaining = 0 then Some (Done (AIXOS_ERR_AGAIN, rx_nothing), s)
              else do {
                (r, s) \<leftarrow> aixos_task_block_current (Some (MqRecv i)) (KMq i) AIXOS_OBJ_MQ remaining s;
                Some (case r of Done e \<Rightarrow> Done (e, rx_nothing) | Blocked \<Rightarrow> Blocked, s)
              }
         else map_option (\<lambda>(r, s). (Done r, s)) (mq_take i capacity s))"

definition aixos_mq_recv_priority ::
  "aixos_handle_t \<Rightarrow> u32 \<Rightarrow> u32 \<Rightarrow> kstate \<Rightarrow> ((int \<times> mq_received) outcome \<times> kstate) option" where
  "aixos_mq_recv_priority handle capacity timeout_ms s =
     (if in_isr s then Some (Done (AIXOS_ERR_CONTEXT, rx_nothing), s)
      else case mq_from_handle handle s of
        None \<Rightarrow> Some (Done (AIXOS_ERR_INVAL, rx_nothing), s)
      | Some i \<Rightarrow> mq_recv_turn i capacity timeout_ms s)"

definition mq_recv_resume ::
  "aixos_handle_t \<Rightarrow> u32 \<Rightarrow> u32 \<Rightarrow> u32 \<Rightarrow> kstate \<Rightarrow> ((int \<times> mq_received) outcome \<times> kstate) option" where
  "mq_recv_resume handle capacity start_tick timeout_ms s = do {
     result \<leftarrow> block_result s;
     if result \<noteq> AIXOS_OK then Some (Done (result, rx_nothing), s)
     else case mq_from_handle handle s of
       None \<Rightarrow> Some (Done (AIXOS_ERR_INVAL, rx_nothing), s)
     | Some i \<Rightarrow> mq_recv_turn i capacity (aixos_timeout_remaining_ms start_tick timeout_ms s) s
   }"

definition aixos_mq_recv ::
  "aixos_handle_t \<Rightarrow> u32 \<Rightarrow> u32 \<Rightarrow> kstate \<Rightarrow> ((int \<times> mq_received) outcome \<times> kstate) option" where
  "aixos_mq_recv handle capacity timeout_ms s = aixos_mq_recv_priority handle capacity timeout_ms s"

section \<open>Information and deletion\<close>

definition aixos_mq_get_info :: "aixos_handle_t \<Rightarrow> kstate \<Rightarrow> int \<times> (u32 \<times> u32 \<times> u32) option" where
  "aixos_mq_get_info handle s =
     (case mq_from_handle handle s of
        None \<Rightarrow> (AIXOS_ERR_INVAL, None)
      | Some i \<Rightarrow> let q = mq_pool s ! i in (AIXOS_OK, Some (mq_max_msgs q, mq_msg_size q, mq_count q)))"

definition aixos_mq_delete :: "aixos_handle_t \<Rightarrow> kstate \<Rightarrow> (int \<times> kstate) option" where
  "aixos_mq_delete handle s =
     (if in_isr s then Some (AIXOS_ERR_CONTEXT, s)
      else case mq_from_handle handle s of
        None \<Rightarrow> Some (AIXOS_ERR_INVAL, s)
      | Some i \<Rightarrow>
          if \<not> head_empty (MqSend i) s \<or> \<not> head_empty (MqRecv i) s then Some (AIXOS_ERR_BUSY, s)
          else do {
            let q = mq_pool s ! i;
            s \<leftarrow> Some (k_slot_free AIXOS_POOL_MQ handle s);
            s \<leftarrow> Some (set_mq i zero_mq s);
            s \<leftarrow> on_ls (list_zero_head (MqSend i)) s;
            s \<leftarrow> on_ls (list_zero_head (MqRecv i)) s;
            Some (AIXOS_OK, if mq_owns_buffers q
                            then mq_free_buffers (mq_buffer q) (mq_lengths q) (mq_priorities q) s else s)
          })"

end
