(* ===== verification/Pipe.thy ===== *)
theory Pipe
  imports Task
begin

text \<open>
  \<^verbatim>\<open>kernel/ipc/pipe.c\<close>: byte pipes, rings of bytes in memory. Data is passed as in \<open>Mq\<close>; a successful
  call returns the number of bytes it moved.
\<close>

definition pipe_from_handle :: "aixos_handle_t \<Rightarrow> kstate \<Rightarrow> nat option" where
  "pipe_from_handle handle s = (case k_lookup handle AIXOS_OBJ_PIPE s of KPipe i \<Rightarrow> Some i | _ \<Rightarrow> None)"

definition set_pipe :: "nat \<Rightarrow> aixos_pipe_t \<Rightarrow> kstate \<Rightarrow> kstate" where
  "set_pipe i x s = s\<lparr>pipe_pool := (pipe_pool s)[i := x]\<rparr>"

definition pipe_create_common :: "u32 \<Rightarrow> u32 \<Rightarrow> bool \<Rightarrow> kstate \<Rightarrow> (aixos_handle_t \<times> kstate) option" where
  "pipe_create_common buffer sz owns_buffer s =
     (if in_isr s \<or> buffer = 0 \<or> sz = 0 then Some (AIXOS_HANDLE_INVALID, s)
      else case find_index (\<lambda>x. pp_handle x = 0) (pipe_pool s) 0 of
        None \<Rightarrow> Some (AIXOS_HANDLE_INVALID, s)
      | Some i \<Rightarrow> do {
          (slot, s) \<leftarrow> k_slot_alloc AIXOS_POOL_PIPE (KPipe i) s;
          if slot < 0 then Some (AIXOS_HANDLE_INVALID, s)
          else do {
            let handle = aixos_slot_handle AIXOS_POOL_PIPE slot (k_obj s);
            s \<leftarrow> Some (set_pipe i (zero_pipe\<lparr>pp_buffer := buffer, pp_size := sz, pp_handle := handle,
                                      pp_owns_buffer := owns_buffer\<rparr>) s);
            s \<leftarrow> on_ls (list_init_head (PipeRead i)) s;
            s \<leftarrow> on_ls (list_init_head (PipeWrite i)) s;
            Some (handle, s)
          }
        })"

definition aixos_pipe_create :: "u32 \<Rightarrow> kstate \<Rightarrow> (aixos_handle_t \<times> kstate) option" where
  "aixos_pipe_create sz s =
     (if sz = 0 then Some (AIXOS_HANDLE_INVALID, s)
      else do {
        (buffer, s) \<leftarrow> on_heap (aixos_malloc (in_isr s) sz) s;
        if buffer = 0 then Some (AIXOS_HANDLE_INVALID, s)
        else do {
          (handle, s) \<leftarrow> pipe_create_common buffer sz True s;
          Some (handle, if handle = AIXOS_HANDLE_INVALID then k_free buffer s else s)
        }
      })"

definition aixos_pipe_create_static :: "u32 \<Rightarrow> u32 \<Rightarrow> kstate \<Rightarrow> (aixos_handle_t \<times> kstate) option" where
  "aixos_pipe_create_static buffer sz s = pipe_create_common buffer sz False s"

section \<open>Writing\<close>

definition pipe_wake_first :: "lhead \<Rightarrow> kstate \<Rightarrow> kstate option" where
  "pipe_wake_first h s = do { tcb \<leftarrow> first_task h s; aixos_task_wake tcb AIXOS_OK s }"

definition pipe_store :: "nat \<Rightarrow> u8 list \<Rightarrow> kstate \<Rightarrow> (int \<times> kstate) option" where
  "pipe_store i data s =
     (let p = pipe_pool s ! i;
          writable = pp_size p - pp_count p;
          len = (if of_nat (length data) > writable then writable else of_nat (length data));
          first = pp_size p - pp_tail p;
          first = (if first > len then len else first);
          s = k_write (pp_buffer p + pp_tail p) (take (unat first) data) s;
          s = k_write (pp_buffer p) (take (unat (len - first)) (drop (unat first) data)) s;
          s = set_pipe i (p\<lparr>pp_tail := (pp_tail p + len) mod pp_size p, pp_count := pp_count p + len\<rparr>) s
      in do {
        s \<leftarrow> (if len \<noteq> 0 \<and> \<not> head_empty (PipeRead i) s then pipe_wake_first (PipeRead i) s else Some s);
        Some (uint len, s)
      })"

definition pipe_write_turn :: "nat \<Rightarrow> u8 list \<Rightarrow> u32 \<Rightarrow> bool \<Rightarrow> kstate \<Rightarrow> (int outcome \<times> kstate) option" where
  "pipe_write_turn i data remaining from_isr s =
     (let p = pipe_pool s ! i
      in if pp_size p - pp_count p = 0
         then if from_isr \<or> remaining = 0 then Some (Done 0, s)
              else aixos_task_block_current (Some (PipeWrite i)) (KPipe i) AIXOS_OBJ_PIPE remaining s
         else map_option (\<lambda>(r, s). (Done r, s)) (pipe_store i data s))"

text \<open>The argument checks that writing and reading share; \<open>None\<close> means they pass.\<close>

definition pipe_args_error :: "bool \<Rightarrow> nat \<Rightarrow> bool \<Rightarrow> kstate \<Rightarrow> int option" where
  "pipe_args_error null len from_isr s =
     (if null \<or> len > AIXOS_CFG_MAX_IPC_COPY_BYTES then Some AIXOS_ERR_INVAL
      else if from_isr \<and> len > AIXOS_CFG_ISR_COPY_MAX_BYTES then Some AIXOS_ERR_INVAL
      else if in_isr s \<noteq> from_isr then Some AIXOS_ERR_CONTEXT
      else None)"

definition pipe_write_common ::
  "aixos_handle_t \<Rightarrow> u8 list option \<Rightarrow> u32 \<Rightarrow> bool \<Rightarrow> kstate \<Rightarrow> (int outcome \<times> kstate) option" where
  "pipe_write_common handle data timeout_ms from_isr s =
     (let bytes = (case data of Some bs \<Rightarrow> bs | None \<Rightarrow> [])
      in case pipe_args_error (data = None) (length bytes) from_isr s of
        Some e \<Rightarrow> Some (Done e, s)
      | None \<Rightarrow>
          (case pipe_from_handle handle s of
             None \<Rightarrow> Some (Done AIXOS_ERR_INVAL, s)
           | Some i \<Rightarrow> pipe_write_turn i bytes timeout_ms from_isr s))"

definition pipe_write_resume ::
  "aixos_handle_t \<Rightarrow> u8 list \<Rightarrow> u32 \<Rightarrow> u32 \<Rightarrow> kstate \<Rightarrow> (int outcome \<times> kstate) option" where
  "pipe_write_resume handle data start_tick timeout_ms s = do {
     result \<leftarrow> block_result s;
     if result \<noteq> AIXOS_OK then Some (Done result, s)
     else case pipe_from_handle handle s of
       None \<Rightarrow> Some (Done AIXOS_ERR_INVAL, s)
     | Some i \<Rightarrow> pipe_write_turn i data (aixos_timeout_remaining_ms start_tick timeout_ms s) False s
   }"

section \<open>Reading\<close>

definition pipe_fetch :: "nat \<Rightarrow> u32 \<Rightarrow> kstate \<Rightarrow> ((int \<times> u8 list) \<times> kstate) option" where
  "pipe_fetch i requested s =
     (let p = pipe_pool s ! i;
          len = (if requested > pp_count p then pp_count p else requested);
          first = pp_size p - pp_head p;
          first = (if first > len then len else first);
          bytes = k_read (pp_buffer p + pp_head p) (unat first) s @ k_read (pp_buffer p) (unat (len - first)) s;
          s = set_pipe i (p\<lparr>pp_head := (pp_head p + len) mod pp_size p, pp_count := pp_count p - len\<rparr>) s
      in do {
        s \<leftarrow> (if len \<noteq> 0 \<and> \<not> head_empty (PipeWrite i) s then pipe_wake_first (PipeWrite i) s else Some s);
        Some ((uint len, bytes), s)
      })"

definition pipe_read_turn :: "nat \<Rightarrow> u32 \<Rightarrow> u32 \<Rightarrow> bool \<Rightarrow> kstate \<Rightarrow> ((int \<times> u8 list) outcome \<times> kstate) option" where
  "pipe_read_turn i requested remaining from_isr s =
     (let p = pipe_pool s ! i
      in if pp_count p = 0
         then if from_isr \<or> remaining = 0 then Some (Done (0, []), s)
              else do {
                (r, s) \<leftarrow> aixos_task_block_current (Some (PipeRead i)) (KPipe i) AIXOS_OBJ_PIPE remaining s;
                Some (case r of Done e \<Rightarrow> Done (e, []) | Blocked \<Rightarrow> Blocked, s)
              }
         else map_option (\<lambda>(r, s). (Done r, s)) (pipe_fetch i requested s))"

definition pipe_read_common ::
  "aixos_handle_t \<Rightarrow> bool \<Rightarrow> u32 \<Rightarrow> u32 \<Rightarrow> bool \<Rightarrow> kstate \<Rightarrow> ((int \<times> u8 list) outcome \<times> kstate) option" where
  "pipe_read_common handle buffer_null requested timeout_ms from_isr s =
     (case pipe_args_error buffer_null (unat requested) from_isr s of
        Some e \<Rightarrow> Some (Done (e, []), s)
      | None \<Rightarrow>
          (case pipe_from_handle handle s of
             None \<Rightarrow> Some (Done (AIXOS_ERR_INVAL, []), s)
           | Some i \<Rightarrow> pipe_read_turn i requested timeout_ms from_isr s))"

definition pipe_read_resume ::
  "aixos_handle_t \<Rightarrow> u32 \<Rightarrow> u32 \<Rightarrow> u32 \<Rightarrow> kstate \<Rightarrow> ((int \<times> u8 list) outcome \<times> kstate) option" where
  "pipe_read_resume handle requested start_tick timeout_ms s = do {
     result \<leftarrow> block_result s;
     if result \<noteq> AIXOS_OK then Some (Done (result, []), s)
     else case pipe_from_handle handle s of
       None \<Rightarrow> Some (Done (AIXOS_ERR_INVAL, []), s)
     | Some i \<Rightarrow> pipe_read_turn i requested (aixos_timeout_remaining_ms start_tick timeout_ms s) False s
   }"

section \<open>API\<close>

definition aixos_pipe_write ::
  "aixos_handle_t \<Rightarrow> u8 list option \<Rightarrow> u32 \<Rightarrow> kstate \<Rightarrow> (int outcome \<times> kstate) option" where
  "aixos_pipe_write handle data timeout_ms s =
     (if in_isr s then Some (Done AIXOS_ERR_CONTEXT, s) else pipe_write_common handle data timeout_ms False s)"

definition aixos_pipe_read ::
  "aixos_handle_t \<Rightarrow> bool \<Rightarrow> u32 \<Rightarrow> u32 \<Rightarrow> kstate \<Rightarrow> ((int \<times> u8 list) outcome \<times> kstate) option" where
  "aixos_pipe_read handle buffer_null requested timeout_ms s =
     (if in_isr s then Some (Done (AIXOS_ERR_CONTEXT, []), s)
      else pipe_read_common handle buffer_null requested timeout_ms False s)"

definition aixos_pipe_write_from_isr ::
  "aixos_handle_t \<Rightarrow> u8 list option \<Rightarrow> kstate \<Rightarrow> (int outcome \<times> kstate) option" where
  "aixos_pipe_write_from_isr handle data s =
     (if \<not> in_isr s then Some (Done AIXOS_ERR_CONTEXT, s) else pipe_write_common handle data 0 True s)"

definition aixos_pipe_delete :: "aixos_handle_t \<Rightarrow> kstate \<Rightarrow> (int \<times> kstate) option" where
  "aixos_pipe_delete handle s =
     (if in_isr s then Some (AIXOS_ERR_CONTEXT, s)
      else case pipe_from_handle handle s of
        None \<Rightarrow> Some (AIXOS_ERR_INVAL, s)
      | Some i \<Rightarrow>
          if \<not> head_empty (PipeRead i) s \<or> \<not> head_empty (PipeWrite i) s then Some (AIXOS_ERR_BUSY, s)
          else do {
            let p = pipe_pool s ! i;
            s \<leftarrow> Some (k_slot_free AIXOS_POOL_PIPE handle s);
            s \<leftarrow> Some (set_pipe i zero_pipe s);
            s \<leftarrow> on_ls (list_zero_head (PipeRead i)) s;
            s \<leftarrow> on_ls (list_zero_head (PipeWrite i)) s;
            Some (AIXOS_OK, if pp_owns_buffer p then k_free (pp_buffer p) s else s)
          })"

end
