(* ===== verification/Timer.thy ===== *)
theory Timer
  imports Task
begin

text \<open>
  \<^verbatim>\<open>kernel/timer.c\<close>: software timers. Running timers are queued by deadline; the tick moves expired ones
  to the pending queue and wakes the service task, which calls the callbacks outside interrupt
  context. The effect of a callback is an argument of \<open>aixos_timer_dispatch\<close>.
\<close>

definition timer_from_handle :: "aixos_handle_t \<Rightarrow> kstate \<Rightarrow> nat option" where
  "timer_from_handle handle s = (case k_lookup handle AIXOS_OBJ_TIMER s of KTimer i \<Rightarrow> Some i | _ \<Rightarrow> None)"

definition set_timer :: "nat \<Rightarrow> aixos_timer_inner_t \<Rightarrow> kstate \<Rightarrow> kstate" where
  "set_timer i x s = s\<lparr>timer_pool := (timer_pool s)[i := x]\<rparr>"

definition active_insert :: "nat \<Rightarrow> kstate \<Rightarrow> kstate option" where
  "active_insert i s =
     insert_sorted (\<lambda>n. do { q \<leftarrow> node_object n;
                             Some (sint (tm_deadline (timer_pool s ! i) - tm_deadline (timer_pool s ! q)) < 0) })
       (ActiveN i) ActiveTimers s"

fun timer_init_loop :: "nat list \<Rightarrow> kstate \<Rightarrow> kstate option" where
  "timer_init_loop [] s = Some s"
| "timer_init_loop (i # is) s = do {
     s \<leftarrow> on_ls (list_init_node (ActiveN i)) (set_timer i zero_timer s);
     s \<leftarrow> on_ls (list_init_node (PendingN i)) s;
     timer_init_loop is s
   }"

definition aixos_timer_init :: "kstate \<Rightarrow> kstate option" where
  "aixos_timer_init s = do {
     s \<leftarrow> on_ls (list_init_head ActiveTimers) s;
     s \<leftarrow> on_ls (list_init_head PendingTimers) s;
     s \<leftarrow> on_ls (list_init_head ServiceWaiters) s;
     timer_init_loop [0..<AIXOS_CFG_MAX_TIMER] s
   }"

text \<open>Both values of the type are valid, so the C check of \<open>type\<close> always passes.\<close>

definition aixos_timer_create ::
  "string option \<Rightarrow> aixos_timer_type \<Rightarrow> u32 \<Rightarrow> u32 \<Rightarrow> kstate \<Rightarrow> (aixos_handle_t \<times> kstate) option" where
  "aixos_timer_create name type callback arg s =
     (if in_isr s \<or> callback = 0 then Some (AIXOS_HANDLE_INVALID, s)
      else case find_index (\<lambda>x. tm_handle x = 0) (timer_pool s) 0 of
        None \<Rightarrow> Some (AIXOS_HANDLE_INVALID, s)
      | Some i \<Rightarrow> do {
          (slot, s) \<leftarrow> k_slot_alloc AIXOS_POOL_TIMER (KTimer i) s;
          if slot < 0 then Some (AIXOS_HANDLE_INVALID, s)
          else do {
            let handle = aixos_slot_handle AIXOS_POOL_TIMER slot (k_obj s);
            s \<leftarrow> on_ls (list_init_node (ActiveN i)) s;
            s \<leftarrow> on_ls (list_init_node (PendingN i)) s;
            Some (handle, set_timer i (zero_timer\<lparr>
               tm_name := (case name of Some nm \<Rightarrow> strncpy (tm_name zero_timer) nm 15 | None \<Rightarrow> tm_name zero_timer),
               tm_type := type, tm_callback := callback, tm_arg := arg, tm_handle := handle\<rparr>) s)
          }
        })"

definition aixos_timer_start :: "aixos_handle_t \<Rightarrow> u32 \<Rightarrow> kstate \<Rightarrow> (int \<times> kstate) option" where
  "aixos_timer_start handle interval_ms s =
     (if in_isr s then Some (AIXOS_ERR_CONTEXT, s)
      else let interval = aixos_ms_to_ticks interval_ms
      in if interval_ms = 0 \<or> interval = UINT32_MAX then Some (AIXOS_ERR_INVAL, s)
      else case timer_from_handle handle s of
        None \<Rightarrow> Some (AIXOS_ERR_INVAL, s)
      | Some i \<Rightarrow> do {
          s \<leftarrow> (if tm_active (timer_pool s ! i) then unlink_node (ActiveN i) s else Some s);
          s \<leftarrow> Some (set_timer i ((timer_pool s ! i)\<lparr>tm_interval := interval,
                 tm_deadline := aixos_get_tick s + interval, tm_active := True\<rparr>) s);
          s \<leftarrow> active_insert i s;
          Some (AIXOS_OK, s)
        })"

definition aixos_timer_stop :: "aixos_handle_t \<Rightarrow> kstate \<Rightarrow> (int \<times> kstate) option" where
  "aixos_timer_stop handle s =
     (if in_isr s then Some (AIXOS_ERR_CONTEXT, s)
      else case timer_from_handle handle s of
        None \<Rightarrow> Some (AIXOS_ERR_INVAL, s)
      | Some i \<Rightarrow> do {
          s \<leftarrow> (if tm_active (timer_pool s ! i)
                then do {
                  s \<leftarrow> unlink_node (ActiveN i) s;
                  Some (set_timer i ((timer_pool s ! i)\<lparr>tm_active := False\<rparr>) s)
                }
                else Some s);
          s \<leftarrow> (if tm_pending (timer_pool s ! i)
                then do {
                  s \<leftarrow> unlink_node (PendingN i) s;
                  Some (set_timer i ((timer_pool s ! i)\<lparr>tm_pending := False\<rparr>) s)
                }
                else Some s);
          Some (AIXOS_OK, s)
        })"

definition aixos_timer_delete :: "aixos_handle_t \<Rightarrow> kstate \<Rightarrow> (int \<times> kstate) option" where
  "aixos_timer_delete handle s =
     (if in_isr s then Some (AIXOS_ERR_CONTEXT, s)
      else case timer_from_handle handle s of
        None \<Rightarrow> Some (AIXOS_ERR_INVAL, s)
      | Some i \<Rightarrow> do {
          s \<leftarrow> (if tm_active (timer_pool s ! i) then on_ls (list_del (ActiveN i)) s else Some s);
          s \<leftarrow> (if tm_pending (timer_pool s ! i) then on_ls (list_del (PendingN i)) s else Some s);
          s \<leftarrow> Some (k_slot_free AIXOS_POOL_TIMER handle s);
          s \<leftarrow> Some (set_timer i zero_timer s);
          s \<leftarrow> on_ls (list_init_node (ActiveN i)) s;
          s \<leftarrow> on_ls (list_init_node (PendingN i)) s;
          Some (AIXOS_OK, s)
        })"

section \<open>The tick\<close>

text \<open>\<open>deadline += periods * interval\<close> with the number of periods that have passed.\<close>

definition next_deadline :: "u32 \<Rightarrow> u32 \<Rightarrow> u32 \<Rightarrow> u32" where
  "next_deadline now deadline interval =
     (let late = now - deadline; periods = late div interval + 1 in deadline + periods * interval)"

text \<open>One expired timer: off the active queue, back on it when periodic, and pending.\<close>

definition timer_expire :: "u32 \<Rightarrow> nat \<Rightarrow> kstate \<Rightarrow> kstate option" where
  "timer_expire now i s = do {
     s \<leftarrow> unlink_node (ActiveN i) s;
     let timer = timer_pool s ! i;
     s \<leftarrow> (if tm_type timer = AIXOS_TIMER_PERIODIC
           then active_insert i (set_timer i (timer\<lparr>tm_deadline :=
                  next_deadline now (tm_deadline timer) (tm_interval timer)\<rparr>) s)
           else Some (set_timer i (timer\<lparr>tm_active := False\<rparr>) s));
     if \<not> tm_pending (timer_pool s ! i)
     then on_ls (list_add_tail (PendingN i) PendingTimers)
            (set_timer i ((timer_pool s ! i)\<lparr>tm_pending := True\<rparr>) s)
     else Some s
   }"

text \<open>\<open>while (!aixos_list_is_empty(&active_timers))\<close>; it is proved in \<open>Ktimer\<close> to return.\<close>

partial_function (option) timer_tick_loop :: "u32 \<Rightarrow> kstate \<Rightarrow> kstate option" where
  "timer_tick_loop now s =
     (if head_empty ActiveTimers s then Some s
      else do {
        n \<leftarrow> list_first ActiveTimers (k_ls s);
        i \<leftarrow> node_object n;
        if \<not> tick_reached now (tm_deadline (timer_pool s ! i)) then Some s
        else do { s \<leftarrow> timer_expire now i s; timer_tick_loop now s }
      })"

definition wake_timer_service :: "kstate \<Rightarrow> kstate option" where
  "wake_timer_service s =
     (if \<not> head_empty PendingTimers s \<and> \<not> head_empty ServiceWaiters s
      then do { service \<leftarrow> first_task ServiceWaiters s; aixos_task_wake service AIXOS_OK s }
      else Some s)"

definition aixos_timer_tick :: "u32 \<Rightarrow> kstate \<Rightarrow> kstate option" where
  "aixos_timer_tick now s = do { s \<leftarrow> timer_tick_loop now s; wake_timer_service s }"

section \<open>The service task\<close>

text \<open>The next callback and its argument; \<open>None\<close> when no timer is pending.\<close>

definition timer_next_callback :: "kstate \<Rightarrow> ((u32 \<times> u32) option \<times> kstate) option" where
  "timer_next_callback s =
     (if head_empty PendingTimers s then Some (None, s)
      else do {
        n \<leftarrow> list_first PendingTimers (k_ls s);
        i \<leftarrow> node_object n;
        s \<leftarrow> unlink_node (PendingN i) s;
        let timer = timer_pool s ! i;
        Some (Some (tm_callback timer, tm_arg timer), set_timer i (timer\<lparr>tm_pending := False\<rparr>) s)
      })"

partial_function (option) timer_dispatch_loop ::
  "(u32 \<Rightarrow> u32 \<Rightarrow> kstate \<Rightarrow> kstate option) \<Rightarrow> u32 \<Rightarrow> kstate \<Rightarrow> (u32 \<times> kstate) option" where
  "timer_dispatch_loop run dispatched s =
     Option.bind (timer_next_callback s) (\<lambda>(next, s).
       case next of
         None \<Rightarrow> Some (dispatched, s)
       | Some (callback, arg) \<Rightarrow>
           Option.bind (run callback arg s) (\<lambda>s. timer_dispatch_loop run (dispatched + 1) s))"

definition aixos_timer_dispatch ::
  "(u32 \<Rightarrow> u32 \<Rightarrow> kstate \<Rightarrow> kstate option) \<Rightarrow> kstate \<Rightarrow> (u32 \<times> kstate) option" where
  "aixos_timer_dispatch run s = (if in_isr s then Some (0, s) else timer_dispatch_loop run 0 s)"

text \<open>One turn of the service task: \<open>Done\<close> when it goes around at once, \<open>Blocked\<close> when it waits.\<close>

definition timer_service_turn ::
  "(u32 \<Rightarrow> u32 \<Rightarrow> kstate \<Rightarrow> kstate option) \<Rightarrow> kstate \<Rightarrow> (int outcome \<times> kstate) option" where
  "timer_service_turn run s = do {
     (_, s) \<leftarrow> aixos_timer_dispatch run s;
     if \<not> head_empty PendingTimers s then Some (Done 0, s)
     else aixos_task_block_current (Some ServiceWaiters) KNull AIXOS_OBJ_TIMER UINT32_MAX s
   }"

definition aixos_timer_service_start :: "kstate \<Rightarrow> (int \<times> kstate) option" where
  "aixos_timer_service_start s = do {
     (task, s) \<leftarrow> aixos_task_create (Some ''timer'') (ln_timer_entry (k_link s)) 0 AIXOS_CFG_TIMER_STACK_SIZE
                     AIXOS_CFG_TIMER_TASK_PRIORITY s;
     Some (if task = AIXOS_HANDLE_INVALID then AIXOS_ERR_NOMEM else AIXOS_OK, s)
   }"

end
