(* ===== verification/Timewheel.thy ===== *)
theory Timewheel
  imports Task
begin

text \<open>
  \<^verbatim>\<open>kernel/timewheel.c\<close>: the two-level timing wheel. The tick handler advances it; nothing in the
  kernel inserts into it (timeouts use the sorted queue of \<open>Waiting\<close>). The slot indices
  \<open>current_tick_low\<close> and \<open>current_tick_high\<close> are always below 64 and are kept as naturals.
\<close>

abbreviation (input) AIXOS_CFG_TW_SIZE1 :: nat where "AIXOS_CFG_TW_SIZE1 \<equiv> 64"
abbreviation (input) AIXOS_CFG_TW_SIZE2 :: nat where "AIXOS_CFG_TW_SIZE2 \<equiv> 64"
abbreviation (input) AIXOS_CFG_TW_BITS1 :: nat where "AIXOS_CFG_TW_BITS1 \<equiv> 6"

fun init_heads :: "lhead list \<Rightarrow> kstate \<Rightarrow> kstate option" where
  "init_heads [] s = Some s"
| "init_heads (h # hs) s = do { s \<leftarrow> on_ls (list_init_head h) s; init_heads hs s }"

definition aixos_timing_wheel_init :: "kstate \<Rightarrow> kstate option" where
  "aixos_timing_wheel_init s = do {
     s \<leftarrow> init_heads (map TwL1 [0..<AIXOS_CFG_TW_SIZE1]) s;
     s \<leftarrow> init_heads (map TwL2 [0..<AIXOS_CFG_TW_SIZE2]) s;
     Some (s\<lparr>tw_low := 0, tw_high := 0\<rparr>)
   }"

text \<open>The slot of a second-level entry that is \<open>diff\<close> ticks away.\<close>

definition tw_level2_slot :: "nat \<Rightarrow> u32 \<Rightarrow> nat" where
  "tw_level2_slot high diff =
     (high + unat (drop_bit AIXOS_CFG_TW_BITS1 (diff - of_nat AIXOS_CFG_TW_SIZE1)) mod AIXOS_CFG_TW_SIZE2)
       mod AIXOS_CFG_TW_SIZE2"

definition aixos_timing_wheel_insert :: "u32 \<Rightarrow> u32 \<Rightarrow> kstate \<Rightarrow> kstate option" where
  "aixos_timing_wheel_insert tcb wake_tick s =
     (let diff = wake_tick - aixos_get_tick s
      in if unat diff < AIXOS_CFG_TW_SIZE1
         then on_ls (list_add_tail (TimeoutN tcb) (TwL1 ((tw_low s + unat diff) mod AIXOS_CFG_TW_SIZE1))) s
         else if unat diff < AIXOS_CFG_TW_SIZE1 * AIXOS_CFG_TW_SIZE2
         then on_ls (list_add_tail (TimeoutN tcb) (TwL2 (tw_level2_slot (tw_high s) diff))) s
         else on_ls (list_add_tail (TimeoutN tcb)
                (TwL2 ((tw_high s + AIXOS_CFG_TW_SIZE2 - 1) mod AIXOS_CFG_TW_SIZE2))) s)"

text \<open>\<open>AIXOS_OK\<close> for a sleep that is over, \<open>AIXOS_ERR_TIMEOUT\<close> for a wait.\<close>

definition tw_wake :: "u32 \<Rightarrow> kstate \<Rightarrow> kstate option" where
  "tw_wake tcb s = do {
     t \<leftarrow> tcbs s tcb;
     aixos_task_wake tcb (if t_state t = AIXOS_TASK_DELAYED then AIXOS_OK else AIXOS_ERR_TIMEOUT) s
   }"

fun tw_level1_loop :: "u32 \<Rightarrow> lnode list \<Rightarrow> kstate \<Rightarrow> kstate option" where
  "tw_level1_loop now [] s = Some s"
| "tw_level1_loop now (position # rest) s = do {
     tcb \<leftarrow> node_task position;
     t \<leftarrow> tcbs s tcb;
     s \<leftarrow> (if tick_reached now (t_wake_tick t)
           then do { s \<leftarrow> unlink_node (TimeoutN tcb) s; tw_wake tcb s }
           else Some s);
     tw_level1_loop now rest s
   }"

fun tw_level2_loop :: "u32 \<Rightarrow> lnode list \<Rightarrow> kstate \<Rightarrow> kstate option" where
  "tw_level2_loop now [] s = Some s"
| "tw_level2_loop now (position # rest) s = do {
     tcb \<leftarrow> node_task position;
     t \<leftarrow> tcbs s tcb;
     s \<leftarrow> unlink_node (TimeoutN tcb) s;
     s \<leftarrow> (if tick_reached now (t_wake_tick t) then tw_wake tcb s
           else let remaining = t_wake_tick t - now
                in if unat remaining < AIXOS_CFG_TW_SIZE1
                   then on_ls (list_add_tail (TimeoutN tcb)
                          (TwL1 ((tw_low s + unat remaining - 1) mod AIXOS_CFG_TW_SIZE1))) s
                   else on_ls (list_add_tail (TimeoutN tcb) (TwL2 (tw_level2_slot (tw_high s) remaining))) s);
     tw_level2_loop now rest s
   }"

definition aixos_timing_wheel_tick :: "u32 \<Rightarrow> kstate \<Rightarrow> kstate option" where
  "aixos_timing_wheel_tick now s = do {
     let slot = tw_low s;
     xs \<leftarrow> members (TwL1 slot) s;
     s \<leftarrow> tw_level1_loop now xs s;
     s \<leftarrow> Some (s\<lparr>tw_low := (slot + 1) mod AIXOS_CFG_TW_SIZE1\<rparr>);
     if tw_low s = 0
     then do {
       let high_slot = tw_high s;
       ys \<leftarrow> members (TwL2 high_slot) s;
       s \<leftarrow> tw_level2_loop now ys s;
       Some (s\<lparr>tw_high := (high_slot + 1) mod AIXOS_CFG_TW_SIZE2\<rparr>)
     }
     else Some s
   }"

end
