(* ===== verification/Tick.thy ===== *)
theory Tick
  imports Sem Mutex Event Notify Mq Pipe Timer Timewheel
begin

text \<open>
  What ties the components together: the system tick (\<^verbatim>\<open>kernel/sched.c\<close>), the start of the kernel
  (\<^verbatim>\<open>kernel/task.c\<close>), the initialisation sequence that the example programs use
  (\<^verbatim>\<open>examples/hello_world/main.c\<close>), and the system information of \<^verbatim>\<open>kernel/trace.c\<close>.
\<close>

section \<open>The system tick\<close>

definition tick_account :: "kstate \<Rightarrow> kstate option" where
  "tick_account s =
     (if cur_task s = 0 then Some s
      else do {
        t \<leftarrow> tcbs s (cur_task s);
        s \<leftarrow> upd_tcb (cur_task s) (\<lambda>t. t\<lparr>t_runtime_ticks := t_runtime_ticks t + 1,
               t_time_slice := (if t_time_slice t > 0 then t_time_slice t - 1 else t_time_slice t)\<rparr>) s;
        Some (if t_priority t = AIXOS_CFG_IDLE_PRIORITY then s\<lparr>idle_ticks := idle_ticks s + 1\<rparr> else s)
      })"

definition tick_slice :: "kstate \<Rightarrow> kstate option" where
  "tick_slice s =
     (if cur_task s = 0 then Some s
      else do {
        t \<leftarrow> tcbs s (cur_task s);
        if t_time_slice t = 0
        then do {
          s \<leftarrow> upd_tcb (cur_task s) (\<lambda>t. t\<lparr>t_time_slice := AIXOS_CFG_TIME_SLICE_TICKS\<rparr>) s;
          s \<leftarrow> aixos_sched_rotate_current s;
          Some (reschedule_request s)
        }
        else Some s
      })"

definition aixos_tick_handler :: "kstate \<Rightarrow> kstate option" where
  "aixos_tick_handler s = do {
     s \<leftarrow> Some (s\<lparr>total_ticks := total_ticks s + 1\<rparr>);
     s \<leftarrow> aixos_timing_wheel_tick (aixos_get_tick s) s;
     s \<leftarrow> tick_account s;
     s \<leftarrow> aixos_task_tick (aixos_get_tick s) s;
     s \<leftarrow> aixos_timer_tick (aixos_get_tick s) s;
     tick_slice s
   }"

section \<open>Initialisation and start\<close>

text \<open>The calls that \<open>main\<close> makes before it creates tasks; \<open>heap_base\<close> and \<open>heap_sz\<close> are the
  arguments of \<open>aixos_heap_init\<close>, \<open>default_base\<close> the address of its built-in array.\<close>

definition aixos_namespace_init :: "kstate \<Rightarrow> kstate" where
  "aixos_namespace_init s = s\<lparr>ns_table := replicate AIXOS_CFG_NAMESPACE_MAX zero_ns_entry\<rparr>"

definition kernel_init :: "u32 \<Rightarrow> kstate \<Rightarrow> kstate option" where
  "kernel_init default_base s = do {
     s \<leftarrow> Some (s\<lparr>k_heap := aixos_heap_init default_base 0 0 (k_heap s)\<rparr>);
     s \<leftarrow> Some (s\<lparr>k_obj := aixos_object_init\<rparr>);
     (_, s) \<leftarrow> aixos_task_init s;
     s \<leftarrow> Some (s\<lparr>k_trace := aixos_trace_init\<rparr>);
     s \<leftarrow> aixos_timer_init s;
     s \<leftarrow> Some (aixos_namespace_init s);
     s \<leftarrow> aixos_timing_wheel_init s;
     aixos_sched_init s
   }"

fun start_loop :: "lnode list \<Rightarrow> kstate \<Rightarrow> kstate option" where
  "start_loop [] s = Some s"
| "start_loop (position # rest) s = do {
     tcb \<leftarrow> node_task position;
     t \<leftarrow> tcbs s tcb;
     s \<leftarrow> (if t_state t = AIXOS_TASK_READY then aixos_sched_add_task tcb s else Some s);
     start_loop rest s
   }"

text \<open>\<open>False\<close>: the C code hangs in \<open>for (;;)\<close>, because a system task could not be created.\<close>

definition aixos_start :: "kstate \<Rightarrow> (bool \<times> kstate) option" where
  "aixos_start s = do {
     s \<leftarrow> Some (s\<lparr>system_running := False\<rparr>);
     (idle, s) \<leftarrow> aixos_task_create (Some ''idle'') (ln_idle_entry (k_link s)) 0 (AIXOS_CFG_IDLE_STACK_SIZE * 4)
                     AIXOS_CFG_IDLE_PRIORITY s;
     if idle = AIXOS_HANDLE_INVALID then Some (False, s)
     else do {
       (r, s) \<leftarrow> aixos_timer_service_start s;
       if r \<noteq> AIXOS_OK then Some (False, s)
       else do {
         s \<leftarrow> Some (s\<lparr>k_heap := aixos_heap_lockdown (in_isr s) (k_heap s)\<rparr>);
         xs \<leftarrow> members AllTasks s;
         s \<leftarrow> start_loop xs s;
         s \<leftarrow> Some (s\<lparr>system_running := True\<rparr>);
         s \<leftarrow> aixos_schedule s;
         Some (True, s\<lparr>first_start := True\<rparr>)
       }
     }
   }"

section \<open>The context switch\<close>

text \<open>The PendSV handler: the port saves the context and calls \<open>aixos_schedule\<close>.\<close>

definition context_switch :: "kstate \<Rightarrow> kstate option" where
  "context_switch s = aixos_schedule (s\<lparr>k_switch := False\<rparr>)"

section \<open>System information\<close>

record aixos_sys_info_t =
  si_total_ticks :: u64
  si_idle_ticks :: u64
  si_switch_count :: u64
  si_task_count :: u32
  si_heap_used :: u32
  si_heap_total :: u32
  si_cpu_usage :: u32

definition aixos_sys_info :: "kstate \<Rightarrow> (aixos_sys_info_t \<times> kstate) option" where
  "aixos_sys_info s = do {
     let stats = aixos_sched_stats_snapshot s;
     (memory, s) \<leftarrow> on_heap aixos_mem_info s;
     Some (\<lparr>si_total_ticks = st_total_ticks stats, si_idle_ticks = st_idle_ticks stats,
            si_switch_count = st_switch_count stats, si_task_count = aixos_task_count s,
            si_heap_used = mi_used_bytes memory, si_heap_total = mi_total_bytes memory,
            si_cpu_usage = aixos_cpu_usage_get s\<rparr>, s)
   }"

end
