(* ===== verification/Capability.thy ===== *)
theory Capability
  imports Tick
begin

text \<open>
  The protection part of \<^verbatim>\<open>kernel/microkernel.c\<close>: the capability table of a task, the checks of user
  memory, and the copies between user and kernel memory; and \<^verbatim>\<open>kernel/namespace.c\<close>, which grants
  capabilities by name. A kernel-side copy buffer is a value (a list of bytes).
\<close>

abbreviation (input) AIXOS_CAP_READ :: u16 where "AIXOS_CAP_READ \<equiv> 1"
abbreviation (input) AIXOS_CAP_WRITE :: u16 where "AIXOS_CAP_WRITE \<equiv> 2"
abbreviation (input) AIXOS_CAP_WAIT :: u16 where "AIXOS_CAP_WAIT \<equiv> 4"
abbreviation (input) AIXOS_CAP_SIGNAL :: u16 where "AIXOS_CAP_SIGNAL \<equiv> 8"
abbreviation (input) AIXOS_CAP_CONTROL :: u16 where "AIXOS_CAP_CONTROL \<equiv> 16"

section \<open>Capabilities\<close>

definition cap_grant ::
  "u32 \<Rightarrow> aixos_handle_t \<Rightarrow> aixos_obj_type \<Rightarrow> u16 \<Rightarrow> kstate \<Rightarrow> (int \<times> kstate) option" where
  "cap_grant tcb object ty rights s = do {
     t \<leftarrow> tcbs s tcb;
     case find_index (\<lambda>c. \<not> cap_used c) (t_capabilities t) 0 of
       None \<Rightarrow> Some (AIXOS_ERR_NOMEM, s)
     | Some index \<Rightarrow> do {
         s \<leftarrow> upd_tcb tcb (\<lambda>t. t\<lparr>t_capabilities := (t_capabilities t)[index :=
                \<lparr>cap_object = object, cap_rights = rights, cap_type = ty, cap_used = True\<rparr>]\<rparr>) s;
         Some (int index, s)
       }
   }"

definition cap_grant_direct ::
  "u32 \<Rightarrow> aixos_handle_t \<Rightarrow> aixos_obj_type \<Rightarrow> u16 \<Rightarrow> kstate \<Rightarrow> (int \<times> kstate) option" where
  "cap_grant_direct tcb object ty rights s = cap_grant tcb object ty rights s"

text \<open>The object, or \<open>AIXOS_ERR_PERM\<close>.\<close>

definition cap_resolve ::
  "u32 \<Rightarrow> int \<Rightarrow> aixos_obj_type \<Rightarrow> u16 \<Rightarrow> kstate \<Rightarrow> (int + aixos_handle_t) option" where
  "cap_resolve tcb cap ty rights s =
     (if tcb = 0 \<or> cap < 0 \<or> cap \<ge> int AIXOS_CFG_CAPS_PER_TASK then Some (Inl AIXOS_ERR_PERM)
      else do {
        t \<leftarrow> tcbs s tcb;
        let c = t_capabilities t ! nat cap;
        Some (if \<not> cap_used c \<or> cap_type c \<noteq> ty \<or> cap_rights c AND rights \<noteq> rights
              then Inl AIXOS_ERR_PERM else Inr (cap_object c))
      })"

definition cap_close :: "u32 \<Rightarrow> int \<Rightarrow> kstate \<Rightarrow> (int \<times> kstate) option" where
  "cap_close tcb cap s =
     (if tcb = 0 \<or> cap < 0 \<or> cap \<ge> int AIXOS_CFG_CAPS_PER_TASK then Some (AIXOS_ERR_PERM, s)
      else do {
        t \<leftarrow> tcbs s tcb;
        if \<not> cap_used (t_capabilities t ! nat cap) then Some (AIXOS_ERR_PERM, s)
        else do {
          s \<leftarrow> upd_tcb tcb (\<lambda>t. t\<lparr>t_capabilities := (t_capabilities t)[nat cap :=
                 \<lparr>cap_object = AIXOS_HANDLE_INVALID, cap_rights = 0, cap_type = AIXOS_OBJ_UNUSED,
                  cap_used = False\<rparr>]\<rparr>) s;
          Some (AIXOS_OK, s)
        }
      })"

section \<open>User memory\<close>

definition user_memory_check_for_task :: "u32 \<Rightarrow> u32 \<Rightarrow> u32 \<Rightarrow> bool \<Rightarrow> kstate \<Rightarrow> int option" where
  "user_memory_check_for_task tcb address sz write_access s =
     (if tcb = 0 then Some AIXOS_ERR_FAULT
      else do {
        t \<leftarrow> tcbs s tcb;
        Some (if t_domain t \<noteq> AIXOS_DOMAIN_USER \<or> address = 0 then AIXOS_ERR_FAULT
              else if sz = 0 \<or> sz > UINT32_MAX - address then AIXOS_ERR_FAULT
              else if \<not> aixos_mpu_task_allows (Some t) address sz write_access False then AIXOS_ERR_FAULT
              else AIXOS_OK)
      })"

definition aixos_user_memory_check :: "u32 \<Rightarrow> u32 \<Rightarrow> bool \<Rightarrow> kstate \<Rightarrow> int option" where
  "aixos_user_memory_check address sz write_access s =
     user_memory_check_for_task (cur_task s) address sz write_access s"

text \<open>The bytes copied, or the error.\<close>

definition aixos_copy_from_user :: "u32 \<Rightarrow> u32 \<Rightarrow> kstate \<Rightarrow> (int + u8 list) option" where
  "aixos_copy_from_user user_src sz s =
     (if sz = 0 then Some (Inr [])
      else do {
        result \<leftarrow> aixos_user_memory_check user_src sz False s;
        Some (if result \<noteq> AIXOS_OK then Inl result else Inr (k_read user_src (unat sz) s))
      })"

definition copy_to_user_task :: "u32 \<Rightarrow> u32 \<Rightarrow> u8 list \<Rightarrow> kstate \<Rightarrow> (int \<times> kstate) option" where
  "copy_to_user_task task user_dst bytes s =
     (if bytes = [] then Some (AIXOS_OK, s)
      else do {
        result \<leftarrow> user_memory_check_for_task task user_dst (of_nat (length bytes)) True s;
        Some (if result \<noteq> AIXOS_OK then (result, s) else (AIXOS_OK, k_write user_dst bytes s))
      })"

definition aixos_copy_to_user :: "u32 \<Rightarrow> u8 list \<Rightarrow> kstate \<Rightarrow> (int \<times> kstate) option" where
  "aixos_copy_to_user user_dst bytes s = copy_to_user_task (cur_task s) user_dst bytes s"

definition aixos_zero_to_user :: "u32 \<Rightarrow> u32 \<Rightarrow> kstate \<Rightarrow> (int \<times> kstate) option" where
  "aixos_zero_to_user user_dst sz s =
     (if sz = 0 then Some (AIXOS_OK, s)
      else do {
        result \<leftarrow> aixos_user_memory_check user_dst sz True s;
        Some (if result \<noteq> AIXOS_OK then (result, s)
              else (AIXOS_OK, k_write user_dst (replicate (unat sz) 0) s))
      })"

section \<open>The namespace\<close>

text \<open>The scan of \<open>aixos_namespace_register\<close>: the first free entry, unless the name occurs before it.\<close>

fun ns_free_scan :: "string \<Rightarrow> namespace_entry_t list \<Rightarrow> nat \<Rightarrow> int + nat" where
  "ns_free_scan name [] i = Inl AIXOS_ERR_NOMEM"
| "ns_free_scan name (e # es) i =
     (if \<not> ns_used e then Inr i
      else if strcmp (cstr (ns_name e)) name = 0 then Inl AIXOS_ERR_BUSY
      else ns_free_scan name es (Suc i))"

definition aixos_namespace_register ::
  "string option \<Rightarrow> aixos_handle_t \<Rightarrow> aixos_obj_type \<Rightarrow> u16 \<Rightarrow> kstate \<Rightarrow> int \<times> kstate" where
  "aixos_namespace_register name obj ty rights s =
     (case name of None \<Rightarrow> (AIXOS_ERR_INVAL, s)
      | Some nm \<Rightarrow>
          if obj = AIXOS_HANDLE_INVALID \<or> ty = AIXOS_OBJ_UNUSED then (AIXOS_ERR_INVAL, s)
          else if strlen nm = 0 \<or> strlen nm \<ge> 32 then (AIXOS_ERR_INVAL, s)
          else case ns_free_scan nm (ns_table s) 0 of
            Inl e \<Rightarrow> (e, s)
          | Inr i \<Rightarrow>
              let e = ns_table s ! i
              in (AIXOS_OK, s\<lparr>ns_table := (ns_table s)[i :=
                   \<lparr>ns_name = (strncpy (ns_name e) nm 31)[31 := NUL], ns_object = obj, ns_type = ty,
                    ns_default_rights = rights, ns_used = True\<rparr>]\<rparr>))"

definition ns_find :: "string \<Rightarrow> kstate \<Rightarrow> nat option" where
  "ns_find name s = find_index (\<lambda>e. ns_used e \<and> strcmp (cstr (ns_name e)) name = 0) (ns_table s) 0"

definition aixos_namespace_unregister :: "string option \<Rightarrow> kstate \<Rightarrow> int \<times> kstate" where
  "aixos_namespace_unregister name s =
     (case name of None \<Rightarrow> (AIXOS_ERR_INVAL, s)
      | Some nm \<Rightarrow>
          (case ns_find nm s of
             None \<Rightarrow> (AIXOS_ERR_NOT_FOUND, s)
           | Some i \<Rightarrow> (AIXOS_OK, s\<lparr>ns_table := (ns_table s)[i := zero_ns_entry]\<rparr>)))"

definition aixos_namespace_resolve ::
  "string option \<Rightarrow> kstate \<Rightarrow> int + (aixos_handle_t \<times> aixos_obj_type \<times> u16)" where
  "aixos_namespace_resolve name s =
     (case name of None \<Rightarrow> Inl AIXOS_ERR_INVAL
      | Some nm \<Rightarrow>
          (case ns_find nm s of
             None \<Rightarrow> Inl AIXOS_ERR_NOT_FOUND
           | Some i \<Rightarrow> let e = ns_table s ! i in Inr (ns_object e, ns_type e, ns_default_rights e)))"

text \<open>The result and the value written to \<open>*cap\<close>.\<close>

definition aixos_namespace_open :: "string option \<Rightarrow> u16 \<Rightarrow> kstate \<Rightarrow> ((int \<times> int option) \<times> kstate) option" where
  "aixos_namespace_open name required_rights s =
     (if cur_task s = 0 then Some ((AIXOS_ERR_INVAL, None), s)
      else case aixos_namespace_resolve name s of
        Inl result \<Rightarrow> Some ((result, None), s)
      | Inr (obj, ty, rights) \<Rightarrow>
          if rights AND required_rights \<noteq> required_rights then Some ((AIXOS_ERR_PERM, None), s)
          else do {
            (cap, s) \<leftarrow> cap_grant_direct (cur_task s) obj ty rights s;
            Some ((if cap \<ge> 0 then AIXOS_OK else AIXOS_ERR_NOMEM, Some cap), s)
          })"

end
