(* ===== verification/Syscall.thy ===== *)
theory Syscall
  imports Capability
begin

text \<open>
  The system calls of \<^verbatim>\<open>kernel/microkernel.c\<close>: the dispatcher, one handler per call, synchronous messages
  over channels and connections, and the user-side stubs with the SVC entry of the Cortex-M port. A
  request is 24 bytes in user memory: the call number and five arguments. The \<open>_resume\<close> functions
  continue a call that blocked.
\<close>

section \<open>Requests\<close>

definition req_number :: "u32 \<Rightarrow> kstate \<Rightarrow> u32" where
  "req_number req s = k_read_u32 req s"

definition req_arg :: "u32 \<Rightarrow> nat \<Rightarrow> kstate \<Rightarrow> u32" where
  "req_arg req i s = k_read_u32 (req + 4 + 4 * of_nat i) s"

text \<open>\<open>(aixos_cap_t)req->args[i]\<close>\<close>

definition req_cap :: "u32 \<Rightarrow> nat \<Rightarrow> kstate \<Rightarrow> int" where
  "req_cap req i s = sint (req_arg req i s)"

type_synonym syscall = "u32 \<Rightarrow> u32 \<Rightarrow> kstate \<Rightarrow> (int outcome \<times> kstate) option"

definition finish :: "(int \<times> kstate) option \<Rightarrow> (int outcome \<times> kstate) option" where
  "finish r = map_option (\<lambda>(r, s). (Done r, s)) r"

section \<open>Tasks, semaphores and message queues\<close>

definition sc_yield :: syscall where
  "sc_yield caller req s = finish (aixos_task_yield s)"

definition sc_sleep :: syscall where
  "sc_sleep caller req s = aixos_task_sleep (req_arg req 0 s) s"

definition sc_task_self :: syscall where
  "sc_task_self caller req s = do { t \<leftarrow> tcbs s caller; Some (Done (sint (t_handle t)), s) }"

definition sc_task_exit :: syscall where
  "sc_task_exit caller req s = do { t \<leftarrow> tcbs s caller; aixos_task_delete (t_handle t) s }"

definition sc_clock_get :: syscall where
  "sc_clock_get caller req s = Some (Done (sint (aixos_get_tick s)), s)"

definition sc_sem_create :: syscall where
  "sc_sem_create caller req s = do {
     (created, s) \<leftarrow> aixos_sem_create (sint (req_arg req 0 s)) s;
     if created = AIXOS_HANDLE_INVALID then Some (Done AIXOS_ERR_NOMEM, s)
     else do {
       (cap, s) \<leftarrow> cap_grant caller created AIXOS_OBJ_SEM (AIXOS_CAP_WAIT OR AIXOS_CAP_SIGNAL OR AIXOS_CAP_CONTROL) s;
       if cap < 0
       then do { (_, s) \<leftarrow> aixos_sem_delete created s; Some (Done cap, s) }
       else Some (Done cap, s)
     }
   }"

definition sc_sem_wait :: syscall where
  "sc_sem_wait caller req s = do {
     r \<leftarrow> cap_resolve caller (req_cap req 0 s) AIXOS_OBJ_SEM AIXOS_CAP_WAIT s;
     case r of Inl result \<Rightarrow> Some (Done result, s) | Inr object \<Rightarrow> aixos_sem_wait object (req_arg req 1 s) s
   }"

definition sc_sem_post :: syscall where
  "sc_sem_post caller req s = do {
     r \<leftarrow> cap_resolve caller (req_cap req 0 s) AIXOS_OBJ_SEM AIXOS_CAP_SIGNAL s;
     case r of Inl result \<Rightarrow> Some (Done result, s) | Inr object \<Rightarrow> finish (aixos_sem_post object s)
   }"

text \<open>Deleting the object and, when that worked, closing the capability.\<close>

definition sc_delete_object ::
  "aixos_obj_type \<Rightarrow> (aixos_handle_t \<Rightarrow> kstate \<Rightarrow> (int \<times> kstate) option) \<Rightarrow> syscall" where
  "sc_delete_object ty delete caller req s = do {
     let cap = req_cap req 0 s;
     r \<leftarrow> cap_resolve caller cap ty AIXOS_CAP_CONTROL s;
     case r of Inl result \<Rightarrow> Some (Done result, s)
     | Inr object \<Rightarrow> do {
         (result, s) \<leftarrow> delete object s;
         if result = AIXOS_OK
         then do { (_, s) \<leftarrow> cap_close caller cap s; Some (Done result, s) }
         else Some (Done result, s)
       }
   }"

definition sc_sem_delete :: syscall where
  "sc_sem_delete = sc_delete_object AIXOS_OBJ_SEM aixos_sem_delete"

definition sc_mq_create :: syscall where
  "sc_mq_create caller req s = do {
     (created, s) \<leftarrow> aixos_mq_create (req_arg req 0 s) (req_arg req 1 s) s;
     if created = AIXOS_HANDLE_INVALID then Some (Done AIXOS_ERR_NOMEM, s)
     else do {
       (cap, s) \<leftarrow> cap_grant caller created AIXOS_OBJ_MQ (AIXOS_CAP_READ OR AIXOS_CAP_WRITE OR AIXOS_CAP_CONTROL) s;
       if cap < 0
       then do { (_, s) \<leftarrow> aixos_mq_delete created s; Some (Done cap, s) }
       else Some (Done cap, s)
     }
   }"

definition sc_mq_send :: syscall where
  "sc_mq_send caller req s = do {
     let sz = req_arg req 2 s;
     r \<leftarrow> cap_resolve caller (req_cap req 0 s) AIXOS_OBJ_MQ AIXOS_CAP_WRITE s;
     case r of Inl result \<Rightarrow> Some (Done result, s)
     | Inr object \<Rightarrow>
         if sz = 0 \<or> sz > of_nat AIXOS_CFG_MAX_IPC_COPY_BYTES then Some (Done AIXOS_ERR_INVAL, s)
         else do {
           c \<leftarrow> aixos_copy_from_user (req_arg req 1 s) sz s;
           case c of Inl result \<Rightarrow> Some (Done result, s)
           | Inr message \<Rightarrow> aixos_mq_send object (Some message) (req_arg req 3 s) s
         }
   }"

text \<open>What \<open>sc_mq_recv\<close> does with the result of the receive.\<close>

definition mq_recv_deliver :: "u32 \<Rightarrow> int \<times> mq_received \<Rightarrow> kstate \<Rightarrow> (int outcome \<times> kstate) option" where
  "mq_recv_deliver req res s =
     (if fst res \<noteq> AIXOS_OK then Some (Done (fst res), s)
      else do {
        (result, s) \<leftarrow> aixos_copy_to_user (req_arg req 1 s) (rx_bytes (snd res)) s;
        if result \<noteq> AIXOS_OK then Some (Done result, s)
        else if req_arg req 4 s \<noteq> 0
        then finish (aixos_copy_to_user (req_arg req 4 s)
               (u32_bytes (case rx_size (snd res) of Some n \<Rightarrow> n | None \<Rightarrow> 0)) s)
        else Some (Done result, s)
      })"

definition mq_recv_outcome ::
  "u32 \<Rightarrow> (int \<times> mq_received) outcome \<times> kstate \<Rightarrow> (int outcome \<times> kstate) option" where
  "mq_recv_outcome req rs =
     (case rs of (Done res, s) \<Rightarrow> mq_recv_deliver req res s | (Blocked, s) \<Rightarrow> Some (Blocked, s))"

definition sc_mq_recv :: syscall where
  "sc_mq_recv caller req s = do {
     let capacity = req_arg req 2 s;
     r \<leftarrow> cap_resolve caller (req_cap req 0 s) AIXOS_OBJ_MQ AIXOS_CAP_READ s;
     case r of Inl result \<Rightarrow> Some (Done result, s)
     | Inr object \<Rightarrow> do {
         result \<leftarrow> aixos_user_memory_check (req_arg req 1 s) capacity True s;
         if result \<noteq> AIXOS_OK then Some (Done result, s)
         else do {
           let kernel_capacity = (if capacity > of_nat AIXOS_CFG_MAX_IPC_COPY_BYTES
                                  then of_nat AIXOS_CFG_MAX_IPC_COPY_BYTES else capacity);
           rs \<leftarrow> aixos_mq_recv object kernel_capacity (req_arg req 3 s) s;
           mq_recv_outcome req rs
         }
       }
   }"

definition sc_mq_recv_resume :: "u32 \<Rightarrow> aixos_handle_t \<Rightarrow> u32 \<Rightarrow> u32 \<Rightarrow> u32 \<Rightarrow> kstate \<Rightarrow> (int outcome \<times> kstate) option" where
  "sc_mq_recv_resume req object kernel_capacity start_tick timeout_ms s =
     Option.bind (mq_recv_resume object kernel_capacity start_tick timeout_ms s) (mq_recv_outcome req)"

definition sc_mq_delete :: syscall where
  "sc_mq_delete = sc_delete_object AIXOS_OBJ_MQ aixos_mq_delete"

definition sc_cap_close :: syscall where
  "sc_cap_close caller req s = finish (cap_close caller (req_cap req 0 s) s)"

section \<open>Channels and connections\<close>

abbreviation (input) AIXOS_MAX_CHANNELS :: nat where "AIXOS_MAX_CHANNELS \<equiv> 8"
abbreviation (input) AIXOS_MAX_CONNECTIONS :: nat where "AIXOS_MAX_CONNECTIONS \<equiv> 16"
abbreviation (input) AIXOS_MAX_PENDING_MSGS :: nat where "AIXOS_MAX_PENDING_MSGS \<equiv> 12"
abbreviation (input) AIXOS_SYNC_MSG_MAX_SIZE :: u32 where "AIXOS_SYNC_MSG_MAX_SIZE \<equiv> 256"

definition set_channel :: "nat \<Rightarrow> channel_t \<Rightarrow> kstate \<Rightarrow> kstate" where
  "set_channel i x s = s\<lparr>channels := (channels s)[i := x]\<rparr>"

definition set_connection :: "nat \<Rightarrow> connection_t \<Rightarrow> kstate \<Rightarrow> kstate" where
  "set_connection i x s = s\<lparr>connections := (connections s)[i := x]\<rparr>"

definition set_msg :: "nat \<Rightarrow> pending_msg_t \<Rightarrow> kstate \<Rightarrow> kstate" where
  "set_msg i x s = s\<lparr>pending_msgs := (pending_msgs s)[i := x]\<rparr>"

definition channel_alloc :: "aixos_handle_t \<Rightarrow> kstate \<Rightarrow> (nat option \<times> kstate) option" where
  "channel_alloc owner s =
     (case find_index (\<lambda>c. \<not> ch_used c) (channels s) 0 of
        None \<Rightarrow> Some (None, s)
      | Some i \<Rightarrow> do {
          s \<leftarrow> Some (set_channel i \<lparr>ch_used = True, ch_flags = 0, ch_owner = owner, ch_receiver = 0\<rparr> s);
          s \<leftarrow> on_ls (list_init_head (ChConns i)) s;
          s \<leftarrow> on_ls (list_init_head (ChMsgs i)) s;
          Some (Some i, s)
        })"

definition connection_alloc :: "aixos_handle_t \<Rightarrow> kstate \<Rightarrow> nat option \<times> kstate" where
  "connection_alloc owner s =
     (case find_index (\<lambda>c. \<not> cn_used c) (connections s) 0 of
        None \<Rightarrow> (None, s)
      | Some i \<Rightarrow> (Some i, set_connection i ((connections s ! i)\<lparr>cn_used := True, cn_owner := owner\<rparr>) s))"

definition pending_msg_alloc :: "kstate \<Rightarrow> nat option \<times> kstate" where
  "pending_msg_alloc s =
     (case find_index (\<lambda>m. \<not> pm_used m) (pending_msgs s) 0 of
        None \<Rightarrow> (None, s)
      | Some i \<Rightarrow> (Some i, set_msg i ((pending_msgs s ! i)\<lparr>pm_used := True, pm_sender := 0,
                                      pm_msg_size := 0, pm_reply_size := 0\<rparr>) s))"

text \<open>The kernel-side message API of the header is not implemented by the code; these are its bodies.\<close>

definition aixos_channel_create :: "int \<Rightarrow> int" where "aixos_channel_create flags = -1"
definition aixos_channel_destroy :: "int \<Rightarrow> int" where "aixos_channel_destroy ch = AIXOS_ERR_NOSYS"
definition aixos_connect :: "int \<Rightarrow> int" where "aixos_connect channel = -1"
definition aixos_disconnect :: "int \<Rightarrow> int" where "aixos_disconnect conn = AIXOS_ERR_NOSYS"
definition aixos_msg_send :: "int \<Rightarrow> u32 \<Rightarrow> u32 \<Rightarrow> u32 \<Rightarrow> u32 \<Rightarrow> int" where
  "aixos_msg_send conn msg msg_size reply reply_capacity = AIXOS_ERR_NOSYS"
definition aixos_msg_receive :: "int \<Rightarrow> u32 \<Rightarrow> u32 \<Rightarrow> int \<Rightarrow> u32 \<Rightarrow> int" where
  "aixos_msg_receive ch msg capacity flags sender_conn = AIXOS_ERR_NOSYS"
definition aixos_msg_reply :: "int \<Rightarrow> u32 \<Rightarrow> u32 \<Rightarrow> int" where
  "aixos_msg_reply conn reply reply_size = AIXOS_ERR_NOSYS"

text \<open>\<open>(int)(uintptr_t)obj\<close> as a checked index into a table.\<close>

definition channel_index :: "aixos_handle_t \<Rightarrow> kstate \<Rightarrow> nat option" where
  "channel_index obj s =
     (if 0 \<le> sint obj \<and> sint obj < int AIXOS_MAX_CHANNELS \<and> ch_used (channels s ! unat obj)
      then Some (unat obj) else None)"

definition connection_index :: "aixos_handle_t \<Rightarrow> kstate \<Rightarrow> nat option" where
  "connection_index obj s =
     (if 0 \<le> sint obj \<and> sint obj < int AIXOS_MAX_CONNECTIONS \<and> cn_used (connections s ! unat obj)
      then Some (unat obj) else None)"

definition sc_channel_create :: syscall where
  "sc_channel_create caller req s = do {
     t \<leftarrow> tcbs s caller;
     (idx, s) \<leftarrow> channel_alloc (t_handle t) s;
     case idx of None \<Rightarrow> Some (Done AIXOS_ERR_NOMEM, s)
     | Some ch_idx \<Rightarrow> do {
         (cap, s) \<leftarrow> cap_grant caller (of_nat ch_idx) AIXOS_OBJ_CHANNEL
                       (AIXOS_CAP_READ OR AIXOS_CAP_WRITE OR AIXOS_CAP_CONTROL) s;
         if cap < 0 then Some (Done AIXOS_ERR_NOMEM, set_channel ch_idx ((channels s ! ch_idx)\<lparr>ch_used := False\<rparr>) s)
         else Some (Done cap, s)
       }
   }"

definition sc_channel_destroy :: syscall where
  "sc_channel_destroy caller req s = do {
     let cap = req_cap req 0 s;
     r \<leftarrow> cap_resolve caller cap AIXOS_OBJ_CHANNEL AIXOS_CAP_CONTROL s;
     case r of Inl result \<Rightarrow> Some (Done result, s)
     | Inr obj \<Rightarrow>
         (case channel_index obj s of
            None \<Rightarrow> Some (Done AIXOS_ERR_INVAL, s)
          | Some idx \<Rightarrow> do {
              (_, s) \<leftarrow> cap_close caller cap (set_channel idx ((channels s ! idx)\<lparr>ch_used := False\<rparr>) s);
              Some (Done AIXOS_OK, s)
            })
   }"

definition sc_connect :: syscall where
  "sc_connect caller req s = do {
     r \<leftarrow> cap_resolve caller (req_cap req 0 s) AIXOS_OBJ_CHANNEL AIXOS_CAP_READ s;
     case r of Inl result \<Rightarrow> Some (Done result, s)
     | Inr obj \<Rightarrow>
         (case channel_index obj s of
            None \<Rightarrow> Some (Done AIXOS_ERR_INVAL, s)
          | Some ch_idx \<Rightarrow> do {
              t \<leftarrow> tcbs s caller;
              (idx, s) \<leftarrow> Some (connection_alloc (t_handle t) s);
              case idx of None \<Rightarrow> Some (Done AIXOS_ERR_NOMEM, s)
              | Some conn_idx \<Rightarrow> do {
                  s \<leftarrow> Some (set_connection conn_idx ((connections s ! conn_idx)\<lparr>cn_ch_cap := req_cap req 0 s,
                                                          cn_ch_idx := ch_idx\<rparr>) s);
                  s \<leftarrow> on_ls (list_add_tail (ConnN conn_idx) (ChConns ch_idx)) s;
                  (cap, s) \<leftarrow> cap_grant caller (of_nat conn_idx) AIXOS_OBJ_CONNECTION
                                (AIXOS_CAP_WRITE OR AIXOS_CAP_SIGNAL OR AIXOS_CAP_CONTROL) s;
                  if cap < 0
                  then do {
                    s \<leftarrow> on_ls (list_del (ConnN conn_idx)) s;
                    Some (Done AIXOS_ERR_NOMEM,
                          set_connection conn_idx ((connections s ! conn_idx)\<lparr>cn_used := False\<rparr>) s)
                  }
                  else Some (Done cap, s)
                }
            })
   }"

definition sc_disconnect :: syscall where
  "sc_disconnect caller req s = do {
     let cap = req_cap req 0 s;
     r \<leftarrow> cap_resolve caller cap AIXOS_OBJ_CONNECTION AIXOS_CAP_CONTROL s;
     case r of Inl result \<Rightarrow> Some (Done result, s)
     | Inr obj \<Rightarrow>
         (case connection_index obj s of
            None \<Rightarrow> Some (Done AIXOS_ERR_INVAL, s)
          | Some conn_idx \<Rightarrow> do {
              s \<leftarrow> on_ls (list_del (ConnN conn_idx)) s;
              s \<leftarrow> Some (set_connection conn_idx ((connections s ! conn_idx)\<lparr>cn_used := False\<rparr>) s);
              (_, s) \<leftarrow> cap_close caller cap s;
              Some (Done AIXOS_OK, s)
            })
   }"

section \<open>Synchronous messages\<close>

definition release_msg :: "nat \<Rightarrow> kstate \<Rightarrow> kstate" where
  "release_msg pm s = set_msg pm ((pending_msgs s ! pm)\<lparr>pm_used := False\<rparr>) s"

text \<open>The end of \<open>sc_msg_send\<close>: the message is queued, a waiting receiver woken, the caller blocked.\<close>

definition msg_enqueue :: "u32 \<Rightarrow> nat \<Rightarrow> nat \<Rightarrow> kstate \<Rightarrow> (int outcome \<times> kstate) option" where
  "msg_enqueue caller pm ch_idx s = do {
     s \<leftarrow> on_ls (list_add_tail (MsgN pm) (ChMsgs ch_idx)) s;
     let receiver = ch_receiver (channels s ! ch_idx);
     s \<leftarrow> (if receiver \<noteq> 0
           then do {
             s \<leftarrow> aixos_task_wake receiver AIXOS_OK s;
             Some (set_channel ch_idx ((channels s ! ch_idx)\<lparr>ch_receiver := 0\<rparr>) s)
           }
           else Some s);
     s \<leftarrow> upd_tcb caller (\<lambda>t. t\<lparr>t_state := AIXOS_TASK_BLOCKED, t_wait_obj := KMsg pm, t_wait_list := None,
                                 t_wait_type := AIXOS_OBJ_CONNECTION, t_wait_result := AIXOS_OK\<rparr>) s;
     s \<leftarrow> aixos_sched_remove_task caller s;
     Some (Blocked, reschedule_request s)
   }"

definition sc_msg_send :: syscall where
  "sc_msg_send caller req s = do {
     r \<leftarrow> cap_resolve caller (req_cap req 0 s) AIXOS_OBJ_CONNECTION AIXOS_CAP_WRITE s;
     case r of Inl result \<Rightarrow> Some (Done result, s)
     | Inr obj \<Rightarrow>
         (case connection_index obj s of
            None \<Rightarrow> Some (Done AIXOS_ERR_INVAL, s)
          | Some conn_idx \<Rightarrow>
              let msz = req_arg req 2 s
              in if msz = 0 \<or> msz > AIXOS_SYNC_MSG_MAX_SIZE then Some (Done AIXOS_ERR_INVAL, s)
              else (case pending_msg_alloc s of
                (None, s) \<Rightarrow> Some (Done AIXOS_ERR_NOMEM, s)
              | (Some pm, s) \<Rightarrow> do {
                  c \<leftarrow> aixos_copy_from_user (req_arg req 1 s) msz s;
                  case c of Inl result \<Rightarrow> Some (Done result, release_msg pm s)
                  | Inr bytes \<Rightarrow> do {
                      let cap = req_arg req 4 s;
                      s \<leftarrow> Some (set_msg pm ((pending_msgs s ! pm)\<lparr>
                             pm_msg_buf := bytes @ drop (length bytes) (pm_msg_buf (pending_msgs s ! pm)),
                             pm_msg_size := msz, pm_reply_capacity := cap\<rparr>) s);
                      result \<leftarrow> (if cap > 0 then aixos_user_memory_check (req_arg req 3 s) cap True s
                                 else Some AIXOS_OK);
                      if result \<noteq> AIXOS_OK then Some (Done result, release_msg pm s)
                      else do {
                        s \<leftarrow> Some (set_msg pm ((pending_msgs s ! pm)\<lparr>
                               pm_reply_user_ptr := (if cap > 0 then req_arg req 3 s else 0),
                               pm_sender_conn_idx := conn_idx, pm_sender := caller\<rparr>) s);
                        msg_enqueue caller pm (cn_ch_idx (connections s ! conn_idx)) s
                      }
                    }
                }))
   }"

text \<open>Taking the first pending message of a channel and copying it to the receiver.\<close>

definition msg_take :: "nat \<Rightarrow> u32 \<Rightarrow> u32 \<Rightarrow> kstate \<Rightarrow> (int outcome \<times> kstate) option" where
  "msg_take ch_idx dst capa s = do {
     n \<leftarrow> list_first (ChMsgs ch_idx) (k_ls s);
     pm \<leftarrow> node_object n;
     s \<leftarrow> on_ls (list_del (MsgN pm)) s;
     let m = pending_msgs s ! pm;
     let copy = (if pm_msg_size m < capa then pm_msg_size m else capa);
     (result, s) \<leftarrow> aixos_copy_to_user dst (take (unat copy) (pm_msg_buf m)) s;
     Some (Done (if result \<noteq> AIXOS_OK then result else sint copy), s)
   }"

definition sc_msg_receive :: syscall where
  "sc_msg_receive caller req s = do {
     r \<leftarrow> cap_resolve caller (req_cap req 0 s) AIXOS_OBJ_CHANNEL AIXOS_CAP_READ s;
     case r of Inl result \<Rightarrow> Some (Done result, s)
     | Inr obj \<Rightarrow>
         (case channel_index obj s of
            None \<Rightarrow> Some (Done AIXOS_ERR_INVAL, s)
          | Some ch_idx \<Rightarrow>
              let capa = req_arg req 2 s
              in if capa = 0 then Some (Done AIXOS_ERR_INVAL, s)
              else do {
                result \<leftarrow> aixos_user_memory_check (req_arg req 1 s) capa True s;
                if result \<noteq> AIXOS_OK then Some (Done result, s)
                else if \<not> head_empty (ChMsgs ch_idx) s then msg_take ch_idx (req_arg req 1 s) capa s
                else do {
                  s \<leftarrow> Some (set_channel ch_idx ((channels s ! ch_idx)\<lparr>ch_receiver := caller\<rparr>) s);
                  s \<leftarrow> upd_tcb caller (\<lambda>t. t\<lparr>t_state := AIXOS_TASK_BLOCKED, t_wait_obj := KChannel ch_idx,
                         t_wait_list := None, t_wait_type := AIXOS_OBJ_CHANNEL, t_wait_result := AIXOS_OK\<rparr>) s;
                  s \<leftarrow> aixos_sched_remove_task caller s;
                  Some (Blocked, reschedule_request s)
                }
              })
   }"

definition sc_msg_receive_resume :: "nat \<Rightarrow> u32 \<Rightarrow> u32 \<Rightarrow> kstate \<Rightarrow> (int outcome \<times> kstate) option" where
  "sc_msg_receive_resume ch_idx req capa s =
     (if \<not> head_empty (ChMsgs ch_idx) s then msg_take ch_idx (req_arg req 1 s) capa s else Some (Done 0, s))"

text \<open>The first pending message of the channel that was sent over connection \<open>conn_idx\<close>.\<close>

fun find_msg :: "nat \<Rightarrow> lnode list \<Rightarrow> kstate \<Rightarrow> nat option option" where
  "find_msg conn_idx [] s = Some None"
| "find_msg conn_idx (pos # rest) s = do {
     candidate \<leftarrow> node_object pos;
     if pm_sender_conn_idx (pending_msgs s ! candidate) = conn_idx then Some (Some candidate)
     else find_msg conn_idx rest s
   }"

text \<open>The end of \<open>sc_msg_reply\<close>, on the message \<open>pm\<close> taken off the queue.\<close>

definition msg_finish :: "nat \<Rightarrow> u8 list \<Rightarrow> kstate \<Rightarrow> (int outcome \<times> kstate) option" where
  "msg_finish pm reply s = do {
     let m = pending_msgs s ! pm;
     let rsz = (of_nat (length reply) :: u32);
     let m = m\<lparr>pm_reply_size := rsz, pm_reply_buf := reply @ drop (length reply) (pm_reply_buf m)\<rparr>;
     s \<leftarrow> Some (set_msg pm m s);
     let copy = (if rsz < pm_reply_capacity m then rsz else pm_reply_capacity m);
     (result, s) \<leftarrow> (if pm_reply_user_ptr m \<noteq> 0 \<and> pm_reply_capacity m > 0 \<and> rsz > 0
                     then copy_to_user_task (pm_sender m) (pm_reply_user_ptr m) (take (unat copy) (pm_reply_buf m)) s
                     else Some (AIXOS_OK, s));
     if result \<noteq> AIXOS_OK then Some (Done result, s)
     else do {
       s \<leftarrow> (if pm_sender m \<noteq> 0
             then do {
               s \<leftarrow> upd_tcb (pm_sender m) (\<lambda>t. t\<lparr>t_wait_result := AIXOS_OK\<rparr>) s;
               s \<leftarrow> aixos_task_wake (pm_sender m) AIXOS_OK s;
               Some (set_msg pm ((pending_msgs s ! pm)\<lparr>pm_sender := 0\<rparr>) s)
             }
             else Some s);
       Some (Done AIXOS_OK, release_msg pm s)
     }
   }"

definition sc_msg_reply :: syscall where
  "sc_msg_reply caller req s = do {
     r \<leftarrow> cap_resolve caller (req_cap req 0 s) AIXOS_OBJ_CONNECTION AIXOS_CAP_SIGNAL s;
     case r of Inl result \<Rightarrow> Some (Done result, s)
     | Inr obj \<Rightarrow>
         (case connection_index obj s of
            None \<Rightarrow> Some (Done AIXOS_ERR_INVAL, s)
          | Some conn_idx \<Rightarrow>
              let rsz = req_arg req 2 s
              in if rsz > AIXOS_SYNC_MSG_MAX_SIZE then Some (Done AIXOS_ERR_INVAL, s)
              else do {
                c \<leftarrow> aixos_copy_from_user (req_arg req 1 s) rsz s;
                case c of Inl result \<Rightarrow> Some (Done result, s)
                | Inr reply \<Rightarrow> do {
                    xs \<leftarrow> members (ChMsgs (cn_ch_idx (connections s ! conn_idx))) s;
                    found \<leftarrow> find_msg conn_idx xs s;
                    case found of None \<Rightarrow> Some (Done AIXOS_ERR_NOT_FOUND, s)
                    | Some pm \<Rightarrow> do { s \<leftarrow> on_ls (list_del (MsgN pm)) s; msg_finish pm reply s }
                  }
              })
   }"

section \<open>Dispatch\<close>

definition syscall_table :: "syscall list" where
  "syscall_table =
     [sc_yield, sc_sleep, sc_task_self, sc_task_exit, sc_clock_get, sc_sem_create, sc_sem_wait, sc_sem_post,
      sc_sem_delete, sc_mq_create, sc_mq_send, sc_mq_recv, sc_mq_delete, sc_cap_close, sc_channel_create,
      sc_channel_destroy, sc_connect, sc_disconnect, sc_msg_send, sc_msg_receive, sc_msg_reply]"

definition request_check :: "u32 \<Rightarrow> kstate \<Rightarrow> int option" where
  "request_check request s = aixos_user_memory_check request 24 False s"

definition aixos_syscall_dispatch :: "u32 \<Rightarrow> kstate \<Rightarrow> (int outcome \<times> kstate) option" where
  "aixos_syscall_dispatch request s =
     (let caller = cur_task s
      in if caller = 0 then Some (Done AIXOS_ERR_PERM, s)
      else do {
        t \<leftarrow> tcbs s caller;
        if t_domain t \<noteq> AIXOS_DOMAIN_USER then Some (Done AIXOS_ERR_PERM, s)
        else do {
          ok \<leftarrow> request_check request s;
          if ok \<noteq> AIXOS_OK \<or> unat (req_number request s) \<ge> length syscall_table
          then Some (Done AIXOS_ERR_FAULT, s)
          else (syscall_table ! unat (req_number request s)) caller request s
        }
      })"

text \<open>\<open>aixos_arm_svc_handler\<close>: the request pointer comes in the stacked \<open>r0\<close>, which receives the
  result when the call is done.\<close>

definition aixos_arm_svc_handler :: "u32 \<Rightarrow> kstate \<Rightarrow> (int outcome \<times> kstate) option" where
  "aixos_arm_svc_handler frame s =
     (if frame = 0 then Some (Done 0, s)
      else do {
        (r, s) \<leftarrow> aixos_syscall_dispatch (k_read_u32 frame s) s;
        Some (r, case r of Done v \<Rightarrow> k_write_u32 frame (word_of_int v) s | Blocked \<Rightarrow> s)
      })"

section \<open>User-side stubs\<close>

text \<open>The stubs build the request in their stack frame, at the address \<open>at\<close>, and trap.\<close>

definition invoke :: "u32 \<Rightarrow> u32 \<Rightarrow> u32 list \<Rightarrow> kstate \<Rightarrow> (int outcome \<times> kstate) option" where
  "invoke at number args s = aixos_syscall_dispatch at (k_write at (concat (map u32_bytes (number # args))) s)"

definition aixos_user_yield where "aixos_user_yield at s = invoke at 0 [0, 0, 0, 0, 0] s"
definition aixos_user_sleep where "aixos_user_sleep at ms s = invoke at 1 [ms, 0, 0, 0, 0] s"
definition aixos_user_task_self where "aixos_user_task_self at s = invoke at 2 [0, 0, 0, 0, 0] s"
definition aixos_user_task_exit where "aixos_user_task_exit at s = invoke at 3 [0, 0, 0, 0, 0] s"
definition aixos_user_clock_get where "aixos_user_clock_get at s = invoke at 4 [0, 0, 0, 0, 0] s"
definition aixos_user_sem_create where
  "aixos_user_sem_create at count s = invoke at 5 [word_of_int count, 0, 0, 0, 0] s"
definition aixos_user_sem_wait where
  "aixos_user_sem_wait at cap timeout s = invoke at 6 [word_of_int cap, timeout, 0, 0, 0] s"
definition aixos_user_sem_post where
  "aixos_user_sem_post at cap s = invoke at 7 [word_of_int cap, 0, 0, 0, 0] s"
definition aixos_user_sem_delete where
  "aixos_user_sem_delete at cap s = invoke at 8 [word_of_int cap, 0, 0, 0, 0] s"
definition aixos_user_mq_create where
  "aixos_user_mq_create at count sz s = invoke at 9 [count, sz, 0, 0, 0] s"
definition aixos_user_mq_send where
  "aixos_user_mq_send at cap message sz timeout s = invoke at 10 [word_of_int cap, message, sz, timeout, 0] s"
definition aixos_user_mq_recv where
  "aixos_user_mq_recv at cap buffer capacity received timeout s =
     invoke at 11 [word_of_int cap, buffer, capacity, timeout, received] s"
definition aixos_user_mq_delete where
  "aixos_user_mq_delete at cap s = invoke at 12 [word_of_int cap, 0, 0, 0, 0] s"
definition aixos_user_cap_close where
  "aixos_user_cap_close at cap s = invoke at 13 [word_of_int cap, 0, 0, 0, 0] s"
definition aixos_user_channel_create where
  "aixos_user_channel_create at flags s = invoke at 14 [word_of_int flags, 0, 0, 0, 0] s"
definition aixos_user_channel_destroy where
  "aixos_user_channel_destroy at ch s = invoke at 15 [word_of_int ch, 0, 0, 0, 0] s"
definition aixos_user_connect where
  "aixos_user_connect at channel s = invoke at 16 [word_of_int channel, 0, 0, 0, 0] s"
definition aixos_user_disconnect where
  "aixos_user_disconnect at conn s = invoke at 17 [word_of_int conn, 0, 0, 0, 0] s"
definition aixos_user_msg_send where
  "aixos_user_msg_send at conn msg msg_size reply reply_capacity s =
     invoke at 18 [word_of_int conn, msg, msg_size, reply, reply_capacity] s"
definition aixos_user_msg_receive where
  "aixos_user_msg_receive at ch msg capacity flags s =
     invoke at 19 [word_of_int ch, msg, capacity, word_of_int flags, 0] s"
definition aixos_user_msg_reply where
  "aixos_user_msg_reply at conn reply reply_size s = invoke at 20 [word_of_int conn, reply, reply_size, 0, 0] s"

end
