(* ===== verification/Returns.thy ===== *)
theory Returns
  imports Aix_Prelude "HOL-Library.Monad_Syntax"
begin

text \<open>
  Total correctness of the operations that dereference pointers: such an operation is a partial
  function, undefined where the C code would follow a dangling pointer or destroy a list.
  \<open>returns m Q\<close> says that it is defined and that its result satisfies \<open>Q\<close>; the rules below follow
  the structure of a \<open>do\<close> block.
\<close>

definition returns :: "'a option \<Rightarrow> ('a \<Rightarrow> bool) \<Rightarrow> bool" where
  "returns m Q \<longleftrightarrow> (case m of None \<Rightarrow> False | Some x \<Rightarrow> Q x)"

lemma returns_simps [simp]: "returns (Some x) Q \<longleftrightarrow> Q x" "\<not> returns None Q"
  by (simp_all add: returns_def)

lemma returns_iff: "returns m Q \<longleftrightarrow> (\<exists>x. m = Some x \<and> Q x)"
  by (cases m) simp_all

lemma returnsI: "m = Some x \<Longrightarrow> Q x \<Longrightarrow> returns m Q"
  by simp

lemma returnsE:
  assumes "returns m Q"
  obtains x where "m = Some x" "Q x"
  using assms by (auto simp: returns_iff)

lemma returnsD: "returns m Q \<Longrightarrow> m = Some x \<Longrightarrow> Q x"
  by simp

lemma returns_defined: "returns m Q \<Longrightarrow> m \<noteq> None"
  by (cases m) simp_all

lemma returns_mono: "returns m P \<Longrightarrow> (\<And>x. P x \<Longrightarrow> Q x) \<Longrightarrow> returns m Q"
  by (cases m) simp_all

lemma returns_bind [simp]: "returns (Option.bind m f) Q \<longleftrightarrow> returns m (\<lambda>x. returns (f x) Q)"
  by (cases m) simp_all

lemma returns_map [simp]: "returns (map_option f m) Q \<longleftrightarrow> returns m (\<lambda>x. Q (f x))"
  by (cases m) simp_all

lemma returns_bindI:
  "returns m P \<Longrightarrow> (\<And>x. P x \<Longrightarrow> returns (f x) Q) \<Longrightarrow> returns (Option.bind m f) Q"
  by (cases m) simp_all

lemma returns_if: "(b \<Longrightarrow> returns m Q) \<Longrightarrow> (\<not> b \<Longrightarrow> returns m' Q) \<Longrightarrow> returns (if b then m else m') Q"
  by simp

lemma returns_conj: "returns m P \<Longrightarrow> returns m Q \<Longrightarrow> returns m (\<lambda>x. P x \<and> Q x)"
  by (cases m) simp_all

end
