(* ===== verification/Kinv.thy ===== *)
theory Kinv
  imports Tick Returns
begin

text \<open>
  The invariant of the scheduler, and its preservation by the changes that the operations are made
  of. In every state of the running kernel the lists are well formed, every member of a list is a
  node of the right kind of a live task, a ready queue is marked in the bitmap exactly when it is
  not empty, a task is in the ready queue of its priority exactly when it is ready or running, and
  a task is in a wait queue exactly when it waits for that queue.
\<close>

section \<open>The invariant\<close>

text \<open>Which nodes a list may hold. Nothing in the kernel inserts into the timing wheel.\<close>

fun node_fits :: "lhead \<Rightarrow> lnode \<Rightarrow> bool" where
  "node_fits AllTasks n \<longleftrightarrow> (case n of AllN _ \<Rightarrow> True | _ \<Rightarrow> False)"
| "node_fits ReapList n \<longleftrightarrow> (case n of AllN _ \<Rightarrow> True | _ \<Rightarrow> False)"
| "node_fits TimeoutList n \<longleftrightarrow> (case n of TimeoutN _ \<Rightarrow> True | _ \<Rightarrow> False)"
| "node_fits (TwL1 i) n \<longleftrightarrow> False"
| "node_fits (TwL2 i) n \<longleftrightarrow> False"
| "node_fits (ReadyQ p) n \<longleftrightarrow> (case n of ReadyN _ \<Rightarrow> True | _ \<Rightarrow> False)"
| "node_fits (HeldMutexes a) n \<longleftrightarrow> (case n of OwnerN _ \<Rightarrow> True | _ \<Rightarrow> False)"
| "node_fits ActiveTimers n \<longleftrightarrow> (case n of ActiveN _ \<Rightarrow> True | _ \<Rightarrow> False)"
| "node_fits PendingTimers n \<longleftrightarrow> (case n of PendingN _ \<Rightarrow> True | _ \<Rightarrow> False)"
| "node_fits (ChConns i) n \<longleftrightarrow> (case n of ConnN _ \<Rightarrow> True | _ \<Rightarrow> False)"
| "node_fits (ChMsgs i) n \<longleftrightarrow> (case n of MsgN _ \<Rightarrow> True | _ \<Rightarrow> False)"
| "node_fits h n \<longleftrightarrow> (case n of WaitN _ \<Rightarrow> True | _ \<Rightarrow> False)"

text \<open>The wait queues.\<close>

fun is_wait_head :: "lhead \<Rightarrow> bool" where
  "is_wait_head (SemWait _) = True"
| "is_wait_head (MutexWait _) = True"
| "is_wait_head (MqSend _) = True"
| "is_wait_head (MqRecv _) = True"
| "is_wait_head (EventWait _) = True"
| "is_wait_head (PipeRead _) = True"
| "is_wait_head (PipeWrite _) = True"
| "is_wait_head ServiceWaiters = True"
| "is_wait_head _ = False"

lemma fits_WaitN [simp]: "node_fits h (WaitN a) = is_wait_head h"
  by (cases h) auto

lemma fits_ReadyN [simp]: "node_fits h (ReadyN a) \<longleftrightarrow> (\<exists>p. h = ReadyQ p)"
  by (cases h) auto

lemma fits_TimeoutN [simp]: "node_fits h (TimeoutN a) \<longleftrightarrow> h = TimeoutList"
  by (cases h) auto

lemma fits_AllN [simp]: "node_fits h (AllN a) \<longleftrightarrow> h = AllTasks \<or> h = ReapList"
  by (cases h) auto

lemma fits_OwnerN [simp]: "node_fits h (OwnerN i) \<longleftrightarrow> (\<exists>a. h = HeldMutexes a)"
  by (cases h) auto

lemma fits_ActiveN [simp]: "node_fits h (ActiveN i) \<longleftrightarrow> h = ActiveTimers"
  by (cases h) auto

lemma fits_PendingN [simp]: "node_fits h (PendingN i) \<longleftrightarrow> h = PendingTimers"
  by (cases h) auto

lemma fits_ReadyQ: "node_fits (ReadyQ p) n \<Longrightarrow> \<exists>a. n = ReadyN a"
  by (cases n) auto

lemma fits_TimeoutList: "node_fits TimeoutList n \<Longrightarrow> \<exists>a. n = TimeoutN a"
  by (cases n) auto

lemma fits_wait: "is_wait_head h \<Longrightarrow> node_fits h n \<Longrightarrow> \<exists>a. n = WaitN a"
  by (cases h; cases n) auto

text \<open>The heads that are initialised once: those of the kernel, and one in each control block.\<close>

fun core_head :: "lhead \<Rightarrow> bool" where
  "core_head AllTasks = True"
| "core_head TimeoutList = True"
| "core_head ReapList = True"
| "core_head ActiveTimers = True"
| "core_head PendingTimers = True"
| "core_head ServiceWaiters = True"
| "core_head (TwL1 i) = (i < AIXOS_CFG_TW_SIZE1)"
| "core_head (TwL2 i) = (i < AIXOS_CFG_TW_SIZE2)"
| "core_head _ = False"

definition ready_state :: "aixos_task_state \<Rightarrow> bool" where
  "ready_state st \<longleftrightarrow> st = AIXOS_TASK_READY \<or> st = AIXOS_TASK_RUNNING"

definition waiting_state :: "aixos_task_state \<Rightarrow> bool" where
  "waiting_state st \<longleftrightarrow> st = AIXOS_TASK_BLOCKED \<or> st = AIXOS_TASK_DELAYED"

lemma state_simps [simp]:
  "ready_state AIXOS_TASK_READY" "ready_state AIXOS_TASK_RUNNING" "\<not> ready_state AIXOS_TASK_BLOCKED"
  "\<not> ready_state AIXOS_TASK_DELAYED" "\<not> ready_state AIXOS_TASK_SUSPENDED" "\<not> ready_state AIXOS_TASK_STOP"
  "waiting_state AIXOS_TASK_BLOCKED" "waiting_state AIXOS_TASK_DELAYED" "\<not> waiting_state AIXOS_TASK_READY"
  "\<not> waiting_state AIXOS_TASK_RUNNING" "\<not> waiting_state AIXOS_TASK_SUSPENDED" "\<not> waiting_state AIXOS_TASK_STOP"
  by (simp_all add: ready_state_def waiting_state_def)

lemma waiting_not_ready: "waiting_state st \<Longrightarrow> \<not> ready_state st"
  by (auto simp: ready_state_def waiting_state_def)

definition prio_ok :: "int \<Rightarrow> bool" where
  "prio_ok p \<longleftrightarrow> 0 \<le> p \<and> p < int AIXOS_CFG_MAX_PRIORITY"

definition waits_for_mutex :: "aixos_tcb \<Rightarrow> bool" where
  "waits_for_mutex t \<longleftrightarrow> t_wait_type t = AIXOS_OBJ_MUTEX \<and> t_wait_obj t \<noteq> KNull"

definition tcb_ok :: "aixos_tcb \<Rightarrow> bool" where
  "tcb_ok t \<longleftrightarrow> prio_ok (t_priority t) \<and> prio_ok (t_base_priority t) \<and>
     (\<forall>h. t_wait_list t = Some h \<longrightarrow> is_wait_head h) \<and>
     (waits_for_mutex t \<longrightarrow> mutex_of (t_wait_obj t) \<noteq> None)"

text \<open>The queues and the bitmap.\<close>

definition queues_ok :: "(lhead, lnode) lstore \<Rightarrow> u64 list \<Rightarrow> bool" where
  "queues_ok ls bm \<longleftrightarrow> lwf ls \<and> length bm = 4 \<and> (\<forall>p. lists ls (ReadyQ p) \<noteq> None \<longleftrightarrow> p < AIXOS_CFG_MAX_PRIORITY) \<and>
     (\<forall>p < AIXOS_CFG_MAX_PRIORITY. bit (bm ! (p div 64)) (p mod 64) \<longleftrightarrow> lists ls (ReadyQ p) \<noteq> Some []) \<and>
     (\<forall>n h. nstat ls n = NIn h \<longrightarrow> node_fits h n) \<and> (\<forall>h. core_head h \<longrightarrow> lists ls h \<noteq> None)"

text \<open>What the lists say of the task at \<open>a\<close>.\<close>

definition nodes_ok :: "(lhead, lnode) lstore \<Rightarrow> u32 \<Rightarrow> aixos_tcb \<Rightarrow> bool" where
  "nodes_ok ls a t \<longleftrightarrow> a \<noteq> 0 \<and> lists ls (HeldMutexes a) \<noteq> None \<and>
     nstat ls (WaitN a) \<noteq> NNull \<and> nstat ls (TimeoutN a) \<noteq> NNull \<and>
     (\<forall>p. nstat ls (ReadyN a) = NIn (ReadyQ p) \<longrightarrow> t_priority t = int p) \<and>
     (\<forall>h. nstat ls (WaitN a) = NIn h \<longrightarrow> t_wait_list t = Some h \<and> waiting_state (t_state t)) \<and>
     (\<forall>h. nstat ls (TimeoutN a) = NIn h \<longrightarrow> waiting_state (t_state t))"

text \<open>Between operations a task is also where its state says; \<open>run\<close> is whether the system runs.\<close>

definition settled :: "(lhead, lnode) lstore \<Rightarrow> bool \<Rightarrow> u32 \<Rightarrow> aixos_tcb \<Rightarrow> bool" where
  "settled ls run a t \<longleftrightarrow>
     (nstat ls (ReadyN a) \<noteq> NNull \<longrightarrow> ready_state (t_state t)) \<and>
     (run \<and> ready_state (t_state t) \<longrightarrow> (\<exists>h. nstat ls (ReadyN a) = NIn h)) \<and>
     (t_state t \<noteq> AIXOS_TASK_STOP \<longrightarrow> nstat ls (AllN a) = NIn AllTasks) \<and>
     (\<forall>h. t_wait_list t = Some h \<longrightarrow> nstat ls (WaitN a) = NIn h)"

text \<open>The tasks in \<open>X\<close> are being moved and need not be settled.\<close>

definition kinvx :: "u32 set \<Rightarrow> kstate \<Rightarrow> bool" where
  "kinvx X s \<longleftrightarrow> queues_ok (k_ls s) (ready_bitmap s) \<and>
     (\<forall>n h a. nstat (k_ls s) n = NIn h \<longrightarrow> node_task n = Some a \<longrightarrow> tcbs s a \<noteq> None) \<and>
     (\<forall>a t. tcbs s a = Some t \<longrightarrow> tcb_ok t \<and> nodes_ok (k_ls s) a t) \<and>
     (\<forall>a t. a \<notin> X \<longrightarrow> tcbs s a = Some t \<longrightarrow> settled (k_ls s) (system_running s) a t) \<and>
     (cur_task s \<noteq> 0 \<longrightarrow> tcbs s (cur_task s) \<noteq> None)"

abbreviation (input) kinv :: "kstate \<Rightarrow> bool" where "kinv \<equiv> kinvx {}"

lemma kinvxD:
  assumes "kinvx X s"
  shows "queues_ok (k_ls s) (ready_bitmap s)"
    and "nstat (k_ls s) n = NIn h \<Longrightarrow> node_task n = Some a \<Longrightarrow> \<exists>t. tcbs s a = Some t"
    and "tcbs s a = Some t \<Longrightarrow> tcb_ok t"
    and "tcbs s a = Some t \<Longrightarrow> nodes_ok (k_ls s) a t"
    and "a \<notin> X \<Longrightarrow> tcbs s a = Some t \<Longrightarrow> settled (k_ls s) (system_running s) a t"
    and "cur_task s \<noteq> 0 \<Longrightarrow> \<exists>t. tcbs s (cur_task s) = Some t"
  using assms unfolding kinvx_def by blast+

lemma kinvxI:
  assumes "queues_ok (k_ls s) (ready_bitmap s)"
    and "\<And>n h a. nstat (k_ls s) n = NIn h \<Longrightarrow> node_task n = Some a \<Longrightarrow> tcbs s a \<noteq> None"
    and "\<And>a t. tcbs s a = Some t \<Longrightarrow> tcb_ok t"
    and "\<And>a t. tcbs s a = Some t \<Longrightarrow> nodes_ok (k_ls s) a t"
    and "\<And>a t. a \<notin> X \<Longrightarrow> tcbs s a = Some t \<Longrightarrow> settled (k_ls s) (system_running s) a t"
    and "cur_task s \<noteq> 0 \<Longrightarrow> tcbs s (cur_task s) \<noteq> None"
  shows "kinvx X s"
  using assms unfolding kinvx_def by blast

text \<open>The invariant reads five fields of the state.\<close>

lemma kinvx_cong:
  "k_ls s' = k_ls s \<Longrightarrow> ready_bitmap s' = ready_bitmap s \<Longrightarrow> tcbs s' = tcbs s \<Longrightarrow>
   system_running s' = system_running s \<Longrightarrow> cur_task s' = cur_task s \<Longrightarrow> kinvx X s' \<longleftrightarrow> kinvx X s"
  by (simp add: kinvx_def)

lemma kinvx_mono: "kinvx X s \<Longrightarrow> X \<subseteq> Y \<Longrightarrow> kinvx Y s"
  unfolding kinvx_def by blast

lemma kinvx_settle:
  assumes "kinvx (insert a X) s" "\<And>t. tcbs s a = Some t \<Longrightarrow> settled (k_ls s) (system_running s) a t"
  shows "kinvx X s"
proof (rule kinvxI)
  fix b t assume "b \<notin> X" "tcbs s b = Some t"
  then show "settled (k_ls s) (system_running s) b t"
    using assms(2) kinvxD(5)[OF assms(1)] by (cases "b = a") auto
qed (use kinvxD[OF assms(1)] in blast)+

lemma queues_okD:
  assumes "queues_ok ls bm"
  shows "lwf ls" "length bm = 4" "lists ls (ReadyQ p) \<noteq> None \<longleftrightarrow> p < AIXOS_CFG_MAX_PRIORITY"
    "p < AIXOS_CFG_MAX_PRIORITY \<Longrightarrow> bit (bm ! (p div 64)) (p mod 64) \<longleftrightarrow> lists ls (ReadyQ p) \<noteq> Some []"
    "nstat ls n = NIn h \<Longrightarrow> node_fits h n" "core_head h \<Longrightarrow> \<exists>xs. lists ls h = Some xs"
  using assms unfolding queues_ok_def by blast+

lemmas kinvx_lwf = queues_okD(1)[OF kinvxD(1)]
lemmas kinvx_fits = queues_okD(5)[OF kinvxD(1)]
lemmas kinvx_core = queues_okD(6)[OF kinvxD(1)]

lemma nodes_okD:
  assumes "nodes_ok ls a t"
  shows "a \<noteq> 0" "\<exists>xs. lists ls (HeldMutexes a) = Some xs" "nstat ls (WaitN a) \<noteq> NNull"
    "nstat ls (TimeoutN a) \<noteq> NNull" "nstat ls (ReadyN a) = NIn (ReadyQ p) \<Longrightarrow> t_priority t = int p"
    "nstat ls (WaitN a) = NIn h \<Longrightarrow> t_wait_list t = Some h"
    "nstat ls (WaitN a) = NIn h \<Longrightarrow> waiting_state (t_state t)"
    "nstat ls (TimeoutN a) = NIn h \<Longrightarrow> waiting_state (t_state t)"
  using assms unfolding nodes_ok_def by blast+

text \<open>The members of a list, and the nodes of a task.\<close>

lemma kinvx_members:
  assumes "kinvx X s" "lists (k_ls s) h = Some xs" "n \<in> set xs"
  shows "nstat (k_ls s) n = NIn h" "node_fits h n" "node_task n = Some a \<Longrightarrow> \<exists>t. tcbs s a = Some t"
proof -
  show N: "nstat (k_ls s) n = NIn h" using lwfD(2)[OF kinvx_lwf[OF assms(1)] assms(2,3)] .
  then show "node_fits h n" by (rule kinvx_fits[OF assms(1)])
  show "node_task n = Some a \<Longrightarrow> \<exists>t. tcbs s a = Some t" using kinvxD(2)[OF assms(1) N] .
qed

lemma kinvx_in_list:
  assumes "kinvx X s" "nstat (k_ls s) n = NIn h"
  shows "\<exists>xs. lists (k_ls s) h = Some xs \<and> n \<in> set xs"
  using lwfD(3)[OF kinvx_lwf[OF assms(1)] assms(2)] .

lemma first_waiter:
  assumes inv: "kinvx X s" and ne: "\<not> head_empty h s" and i: "lists (k_ls s) h \<noteq> None" and w: "is_wait_head h"
  shows "\<exists>a t. first_task h s = Some a \<and> tcbs s a = Some t \<and> a \<noteq> 0 \<and> nstat (k_ls s) (WaitN a) = NIn h \<and>
    waiting_state (t_state t)"
proof -
  obtain n xs where x: "lists (k_ls s) h = Some (n # xs)"
    using ne i by (cases "lists (k_ls s) h") (auto simp: head_empty_def list_is_empty_def neq_Nil_conv)
  have m: "nstat (k_ls s) n = NIn h" "node_fits h n" using kinvx_members[OF inv x, of n] by auto
  obtain a where a: "n = WaitN a" using fits_wait[OF w m(2)] by blast
  obtain t where t: "tcbs s a = Some t" using kinvxD(2)[OF inv m(1)] a by auto
  show ?thesis
    using x a t m(1) nodes_okD(1,7)[OF kinvxD(4)[OF inv t]] by (auto simp: first_task_def list_first_def)
qed

section \<open>The list operations\<close>

lemma on_ls_Some: "on_ls f s = Some s' \<Longrightarrow> \<exists>ls'. f (k_ls s) = Some ls' \<and> s' = s\<lparr>k_ls := ls'\<rparr>"
  by (auto simp: on_ls_def split: option.splits)

lemma returns_on_ls [simp]: "returns (on_ls f s) Q \<longleftrightarrow> returns (f (k_ls s)) (\<lambda>ls'. Q (s\<lparr>k_ls := ls'\<rparr>))"
  by (simp add: on_ls_def split: option.splits)

text \<open>Two stores that agree on the ready queues and keep every head.\<close>

definition same_heads :: "(lhead, lnode) lstore \<Rightarrow> (lhead, lnode) lstore \<Rightarrow> bool" where
  "same_heads ls ls' \<longleftrightarrow> (\<forall>p. lists ls' (ReadyQ p) = lists ls (ReadyQ p)) \<and>
     (\<forall>h. core_head h \<or> (\<exists>a. h = HeldMutexes a) \<longrightarrow> lists ls h \<noteq> None \<longrightarrow> lists ls' h \<noteq> None)"

lemma queues_ok_lists:
  assumes q: "queues_ok ls bm" and wf: "lwf ls'" and R: "same_heads ls ls'"
    and N: "\<And>n h. nstat ls' n = NIn h \<Longrightarrow> nstat ls n = NIn h \<or> node_fits h n"
  shows "queues_ok ls' bm"
proof -
  have R': "lists ls' (ReadyQ p) = lists ls (ReadyQ p)" for p using R by (simp add: same_heads_def)
  have C: "core_head h \<Longrightarrow> lists ls' h \<noteq> None" for h
    using R queues_okD(6)[OF q, of h] unfolding same_heads_def by (metis option.discI)
  show ?thesis
    using q wf C N unfolding queues_ok_def R' by blast
qed

text \<open>A node other than a ready node gets a new status; only the task it belongs to can notice.\<close>

definition node_may_be :: "u32 set \<Rightarrow> kstate \<Rightarrow> lnode \<Rightarrow> lhead nstate \<Rightarrow> bool" where
  "node_may_be X s n st \<longleftrightarrow>
     (case st of NIn h \<Rightarrow> node_fits h n \<and> (\<forall>a. node_task n = Some a \<longrightarrow> tcbs s a \<noteq> None) | _ \<Rightarrow> True) \<and>
     (case n of
        ReadyN a \<Rightarrow> False
      | WaitN a \<Rightarrow> (\<forall>t. tcbs s a = Some t \<longrightarrow>
          (case st of NNull \<Rightarrow> False
           | NSelf \<Rightarrow> a \<in> X \<or> t_wait_list t = None
           | NIn h \<Rightarrow> t_wait_list t = Some h \<and> waiting_state (t_state t)))
      | TimeoutN a \<Rightarrow> (\<forall>t. tcbs s a = Some t \<longrightarrow>
          (case st of NNull \<Rightarrow> False | NSelf \<Rightarrow> True | NIn h \<Rightarrow> waiting_state (t_state t)))
      | AllN a \<Rightarrow> (\<forall>t. tcbs s a = Some t \<longrightarrow> a \<in> X \<or> t_state t = AIXOS_TASK_STOP \<or> st = NIn AllTasks)
      | _ \<Rightarrow> True)"

lemma kinvx_node:
  assumes inv: "kinvx X s" and wf: "lwf ls'" and R: "same_heads (k_ls s) ls'"
    and N: "nstat ls' = (nstat (k_ls s))(n := st)" and ok: "node_may_be X s n st"
  shows "kinvx X (s\<lparr>k_ls := ls'\<rparr>)"
proof -
  have nr: "n \<noteq> ReadyN a" for a using ok by (auto simp: node_may_be_def)
  have fit: "st = NIn h \<Longrightarrow> node_fits h n" for h using ok by (auto simp: node_may_be_def)
  have live: "st = NIn h \<Longrightarrow> node_task n = Some a \<Longrightarrow> tcbs s a \<noteq> None" for h a
    using ok by (auto simp: node_may_be_def)
  show ?thesis
  proof (rule kinvxI)
    show "queues_ok (k_ls (s\<lparr>k_ls := ls'\<rparr>)) (ready_bitmap (s\<lparr>k_ls := ls'\<rparr>))"
      using queues_ok_lists[OF kinvxD(1)[OF inv] wf R] N fit by (auto split: if_splits)
  next
    fix m h a assume "nstat (k_ls (s\<lparr>k_ls := ls'\<rparr>)) m = NIn h" "node_task m = Some a"
    then show "tcbs (s\<lparr>k_ls := ls'\<rparr>) a \<noteq> None"
      using live kinvxD(2)[OF inv, of m h a] by (cases "m = n") (auto simp: N)
  next
    fix a t assume "tcbs (s\<lparr>k_ls := ls'\<rparr>) a = Some t"
    then show "tcb_ok t" using kinvxD(3)[OF inv] by simp
  next
    fix a t assume t: "tcbs (s\<lparr>k_ls := ls'\<rparr>) a = Some t"
    then have o: "nodes_ok (k_ls s) a t" using kinvxD(4)[OF inv] by simp
    have "lists ls' (HeldMutexes a) \<noteq> None" using R nodes_okD(2)[OF o] by (auto simp: same_heads_def)
    then show "nodes_ok (k_ls (s\<lparr>k_ls := ls'\<rparr>)) a t"
      using o ok nr t unfolding nodes_ok_def node_may_be_def
      by (cases n) (auto simp: N split: nstate.splits)
  next
    fix a t assume t: "a \<notin> X" "tcbs (s\<lparr>k_ls := ls'\<rparr>) a = Some t"
    then have o: "settled (k_ls s) (system_running s) a t" using kinvxD(5)[OF inv] by simp
    have o2: "nodes_ok (k_ls s) a t" using t kinvxD(4)[OF inv] by simp
    show "settled (k_ls (s\<lparr>k_ls := ls'\<rparr>)) (system_running (s\<lparr>k_ls := ls'\<rparr>)) a t"
      using o ok nr t unfolding settled_def node_may_be_def
      by (cases n) (auto simp: N split: nstate.splits)
  qed (use kinvxD(6)[OF inv] in auto)
qed

lemma add_tail_Some:
  assumes "list_add_tail n h ls = Some ls'"
  obtains xs where "lists ls h = Some xs" "\<not> linked n ls" "lists ls' = (lists ls)(h \<mapsto> xs @ [n])"
    "nstat ls' = (nstat ls)(n := NIn h)"
  using assms by (auto simp: list_add_tail_def split: option.splits if_splits)

lemma add_before_Some:
  assumes "list_add_before n p ls = Some ls'"
  obtains h xs where "nstat ls p = NIn h" "lists ls h = Some xs" "\<not> linked n ls"
    "lists ls' = (lists ls)(h \<mapsto> insert_before n p xs)" "nstat ls' = (nstat ls)(n := NIn h)"
  using assms by (auto simp: list_add_before_def split: nstate.splits option.splits if_splits)

lemma list_del_Some:
  assumes "list_del n ls = Some ls'"
  shows "nstat ls' = (nstat ls)(n := NNull)"
    "\<And>h. lists ls' h = (if nstat ls n = NIn h then map_option (remove1 n) (lists ls h) else lists ls h)"
  using assms by (auto simp: list_del_def split: nstate.splits)

lemma init_node_Some:
  assumes "list_init_node n ls = Some ls'"
  shows "nstat ls' = (nstat ls)(n := NSelf)" "lists ls' = lists ls" "\<not> linked n ls"
  using assms by (auto simp: list_init_node_def split: if_splits)

text \<open>\<open>list_del\<close> followed by \<open>list_init\<close>.\<close>

lemma unlink_node_eq:
  assumes "nstatus n s \<noteq> NNull"
  obtains ls' where "unlink_node n s = Some (s\<lparr>k_ls := ls'\<rparr>)" "nstat ls' = (nstat (k_ls s))(n := NSelf)"
    "\<forall>h. lists ls' h = (if nstat (k_ls s) n = NIn h then map_option (remove1 n) (lists (k_ls s) h) else lists (k_ls s) h)"
    "lwf (k_ls s) \<longrightarrow> lwf ls'"
proof -
  obtain l1 where l1: "list_del n (k_ls s) = Some l1"
    using assms by (cases "nstat (k_ls s) n") (simp_all add: nstatus_def list_del_def)
  note d = list_del_Some[OF l1]
  obtain l2 where l2: "list_init_node n l1 = Some l2"
    using d(1) by (auto simp: list_init_node_def linked_def)
  note i = init_node_Some[OF l2]
  show thesis
  proof (rule that[of l2])
    show "unlink_node n s = Some (s\<lparr>k_ls := l2\<rparr>)" using l1 l2 by (simp add: unlink_node_def on_ls_def)
    show "nstat l2 = (nstat (k_ls s))(n := NSelf)" using i(1) d(1) by simp
    show "lwf (k_ls s) \<longrightarrow> lwf l2" using list_init_node_lwf[OF l2] list_del_lwf[OF l1] by blast
  qed (use i(2) d(2) in simp)
qed

text \<open>How an operation may change the lists: the nodes in \<open>A\<close> and the heads that satisfy \<open>H\<close>; no head
  is lost.\<close>

definition ls_frame :: "lnode set \<Rightarrow> (lhead \<Rightarrow> bool) \<Rightarrow> (lhead, lnode) lstore \<Rightarrow> (lhead, lnode) lstore \<Rightarrow> bool" where
  "ls_frame A H ls ls' \<longleftrightarrow> (\<forall>n. n \<notin> A \<longrightarrow> nstat ls' n = nstat ls n) \<and> (\<forall>h. \<not> H h \<longrightarrow> lists ls' h = lists ls h) \<and>
     (\<forall>h. lists ls' h = None \<longleftrightarrow> lists ls h = None)"

lemma ls_frame_refl [simp]: "ls_frame A H ls ls"
  by (simp add: ls_frame_def)

lemma ls_frame_trans: "ls_frame A H ls ls' \<Longrightarrow> ls_frame B H' ls' ls'' \<Longrightarrow> ls_frame (A \<union> B) (\<lambda>h. H h \<or> H' h) ls ls''"
  by (simp add: ls_frame_def)

lemma ls_frame_heads: "ls_frame A H ls ls' \<Longrightarrow> (\<And>p. \<not> H (ReadyQ p)) \<Longrightarrow> same_heads ls ls'"
  by (simp add: ls_frame_def same_heads_def)

end
