(* ===== verification/Ksched.thy ===== *)
theory Ksched
  imports Kinv
begin

text \<open>
  The scheduler primitives under the invariant of \<open>Kinv\<close>: each returns, keeps the invariant and
  changes only what \<open>sched_frame\<close> allows; and what exactly the ready queue operations do.
\<close>

section \<open>What blocking, waking and requeueing may change\<close>

fun sched_node :: "lnode \<Rightarrow> bool" where
  "sched_node (ReadyN _) = True"
| "sched_node (WaitN _) = True"
| "sched_node (TimeoutN _) = True"
| "sched_node _ = False"

fun sched_head :: "lhead \<Rightarrow> bool" where
  "sched_head (ReadyQ _) = True"
| "sched_head TimeoutList = True"
| "sched_head h = is_wait_head h"

definition tcb_frame :: "aixos_tcb \<Rightarrow> aixos_tcb \<Rightarrow> bool" where
  "tcb_frame t t' \<longleftrightarrow> t_handle t' = t_handle t \<and> (t_state t' = AIXOS_TASK_STOP \<longleftrightarrow> t_state t = AIXOS_TASK_STOP)"

lemma tcb_frame_refl [simp]: "tcb_frame t t"
  by (simp add: tcb_frame_def)

lemma tcb_frame_trans: "tcb_frame t t' \<Longrightarrow> tcb_frame t' t'' \<Longrightarrow> tcb_frame t t''"
  by (simp add: tcb_frame_def)

text \<open>The fields that no scheduler primitive writes.\<close>

definition sched_rest :: "kstate \<Rightarrow> kstate" where
  "sched_rest s = s\<lparr>k_ls := ls_zero, tcbs := Map.empty, ready_bitmap := [], k_isr := isr_boot, k_switch := False\<rparr>"

lemma sched_rest_upd [simp]:
  "sched_rest (s\<lparr>k_ls := ls\<rparr>) = sched_rest s" "sched_rest (s\<lparr>tcbs := T\<rparr>) = sched_rest s"
  "sched_rest (s\<lparr>ready_bitmap := bm\<rparr>) = sched_rest s" "sched_rest (s\<lparr>k_isr := i\<rparr>) = sched_rest s"
  "sched_rest (s\<lparr>k_switch := b\<rparr>) = sched_rest s"
  by (simp_all add: sched_rest_def)

lemma sched_rest_sel:
  "k_obj (sched_rest s) = k_obj s"
  "cur_task (sched_rest s) = cur_task s"
  "system_running (sched_rest s) = system_running s"
  "sem_pool (sched_rest s) = sem_pool s"
  "mutex_pool (sched_rest s) = mutex_pool s"
  "mq_pool (sched_rest s) = mq_pool s"
  "event_pool (sched_rest s) = event_pool s"
  "pipe_pool (sched_rest s) = pipe_pool s"
  "timer_pool (sched_rest s) = timer_pool s"
  "total_ticks (sched_rest s) = total_ticks s"
  "k_heap (sched_rest s) = k_heap s"
  "task_count (sched_rest s) = task_count s"
  "tw_low (sched_rest s) = tw_low s"
  "tw_high (sched_rest s) = tw_high s"
  by (simp_all add: sched_rest_def)

lemma sched_restD:
  assumes "sched_rest s' = sched_rest s"
  shows "k_obj s' = k_obj s"
    "cur_task s' = cur_task s"
    "system_running s' = system_running s"
    "sem_pool s' = sem_pool s"
    "mutex_pool s' = mutex_pool s"
    "mq_pool s' = mq_pool s"
    "event_pool s' = event_pool s"
    "pipe_pool s' = pipe_pool s"
    "timer_pool s' = timer_pool s"
    "total_ticks s' = total_ticks s"
    "k_heap s' = k_heap s"
    "task_count s' = task_count s"
    "tw_low s' = tw_low s"
    "tw_high s' = tw_high s"
  using sched_rest_sel[of s] sched_rest_sel[of s'] assms by simp_all

definition sched_frame :: "kstate \<Rightarrow> kstate \<Rightarrow> bool" where
  "sched_frame s s' \<longleftrightarrow> sched_rest s' = sched_rest s \<and> in_isr s' = in_isr s \<and> sched_locked s' = sched_locked s \<and>
     ls_frame {n. sched_node n} sched_head (k_ls s) (k_ls s') \<and>
     (\<forall>a. rel_option tcb_frame (tcbs s a) (tcbs s' a))"

lemma sched_frame_refl [simp]: "sched_frame s s"
  by (simp add: sched_frame_def option.rel_refl)

lemma rel_option_tcb_trans:
  "rel_option tcb_frame x y \<Longrightarrow> rel_option tcb_frame y z \<Longrightarrow> rel_option tcb_frame x z"
  by (cases x; cases y; cases z) (auto intro: tcb_frame_trans)

lemma sched_frame_trans:
  assumes "sched_frame s s'" "sched_frame s' s''"
  shows "sched_frame s s''"
proof -
  have "ls_frame {n. sched_node n} sched_head (k_ls s) (k_ls s'')"
    using assms ls_frame_trans unfolding sched_frame_def by fastforce
  then show ?thesis using assms rel_option_tcb_trans unfolding sched_frame_def by metis
qed

lemma sched_frame_ls:
  "ls_frame A H (k_ls s) ls' \<Longrightarrow> A \<subseteq> {n. sched_node n} \<Longrightarrow> (\<And>h. H h \<Longrightarrow> sched_head h) \<Longrightarrow> sched_frame s (s\<lparr>k_ls := ls'\<rparr>)"
  by (auto simp: sched_frame_def ls_frame_def in_isr_def sched_locked_def option.rel_refl)

lemma sched_frame_tcb:
  "tcbs s a = Some t \<Longrightarrow> tcb_frame t t' \<Longrightarrow> sched_frame s (s\<lparr>tcbs := (tcbs s)(a \<mapsto> t')\<rparr>)"
  by (auto simp: sched_frame_def in_isr_def sched_locked_def option.rel_refl)

lemma sched_frameD:
  assumes "sched_frame s s'"
  shows "sched_rest s' = sched_rest s" "in_isr s' = in_isr s" "sched_locked s' = sched_locked s"
    "\<not> sched_node n \<Longrightarrow> nstat (k_ls s') n = nstat (k_ls s) n" "\<not> sched_head h \<Longrightarrow> lists (k_ls s') h = lists (k_ls s) h"
    "lists (k_ls s') h = None \<longleftrightarrow> lists (k_ls s) h = None" "tcbs s' a = None \<longleftrightarrow> tcbs s a = None"
    "tcbs s a = Some t \<Longrightarrow> \<exists>t'. tcbs s' a = Some t' \<and> tcb_frame t t'"
    "tcbs s' a = Some t' \<Longrightarrow> \<exists>t. tcbs s a = Some t \<and> tcb_frame t t'"
proof -
  have r: "rel_option tcb_frame (tcbs s a) (tcbs s' a)" using assms by (simp add: sched_frame_def)
  show "tcbs s' a = None \<longleftrightarrow> tcbs s a = None" "tcbs s a = Some t \<Longrightarrow> \<exists>t'. tcbs s' a = Some t' \<and> tcb_frame t t'"
    "tcbs s' a = Some t' \<Longrightarrow> \<exists>t. tcbs s a = Some t \<and> tcb_frame t t'"
    using r by (auto simp: option_rel_Some1 option_rel_Some2 rel_option_None1 elim: option.rel_cases)
qed (use assms in \<open>auto simp: sched_frame_def ls_frame_def\<close>)

lemmas frame_rest = sched_restD[OF sched_frameD(1)]

section \<open>Sorted insertion\<close>

lemma find_position_split:
  assumes "\<And>m. m \<in> set xs \<Longrightarrow> P m \<noteq> None"
  shows "\<exists>us vs. xs = us @ vs \<and> find_position P xs = Some (if vs = [] then None else Some (hd vs)) \<and>
    (\<forall>u \<in> set us. P u = Some False) \<and> (vs \<noteq> [] \<longrightarrow> P (hd vs) = Some True)"
  using assms
proof (induction xs)
  case (Cons x xs)
  have "\<And>m. m \<in> set xs \<Longrightarrow> P m \<noteq> None" using Cons.prems by simp
  then obtain us vs where ih: "xs = us @ vs" "find_position P xs = Some (if vs = [] then None else Some (hd vs))"
    "\<forall>u \<in> set us. P u = Some False" "vs \<noteq> [] \<longrightarrow> P (hd vs) = Some True" using Cons.IH by blast
  obtain b where b: "P x = Some b" using Cons.prems[of x] by auto
  show ?case
  proof (cases b)
    case True
    then show ?thesis using b by (intro exI[of _ "[]"] exI[of _ "x # xs"]) simp
  next
    case False
    then show ?thesis using b ih by (intro exI[of _ "x # us"] exI[of _ vs]) auto
  qed
next
  case Nil
  show ?case by (intro exI[of _ "[]"]) simp
qed

lemma insert_sorted_eq:
  assumes wf: "lwf (k_ls s)" and xs: "lists (k_ls s) h = Some xs" and P: "\<And>m. m \<in> set xs \<Longrightarrow> P m \<noteq> None"
    and nl: "\<not> linked n (k_ls s)"
  obtains ls' us vs where "insert_sorted P n h s = Some (s\<lparr>k_ls := ls'\<rparr>)" "xs = us @ vs"
    "lists ls' = (lists (k_ls s))(h \<mapsto> us @ n # vs)" "nstat ls' = (nstat (k_ls s))(n := NIn h)" "lwf ls'"
    "\<forall>u \<in> set us. P u = Some False" "vs \<noteq> [] \<longrightarrow> P (hd vs) = Some True"
proof -
  obtain us vs where u: "xs = us @ vs" "find_position P xs = Some (if vs = [] then None else Some (hd vs))"
    "\<forall>u \<in> set us. P u = Some False" "vs \<noteq> [] \<longrightarrow> P (hd vs) = Some True"
    using find_position_split[of xs P, OF P] by blast
  define ls' where "ls' = (k_ls s)\<lparr>lists := (lists (k_ls s))(h \<mapsto> us @ n # vs), nstat := (nstat (k_ls s))(n := NIn h)\<rparr>"
  have e: "insert_sorted P n h s = Some (s\<lparr>k_ls := ls'\<rparr>) \<and> lwf ls'"
  proof (cases vs)
    case Nil
    then have a: "list_add_tail n h (k_ls s) = Some ls'"
      using xs nl u(1) by (simp add: list_add_tail_def ls'_def)
    then show ?thesis
      using xs u Nil list_add_tail_lwf[OF a wf] by (simp add: insert_sorted_def members_def on_ls_def)
  next
    case (Cons v ws)
    then have p: "nstat (k_ls s) v = NIn h" using lwfD(2)[OF wf xs, of v] u(1) by simp
    have "v \<notin> set us" using lwfD(1)[OF wf xs] u(1) Cons by auto
    then have a: "list_add_before n v (k_ls s) = Some ls'"
      using xs nl u(1) Cons p by (simp add: list_add_before_def ls'_def insert_before_split)
    then show ?thesis
      using xs u Cons list_add_before_lwf[OF a wf] by (simp add: insert_sorted_def members_def on_ls_def)
  qed
  show thesis by (rule that[of ls' us vs]) (use e u in \<open>simp_all add: ls'_def\<close>)
qed

section \<open>Writes to a control block\<close>

lemma upd_tcb_eq: "tcbs s a = Some t \<Longrightarrow> upd_tcb a f s = Some (s\<lparr>tcbs := (tcbs s)(a \<mapsto> f t)\<rparr>)"
  by (simp add: upd_tcb_def)

lemma returns_upd_tcb: "tcbs s a = Some t \<Longrightarrow> returns (upd_tcb a f s) Q \<longleftrightarrow> Q (s\<lparr>tcbs := (tcbs s)(a \<mapsto> f t)\<rparr>)"
  by (simp add: upd_tcb_eq)

lemma kinvx_tcb:
  assumes inv: "kinvx X s" and t: "tcbs s a = Some t" and ok: "tcb_ok t'" "nodes_ok (k_ls s) a t'"
    and st: "a \<notin> X \<Longrightarrow> settled (k_ls s) (system_running s) a t'"
  shows "kinvx X (s\<lparr>tcbs := (tcbs s)(a \<mapsto> t')\<rparr>)"
proof (rule kinvxI)
  fix n h b assume "nstat (k_ls (s\<lparr>tcbs := (tcbs s)(a \<mapsto> t')\<rparr>)) n = NIn h" "node_task n = Some b"
  then show "tcbs (s\<lparr>tcbs := (tcbs s)(a \<mapsto> t')\<rparr>) b \<noteq> None" using kinvxD(2)[OF inv, of n h b] by auto
next
  fix b u assume "tcbs (s\<lparr>tcbs := (tcbs s)(a \<mapsto> t')\<rparr>) b = Some u"
  then show "tcb_ok u" "nodes_ok (k_ls (s\<lparr>tcbs := (tcbs s)(a \<mapsto> t')\<rparr>)) b u"
    using ok kinvxD(3,4)[OF inv] by (auto split: if_splits)
next
  fix b u assume "b \<notin> X" "tcbs (s\<lparr>tcbs := (tcbs s)(a \<mapsto> t')\<rparr>) b = Some u"
  then show "settled (k_ls (s\<lparr>tcbs := (tcbs s)(a \<mapsto> t')\<rparr>)) (system_running (s\<lparr>tcbs := (tcbs s)(a \<mapsto> t')\<rparr>)) b u"
    using st kinvxD(5)[OF inv] by (auto split: if_splits)
qed (use kinvxD(1,6)[OF inv] in auto)

text \<open>A write that the invariant does not notice.\<close>

definition same_core :: "aixos_tcb \<Rightarrow> aixos_tcb \<Rightarrow> bool" where
  "same_core t t' \<longleftrightarrow> t_priority t' = t_priority t \<and> t_base_priority t' = t_base_priority t \<and> t_state t' = t_state t \<and>
     t_wait_obj t' = t_wait_obj t \<and> t_wait_list t' = t_wait_list t \<and> t_wait_type t' = t_wait_type t \<and>
     t_handle t' = t_handle t"

lemma same_core_frame: "same_core t t' \<Longrightarrow> tcb_frame t t'"
  by (simp add: same_core_def tcb_frame_def)

lemma kinvx_tcb_core:
  assumes inv: "kinvx X s" and t: "tcbs s a = Some t" and c: "same_core t t'"
  shows "kinvx X (s\<lparr>tcbs := (tcbs s)(a \<mapsto> t')\<rparr>)"
proof (rule kinvx_tcb[OF inv t])
  show "tcb_ok t'" using kinvxD(3)[OF inv t] c by (simp add: tcb_ok_def same_core_def waits_for_mutex_def)
  show "nodes_ok (k_ls s) a t'" using kinvxD(4)[OF inv t] c by (simp add: nodes_ok_def same_core_def)
  show "a \<notin> X \<Longrightarrow> settled (k_ls s) (system_running s) a t'"
    using kinvxD(5)[OF inv _ t] c by (simp add: settled_def same_core_def)
qed

section \<open>The ready queues\<close>

lemma bitmap_bit:
  assumes "length bm = 4" "p < 256" "q < 256"
  shows "bit ((bm :: u64 list)[p div 64 := bm ! (p div 64) OR bitm (p mod 64)] ! (q div 64)) (q mod 64) \<longleftrightarrow>
      q = p \<or> bit (bm ! (q div 64)) (q mod 64)"
    "bit ((bm :: u64 list)[p div 64 := bm ! (p div 64) AND NOT (bitm (p mod 64))] ! (q div 64)) (q mod 64) \<longleftrightarrow>
      q \<noteq> p \<and> bit (bm ! (q div 64)) (q mod 64)"
proof -
  have d: "p div 64 < 4" "q div 64 < 4" using assms by auto
  have e: "q div 64 = p div 64 \<Longrightarrow> q mod 64 = p mod 64 \<longleftrightarrow> q = p" by (metis div_mult_mod_eq)
  have m: "p mod 64 < 64" by simp
  show "bit (bm[p div 64 := bm ! (p div 64) OR bitm (p mod 64)] ! (q div 64)) (q mod 64) \<longleftrightarrow>
      q = p \<or> bit (bm ! (q div 64)) (q mod 64)"
    using d e m assms(1) by (cases "q div 64 = p div 64") (auto simp: bitmap_simps)
  show "bit (bm[p div 64 := bm ! (p div 64) AND NOT (bitm (p mod 64))] ! (q div 64)) (q mod 64) \<longleftrightarrow>
      q \<noteq> p \<and> bit (bm ! (q div 64)) (q mod 64)"
    using d e m assms(1) by (cases "q div 64 = p div 64") (auto simp: bitmap_simps)
qed

text \<open>One ready queue changes, by one node.\<close>

lemma queues_ok_ready:
  assumes q: "queues_ok ls bm" and wf: "lwf ls'" and p: "p < AIXOS_CFG_MAX_PRIORITY"
    and L: "lists ls' = (lists ls)(ReadyQ p \<mapsto> ys)" and N: "nstat ls' = (nstat ls)(ReadyN a := st)"
    and st: "\<And>h. st = NIn h \<Longrightarrow> h = ReadyQ p" and bm: "length bm' = 4"
    "\<And>r. r < AIXOS_CFG_MAX_PRIORITY \<Longrightarrow> bit (bm' ! (r div 64)) (r mod 64) \<longleftrightarrow>
       (if r = p then ys \<noteq> [] else bit (bm ! (r div 64)) (r mod 64))"
  shows "queues_ok ls' bm'"
  unfolding queues_ok_def
proof (intro conjI allI impI)
  fix r show "lists ls' (ReadyQ r) \<noteq> None \<longleftrightarrow> r < AIXOS_CFG_MAX_PRIORITY"
    using queues_okD(3)[OF q, of r] p by (simp add: L)
  show "r < AIXOS_CFG_MAX_PRIORITY \<Longrightarrow> bit (bm' ! (r div 64)) (r mod 64) \<longleftrightarrow> lists ls' (ReadyQ r) \<noteq> Some []"
    using queues_okD(4)[OF q, of r] bm(2)[of r] by (simp add: L)
next
  fix n h assume "nstat ls' n = NIn h"
  then show "node_fits h n" using queues_okD(5)[OF q, of n h] st by (auto simp: N split: if_splits)
next
  fix h assume "core_head h"
  then show "lists ls' h \<noteq> None" using queues_okD(6)[OF q, of h] by (auto simp: L)
qed (use wf bm(1) in simp_all)

lemma kinvx_ready:
  assumes inv: "kinvx (insert a X) s" and q: "queues_ok ls' bm'"
    and H: "\<And>b. lists ls' (HeldMutexes b) = lists (k_ls s) (HeldMutexes b)"
    and N: "nstat ls' = (nstat (k_ls s))(ReadyN a := st)"
    and t: "tcbs s a = Some t" and st: "\<And>p. st = NIn (ReadyQ p) \<Longrightarrow> t_priority t = int p"
  shows "kinvx (insert a X) (s\<lparr>k_ls := ls', ready_bitmap := bm'\<rparr>)"
proof (rule kinvxI)
  fix n h b assume "nstat (k_ls (s\<lparr>k_ls := ls', ready_bitmap := bm'\<rparr>)) n = NIn h" "node_task n = Some b"
  then show "tcbs (s\<lparr>k_ls := ls', ready_bitmap := bm'\<rparr>) b \<noteq> None"
    using t kinvxD(2)[OF inv, of n h b] by (auto simp: N split: if_splits)
next
  fix b u assume "tcbs (s\<lparr>k_ls := ls', ready_bitmap := bm'\<rparr>) b = Some u"
  then show "nodes_ok (k_ls (s\<lparr>k_ls := ls', ready_bitmap := bm'\<rparr>)) b u"
    using kinvxD(4)[OF inv, of b u] t st by (auto simp: nodes_ok_def N H)
next
  fix b u assume "b \<notin> insert a X" "tcbs (s\<lparr>k_ls := ls', ready_bitmap := bm'\<rparr>) b = Some u"
  then show "settled (k_ls (s\<lparr>k_ls := ls', ready_bitmap := bm'\<rparr>)) (system_running (s\<lparr>k_ls := ls', ready_bitmap := bm'\<rparr>)) b u"
    using kinvxD(5)[OF inv, of b u] by (auto simp: settled_def N)
qed (use q kinvxD(3,6)[OF inv] in auto)

lemma add_task_eq:
  assumes inv: "kinvx X s" and t: "tcbs s a = Some t" and nl: "\<not> linked (ReadyN a) (k_ls s)"
  obtains ls' bm' xs p where "aixos_sched_add_task a s = Some (s\<lparr>k_ls := ls', ready_bitmap := bm'\<rparr>)"
    "t_priority t = int p" "p < AIXOS_CFG_MAX_PRIORITY" "lists (k_ls s) (ReadyQ p) = Some xs"
    "lists ls' = (lists (k_ls s))(ReadyQ p \<mapsto> xs @ [ReadyN a])"
    "nstat ls' = (nstat (k_ls s))(ReadyN a := NIn (ReadyQ p))" "queues_ok ls' bm'"
proof -
  note q = kinvxD(1)[OF inv]
  obtain p where p: "t_priority t = int p" "p < AIXOS_CFG_MAX_PRIORITY"
    using kinvxD(3)[OF inv t] by (metis tcb_ok_def prio_ok_def nonneg_int_cases of_nat_less_iff)
  obtain xs where xs: "lists (k_ls s) (ReadyQ p) = Some xs" using queues_okD(3)[OF q, of p] p(2) by auto
  define ls' where "ls' = (k_ls s)\<lparr>lists := (lists (k_ls s))(ReadyQ p \<mapsto> xs @ [ReadyN a]),
    nstat := (nstat (k_ls s))(ReadyN a := NIn (ReadyQ p))\<rparr>"
  define bm' where "bm' = (ready_bitmap s)[p div 64 := ready_bitmap s ! (p div 64) OR bitm (p mod 64)]"
  have a: "list_add_tail (ReadyN a) (ReadyQ p) (k_ls s) = Some ls'"
    using xs nl by (simp add: list_add_tail_def ls'_def)
  have l4: "length (ready_bitmap s) = 4" by (rule queues_okD(2)[OF q])
  have "queues_ok ls' bm'"
  proof (rule queues_ok_ready[OF q list_add_tail_lwf[OF a queues_okD(1)[OF q]] p(2)])
    show "lists ls' = (lists (k_ls s))(ReadyQ p \<mapsto> xs @ [ReadyN a])"
      "nstat ls' = (nstat (k_ls s))(ReadyN a := NIn (ReadyQ p))" by (simp_all add: ls'_def)
    show "length bm' = 4" using l4 by (simp add: bm'_def)
    fix r assume "r < AIXOS_CFG_MAX_PRIORITY"
    then show "bit (bm' ! (r div 64)) (r mod 64) \<longleftrightarrow>
       (if r = p then xs @ [ReadyN a] \<noteq> [] else bit (ready_bitmap s ! (r div 64)) (r mod 64))"
      using bitmap_bit(1)[OF l4, of p r] p(2) by (simp add: bm'_def)
  qed auto
  moreover have "aixos_sched_add_task a s = Some (s\<lparr>k_ls := ls', ready_bitmap := bm'\<rparr>)"
    using nodes_okD(1)[OF kinvxD(4)[OF inv t]] t p a
    by (simp add: aixos_sched_add_task_def on_ls_def bitmap_set_def bm'_def)
  ultimately show thesis using that p xs by (simp add: ls'_def)
qed

lemma ready_unlink_eq:
  assumes q: "queues_ok (k_ls s) (ready_bitmap s)" and p: "p < AIXOS_CFG_MAX_PRIORITY"
    and N: "nstat (k_ls s) (ReadyN a) = NSelf \<or> nstat (k_ls s) (ReadyN a) = NIn (ReadyQ p)"
  obtains ls' bm' xs where "ready_unlink a (int p) s = Some (s\<lparr>k_ls := ls', ready_bitmap := bm'\<rparr>)"
    "lists (k_ls s) (ReadyQ p) = Some xs" "lists ls' = (lists (k_ls s))(ReadyQ p \<mapsto> remove1 (ReadyN a) xs)"
    "nstat ls' = (nstat (k_ls s))(ReadyN a := NNull)" "queues_ok ls' bm'"
proof -
  obtain xs where xs: "lists (k_ls s) (ReadyQ p) = Some xs" using queues_okD(3)[OF q, of p] p by auto
  note wf = queues_okD(1)[OF q]
  define ls' where "ls' = (k_ls s)\<lparr>lists := (lists (k_ls s))(ReadyQ p \<mapsto> remove1 (ReadyN a) xs),
    nstat := (nstat (k_ls s))(ReadyN a := NNull)\<rparr>"
  define bm' where "bm' = (if remove1 (ReadyN a) xs = []
    then (ready_bitmap s)[p div 64 := ready_bitmap s ! (p div 64) AND NOT (bitm (p mod 64))] else ready_bitmap s)"
  have d: "list_del (ReadyN a) (k_ls s) = Some ls'"
  proof (cases "nstat (k_ls s) (ReadyN a) = NSelf")
    case True
    then have "ReadyN a \<notin> set xs" using lwfD(2)[OF wf xs] by force
    then have "remove1 (ReadyN a) xs = xs" by (rule remove1_idem)
    then have "(lists (k_ls s))(ReadyQ p \<mapsto> remove1 (ReadyN a) xs) = lists (k_ls s)" using xs by auto
    then show ?thesis using True by (simp add: list_del_def ls'_def)
  next
    case False
    then show ?thesis using N xs by (simp add: list_del_def ls'_def)
  qed
  have l4: "length (ready_bitmap s) = 4" by (rule queues_okD(2)[OF q])
  have "queues_ok ls' bm'"
  proof (rule queues_ok_ready[OF q list_del_lwf[OF d wf] p])
    show "lists ls' = (lists (k_ls s))(ReadyQ p \<mapsto> remove1 (ReadyN a) xs)"
      "nstat ls' = (nstat (k_ls s))(ReadyN a := NNull)" by (simp_all add: ls'_def)
    show "length bm' = 4" using l4 by (simp add: bm'_def)
    fix r assume r: "r < AIXOS_CFG_MAX_PRIORITY"
    show "bit (bm' ! (r div 64)) (r mod 64) \<longleftrightarrow>
       (if r = p then remove1 (ReadyN a) xs \<noteq> [] else bit (ready_bitmap s ! (r div 64)) (r mod 64))"
    proof (cases "remove1 (ReadyN a) xs = []")
      case True
      then show ?thesis using bitmap_bit(2)[OF l4, of p r] p r by (simp add: bm'_def)
    next
      case False
      then have "xs \<noteq> []" by auto
      then show ?thesis using queues_okD(4)[OF q p] xs False by (simp add: bm'_def)
    qed
  qed auto
  moreover have "ready_unlink a (int p) s = Some (s\<lparr>k_ls := ls', ready_bitmap := bm'\<rparr>)"
    using d p by (simp add: ready_unlink_def on_ls_def ready_queue_def head_empty_def list_is_empty_def bitmap_clear_def
        bm'_def ls'_def)
  ultimately show thesis using that xs by (simp add: ls'_def)
qed

lemma ready_not_linked: "nstat ls (ReadyN a) = NNull \<or> nstat ls (ReadyN a) = NSelf \<Longrightarrow> \<not> linked (ReadyN a) ls"
  by (auto simp: linked_def)

lemma sched_frame_ready:
  assumes "lists ls' = (lists (k_ls s))(ReadyQ p \<mapsto> ys)" "lists (k_ls s) (ReadyQ p) = Some xs"
    "nstat ls' = (nstat (k_ls s))(ReadyN a := st)"
  shows "sched_frame s (s\<lparr>k_ls := ls', ready_bitmap := bm'\<rparr>)"
  using assms by (auto simp: sched_frame_def ls_frame_def in_isr_def sched_locked_def option.rel_refl)

lemma add_task_kinv:
  assumes inv: "kinvx (insert a X) s" and t: "tcbs s a = Some t" and nl: "\<not> linked (ReadyN a) (k_ls s)"
    and st: "ready_state (t_state t)" and al: "nstat (k_ls s) (AllN a) = NIn AllTasks" and w: "t_wait_list t = None"
  shows "returns (aixos_sched_add_task a s) (\<lambda>s'. kinvx X s' \<and> sched_frame s s' \<and> tcbs s' = tcbs s \<and>
    (\<exists>h. nstat (k_ls s') (ReadyN a) = NIn h) \<and> (\<forall>n. n \<noteq> ReadyN a \<longrightarrow> nstat (k_ls s') n = nstat (k_ls s) n))"
proof -
  obtain ls' bm' xs p where r: "aixos_sched_add_task a s = Some (s\<lparr>k_ls := ls', ready_bitmap := bm'\<rparr>)"
    "t_priority t = int p" "p < AIXOS_CFG_MAX_PRIORITY" "lists (k_ls s) (ReadyQ p) = Some xs"
    "lists ls' = (lists (k_ls s))(ReadyQ p \<mapsto> xs @ [ReadyN a])"
    "nstat ls' = (nstat (k_ls s))(ReadyN a := NIn (ReadyQ p))" "queues_ok ls' bm'"
    by (rule add_task_eq[OF inv t nl])
  have "kinvx (insert a X) (s\<lparr>k_ls := ls', ready_bitmap := bm'\<rparr>)"
    by (rule kinvx_ready[OF inv r(7) _ r(6) t]) (use r in simp_all)
  then have "kinvx X (s\<lparr>k_ls := ls', ready_bitmap := bm'\<rparr>)"
    by (rule kinvx_settle) (use t st al w r(6) in \<open>simp add: settled_def\<close>)
  then show ?thesis using r(1,6) sched_frame_ready[OF r(5,4,6)] by simp
qed

lemma ready_status:
  assumes inv: "kinvx X s" and t: "tcbs s a = Some t"
  obtains p where "t_priority t = int p" "p < AIXOS_CFG_MAX_PRIORITY"
    "nstat (k_ls s) (ReadyN a) = NNull \<or> nstat (k_ls s) (ReadyN a) = NSelf \<or> nstat (k_ls s) (ReadyN a) = NIn (ReadyQ p)"
proof -
  obtain p where p: "t_priority t = int p" "p < AIXOS_CFG_MAX_PRIORITY"
    using kinvxD(3)[OF inv t] by (metis tcb_ok_def prio_ok_def nonneg_int_cases of_nat_less_iff)
  have "nstat (k_ls s) (ReadyN a) = NIn h \<Longrightarrow> h = ReadyQ p" for h
    using kinvx_fits[OF inv, of "ReadyN a" h] nodes_okD(5)[OF kinvxD(4)[OF inv t]] p(1) by auto
  then show thesis using that[OF p] by (cases "nstat (k_ls s) (ReadyN a)") auto
qed

lemma remove_task_kinv:
  assumes inv: "kinvx X s" and t: "tcbs s a = Some t"
  shows "returns (aixos_sched_remove_task a s) (\<lambda>s'. kinvx (insert a X) s' \<and> sched_frame s s' \<and> tcbs s' = tcbs s \<and>
    nstat (k_ls s') (ReadyN a) = NNull \<and> (\<forall>n. n \<noteq> ReadyN a \<longrightarrow> nstat (k_ls s') n = nstat (k_ls s) n) \<and>
    (\<forall>h. (\<forall>p. h \<noteq> ReadyQ p) \<longrightarrow> lists (k_ls s') h = lists (k_ls s) h))"
proof -
  have a0: "a \<noteq> 0" using nodes_okD(1)[OF kinvxD(4)[OF inv t]] .
  have inv': "kinvx (insert a X) s" using kinvx_mono[OF inv] by blast
  show ?thesis
  proof (cases "nstat (k_ls s) (ReadyN a) = NNull")
    case True
    then show ?thesis using a0 t inv' by (simp add: aixos_sched_remove_task_def nstatus_def)
  next
    case False
    obtain p where p: "t_priority t = int p" "p < AIXOS_CFG_MAX_PRIORITY"
      "nstat (k_ls s) (ReadyN a) = NSelf \<or> nstat (k_ls s) (ReadyN a) = NIn (ReadyQ p)"
      using ready_status[OF inv t] False by metis
    obtain ls' bm' xs where r: "ready_unlink a (int p) s = Some (s\<lparr>k_ls := ls', ready_bitmap := bm'\<rparr>)"
      "lists (k_ls s) (ReadyQ p) = Some xs" "lists ls' = (lists (k_ls s))(ReadyQ p \<mapsto> remove1 (ReadyN a) xs)"
      "nstat ls' = (nstat (k_ls s))(ReadyN a := NNull)" "queues_ok ls' bm'"
      by (rule ready_unlink_eq[OF kinvxD(1)[OF inv] p(2,3)])
    have "kinvx (insert a X) (s\<lparr>k_ls := ls', ready_bitmap := bm'\<rparr>)"
      by (rule kinvx_ready[OF inv' r(5) _ r(4) t]) (use r in simp_all)
    then show ?thesis
      using False a0 t r sched_frame_ready[OF r(3,2,4)] p(1)
      by (simp add: aixos_sched_remove_task_def nstatus_def)
  qed
qed

text \<open>A new priority and the requeueing that follows it.\<close>

lemma ready_unlink_tcbs:
  "ready_unlink a p (s\<lparr>tcbs := T\<rparr>) = map_option (\<lambda>s. s\<lparr>tcbs := T\<rparr>) (ready_unlink a p s)"
  by (cases "list_del (ReadyN a) (k_ls s)"; cases "ready_queue p")
    (simp_all add: ready_unlink_def on_ls_def head_empty_def bitmap_clear_def)

definition only_priority :: "aixos_tcb \<Rightarrow> aixos_tcb \<Rightarrow> bool" where
  "only_priority t t' \<longleftrightarrow> prio_ok (t_priority t') \<and> prio_ok (t_base_priority t') \<and> t_state t' = t_state t \<and>
     t_wait_obj t' = t_wait_obj t \<and> t_wait_list t' = t_wait_list t \<and> t_wait_type t' = t_wait_type t \<and>
     t_handle t' = t_handle t"

lemma new_priority_kinv:
  assumes inv: "kinvx X s" and t: "tcbs s a = Some t" and f: "only_priority t t'"
    and aX: "a \<in> X \<Longrightarrow> nstat (k_ls s) (ReadyN a) = NNull"
  shows "returns (aixos_sched_requeue_task a (t_priority t) (s\<lparr>tcbs := (tcbs s)(a \<mapsto> t')\<rparr>))
    (\<lambda>s'. kinvx X s' \<and> sched_frame s s' \<and> tcbs s' = (tcbs s)(a \<mapsto> t') \<and>
      (\<forall>n. n \<noteq> ReadyN a \<longrightarrow> nstat (k_ls s') n = nstat (k_ls s) n) \<and>
      (nstat (k_ls s') (ReadyN a) = NNull \<longleftrightarrow> nstat (k_ls s) (ReadyN a) = NNull))"
proof -
  let ?s = "s\<lparr>tcbs := (tcbs s)(a \<mapsto> t')\<rparr>"
  have a0: "a \<noteq> 0" using nodes_okD(1)[OF kinvxD(4)[OF inv t]] .
  have fr: "tcb_frame t t'" using f by (simp add: only_priority_def tcb_frame_def)
  have to: "tcb_ok t'" using kinvxD(3)[OF inv t] f by (simp add: tcb_ok_def only_priority_def waits_for_mutex_def)
  have se: "a \<notin> X \<Longrightarrow> settled (k_ls s) (system_running s) a t" using kinvxD(5)[OF inv _ t] .
  obtain p where p: "t_priority t = int p" "p < AIXOS_CFG_MAX_PRIORITY"
    "nstat (k_ls s) (ReadyN a) = NNull \<or> nstat (k_ls s) (ReadyN a) = NSelf \<or> nstat (k_ls s) (ReadyN a) = NIn (ReadyQ p)"
    using ready_status[OF inv t] by blast
  show ?thesis
  proof (cases "nstat (k_ls s) (ReadyN a) = NNull")
    case True
    have "nodes_ok (k_ls s) a t'" using kinvxD(4)[OF inv t] f True by (simp add: nodes_ok_def only_priority_def)
    then have "kinvx X ?s"
      using kinvx_tcb[OF inv t to] se f by (simp add: settled_def only_priority_def)
    then show ?thesis
      using True a0 p sched_frame_tcb[OF t fr] by (simp add: aixos_sched_requeue_task_def nstatus_def)
  next
    case False
    then have se: "settled (k_ls s) (system_running s) a t" using se aX by blast
    have N: "nstat (k_ls s) (ReadyN a) = NSelf \<or> nstat (k_ls s) (ReadyN a) = NIn (ReadyQ p)" using p(3) False by simp
    obtain ls' bm' xs where r: "ready_unlink a (int p) s = Some (s\<lparr>k_ls := ls', ready_bitmap := bm'\<rparr>)"
      "lists (k_ls s) (ReadyQ p) = Some xs" "lists ls' = (lists (k_ls s))(ReadyQ p \<mapsto> remove1 (ReadyN a) xs)"
      "nstat ls' = (nstat (k_ls s))(ReadyN a := NNull)" "queues_ok ls' bm'"
      by (rule ready_unlink_eq[OF kinvxD(1)[OF inv] p(2) N])
    let ?s1 = "s\<lparr>k_ls := ls', ready_bitmap := bm'\<rparr>"
    have inv1: "kinvx (insert a X) ?s1"
      by (rule kinvx_ready[OF kinvx_mono[OF inv] r(5) _ r(4) t]) (use r in auto)
    have t1: "tcbs ?s1 a = Some t" using t by simp
    have "nodes_ok (k_ls ?s1) a t'"
      using kinvxD(4)[OF inv1 t1] f r(4) by (simp add: nodes_ok_def only_priority_def)
    then have inv2: "kinvx (insert a X) (?s1\<lparr>tcbs := (tcbs ?s1)(a \<mapsto> t')\<rparr>)"
      using kinvx_tcb[OF inv1 t1 to] by simp
    have rs: "ready_state (t_state t')" using se False f by (simp add: settled_def only_priority_def)
    then have wl: "t_wait_list t' = None"
      using se f nodes_okD(7)[OF kinvxD(4)[OF inv t]] waiting_not_ready
      by (cases "t_wait_list t") (auto simp: settled_def only_priority_def)
    have al: "nstat (k_ls s) (AllN a) = NIn AllTasks"
      using se rs f by (auto simp: settled_def only_priority_def ready_state_def)
    obtain s3 where s3: "aixos_sched_add_task a (?s1\<lparr>tcbs := (tcbs ?s1)(a \<mapsto> t')\<rparr>) = Some s3" "kinvx X s3"
      "sched_frame (?s1\<lparr>tcbs := (tcbs ?s1)(a \<mapsto> t')\<rparr>) s3" "tcbs s3 = (tcbs s)(a \<mapsto> t')"
      "\<forall>n. n \<noteq> ReadyN a \<longrightarrow> nstat (k_ls s3) n = nstat (k_ls s) n" "nstat (k_ls s3) (ReadyN a) \<noteq> NNull"
      using add_task_kinv[OF inv2, of t'] r(4) rs wl al by (auto simp: linked_def returns_iff)
    have "sched_frame s ?s1" by (rule sched_frame_ready[OF r(3,2,4)])
    then have "sched_frame s (?s1\<lparr>tcbs := (tcbs ?s1)(a \<mapsto> t')\<rparr>)"
      using sched_frame_trans sched_frame_tcb[OF t1 fr] by blast
    then have fr2: "sched_frame s s3" using s3(3) by (rule sched_frame_trans)
    have "ready_unlink a (int p) ?s = Some (?s1\<lparr>tcbs := (tcbs ?s1)(a \<mapsto> t')\<rparr>)"
      unfolding ready_unlink_tcbs r(1) by simp
    then show ?thesis
      using a0 p(1,2) False s3 fr2 by (simp add: aixos_sched_requeue_task_def nstatus_def)
  qed
qed

section \<open>The choice of the next task\<close>

text \<open>What \<open>sched_find_highest\<close> returns: the first task of the highest ready queue that is not empty.\<close>

definition is_highest :: "u32 \<Rightarrow> kstate \<Rightarrow> bool" where
  "is_highest a s \<longleftrightarrow>
     (if a = 0 then (\<forall>p < AIXOS_CFG_MAX_PRIORITY. members (ReadyQ p) s = Some [])
      else (\<exists>p xs. p < AIXOS_CFG_MAX_PRIORITY \<and> members (ReadyQ p) s = Some (ReadyN a # xs) \<and>
             (\<forall>q < AIXOS_CFG_MAX_PRIORITY. q > p \<longrightarrow> members (ReadyQ q) s = Some [])))"

lemma word_index_bounds: "q < AIXOS_CFG_MAX_PRIORITY \<Longrightarrow> q div 64 < 4 \<and> q mod 64 < 64"
  by auto

lemma find_highest_loop_correct:
  assumes inv: "kinvx X s"
  shows "k \<le> 4 \<Longrightarrow> \<forall>p < AIXOS_CFG_MAX_PRIORITY. k * 64 \<le> p \<longrightarrow> members (ReadyQ p) s = Some [] \<Longrightarrow>
    returns (find_highest_loop (rev [0..<k]) s) (\<lambda>a. is_highest a s)"
proof (induction k)
  case 0
  then show ?case by (simp add: is_highest_def)
next
  case (Suc k)
  let ?w = "ready_bitmap s ! k"
  note q = kinvxD(1)[OF inv]
  have bits: "bit ?w i \<longleftrightarrow> members (ReadyQ (k * 64 + i)) s \<noteq> Some []" if "i < 64" for i
    using queues_okD(4)[OF q, of "k * 64 + i"] that Suc.prems(1) by (simp add: members_def div_add1_eq)
  have ini: "\<exists>xs. members (ReadyQ p) s = Some xs" if "p < AIXOS_CFG_MAX_PRIORITY" for p
    using queues_okD(3)[OF q, of p] that by (auto simp: members_def)
  show ?case
  proof (cases "?w = 0")
    case True
    have "members (ReadyQ p) s = Some []" if p: "p < AIXOS_CFG_MAX_PRIORITY" "k * 64 \<le> p" for p
    proof (cases "Suc k * 64 \<le> p")
      case True
      then show ?thesis using Suc.prems(2) p(1) by blast
    next
      case False
      then have "p - k * 64 < 64" "k * 64 + (p - k * 64) = p" using p(2) by auto
      then show ?thesis using bits[of "p - k * 64"] \<open>?w = 0\<close> by simp
    qed
    then show ?thesis using Suc.IH Suc.prems(1) True by simp
  next
    case False
    let ?h = "k * 64 + top_bit ?w"
    have tb: "top_bit ?w < 64" "bit ?w (top_bit ?w)" "\<And>j. top_bit ?w < j \<Longrightarrow> \<not> bit ?w j"
      using top_bit_props[OF False] by auto
    have h: "?h < AIXOS_CFG_MAX_PRIORITY" using tb(1) Suc.prems(1) by simp
    obtain n xs where x: "members (ReadyQ ?h) s = Some (n # xs)"
      using ini[OF h] bits[OF tb(1)] tb(2) by (metis list.exhaust)
    then have x': "lists (k_ls s) (ReadyQ ?h) = Some (n # xs)" by (simp add: members_def)
    have nf: "node_fits (ReadyQ ?h) n" "nstat (k_ls s) n = NIn (ReadyQ ?h)"
      using kinvx_members[OF inv x', of n] by auto
    obtain a where a: "n = ReadyN a" using fits_ReadyQ[OF nf(1)] by blast
    obtain t where t: "tcbs s a = Some t" using kinvxD(2)[OF inv nf(2)] a by auto
    have a0: "a \<noteq> 0" using nodes_okD(1)[OF kinvxD(4)[OF inv t]] .
    have up: "members (ReadyQ p) s = Some []" if p: "p < AIXOS_CFG_MAX_PRIORITY" "?h < p" for p
    proof (cases "Suc k * 64 \<le> p")
      case True
      then show ?thesis using Suc.prems(2) p(1) by blast
    next
      case False
      then have e: "p - k * 64 < 64" "k * 64 + (p - k * 64) = p" "top_bit ?w < p - k * 64" using p(2) by auto
      show ?thesis using bits[OF e(1)] tb(3)[OF e(3)] e(2) by simp
    qed
    have "is_highest a s" using a0 h x a up unfolding is_highest_def by auto
    then show ?thesis using False h x' a by (simp add: first_task_def list_first_def Let_def)
  qed
qed

lemma find_highest_correct: "kinvx X s \<Longrightarrow> returns (sched_find_highest s) (\<lambda>a. is_highest a s)"
  unfolding sched_find_highest_def by (rule find_highest_loop_correct) auto

lemma is_highest_live:
  assumes "kinvx X s" "is_highest a s" "a \<noteq> 0"
  shows "\<exists>t. tcbs s a = Some t \<and> (\<exists>p. nstat (k_ls s) (ReadyN a) = NIn (ReadyQ p))"
proof -
  obtain p xs where x: "lists (k_ls s) (ReadyQ p) = Some (ReadyN a # xs)"
    using assms(2,3) by (auto simp: is_highest_def members_def)
  show ?thesis using kinvx_members(1,3)[OF assms(1) x, of "ReadyN a"] by auto
qed

section \<open>Requests and rotation\<close>

lemma reschedule_request_fields [simp]:
  "k_ls (reschedule_request s) = k_ls s" "tcbs (reschedule_request s) = tcbs s"
  "ready_bitmap (reschedule_request s) = ready_bitmap s" "sched_rest (reschedule_request s) = sched_rest s"
  "in_isr (reschedule_request s) = in_isr s" "sched_locked (reschedule_request s) = sched_locked s"
  "cur_task (reschedule_request s) = cur_task s" "system_running (reschedule_request s) = system_running s"
  by (simp_all add: reschedule_request_def aixos_reschedule_request_def in_isr_def sched_locked_def aixos_in_isr_def
      aixos_sched_is_locked_def atomic_defs)

lemma kinvx_reschedule [simp]: "kinvx X (reschedule_request s) \<longleftrightarrow> kinvx X s"
  by (rule kinvx_cong) simp_all

lemma sched_frame_reschedule: "sched_frame s (reschedule_request s)"
  by (simp add: sched_frame_def option.rel_refl)

text \<open>A request is made exactly when a ready task has a higher priority than the current one.\<close>

lemma request_preemption_returns:
  assumes inv: "kinvx X s"
  shows "returns (aixos_sched_request_preemption s) (\<lambda>s'. s' = s \<or> s' = reschedule_request s)"
proof -
  obtain a where a: "sched_find_highest s = Some a" "is_highest a s"
    using returnsE[OF find_highest_correct[OF inv]] by blast
  show ?thesis
  proof (cases "a = 0 \<or> a = cur_task s")
    case True
    then show ?thesis using a by (simp add: aixos_sched_request_preemption_def)
  next
    case False
    obtain t where "tcbs s a = Some t" using is_highest_live[OF inv a(2)] False by blast
    then show ?thesis
      using a False kinvxD(6)[OF inv] by (auto simp: aixos_sched_request_preemption_def)
  qed
qed

lemma request_preemption_kinv:
  assumes "kinvx X s"
  shows "returns (aixos_sched_request_preemption s) (\<lambda>s'. kinvx X s' \<and> sched_frame s s' \<and> tcbs s' = tcbs s \<and> k_ls s' = k_ls s)"
  by (rule returns_mono[OF request_preemption_returns[OF assms]]) (use assms sched_frame_reschedule in auto)

lemma rotate_kinv:
  assumes inv: "kinvx {} s"
  shows "returns (aixos_sched_rotate_current s) (\<lambda>s'. kinvx {} s' \<and> sched_frame s s' \<and> tcbs s' = tcbs s)"
proof (cases "cur_task s = 0 \<or> nstat (k_ls s) (ReadyN (cur_task s)) = NNull")
  case True
  then show ?thesis using kinvxD(6)[OF inv] inv by (auto simp: aixos_sched_rotate_current_def nstatus_def)
next
  case False
  let ?a = "cur_task s"
  obtain t where t: "tcbs s ?a = Some t" using kinvxD(6)[OF inv] False by blast
  obtain p where p: "t_priority t = int p" "p < AIXOS_CFG_MAX_PRIORITY"
    "nstat (k_ls s) (ReadyN ?a) = NSelf \<or> nstat (k_ls s) (ReadyN ?a) = NIn (ReadyQ p)"
    using ready_status[OF inv t] False by metis
  note q = kinvxD(1)[OF inv]
  obtain xs where xs: "lists (k_ls s) (ReadyQ p) = Some xs" using queues_okD(3)[OF q, of p] p(2) by auto
  show ?thesis
  proof (cases "2 \<le> length xs")
    case False
    then show ?thesis
      using \<open>\<not> (?a = 0 \<or> _)\<close> t p xs inv by (simp add: aixos_sched_rotate_current_def nstatus_def ready_queue_def members_def)
  next
    case True
    obtain l1 where l1: "list_del (ReadyN ?a) (k_ls s) = Some l1" "lists l1 = (lists (k_ls s))(ReadyQ p \<mapsto> remove1 (ReadyN ?a) xs)"
      "nstat l1 = (nstat (k_ls s))(ReadyN ?a := NNull)"
    proof (cases "nstat (k_ls s) (ReadyN ?a) = NSelf")
      case True
      then have "ReadyN ?a \<notin> set xs" using lwfD(2)[OF queues_okD(1)[OF q] xs] by force
      then have "remove1 (ReadyN ?a) xs = xs" by (rule remove1_idem)
      then show thesis using that[of "(k_ls s)\<lparr>nstat := (nstat (k_ls s))(ReadyN ?a := NNull)\<rparr>"] True xs
        by (simp add: list_del_def fun_upd_idem)
    next
      case False
      then show thesis
        using that[of "(k_ls s)\<lparr>lists := (lists (k_ls s))(ReadyQ p \<mapsto> remove1 (ReadyN ?a) xs),
            nstat := (nstat (k_ls s))(ReadyN ?a := NNull)\<rparr>"] p(3) xs by (simp add: list_del_def)
    qed
    have l2: "list_add_tail (ReadyN ?a) (ReadyQ p) l1 = Some (l1\<lparr>lists := (lists l1)(ReadyQ p \<mapsto> remove1 (ReadyN ?a) xs @ [ReadyN ?a]),
        nstat := (nstat l1)(ReadyN ?a := NIn (ReadyQ p))\<rparr>)" (is "_ = Some ?l2")
      using l1(2,3) by (simp add: list_add_tail_def linked_def)
    have L: "lists ?l2 = (lists (k_ls s))(ReadyQ p \<mapsto> remove1 (ReadyN ?a) xs @ [ReadyN ?a])"
      and N: "nstat ?l2 = (nstat (k_ls s))(ReadyN ?a := NIn (ReadyQ p))" using l1(2,3) by simp_all
    have wf: "lwf ?l2" using list_add_tail_lwf[OF l2] list_del_lwf[OF l1(1)] queues_okD(1)[OF q] by blast
    have "queues_ok ?l2 (ready_bitmap s)"
      by (rule queues_ok_ready[OF q wf p(2) L N]) (use queues_okD(2,4)[OF q] xs True in auto)
    then have "kinvx (insert ?a {}) (s\<lparr>k_ls := ?l2, ready_bitmap := ready_bitmap s\<rparr>)"
      by (rule kinvx_ready[OF kinvx_mono[OF inv empty_subsetI] _ _ N t]) (use L p(1) in auto)
    then have "kinvx {} (s\<lparr>k_ls := ?l2, ready_bitmap := ready_bitmap s\<rparr>)"
      by (rule kinvx_settle) (use kinvxD(5)[OF inv _ t] t N \<open>\<not> (?a = 0 \<or> _)\<close> in \<open>auto simp: settled_def\<close>)
    then have i: "kinvx {} (s\<lparr>k_ls := ?l2\<rparr>)" by simp
    have "sched_frame s (s\<lparr>k_ls := ?l2, ready_bitmap := ready_bitmap s\<rparr>)" by (rule sched_frame_ready[OF L xs N])
    then have f: "sched_frame s (s\<lparr>k_ls := ?l2\<rparr>)" by simp
    have "aixos_sched_rotate_current s = Some (s\<lparr>k_ls := ?l2\<rparr>)"
      using \<open>\<not> (?a = 0 \<or> _)\<close> t p(1,2) xs True l1(1) l2
      by (simp add: aixos_sched_rotate_current_def nstatus_def ready_queue_def members_def on_ls_def)
    then show ?thesis using i f by simp
  qed
qed

end
