(* ===== verification/Kwait.thy ===== *)
theory Kwait
  imports Ksched
begin

text \<open>
  Waiting, waking and priority inheritance under the invariant: sorted wait queues, the chain of
  \<open>recompute\<close>, \<open>aixos_task_block_current\<close> and \<open>aixos_task_wake\<close> return, keep the invariant and
  leave the task where its new state says.
\<close>

section \<open>Priority inheritance\<close>

text \<open>What following a chain of mutex owners needs: a held mutex has its wait queue, and a handle that
  resolves to a control block leads to one.\<close>

definition chain_ok :: "kstate \<Rightarrow> bool" where
  "chain_ok s \<longleftrightarrow> (\<forall>i h. nstat (k_ls s) (OwnerN i) = NIn h \<longrightarrow> lists (k_ls s) (MutexWait i) \<noteq> None) \<and>
     (\<forall>h. aixos_tcb_from_handle h s \<noteq> 0 \<longrightarrow> tcbs s (aixos_tcb_from_handle h s) \<noteq> None)"

lemma chain_okD:
  assumes "chain_ok s"
  shows "nstat (k_ls s) (OwnerN i) = NIn h \<Longrightarrow> lists (k_ls s) (MutexWait i) \<noteq> None"
    "aixos_tcb_from_handle g s \<noteq> 0 \<Longrightarrow> \<exists>t. tcbs s (aixos_tcb_from_handle g s) = Some t"
    "mutex_owner i s \<noteq> 0 \<Longrightarrow> \<exists>t. tcbs s (mutex_owner i s) = Some t"
  using assms by (auto simp: chain_ok_def mutex_owner_def)

lemma tcb_from_handle_cong: "k_obj s' = k_obj s \<Longrightarrow> aixos_tcb_from_handle h s' = aixos_tcb_from_handle h s"
  by (simp add: aixos_tcb_from_handle_def k_lookup_def)

lemma chain_ok_frame: "sched_frame s s' \<Longrightarrow> chain_ok s \<Longrightarrow> chain_ok s'"
  unfolding chain_ok_def
  by (simp add: sched_frameD(4,6,7) tcb_from_handle_cong[OF frame_rest(1)])

lemma effective_loop_returns:
  assumes inv: "kinvx X s" and ch: "chain_ok s"
  shows "\<forall>n \<in> set ns. nstat (k_ls s) n = NIn (HeldMutexes a) \<Longrightarrow> prio_ok p \<Longrightarrow>
    returns (effective_loop ns p s) (\<lambda>r. prio_ok r \<and> p \<le> r)"
proof (induction ns arbitrary: p)
  case (Cons n ns)
  have n: "nstat (k_ls s) n = NIn (HeldMutexes a)" using Cons.prems by simp
  obtain i where i: "n = OwnerN i" using kinvx_fits[OF inv n] by (cases n) auto
  have L: "lists (k_ls s) (MutexWait i) \<noteq> None" using chain_okD(1)[OF ch] n i by blast
  show ?case
  proof (cases "head_empty (MutexWait i) s")
    case True
    then show ?thesis using Cons i by simp
  next
    case False
    obtain b u where b: "first_task (MutexWait i) s = Some b" "tcbs s b = Some u"
      using first_waiter[OF inv False L] by auto
    have "prio_ok (if t_priority u > p then t_priority u else p)"
      using kinvxD(3)[OF inv b(2)] Cons.prems(2) by (simp add: tcb_ok_def)
    then have "returns (effective_loop ns (if t_priority u > p then t_priority u else p) s)
      (\<lambda>r. prio_ok r \<and> (if t_priority u > p then t_priority u else p) \<le> r)"
      using Cons.IH Cons.prems(1) by simp
    then show ?thesis using False b i by (auto simp: returns_iff split: if_splits)
  qed
qed simp

lemma effective_priority_returns:
  assumes inv: "kinvx X s" and ch: "chain_ok s" and t: "tcbs s a = Some t"
  shows "returns (task_effective_priority a s) (\<lambda>r. prio_ok r \<and> t_base_priority t \<le> r)"
proof -
  obtain xs where xs: "lists (k_ls s) (HeldMutexes a) = Some xs" using nodes_okD(2)[OF kinvxD(4)[OF inv t]] by blast
  have "\<forall>n \<in> set xs. nstat (k_ls s) n = NIn (HeldMutexes a)" using lwfD(2)[OF kinvx_lwf[OF inv] xs] by blast
  then show ?thesis
    using effective_loop_returns[OF inv ch, of xs a] kinvxD(3)[OF inv t] t xs
    by (simp add: task_effective_priority_def members_def tcb_ok_def)
qed

text \<open>Recomputing priorities moves tasks within and between queues, but no task enters or leaves one.\<close>

definition boost :: "aixos_tcb \<Rightarrow> aixos_tcb \<Rightarrow> bool" where
  "boost t t' \<longleftrightarrow> (\<exists>p b. t' = t\<lparr>t_priority := p, t_sched_boosted := b\<rparr>)"

lemma boost_refl [simp]: "boost t t"
  unfolding boost_def by (rule exI[of _ "t_priority t"], rule exI[of _ "t_sched_boosted t"]) simp

lemma boost_trans: "boost t t' \<Longrightarrow> boost t' t'' \<Longrightarrow> boost t t''"
  unfolding boost_def by fastforce

lemma boost_fields:
  assumes "boost t t'"
  shows "t_state t' = t_state t" "t_wait_obj t' = t_wait_obj t" "t_wait_list t' = t_wait_list t"
    "t_wait_type t' = t_wait_type t" "t_handle t' = t_handle t" "t_base_priority t' = t_base_priority t"
    "t_wait_result t' = t_wait_result t" "t_wake_tick t' = t_wake_tick t"
  using assms by (auto simp: boost_def)

definition rc_frame :: "kstate \<Rightarrow> kstate \<Rightarrow> bool" where
  "rc_frame s s' \<longleftrightarrow> sched_frame s s' \<and> (\<forall>n. (\<forall>a. n \<noteq> ReadyN a) \<longrightarrow> nstat (k_ls s') n = nstat (k_ls s) n) \<and>
     (\<forall>a. nstat (k_ls s') (ReadyN a) = NNull \<longleftrightarrow> nstat (k_ls s) (ReadyN a) = NNull) \<and>
     (\<forall>a. rel_option boost (tcbs s a) (tcbs s' a))"

lemma rc_frame_refl [simp]: "rc_frame s s"
  by (simp add: rc_frame_def option.rel_refl)

lemma rel_option_boost_trans: "rel_option boost x y \<Longrightarrow> rel_option boost y z \<Longrightarrow> rel_option boost x z"
  by (cases x; cases y; cases z) (auto intro: boost_trans)

lemma rc_frame_trans:
  assumes "rc_frame s s'" "rc_frame s' s''"
  shows "rc_frame s s''"
  unfolding rc_frame_def
proof (intro conjI allI impI)
  show "sched_frame s s''" using assms sched_frame_trans unfolding rc_frame_def by blast
  fix a show "rel_option boost (tcbs s a) (tcbs s'' a)"
    using assms rel_option_boost_trans unfolding rc_frame_def by blast
qed (use assms in \<open>simp_all add: rc_frame_def\<close>)

lemma rc_frameD:
  assumes "rc_frame s s'"
  shows "sched_frame s s'" "(\<And>a. n \<noteq> ReadyN a) \<Longrightarrow> nstat (k_ls s') n = nstat (k_ls s) n"
    "nstat (k_ls s') (ReadyN a) = NNull \<longleftrightarrow> nstat (k_ls s) (ReadyN a) = NNull"
    "tcbs s a = Some t \<Longrightarrow> \<exists>t'. tcbs s' a = Some t' \<and> boost t t'"
proof -
  have "rel_option boost (tcbs s a) (tcbs s' a)" using assms by (simp add: rc_frame_def)
  then show "tcbs s a = Some t \<Longrightarrow> \<exists>t'. tcbs s' a = Some t' \<and> boost t t'" by (simp add: option_rel_Some1)
qed (use assms in \<open>unfold rc_frame_def, blast\<close>)+

lemma kinvx_same_nodes:
  assumes inv: "kinvx X s" and wf: "lwf ls'" and R: "same_heads (k_ls s) ls'" and N: "nstat ls' = nstat (k_ls s)"
  shows "kinvx X (s\<lparr>k_ls := ls'\<rparr>)"
proof -
  have q: "queues_ok ls' (ready_bitmap s)"
    by (rule queues_ok_lists[OF kinvxD(1)[OF inv] wf R]) (simp add: N)
  have H: "tcbs s a = Some t \<Longrightarrow> lists ls' (HeldMutexes a) \<noteq> None" for a t
    using R nodes_okD(2)[OF kinvxD(4)[OF inv, of a t]] by (auto simp: same_heads_def)
  show ?thesis
  proof (rule kinvxI)
    fix a t assume "tcbs (s\<lparr>k_ls := ls'\<rparr>) a = Some t"
    then have t: "tcbs s a = Some t" by simp
    show "nodes_ok (k_ls (s\<lparr>k_ls := ls'\<rparr>)) a t"
      using kinvxD(4)[OF inv t] H[OF t] by (simp add: nodes_ok_def N)
    show "a \<notin> X \<Longrightarrow> settled (k_ls (s\<lparr>k_ls := ls'\<rparr>)) (system_running (s\<lparr>k_ls := ls'\<rparr>)) a t"
      using kinvxD(5)[OF inv _ t] by (simp add: settled_def N)
    show "tcb_ok t" by (rule kinvxD(3)[OF inv t])
  next
    fix n h a assume "nstat (k_ls (s\<lparr>k_ls := ls'\<rparr>)) n = NIn h" "node_task n = Some a"
    then show "tcbs (s\<lparr>k_ls := ls'\<rparr>) a \<noteq> None" using kinvxD(2)[OF inv, of n h a] by (simp add: N)
  qed (use q kinvxD(6)[OF inv] in simp_all)
qed

text \<open>The priority test of a sorted wait queue is defined on its members.\<close>

lemma wait_test_defined:
  assumes inv: "kinvx X s" and xs: "lists (k_ls s) h = Some xs" and h: "is_wait_head h"
    and m: "m \<in> set xs" and T: "tcbs s' = tcbs s"
  shows "Option.bind (node_task m) (\<lambda>a. Option.bind (tcbs s' a) (\<lambda>u. Some (p > t_priority u))) \<noteq> None"
proof -
  obtain a where a: "m = WaitN a" using fits_wait[OF h] kinvx_members(2)[OF inv xs m] by blast
  obtain u where "tcbs s a = Some u" using kinvx_members(3)[OF inv xs m, of a] a by auto
  then show ?thesis using a T by simp
qed

lemma waiter_priority_changed_kinv:
  assumes inv: "kinvx X s" and a: "a = 0 \<or> tcbs s a \<noteq> None"
  shows "returns (aixos_task_waiter_priority_changed a s) (\<lambda>s'. kinvx X s' \<and> sched_frame s s' \<and> tcbs s' = tcbs s \<and>
    nstat (k_ls s') = nstat (k_ls s))"
proof (cases "a = 0")
  case True
  then show ?thesis using inv by (simp add: aixos_task_waiter_priority_changed_def)
next
  case False
  then obtain t where t: "tcbs s a = Some t" using a by blast
  note no = kinvxD(4)[OF inv t]
  show ?thesis
  proof (cases "t_wait_list t = None \<or> nstat (k_ls s) (WaitN a) = NSelf")
    case True
    then show ?thesis using False inv t
      by (cases "t_wait_list t") (simp_all add: aixos_task_waiter_priority_changed_def nstatus_def)
  next
    case F: False
    obtain h where h: "t_wait_list t = Some h" using F by auto
    have N: "nstat (k_ls s) (WaitN a) = NIn h"
      using nodes_okD(3,6)[OF no] h F by (cases "nstat (k_ls s) (WaitN a)") auto
    obtain xs where xs: "lists (k_ls s) h = Some xs" "WaitN a \<in> set xs" using kinvx_in_list[OF inv N] by blast
    have wh: "is_wait_head h" using kinvxD(3)[OF inv t] h by (simp add: tcb_ok_def)
    have nn: "nstatus (WaitN a) s \<noteq> NNull" using N by (simp add: nstatus_def)
    obtain l1 where l1: "unlink_node (WaitN a) s = Some (s\<lparr>k_ls := l1\<rparr>)" "nstat l1 = (nstat (k_ls s))(WaitN a := NSelf)"
      "\<forall>h'. lists l1 h' = (if nstat (k_ls s) (WaitN a) = NIn h' then map_option (remove1 (WaitN a)) (lists (k_ls s) h') else lists (k_ls s) h')"
      "lwf (k_ls s) \<longrightarrow> lwf l1"
      by (rule unlink_node_eq[OF nn])
    have wf1: "lwf (k_ls (s\<lparr>k_ls := l1\<rparr>))" using l1(4) kinvx_lwf[OF inv] by simp
    have x1: "lists (k_ls (s\<lparr>k_ls := l1\<rparr>)) h = Some (remove1 (WaitN a) xs)" using l1(3) N xs by simp
    let ?P = "\<lambda>n. Option.bind (node_task n) (\<lambda>b. Option.bind (tcbs (s\<lparr>k_ls := l1\<rparr>) b) (\<lambda>queued. Some (t_priority t > t_priority queued)))"
    have P: "?P m \<noteq> None" if "m \<in> set (remove1 (WaitN a) xs)" for m
      by (rule wait_test_defined[OF inv xs(1) wh]) (use that set_remove1_subset[of "WaitN a" xs] in auto)
    have nl: "\<not> linked (WaitN a) (k_ls (s\<lparr>k_ls := l1\<rparr>))" using l1(2) by (simp add: linked_def)
    obtain l2 us vs where l2: "insert_sorted ?P (WaitN a) h (s\<lparr>k_ls := l1\<rparr>) = Some ((s\<lparr>k_ls := l1\<rparr>)\<lparr>k_ls := l2\<rparr>)"
      "remove1 (WaitN a) xs = us @ vs" "lists l2 = (lists (k_ls (s\<lparr>k_ls := l1\<rparr>)))(h \<mapsto> us @ WaitN a # vs)"
      "nstat l2 = (nstat (k_ls (s\<lparr>k_ls := l1\<rparr>)))(WaitN a := NIn h)" "lwf l2"
      by (rule insert_sorted_eq[OF wf1 x1 P nl])
    have N2: "nstat l2 = nstat (k_ls s)" using l2(4) l1(2) N by auto
    have L2: "lists l2 h' = (if h' = h then Some (us @ WaitN a # vs) else lists (k_ls s) h')" for h'
      using l2(3) l1(3) N by auto
    have R: "same_heads (k_ls s) l2" using L2 wh by (auto simp: same_heads_def)
    have k: "kinvx X (s\<lparr>k_ls := l2\<rparr>)" by (rule kinvx_same_nodes[OF inv l2(5) R N2])
    have "sched_head h" using wh by (cases h) auto
    then have f: "sched_frame s (s\<lparr>k_ls := l2\<rparr>)"
      using sched_frame_ls[of "{}" "\<lambda>h'. h' = h" s l2] L2 N2 xs(1) by (simp add: ls_frame_def)
    have "aixos_task_waiter_priority_changed a s = Some (s\<lparr>k_ls := l2\<rparr>)"
      using False t h N l1(1) l2(1) by (simp add: aixos_task_waiter_priority_changed_def nstatus_def task_wait_insert_priority_def)
    then show ?thesis using k f N2 by simp
  qed
qed

lemma recompute_step:
  assumes inv: "kinvx X s" and X: "\<forall>x \<in> X. nstat (k_ls s) (ReadyN x) = NNull" and t: "tcbs s a = Some t"
    and p: "prio_ok p"
  shows "returns (do {
      s \<leftarrow> upd_tcb a (\<lambda>t. t\<lparr>t_priority := p, t_sched_boosted := (p > t_base_priority t)\<rparr>) s;
      s \<leftarrow> aixos_sched_requeue_task a (t_priority t) s;
      if b then aixos_task_waiter_priority_changed a s else Some s
    }) (\<lambda>s'. kinvx X s' \<and> rc_frame s s')"
proof -
  let ?t = "t\<lparr>t_priority := p, t_sched_boosted := (p > t_base_priority t)\<rparr>"
  have op: "only_priority t ?t" using p kinvxD(3)[OF inv t] by (simp add: only_priority_def tcb_ok_def)
  obtain s1 where s1: "aixos_sched_requeue_task a (t_priority t) (s\<lparr>tcbs := (tcbs s)(a \<mapsto> ?t)\<rparr>) = Some s1"
    "kinvx X s1" "sched_frame s s1" "tcbs s1 = (tcbs s)(a \<mapsto> ?t)"
    "\<forall>n. n \<noteq> ReadyN a \<longrightarrow> nstat (k_ls s1) n = nstat (k_ls s) n"
    "nstat (k_ls s1) (ReadyN a) = NNull \<longleftrightarrow> nstat (k_ls s) (ReadyN a) = NNull"
    using new_priority_kinv[OF inv t op] X by (auto simp: returns_iff)
  have bt: "boost t ?t" unfolding boost_def by (intro exI) (rule refl)
  have rel: "rel_option boost (tcbs s c) (tcbs s1 c)" for c
    using s1(4) t bt by (simp add: option.rel_refl)
  have r1: "rc_frame s s1"
    unfolding rc_frame_def using s1(3,5,6) rel by (metis lnode.inject(1))
  obtain s2 where s2: "(if b then aixos_task_waiter_priority_changed a s1 else Some s1) = Some s2" "kinvx X s2"
    "sched_frame s1 s2" "tcbs s2 = tcbs s1" "nstat (k_ls s2) = nstat (k_ls s1)"
    using waiter_priority_changed_kinv[OF s1(2), of a] s1(2,4) by (cases b) (auto simp: returns_iff)
  have "rc_frame s1 s2" using s2(3-5) by (simp add: rc_frame_def option.rel_refl)
  then have "rc_frame s s2" using r1 rc_frame_trans by blast
  then show ?thesis using s1(1) s2(1,2) t by (simp add: upd_tcb_eq)
qed

lemma rc_frame_X: "rc_frame s s' \<Longrightarrow> \<forall>x \<in> X. nstat (k_ls s) (ReadyN x) = NNull \<Longrightarrow>
    \<forall>x \<in> X. nstat (k_ls s') (ReadyN x) = NNull"
  by (simp add: rc_frameD(3))

lemma mutex_owner_cong: "k_obj s' = k_obj s \<Longrightarrow> mutex_pool s' = mutex_pool s \<Longrightarrow> mutex_owner i s' = mutex_owner i s"
  unfolding mutex_owner_def using tcb_from_handle_cong[of s' s] by simp

lemma recompute_chain_kinv:
  assumes "kinvx X s" "chain_ok s" "\<forall>x \<in> X. nstat (k_ls s) (ReadyN x) = NNull" "a = 0 \<or> tcbs s a \<noteq> None"
  shows "returns (recompute_chain fuel a s) (\<lambda>s'. kinvx X s' \<and> rc_frame s s')"
  using assms
proof (induction fuel arbitrary: a s)
  case (Suc fuel)
  note inv = Suc.prems(1) and ch = Suc.prems(2) and X = Suc.prems(3)
  show ?case
  proof (cases "a = 0")
    case False
    then obtain t where t: "tcbs s a = Some t" using Suc.prems(4) by auto
    obtain p where p: "task_effective_priority a s = Some p" "prio_ok p"
      using returnsE[OF effective_priority_returns[OF inv ch t]] by metis
    let ?w = "t_wait_type t = AIXOS_OBJ_MUTEX \<and> t_wait_obj t \<noteq> KNull"
    let ?m = "if p \<noteq> t_priority t then do {
        s \<leftarrow> upd_tcb a (\<lambda>t. t\<lparr>t_priority := p, t_sched_boosted := (p > t_base_priority t)\<rparr>) s;
        s \<leftarrow> aixos_sched_requeue_task a (t_priority t) s;
        if ?w then aixos_task_waiter_priority_changed a s else Some s } else Some s"
    obtain s1 where s1: "?m = Some s1" "kinvx X s1" "rc_frame s s1"
      using recompute_step[OF inv X t p(2), of ?w] inv by (cases "p = t_priority t") (auto simp: returns_iff)
    note f1 = rc_frameD(1)[OF s1(3)]
    show ?thesis
    proof (cases ?w)
      case True
      then obtain i where i: "mutex_of (t_wait_obj t) = Some i"
        using kinvxD(3)[OF inv t] by (auto simp: tcb_ok_def waits_for_mutex_def)
      let ?o = "mutex_owner i s1"
      show ?thesis
      proof (cases "?o \<noteq> 0 \<and> ?o \<noteq> a")
        case o: True
        have ch1: "chain_ok s1" by (rule chain_ok_frame[OF f1 ch])
        have "returns (recompute_chain fuel ?o s1) (\<lambda>s'. kinvx X s' \<and> rc_frame s1 s')"
          by (rule Suc.IH[OF s1(2) ch1 rc_frame_X[OF s1(3) X]]) (use chain_okD(3)[OF ch1] o in auto)
        then have "returns (recompute_chain fuel ?o s1) (\<lambda>s'. kinvx X s' \<and> rc_frame s s')"
          by (rule returns_mono) (use rc_frame_trans[OF s1(3)] in blast)
        then show ?thesis using False t p(1) s1(1) True i o by (simp add: Let_def)
      next
        case no: False
        then show ?thesis
          using False t p(1) s1 True i by (simp add: Let_def) blast
      qed
    next
      case no: False
      show ?thesis using False t p(1) s1 no by (simp add: Let_def) blast
    qed
  qed (use inv in simp)
qed simp

lemmas recompute_kinv = recompute_chain_kinv[of _ _ _ AIXOS_CFG_TASK_HANDLE_LIMIT, folded recompute_def]

lemma mutex_chain_kinv:
  assumes inv: "kinvx X s" and ch: "chain_ok s" and X: "\<forall>x \<in> X. nstat (k_ls s) (ReadyN x) = NNull"
    and a: "a = 0 \<or> tcbs s a \<noteq> None"
  shows "returns (aixos_mutex_waiter_added a s) (\<lambda>s'. kinvx X s' \<and> rc_frame s s')"
    and "returns (aixos_mutex_waiter_removed a s) (\<lambda>s'. kinvx X s' \<and> rc_frame s s')"
proof -
  have "\<exists>m. mutex_of (t_wait_obj t) = Some m" if "tcbs s a = Some t" "t_wait_type t = AIXOS_OBJ_MUTEX" "t_wait_obj t \<noteq> KNull" for t
    using kinvxD(3)[OF inv that(1)] that(2,3) by (auto simp: tcb_ok_def waits_for_mutex_def)
  moreover have "returns (recompute (mutex_owner m s) s) (\<lambda>s'. kinvx X s' \<and> rc_frame s s')" for m
    by (rule recompute_kinv[OF inv ch X]) (use chain_okD(3)[OF ch] in auto)
  ultimately show "returns (aixos_mutex_waiter_added a s) (\<lambda>s'. kinvx X s' \<and> rc_frame s s')"
    "returns (aixos_mutex_waiter_removed a s) (\<lambda>s'. kinvx X s' \<and> rc_frame s s')"
    using a inv by (auto simp: aixos_mutex_waiter_added_def aixos_mutex_waiter_removed_def Let_def)
qed

lemma task_priority_changed_kinv:
  assumes inv: "kinvx X s" and ch: "chain_ok s" and X: "\<forall>x \<in> X. nstat (k_ls s) (ReadyN x) = NNull"
    and a: "a = 0 \<or> tcbs s a \<noteq> None"
  shows "returns (aixos_mutex_task_priority_changed a s) (\<lambda>s'. kinvx X s' \<and> rc_frame s s')"
proof (cases "a = 0")
  case True
  then show ?thesis using inv by (simp add: aixos_mutex_task_priority_changed_def)
next
  case False
  then obtain t where t: "tcbs s a = Some t" using a by blast
  obtain s1 where s1: "aixos_task_waiter_priority_changed a s = Some s1" "kinvx X s1" "sched_frame s s1"
    "tcbs s1 = tcbs s" "nstat (k_ls s1) = nstat (k_ls s)"
    using waiter_priority_changed_kinv[OF inv a] by (auto simp: returns_iff)
  have r1: "rc_frame s s1" using s1(3-5) by (simp add: rc_frame_def option.rel_refl)
  have t1: "tcbs s1 a = Some t" using t s1(4) by simp
  have ch1: "chain_ok s1" by (rule chain_ok_frame[OF s1(3) ch])
  let ?m = "if t_wait_type t = AIXOS_OBJ_MUTEX \<and> t_wait_obj t \<noteq> KNull \<and>
      nstatus (WaitN a) s1 \<noteq> NSelf \<and> nstatus (WaitN a) s1 \<noteq> NNull
    then do { mutex \<leftarrow> mutex_of (t_wait_obj t); recompute (mutex_owner mutex s1) s1 } else Some s1"
  have "returns (recompute (mutex_owner m s1) s1) (\<lambda>s'. kinvx X s' \<and> rc_frame s1 s')" for m
    by (rule recompute_kinv[OF s1(2) ch1 rc_frame_X[OF r1 X]]) (use chain_okD(3)[OF ch1] in auto)
  then have "returns ?m (\<lambda>s'. kinvx X s' \<and> rc_frame s1 s')"
    using kinvxD(3)[OF inv t] s1(2) by (auto simp: tcb_ok_def waits_for_mutex_def)
  then obtain s2 where s2: "?m = Some s2" "kinvx X s2" "rc_frame s1 s2" by (rule returnsE) blast
  have r2: "rc_frame s s2" by (rule rc_frame_trans[OF r1 s2(3)])
  have "returns (recompute a s2) (\<lambda>s'. kinvx X s' \<and> rc_frame s2 s')"
  proof (rule recompute_kinv[OF s2(2) chain_ok_frame[OF rc_frameD(1)[OF s2(3)] ch1] rc_frame_X[OF r2 X]])
    show "a = 0 \<or> tcbs s2 a \<noteq> None" using rc_frameD(4)[OF r2 t] by auto
  qed
  then have "returns (recompute a s2) (\<lambda>s'. kinvx X s' \<and> rc_frame s s')"
    by (rule returns_mono) (use rc_frame_trans[OF r2] in blast)
  then show ?thesis
    using False s1(1) t1 s2(1) by (simp add: aixos_mutex_task_priority_changed_def)
qed

section \<open>Detaching and waking\<close>

lemma unlink_node_kinv:
  assumes inv: "kinvx X s" and n: "nstat (k_ls s) n \<noteq> NNull" and ok: "node_may_be X s n NSelf"
  shows "returns (unlink_node n s) (\<lambda>s'. kinvx X s' \<and> s' = s\<lparr>k_ls := k_ls s'\<rparr> \<and>
    nstat (k_ls s') = (nstat (k_ls s))(n := NSelf) \<and>
    (\<forall>h. lists (k_ls s') h = (if nstat (k_ls s) n = NIn h then map_option (remove1 n) (lists (k_ls s) h) else lists (k_ls s) h)))"
proof -
  have nn: "nstatus n s \<noteq> NNull" using n by (simp add: nstatus_def)
  obtain ls' where l: "unlink_node n s = Some (s\<lparr>k_ls := ls'\<rparr>)" "nstat ls' = (nstat (k_ls s))(n := NSelf)"
    "\<forall>h. lists ls' h = (if nstat (k_ls s) n = NIn h then map_option (remove1 n) (lists (k_ls s) h) else lists (k_ls s) h)"
    "lwf (k_ls s) \<longrightarrow> lwf ls'"
    by (rule unlink_node_eq[OF nn])
  have nr: "n \<noteq> ReadyN b" for b using ok by (auto simp: node_may_be_def)
  have "nstat (k_ls s) n \<noteq> NIn (ReadyQ p)" for p
    using kinvx_fits[OF inv, of n "ReadyQ p"] fits_ReadyQ[of p n] nr by blast
  then have R: "same_heads (k_ls s) ls'" using l(3) by (simp add: same_heads_def)
  have "kinvx X (s\<lparr>k_ls := ls'\<rparr>)"
    by (rule kinvx_node[OF inv _ R l(2) ok]) (use l(4) kinvx_lwf[OF inv] in blast)
  then show ?thesis using l(1-3) by simp
qed

text \<open>What waking the task at \<open>a\<close> may change.\<close>

definition wake_frame :: "u32 \<Rightarrow> kstate \<Rightarrow> kstate \<Rightarrow> bool" where
  "wake_frame a s s' \<longleftrightarrow> sched_frame s s' \<and>
     (\<forall>n. (\<forall>b. n \<noteq> ReadyN b) \<longrightarrow> n \<noteq> WaitN a \<longrightarrow> n \<noteq> TimeoutN a \<longrightarrow> nstat (k_ls s') n = nstat (k_ls s) n) \<and>
     (\<forall>b. b \<noteq> a \<longrightarrow> (nstat (k_ls s') (ReadyN b) = NNull \<longleftrightarrow> nstat (k_ls s) (ReadyN b) = NNull)) \<and>
     (\<forall>b. b \<noteq> a \<longrightarrow> rel_option boost (tcbs s b) (tcbs s' b))"

lemma wake_frame_refl [simp]: "wake_frame a s s"
  by (simp add: wake_frame_def option.rel_refl)

lemma wake_frame_rc: "rc_frame s s' \<Longrightarrow> wake_frame a s s'"
  by (simp add: wake_frame_def rc_frame_def)

lemma wake_frame_trans:
  assumes "wake_frame a s s'" "wake_frame a s' s''"
  shows "wake_frame a s s''"
  unfolding wake_frame_def
proof (intro conjI allI impI)
  show "sched_frame s s''" using assms sched_frame_trans unfolding wake_frame_def by blast
  fix b assume "b \<noteq> a"
  then show "rel_option boost (tcbs s b) (tcbs s'' b)"
    using assms rel_option_boost_trans unfolding wake_frame_def by blast
qed (use assms in \<open>simp_all add: wake_frame_def\<close>)

lemma wake_frameD:
  assumes "wake_frame a s s'"
  shows "sched_frame s s'"
    "(\<And>b. n \<noteq> ReadyN b) \<Longrightarrow> n \<noteq> WaitN a \<Longrightarrow> n \<noteq> TimeoutN a \<Longrightarrow> nstat (k_ls s') n = nstat (k_ls s) n"
    "b \<noteq> a \<Longrightarrow> nstat (k_ls s') (ReadyN b) = NNull \<longleftrightarrow> nstat (k_ls s) (ReadyN b) = NNull"
    "b \<noteq> a \<Longrightarrow> tcbs s b = Some t \<Longrightarrow> \<exists>t'. tcbs s' b = Some t' \<and> boost t t'"
proof -
  show "b \<noteq> a \<Longrightarrow> tcbs s b = Some t \<Longrightarrow> \<exists>t'. tcbs s' b = Some t' \<and> boost t t'"
    using assms unfolding wake_frame_def option_rel_Some1[symmetric] by metis
qed (use assms in \<open>unfold wake_frame_def, blast\<close>)+

lemma sched_frame_node:
  assumes inv: "kinvx X s" and n: "n = WaitN a \<or> n = TimeoutN a"
    and s': "s' = s\<lparr>k_ls := k_ls s'\<rparr>" "nstat (k_ls s') = (nstat (k_ls s))(n := NSelf)"
    "\<forall>h. lists (k_ls s') h = (if nstat (k_ls s) n = NIn h then map_option (remove1 n) (lists (k_ls s) h) else lists (k_ls s) h)"
  shows "sched_frame s s'"
proof -
  have H: "sched_head h" if "nstat (k_ls s) n = NIn h" for h
    using kinvx_fits[OF inv that] n by (cases h) auto
  have "ls_frame {n} (\<lambda>h. nstat (k_ls s) n = NIn h) (k_ls s) (k_ls s')"
    using s'(2,3) by (simp add: ls_frame_def)
  then have "sched_frame s (s\<lparr>k_ls := k_ls s'\<rparr>)"
    by (rule sched_frame_ls) (use H n in auto)
  then show ?thesis using s'(1) by simp
qed

lemma detach_kinv:
  assumes inv: "kinvx X s" and aX: "a \<in> X" and ch: "chain_ok s"
    and X: "\<forall>x \<in> X. nstat (k_ls s) (ReadyN x) = NNull" and t: "tcbs s a = Some t"
  shows "returns (task_detach_wait_locked a r s) (\<lambda>s'. kinvx X s' \<and> wake_frame a s s' \<and>
    nstat (k_ls s') (WaitN a) = NSelf \<and> nstat (k_ls s') (TimeoutN a) = NSelf \<and> nstat (k_ls s') (ReadyN a) = NNull \<and>
    (\<exists>u. boost t u \<and> tcbs s' a = Some (u\<lparr>t_wait_obj := KNull, t_wait_list := None, t_wait_type := AIXOS_OBJ_UNUSED,
                         t_wait_result := r\<rparr>)))"
proof -
  note no = kinvxD(4)[OF inv t]
  let ?m1 = "if nstatus (WaitN a) s \<noteq> NSelf
           then do { s \<leftarrow> unlink_node (WaitN a) s; aixos_mutex_waiter_removed a s }
           else Some s"
  have "returns ?m1 (\<lambda>s'. kinvx X s' \<and> wake_frame a s s' \<and> nstat (k_ls s') (WaitN a) = NSelf \<and>
      nstat (k_ls s') (ReadyN a) = NNull \<and> (\<exists>u. boost t u \<and> tcbs s' a = Some u))"
  proof (cases "nstat (k_ls s) (WaitN a) = NSelf")
    case True
    then show ?thesis using inv t X aX by (auto simp: nstatus_def)
  next
    case False
    have "node_may_be X s (WaitN a) NSelf" using aX by (simp add: node_may_be_def)
    then obtain s1 where s1: "unlink_node (WaitN a) s = Some s1" "kinvx X s1" "s1 = s\<lparr>k_ls := k_ls s1\<rparr>"
      "nstat (k_ls s1) = (nstat (k_ls s))(WaitN a := NSelf)"
      "\<forall>h. lists (k_ls s1) h = (if nstat (k_ls s) (WaitN a) = NIn h then map_option (remove1 (WaitN a)) (lists (k_ls s) h) else lists (k_ls s) h)"
      using returnsE[OF unlink_node_kinv[OF inv nodes_okD(3)[OF no]]] by metis
    have T: "tcbs s1 = tcbs s" by (subst s1(3)) simp
    have f1: "sched_frame s s1" by (rule sched_frame_node[OF inv _ s1(3-5)]) simp
    have w1: "wake_frame a s s1" using f1 s1(4) T by (simp add: wake_frame_def option.rel_refl)
    have X1: "\<forall>x \<in> X. nstat (k_ls s1) (ReadyN x) = NNull" using X s1(4) by simp
    obtain s2 where s2: "aixos_mutex_waiter_removed a s1 = Some s2" "kinvx X s2" "rc_frame s1 s2"
      using returnsE[OF mutex_chain_kinv(2)[OF s1(2) chain_ok_frame[OF f1 ch] X1, of a]] t T by (metis option.discI)
    have "wake_frame a s s2" using wake_frame_trans[OF w1 wake_frame_rc[OF s2(3)]] .
    moreover have "\<exists>u. boost t u \<and> tcbs s2 a = Some u" using rc_frameD(4)[OF s2(3), of a t] t T by auto
    moreover have "nstat (k_ls s2) (WaitN a) = NSelf" using rc_frameD(2)[OF s2(3)] s1(4) by simp
    moreover have "nstat (k_ls s2) (ReadyN a) = NNull" using rc_frameD(3)[OF s2(3)] X1 aX by blast
    ultimately show ?thesis using False s1(1) s2(1,2) by (simp add: nstatus_def)
  qed
  then obtain s2 u where s2: "?m1 = Some s2" "kinvx X s2" "wake_frame a s s2" "nstat (k_ls s2) (WaitN a) = NSelf"
    "nstat (k_ls s2) (ReadyN a) = NNull" "boost t u" "tcbs s2 a = Some u" by (auto simp only: returns_iff)
  let ?m2 = "if nstatus (TimeoutN a) s2 \<noteq> NSelf then unlink_node (TimeoutN a) s2 else Some s2"
  note no2 = kinvxD(4)[OF s2(2,7)]
  have "returns ?m2 (\<lambda>s'. kinvx X s' \<and> wake_frame a s2 s' \<and> nstat (k_ls s') (TimeoutN a) = NSelf \<and>
      nstat (k_ls s') (WaitN a) = NSelf \<and> nstat (k_ls s') (ReadyN a) = NNull \<and> tcbs s' a = Some u)"
  proof (cases "nstat (k_ls s2) (TimeoutN a) = NSelf")
    case True
    then show ?thesis using s2 by (simp add: nstatus_def)
  next
    case False
    have "node_may_be X s2 (TimeoutN a) NSelf" by (simp add: node_may_be_def)
    then obtain s3 where s3: "unlink_node (TimeoutN a) s2 = Some s3" "kinvx X s3" "s3 = s2\<lparr>k_ls := k_ls s3\<rparr>"
      "nstat (k_ls s3) = (nstat (k_ls s2))(TimeoutN a := NSelf)"
      "\<forall>h. lists (k_ls s3) h = (if nstat (k_ls s2) (TimeoutN a) = NIn h then map_option (remove1 (TimeoutN a)) (lists (k_ls s2) h) else lists (k_ls s2) h)"
      using returnsE[OF unlink_node_kinv[OF s2(2) nodes_okD(4)[OF no2]]] by metis
    have T: "tcbs s3 = tcbs s2" by (subst s3(3)) simp
    have "sched_frame s2 s3" by (rule sched_frame_node[OF s2(2) _ s3(3-5)]) simp
    then have "wake_frame a s2 s3" using s3(4) T by (simp add: wake_frame_def option.rel_refl)
    then show ?thesis using False s3(1,2,4) T s2(4,5,7) by (simp add: nstatus_def)
  qed
  then obtain s3 where s3: "?m2 = Some s3" "kinvx X s3" "wake_frame a s2 s3" "nstat (k_ls s3) (TimeoutN a) = NSelf"
      "nstat (k_ls s3) (WaitN a) = NSelf" "nstat (k_ls s3) (ReadyN a) = NNull" "tcbs s3 a = Some u"
    by (auto simp only: returns_iff)
  let ?u = "u\<lparr>t_wait_obj := KNull, t_wait_list := None, t_wait_type := AIXOS_OBJ_UNUSED, t_wait_result := r\<rparr>"
  let ?s = "s3\<lparr>tcbs := (tcbs s3)(a \<mapsto> ?u)\<rparr>"
  have "kinvx X ?s"
  proof (rule kinvx_tcb[OF s3(2,7)])
    show "tcb_ok ?u" using kinvxD(3)[OF s3(2,7)] by (simp add: tcb_ok_def waits_for_mutex_def)
    show "nodes_ok (k_ls s3) a ?u" using kinvxD(4)[OF s3(2,7)] s3(4-6) by (simp add: nodes_ok_def)
  qed (use aX in simp)
  moreover have "wake_frame a s3 ?s"
  proof -
    have "sched_frame s3 ?s" by (rule sched_frame_tcb[OF s3(7)]) (simp add: tcb_frame_def)
    then show ?thesis by (simp add: wake_frame_def option.rel_refl)
  qed
  then have "wake_frame a s ?s" using wake_frame_trans s2(3) s3(3) by blast
  ultimately show ?thesis
    using s2(1,6) s3(1,4-7) unfolding task_detach_wait_locked_def
    by (simp only: returns_bind returns_simps upd_tcb_eq[OF s3(7)]) auto
qed

text \<open>A woken task is ready and in no wait or timeout queue; waking any other task does nothing.\<close>

definition woken :: "u32 \<Rightarrow> int \<Rightarrow> kstate \<Rightarrow> kstate \<Rightarrow> bool" where
  "woken a r s s' \<longleftrightarrow> (\<exists>t t'. tcbs s a = Some t \<and> tcbs s' a = Some t' \<and> t_state t' = AIXOS_TASK_READY \<and>
     t_wait_obj t' = KNull \<and> t_wait_list t' = None \<and> t_wait_type t' = AIXOS_OBJ_UNUSED \<and> t_wait_result t' = r \<and>
     t_handle t' = t_handle t \<and> t_base_priority t' = t_base_priority t) \<and>
   (\<exists>h. nstat (k_ls s') (ReadyN a) = NIn h) \<and> nstat (k_ls s') (WaitN a) = NSelf \<and> nstat (k_ls s') (TimeoutN a) = NSelf"

definition is_waiting :: "u32 \<Rightarrow> kstate \<Rightarrow> bool" where
  "is_waiting a s \<longleftrightarrow> (\<exists>t. tcbs s a = Some t \<and> waiting_state (t_state t))"

lemma wake_kinv:
  assumes inv: "kinvx {} s" and ch: "chain_ok s" and a: "a = 0 \<or> tcbs s a \<noteq> None"
  shows "returns (aixos_task_wake a r s) (\<lambda>s'. kinvx {} s' \<and> wake_frame a s s' \<and>
    (if is_waiting a s then woken a r s s' else s' = s))"
proof (cases "is_waiting a s")
  case False
  then show ?thesis using inv a by (auto simp: aixos_task_wake_def is_waiting_def waiting_state_def)
next
  case True
  then obtain t where t: "tcbs s a = Some t" "waiting_state (t_state t)" by (auto simp: is_waiting_def)
  note se = kinvxD(5)[OF inv _ t(1)]
  have a0: "a \<noteq> 0" using nodes_okD(1)[OF kinvxD(4)[OF inv t(1)]] .
  have rn: "nstat (k_ls s) (ReadyN a) = NNull" using se t(2) waiting_not_ready by (auto simp: settled_def)
  have al: "nstat (k_ls s) (AllN a) = NIn AllTasks" using se t(2) by (auto simp: settled_def waiting_state_def)
  obtain s1 where s1: "task_detach_wait_locked a r s = Some s1" "kinvx {a} s1" "wake_frame a s s1"
    "nstat (k_ls s1) (WaitN a) = NSelf" "nstat (k_ls s1) (TimeoutN a) = NSelf" "nstat (k_ls s1) (ReadyN a) = NNull"
    "\<exists>u. boost t u \<and> tcbs s1 a = Some (u\<lparr>t_wait_obj := KNull, t_wait_list := None, t_wait_type := AIXOS_OBJ_UNUSED,
                         t_wait_result := r\<rparr>)"
    using detach_kinv[OF kinvx_mono[OF inv empty_subsetI] _ ch _ t(1), where X = "{a}" and r = r] rn
    by (auto simp: returns_iff)
  then obtain u where u: "boost t u" "tcbs s1 a = Some (u\<lparr>t_wait_obj := KNull, t_wait_list := None,
    t_wait_type := AIXOS_OBJ_UNUSED, t_wait_result := r\<rparr>)" by blast
  let ?u = "u\<lparr>t_wait_obj := KNull, t_wait_list := None, t_wait_type := AIXOS_OBJ_UNUSED, t_wait_result := r,
      t_state := AIXOS_TASK_READY\<rparr>"
  let ?s2 = "s1\<lparr>tcbs := (tcbs s1)(a \<mapsto> ?u)\<rparr>"
  have i2: "kinvx {a} ?s2"
  proof (rule kinvx_tcb[OF s1(2) u(2)])
    show "tcb_ok ?u" using kinvxD(3)[OF s1(2) u(2)] by (simp add: tcb_ok_def waits_for_mutex_def)
    show "nodes_ok (k_ls s1) a ?u" using kinvxD(4)[OF s1(2) u(2)] s1(4,5) by (simp add: nodes_ok_def)
  qed simp
  have f2: "wake_frame a s1 ?s2"
  proof -
    have "t_state t \<noteq> AIXOS_TASK_STOP" using t(2) by auto
    then have "sched_frame s1 ?s2"
      using boost_fields(1)[OF u(1)] by (intro sched_frame_tcb[OF u(2)]) (simp add: tcb_frame_def)
    then show ?thesis by (simp add: wake_frame_def option.rel_refl)
  qed
  have al2: "nstat (k_ls ?s2) (AllN a) = NIn AllTasks" using wake_frameD(2)[OF s1(3), of "AllN a"] al by simp
  obtain s3 where s3: "aixos_sched_add_task a ?s2 = Some s3" "kinvx {} s3" "sched_frame ?s2 s3" "tcbs s3 = tcbs ?s2"
    "\<exists>h. nstat (k_ls s3) (ReadyN a) = NIn h" "\<forall>n. n \<noteq> ReadyN a \<longrightarrow> nstat (k_ls s3) n = nstat (k_ls ?s2) n"
    using add_task_kinv[OF i2, of ?u] s1(6) al2 by (auto simp: linked_def returns_iff)
  have f3: "wake_frame a ?s2 s3"
    using s3(3,4,6) by (simp add: wake_frame_def option.rel_refl)
  obtain s4 where s4: "aixos_sched_request_preemption s3 = Some s4" "kinvx {} s4" "sched_frame s3 s4" "tcbs s4 = tcbs s3"
    "k_ls s4 = k_ls s3"
    using returnsE[OF request_preemption_kinv[OF s3(2)]] by metis
  have f4: "wake_frame a s3 s4" using s4(3-5) by (simp add: wake_frame_def option.rel_refl)
  have "wake_frame a s s4" using wake_frame_trans[OF wake_frame_trans[OF wake_frame_trans[OF s1(3) f2] f3] f4] .
  moreover have "woken a r s s4"
    unfolding woken_def using t(1) s4(4,5) s3(4-6) s1(4,5) boost_fields[OF u(1)] by simp
  moreover have "aixos_task_wake a r s = Some s4"
    using a0 t s1(1) upd_tcb_eq[OF u(2), of "\<lambda>t. t\<lparr>t_state := AIXOS_TASK_READY\<rparr>"] s3(1) s4(1)
    by (auto simp: aixos_task_wake_def waiting_state_def)
  ultimately show ?thesis using True s4(2) by simp
qed

lemma wake_recheck_kinv:
  assumes inv: "kinvx {} s" and ch: "chain_ok s" and a: "a = 0 \<or> tcbs s a \<noteq> None"
  shows "returns (aixos_task_wake_recheck a r s) (\<lambda>s'. kinvx {} s' \<and> sched_frame s s')"
proof (cases "a = 0")
  case True
  then show ?thesis using inv by (simp add: aixos_task_wake_recheck_def)
next
  case False
  then obtain t where t: "tcbs s a = Some t" using a by blast
  let ?t = "t\<lparr>t_wait_result := r\<rparr>"
  let ?s = "s\<lparr>tcbs := (tcbs s)(a \<mapsto> ?t)\<rparr>"
  have c: "same_core t ?t" by (simp add: same_core_def)
  have i: "kinvx {} ?s" by (rule kinvx_tcb_core[OF inv t c])
  have f: "sched_frame s ?s" by (rule sched_frame_tcb[OF t same_core_frame[OF c]])
  have "returns (aixos_task_wake a r ?s) (\<lambda>s'. kinvx {} s' \<and> sched_frame s s')"
    by (rule returns_mono[OF wake_kinv[OF i chain_ok_frame[OF f ch]]])
      (use sched_frame_trans[OF f] wake_frameD(1) in auto)
  then show ?thesis using False t i f by (simp add: aixos_task_wake_recheck_def upd_tcb_eq)
qed

section \<open>Blocking\<close>

lemma insert_sorted_kinv:
  assumes inv: "kinvx X s" and xs: "lists (k_ls s) h = Some xs" and P: "\<And>m. m \<in> set xs \<Longrightarrow> P m \<noteq> None"
    and nl: "\<not> linked n (k_ls s)" and ok: "node_may_be X s n (NIn h)"
  shows "returns (insert_sorted P n h s) (\<lambda>s'. kinvx X s' \<and> s' = s\<lparr>k_ls := k_ls s'\<rparr> \<and>
    nstat (k_ls s') = (nstat (k_ls s))(n := NIn h) \<and>
    (\<exists>us vs. xs = us @ vs \<and> lists (k_ls s') = (lists (k_ls s))(h \<mapsto> us @ n # vs) \<and>
      (\<forall>u \<in> set us. P u = Some False) \<and> (vs \<noteq> [] \<longrightarrow> P (hd vs) = Some True)))"
proof -
  obtain ls' us vs where r: "insert_sorted P n h s = Some (s\<lparr>k_ls := ls'\<rparr>)" "xs = us @ vs"
    "lists ls' = (lists (k_ls s))(h \<mapsto> us @ n # vs)" "nstat ls' = (nstat (k_ls s))(n := NIn h)" "lwf ls'"
    "\<forall>u \<in> set us. P u = Some False" "vs \<noteq> [] \<longrightarrow> P (hd vs) = Some True"
    by (rule insert_sorted_eq[of s h xs P n, OF kinvx_lwf[OF inv] xs P nl])
  have "h \<noteq> ReadyQ p" for p
    using ok fits_ReadyQ[of p n] by (auto simp: node_may_be_def)
  then have R: "same_heads (k_ls s) ls'" using r(3) by (auto simp: same_heads_def)
  have "kinvx X (s\<lparr>k_ls := ls'\<rparr>)" by (rule kinvx_node[OF inv r(5) R r(4) ok])
  then show ?thesis using r(1-4,6,7) by auto
qed

text \<open>A task that runs, or has just been made ready again, may block.\<close>

definition can_block :: "kstate \<Rightarrow> bool" where
  "can_block s \<longleftrightarrow> cur_task s = 0 \<or> (\<exists>t. tcbs s (cur_task s) = Some t \<and> ready_state (t_state t))"

lemma timeout_test_defined:
  assumes inv: "kinvx X s" and xs: "lists (k_ls s) TimeoutList = Some xs" and m: "m \<in> set xs"
  shows "Option.bind (node_task m) (\<lambda>a. Option.bind (tcbs s a) (\<lambda>u. Some (sint (w - t_wake_tick u) < 0))) \<noteq> None"
proof -
  obtain a where a: "m = TimeoutN a" using fits_TimeoutList kinvx_members(2)[OF inv xs m] by blast
  obtain u where "tcbs s a = Some u" using kinvx_members(3)[OF inv xs m, of a] a by auto
  then show ?thesis using a by simp
qed

lemma timeout_insert_kinv:
  assumes inv: "kinvx {} s" and t: "tcbs s a = Some t" "waiting_state (t_state t)"
    and nl: "\<not> linked (TimeoutN a) (k_ls s)"
  shows "returns (timeout_insert a s) (\<lambda>s'. kinvx {} s' \<and> sched_frame s s' \<and> tcbs s' = tcbs s \<and>
    nstat (k_ls s') = (nstat (k_ls s))(TimeoutN a := NIn TimeoutList))"
proof -
  obtain xs where xs: "lists (k_ls s) TimeoutList = Some xs" using kinvx_core[OF inv, of TimeoutList] by auto
  have ok: "node_may_be {} s (TimeoutN a) (NIn TimeoutList)" using t by (simp add: node_may_be_def)
  let ?P = "\<lambda>n. Option.bind (node_task n) (\<lambda>b. Option.bind (tcbs s b) (\<lambda>q. Some (sint (t_wake_tick t - t_wake_tick q) < 0)))"
  obtain s' where s': "insert_sorted ?P (TimeoutN a) TimeoutList s = Some s'" "kinvx {} s'" "s' = s\<lparr>k_ls := k_ls s'\<rparr>"
    "nstat (k_ls s') = (nstat (k_ls s))(TimeoutN a := NIn TimeoutList)"
    "\<exists>us vs. xs = us @ vs \<and> lists (k_ls s') = (lists (k_ls s))(TimeoutList \<mapsto> us @ TimeoutN a # vs)"
    using insert_sorted_kinv[where P = ?P, OF inv xs timeout_test_defined[OF inv xs] nl ok]
    by (auto simp: returns_iff)
  have T: "tcbs s' = tcbs s" by (subst s'(3)) simp
  have "ls_frame {TimeoutN a} (\<lambda>h. h = TimeoutList) (k_ls s) (k_ls s')"
    using s'(4,5) xs by (auto simp: ls_frame_def split: if_splits)
  then have "sched_frame s (s\<lparr>k_ls := k_ls s'\<rparr>)" by (rule sched_frame_ls) auto
  then show ?thesis using s'(1-4) T t(1) by (simp add: timeout_insert_def)
qed

lemma wait_insert_kinv:
  assumes inv: "kinvx {a} s" and t: "tcbs s a = Some t" "waiting_state (t_state t)" "t_wait_list t = Some h"
    and nl: "\<not> linked (WaitN a) (k_ls s)" and rn: "nstat (k_ls s) (ReadyN a) = NNull"
    and al: "nstat (k_ls s) (AllN a) = NIn AllTasks" and h: "is_wait_head h" "lists (k_ls s) h \<noteq> None"
  shows "returns (task_wait_insert_priority h a s) (\<lambda>s'. kinvx {} s' \<and> sched_frame s s' \<and> tcbs s' = tcbs s \<and>
    nstat (k_ls s') = (nstat (k_ls s))(WaitN a := NIn h))"
proof -
  obtain xs where xs: "lists (k_ls s) h = Some xs" using h(2) by auto
  have ok: "node_may_be {a} s (WaitN a) (NIn h)" using t h by (simp add: node_may_be_def)
  let ?P = "\<lambda>n. Option.bind (node_task n) (\<lambda>b. Option.bind (tcbs s b) (\<lambda>q. Some (t_priority t > t_priority q)))"
  obtain s' where s': "insert_sorted ?P (WaitN a) h s = Some s'" "kinvx {a} s'" "s' = s\<lparr>k_ls := k_ls s'\<rparr>"
    "nstat (k_ls s') = (nstat (k_ls s))(WaitN a := NIn h)"
    "\<exists>us vs. xs = us @ vs \<and> lists (k_ls s') = (lists (k_ls s))(h \<mapsto> us @ WaitN a # vs)"
    using insert_sorted_kinv[where P = ?P, OF inv xs wait_test_defined[OF inv xs h(1) _ refl] nl ok]
    by (auto simp: returns_iff)
  have T: "tcbs s' = tcbs s" and R: "system_running s' = system_running s" by (subst s'(3), simp)+
  have "ls_frame {WaitN a} (\<lambda>g. g = h) (k_ls s) (k_ls s')"
    using s'(4,5) xs by (auto simp: ls_frame_def split: if_splits)
  then have "sched_frame s (s\<lparr>k_ls := k_ls s'\<rparr>)"
    by (rule sched_frame_ls) (use h(1) in \<open>cases h; auto\<close>)+
  moreover have "kinvx {} s'"
    by (rule kinvx_settle[OF s'(2)])
      (use t s'(4) T rn al waiting_not_ready[OF t(2)] in \<open>simp add: settled_def\<close>)
  ultimately show ?thesis using s'(1,3,4) T t(1) by (simp add: task_wait_insert_priority_def)
qed

text \<open>The state of a task that has blocked.\<close>

definition blocked_on :: "lhead option \<Rightarrow> kptr \<Rightarrow> u32 \<Rightarrow> kstate \<Rightarrow> bool" where
  "blocked_on wl ob a s \<longleftrightarrow> (\<exists>t. tcbs s a = Some t \<and> waiting_state (t_state t) \<and> t_wait_list t = wl \<and> t_wait_obj t = ob) \<and>
     nstat (k_ls s) (ReadyN a) = NNull \<and> (\<forall>h. wl = Some h \<longrightarrow> nstat (k_ls s) (WaitN a) = NIn h)"

lemma block_kinv:
  assumes inv: "kinvx {} s" and ch: "chain_ok s" and cb: "in_isr s \<or> can_block s"
    and wl: "\<And>h. wl = Some h \<Longrightarrow> is_wait_head h \<and> lists (k_ls s) h \<noteq> None"
    and mx: "ty = AIXOS_OBJ_MUTEX \<Longrightarrow> ob \<noteq> KNull \<Longrightarrow> mutex_of ob \<noteq> None"
  shows "returns (aixos_task_block_current wl ob ty tmo s) (\<lambda>(r, s'). kinvx {} s' \<and> sched_frame s s' \<and>
    (case r of Done e \<Rightarrow> s' = s \<and> e \<in> {AIXOS_ERR_CONTEXT, AIXOS_ERR_LOCKED}
     | Blocked \<Rightarrow> cur_task s \<noteq> 0 \<and> blocked_on wl ob (cur_task s) s'))"
proof (cases "cur_task s = 0 \<or> in_isr s \<or> sched_locked s")
  case True
  then show ?thesis using inv by (auto simp: aixos_task_block_current_def Let_def)
next
  case False
  let ?a = "cur_task s"
  obtain t where t: "tcbs s ?a = Some t" "ready_state (t_state t)" using cb False by (auto simp: can_block_def)
  have nw: "\<not> waiting_state (t_state t)" using t(2) waiting_not_ready by blast
  note no = kinvxD(4)[OF inv t(1)] and se = kinvxD(5)[OF inv _ t(1)]
  have W: "nstat (k_ls s) (WaitN ?a) = NSelf" "nstat (k_ls s) (TimeoutN ?a) = NSelf"
    using nodes_okD(3,4,7,8)[OF no] nw by (metis nstate.exhaust)+
  have al: "nstat (k_ls s) (AllN ?a) = NIn AllTasks" using se t(2) by (auto simp: settled_def ready_state_def)
  let ?st = "if ty = AIXOS_OBJ_UNUSED then AIXOS_TASK_DELAYED else AIXOS_TASK_BLOCKED"
  let ?t = "t\<lparr>t_state := ?st, t_wait_obj := ob, t_wait_list := wl, t_wait_type := ty, t_wait_result := AIXOS_OK\<rparr>"
  have ws: "waiting_state ?st" by simp
  let ?s1 = "s\<lparr>tcbs := (tcbs s)(?a \<mapsto> ?t)\<rparr>"
  have i1: "kinvx {?a} ?s1"
  proof (rule kinvx_tcb[OF kinvx_mono[OF inv empty_subsetI] t(1)])
    show "tcb_ok ?t" using kinvxD(3)[OF inv t(1)] wl mx by (auto simp: tcb_ok_def waits_for_mutex_def)
    show "nodes_ok (k_ls s) ?a ?t" using no W by (simp add: nodes_ok_def)
  qed simp
  have t1: "tcbs ?s1 ?a = Some ?t" by simp
  have f1: "sched_frame s ?s1"
    by (rule sched_frame_tcb[OF t(1)]) (use t(2) in \<open>auto simp: tcb_frame_def\<close>)
  obtain s2 where s2: "aixos_sched_remove_task ?a ?s1 = Some s2" "kinvx {?a} s2" "sched_frame ?s1 s2" "tcbs s2 = tcbs ?s1"
    "nstat (k_ls s2) (ReadyN ?a) = NNull" "\<forall>n. n \<noteq> ReadyN ?a \<longrightarrow> nstat (k_ls s2) n = nstat (k_ls s) n"
    using remove_task_kinv[OF i1 t1] by (auto simp: returns_iff)
  have t2: "tcbs s2 ?a = Some ?t" using s2(4) by simp
  have f2: "sched_frame s s2" using sched_frame_trans[OF f1 s2(3)] .
  have al2: "nstat (k_ls s2) (AllN ?a) = NIn AllTasks" using s2(6) al by simp
  let ?m3 = "case wl of Some h \<Rightarrow> task_wait_insert_priority h ?a s2 | None \<Rightarrow> Some s2"
  have "returns ?m3 (\<lambda>s'. kinvx {} s' \<and> sched_frame s2 s' \<and> tcbs s' = tcbs s2 \<and>
      nstat (k_ls s') (ReadyN ?a) = NNull \<and> nstat (k_ls s') (TimeoutN ?a) = NSelf \<and>
      (\<forall>h. wl = Some h \<longrightarrow> nstat (k_ls s') (WaitN ?a) = NIn h))"
  proof (cases wl)
    case None
    have "kinvx {} s2"
      by (rule kinvx_settle[OF s2(2)])
        (use t2 s2(5) al2 None waiting_not_ready[OF ws] in \<open>auto simp: settled_def\<close>)
    then show ?thesis using None s2(5,6) W by simp
  next
    case (Some h)
    have h: "is_wait_head h" "lists (k_ls s2) h \<noteq> None" using wl[OF Some] sched_frameD(6)[OF f2] by auto
    have nl: "\<not> linked (WaitN ?a) (k_ls s2)" using s2(6) W(1) by (simp add: linked_def)
    have "returns (task_wait_insert_priority h ?a s2) (\<lambda>s'. kinvx {} s' \<and> sched_frame s2 s' \<and> tcbs s' = tcbs s2 \<and>
      nstat (k_ls s') = (nstat (k_ls s2))(WaitN ?a := NIn h))"
      by (rule wait_insert_kinv[OF s2(2) t2 _ _ nl s2(5) al2 h]) (use Some in simp_all)
    then show ?thesis using Some s2(5,6) W by (auto simp: returns_iff)
  qed
  then obtain s3 where s3: "?m3 = Some s3" "kinvx {} s3" "sched_frame s2 s3" "tcbs s3 = tcbs s2"
    "nstat (k_ls s3) (ReadyN ?a) = NNull" "nstat (k_ls s3) (TimeoutN ?a) = NSelf"
    "\<forall>h. wl = Some h \<longrightarrow> nstat (k_ls s3) (WaitN ?a) = NIn h" by (auto simp only: returns_iff)
  have t3: "tcbs s3 ?a = Some ?t" using s3(4) t2 by simp
  have f3: "sched_frame s s3" using sched_frame_trans[OF f2 s3(3)] .
  let ?m4 = "if ty = AIXOS_OBJ_MUTEX then aixos_mutex_waiter_added ?a s3 else Some s3"
  have "returns (aixos_mutex_waiter_added ?a s3) (\<lambda>s'. kinvx {} s' \<and> rc_frame s3 s')"
    by (rule mutex_chain_kinv(1)[OF s3(2) chain_ok_frame[OF f3 ch]]) (use t3 in auto)
  then have "returns ?m4 (\<lambda>s'. kinvx {} s' \<and> rc_frame s3 s')" using s3(2) by simp
  then obtain s4 where s4: "?m4 = Some s4" "kinvx {} s4" "rc_frame s3 s4" by (rule returnsE) blast
  obtain u where u: "tcbs s4 ?a = Some u" "boost ?t u" using rc_frameD(4)[OF s4(3) t3] by blast
  have f4: "sched_frame s s4" using sched_frame_trans[OF f3 rc_frameD(1)[OF s4(3)]] .
  have N4: "nstat (k_ls s4) (ReadyN ?a) = NNull" "nstat (k_ls s4) (TimeoutN ?a) = NSelf"
    "\<forall>h. wl = Some h \<longrightarrow> nstat (k_ls s4) (WaitN ?a) = NIn h"
    using rc_frameD(2,3)[OF s4(3)] s3(5-7) by simp_all
  have u2: "waiting_state (t_state u)" "t_wait_list u = wl" "t_wait_obj u = ob"
    using boost_fields[OF u(2)] by simp_all
  let ?tk = "aixos_ms_to_ticks tmo"
  let ?m5 = "if ?tk \<noteq> UINT32_MAX
                 then do {
                   s \<leftarrow> upd_tcb ?a (\<lambda>t. t\<lparr>t_wake_tick := aixos_get_tick s4 + ?tk\<rparr>) s4;
                   timeout_insert ?a s
                 }
                 else Some s4"
  have "returns ?m5 (\<lambda>s'. kinvx {} s' \<and> sched_frame s4 s' \<and> blocked_on wl ob ?a s')"
  proof (cases "?tk = UINT32_MAX")
    case True
    then show ?thesis using s4(2) u u2 N4 by (simp add: blocked_on_def)
  next
    case False
    let ?u = "u\<lparr>t_wake_tick := aixos_get_tick s4 + ?tk\<rparr>"
    let ?s5 = "s4\<lparr>tcbs := (tcbs s4)(?a \<mapsto> ?u)\<rparr>"
    have c: "same_core u ?u" by (simp add: same_core_def)
    have i5: "kinvx {} ?s5" by (rule kinvx_tcb_core[OF s4(2) u(1) c])
    have f5: "sched_frame s4 ?s5" by (rule sched_frame_tcb[OF u(1) same_core_frame[OF c]])
    have "returns (timeout_insert ?a ?s5) (\<lambda>s'. kinvx {} s' \<and> sched_frame ?s5 s' \<and> tcbs s' = tcbs ?s5 \<and>
      nstat (k_ls s') = (nstat (k_ls ?s5))(TimeoutN ?a := NIn TimeoutList))"
      by (rule timeout_insert_kinv[OF i5, of _ ?u]) (use u2 N4 in \<open>auto simp: linked_def\<close>)
    then obtain s6 where s6: "timeout_insert ?a ?s5 = Some s6" "kinvx {} s6" "sched_frame ?s5 s6" "tcbs s6 = tcbs ?s5"
      "nstat (k_ls s6) = (nstat (k_ls ?s5))(TimeoutN ?a := NIn TimeoutList)" by (rule returnsE) blast
    have "blocked_on wl ob ?a s6" using u2 N4 s6(4,5) by (simp add: blocked_on_def)
    then show ?thesis using False s6(1,2) upd_tcb_eq[OF u(1)] sched_frame_trans[OF f5 s6(3)] by simp
  qed
  then obtain s5 where s5: "?m5 = Some s5" "kinvx {} s5" "sched_frame s4 s5" "blocked_on wl ob ?a s5"
    by (rule returnsE) blast
  have "sched_frame s (reschedule_request s5)"
    using sched_frame_trans[OF f4] sched_frame_trans[OF s5(3) sched_frame_reschedule] by blast
  moreover have "blocked_on wl ob ?a (reschedule_request s5)" using s5(4) by (simp add: blocked_on_def)
  moreover have "aixos_task_block_current wl ob ty tmo s = Some (Blocked, reschedule_request s5)"
    unfolding aixos_task_block_current_def Let_def
    using False upd_tcb_eq[OF t(1)] s2(1) s3(1) s4(1) s5(1)
    by (cases wl) (simp_all add: Let_def cong: if_cong)
  ultimately show ?thesis using s5(2) False by simp
qed

end
