(* ===== verification/Kobj.thy ===== *)
theory Kobj
  imports Kwait
begin

text \<open>
  The invariant of the whole kernel: the scheduler invariant of \<open>Kinv\<close>, and for the objects that a
  handle of each type resolves to a live object whose wait queues exist, that a held mutex is in the
  list of the task that owns it, and that a timer is queued exactly when it is marked so.
\<close>

section \<open>Handles\<close>

lemma k_lookup_live:
  assumes "obj_inv (k_obj s)" "0 \<le> type_to_pool_id ty"
  shows "k_lookup h ty s =
     (case live_slot (type_to_pool_id ty) (uint (AIXOS_HANDLE_IDX h)) (k_obj s) of
        None \<Rightarrow> KNull
      | Some sl \<Rightarrow> if slot_generation sl = AIXOS_HANDLE_GEN h then slot_obj sl else KNull)"
  unfolding k_lookup_def by (rule resolve_live[OF assms])

lemma k_lookup_no_pool: "type_to_pool_id ty < 0 \<Longrightarrow> k_lookup h ty s = KNull"
  by (simp add: k_lookup_def aixos_obj_from_handle_def)

lemma pool_id_inj: "0 \<le> type_to_pool_id ty \<Longrightarrow> type_to_pool_id ty' = type_to_pool_id ty \<Longrightarrow> ty' = ty"
  by (cases ty; cases ty') (auto simp: type_to_pool_id_def)

lemma handle_not_zero: "AIXOS_HANDLE_GEN h \<noteq> 0 \<Longrightarrow> h \<noteq> 0"
  by (auto simp: AIXOS_HANDLE_GEN_def)

lemma k_slot_alloc_effect:
  assumes inv: "obj_inv (k_obj s)" and ty: "0 \<le> type_to_pool_id ty" and ob: "ob \<noteq> KNull"
    and al: "k_slot_alloc (type_to_pool_id ty) ob s = Some (i, s')"
  shows "s' = s\<lparr>k_heap := k_heap s', k_obj := k_obj s'\<rparr>" "obj_inv (k_obj s')"
    "i < 0 \<Longrightarrow> k_lookup g ty' s' = k_lookup g ty' s"
    "0 \<le> i \<Longrightarrow> h = aixos_slot_handle (type_to_pool_id ty) i (k_obj s') \<Longrightarrow>
      h \<noteq> 0 \<and> k_lookup h ty s = KNull \<and> (\<forall>g ty'. k_lookup g ty' s' = (if g = h \<and> ty' = ty then ob else k_lookup g ty' s))"
proof -
  let ?pid = "type_to_pool_id ty"
  note pid = ty pool_id_range[OF ty]
  obtain hp os where a: "aixos_slot_alloc (page_malloc (in_isr s)) ?pid ob (Some (k_heap s)) (k_obj s) = (i, Some hp, os)"
    and s': "s' = s\<lparr>k_heap := hp, k_obj := os\<rparr>"
    using al by (auto simp: k_slot_alloc_def split: prod.splits option.splits)
  show "s' = s\<lparr>k_heap := k_heap s', k_obj := k_obj s'\<rparr>" by (simp add: s')
  have eff: "(i = -1 \<and> same_view (k_obj s) os) \<or> (\<exists>k. i = int k \<and> alloc_effect ?pid ob (k_obj s) k os)"
    by (rule slot_alloc_effect[OF inv pid a])
  then show inv': "obj_inv (k_obj s')" by (auto simp: s' same_view_def alloc_effect_def)
  show "k_lookup g ty' s' = k_lookup g ty' s" if "i < 0"
  proof (cases "0 \<le> type_to_pool_id ty'")
    case True
    have "same_view (k_obj s) os" using eff that by auto
    then show ?thesis
      using k_lookup_live[OF inv True] k_lookup_live[OF inv' True] pool_id_range[OF True] True
      by (simp add: same_view_def s')
  qed (simp add: k_lookup_no_pool)
  assume i: "0 \<le> i" and h: "h = aixos_slot_handle ?pid i (k_obj s')"
  then obtain k where k: "i = int k" "alloc_effect ?pid ob (k_obj s) k os" using eff by auto
  have live: "live_slot ?pid i (k_obj s') = Some \<lparr>slot_type = pool_types ! nat ?pid, slot_used = True,
       slot_generation = next_generation (slot_gen ?pid i (k_obj s)), slot_obj = ob\<rparr>"
    "live_slot ?pid i (k_obj s) = None"
    "\<And>q j. 0 \<le> q \<Longrightarrow> q < 7 \<Longrightarrow> \<not> (q = ?pid \<and> j = i) \<Longrightarrow> live_slot q j (k_obj s') = live_slot q j (k_obj s)"
    using k by (auto simp: alloc_effect_def s')
  have hm: "h = AIXOS_HANDLE_MAKE (word_of_int (int k)) (next_generation (slot_gen ?pid (int k) (k_obj s)))"
    unfolding h using slot_handle_live[OF pid live(1)] k(1) by simp
  note parts = alloc_handle_parts[OF k(2) inv pid, folded hm]
  have "AIXOS_HANDLE_GEN h \<noteq> 0"
    using parts(2) next_generation_range[OF slot_gen_wf[OF inv pid, of "int k"]] by auto
  moreover have "k_lookup h ty s = KNull" using k_lookup_live[OF inv ty] parts(1) live(2) k(1) by simp
  moreover have "k_lookup g ty' s' = (if g = h \<and> ty' = ty then ob else k_lookup g ty' s)" for g ty'
  proof (cases "0 \<le> type_to_pool_id ty'")
    case True
    note l = k_lookup_live[OF inv True, of g] k_lookup_live[OF inv' True, of g]
    show ?thesis
    proof (cases "ty' = ty \<and> uint (AIXOS_HANDLE_IDX g) = i")
      case same: True
      show ?thesis
      proof (cases "g = h")
        case True
        then show ?thesis using same l live k(1) parts by simp
      next
        case False
        then have "AIXOS_HANDLE_GEN g \<noteq> next_generation (slot_gen ?pid (int k) (k_obj s))"
          using same parts k(1) handle_eqI[of g h] by auto
        then show ?thesis using same l live k(1) False by simp
      qed
    next
      case False
      then have "\<not> (type_to_pool_id ty' = ?pid \<and> uint (AIXOS_HANDLE_IDX g) = i)" using pool_id_inj[OF ty] by blast
      moreover have "\<not> (g = h \<and> ty' = ty)" using False parts(1) k(1) by auto
      ultimately show ?thesis using l live(3)[OF True pool_id_range[OF True]] by auto
    qed
  qed (use ty in \<open>auto simp: k_lookup_no_pool\<close>)
  ultimately show "h \<noteq> 0 \<and> k_lookup h ty s = KNull \<and>
      (\<forall>g ty'. k_lookup g ty' s' = (if g = h \<and> ty' = ty then ob else k_lookup g ty' s))"
    using handle_not_zero by blast
qed

lemma k_slot_free_effect:
  assumes inv: "obj_inv (k_obj s)" and ty: "0 \<le> type_to_pool_id ty" and h: "k_lookup h ty s \<noteq> KNull"
  shows "obj_inv (k_obj (k_slot_free (type_to_pool_id ty) h s))"
    "k_lookup g ty' (k_slot_free (type_to_pool_id ty) h s) = (if g = h \<and> ty' = ty then KNull else k_lookup g ty' s)"
proof -
  let ?pid = "type_to_pool_id ty" and ?i = "uint (AIXOS_HANDLE_IDX h)"
  let ?s = "k_slot_free ?pid h s"
  note pid = ty pool_id_range[OF ty]
  have eff: "free_effect ?pid ?i (k_obj s) (k_obj ?s)" using slot_free_effect[OF inv pid, of ?i] by (simp add: k_slot_free_def)
  then show inv': "obj_inv (k_obj ?s)" by (simp add: free_effect_def)
  obtain sl where sl: "live_slot ?pid ?i (k_obj s) = Some sl" "slot_generation sl = AIXOS_HANDLE_GEN h"
    using h k_lookup_live[OF inv ty, of h] by (auto split: option.splits if_splits)
  show "k_lookup g ty' ?s = (if g = h \<and> ty' = ty then KNull else k_lookup g ty' s)"
  proof (cases "0 \<le> type_to_pool_id ty'")
    case True
    note l = k_lookup_live[OF inv True, of g] k_lookup_live[OF inv' True, of g]
    note e = eff[unfolded free_effect_def]
    show ?thesis
    proof (cases "ty' = ty \<and> uint (AIXOS_HANDLE_IDX g) = ?i")
      case same: True
      then have n: "k_lookup g ty' ?s = KNull" using l e pid by simp
      show ?thesis
      proof (cases "g = h")
        case False
        then have "AIXOS_HANDLE_GEN g \<noteq> AIXOS_HANDLE_GEN h" using same handle_eqI[of g h] by auto
        then have "k_lookup g ty' s = KNull" using l(1) same sl by auto
        then show ?thesis using n by simp
      qed (use n same in simp)
    next
      case False
      then have "\<not> (type_to_pool_id ty' = ?pid \<and> uint (AIXOS_HANDLE_IDX g) = ?i)" using pool_id_inj[OF ty] by blast
      moreover have "\<not> (g = h \<and> ty' = ty)" using False by auto
      ultimately show ?thesis using l e True pool_id_range[OF True] by auto
    qed
  qed (use ty in \<open>auto simp: k_lookup_no_pool\<close>)
qed

section \<open>The invariant\<close>

text \<open>A pool of objects: the pointer \<open>ptr i\<close> that a handle resolves to is a pool entry that carries this
  handle and whose wait queues (\<open>heads i\<close>) are initialised; a free entry has handle 0 and no queues.\<close>

definition table_ok ::
  "(aixos_handle_t \<Rightarrow> kptr) \<Rightarrow> (nat \<Rightarrow> kptr) \<Rightarrow> (nat \<Rightarrow> aixos_handle_t) \<Rightarrow> nat \<Rightarrow> (nat \<Rightarrow> lhead list) \<Rightarrow>
   (lhead \<Rightarrow> lnode list option) \<Rightarrow> bool" where
  "table_ok lk ptr hnd n heads L \<longleftrightarrow>
     (\<forall>h i. lk h = ptr i \<longrightarrow> i < n \<and> hnd i = h \<and> (\<forall>g \<in> set (heads i). L g \<noteq> None)) \<and>
     (\<forall>i < n. hnd i = 0 \<longrightarrow> (\<forall>g \<in> set (heads i). L g = None))"

abbreviation (input) sem_table :: "kstate \<Rightarrow> bool" where
  "sem_table s \<equiv> length (sem_pool s) = AIXOS_CFG_MAX_SEM \<and> table_ok (\<lambda>h. k_lookup h AIXOS_OBJ_SEM s) KSem
     (\<lambda>i. sem_handle (sem_pool s ! i)) AIXOS_CFG_MAX_SEM (\<lambda>i. [SemWait i]) (lists (k_ls s))"

abbreviation (input) mutex_table :: "kstate \<Rightarrow> bool" where
  "mutex_table s \<equiv> length (mutex_pool s) = AIXOS_CFG_MAX_MUTEX \<and> table_ok (\<lambda>h. k_lookup h AIXOS_OBJ_MUTEX s) KMutex
     (\<lambda>i. mx_handle (mutex_pool s ! i)) AIXOS_CFG_MAX_MUTEX (\<lambda>i. [MutexWait i]) (lists (k_ls s))"

abbreviation (input) mq_table :: "kstate \<Rightarrow> bool" where
  "mq_table s \<equiv> length (mq_pool s) = AIXOS_CFG_MAX_MQ \<and> table_ok (\<lambda>h. k_lookup h AIXOS_OBJ_MQ s) KMq
     (\<lambda>i. mq_handle (mq_pool s ! i)) AIXOS_CFG_MAX_MQ (\<lambda>i. [MqSend i, MqRecv i]) (lists (k_ls s))"

abbreviation (input) event_table :: "kstate \<Rightarrow> bool" where
  "event_table s \<equiv> length (event_pool s) = AIXOS_CFG_MAX_EVENT \<and> table_ok (\<lambda>h. k_lookup h AIXOS_OBJ_EVENT s) KEvent
     (\<lambda>i. ev_handle (event_pool s ! i)) AIXOS_CFG_MAX_EVENT (\<lambda>i. [EventWait i]) (lists (k_ls s))"

abbreviation (input) pipe_table :: "kstate \<Rightarrow> bool" where
  "pipe_table s \<equiv> length (pipe_pool s) = AIXOS_CFG_MAX_PIPE \<and> table_ok (\<lambda>h. k_lookup h AIXOS_OBJ_PIPE s) KPipe
     (\<lambda>i. pp_handle (pipe_pool s ! i)) AIXOS_CFG_MAX_PIPE (\<lambda>i. [PipeRead i, PipeWrite i]) (lists (k_ls s))"

abbreviation (input) timer_table :: "kstate \<Rightarrow> bool" where
  "timer_table s \<equiv> length (timer_pool s) = AIXOS_CFG_MAX_TIMER \<and> table_ok (\<lambda>h. k_lookup h AIXOS_OBJ_TIMER s) KTimer
     (\<lambda>i. tm_handle (timer_pool s ! i)) AIXOS_CFG_MAX_TIMER (\<lambda>i. []) (lists (k_ls s))"

definition tasks_ok :: "kstate \<Rightarrow> bool" where
  "tasks_ok s \<longleftrightarrow> obj_inv (k_obj s) \<and>
     (\<forall>h a. k_lookup h AIXOS_OBJ_TASK s = KTask a \<longrightarrow>
        (\<exists>t. tcbs s a = Some t \<and> t_handle t = h \<and> t_state t \<noteq> AIXOS_TASK_STOP)) \<and>
     (\<forall>a t. tcbs s a = Some t \<longrightarrow> t_state t \<noteq> AIXOS_TASK_STOP \<longrightarrow>
        t_handle t \<noteq> AIXOS_HANDLE_INVALID \<and> k_lookup (t_handle t) AIXOS_OBJ_TASK s = KTask a)"

text \<open>A mutex that is in a list of held mutexes is in that of its owner.\<close>

definition mutexes_ok :: "kstate \<Rightarrow> bool" where
  "mutexes_ok s \<longleftrightarrow>
     (\<forall>i h. nstat (k_ls s) (OwnerN i) = NIn h \<longrightarrow> i < AIXOS_CFG_MAX_MUTEX \<and> h = HeldMutexes (mutex_owner i s) \<and>
        mutex_owner i s \<noteq> 0 \<and> mx_handle (mutex_pool s ! i) \<noteq> 0 \<and> lists (k_ls s) (MutexWait i) \<noteq> None \<and>
        mx_owner (mutex_pool s ! i) \<noteq> AIXOS_HANDLE_INVALID) \<and>
     (\<forall>i < AIXOS_CFG_MAX_MUTEX. mx_handle (mutex_pool s ! i) \<noteq> 0 \<longrightarrow> nstat (k_ls s) (OwnerN i) \<noteq> NNull)"

definition timers_ok :: "kstate \<Rightarrow> bool" where
  "timers_ok s \<longleftrightarrow>
     (\<forall>i < AIXOS_CFG_MAX_TIMER. nstat (k_ls s) (ActiveN i) = (if tm_active (timer_pool s ! i) then NIn ActiveTimers else NSelf) \<and>
        nstat (k_ls s) (PendingN i) = (if tm_pending (timer_pool s ! i) then NIn PendingTimers else NSelf) \<and>
        (tm_handle (timer_pool s ! i) = 0 \<longrightarrow> \<not> tm_active (timer_pool s ! i) \<and> \<not> tm_pending (timer_pool s ! i)) \<and>
        (tm_active (timer_pool s ! i) \<longrightarrow> 0 < tm_interval (timer_pool s ! i) \<and>
           tm_interval (timer_pool s ! i) \<le> AIXOS_CFG_TIMEOUT_MAX_TICKS)) \<and>
     (\<forall>i h. nstat (k_ls s) (ActiveN i) = NIn h \<or> nstat (k_ls s) (PendingN i) = NIn h \<longrightarrow> i < AIXOS_CFG_MAX_TIMER)"

definition objects_ok :: "kstate \<Rightarrow> bool" where
  "objects_ok s \<longleftrightarrow> tasks_ok s \<and> sem_table s \<and> mutex_table s \<and> mq_table s \<and> event_table s \<and> pipe_table s \<and>
     timer_table s \<and> mutexes_ok s \<and> timers_ok s \<and> tw_low s < AIXOS_CFG_TW_SIZE1 \<and> tw_high s < AIXOS_CFG_TW_SIZE2"

definition kernel_ok :: "kstate \<Rightarrow> bool" where
  "kernel_ok s \<longleftrightarrow> kinvx {} s \<and> objects_ok s"

lemma table_okD:
  assumes "table_ok lk ptr hnd n heads L" "lk h = ptr i"
  shows "i < n" "hnd i = h" "g \<in> set (heads i) \<Longrightarrow> \<exists>xs. L g = Some xs"
  using assms unfolding table_ok_def by blast+

lemma table_ok_mono:
  assumes "table_ok lk ptr hnd n heads L" "\<And>h i. lk' h = ptr i \<Longrightarrow> lk h = ptr i" "\<And>i. i < n \<Longrightarrow> hnd' i = hnd i"
    "\<And>i g. g \<in> set (heads i) \<Longrightarrow> L' g = None \<longleftrightarrow> L g = None"
  shows "table_ok lk' ptr hnd' n heads L'"
  using assms unfolding table_ok_def by metis

lemma objects_okD:
  assumes "objects_ok s"
  shows "tasks_ok s" "sem_table s" "mutex_table s" "mq_table s" "event_table s" "pipe_table s" "timer_table s"
    "mutexes_ok s" "timers_ok s"
  using assms unfolding objects_ok_def by blast+

lemma tasks_okD:
  assumes "tasks_ok s"
  shows "obj_inv (k_obj s)"
    "k_lookup h AIXOS_OBJ_TASK s = KTask a \<Longrightarrow> \<exists>t. tcbs s a = Some t \<and> t_handle t = h \<and> t_state t \<noteq> AIXOS_TASK_STOP"
    "tcbs s a = Some t \<Longrightarrow> t_state t \<noteq> AIXOS_TASK_STOP \<Longrightarrow> t_handle t \<noteq> AIXOS_HANDLE_INVALID"
    "tcbs s a = Some t \<Longrightarrow> t_state t \<noteq> AIXOS_TASK_STOP \<Longrightarrow> k_lookup (t_handle t) AIXOS_OBJ_TASK s = KTask a"
  using assms unfolding tasks_ok_def by blast+

lemma tcb_from_handle_live:
  assumes "tasks_ok s" "aixos_tcb_from_handle h s \<noteq> 0"
  shows "\<exists>t. tcbs s (aixos_tcb_from_handle h s) = Some t \<and> t_handle t = h \<and> t_state t \<noteq> AIXOS_TASK_STOP"
  using assms(2) tasks_okD(2)[OF assms(1), of h]
  by (cases "k_lookup h AIXOS_OBJ_TASK s") (simp_all add: aixos_tcb_from_handle_def)

lemma tcb_from_own_handle:
  assumes "tasks_ok s" "tcbs s a = Some t" "t_state t \<noteq> AIXOS_TASK_STOP"
  shows "aixos_tcb_from_handle (t_handle t) s = a"
  using tasks_okD(4)[OF assms] by (simp add: aixos_tcb_from_handle_def)

lemma objects_chain_ok: "objects_ok s \<Longrightarrow> chain_ok s"
  using tcb_from_handle_live[OF objects_okD(1)] objects_okD(8) unfolding chain_ok_def mutexes_ok_def by blast

text \<open>The objects survive whatever the scheduler primitives do.\<close>

lemma objects_ok_frame:
  assumes f: "sched_frame s s'" and ok: "objects_ok s"
  shows "objects_ok s'"
proof -
  note r = frame_rest[OF f] and n = sched_frameD(4-6)[OF f]
  have lk: "k_lookup h ty s' = k_lookup h ty s" for h ty using r(1) by (simp add: k_lookup_def)
  have mo: "mutex_owner i s' = mutex_owner i s" for i by (rule mutex_owner_cong[OF r(1,5)])
  have "tasks_ok s'"
    unfolding tasks_ok_def
  proof (intro conjI allI impI)
    show "obj_inv (k_obj s')" using objects_okD(1)[OF ok] by (simp add: tasks_ok_def r(1))
    fix h a assume "k_lookup h AIXOS_OBJ_TASK s' = KTask a"
    then obtain t where t: "tcbs s a = Some t" "t_handle t = h" "t_state t \<noteq> AIXOS_TASK_STOP"
      using objects_okD(1)[OF ok] unfolding tasks_ok_def lk by blast
    then show "\<exists>t. tcbs s' a = Some t \<and> t_handle t = h \<and> t_state t \<noteq> AIXOS_TASK_STOP"
      using sched_frameD(8)[OF f t(1)] by (auto simp: tcb_frame_def)
  next
    fix a t' assume t': "tcbs s' a = Some t'" "t_state t' \<noteq> AIXOS_TASK_STOP"
    obtain t where t: "tcbs s a = Some t" "tcb_frame t t'" using sched_frameD(9)[OF f t'(1)] by blast
    then have "t_handle t \<noteq> AIXOS_HANDLE_INVALID \<and> k_lookup (t_handle t) AIXOS_OBJ_TASK s = KTask a"
      using objects_okD(1)[OF ok] t'(2) unfolding tasks_ok_def tcb_frame_def by blast
    then show "t_handle t' \<noteq> AIXOS_HANDLE_INVALID" "k_lookup (t_handle t') AIXOS_OBJ_TASK s' = KTask a"
      using t(2) by (simp_all add: lk tcb_frame_def)
  qed
  moreover have "mutexes_ok s'"
    using objects_okD(8)[OF ok] unfolding mutexes_ok_def mo r(5) by (simp add: n)
  moreover have tn: "nstat (k_ls s') (ActiveN i) = nstat (k_ls s) (ActiveN i)"
    "nstat (k_ls s') (PendingN i) = nstat (k_ls s) (PendingN i)" for i by (rule n(1); simp)+
  have "timers_ok s'" using objects_okD(9)[OF ok] unfolding timers_ok_def r(9) tn .
  moreover have "table_ok (\<lambda>h. k_lookup h ty s') ptr hnd m heads (lists (k_ls s'))"
    if "table_ok (\<lambda>h. k_lookup h ty s) ptr hnd m heads (lists (k_ls s))" for ty ptr hnd m heads
    by (rule table_ok_mono[OF that]) (simp_all add: lk n)
  ultimately show ?thesis using ok unfolding objects_ok_def r by blast
qed

lemma kernel_okI_frame: "kernel_ok s \<Longrightarrow> sched_frame s s' \<Longrightarrow> kinvx {} s' \<Longrightarrow> kernel_ok s'"
  using objects_ok_frame unfolding kernel_ok_def by blast

lemma kernel_okD: "kernel_ok s \<Longrightarrow> kinvx {} s" "kernel_ok s \<Longrightarrow> objects_ok s" "kernel_ok s \<Longrightarrow> chain_ok s"
  using objects_chain_ok by (auto simp: kernel_ok_def)

text \<open>Fields that the invariant does not read.\<close>

lemma kernel_ok_cong:
  assumes "k_ls s' = k_ls s" "ready_bitmap s' = ready_bitmap s" "tcbs s' = tcbs s" "system_running s' = system_running s"
    "cur_task s' = cur_task s" "k_obj s' = k_obj s" "sem_pool s' = sem_pool s" "mutex_pool s' = mutex_pool s"
    "mq_pool s' = mq_pool s" "event_pool s' = event_pool s" "pipe_pool s' = pipe_pool s" "timer_pool s' = timer_pool s"
    "tw_low s' = tw_low s" "tw_high s' = tw_high s"
  shows "kernel_ok s' \<longleftrightarrow> kernel_ok s"
proof -
  have lk: "k_lookup h ty s' = k_lookup h ty s" for h ty using assms(6) by (simp add: k_lookup_def)
  have mo: "mutex_owner i s' = mutex_owner i s" for i by (rule mutex_owner_cong[OF assms(6,8)])
  show ?thesis
    unfolding kernel_ok_def objects_ok_def tasks_ok_def mutexes_ok_def timers_ok_def lk mo kinvx_def
    by (simp add: assms)
qed

end
