(* ===== verification/Kclient.thy ===== *)
theory Kclient
  imports Kobj
begin

text \<open>
  What the IPC components need from the scheduler and the object tables, as a contract, and their
  operations verified once against it: whatever invariant satisfies the contract is kept by every
  semaphore, event, notification, message queue and pipe call, and every such call returns. The
  contract is interpreted on the kernel invariant \<open>kernel_ok\<close> in \<open>Kservices\<close>.
\<close>

text \<open>A call that reports a result at once has changed nothing.\<close>

lemma block_done:
  assumes "aixos_task_block_current wl ob ty tmo s = Some (Done e, s')"
  shows "s' = s \<and> e \<noteq> AIXOS_OK"
  using assms by (auto simp: aixos_task_block_current_def Let_def split: if_splits Option.bind_splits)

lemma notify_wait_done:
  assumes "aixos_task_notify_wait ce cx tmo s = Some (Done (r, v), s')"
  shows "cur_task s' = cur_task s \<and> (r = AIXOS_OK \<longrightarrow> cur_task s \<noteq> 0)"
proof (cases "in_isr s \<or> cur_task s = 0")
  case False
  let ?f = "\<lambda>t. t\<lparr>t_notify_value := t_notify_value t AND NOT ce\<rparr>"
  obtain s1 where s1: "upd_tcb (cur_task s) ?f s = Some s1" "cur_task s1 = cur_task s"
    using assms False by (auto simp: aixos_task_notify_wait_def upd_tcb_def split: Option.bind_splits option.splits)
  obtain t where t: "tcbs s1 (cur_task s1) = Some t"
    using assms False s1 by (auto simp: aixos_task_notify_wait_def split: Option.bind_splits)
  show ?thesis
    using assms False s1 t
    by (auto simp: aixos_task_notify_wait_def notify_consume_def upd_tcb_def dest!: block_done
        split: if_splits Option.bind_splits option.splits outcome.splits)
qed (use assms in \<open>auto simp: aixos_task_notify_wait_def\<close>)

lemma notify_wait_resume_done: "notify_wait_resume cx s = Some (Done (r, v), s') \<Longrightarrow> cur_task s' = cur_task s"
  by (auto simp: notify_wait_resume_def notify_consume_def upd_tcb_def block_result_def
      split: if_splits Option.bind_splits option.splits)

locale kernel_services =
  fixes ok :: "kstate \<Rightarrow> bool"
  assumes wake: "ok s \<Longrightarrow> a = 0 \<or> tcbs s a \<noteq> None \<Longrightarrow>
      returns (aixos_task_wake a r s) (\<lambda>s'. ok s' \<and> (\<forall>b. tcbs s' b = None \<longleftrightarrow> tcbs s b = None))"
    and block: "ok s \<Longrightarrow> in_isr s \<or> can_block s \<Longrightarrow> ty \<noteq> AIXOS_OBJ_MUTEX \<Longrightarrow>
      (\<And>h. wl = Some h \<Longrightarrow> is_wait_head h \<and> lists (k_ls s) h \<noteq> None) \<Longrightarrow>
      returns (aixos_task_block_current wl ob ty tmo s) (\<lambda>(r, s'). ok s')"
    and waiter: "ok s \<Longrightarrow> is_wait_head h \<Longrightarrow> lists (k_ls s) h \<noteq> None \<Longrightarrow> \<not> head_empty h s \<Longrightarrow>
      \<exists>a. first_task h s = Some a \<and> tcbs s a \<noteq> None"
    and waiters: "ok s \<Longrightarrow> is_wait_head h \<Longrightarrow> members h s = Some xs \<Longrightarrow> n \<in> set xs \<Longrightarrow>
      \<exists>a. node_task n = Some a \<and> tcbs s a \<noteq> None"
    and current: "ok s \<Longrightarrow> cur_task s \<noteq> 0 \<Longrightarrow> tcbs s (cur_task s) \<noteq> None"
    and task: "ok s \<Longrightarrow> aixos_tcb_from_handle g s \<noteq> 0 \<Longrightarrow> tcbs s (aixos_tcb_from_handle g s) \<noteq> None"
    and note_task: "ok s \<Longrightarrow> tcbs s a = Some t \<Longrightarrow> same_core t t' \<Longrightarrow> ok (s\<lparr>tcbs := (tcbs s)(a \<mapsto> t')\<rparr>)"
    and memory: "ok s \<Longrightarrow> ok (s\<lparr>k_heap := hp\<rparr>)"
    and put_sem: "ok s \<Longrightarrow> sem_handle x = sem_handle (sem_pool s ! i) \<Longrightarrow> ok (set_sem i x s)"
    and put_event: "ok s \<Longrightarrow> ev_handle e = ev_handle (event_pool s ! i) \<Longrightarrow> ok (set_event i e s)"
    and put_mq: "ok s \<Longrightarrow> mq_handle q = mq_handle (mq_pool s ! i) \<Longrightarrow> ok (set_mq i q s)"
    and put_pipe: "ok s \<Longrightarrow> pp_handle p = pp_handle (pipe_pool s ! i) \<Longrightarrow> ok (set_pipe i p s)"
    and sem: "ok s \<Longrightarrow> sem_from_handle g s = Some i \<Longrightarrow> lists (k_ls s) (SemWait i) \<noteq> None"
    and event: "ok s \<Longrightarrow> event_from_handle g s = Some i \<Longrightarrow> lists (k_ls s) (EventWait i) \<noteq> None"
    and mq: "ok s \<Longrightarrow> mq_from_handle g s = Some i \<Longrightarrow>
      lists (k_ls s) (MqSend i) \<noteq> None \<and> lists (k_ls s) (MqRecv i) \<noteq> None"
    and pipe: "ok s \<Longrightarrow> pipe_from_handle g s = Some i \<Longrightarrow>
      lists (k_ls s) (PipeRead i) \<noteq> None \<and> lists (k_ls s) (PipeWrite i) \<noteq> None"
begin

text \<open>A call keeps the invariant: it returns, in a state that satisfies it.\<close>

definition keeps :: "('r \<times> kstate) option \<Rightarrow> bool" where
  "keeps m \<longleftrightarrow> returns m (\<lambda>(r, s'). ok s')"

lemma keeps_simps [simp]: "keeps (Some (r, s)) \<longleftrightarrow> ok s" "\<not> keeps None"
  by (simp_all add: keeps_def)

lemma keeps_bind: "keeps m \<Longrightarrow> (\<And>r s. ok s \<Longrightarrow> keeps (f (r, s))) \<Longrightarrow> keeps (Option.bind m f)"
  by (auto simp: keeps_def returns_iff)

lemma keeps_bind_state: "returns m ok \<Longrightarrow> (\<And>s. ok s \<Longrightarrow> keeps (f s)) \<Longrightarrow> keeps (Option.bind m f)"
  by (auto simp: keeps_def returns_iff)

lemma keeps_map: "keeps m \<Longrightarrow> keeps (map_option (\<lambda>(r, s). (f r, s)) m)"
  by (cases m) auto

lemma wake_first:
  assumes "ok s" "is_wait_head h" "lists (k_ls s) h \<noteq> None" "\<not> head_empty h s"
  shows "\<exists>a. first_task h s = Some a \<and> returns (aixos_task_wake a r s) ok"
  using waiter[OF assms] wake[OF assms(1)] by (metis (no_types, lifting) returns_mono)

lemma block_on:
  assumes "ok s" "in_isr s \<or> can_block s" "ty \<noteq> AIXOS_OBJ_MUTEX" "is_wait_head h" "lists (k_ls s) h \<noteq> None"
  shows "keeps (aixos_task_block_current (Some h) ob ty tmo s)"
  unfolding keeps_def by (rule block) (use assms in auto)

lemma note_current:
  assumes "ok s" "cur_task s \<noteq> 0" "\<And>t. same_core t (f t)"
  shows "\<exists>t. tcbs s (cur_task s) = Some t \<and> upd_tcb (cur_task s) f s = Some (s\<lparr>tcbs := (tcbs s)(cur_task s \<mapsto> f t)\<rparr>) \<and>
    ok (s\<lparr>tcbs := (tcbs s)(cur_task s \<mapsto> f t)\<rparr>)"
proof -
  obtain t where t: "tcbs s (cur_task s) = Some t" using current[OF assms(1,2)] by auto
  show ?thesis using note_task[OF assms(1) t assms(3)] t by (simp add: upd_tcb_eq)
qed

lemma can_block_note:
  assumes "can_block s" "tcbs s a = Some t" "t_state t' = t_state t"
  shows "can_block (s\<lparr>tcbs := (tcbs s)(a \<mapsto> t')\<rparr>)"
  using assms by (auto simp: can_block_def)

section \<open>Semaphores\<close>

lemma sem_wait_keeps:
  assumes "ok s" "in_isr s \<or> can_block s"
  shows "keeps (aixos_sem_wait g tmo s)"
  using assms block_on[OF assms, of AIXOS_OBJ_SEM] sem[OF assms(1)] put_sem[OF assms(1)]
  by (auto simp: aixos_sem_wait_def Let_def split: option.splits)

lemma sem_post_common_keeps: "ok s \<Longrightarrow> keeps (sem_post_common g s)"
proof -
  assume ok: "ok s"
  show ?thesis
  proof (cases "sem_from_handle g s")
    case (Some i)
    have L: "lists (k_ls s) (SemWait i) \<noteq> None" by (rule sem[OF ok Some])
    show ?thesis
    proof (cases "head_empty (SemWait i) s")
      case True
      then show ?thesis using Some ok put_sem[OF ok] by (simp add: sem_post_common_def Let_def)
    next
      case False
      obtain a where "first_task (SemWait i) s = Some a" "returns (aixos_task_wake a AIXOS_OK s) ok"
        using wake_first[OF ok _ L False] by auto
      then show ?thesis using Some False by (auto simp: sem_post_common_def Let_def returns_iff)
    qed
  qed (use ok in \<open>simp add: sem_post_common_def\<close>)
qed

lemma sem_post_keeps: "ok s \<Longrightarrow> keeps (aixos_sem_post g s)" "ok s \<Longrightarrow> keeps (aixos_sem_post_from_isr g s)"
  using sem_post_common_keeps by (simp_all add: aixos_sem_post_def aixos_sem_post_from_isr_def)

section \<open>Event groups\<close>

lemma event_wait_turn_keeps:
  assumes ok: "ok s" and cb: "in_isr s \<or> can_block s" and cur: "cur_task s \<noteq> 0"
  shows "keeps (event_wait_turn g msk mode remaining res s)"
proof (cases "event_from_handle g s")
  case (Some i)
  let ?e = "event_pool s ! i"
  show ?thesis
  proof (cases "event_match ?e msk mode = 0 \<and> remaining \<noteq> 0")
    case True
    let ?f = "\<lambda>t. t\<lparr>t_pend_mask := msk, t_pend_mode := mode, t_pend_result := 0\<rparr>"
    obtain t where t: "tcbs s (cur_task s) = Some t"
      "upd_tcb (cur_task s) ?f s = Some (s\<lparr>tcbs := (tcbs s)(cur_task s \<mapsto> ?f t)\<rparr>)"
      "ok (s\<lparr>tcbs := (tcbs s)(cur_task s \<mapsto> ?f t)\<rparr>)"
      using note_current[OF ok cur, of ?f] by (auto simp: same_core_def)
    let ?s = "s\<lparr>tcbs := (tcbs s)(cur_task s \<mapsto> ?f t)\<rparr>"
    have "in_isr ?s \<or> can_block ?s" using cb can_block_note[OF _ t(1)] by (auto simp: in_isr_def)
    moreover have "lists (k_ls ?s) (EventWait i) \<noteq> None" using event[OF ok Some] by simp
    ultimately have "keeps (aixos_task_block_current (Some (EventWait i)) (KEvent i) AIXOS_OBJ_EVENT remaining ?s)"
      by (intro block_on[OF t(3)]) auto
    then show ?thesis
      using Some True t(2) by (auto simp: event_wait_turn_def Let_def keeps_def returns_iff)
  next
    case False
    then show ?thesis using Some ok put_event[OF ok] by (auto simp: event_wait_turn_def Let_def)
  qed
qed (use ok in \<open>simp add: event_wait_turn_def\<close>)

lemma event_set_loop_keeps:
  assumes "ok s" "\<And>n. n \<in> set xs \<Longrightarrow> \<exists>a. node_task n = Some a \<and> tcbs s a \<noteq> None"
  shows "returns (event_set_loop i xs s) ok"
  using assms
proof (induction xs arbitrary: s)
  case (Cons n xs)
  obtain a t where a: "node_task n = Some a" "tcbs s a = Some t" using Cons.prems(2)[of n] by auto
  let ?e = "event_pool s ! i"
  let ?m = "event_match ?e (t_pend_mask t) (t_pend_mode t)"
  show ?case
  proof (cases "?m = 0")
    case True
    then show ?thesis using Cons a by (simp add: Let_def)
  next
    case False
    let ?s1 = "if t_pend_mode t AND AIXOS_EVENT_CLEAR \<noteq> 0 then set_event i (?e\<lparr>ev_flags := ev_flags ?e AND NOT ?m\<rparr>) s else s"
    have o1: "ok ?s1" using Cons.prems(1) put_event[OF Cons.prems(1)] by simp
    have t1: "tcbs ?s1 = tcbs s" by (simp add: set_event_def)
    let ?t = "t\<lparr>t_pend_result := ?m\<rparr>"
    let ?s2 = "?s1\<lparr>tcbs := (tcbs ?s1)(a \<mapsto> ?t)\<rparr>"
    have o2: "ok ?s2" by (rule note_task[OF o1]) (use a t1 in \<open>simp_all add: same_core_def\<close>)
    obtain s3 where s3: "aixos_task_wake a AIXOS_OK ?s2 = Some s3" "ok s3" "\<forall>b. tcbs s3 b = None \<longleftrightarrow> tcbs ?s2 b = None"
      using wake[OF o2, of a] by (auto simp: returns_iff)
    have "returns (event_set_loop i xs s3) ok"
    proof (rule Cons.IH[OF s3(2)])
      fix m assume "m \<in> set xs"
      then obtain b where "node_task m = Some b" "tcbs s b \<noteq> None" using Cons.prems(2)[of m] by auto
      then show "\<exists>a. node_task m = Some a \<and> tcbs s3 a \<noteq> None" using s3(3) t1 by auto
    qed
    then show ?thesis
      using a False s3(1) upd_tcb_eq[of ?s1 a t] t1 by (simp add: Let_def)
  qed
qed simp

lemma event_set_common_keeps: "ok s \<Longrightarrow> keeps (event_set_common g fl s)"
proof -
  assume ok: "ok s"
  show ?thesis
  proof (cases "event_from_handle g s")
    case (Some i)
    let ?e = "event_pool s ! i"
    let ?s = "set_event i (?e\<lparr>ev_flags := ev_flags ?e OR fl\<rparr>) s"
    have o: "ok ?s" by (rule put_event[OF ok]) simp
    obtain xs where xs: "members (EventWait i) ?s = Some xs"
      using event[OF ok Some] by (auto simp: members_def set_event_def)
    have "returns (event_set_loop i xs ?s) ok"
      by (rule event_set_loop_keeps[OF o]) (rule waiters[OF o _ xs], simp_all)
    then show ?thesis using Some xs by (auto simp: event_set_common_def Let_def keeps_def)
  qed (use ok in \<open>simp add: event_set_common_def\<close>)
qed

lemma event_calls_keep:
  "ok s \<Longrightarrow> in_isr s \<or> can_block s \<Longrightarrow> cur_task s \<noteq> 0 \<Longrightarrow> keeps (aixos_event_wait g msk mode tmo s)"
  "ok s \<Longrightarrow> in_isr s \<or> can_block s \<Longrightarrow> cur_task s \<noteq> 0 \<Longrightarrow> keeps (event_wait_resume g msk mode st tmo s)"
  "ok s \<Longrightarrow> keeps (aixos_event_set g fl s)" "ok s \<Longrightarrow> keeps (aixos_event_clear g fl s)"
  using event_wait_turn_keeps event_set_common_keeps put_event current[of s]
  by (auto simp: aixos_event_wait_def event_wait_resume_def block_result_def aixos_event_set_def aixos_event_clear_def
      Let_def split: option.splits)

section \<open>Task notifications\<close>

lemma notify_common_keeps: "ok s \<Longrightarrow> keeps (notify_common g v action s)"
proof -
  assume ok: "ok s"
  let ?a = "aixos_tcb_from_handle g s"
  show ?thesis
  proof (cases "?a = 0")
    case False
    obtain t where t: "tcbs s ?a = Some t" using task[OF ok False] by auto
    show ?thesis
    proof (cases "notify_value_after action v t")
      case (Inr w)
      let ?t = "t\<lparr>t_notify_value := w, t_notify_pending := True\<rparr>"
      have o: "ok (s\<lparr>tcbs := (tcbs s)(?a \<mapsto> ?t)\<rparr>)" by (rule note_task[OF ok t]) (simp add: same_core_def)
      have "returns (aixos_task_wake ?a AIXOS_OK (s\<lparr>tcbs := (tcbs s)(?a \<mapsto> ?t)\<rparr>)) ok"
        by (rule returns_mono[OF wake[OF o]]) auto
      then show ?thesis using False t Inr o by (auto simp: notify_common_def Let_def upd_tcb_eq keeps_def)
    qed (use False t ok in \<open>simp add: notify_common_def Let_def\<close>)
  qed (use ok in \<open>simp add: notify_common_def\<close>)
qed

lemma notify_consume_keeps: "ok s \<Longrightarrow> cur_task s \<noteq> 0 \<Longrightarrow> keeps (notify_consume cl s)"
  using note_current[of s "\<lambda>t. t\<lparr>t_notify_value := t_notify_value t AND NOT cl, t_notify_pending := False\<rparr>"]
  by (auto simp: notify_consume_def same_core_def)

lemma notify_wait_keeps:
  assumes ok: "ok s" and cb: "in_isr s \<or> can_block s"
  shows "keeps (aixos_task_notify_wait ce cx tmo s)"
proof (cases "in_isr s \<or> cur_task s = 0")
  case False
  let ?f = "\<lambda>t. t\<lparr>t_notify_value := t_notify_value t AND NOT ce\<rparr>"
  obtain t where t: "tcbs s (cur_task s) = Some t"
    "upd_tcb (cur_task s) ?f s = Some (s\<lparr>tcbs := (tcbs s)(cur_task s \<mapsto> ?f t)\<rparr>)"
    "ok (s\<lparr>tcbs := (tcbs s)(cur_task s \<mapsto> ?f t)\<rparr>)"
    using note_current[OF ok, of ?f] False by (auto simp: same_core_def)
  let ?s = "s\<lparr>tcbs := (tcbs s)(cur_task s \<mapsto> ?f t)\<rparr>"
  have "in_isr ?s \<or> can_block ?s" using cb can_block_note[OF _ t(1)] by (auto simp: in_isr_def)
  then have b: "keeps (aixos_task_block_current None (KTask (cur_task s)) AIXOS_OBJ_TASK tmo ?s)"
    unfolding keeps_def by (intro block[OF t(3)]) auto
  have c: "keeps (notify_consume cx ?s)" using notify_consume_keeps[OF t(3)] False by simp
  show ?thesis
    using False t(2,3) b c by (auto simp: aixos_task_notify_wait_def keeps_def returns_iff)
qed (use ok in \<open>simp add: aixos_task_notify_wait_def\<close>)

lemma notify_wait_resume_keeps: "ok s \<Longrightarrow> cur_task s \<noteq> 0 \<Longrightarrow> keeps (notify_wait_resume cx s)"
  using current[of s] notify_consume_keeps by (auto simp: notify_wait_resume_def block_result_def)

lemma notify_take_finish_keeps:
  assumes "ok s" "cur_task s \<noteq> 0"
  shows "keeps (notify_take_finish cl (r, s))"
proof (cases r)
  case (Done rv)
  let ?f = "\<lambda>t. if cl then t\<lparr>t_notify_value := 0\<rparr>
                   else if t_notify_value t \<noteq> 0
                   then (let t = t\<lparr>t_notify_value := t_notify_value t - 1\<rparr>
                         in if t_notify_value t \<noteq> 0 then t\<lparr>t_notify_pending := True\<rparr> else t)
                   else t"
  have "same_core t (?f t)" for t by (simp add: same_core_def Let_def)
  from note_current[OF assms this] show ?thesis
    using assms(1) Done by (cases rv) (auto simp: notify_take_finish_def)
qed (use assms in \<open>simp add: notify_take_finish_def\<close>)

lemma notify_take_keeps:
  assumes ok: "ok s" and cb: "in_isr s \<or> can_block s"
  shows "keeps (aixos_task_notify_take cl tmo s)"
proof -
  obtain r s' where r: "aixos_task_notify_wait 0 0 tmo s = Some (r, s')" "ok s'"
    using notify_wait_keeps[OF ok cb, of 0 0 tmo] by (auto simp: keeps_def returns_iff)
  have "keeps (notify_take_finish cl (r, s'))"
  proof (cases r)
    case (Done rv)
    obtain e v where rv: "rv = (e, v)" by (cases rv)
    have d: "cur_task s' = cur_task s \<and> (e = AIXOS_OK \<longrightarrow> cur_task s \<noteq> 0)"
      using notify_wait_done r(1) unfolding Done rv by blast
    show ?thesis
    proof (cases "e = AIXOS_OK")
      case True
      then show ?thesis using notify_take_finish_keeps[OF r(2)] d by simp
    next
      case False
      then show ?thesis using r(2) by (simp add: Done rv notify_take_finish_def)
    qed
  qed (use r(2) in \<open>simp add: notify_take_finish_def\<close>)
  then show ?thesis using r(1) by (simp add: aixos_task_notify_take_def)
qed

lemma notify_take_resume_keeps:
  assumes "ok s" "cur_task s \<noteq> 0"
  shows "keeps (notify_take_resume cl s)"
proof -
  obtain r s' where r: "notify_wait_resume 0 s = Some (r, s')" "ok s'"
    using notify_wait_resume_keeps[OF assms, of 0] by (auto simp: keeps_def returns_iff)
  have "keeps (notify_take_finish cl (r, s'))"
  proof (cases r)
    case (Done rv)
    then have "cur_task s' \<noteq> 0" using notify_wait_resume_done[of 0 s] r(1) assms(2) by (cases rv) auto
    then show ?thesis by (rule notify_take_finish_keeps[OF r(2)])
  qed (use r(2) in \<open>simp add: notify_take_finish_def\<close>)
  then show ?thesis using r(1) by (simp add: notify_take_resume_def)
qed

lemma notify_calls_keep:
  "ok s \<Longrightarrow> keeps (aixos_task_notify g v action s)" "ok s \<Longrightarrow> keeps (aixos_task_notify_from_isr g v action s)"
  using notify_common_keeps by (simp_all add: aixos_task_notify_def aixos_task_notify_from_isr_def)

section \<open>Message queues\<close>

lemma memory_writes: "ok s \<Longrightarrow> ok (k_write a bs s)" "ok s \<Longrightarrow> ok (k_write_u32 a w s)"
  using memory by (simp_all add: k_write_def k_write_u32_def)

lemma write_pools [simp]:
  "mq_pool (k_write a bs s) = mq_pool s" "mq_pool (k_write_u32 a w s) = mq_pool s"
  "pipe_pool (k_write a bs s) = pipe_pool s" "k_ls (k_write a bs s) = k_ls s" "k_ls (k_write_u32 a w s) = k_ls s"
  by (simp_all add: k_write_def k_write_u32_def)

lemma mq_shift_keeps: "ok s \<Longrightarrow> ok (mq_shift_cell q l s)" "mq_pool (mq_shift_cell q l s) = mq_pool s"
  "k_ls (mq_shift_cell q l s) = k_ls s"
  using memory_writes by (simp_all add: mq_shift_cell_def Let_def)

lemma mq_shifts_keep: "ok s \<Longrightarrow> ok (fold (mq_shift_cell q) ls s) \<and> mq_pool (fold (mq_shift_cell q) ls s) = mq_pool s \<and>
    k_ls (fold (mq_shift_cell q) ls s) = k_ls s"
  by (induction ls arbitrary: s) (simp_all add: mq_shift_keeps)

lemma mq_wake_first_returns:
  assumes "ok s" "is_wait_head h" "lists (k_ls s) h \<noteq> None"
  shows "returns (mq_wake_first h s) ok"
proof (cases "head_empty h s")
  case False
  then show ?thesis using wake_first[OF assms False, of AIXOS_OK] by (auto simp: mq_wake_first_def returns_iff)
qed (use assms in \<open>simp add: mq_wake_first_def\<close>)

lemma mq_store_keeps:
  assumes ok: "ok s" and L: "lists (k_ls s) (MqRecv i) \<noteq> None"
  shows "keeps (mq_store i message priority isr s)"
proof -
  let ?q = "mq_pool s ! i"
  let ?count = "unat (mq_count ?q)"
  define ins where "ins = (if mq_priorities ?q \<noteq> 0 \<and> priority \<noteq> 0 then mq_find_insert ?q priority [0..<?count] ?count s else ?count)"
  define s1 where "s1 = fold (mq_shift_cell ?q) (rev [ins + 1..<?count + 1]) s"
  define tl where "tl = mq_index ?q ins"
  define s2 where "s2 = k_write_u32 (mq_lengths ?q + 4 * tl) (of_nat (length message)) (k_write (mq_cell ?q tl) message s1)"
  define s3 where "s3 = (if mq_priorities ?q \<noteq> 0 then k_write_u32 (mq_priorities ?q + 4 * tl) priority s2 else s2)"
  define s4 where "s4 = set_mq i (?q\<lparr>mq_tail := (tl + 1) mod mq_max_msgs ?q, mq_count := mq_count ?q + 1\<rparr>) s3"
  have 1: "ok s1" "mq_pool s1 = mq_pool s" "k_ls s1 = k_ls s"
    using mq_shifts_keep[OF ok, of ?q "rev [ins + 1..<?count + 1]"] by (simp_all add: s1_def)
  have 3: "ok s3" "mq_pool s3 = mq_pool s" "k_ls s3 = k_ls s"
    using memory_writes 1 by (simp_all add: s3_def s2_def)
  have 4: "ok s4" unfolding s4_def by (rule put_mq[OF 3(1)]) (simp add: 3(2))
  have "lists (k_ls s4) (MqRecv i) \<noteq> None" using L 3(3) by (simp add: s4_def set_mq_def)
  then have w: "returns (mq_wake_first (MqRecv i) s4) ok" by (intro mq_wake_first_returns[OF 4]) auto
  have "mq_store i message priority isr s =
    (if mq_priorities ?q = 0 \<and> priority \<noteq> 0 then Some (AIXOS_ERR_INVAL, s)
      else if isr \<and> priority \<noteq> 0 \<and> mq_count ?q > AIXOS_CFG_ISR_MQ_SHIFT_MAX then Some (AIXOS_ERR_BUSY, s)
      else do { s \<leftarrow> mq_wake_first (MqRecv i) s4; Some (AIXOS_OK, s) })"
    unfolding mq_store_def Let_def ins_def[symmetric] s1_def[symmetric] tl_def[symmetric] s2_def[symmetric]
      s3_def[symmetric] s4_def[symmetric] by (rule refl)
  then show ?thesis using ok w by (simp add: keeps_def)
qed

lemma mq_send_turn_keeps:
  assumes ok: "ok s" and cb: "isr \<or> can_block s" and q: "mq_from_handle g s = Some i"
  shows "keeps (mq_send_turn i message priority remaining isr s)"
  using ok cb mq[OF ok q] block_on[OF ok, of AIXOS_OBJ_MQ "MqSend i" "KMq i" remaining]
    keeps_map[OF mq_store_keeps[OF ok, of i message priority isr], of Done]
  by (auto simp: mq_send_turn_def Let_def)

lemma mq_send_common_keeps:
  assumes ok: "ok s" and cb: "in_isr s \<or> can_block s"
  shows "keeps (mq_send_common g message priority tmo isr s)"
  using ok cb mq_send_turn_keeps[OF ok] by (auto simp: mq_send_common_def Let_def split: option.splits)

lemma mq_take_keeps:
  assumes ok: "ok s" and L: "lists (k_ls s) (MqSend i) \<noteq> None"
  shows "keeps (mq_take i capacity s)"
proof -
  let ?q = "mq_pool s ! i"
  let ?s = "set_mq i (?q\<lparr>mq_head := (mq_head ?q + 1) mod mq_max_msgs ?q, mq_count := mq_count ?q - 1\<rparr>) s"
  have o: "ok ?s" by (rule put_mq[OF ok]) simp
  have "returns (mq_wake_first (MqSend i) ?s) ok"
    by (rule mq_wake_first_returns[OF o]) (use L in \<open>simp_all add: set_mq_def\<close>)
  then show ?thesis using ok by (auto simp: mq_take_def Let_def keeps_def)
qed

lemma mq_recv_turn_keeps:
  assumes ok: "ok s" and cb: "in_isr s \<or> can_block s" and q: "mq_from_handle g s = Some i"
  shows "keeps (mq_recv_turn i capacity remaining s)"
proof -
  have "keeps (aixos_task_block_current (Some (MqRecv i)) (KMq i) AIXOS_OBJ_MQ remaining s)"
    by (rule block_on[OF ok cb]) (use mq[OF ok q] in auto)
  then show ?thesis
    using ok mq[OF ok q] keeps_map[OF mq_take_keeps[OF ok, of i capacity], of Done]
    by (auto simp: mq_recv_turn_def Let_def keeps_def returns_iff)
qed

lemma mq_calls_keep:
  assumes "ok s" "in_isr s \<or> can_block s"
  shows "keeps (aixos_mq_send g m tmo s)" "keeps (aixos_mq_send_priority g m pr tmo s)"
    "keeps (aixos_mq_send_from_isr g m s)" "keeps (aixos_mq_recv_priority g cap tmo s)" "keeps (aixos_mq_recv g cap tmo s)"
  using assms mq_send_common_keeps mq_recv_turn_keeps
  by (auto simp: aixos_mq_send_def aixos_mq_send_priority_def aixos_mq_send_from_isr_def aixos_mq_recv_priority_def
      aixos_mq_recv_def split: option.splits)

lemma mq_resumes_keep:
  assumes "ok s" "can_block s" "cur_task s \<noteq> 0"
  shows "keeps (mq_send_resume g m' pr st tmo s)" "keeps (mq_recv_resume g cap st tmo s)"
  using assms mq_send_turn_keeps mq_recv_turn_keeps current[OF assms(1,3)]
  by (auto simp: mq_send_resume_def mq_recv_resume_def block_result_def split: option.splits)

section \<open>Pipes\<close>

lemma pipe_wake_first_returns:
  assumes "ok s" "is_wait_head h" "lists (k_ls s) h \<noteq> None" "\<not> head_empty h s"
  shows "returns (pipe_wake_first h s) ok"
  using wake_first[OF assms, of AIXOS_OK] by (auto simp: pipe_wake_first_def returns_iff)

lemma pipe_store_keeps:
  assumes ok: "ok s" and L: "lists (k_ls s) (PipeRead i) \<noteq> None"
  shows "keeps (pipe_store i data s)"
proof -
  let ?p = "pipe_pool s ! i"
  define len where "len = (let w = pp_size ?p - pp_count ?p in if of_nat (length data) > w then w else of_nat (length data))"
  define fs where "fs = (let f = pp_size ?p - pp_tail ?p in if f > len then len else f)"
  define s1 where "s1 = k_write (pp_buffer ?p) (take (unat (len - fs)) (drop (unat fs) data))
    (k_write (pp_buffer ?p + pp_tail ?p) (take (unat fs) data) s)"
  define s2 where "s2 = set_pipe i (?p\<lparr>pp_tail := (pp_tail ?p + len) mod pp_size ?p, pp_count := pp_count ?p + len\<rparr>) s1"
  have 1: "ok s1" using memory_writes ok by (simp add: s1_def)
  have 2: "ok s2" unfolding s2_def by (rule put_pipe[OF 1]) (simp add: s1_def)
  have L2: "lists (k_ls s2) (PipeRead i) \<noteq> None" using L by (simp add: s2_def s1_def set_pipe_def)
  have e: "pipe_store i data s = do {
      s \<leftarrow> (if len \<noteq> 0 \<and> \<not> head_empty (PipeRead i) s2 then pipe_wake_first (PipeRead i) s2 else Some s2);
      Some (uint len, s) }"
    unfolding pipe_store_def s2_def s1_def fs_def len_def Let_def by (rule refl)
  show ?thesis
    unfolding e using 2 pipe_wake_first_returns[OF 2 _ L2] by (auto simp: keeps_def)
qed

lemma pipe_write_turn_keeps:
  assumes ok: "ok s" and cb: "isr \<or> can_block s" and p: "pipe_from_handle g s = Some i"
  shows "keeps (pipe_write_turn i data remaining isr s)"
  using ok cb pipe[OF ok p] block_on[OF ok, of AIXOS_OBJ_PIPE "PipeWrite i" "KPipe i" remaining]
    keeps_map[OF pipe_store_keeps[OF ok, of i data], of Done]
  by (auto simp: pipe_write_turn_def Let_def)

lemma pipe_fetch_keeps:
  assumes ok: "ok s" and L: "lists (k_ls s) (PipeWrite i) \<noteq> None"
  shows "keeps (pipe_fetch i requested s)"
proof -
  let ?p = "pipe_pool s ! i"
  define len where "len = (if requested > pp_count ?p then pp_count ?p else requested)"
  define s1 where "s1 = set_pipe i (?p\<lparr>pp_head := (pp_head ?p + len) mod pp_size ?p, pp_count := pp_count ?p - len\<rparr>) s"
  have 1: "ok s1" unfolding s1_def by (rule put_pipe[OF ok]) simp
  have L1: "lists (k_ls s1) (PipeWrite i) \<noteq> None" using L by (simp add: s1_def set_pipe_def)
  have e: "\<exists>bs. pipe_fetch i requested s = do {
      s \<leftarrow> (if len \<noteq> 0 \<and> \<not> head_empty (PipeWrite i) s1 then pipe_wake_first (PipeWrite i) s1 else Some s1);
      Some ((uint len, bs), s) }"
    unfolding pipe_fetch_def s1_def len_def Let_def by (rule exI) (rule refl)
  then show ?thesis
    using 1 pipe_wake_first_returns[OF 1 _ L1] by (auto simp: keeps_def)
qed

lemma pipe_read_turn_keeps:
  assumes ok: "ok s" and cb: "isr \<or> can_block s" and p: "pipe_from_handle g s = Some i"
  shows "keeps (pipe_read_turn i requested remaining isr s)"
proof -
  have "keeps (aixos_task_block_current (Some (PipeRead i)) (KPipe i) AIXOS_OBJ_PIPE remaining s)" if "\<not> isr"
    by (rule block_on[OF ok]) (use pipe[OF ok p] cb that in auto)
  then show ?thesis
    using ok pipe[OF ok p] keeps_map[OF pipe_fetch_keeps[OF ok, of i requested], of Done]
    by (auto simp: pipe_read_turn_def Let_def keeps_def returns_iff)
qed

lemma pipe_args_isr: "pipe_args_error null n isr s = None \<Longrightarrow> in_isr s = isr"
  by (auto simp: pipe_args_error_def split: if_splits)

lemma pipe_common_keeps:
  assumes ok: "ok s" and cb: "in_isr s \<or> can_block s"
  shows "keeps (pipe_write_common g data tmo isr s)" "keeps (pipe_read_common g null requested tmo isr s)"
proof -
  have w: "keeps (pipe_write_turn i bs tmo isr s)" "keeps (pipe_read_turn i requested tmo isr s)"
    if "pipe_from_handle g s = Some i" "in_isr s = isr" for i bs
    using that cb by (auto intro!: pipe_write_turn_keeps[OF ok] pipe_read_turn_keeps[OF ok])
  show "keeps (pipe_write_common g data tmo isr s)"
    unfolding pipe_write_common_def Let_def
    by (split option.split, intro conjI impI allI)
      (use ok w pipe_args_isr in \<open>fastforce split: option.split\<close>)+
  show "keeps (pipe_read_common g null requested tmo isr s)"
    unfolding pipe_read_common_def
    by (split option.split, intro conjI impI allI)
      (use ok w pipe_args_isr in \<open>fastforce split: option.split\<close>)+
qed

lemma pipe_calls_keep:
  assumes "ok s" "in_isr s \<or> can_block s"
  shows "keeps (aixos_pipe_write g data tmo s)" "keeps (aixos_pipe_read g null requested tmo s)"
    "keeps (aixos_pipe_write_from_isr g data s)"
  using assms pipe_common_keeps
  by (auto simp: aixos_pipe_write_def aixos_pipe_read_def aixos_pipe_write_from_isr_def)

lemma pipe_resumes_keep:
  assumes "ok s" "can_block s" "cur_task s \<noteq> 0"
  shows "keeps (pipe_write_resume g bs st tmo s)" "keeps (pipe_read_resume g requested st tmo s)"
  using assms pipe_write_turn_keeps pipe_read_turn_keeps current[OF assms(1,3)]
  by (auto simp: pipe_write_resume_def pipe_read_resume_def block_result_def split: option.splits)

end

end
