(* ===== verification/Kservices.thy ===== *)
theory Kservices
  imports Kclient
begin

text \<open>
  The kernel keeps the contract of \<open>Kclient\<close>: the interpretation of \<open>kernel_services\<close> on the invariant
  \<open>kernel_ok\<close>, and with it the invariance and totality of the calls on semaphores, event groups,
  notifications, message queues and pipes.
\<close>

section \<open>The object tables\<close>

lemma table_ok_lists: "table_ok lk ptr hnd n heads L \<Longrightarrow> lk h = ptr i \<Longrightarrow> g \<in> set (heads i) \<Longrightarrow> L g \<noteq> None"
  using table_okD(3) by fastforce

lemma from_handle_lookup:
  "sem_from_handle g s = Some i \<longleftrightarrow> k_lookup g AIXOS_OBJ_SEM s = KSem i"
  "event_from_handle g s = Some i \<longleftrightarrow> k_lookup g AIXOS_OBJ_EVENT s = KEvent i"
  "mutex_from_handle g s = Some i \<longleftrightarrow> k_lookup g AIXOS_OBJ_MUTEX s = KMutex i"
  "mq_from_handle g s = Some i \<longleftrightarrow> k_lookup g AIXOS_OBJ_MQ s = KMq i"
  "pipe_from_handle g s = Some i \<longleftrightarrow> k_lookup g AIXOS_OBJ_PIPE s = KPipe i"
  "timer_from_handle g s = Some i \<longleftrightarrow> k_lookup g AIXOS_OBJ_TIMER s = KTimer i"
  by (simp_all add: sem_from_handle_def event_from_handle_def mutex_from_handle_def mq_from_handle_def
      pipe_from_handle_def timer_from_handle_def split: kptr.splits)

text \<open>Pool entries may change as long as they keep their handles.\<close>

lemma map_update_same: "f x = f (xs ! i) \<Longrightarrow> map f (xs[i := x]) = map f xs"
  by (cases "i < length xs") (simp_all add: map_update list_update_same_conv list_update_beyond)

lemma table_ok_pool:
  assumes "length xs = n \<and> table_ok lk ptr (\<lambda>i. f (xs ! i)) n heads L" "map f ys = map f xs"
  shows "length ys = n \<and> table_ok lk ptr (\<lambda>i. f (ys ! i)) n heads L"
proof -
  have l: "length ys = length xs" using arg_cong[OF assms(2), of length] by simp
  have "f (ys ! i) = f (xs ! i)" if "i < length xs" for i
    using that l nth_map[of i xs f] nth_map[of i ys f] assms(2) by simp
  then show ?thesis using assms(1) l by (auto intro: table_ok_mono)
qed

lemma kernel_ok_pools:
  assumes ok: "kernel_ok s" and eq: "s' = s\<lparr>sem_pool := sp, event_pool := ep, mq_pool := qp, pipe_pool := pp\<rparr>"
    and h: "map sem_handle sp = map sem_handle (sem_pool s)" "map ev_handle ep = map ev_handle (event_pool s)"
      "map mq_handle qp = map mq_handle (mq_pool s)" "map pp_handle pp = map pp_handle (pipe_pool s)"
  shows "kernel_ok s'"
proof -
  note o = kernel_okD(2)[OF ok]
  have lk: "k_lookup g ty s' = k_lookup g ty s" for g ty by (simp add: k_lookup_def eq)
  have mo: "mutex_owner i s' = mutex_owner i s" for i by (rule mutex_owner_cong) (simp_all add: eq)
  have same: "k_ls s' = k_ls s" "tcbs s' = tcbs s" "k_obj s' = k_obj s" "mutex_pool s' = mutex_pool s"
    "timer_pool s' = timer_pool s" "tw_low s' = tw_low s" "tw_high s' = tw_high s" "sem_pool s' = sp"
    "event_pool s' = ep" "mq_pool s' = qp" "pipe_pool s' = pp" by (simp_all add: eq)
  have "tasks_ok s'" using objects_okD(1)[OF o] unfolding tasks_ok_def lk same .
  moreover have "sem_table s'" unfolding lk same by (rule table_ok_pool[OF objects_okD(2)[OF o] h(1)])
  moreover have "event_table s'" unfolding lk same by (rule table_ok_pool[OF objects_okD(5)[OF o] h(2)])
  moreover have "mq_table s'" unfolding lk same by (rule table_ok_pool[OF objects_okD(4)[OF o] h(3)])
  moreover have "pipe_table s'" unfolding lk same by (rule table_ok_pool[OF objects_okD(6)[OF o] h(4)])
  moreover have "mutex_table s'" using objects_okD(3)[OF o] unfolding lk same .
  moreover have "timer_table s'" using objects_okD(7)[OF o] unfolding lk same .
  moreover have "mutexes_ok s'" using objects_okD(8)[OF o] unfolding mutexes_ok_def mo same .
  moreover have "timers_ok s'" using objects_okD(9)[OF o] unfolding timers_ok_def same .
  moreover have "kinvx {} s'" using kinvx_cong[of s' s "{}"] kernel_okD(1)[OF ok] by (simp add: eq)
  ultimately show ?thesis using o unfolding kernel_ok_def objects_ok_def same by blast
qed

lemma kernel_ok_put:
  assumes "kernel_ok s"
  shows "sem_handle x = sem_handle (sem_pool s ! i) \<Longrightarrow> kernel_ok (set_sem i x s)"
    "ev_handle e = ev_handle (event_pool s ! i) \<Longrightarrow> kernel_ok (set_event i e s)"
    "mq_handle q = mq_handle (mq_pool s ! i) \<Longrightarrow> kernel_ok (set_mq i q s)"
    "pp_handle p = pp_handle (pipe_pool s ! i) \<Longrightarrow> kernel_ok (set_pipe i p s)"
  unfolding set_sem_def set_event_def set_mq_def set_pipe_def
  by (rule kernel_ok_pools[OF assms, where sp = "(sem_pool s)[i := x]" and ep = "event_pool s" and qp = "mq_pool s"
        and pp = "pipe_pool s"], simp_all add: map_update_same)
    (rule kernel_ok_pools[OF assms, where sp = "sem_pool s" and ep = "(event_pool s)[i := e]" and qp = "mq_pool s"
        and pp = "pipe_pool s"], simp_all add: map_update_same,
     rule kernel_ok_pools[OF assms, where sp = "sem_pool s" and ep = "event_pool s" and qp = "(mq_pool s)[i := q]"
        and pp = "pipe_pool s"], simp_all add: map_update_same,
     rule kernel_ok_pools[OF assms, where sp = "sem_pool s" and ep = "event_pool s" and qp = "mq_pool s"
        and pp = "(pipe_pool s)[i := p]"], simp_all add: map_update_same)

section \<open>The laws\<close>

lemma kernel_wake:
  assumes ok: "kernel_ok s" and a: "a = 0 \<or> tcbs s a \<noteq> None"
  shows "returns (aixos_task_wake a r s) (\<lambda>s'. kernel_ok s' \<and> (\<forall>b. tcbs s' b = None \<longleftrightarrow> tcbs s b = None))"
  by (rule returns_mono[OF wake_kinv[OF kernel_okD(1)[OF ok] kernel_okD(3)[OF ok] a]])
    (use kernel_okI_frame[OF ok] wake_frameD(1) sched_frameD(7) in blast)

lemma kernel_block:
  assumes ok: "kernel_ok s" and cb: "in_isr s \<or> can_block s" and ty: "ty \<noteq> AIXOS_OBJ_MUTEX"
    and wl: "\<And>h. wl = Some h \<Longrightarrow> is_wait_head h \<and> lists (k_ls s) h \<noteq> None"
  shows "returns (aixos_task_block_current wl ob ty tmo s) (\<lambda>(r, s'). kernel_ok s')"
proof (rule returns_mono[OF block_kinv[OF kernel_okD(1)[OF ok] kernel_okD(3)[OF ok] cb wl]])
  show "ty = AIXOS_OBJ_MUTEX \<Longrightarrow> ob \<noteq> KNull \<Longrightarrow> mutex_of ob \<noteq> None" using ty by simp
qed (use kernel_okI_frame[OF ok] in auto)

lemma kernel_waiters:
  assumes ok: "kernel_ok s" and h: "is_wait_head h" and xs: "members h s = Some xs" and n: "n \<in> set xs"
  shows "\<exists>a. node_task n = Some a \<and> tcbs s a \<noteq> None"
proof -
  note m = kinvx_members[OF kernel_okD(1)[OF ok] xs[unfolded members_def] n]
  obtain a where "n = WaitN a" using fits_wait[OF h m(2)] by blast
  then show ?thesis using m(3)[of a] by auto
qed

interpretation ipc: kernel_services kernel_ok
proof
  fix s :: kstate and h assume "kernel_ok s" "is_wait_head h" "lists (k_ls s) h \<noteq> None" "\<not> head_empty h s"
  then show "\<exists>a. first_task h s = Some a \<and> tcbs s a \<noteq> None"
    using first_waiter[OF kernel_okD(1), of s h] by auto
next
  fix s a t t' assume ok: "kernel_ok s" and t: "tcbs s a = Some t" and c: "same_core t t'"
  show "kernel_ok (s\<lparr>tcbs := (tcbs s)(a \<mapsto> t')\<rparr>)"
    by (rule kernel_okI_frame[OF ok sched_frame_tcb[OF t same_core_frame[OF c]] kinvx_tcb_core[OF kernel_okD(1)[OF ok] t c]])
next
  fix s hp assume "kernel_ok s" then show "kernel_ok (s\<lparr>k_heap := hp\<rparr>)" using kernel_ok_cong[of "s\<lparr>k_heap := hp\<rparr>" s] by simp
next
  fix s :: kstate assume "kernel_ok s" "cur_task s \<noteq> 0"
  then show "tcbs s (cur_task s) \<noteq> None" using kinvxD(6)[OF kernel_okD(1)] by fastforce
next
  fix s g assume "kernel_ok s" "aixos_tcb_from_handle g s \<noteq> 0"
  then show "tcbs s (aixos_tcb_from_handle g s) \<noteq> None"
    using tcb_from_handle_live[OF objects_okD(1)[OF kernel_okD(2)]] by fastforce
next
  fix s g i assume ok: "kernel_ok s"
  note o = objects_okD[OF kernel_okD(2)[OF ok]]
  show "sem_from_handle g s = Some i \<Longrightarrow> lists (k_ls s) (SemWait i) \<noteq> None"
    using table_ok_lists[OF conjunct2[OF o(2)]] by (simp add: from_handle_lookup)
  show "event_from_handle g s = Some i \<Longrightarrow> lists (k_ls s) (EventWait i) \<noteq> None"
    using table_ok_lists[OF conjunct2[OF o(5)]] by (simp add: from_handle_lookup)
  show "mq_from_handle g s = Some i \<Longrightarrow> lists (k_ls s) (MqSend i) \<noteq> None \<and> lists (k_ls s) (MqRecv i) \<noteq> None"
    using table_ok_lists[OF conjunct2[OF o(4)]] by (simp add: from_handle_lookup)
  show "pipe_from_handle g s = Some i \<Longrightarrow> lists (k_ls s) (PipeRead i) \<noteq> None \<and> lists (k_ls s) (PipeWrite i) \<noteq> None"
    using table_ok_lists[OF conjunct2[OF o(6)]] by (simp add: from_handle_lookup)
qed (fact kernel_wake kernel_block kernel_waiters kernel_ok_put)+

text \<open>The calls that the contract covers, on the kernel's own invariant.\<close>

lemmas ipc_calls = ipc.sem_wait_keeps ipc.sem_post_keeps ipc.event_calls_keep ipc.notify_calls_keep
  ipc.notify_wait_keeps ipc.notify_take_keeps ipc.mq_calls_keep ipc.pipe_calls_keep
lemmas ipc_resumes = ipc.notify_wait_resume_keeps ipc.notify_take_resume_keeps ipc.mq_resumes_keep ipc.pipe_resumes_keep

abbreviation (input) keeps_ok :: "('r \<times> kstate) option \<Rightarrow> bool" where
  "keeps_ok m \<equiv> returns m (\<lambda>(r, s'). kernel_ok s')"

end
