(* ===== verification/Kcreate.thy ===== *)
theory Kcreate
  imports Kservices
begin

text \<open>
  Creation and deletion of the pooled objects. A creation claims a slot of the object pool, fills the
  entry and initialises its queues; a deletion is refused while a task waits, and otherwise undoes
  it. Both keep the invariant of the kernel.
\<close>

section \<open>What creation and deletion touch\<close>

fun head_type :: "lhead \<Rightarrow> aixos_obj_type" where
  "head_type (SemWait _) = AIXOS_OBJ_SEM"
| "head_type (MutexWait _) = AIXOS_OBJ_MUTEX"
| "head_type (MqSend _) = AIXOS_OBJ_MQ"
| "head_type (MqRecv _) = AIXOS_OBJ_MQ"
| "head_type (EventWait _) = AIXOS_OBJ_EVENT"
| "head_type (PipeRead _) = AIXOS_OBJ_PIPE"
| "head_type (PipeWrite _) = AIXOS_OBJ_PIPE"
| "head_type _ = AIXOS_OBJ_UNUSED"

fun node_type :: "lnode \<Rightarrow> aixos_obj_type" where
  "node_type (OwnerN _) = AIXOS_OBJ_MUTEX"
| "node_type (ActiveN _) = AIXOS_OBJ_TIMER"
| "node_type (PendingN _) = AIXOS_OBJ_TIMER"
| "node_type _ = AIXOS_OBJ_UNUSED"

text \<open>Only the lookup, the pool, the queues and the nodes of type \<open>ty\<close> may have changed.\<close>

definition pool_step :: "aixos_obj_type \<Rightarrow> kstate \<Rightarrow> kstate \<Rightarrow> bool" where
  "pool_step ty s s' \<longleftrightarrow> obj_inv (k_obj s') \<and> (\<forall>g ty'. ty' \<noteq> ty \<longrightarrow> k_lookup g ty' s' = k_lookup g ty' s) \<and>
     tcbs s' = tcbs s \<and> tw_low s' = tw_low s \<and> tw_high s' = tw_high s \<and>
     (ty \<noteq> AIXOS_OBJ_SEM \<longrightarrow> sem_pool s' = sem_pool s) \<and> (ty \<noteq> AIXOS_OBJ_MUTEX \<longrightarrow> mutex_pool s' = mutex_pool s) \<and>
     (ty \<noteq> AIXOS_OBJ_MQ \<longrightarrow> mq_pool s' = mq_pool s) \<and> (ty \<noteq> AIXOS_OBJ_EVENT \<longrightarrow> event_pool s' = event_pool s) \<and>
     (ty \<noteq> AIXOS_OBJ_PIPE \<longrightarrow> pipe_pool s' = pipe_pool s) \<and> (ty \<noteq> AIXOS_OBJ_TIMER \<longrightarrow> timer_pool s' = timer_pool s) \<and>
     (\<forall>h. head_type h \<noteq> ty \<longrightarrow> (lists (k_ls s') h = None \<longleftrightarrow> lists (k_ls s) h = None)) \<and>
     (\<forall>n. node_type n \<in> {AIXOS_OBJ_MUTEX, AIXOS_OBJ_TIMER} - {ty} \<longrightarrow> nstat (k_ls s') n = nstat (k_ls s) n)"

lemma pool_step_tables:
  assumes ok: "objects_ok s" and st: "pool_step ty s s'" and ty: "ty \<noteq> AIXOS_OBJ_TASK"
  shows "tasks_ok s'" "ty \<noteq> AIXOS_OBJ_SEM \<Longrightarrow> sem_table s'" "ty \<noteq> AIXOS_OBJ_MUTEX \<Longrightarrow> mutex_table s'"
    "ty \<noteq> AIXOS_OBJ_MQ \<Longrightarrow> mq_table s'" "ty \<noteq> AIXOS_OBJ_EVENT \<Longrightarrow> event_table s'"
    "ty \<noteq> AIXOS_OBJ_PIPE \<Longrightarrow> pipe_table s'" "ty \<noteq> AIXOS_OBJ_TIMER \<Longrightarrow> timer_table s'"
    "ty \<noteq> AIXOS_OBJ_MUTEX \<Longrightarrow> mutexes_ok s'" "ty \<noteq> AIXOS_OBJ_TIMER \<Longrightarrow> timers_ok s'"
    "mutex_pool s' = mutex_pool s \<Longrightarrow> mutex_owner i s' = mutex_owner i s"
proof -
  note o = objects_okD[OF ok] and d = st[unfolded pool_step_def]
  have tk: "k_lookup g AIXOS_OBJ_TASK s' = k_lookup g AIXOS_OBJ_TASK s" for g using d ty by auto
  have T: "tcbs s' = tcbs s" "obj_inv (k_obj s')" using d by auto
  show "tasks_ok s'" using o(1) T(2) unfolding tasks_ok_def tk T(1) by blast
  show mo: "mutex_pool s' = mutex_pool s \<Longrightarrow> mutex_owner i s' = mutex_owner i s" for i
    by (simp add: mutex_owner_def aixos_tcb_from_handle_def tk)
  have keep: "table_ok (\<lambda>h. k_lookup h ty' s') ptr hnd m heads (lists (k_ls s'))"
    if "table_ok (\<lambda>h. k_lookup h ty' s) ptr hnd m heads (lists (k_ls s))" "ty' \<noteq> ty"
      "\<And>i. list_all (\<lambda>g. head_type g \<noteq> ty) (heads i)" for ty' ptr hnd m heads
    by (rule table_ok_mono[OF that(1)]) (use d that in \<open>auto simp: list_all_iff\<close>)
  show "ty \<noteq> AIXOS_OBJ_SEM \<Longrightarrow> sem_table s'" using o(2) d keep[OF conjunct2[OF o(2)]] by auto
  show "ty \<noteq> AIXOS_OBJ_MUTEX \<Longrightarrow> mutex_table s'" using o(3) d keep[OF conjunct2[OF o(3)]] by auto
  show "ty \<noteq> AIXOS_OBJ_MQ \<Longrightarrow> mq_table s'" using o(4) d keep[OF conjunct2[OF o(4)]] by auto
  show "ty \<noteq> AIXOS_OBJ_EVENT \<Longrightarrow> event_table s'" using o(5) d keep[OF conjunct2[OF o(5)]] by auto
  show "ty \<noteq> AIXOS_OBJ_PIPE \<Longrightarrow> pipe_table s'" using o(6) d keep[OF conjunct2[OF o(6)]] by auto
  show "ty \<noteq> AIXOS_OBJ_TIMER \<Longrightarrow> timer_table s'" using o(7) d keep[OF conjunct2[OF o(7)]] by auto
  have n: "nstat (k_ls s') n = nstat (k_ls s) n" if "node_type n \<in> {AIXOS_OBJ_MUTEX, AIXOS_OBJ_TIMER} - {ty}" for n
    using d that by blast
  show "mutexes_ok s'" if "ty \<noteq> AIXOS_OBJ_MUTEX"
  proof -
    have e: "mutex_pool s' = mutex_pool s" "\<And>i. nstat (k_ls s') (OwnerN i) = nstat (k_ls s) (OwnerN i)"
      "\<And>i. lists (k_ls s') (MutexWait i) = None \<longleftrightarrow> lists (k_ls s) (MutexWait i) = None"
      using d n that by auto
    show ?thesis using o(8) unfolding mutexes_ok_def mo[OF e(1)] e by blast
  qed
  show "timers_ok s'" if "ty \<noteq> AIXOS_OBJ_TIMER"
  proof -
    have e: "timer_pool s' = timer_pool s" "\<And>i. nstat (k_ls s') (ActiveN i) = nstat (k_ls s) (ActiveN i)"
      "\<And>i. nstat (k_ls s') (PendingN i) = nstat (k_ls s) (PendingN i)"
      using d n that by auto
    show ?thesis using o(9) unfolding timers_ok_def e .
  qed
qed

lemma pool_step_ok:
  assumes ok: "kernel_ok s" and st: "pool_step ty s s'" and ty: "ty \<noteq> AIXOS_OBJ_TASK" and inv: "kinvx {} s'"
    and tab: "ty = AIXOS_OBJ_SEM \<Longrightarrow> sem_table s'" "ty = AIXOS_OBJ_MUTEX \<Longrightarrow> mutex_table s' \<and> mutexes_ok s'"
      "ty = AIXOS_OBJ_MQ \<Longrightarrow> mq_table s'" "ty = AIXOS_OBJ_EVENT \<Longrightarrow> event_table s'"
      "ty = AIXOS_OBJ_PIPE \<Longrightarrow> pipe_table s'" "ty = AIXOS_OBJ_TIMER \<Longrightarrow> timer_table s' \<and> timers_ok s'"
  shows "kernel_ok s'"
proof -
  note t = pool_step_tables[OF kernel_okD(2)[OF ok] st ty]
  have "tw_low s' < AIXOS_CFG_TW_SIZE1 \<and> tw_high s' < AIXOS_CFG_TW_SIZE2"
    using st kernel_okD(2)[OF ok] by (simp add: pool_step_def objects_ok_def)
  then show ?thesis using inv t tab unfolding kernel_ok_def objects_ok_def by blast
qed

section \<open>Slots\<close>

lemma lookup_zero:
  assumes "obj_inv (k_obj s)"
  shows "k_lookup 0 ty s = KNull"
proof (cases "0 \<le> type_to_pool_id ty")
  case True
  note pid = True pool_id_range[OF True]
  have g: "AIXOS_HANDLE_GEN 0 = 0" by (simp add: AIXOS_HANDLE_GEN_def)
  show ?thesis
  proof (cases "live_slot (type_to_pool_id ty) (uint (AIXOS_HANDLE_IDX 0)) (k_obj s)")
    case (Some sl)
    then have "slot_generation sl \<noteq> 0" using live_slot_wf[OF assms pid Some] by (auto simp: slot_wf_def)
    then show ?thesis using k_lookup_live[OF assms True, of 0] Some g by simp
  qed (simp add: k_lookup_live[OF assms True])
qed (simp add: k_lookup_no_pool)

text \<open>The pools of the IPC objects are static: claiming a slot never allocates.\<close>

lemma k_slot_alloc_static:
  assumes "pid \<noteq> AIXOS_POOL_TASK"
  shows "\<exists>i os. k_slot_alloc pid ob s = Some (i, s\<lparr>k_obj := os\<rparr>)"
proof -
  obtain i os where "aixos_slot_alloc (page_malloc (in_isr s)) pid ob (Some (k_heap s)) (k_obj s) = (i, Some (k_heap s), os)"
    using assms by (fastforce simp: aixos_slot_alloc_def Let_def)
  then show ?thesis by (auto simp: k_slot_alloc_def)
qed

text \<open>A claimed slot, and the table that gets a new entry; a freed slot, and the table that loses one.\<close>

lemma slot_claimed:
  assumes inv: "obj_inv (k_obj s)" and ty: "0 \<le> type_to_pool_id ty" "ty \<noteq> AIXOS_OBJ_TASK" and ob: "ob \<noteq> KNull"
  shows "\<exists>i os. k_slot_alloc (type_to_pool_id ty) ob s = Some (i, s\<lparr>k_obj := os\<rparr>) \<and> obj_inv os \<and>
     (if i < 0 then (\<forall>g ty'. k_lookup g ty' (s\<lparr>k_obj := os\<rparr>) = k_lookup g ty' s)
      else \<exists>h. h = aixos_slot_handle (type_to_pool_id ty) i os \<and> h \<noteq> 0 \<and> k_lookup h ty s = KNull \<and>
        (\<forall>g ty'. k_lookup g ty' (s\<lparr>k_obj := os\<rparr>) = (if g = h \<and> ty' = ty then ob else k_lookup g ty' s)))"
proof -
  have "type_to_pool_id ty \<noteq> AIXOS_POOL_TASK" using ty by (cases ty) (auto simp: type_to_pool_id_def)
  then obtain i os where a: "k_slot_alloc (type_to_pool_id ty) ob s = Some (i, s\<lparr>k_obj := os\<rparr>)"
    using k_slot_alloc_static by blast
  note e = k_slot_alloc_effect[OF inv ty(1) ob a, simplified]
  show ?thesis
  proof (cases "i < 0")
    case True
    then show ?thesis using a e(2) by (intro exI[of _ i] exI[of _ os]) (simp add: e(3))
  next
    case False
    then show ?thesis using a e(2) e(4) by (intro exI[of _ i] exI[of _ os]) simp
  qed
qed

lemma table_ok_insert:
  assumes T: "table_ok lk ptr hnd n heads L" and i: "i < n" "hnd i = 0" and h: "h \<noteq> 0"
    and lk: "\<And>g. lk' g = (if g = h then ptr i else lk g)" "lk 0 = KNull" "\<And>j. ptr j \<noteq> KNull" and inj: "\<And>j k. ptr j = ptr k \<Longrightarrow> j = k"
    and hnd: "\<And>j. j < n \<Longrightarrow> hnd' j = (if j = i then h else hnd j)"
    and L: "\<And>g. g \<in> set (heads i) \<Longrightarrow> L' g \<noteq> None" "\<And>j g. j \<noteq> i \<Longrightarrow> g \<in> set (heads j) \<Longrightarrow> L' g = None \<longleftrightarrow> L g = None"
  shows "table_ok lk' ptr hnd' n heads L'"
  unfolding table_ok_def
proof (intro conjI allI impI)
  fix g j assume g: "lk' g = ptr j"
  have "j < n \<and> hnd' j = g \<and> (\<forall>k \<in> set (heads j). L' k \<noteq> None)"
  proof (cases "g = h")
    case True
    then have "j = i" using g lk(1) inj by simp
    then show ?thesis using True i hnd L(1) by simp
  next
    case False
    then have o: "lk g = ptr j" using g lk(1) by simp
    note t = table_okD[OF T o]
    have "j \<noteq> i" using t(2) i(2) o lk(2,3) by metis
    then show ?thesis using t hnd L(2) by fastforce
  qed
  then show "j < n" "hnd' j = g" "\<forall>k \<in> set (heads j). L' k \<noteq> None" by blast+
next
  fix j assume j: "j < n" "hnd' j = 0"
  then have "j \<noteq> i" "hnd j = 0" using hnd h by (auto split: if_splits)
  then show "\<forall>g \<in> set (heads j). L' g = None" using T j(1) L(2) unfolding table_ok_def by blast
qed

lemma table_ok_delete:
  assumes T: "table_ok lk ptr hnd n heads L" and i: "lk h = ptr i"
    and lk: "\<And>g. lk' g = (if g = h then KNull else lk g)" "\<And>j. ptr j \<noteq> KNull"
    and hnd: "\<And>j. j < n \<Longrightarrow> hnd' j = (if j = i then 0 else hnd j)"
    and L: "\<And>g. g \<in> set (heads i) \<Longrightarrow> L' g = None" "\<And>j g. j \<noteq> i \<Longrightarrow> g \<in> set (heads j) \<Longrightarrow> L' g = None \<longleftrightarrow> L g = None"
  shows "table_ok lk' ptr hnd' n heads L'"
  unfolding table_ok_def
proof (intro conjI allI impI)
  fix g j assume g: "lk' g = ptr j"
  then have o: "g \<noteq> h" "lk g = ptr j" using lk by metis+
  note t = table_okD[OF T o(2)]
  have "j \<noteq> i" using t(2) table_okD(2)[OF T i] o(1) by blast
  then show "j < n" "hnd' j = g" "\<forall>k \<in> set (heads j). L' k \<noteq> None" using t hnd L(2) by fastforce+
next
  fix j assume j: "j < n" "hnd' j = 0"
  show "\<forall>g \<in> set (heads j). L' g = None"
  proof (cases "j = i")
    case False
    then have "hnd j = 0" using j hnd by simp
    then show ?thesis using T j(1) False L(2) unfolding table_ok_def by blast
  qed (use L(1) in simp)
qed

section \<open>Heads\<close>

definition plain_head :: "lhead \<Rightarrow> bool" where
  "plain_head h \<longleftrightarrow> head_type h \<noteq> AIXOS_OBJ_UNUSED"

lemma plain_head_same:
  "plain_head h \<Longrightarrow> same_heads ls (ls\<lparr>lists := (lists ls)(h := x)\<rparr>)"
  by (cases h) (auto simp: plain_head_def same_heads_def)

lemma init_head_kinv:
  assumes inv: "kinvx X s" and h: "plain_head h" "lists (k_ls s) h = None"
  shows "on_ls (list_init_head h) s = Some (s\<lparr>k_ls := (k_ls s)\<lparr>lists := (lists (k_ls s))(h \<mapsto> [])\<rparr>\<rparr>) \<and>
    kinvx X (s\<lparr>k_ls := (k_ls s)\<lparr>lists := (lists (k_ls s))(h \<mapsto> [])\<rparr>\<rparr>)"
proof -
  have i: "list_init_head h (k_ls s) = Some ((k_ls s)\<lparr>lists := (lists (k_ls s))(h \<mapsto> [])\<rparr>)" using h(2) by (simp add: list_init_head_def)
  then show ?thesis
    using kinvx_same_nodes[OF inv list_init_head_lwf[OF i kinvx_lwf[OF inv]] plain_head_same[OF h(1)]] by (simp add: on_ls_def)
qed

lemma zero_head_kinv:
  assumes inv: "kinvx X s" and h: "plain_head h" "lists (k_ls s) h = Some []"
  shows "on_ls (list_zero_head h) s = Some (s\<lparr>k_ls := (k_ls s)\<lparr>lists := (lists (k_ls s))(h := None)\<rparr>\<rparr>) \<and>
    kinvx X (s\<lparr>k_ls := (k_ls s)\<lparr>lists := (lists (k_ls s))(h := None)\<rparr>\<rparr>)"
proof -
  have i: "list_zero_head h (k_ls s) = Some ((k_ls s)\<lparr>lists := (lists (k_ls s))(h := None)\<rparr>)" using h(2) by (simp add: list_zero_head_def)
  then show ?thesis
    using kinvx_same_nodes[OF inv list_zero_head_lwf[OF i kinvx_lwf[OF inv]] plain_head_same[OF h(1)]] by (simp add: on_ls_def)
qed

lemma find_index_Some: "find_index P xs k = Some i \<Longrightarrow> k \<le> i \<and> i - k < length xs \<and> P (xs ! (i - k))"
proof (induction xs arbitrary: k)
  case (Cons x xs)
  show ?case
  proof (cases "P x")
    case False
    then show ?thesis using Cons.IH[of "Suc k"] Cons.prems by (auto simp: nth_Cons' Suc_diff_le dest: Suc_le_D)
  qed (use Cons.prems in auto)
qed simp

lemmas find_free = find_index_Some[of _ _ 0, simplified]

lemma head_empty_Some: "head_empty h s \<longleftrightarrow> lists (k_ls s) h = Some []"
  by (simp add: head_empty_def list_is_empty_def)

section \<open>Semaphores and event groups\<close>

lemma kernel_ok_lookup:
  assumes ok: "kernel_ok s" and os: "obj_inv os" "\<forall>g ty. k_lookup g ty (s\<lparr>k_obj := os\<rparr>) = k_lookup g ty s"
  shows "kernel_ok (s\<lparr>k_obj := os\<rparr>)"
proof (rule pool_step_ok[OF ok, of AIXOS_OBJ_UNUSED])
  show "pool_step AIXOS_OBJ_UNUSED s (s\<lparr>k_obj := os\<rparr>)" using os by (simp add: pool_step_def)
  show "kinvx {} (s\<lparr>k_obj := os\<rparr>)" using kinvx_cong[of "s\<lparr>k_obj := os\<rparr>" s] kernel_okD(1)[OF ok] by simp
qed simp_all

lemma table_free: "table_ok lk ptr hnd n heads L \<Longrightarrow> i < n \<Longrightarrow> hnd i = 0 \<Longrightarrow> g \<in> set (heads i) \<Longrightarrow> L g = None"
  unfolding table_ok_def by blast

lemma lookup_cong: "k_obj s' = k_obj s \<Longrightarrow> k_lookup g ty s' = k_lookup g ty s"
  by (simp add: k_lookup_def)

lemma claim_cases:
  assumes ok: "kernel_ok s" and pid: "type_to_pool_id ty = pid" "0 < pid" and ob: "ob \<noteq> KNull"
  obtains (full) j os where "k_slot_alloc pid ob s = Some (j, s\<lparr>k_obj := os\<rparr>)" "j < 0" "kernel_ok (s\<lparr>k_obj := os\<rparr>)"
  | (claimed) j os h where "k_slot_alloc pid ob s = Some (j, s\<lparr>k_obj := os\<rparr>)" "\<not> j < 0" "obj_inv os"
      "aixos_slot_handle pid j os = h" "h \<noteq> 0"
      "\<And>(s' :: kstate) g ty'. k_obj s' = os \<Longrightarrow> k_lookup g ty' s' = (if g = h \<and> ty' = ty then ob else k_lookup g ty' s)"
proof -
  have ty: "0 \<le> type_to_pool_id ty" "ty \<noteq> AIXOS_OBJ_TASK" using pid by (auto simp: type_to_pool_id_def)
  obtain j os where a: "k_slot_alloc (type_to_pool_id ty) ob s = Some (j, s\<lparr>k_obj := os\<rparr>) \<and> obj_inv os \<and>
     (if j < 0 then (\<forall>g ty'. k_lookup g ty' (s\<lparr>k_obj := os\<rparr>) = k_lookup g ty' s)
      else \<exists>h. h = aixos_slot_handle (type_to_pool_id ty) j os \<and> h \<noteq> 0 \<and> k_lookup h ty s = KNull \<and>
        (\<forall>g ty'. k_lookup g ty' (s\<lparr>k_obj := os\<rparr>) = (if g = h \<and> ty' = ty then ob else k_lookup g ty' s)))"
    using slot_claimed[OF tasks_okD(1)[OF objects_okD(1)[OF kernel_okD(2)[OF ok]]] ty ob] by blast
  show thesis
  proof (cases "j < 0")
    case True
    then show thesis using full[of j os] a kernel_ok_lookup[OF ok, of os] pid(1) by simp
  next
    case False
    define h where "h = aixos_slot_handle pid j os"
    have h: "h \<noteq> 0" "\<And>g ty'. k_lookup g ty' (s\<lparr>k_obj := os\<rparr>) = (if g = h \<and> ty' = ty then ob else k_lookup g ty' s)"
      using a False pid(1) unfolding h_def by auto
    have "k_lookup g ty' s' = (if g = h \<and> ty' = ty then ob else k_lookup g ty' s)" if "k_obj s' = os" for s' :: kstate and g ty'
      using h(2)[of g ty'] lookup_cong[of s' "s\<lparr>k_obj := os\<rparr>"] that by simp
    then show thesis using claimed[of j os h] a False pid(1) h(1) by (simp add: h_def)
  qed
qed

lemma release_effect:
  assumes ok: "kernel_ok s" and pid: "type_to_pool_id ty = pid" "0 < pid" and lk: "k_lookup h ty s \<noteq> KNull"
  shows "obj_inv (k_obj (k_slot_free pid h s))"
    "\<And>(s' :: kstate) g ty'. k_obj s' = k_obj (k_slot_free pid h s) \<Longrightarrow> k_lookup g ty' s' = (if g = h \<and> ty' = ty then KNull else k_lookup g ty' s)"
proof -
  have ty: "0 \<le> type_to_pool_id ty" using pid by simp
  note f = k_slot_free_effect[OF tasks_okD(1)[OF objects_okD(1)[OF kernel_okD(2)[OF ok]]] ty lk, unfolded pid(1)]
  show "obj_inv (k_obj (k_slot_free pid h s))" by (rule f(1))
  fix s' :: kstate and g ty' assume "k_obj s' = k_obj (k_slot_free pid h s)"
  then show "k_lookup g ty' s' = (if g = h \<and> ty' = ty then KNull else k_lookup g ty' s)"
    using f(2) lookup_cong[of s' "k_slot_free pid h s"] by simp
qed

lemma free_entry:
  assumes "find_index (\<lambda>x. f x = 0) xs 0 = Some i" "length xs = n \<and> T"
  shows "i < n" "f (xs ! i) = 0"
  using find_free[OF assms(1)] assms(2) by auto

lemma type_pools [simp]:
  "type_to_pool_id AIXOS_OBJ_SEM = AIXOS_POOL_SEM" "type_to_pool_id AIXOS_OBJ_MUTEX = AIXOS_POOL_MUTEX"
  "type_to_pool_id AIXOS_OBJ_MQ = AIXOS_POOL_MQ" "type_to_pool_id AIXOS_OBJ_EVENT = AIXOS_POOL_EVENT"
  "type_to_pool_id AIXOS_OBJ_PIPE = AIXOS_POOL_PIPE" "type_to_pool_id AIXOS_OBJ_TIMER = AIXOS_POOL_TIMER"
  by (simp_all add: type_to_pool_id_def)

lemma sem_create_keeps:
  assumes ok: "kernel_ok s"
  shows "keeps_ok (aixos_sem_create n s)"
proof (cases "in_isr s \<or> n < 0 \<or> n > AIXOS_CFG_SEM_MAX_COUNT \<or> find_index (\<lambda>x. sem_handle x = 0) (sem_pool s) 0 = None")
  case True
  then show ?thesis using ok by (auto simp: aixos_sem_create_def)
next
  case False
  note o = objects_okD[OF kernel_okD(2)[OF ok]]
  obtain i where i: "find_index (\<lambda>x. sem_handle x = 0) (sem_pool s) 0 = Some i" using False by auto
  note i' = free_entry[OF i o(2)]
  have pre: "type_to_pool_id AIXOS_OBJ_SEM = AIXOS_POOL_SEM" "0 < AIXOS_POOL_SEM" "KSem i \<noteq> KNull" by simp_all
  show ?thesis
  proof (cases rule: claim_cases[OF ok pre, case_names full claimed])
    case (full j os)
    then show ?thesis using False i by (simp add: aixos_sem_create_def)
  next
    case (claimed j os h)
    let ?s2 = "set_sem i \<lparr>sem_count = n, sem_handle = h\<rparr> (s\<lparr>k_obj := os\<rparr>)"
    have inv2: "kinvx {} ?s2" using kinvx_cong[of ?s2 s] kernel_okD(1)[OF ok] by (simp add: set_sem_def)
    have N: "lists (k_ls ?s2) (SemWait i) = None" using table_free[OF conjunct2[OF o(2)] i'] by (simp add: set_sem_def)
    note c = init_head_kinv[OF inv2 _ N, simplified plain_head_def, simplified]
    let ?s3 = "?s2\<lparr>k_ls := (k_ls ?s2)\<lparr>lists := (lists (k_ls ?s2))(SemWait i \<mapsto> [])\<rparr>\<rparr>"
    note lk = claimed(6)[of ?s3, simplified set_sem_def, simplified]
    have "kernel_ok ?s3"
    proof (rule pool_step_ok[OF ok, of AIXOS_OBJ_SEM])
      show "pool_step AIXOS_OBJ_SEM s ?s3" using claimed(3) lk by (auto simp: pool_step_def set_sem_def)
      show "sem_table ?s3"
        using o(2) i' claimed(5) lk lookup_zero[OF tasks_okD(1)[OF o(1)]]
        by (auto simp: set_sem_def intro: table_ok_insert[OF conjunct2[OF o(2)] i'])
    qed (use c in simp_all)
    then show ?thesis
      using False i claimed(1,2,4) c by (simp add: aixos_sem_create_def)
  qed
qed

lemma sem_delete_keeps:
  assumes ok: "kernel_ok s"
  shows "keeps_ok (aixos_sem_delete g s)"
proof (cases "in_isr s \<or> sem_from_handle g s = None \<or> (\<exists>i. sem_from_handle g s = Some i \<and> \<not> head_empty (SemWait i) s)")
  case True
  then show ?thesis using ok by (auto simp: aixos_sem_delete_def split: option.splits)
next
  case False
  note o = objects_okD[OF kernel_okD(2)[OF ok]]
  obtain i where i: "sem_from_handle g s = Some i" "lists (k_ls s) (SemWait i) = Some []"
    using False by (auto simp: head_empty_Some)
  then have lk0: "k_lookup g AIXOS_OBJ_SEM s = KSem i" by (simp add: from_handle_lookup)
  note i' = table_okD[OF conjunct2[OF o(2)] lk0]
  note f = release_effect[OF ok, of AIXOS_OBJ_SEM AIXOS_POOL_SEM g, simplified lk0, simplified]
  let ?s2 = "set_sem i zero_sem (k_slot_free AIXOS_POOL_SEM g s)"
  have inv2: "kinvx {} ?s2" using kinvx_cong[of ?s2 s] kernel_okD(1)[OF ok] by (simp add: set_sem_def k_slot_free_def)
  have N: "lists (k_ls ?s2) (SemWait i) = Some []" using i(2) by (simp add: set_sem_def k_slot_free_def)
  note c = zero_head_kinv[OF inv2 _ N, simplified plain_head_def, simplified]
  let ?s3 = "?s2\<lparr>k_ls := (k_ls ?s2)\<lparr>lists := (lists (k_ls ?s2))(SemWait i := None)\<rparr>\<rparr>"
  note lk = f(2)[of ?s3, simplified set_sem_def, simplified]
  have "kernel_ok ?s3"
  proof (rule pool_step_ok[OF ok, of AIXOS_OBJ_SEM])
    show "pool_step AIXOS_OBJ_SEM s ?s3" using f(1) lk by (auto simp: pool_step_def set_sem_def k_slot_free_def)
    show "sem_table ?s3"
      using o(2) i'(1) lk
      by (auto simp: set_sem_def k_slot_free_def zero_sem_def intro: table_ok_delete[OF conjunct2[OF o(2)] lk0])
  qed (use c in simp_all)
  then show ?thesis
    using False i c by (simp add: aixos_sem_delete_def head_empty_Some)
qed

lemma event_create_keeps:
  assumes ok: "kernel_ok s"
  shows "keeps_ok (aixos_event_create s)"
proof (cases "in_isr s \<or> find_index (\<lambda>x. ev_handle x = 0) (event_pool s) 0 = None")
  case True
  then show ?thesis using ok by (auto simp: aixos_event_create_def)
next
  case False
  note o = objects_okD[OF kernel_okD(2)[OF ok]]
  obtain i where i: "find_index (\<lambda>x. ev_handle x = 0) (event_pool s) 0 = Some i" using False by auto
  note i' = free_entry[OF i o(5)]
  have pre: "type_to_pool_id AIXOS_OBJ_EVENT = AIXOS_POOL_EVENT" "0 < AIXOS_POOL_EVENT" "KEvent i \<noteq> KNull" by simp_all
  show ?thesis
  proof (cases rule: claim_cases[OF ok pre, case_names full claimed])
    case (full j os)
    then show ?thesis using False i by (simp add: aixos_event_create_def)
  next
    case (claimed j os h)
    let ?s2 = "set_event i \<lparr>ev_flags = 0, ev_handle = h\<rparr> (s\<lparr>k_obj := os\<rparr>)"
    have inv2: "kinvx {} ?s2" using kinvx_cong[of ?s2 s] kernel_okD(1)[OF ok] by (simp add: set_event_def)
    have N: "lists (k_ls ?s2) (EventWait i) = None" using table_free[OF conjunct2[OF o(5)] i'] by (simp add: set_event_def)
    note c = init_head_kinv[OF inv2 _ N, simplified plain_head_def, simplified]
    let ?s3 = "?s2\<lparr>k_ls := (k_ls ?s2)\<lparr>lists := (lists (k_ls ?s2))(EventWait i \<mapsto> [])\<rparr>\<rparr>"
    note lk = claimed(6)[of ?s3, simplified set_event_def, simplified]
    have "kernel_ok ?s3"
    proof (rule pool_step_ok[OF ok, of AIXOS_OBJ_EVENT])
      show "pool_step AIXOS_OBJ_EVENT s ?s3" using claimed(3) lk by (auto simp: pool_step_def set_event_def)
      show "event_table ?s3"
        using o(5) i' claimed(5) lk lookup_zero[OF tasks_okD(1)[OF o(1)]]
        by (auto simp: set_event_def intro: table_ok_insert[OF conjunct2[OF o(5)] i'])
    qed (use c in simp_all)
    then show ?thesis
      using False i claimed(1,2,4) c by (simp add: aixos_event_create_def)
  qed
qed

lemma event_delete_keeps:
  assumes ok: "kernel_ok s"
  shows "keeps_ok (aixos_event_delete g s)"
proof (cases "in_isr s \<or> event_from_handle g s = None \<or> (\<exists>i. event_from_handle g s = Some i \<and> \<not> head_empty (EventWait i) s)")
  case True
  then show ?thesis using ok by (auto simp: aixos_event_delete_def split: option.splits)
next
  case False
  note o = objects_okD[OF kernel_okD(2)[OF ok]]
  obtain i where i: "event_from_handle g s = Some i" "lists (k_ls s) (EventWait i) = Some []"
    using False by (auto simp: head_empty_Some)
  then have lk0: "k_lookup g AIXOS_OBJ_EVENT s = KEvent i" by (simp add: from_handle_lookup)
  note i' = table_okD[OF conjunct2[OF o(5)] lk0]
  note f = release_effect[OF ok, of AIXOS_OBJ_EVENT AIXOS_POOL_EVENT g, simplified lk0, simplified]
  let ?s2 = "set_event i zero_event (k_slot_free AIXOS_POOL_EVENT g s)"
  have inv2: "kinvx {} ?s2" using kinvx_cong[of ?s2 s] kernel_okD(1)[OF ok] by (simp add: set_event_def k_slot_free_def)
  have N: "lists (k_ls ?s2) (EventWait i) = Some []" using i(2) by (simp add: set_event_def k_slot_free_def)
  note c = zero_head_kinv[OF inv2 _ N, simplified plain_head_def, simplified]
  let ?s3 = "?s2\<lparr>k_ls := (k_ls ?s2)\<lparr>lists := (lists (k_ls ?s2))(EventWait i := None)\<rparr>\<rparr>"
  note lk = f(2)[of ?s3, simplified set_event_def, simplified]
  have "kernel_ok ?s3"
  proof (rule pool_step_ok[OF ok, of AIXOS_OBJ_EVENT])
    show "pool_step AIXOS_OBJ_EVENT s ?s3" using f(1) lk by (auto simp: pool_step_def set_event_def k_slot_free_def)
    show "event_table ?s3"
      using o(5) i'(1) lk
      by (auto simp: set_event_def k_slot_free_def zero_event_def intro: table_ok_delete[OF conjunct2[OF o(5)] lk0])
  qed (use c in simp_all)
  then show ?thesis
    using False i c by (simp add: aixos_event_delete_def head_empty_Some)
qed

section \<open>Message queues and pipes\<close>

lemma kernel_ok_free: "kernel_ok s \<Longrightarrow> kernel_ok (k_free p s)" "kernel_ok s \<Longrightarrow> kernel_ok (mq_free_buffers b l p s)"
  using ipc.memory by (simp_all add: mq_free_buffers_def k_free_def)

lemma mq_create_common_keeps:
  assumes ok: "kernel_ok s"
  shows "keeps_ok (mq_create_common mx sz buffer lengths priorities ow s)"
proof (cases "in_isr s \<or> mq_sizes_bad mx sz \<or> buffer = 0 \<or> lengths = 0 \<or> find_index (\<lambda>x. mq_handle x = 0) (mq_pool s) 0 = None")
  case True
  then show ?thesis using ok by (auto simp: mq_create_common_def)
next
  case False
  note o = objects_okD[OF kernel_okD(2)[OF ok]]
  obtain i where i: "find_index (\<lambda>x. mq_handle x = 0) (mq_pool s) 0 = Some i" using False by auto
  note i' = free_entry[OF i o(4)]
  have pre: "type_to_pool_id AIXOS_OBJ_MQ = AIXOS_POOL_MQ" "0 < AIXOS_POOL_MQ" "KMq i \<noteq> KNull" by simp_all
  show ?thesis
  proof (cases rule: claim_cases[OF ok pre, case_names full claimed])
    case (full j os)
    then show ?thesis using False i by (auto simp: mq_create_common_def)
  next
    case (claimed j os h)
    define s2 where "s2 = set_mq i (zero_mq\<lparr>mq_buffer := buffer, mq_lengths := lengths, mq_priorities := priorities, mq_max_msgs := mx, mq_msg_size := sz, mq_handle := h, mq_owns_buffers := ow\<rparr>) (let s = k_write lengths (replicate (unat mx * 4) 0) (s\<lparr>k_obj := os\<rparr>) in if priorities \<noteq> 0 then k_write priorities (replicate (unat mx * 4) 0) s else s)"
    have e2: "\<exists>hp. s2 = s\<lparr>k_obj := os, mq_pool := (mq_pool s)[i := zero_mq\<lparr>mq_buffer := buffer, mq_lengths := lengths, mq_priorities := priorities, mq_max_msgs := mx, mq_msg_size := sz, mq_handle := h, mq_owns_buffers := ow\<rparr>], k_heap := hp\<rparr>"
      by (rule exI[of _ "k_heap s2"], rule kstate.equality) (simp_all add: s2_def set_mq_def k_write_def Let_def)
    have inv2: "kinvx {} s2" using kinvx_cong[of s2 s] kernel_okD(1)[OF ok] e2 by auto
    have N: "lists (k_ls s2) (MqSend i) = None" using table_free[OF conjunct2[OF o(4)] i'] e2 by auto
    note c = init_head_kinv[OF inv2 _ N, simplified plain_head_def, simplified]
    define s3 where "s3 = s2\<lparr>k_ls := (k_ls s2)\<lparr>lists := (lists (k_ls s2))(MqSend i \<mapsto> [])\<rparr>\<rparr>"
    have N3: "lists (k_ls s3) (MqRecv i) = None" using table_free[OF conjunct2[OF o(4)] i'] e2 by (auto simp: s3_def)
    note c3 = init_head_kinv[OF conjunct2[OF c, folded s3_def] _ N3, simplified plain_head_def, simplified]
    define s4 where "s4 = s3\<lparr>k_ls := (k_ls s3)\<lparr>lists := (lists (k_ls s3))(MqRecv i \<mapsto> [])\<rparr>\<rparr>"
    obtain hp where e4: "s4 = s\<lparr>k_obj := os, mq_pool := (mq_pool s)[i := zero_mq\<lparr>mq_buffer := buffer, mq_lengths := lengths, mq_priorities := priorities, mq_max_msgs := mx, mq_msg_size := sz, mq_handle := h, mq_owns_buffers := ow\<rparr>], k_heap := hp,
        k_ls := (k_ls s)\<lparr>lists := (lists (k_ls s))(MqSend i \<mapsto> [], MqRecv i \<mapsto> [])\<rparr>\<rparr>"
      using e2 by (auto simp: s4_def s3_def)
    have lk: "k_lookup g ty' s4 = (if g = h \<and> ty' = AIXOS_OBJ_MQ then KMq i else k_lookup g ty' s)" for g ty'
      by (rule claimed(6)) (simp add: e4)
    have "kernel_ok s4"
    proof (rule pool_step_ok[OF ok, of AIXOS_OBJ_MQ])
      show "pool_step AIXOS_OBJ_MQ s s4" unfolding pool_step_def using claimed(3) lk by (auto simp: e4)
      show "mq_table s4"
        by (rule conjI, use o(4) in \<open>simp add: e4\<close>, rule table_ok_insert[OF conjunct2[OF o(4)] i' claimed(5)])
          (use o(4) i' lk lookup_zero[OF tasks_okD(1)[OF o(1)]] in \<open>auto simp: e4\<close>)
    qed (use c3 in \<open>simp_all add: s4_def\<close>)
    then show ?thesis
      using False i claimed(1,2,4) c c3
      by (simp add: mq_create_common_def s2_def[unfolded Let_def, symmetric] s3_def[symmetric] s4_def[symmetric]
          split del: if_split)
  qed
qed

lemma mq_delete_keeps:
  assumes ok: "kernel_ok s"
  shows "keeps_ok (aixos_mq_delete g s)"
proof (cases "in_isr s \<or> mq_from_handle g s = None \<or>
    (\<exists>i. mq_from_handle g s = Some i \<and> (\<not> head_empty (MqSend i) s \<or> \<not> head_empty (MqRecv i) s))")
  case True
  then show ?thesis using ok by (auto simp: aixos_mq_delete_def split: option.splits)
next
  case False
  note o = objects_okD[OF kernel_okD(2)[OF ok]]
  obtain i where i: "mq_from_handle g s = Some i" "lists (k_ls s) (MqSend i) = Some []" "lists (k_ls s) (MqRecv i) = Some []"
    using False by (auto simp: head_empty_Some)
  then have lk0: "k_lookup g AIXOS_OBJ_MQ s = KMq i" by (simp add: from_handle_lookup)
  note i' = table_okD[OF conjunct2[OF o(4)] lk0]
  note f = release_effect[OF ok, of AIXOS_OBJ_MQ AIXOS_POOL_MQ g, simplified lk0, simplified]
  define s2 where "s2 = set_mq i zero_mq (k_slot_free AIXOS_POOL_MQ g s)"
  have e2: "s2 = s\<lparr>k_obj := k_obj s2, mq_pool := (mq_pool s)[i := zero_mq]\<rparr>" "k_obj s2 = k_obj (k_slot_free AIXOS_POOL_MQ g s)"
    by (simp_all add: s2_def set_mq_def k_slot_free_def)
  have l2: "k_ls s2 = k_ls s" by (simp add: s2_def set_mq_def k_slot_free_def)
  have inv2: "kinvx {} s2" using kinvx_cong[of s2 s] kernel_okD(1)[OF ok] by (simp add: s2_def set_mq_def k_slot_free_def)
  have N: "lists (k_ls s2) (MqSend i) = Some []" using i(2) l2 by simp
  note c = zero_head_kinv[OF inv2 _ N, simplified plain_head_def, simplified]
  define s3 where "s3 = s2\<lparr>k_ls := (k_ls s2)\<lparr>lists := (lists (k_ls s2))(MqSend i := None)\<rparr>\<rparr>"
  have N3: "lists (k_ls s3) (MqRecv i) = Some []" using i(3) l2 by (simp add: s3_def)
  note c3 = zero_head_kinv[OF conjunct2[OF c, folded s3_def] _ N3, simplified plain_head_def, simplified]
  define s4 where "s4 = s3\<lparr>k_ls := (k_ls s3)\<lparr>lists := (lists (k_ls s3))(MqRecv i := None)\<rparr>\<rparr>"
  have e4: "s4 = s\<lparr>k_obj := k_obj s2, mq_pool := (mq_pool s)[i := zero_mq],
      k_ls := (k_ls s)\<lparr>lists := (lists (k_ls s))(MqSend i := None, MqRecv i := None)\<rparr>\<rparr>"
    by (rule kstate.equality) (simp_all add: s4_def s3_def s2_def set_mq_def k_slot_free_def)
  have lk: "k_lookup h ty' s4 = (if h = g \<and> ty' = AIXOS_OBJ_MQ then KNull else k_lookup h ty' s)" for h ty'
    by (rule f(2)) (simp add: e4 e2(2))
  have "kernel_ok s4"
  proof (rule pool_step_ok[OF ok, of AIXOS_OBJ_MQ])
    show "pool_step AIXOS_OBJ_MQ s s4" unfolding pool_step_def using f(1) lk by (auto simp: e4 e2(2))
    show "mq_table s4"
      by (rule conjI, use o(4) in \<open>simp add: e4\<close>, rule table_ok_delete[OF conjunct2[OF o(4)] lk0])
        (use o(4) i'(1) lk in \<open>auto simp: e4 zero_mq_def\<close>)
  qed (use c3 in \<open>simp_all add: s4_def\<close>)
  then have "kernel_ok (mq_free_buffers (mq_buffer (mq_pool s ! i)) (mq_lengths (mq_pool s ! i)) (mq_priorities (mq_pool s ! i)) s4)" using kernel_ok_free by simp
  then show ?thesis
    using False i c c3 \<open>kernel_ok s4\<close>
    by (simp add: aixos_mq_delete_def head_empty_Some Let_def s2_def[symmetric] s3_def[symmetric] s4_def[symmetric])
qed

lemma pipe_create_common_keeps:
  assumes ok: "kernel_ok s"
  shows "keeps_ok (pipe_create_common buffer sz ow s)"
proof (cases "in_isr s \<or> buffer = 0 \<or> sz = 0 \<or> find_index (\<lambda>x. pp_handle x = 0) (pipe_pool s) 0 = None")
  case True
  then show ?thesis using ok by (auto simp: pipe_create_common_def)
next
  case False
  note o = objects_okD[OF kernel_okD(2)[OF ok]]
  obtain i where i: "find_index (\<lambda>x. pp_handle x = 0) (pipe_pool s) 0 = Some i" using False by auto
  note i' = free_entry[OF i o(6)]
  have pre: "type_to_pool_id AIXOS_OBJ_PIPE = AIXOS_POOL_PIPE" "0 < AIXOS_POOL_PIPE" "KPipe i \<noteq> KNull" by simp_all
  show ?thesis
  proof (cases rule: claim_cases[OF ok pre, case_names full claimed])
    case (full j os)
    then show ?thesis using False i by (auto simp: pipe_create_common_def)
  next
    case (claimed j os h)
    define s2 where "s2 = set_pipe i (zero_pipe\<lparr>pp_buffer := buffer, pp_size := sz, pp_handle := h, pp_owns_buffer := ow\<rparr>) (s\<lparr>k_obj := os\<rparr>)"
    have e2: "\<exists>hp. s2 = s\<lparr>k_obj := os, pipe_pool := (pipe_pool s)[i := zero_pipe\<lparr>pp_buffer := buffer, pp_size := sz, pp_handle := h, pp_owns_buffer := ow\<rparr>], k_heap := hp\<rparr>"
      by (rule exI[of _ "k_heap s2"], rule kstate.equality) (simp_all add: s2_def set_pipe_def)
    have inv2: "kinvx {} s2" using kinvx_cong[of s2 s] kernel_okD(1)[OF ok] e2 by auto
    have N: "lists (k_ls s2) (PipeRead i) = None" using table_free[OF conjunct2[OF o(6)] i'] e2 by auto
    note c = init_head_kinv[OF inv2 _ N, simplified plain_head_def, simplified]
    define s3 where "s3 = s2\<lparr>k_ls := (k_ls s2)\<lparr>lists := (lists (k_ls s2))(PipeRead i \<mapsto> [])\<rparr>\<rparr>"
    have N3: "lists (k_ls s3) (PipeWrite i) = None" using table_free[OF conjunct2[OF o(6)] i'] e2 by (auto simp: s3_def)
    note c3 = init_head_kinv[OF conjunct2[OF c, folded s3_def] _ N3, simplified plain_head_def, simplified]
    define s4 where "s4 = s3\<lparr>k_ls := (k_ls s3)\<lparr>lists := (lists (k_ls s3))(PipeWrite i \<mapsto> [])\<rparr>\<rparr>"
    obtain hp where e4: "s4 = s\<lparr>k_obj := os, pipe_pool := (pipe_pool s)[i := zero_pipe\<lparr>pp_buffer := buffer, pp_size := sz, pp_handle := h, pp_owns_buffer := ow\<rparr>], k_heap := hp,
        k_ls := (k_ls s)\<lparr>lists := (lists (k_ls s))(PipeRead i \<mapsto> [], PipeWrite i \<mapsto> [])\<rparr>\<rparr>"
      using e2 by (auto simp: s4_def s3_def)
    have lk: "k_lookup g ty' s4 = (if g = h \<and> ty' = AIXOS_OBJ_PIPE then KPipe i else k_lookup g ty' s)" for g ty'
      by (rule claimed(6)) (simp add: e4)
    have "kernel_ok s4"
    proof (rule pool_step_ok[OF ok, of AIXOS_OBJ_PIPE])
      show "pool_step AIXOS_OBJ_PIPE s s4" unfolding pool_step_def using claimed(3) lk by (auto simp: e4)
      show "pipe_table s4"
        by (rule conjI, use o(6) in \<open>simp add: e4\<close>, rule table_ok_insert[OF conjunct2[OF o(6)] i' claimed(5)])
          (use o(6) i' lk lookup_zero[OF tasks_okD(1)[OF o(1)]] in \<open>auto simp: e4\<close>)
    qed (use c3 in \<open>simp_all add: s4_def\<close>)
    then show ?thesis
      using False i claimed(1,2,4) c c3
      by (simp add: pipe_create_common_def s2_def[symmetric] s3_def[symmetric] s4_def[symmetric])
  qed
qed

lemma pipe_delete_keeps:
  assumes ok: "kernel_ok s"
  shows "keeps_ok (aixos_pipe_delete g s)"
proof (cases "in_isr s \<or> pipe_from_handle g s = None \<or>
    (\<exists>i. pipe_from_handle g s = Some i \<and> (\<not> head_empty (PipeRead i) s \<or> \<not> head_empty (PipeWrite i) s))")
  case True
  then show ?thesis using ok by (auto simp: aixos_pipe_delete_def split: option.splits)
next
  case False
  note o = objects_okD[OF kernel_okD(2)[OF ok]]
  obtain i where i: "pipe_from_handle g s = Some i" "lists (k_ls s) (PipeRead i) = Some []" "lists (k_ls s) (PipeWrite i) = Some []"
    using False by (auto simp: head_empty_Some)
  then have lk0: "k_lookup g AIXOS_OBJ_PIPE s = KPipe i" by (simp add: from_handle_lookup)
  note i' = table_okD[OF conjunct2[OF o(6)] lk0]
  note f = release_effect[OF ok, of AIXOS_OBJ_PIPE AIXOS_POOL_PIPE g, simplified lk0, simplified]
  define s2 where "s2 = set_pipe i zero_pipe (k_slot_free AIXOS_POOL_PIPE g s)"
  have e2: "s2 = s\<lparr>k_obj := k_obj s2, pipe_pool := (pipe_pool s)[i := zero_pipe]\<rparr>" "k_obj s2 = k_obj (k_slot_free AIXOS_POOL_PIPE g s)"
    by (simp_all add: s2_def set_pipe_def k_slot_free_def)
  have l2: "k_ls s2 = k_ls s" by (simp add: s2_def set_pipe_def k_slot_free_def)
  have inv2: "kinvx {} s2" using kinvx_cong[of s2 s] kernel_okD(1)[OF ok] by (simp add: s2_def set_pipe_def k_slot_free_def)
  have N: "lists (k_ls s2) (PipeRead i) = Some []" using i(2) l2 by simp
  note c = zero_head_kinv[OF inv2 _ N, simplified plain_head_def, simplified]
  define s3 where "s3 = s2\<lparr>k_ls := (k_ls s2)\<lparr>lists := (lists (k_ls s2))(PipeRead i := None)\<rparr>\<rparr>"
  have N3: "lists (k_ls s3) (PipeWrite i) = Some []" using i(3) l2 by (simp add: s3_def)
  note c3 = zero_head_kinv[OF conjunct2[OF c, folded s3_def] _ N3, simplified plain_head_def, simplified]
  define s4 where "s4 = s3\<lparr>k_ls := (k_ls s3)\<lparr>lists := (lists (k_ls s3))(PipeWrite i := None)\<rparr>\<rparr>"
  have e4: "s4 = s\<lparr>k_obj := k_obj s2, pipe_pool := (pipe_pool s)[i := zero_pipe],
      k_ls := (k_ls s)\<lparr>lists := (lists (k_ls s))(PipeRead i := None, PipeWrite i := None)\<rparr>\<rparr>"
    by (rule kstate.equality) (simp_all add: s4_def s3_def s2_def set_pipe_def k_slot_free_def)
  have lk: "k_lookup h ty' s4 = (if h = g \<and> ty' = AIXOS_OBJ_PIPE then KNull else k_lookup h ty' s)" for h ty'
    by (rule f(2)) (simp add: e4 e2(2))
  have "kernel_ok s4"
  proof (rule pool_step_ok[OF ok, of AIXOS_OBJ_PIPE])
    show "pool_step AIXOS_OBJ_PIPE s s4" unfolding pool_step_def using f(1) lk by (auto simp: e4 e2(2))
    show "pipe_table s4"
      by (rule conjI, use o(6) in \<open>simp add: e4\<close>, rule table_ok_delete[OF conjunct2[OF o(6)] lk0])
        (use o(6) i'(1) lk in \<open>auto simp: e4 zero_pipe_def\<close>)
  qed (use c3 in \<open>simp_all add: s4_def\<close>)
  then have "kernel_ok (k_free (pp_buffer (pipe_pool s ! i)) s4)" using kernel_ok_free by simp
  then show ?thesis
    using False i c c3 \<open>kernel_ok s4\<close>
    by (simp add: aixos_pipe_delete_def head_empty_Some Let_def s2_def[symmetric] s3_def[symmetric] s4_def[symmetric])
qed

text \<open>The creations that allocate: whatever the heap returns, if it returns.\<close>

lemma on_heap_ok: "on_heap f s = Some (r, s') \<Longrightarrow> kernel_ok s \<Longrightarrow> kernel_ok s'"
  using ipc.memory by (auto simp: on_heap_def split: option.splits)

lemma create_common_ok:
  "mq_create_common mx sz b l p ow s = Some (r, s') \<Longrightarrow> kernel_ok s \<Longrightarrow> kernel_ok s'"
  "pipe_create_common b sz ow s = Some (r, s') \<Longrightarrow> kernel_ok s \<Longrightarrow> kernel_ok s'"
  using mq_create_common_keeps[of s mx sz b l p ow] pipe_create_common_keeps[of s b sz ow] by auto

lemma mq_create_keeps:
  assumes "kernel_ok s" "aixos_mq_create mx sz s = Some (r, s')"
  shows "kernel_ok s'"
  using assms kernel_ok_free
  by (auto simp: aixos_mq_create_def dest!: on_heap_ok create_common_ok split: if_splits Option.bind_splits prod.splits)

lemma pipe_create_keeps:
  assumes "kernel_ok s" "aixos_pipe_create sz s = Some (r, s')"
  shows "kernel_ok s'"
  using assms kernel_ok_free
  by (auto simp: aixos_pipe_create_def dest!: on_heap_ok create_common_ok split: if_splits Option.bind_splits prod.splits)

end
