(* ===== verification/Kmutex.thy ===== *)
theory Kmutex
  imports Kcreate
begin

text \<open>
  Mutexes under the kernel invariant: creating, locking, unlocking and deleting return and keep it.
  The owner of a mutex and the list of held mutexes it is in change together.
\<close>

lemma current_live:
  assumes ok: "kernel_ok s" and cb: "can_block s" and c: "cur_task s \<noteq> 0"
  shows "\<exists>t. tcbs s (cur_task s) = Some t \<and> t_state t \<noteq> AIXOS_TASK_STOP"
  using cb c by (auto simp: can_block_def ready_state_def)

lemma mutex_entry:
  assumes ok: "kernel_ok s" and i: "mutex_from_handle g s = Some i"
  shows "i < AIXOS_CFG_MAX_MUTEX" "i < length (mutex_pool s)" "mx_handle (mutex_pool s ! i) = g" "g \<noteq> 0"
    "lists (k_ls s) (MutexWait i) \<noteq> None" "nstat (k_ls s) (OwnerN i) \<noteq> NNull" "k_lookup g AIXOS_OBJ_MUTEX s = KMutex i"
proof -
  note o = objects_okD[OF kernel_okD(2)[OF ok]]
  show lk: "k_lookup g AIXOS_OBJ_MUTEX s = KMutex i" using i by (simp add: from_handle_lookup)
  note t = table_okD[OF conjunct2[OF o(3)] lk]
  show 1: "i < AIXOS_CFG_MAX_MUTEX" "mx_handle (mutex_pool s ! i) = g" by (fact t)+
  show "i < length (mutex_pool s)" "lists (k_ls s) (MutexWait i) \<noteq> None" using t(1) t(3) o(3) by auto
  show 2: "g \<noteq> 0" using lookup_zero[OF tasks_okD(1)[OF o(1)]] lk by auto
  show "nstat (k_ls s) (OwnerN i) \<noteq> NNull" using o(8) 1 2 unfolding mutexes_ok_def by blast
qed

text \<open>A change that only concerns mutexes: the rest of the invariant is not affected.\<close>

lemma kernel_ok_mutex:
  assumes ok: "kernel_ok s" and inv: "kinvx {} s'" and eq: "s' = s\<lparr>mutex_pool := mp, k_ls := k_ls s'\<rparr>"
    and len: "length mp = length (mutex_pool s)" and h: "\<And>i. mx_handle (mp ! i) = mx_handle (mutex_pool s ! i)"
    and L: "\<And>g. lists (k_ls s') g = None \<longleftrightarrow> lists (k_ls s) g = None"
    and N: "\<And>n. (\<forall>i. n \<noteq> OwnerN i) \<Longrightarrow> nstat (k_ls s') n = nstat (k_ls s) n" and mx: "mutexes_ok s'"
  shows "kernel_ok s'"
proof -
  note o = objects_okD[OF kernel_okD(2)[OF ok]]
  have e: "k_obj s' = k_obj s" "tcbs s' = tcbs s" "tw_low s' = tw_low s" "tw_high s' = tw_high s" "mutex_pool s' = mp"
    "sem_pool s' = sem_pool s" "mq_pool s' = mq_pool s" "event_pool s' = event_pool s" "pipe_pool s' = pipe_pool s"
    "timer_pool s' = timer_pool s" by (subst eq, simp)+
  have lk: "k_lookup g ty s' = k_lookup g ty s" for g ty by (rule lookup_cong[OF e(1)])
  show ?thesis
  proof (rule pool_step_ok[OF ok, of AIXOS_OBJ_MUTEX])
    have "nstat (k_ls s') n = nstat (k_ls s) n" if "node_type n = AIXOS_OBJ_TIMER" for n
      using N[of n] that by (cases n) auto
    then show "pool_step AIXOS_OBJ_MUTEX s s'"
      using L tasks_okD(1)[OF o(1)] unfolding pool_step_def e lk by auto
    have "table_ok (\<lambda>h. k_lookup h AIXOS_OBJ_MUTEX s') KMutex (\<lambda>i. mx_handle (mp ! i)) AIXOS_CFG_MAX_MUTEX
        (\<lambda>i. [MutexWait i]) (lists (k_ls s'))"
      by (rule table_ok_mono[OF conjunct2[OF o(3)]]) (use lk h L in auto)
    then show "mutex_table s' \<and> mutexes_ok s'" using o(3) len mx unfolding e by simp
  qed (use inv in simp_all)
qed

lemma mutexes_okD:
  assumes "mutexes_ok s" "nstat (k_ls s) (OwnerN i) = NIn h"
  shows "i < AIXOS_CFG_MAX_MUTEX" "h = HeldMutexes (mutex_owner i s)" "mutex_owner i s \<noteq> 0"
    "mx_handle (mutex_pool s ! i) \<noteq> 0" "lists (k_ls s) (MutexWait i) \<noteq> None"
    "mx_owner (mutex_pool s ! i) \<noteq> AIXOS_HANDLE_INVALID"
  using assms unfolding mutexes_ok_def by blast+

lemma mutex_owner_eq: "mutex_owner i s = aixos_tcb_from_handle (mx_owner (mutex_pool s ! i)) s"
  by (simp add: mutex_owner_def)

lemma tcb_from_handle_obj: "k_obj s' = k_obj s \<Longrightarrow> aixos_tcb_from_handle g s' = aixos_tcb_from_handle g s"
  by (simp add: aixos_tcb_from_handle_def lookup_cong[of s' s])

lemma set_mutex_fields [simp]:
  "k_ls (set_mutex i x s) = k_ls s" "tcbs (set_mutex i x s) = tcbs s" "cur_task (set_mutex i x s) = cur_task s"
  "k_obj (set_mutex i x s) = k_obj s" "mutex_pool (set_mutex i x s) = (mutex_pool s)[i := x]"
  "in_isr (set_mutex i x s) = in_isr s" "ready_bitmap (set_mutex i x s) = ready_bitmap s"
  "system_running (set_mutex i x s) = system_running s"
  by (simp_all add: set_mutex_def in_isr_def)

lemma kinvx_set_mutex: "kinvx X (set_mutex i x s) \<longleftrightarrow> kinvx X s"
  by (rule kinvx_cong) simp_all

text \<open>An entry may change when it keeps its handle, and its owner unless nobody holds it.\<close>

lemma set_mutex_ok:
  assumes ok: "kernel_ok s" and x: "mx_handle x = mx_handle (mutex_pool s ! i)"
    and ow: "(\<exists>h. nstat (k_ls s) (OwnerN i) = NIn h) \<Longrightarrow> mx_owner x = mx_owner (mutex_pool s ! i)"
  shows "kernel_ok (set_mutex i x s)"
proof (rule kernel_ok_mutex[OF ok, where mp = "(mutex_pool s)[i := x]"])
  let ?s = "set_mutex i x s"
  note m = objects_okD(8)[OF kernel_okD(2)[OF ok]]
  have hd: "mx_handle (mutex_pool ?s ! j) = mx_handle (mutex_pool s ! j)" for j
    using x by (cases "i < length (mutex_pool s)") (auto simp: nth_list_update list_update_beyond)
  then show "mx_handle ((mutex_pool s)[i := x] ! j) = mx_handle (mutex_pool s ! j)" for j by simp
  have od: "mx_owner (mutex_pool ?s ! j) = mx_owner (mutex_pool s ! j)" if "nstat (k_ls s) (OwnerN j) = NIn h" for j h
    using ow that by (cases "i < length (mutex_pool s)") (auto simp: nth_list_update list_update_beyond)
  have mo: "mutex_owner j ?s = mutex_owner j s" if "nstat (k_ls s) (OwnerN j) = NIn h" for j h
    using od[OF that] by (simp add: mutex_owner_eq tcb_from_handle_obj[of ?s s])
  show "mutexes_ok ?s"
    unfolding mutexes_ok_def hd
  proof (intro conjI allI impI)
    fix j h assume "nstat (k_ls ?s) (OwnerN j) = NIn h"
    then have n: "nstat (k_ls s) (OwnerN j) = NIn h" by simp
    note d = mutexes_okD[OF m n]
    show "j < AIXOS_CFG_MAX_MUTEX" "h = HeldMutexes (mutex_owner j ?s)" "mutex_owner j ?s \<noteq> 0"
      "mx_handle (mutex_pool s ! j) \<noteq> 0" "lists (k_ls ?s) (MutexWait j) \<noteq> None"
      "mx_owner (mutex_pool ?s ! j) \<noteq> AIXOS_HANDLE_INVALID"
      using d mo[OF n] od[OF n] by simp_all
  next
    fix j assume "j < AIXOS_CFG_MAX_MUTEX" "mx_handle (mutex_pool s ! j) \<noteq> 0"
    then show "nstat (k_ls ?s) (OwnerN j) \<noteq> NNull" using m unfolding mutexes_ok_def by simp
  qed
  show "?s = s\<lparr>mutex_pool := (mutex_pool s)[i := x], k_ls := k_ls ?s\<rparr>" by (simp add: set_mutex_def)
qed (use kernel_okD(1)[OF ok] in \<open>simp_all add: kinvx_set_mutex\<close>)

text \<open>Giving a mutex that nobody holds to the task at \<open>a\<close>.\<close>

definition give_mutex :: "nat \<Rightarrow> u32 \<Rightarrow> aixos_handle_t \<Rightarrow> kstate \<Rightarrow> kstate option" where
  "give_mutex i a h s = on_ls (list_add_tail (OwnerN i) (HeldMutexes a))
     (set_mutex i ((mutex_pool s ! i)\<lparr>mx_owner := h, mx_lock_count := 1\<rparr>) s)"

lemma give_mutex_keeps:
  assumes ok: "kernel_ok s" and i: "i < AIXOS_CFG_MAX_MUTEX" "mx_handle (mutex_pool s ! i) \<noteq> 0"
      "lists (k_ls s) (MutexWait i) \<noteq> None" and N: "nstat (k_ls s) (OwnerN i) = NSelf"
    and t: "tcbs s a = Some t" "t_state t \<noteq> AIXOS_TASK_STOP"
  shows "returns (give_mutex i a (t_handle t) s) (\<lambda>s'. kernel_ok s' \<and>
    s' = s\<lparr>mutex_pool := (mutex_pool s)[i := (mutex_pool s ! i)\<lparr>mx_owner := t_handle t, mx_lock_count := 1\<rparr>],
      k_ls := k_ls s'\<rparr> \<and>
    nstat (k_ls s') = (nstat (k_ls s))(OwnerN i := NIn (HeldMutexes a)) \<and>
    (\<forall>h. h \<noteq> HeldMutexes a \<longrightarrow> lists (k_ls s') h = lists (k_ls s) h))"
proof -
  let ?x = "(mutex_pool s ! i)\<lparr>mx_owner := t_handle t, mx_lock_count := 1\<rparr>"
  let ?s1 = "set_mutex i ?x s"
  note o = objects_okD[OF kernel_okD(2)[OF ok]] and inv = kernel_okD(1)[OF ok]
  have inv1: "kinvx {} ?s1" using inv by (simp add: kinvx_set_mutex)
  obtain xs where xs: "lists (k_ls s) (HeldMutexes a) = Some xs" using nodes_okD(2)[OF kinvxD(4)[OF inv t(1)]] by blast
  have nl: "\<not> linked (OwnerN i) (k_ls s)" using N by (simp add: linked_def)
  define ls where "ls = (k_ls s)\<lparr>lists := (lists (k_ls s))(HeldMutexes a \<mapsto> xs @ [OwnerN i]),
    nstat := (nstat (k_ls s))(OwnerN i := NIn (HeldMutexes a))\<rparr>"
  have add: "list_add_tail (OwnerN i) (HeldMutexes a) (k_ls s) = Some ls"
    using xs nl by (simp add: list_add_tail_def ls_def)
  let ?s2 = "?s1\<lparr>k_ls := ls\<rparr>"
  have inv2: "kinvx {} ?s2"
    by (rule kinvx_node[OF inv1 list_add_tail_lwf[OF add kinvx_lwf[OF inv]]])
      (use xs in \<open>auto simp: same_heads_def ls_def node_may_be_def\<close>)
  have len: "i < length (mutex_pool s)" using o(3) i(1) by simp
  have m2: "mutex_pool ?s2 = (mutex_pool s)[i := ?x]" by simp
  have own: "mutex_owner j ?s2 = (if j = i then a else mutex_owner j s)" for j
    using len tcb_from_own_handle[OF o(1) t]
    by (simp add: mutex_owner_eq m2 nth_list_update tcb_from_handle_obj[of ?s2 s])
  have mx: "mutexes_ok ?s2"
    unfolding mutexes_ok_def
  proof (intro conjI allI impI)
    fix j h assume n: "nstat (k_ls ?s2) (OwnerN j) = NIn h"
    have "j < AIXOS_CFG_MAX_MUTEX \<and> h = HeldMutexes (mutex_owner j ?s2) \<and> mutex_owner j ?s2 \<noteq> 0 \<and>
      mx_handle (mutex_pool ?s2 ! j) \<noteq> 0 \<and> lists (k_ls ?s2) (MutexWait j) \<noteq> None \<and>
      mx_owner (mutex_pool ?s2 ! j) \<noteq> AIXOS_HANDLE_INVALID"
    proof (cases "j = i")
      case True
      then show ?thesis
        using n i len own nodes_okD(1)[OF kinvxD(4)[OF inv t(1)]] tasks_okD(3)[OF o(1) t] by (auto simp: ls_def)
    next
      case False
      then have "nstat (k_ls s) (OwnerN j) = NIn h" using n by (simp add: ls_def)
      note d = mutexes_okD[OF o(8) this]
      show ?thesis using d False own[of j] len by (auto simp: ls_def)
    qed
    then show "j < AIXOS_CFG_MAX_MUTEX" "h = HeldMutexes (mutex_owner j ?s2)" "mutex_owner j ?s2 \<noteq> 0"
      "mx_handle (mutex_pool ?s2 ! j) \<noteq> 0" "lists (k_ls ?s2) (MutexWait j) \<noteq> None"
      "mx_owner (mutex_pool ?s2 ! j) \<noteq> AIXOS_HANDLE_INVALID" by blast+
  next
    fix j assume "j < AIXOS_CFG_MAX_MUTEX" "mx_handle (mutex_pool ?s2 ! j) \<noteq> 0"
    then show "nstat (k_ls ?s2) (OwnerN j) \<noteq> NNull"
      using o(8) len unfolding mutexes_ok_def by (auto simp: ls_def nth_list_update split: if_splits)
  qed
  have "kernel_ok ?s2"
  proof (rule kernel_ok_mutex[OF ok inv2, where mp = "(mutex_pool s)[i := ?x]"])
    show "mx_handle ((mutex_pool s)[i := ?x] ! j) = mx_handle (mutex_pool s ! j)" for j
      using len by (simp add: nth_list_update)
  qed (use mx xs in \<open>auto simp: set_mutex_def ls_def\<close>)
  then show ?thesis using add by (simp add: give_mutex_def on_ls_def set_mutex_def) (simp add: ls_def)
qed

text \<open>Taking it off the list of its owner.\<close>

lemma unlink_owner_keeps:
  assumes ok: "kernel_ok s" and n: "nstat (k_ls s) (OwnerN i) \<noteq> NNull"
  shows "returns (unlink_node (OwnerN i) s) (\<lambda>s'. kernel_ok s' \<and> s' = s\<lparr>k_ls := k_ls s'\<rparr> \<and>
    nstat (k_ls s') = (nstat (k_ls s))(OwnerN i := NSelf) \<and>
    (\<forall>h. (\<forall>a. h \<noteq> HeldMutexes a) \<longrightarrow> lists (k_ls s') h = lists (k_ls s) h))"
proof -
  note o = objects_okD[OF kernel_okD(2)[OF ok]] and inv = kernel_okD(1)[OF ok]
  obtain s' where s': "unlink_node (OwnerN i) s = Some s'" "kinvx {} s'" "s' = s\<lparr>k_ls := k_ls s'\<rparr>"
    "nstat (k_ls s') = (nstat (k_ls s))(OwnerN i := NSelf)"
    "\<forall>h. lists (k_ls s') h = (if nstat (k_ls s) (OwnerN i) = NIn h then map_option (remove1 (OwnerN i)) (lists (k_ls s) h)
        else lists (k_ls s) h)"
    using unlink_node_kinv[OF inv n] by (auto simp: node_may_be_def returns_iff)
  have e: "k_obj s' = k_obj s" "mutex_pool s' = mutex_pool s" by (subst s'(3), simp)+
  have mo: "mutex_owner j s' = mutex_owner j s" for j by (rule mutex_owner_cong[OF e])
  have Ln: "lists (k_ls s') h = None \<longleftrightarrow> lists (k_ls s) h = None" for h using s'(5) by simp
  have mx: "mutexes_ok s'"
    using o(8) unfolding mutexes_ok_def mo e Ln s'(4) by (auto split: if_splits)
  have "kernel_ok s'"
    by (rule kernel_ok_mutex[OF ok s'(2), where mp = "mutex_pool s"]) (use s' Ln mx in auto)
  moreover have "lists (k_ls s') h = lists (k_ls s) h" if "\<forall>a. h \<noteq> HeldMutexes a" for h
    using s'(5) kinvx_fits[OF inv, of "OwnerN i" h] that by auto
  ultimately show ?thesis using s' by simp
qed

section \<open>Locking and unlocking\<close>

lemma mutex_free_node:
  assumes ok: "kernel_ok s" and i: "mutex_from_handle g s = Some i" and w: "mx_owner (mutex_pool s ! i) = AIXOS_HANDLE_INVALID"
  shows "nstat (k_ls s) (OwnerN i) = NSelf"
  using mutexes_okD(6)[OF objects_okD(8)[OF kernel_okD(2)[OF ok]], of i] mutex_entry(6)[OF ok i] w
  by (cases "nstat (k_ls s) (OwnerN i)") auto

lemma mutex_lock_keeps:
  assumes ok: "kernel_ok s" and cb: "in_isr s \<or> can_block s"
  shows "keeps_ok (aixos_mutex_lock g tmo s)"
proof (cases "in_isr s \<or> cur_task s = 0 \<or> mutex_from_handle g s = None")
  case True
  then show ?thesis using ok by (auto simp: aixos_mutex_lock_def Let_def)
next
  case False
  then obtain i where i: "mutex_from_handle g s = Some i" by auto
  obtain t where t: "tcbs s (cur_task s) = Some t" "t_state t \<noteq> AIXOS_TASK_STOP" using current_live[OF ok] cb False by blast
  note e = mutex_entry[OF ok i]
  let ?x = "mutex_pool s ! i"
  show ?thesis
  proof (cases "mx_owner ?x = AIXOS_HANDLE_INVALID")
    case True
    have "returns (give_mutex i (cur_task s) (t_handle t) s) kernel_ok"
      by (rule returns_mono[OF give_mutex_keeps[OF ok e(1) _ e(5) mutex_free_node[OF ok i True] t]]) (use e in auto)
    then show ?thesis using False i t True by (simp add: aixos_mutex_lock_def give_mutex_def Let_def)
  next
    case held: False
    have b: "keeps_ok (aixos_task_block_current (Some (MutexWait i)) (KMutex i) AIXOS_OBJ_MUTEX tmo s)"
      by (rule returns_mono[OF block_kinv[OF kernel_okD(1)[OF ok] kernel_okD(3)[OF ok] cb]])
        (use e kernel_okI_frame[OF ok] in \<open>auto simp: mutex_of_def\<close>)
    have "kernel_ok (set_mutex i (?x\<lparr>mx_lock_count := mx_lock_count ?x + 1\<rparr>) s)"
      by (rule set_mutex_ok[OF ok]) simp_all
    then show ?thesis using False i t held b ok by (simp add: aixos_mutex_lock_def Let_def)
  qed
qed

text \<open>After the last unlock: the mutex is free when nobody waits, and otherwise belongs to the first
  waiter, which is ready.\<close>

definition handed_over :: "nat \<Rightarrow> kstate \<Rightarrow> kstate \<Rightarrow> bool" where
  "handed_over i s s' \<longleftrightarrow>
     (if head_empty (MutexWait i) s
      then mx_owner (mutex_pool s' ! i) = AIXOS_HANDLE_INVALID \<and> nstat (k_ls s') (OwnerN i) = NSelf
      else \<exists>a n. first_task (MutexWait i) s = Some a \<and> tcbs s a = Some n \<and>
             mx_owner (mutex_pool s' ! i) = t_handle n \<and> mx_lock_count (mutex_pool s' ! i) = 1 \<and>
             nstat (k_ls s') (OwnerN i) = NIn (HeldMutexes a) \<and> woken a AIXOS_OK s s')"

lemma hand_over_keeps:
  assumes ok: "kernel_ok s" and i: "i < AIXOS_CFG_MAX_MUTEX" "mx_handle (mutex_pool s ! i) \<noteq> 0"
      "lists (k_ls s) (MutexWait i) \<noteq> None" and n: "nstat (k_ls s) (OwnerN i) \<noteq> NNull"
  shows "returns (mutex_hand_over i s) (\<lambda>s'. kernel_ok s' \<and> handed_over i s s' \<and>
    (\<forall>b. tcbs s' b = None \<longleftrightarrow> tcbs s b = None))"
proof -
  obtain s1 where s1: "unlink_node (OwnerN i) s = Some s1" "kernel_ok s1" "s1 = s\<lparr>k_ls := k_ls s1\<rparr>"
    "nstat (k_ls s1) = (nstat (k_ls s))(OwnerN i := NSelf)"
    "\<forall>h. (\<forall>a. h \<noteq> HeldMutexes a) \<longrightarrow> lists (k_ls s1) h = lists (k_ls s) h"
    using unlink_owner_keeps[OF ok n] by (auto simp: returns_iff)
  have e1: "mutex_pool s1 = mutex_pool s" "tcbs s1 = tcbs s" by (subst s1(3), simp)+
  have W: "lists (k_ls s1) (MutexWait i) = lists (k_ls s) (MutexWait i)" using s1(5) by simp
  then have he: "head_empty (MutexWait i) s1 \<longleftrightarrow> head_empty (MutexWait i) s"
    "first_task (MutexWait i) s1 = first_task (MutexWait i) s"
    by (simp_all add: head_empty_Some first_task_def list_first_def)
  have ns: "nstat (k_ls s1) (OwnerN i) = NSelf" using s1(4) by simp
  have len: "i < length (mutex_pool s)" using objects_okD(3)[OF kernel_okD(2)[OF ok]] i(1) by simp
  show ?thesis
  proof (cases "head_empty (MutexWait i) s")
    case True
    have "kernel_ok (set_mutex i ((mutex_pool s1 ! i)\<lparr>mx_owner := AIXOS_HANDLE_INVALID\<rparr>) s1)"
      by (rule set_mutex_ok[OF s1(2)]) (simp_all add: ns)
    then show ?thesis using True s1(1) he len e1 ns by (simp add: mutex_hand_over_def handed_over_def)
  next
    case False
    obtain a t where a: "first_task (MutexWait i) s = Some a" "tcbs s a = Some t" "a \<noteq> 0"
      "nstat (k_ls s) (WaitN a) = NIn (MutexWait i)" "waiting_state (t_state t)"
      using first_waiter[OF kernel_okD(1)[OF ok] False i(3)] by auto
    have st: "t_state t \<noteq> AIXOS_TASK_STOP" using a(5) by auto
    have t1: "tcbs s1 a = Some t" using a(2) e1(2) by simp
    have hi: "mx_handle (mutex_pool s1 ! i) \<noteq> 0" "lists (k_ls s1) (MutexWait i) \<noteq> None" using i(2,3) e1(1) W by simp_all
    obtain s2 where s2: "give_mutex i a (t_handle t) s1 = Some s2" "kernel_ok s2"
      "s2 = s1\<lparr>mutex_pool := (mutex_pool s1)[i := (mutex_pool s1 ! i)\<lparr>mx_owner := t_handle t, mx_lock_count := 1\<rparr>],
          k_ls := k_ls s2\<rparr>"
      "nstat (k_ls s2) = (nstat (k_ls s1))(OwnerN i := NIn (HeldMutexes a))"
      using give_mutex_keeps[OF s1(2) i(1) hi ns t1 st] by (auto simp: returns_iff)
    have e2: "tcbs s2 = tcbs s" "mutex_pool s2 = (mutex_pool s)[i := (mutex_pool s ! i)\<lparr>mx_owner := t_handle t, mx_lock_count := 1\<rparr>]"
      by (subst s2(3), simp add: e1)+
    have a2: "a = 0 \<or> tcbs s2 a \<noteq> None" "is_waiting a s2" using e2(1) a(2,5) by (simp_all add: is_waiting_def)
    obtain s3 where s3: "aixos_task_wake a AIXOS_OK s2 = Some s3" "kinvx {} s3" "wake_frame a s2 s3" "woken a AIXOS_OK s2 s3"
      using wake_kinv[OF kernel_okD(1)[OF s2(2)] kernel_okD(3)[OF s2(2)] a2(1), of AIXOS_OK] a2(2) by (auto simp: returns_iff)
    note f = wake_frameD(1)[OF s3(3)]
    have "kernel_ok s3" by (rule kernel_okI_frame[OF s2(2) f s3(2)])
    moreover have "handed_over i s s3"
    proof -
      have "mutex_pool s3 = mutex_pool s2" by (rule frame_rest(5)[OF f])
      moreover have "nstat (k_ls s3) (OwnerN i) = nstat (k_ls s2) (OwnerN i)" by (rule wake_frameD(2)[OF s3(3)]) auto
      moreover have "woken a AIXOS_OK s s3" using s3(4) by (simp add: woken_def e2(1))
      ultimately show ?thesis using False a s2(4) e2(2) len by (simp add: handed_over_def)
    qed
    ultimately show ?thesis
      using False s1(1) he a(1) t1 s2(1) s3(1) sched_frameD(7)[OF f] e2(1)
      by (simp add: mutex_hand_over_def give_mutex_def)
  qed
qed

lemma recompute_keeps:
  assumes ok: "kernel_ok s" and a: "a = 0 \<or> tcbs s a \<noteq> None"
  shows "returns (recompute a s) (\<lambda>s'. kernel_ok s' \<and> rc_frame s s')"
  by (rule returns_mono[OF recompute_kinv[OF kernel_okD(1)[OF ok] kernel_okD(3)[OF ok] _ a]])
    (use kernel_okI_frame[OF ok] rc_frameD(1) in auto)

lemma mutex_unlock_keeps:
  assumes ok: "kernel_ok s"
  shows "keeps_ok (aixos_mutex_unlock g s)"
proof (cases "in_isr s \<or> cur_task s = 0 \<or> mutex_from_handle g s = None")
  case True
  then show ?thesis using ok by (auto simp: aixos_mutex_unlock_def Let_def)
next
  case False
  then obtain i where i: "mutex_from_handle g s = Some i" by auto
  obtain t where t: "tcbs s (cur_task s) = Some t" using kinvxD(6)[OF kernel_okD(1)[OF ok]] False by blast
  note e = mutex_entry[OF ok i]
  let ?x = "mutex_pool s ! i"
  let ?s1 = "set_mutex i (?x\<lparr>mx_lock_count := mx_lock_count ?x - 1\<rparr>) s"
  have k1: "kernel_ok ?s1" by (rule set_mutex_ok[OF ok]) simp_all
  have h1: "mx_handle (mutex_pool ?s1 ! i) \<noteq> 0" using e(2-4) by simp
  have "returns (mutex_hand_over i ?s1) (\<lambda>s'. kernel_ok s' \<and> (\<forall>b. tcbs s' b = None \<longleftrightarrow> tcbs ?s1 b = None))"
    by (rule returns_mono[OF hand_over_keeps[OF k1 e(1) h1]]) (use e in auto)
  then obtain s2 where s2: "mutex_hand_over i ?s1 = Some s2" "kernel_ok s2" "\<forall>b. tcbs s2 b = None \<longleftrightarrow> tcbs ?s1 b = None"
    by (auto simp: returns_iff)
  have "returns (recompute (cur_task s) s2) kernel_ok"
    by (rule returns_mono[OF recompute_keeps[OF s2(2)]]) (use s2(3) t in auto)
  then show ?thesis
    using False i t ok k1 s2(1) by (auto simp: aixos_mutex_unlock_def Let_def returns_iff)
qed

section \<open>Creation and deletion\<close>

text \<open>The owner node of an entry that is initialised, and of one that is cleared.\<close>

lemma owner_node_kinv:
  assumes inv: "kinvx X s" and nl: "\<not> linked (OwnerN i) (k_ls s)" and st: "st = NSelf \<or> st = NNull"
  shows "kinvx X (s\<lparr>k_ls := (k_ls s)\<lparr>nstat := (nstat (k_ls s))(OwnerN i := st)\<rparr>\<rparr>)"
  by (rule kinvx_node[OF inv set_nstat_lwf[OF kinvx_lwf[OF inv] nl], where n = "OwnerN i" and st = st])
    (use st in \<open>auto simp: same_heads_def node_may_be_def\<close>)

lemma mutex_create_keeps:
  assumes ok: "kernel_ok s"
  shows "keeps_ok (aixos_mutex_create s)"
proof (cases "in_isr s \<or> find_index (\<lambda>x. mx_handle x = 0) (mutex_pool s) 0 = None")
  case True
  then show ?thesis using ok by (auto simp: aixos_mutex_create_def)
next
  case False
  note o = objects_okD[OF kernel_okD(2)[OF ok]]
  obtain i where i: "find_index (\<lambda>x. mx_handle x = 0) (mutex_pool s) 0 = Some i" using False by auto
  note i' = free_entry[OF i o(3)]
  have pre: "type_to_pool_id AIXOS_OBJ_MUTEX = AIXOS_POOL_MUTEX" "0 < AIXOS_POOL_MUTEX" "KMutex i \<noteq> KNull" by simp_all
  show ?thesis
  proof (cases rule: claim_cases[OF ok pre, case_names full claimed])
    case (full j os)
    then show ?thesis using False i by (simp add: aixos_mutex_create_def)
  next
    case (claimed j os h)
    let ?x = "\<lparr>mx_owner = AIXOS_HANDLE_INVALID, mx_lock_count = 0, mx_handle = h\<rparr>"
    define s2 where "s2 = set_mutex i ?x (s\<lparr>k_obj := os\<rparr>)"
    have l2: "k_ls s2 = k_ls s" by (simp add: s2_def)
    have inv2: "kinvx {} s2" using kinvx_cong[of s2 s] kernel_okD(1)[OF ok] by (simp add: s2_def set_mutex_def)
    have N: "lists (k_ls s2) (MutexWait i) = None" using table_free[OF conjunct2[OF o(3)] i'] by (simp add: l2)
    note c = init_head_kinv[OF inv2 _ N, simplified plain_head_def, simplified]
    define s3 where "s3 = s2\<lparr>k_ls := (k_ls s2)\<lparr>lists := (lists (k_ls s2))(MutexWait i \<mapsto> [])\<rparr>\<rparr>"
    have nh: "nstat (k_ls s) (OwnerN i) \<noteq> NIn g" for g using mutexes_okD(4)[OF o(8), of i g] i'(2) by auto
    then have nl: "\<not> linked (OwnerN i) (k_ls s3)" by (auto simp: linked_def s3_def l2 split: nstate.splits)
    define s4 where "s4 = s3\<lparr>k_ls := (k_ls s3)\<lparr>nstat := (nstat (k_ls s3))(OwnerN i := NSelf)\<rparr>\<rparr>"
    have inv4: "kinvx {} s4" unfolding s4_def by (rule owner_node_kinv[OF _ nl]) (use c in \<open>simp_all add: s3_def\<close>)
    have e4: "s4 = s\<lparr>k_obj := os, mutex_pool := (mutex_pool s)[i := ?x],
        k_ls := (k_ls s)\<lparr>lists := (lists (k_ls s))(MutexWait i \<mapsto> []), nstat := (nstat (k_ls s))(OwnerN i := NSelf)\<rparr>\<rparr>"
      by (rule kstate.equality) (simp_all add: s4_def s3_def s2_def set_mutex_def)
    have lk: "k_lookup g ty' s4 = (if g = h \<and> ty' = AIXOS_OBJ_MUTEX then KMutex i else k_lookup g ty' s)" for g ty'
      by (rule claimed(6)) (simp add: e4)
    have th: "aixos_tcb_from_handle g s4 = aixos_tcb_from_handle g s" for g by (simp add: aixos_tcb_from_handle_def lk)
    have mo: "mutex_owner k s4 = mutex_owner k s" if "k \<noteq> i" for k
      unfolding mutex_owner_eq th using that by (simp add: e4)
    have mx: "mutexes_ok s4"
      unfolding mutexes_ok_def
    proof (intro conjI allI impI)
      fix k g assume n: "nstat (k_ls s4) (OwnerN k) = NIn g"
      then have k: "k \<noteq> i" by (auto simp: e4)
      then have "nstat (k_ls s) (OwnerN k) = NIn g" using n by (simp add: e4)
      note d = mutexes_okD[OF o(8) this]
      show "k < AIXOS_CFG_MAX_MUTEX" "g = HeldMutexes (mutex_owner k s4)" "mutex_owner k s4 \<noteq> 0"
        "mx_handle (mutex_pool s4 ! k) \<noteq> 0" "lists (k_ls s4) (MutexWait k) \<noteq> None"
        "mx_owner (mutex_pool s4 ! k) \<noteq> AIXOS_HANDLE_INVALID"
        using d k mo[OF k] by (simp_all add: e4)
    next
      fix k assume "k < AIXOS_CFG_MAX_MUTEX" "mx_handle (mutex_pool s4 ! k) \<noteq> 0"
      then show "nstat (k_ls s4) (OwnerN k) \<noteq> NNull"
        using o(8) unfolding mutexes_ok_def by (cases "k = i") (auto simp: e4)
    qed
    have "kernel_ok s4"
    proof (rule pool_step_ok[OF ok, of AIXOS_OBJ_MUTEX])
      show "pool_step AIXOS_OBJ_MUTEX s s4" unfolding pool_step_def using claimed(3) lk by (auto simp: e4)
      have "mutex_table s4"
        by (rule conjI, use o(3) in \<open>simp add: e4\<close>, rule table_ok_insert[OF conjunct2[OF o(3)] i' claimed(5)])
          (use o(3) i' lk lookup_zero[OF tasks_okD(1)[OF o(1)]] in \<open>auto simp: e4\<close>)
      then show "mutex_table s4 \<and> mutexes_ok s4" using mx by blast
    qed (use inv4 in simp_all)
    moreover have "on_ls (list_init_node (OwnerN i)) s3 = Some s4" using nl by (simp add: on_ls_def list_init_node_def s4_def)
    ultimately show ?thesis
      using False i claimed(1,2,4) c
      by (simp add: aixos_mutex_create_def s2_def[symmetric] s3_def[symmetric] del: returns_on_ls)
  qed
qed

text \<open>Recomputing a priority moves waiters inside their queues, but none in or out.\<close>

lemma rc_frame_empty:
  assumes inv: "kinvx X s" "kinvx Y s'" and f: "rc_frame s s'" and h: "is_wait_head h" and e: "lists (k_ls s) h = Some []"
  shows "lists (k_ls s') h = Some []"
proof (cases "lists (k_ls s') h")
  case None
  then show ?thesis using sched_frameD(6)[OF rc_frameD(1)[OF f], of h] e by simp
next
  case (Some xs)
  have "n \<notin> set xs" for n
  proof
    assume n: "n \<in> set xs"
    note m = kinvx_members[OF inv(2) Some n]
    obtain a where "n = WaitN a" using fits_wait[OF h m(2)] by blast
    then have "nstat (k_ls s) n = NIn h" using rc_frameD(2)[OF f, of n] m(1) by simp
    then show False using kinvx_in_list[OF inv(1)] e by fastforce
  qed
  then have "xs = []" by (cases xs) auto
  then show ?thesis using Some by simp
qed

text \<open>The first part of a deletion: a mutex that is held is taken off its owner's list.\<close>

definition mutex_disown :: "nat \<Rightarrow> kstate \<Rightarrow> kstate option" where
  "mutex_disown i s =
     (if mx_owner (mutex_pool s ! i) \<noteq> AIXOS_HANDLE_INVALID
      then let owner = mutex_owner i s
           in if owner \<noteq> 0 \<and> nstatus (OwnerN i) s \<noteq> NSelf
              then do { s \<leftarrow> unlink_node (OwnerN i) s; recompute owner s }
              else Some s
      else Some s)"

lemma mutex_disown_keeps:
  assumes ok: "kernel_ok s" and n: "nstat (k_ls s) (OwnerN i) \<noteq> NNull" and e: "lists (k_ls s) (MutexWait i) = Some []"
  shows "returns (mutex_disown i s) (\<lambda>s'. kernel_ok s' \<and> nstat (k_ls s') (OwnerN i) = NSelf \<and>
    lists (k_ls s') (MutexWait i) = Some [] \<and> sched_rest s' = sched_rest s)"
proof -
  note mx = objects_okD(8)[OF kernel_okD(2)[OF ok]]
  show ?thesis
  proof (cases "mx_owner (mutex_pool s ! i) \<noteq> AIXOS_HANDLE_INVALID \<and> mutex_owner i s \<noteq> 0 \<and> nstatus (OwnerN i) s \<noteq> NSelf")
    case True
    obtain s1 where s1: "unlink_node (OwnerN i) s = Some s1" "kernel_ok s1" "s1 = s\<lparr>k_ls := k_ls s1\<rparr>"
      "nstat (k_ls s1) = (nstat (k_ls s))(OwnerN i := NSelf)"
      "\<forall>h. (\<forall>a. h \<noteq> HeldMutexes a) \<longrightarrow> lists (k_ls s1) h = lists (k_ls s) h"
      using unlink_owner_keeps[OF ok n] by (auto simp: returns_iff)
    have r1: "sched_rest s1 = sched_rest s" "tcbs s1 = tcbs s" by (subst s1(3), simp)+
    have t: "mutex_owner i s = 0 \<or> tcbs s1 (mutex_owner i s) \<noteq> None"
      using tcb_from_handle_live[OF objects_okD(1)[OF kernel_okD(2)[OF ok]]] r1(2) by (fastforce simp: mutex_owner_eq)
    obtain s2 where s2: "recompute (mutex_owner i s) s1 = Some s2" "kernel_ok s2" "rc_frame s1 s2"
      using recompute_keeps[OF s1(2) t] by (auto simp: returns_iff)
    have "nstat (k_ls s2) (OwnerN i) = NSelf" using rc_frameD(2)[OF s2(3), of "OwnerN i"] s1(4) by simp
    moreover have "lists (k_ls s2) (MutexWait i) = Some []"
      by (rule rc_frame_empty[OF kernel_okD(1)[OF s1(2)] kernel_okD(1)[OF s2(2)] s2(3)]) (use s1(5) e in auto)
    moreover have "sched_rest s2 = sched_rest s" using sched_frameD(1)[OF rc_frameD(1)[OF s2(3)]] r1(1) by simp
    ultimately show ?thesis using True s1(1) s2(1,2) by (simp add: mutex_disown_def Let_def)
  next
    case False
    then have "nstat (k_ls s) (OwnerN i) = NSelf"
      using n mutexes_okD(3,6)[OF mx, of i] by (cases "nstat (k_ls s) (OwnerN i)") (auto simp: nstatus_def)
    then show ?thesis using False ok e by (auto simp: mutex_disown_def Let_def)
  qed
qed

lemma mutex_clear_keeps:
  assumes ok: "kernel_ok s" and i: "mutex_from_handle g s = Some i"
    and n: "nstat (k_ls s) (OwnerN i) = NSelf" and e: "lists (k_ls s) (MutexWait i) = Some []"
  shows "keeps_ok (do {
     s \<leftarrow> Some (k_slot_free AIXOS_POOL_MUTEX g s);
     s \<leftarrow> Some (set_mutex i zero_mutex s);
     s \<leftarrow> on_ls (list_zero_head (MutexWait i)) s;
     s \<leftarrow> on_ls (list_zero_node (OwnerN i)) s;
     Some (r, s) })"
proof -
  note o = objects_okD[OF kernel_okD(2)[OF ok]] and en = mutex_entry[OF ok i]
  note lk0 = en(7)
  note f = release_effect[OF ok, of AIXOS_OBJ_MUTEX AIXOS_POOL_MUTEX g, simplified lk0, simplified]
  define s2 where "s2 = set_mutex i zero_mutex (k_slot_free AIXOS_POOL_MUTEX g s)"
  have e2: "k_obj s2 = k_obj (k_slot_free AIXOS_POOL_MUTEX g s)" "k_ls s2 = k_ls s" by (simp_all add: s2_def k_slot_free_def)
  have inv2: "kinvx {} s2" using kinvx_cong[of s2 s] kernel_okD(1)[OF ok] by (simp add: s2_def set_mutex_def k_slot_free_def)
  have N: "lists (k_ls s2) (MutexWait i) = Some []" using e e2 by simp
  note c = zero_head_kinv[OF inv2 _ N, simplified plain_head_def, simplified]
  define s3 where "s3 = s2\<lparr>k_ls := (k_ls s2)\<lparr>lists := (lists (k_ls s2))(MutexWait i := None)\<rparr>\<rparr>"
  have nl: "\<not> linked (OwnerN i) (k_ls s3)" using n by (simp add: linked_def s3_def e2)
  define s4 where "s4 = s3\<lparr>k_ls := (k_ls s3)\<lparr>nstat := (nstat (k_ls s3))(OwnerN i := NNull)\<rparr>\<rparr>"
  have inv4: "kinvx {} s4" unfolding s4_def by (rule owner_node_kinv[OF _ nl]) (use c in \<open>simp_all add: s3_def\<close>)
  have e4: "s4 = s\<lparr>k_obj := k_obj s2, mutex_pool := (mutex_pool s)[i := zero_mutex],
      k_ls := (k_ls s)\<lparr>lists := (lists (k_ls s))(MutexWait i := None), nstat := (nstat (k_ls s))(OwnerN i := NNull)\<rparr>\<rparr>"
    by (rule kstate.equality) (simp_all add: s4_def s3_def s2_def set_mutex_def k_slot_free_def)
  have lk: "k_lookup h ty' s4 = (if h = g \<and> ty' = AIXOS_OBJ_MUTEX then KNull else k_lookup h ty' s)" for h ty'
    by (rule f(2)) (simp add: e4 e2)
  have th: "aixos_tcb_from_handle h s4 = aixos_tcb_from_handle h s" for h by (simp add: aixos_tcb_from_handle_def lk)
  have mo: "mutex_owner k s4 = mutex_owner k s" if "k \<noteq> i" for k
    unfolding mutex_owner_eq th using that by (simp add: e4)
  have mx: "mutexes_ok s4"
    unfolding mutexes_ok_def
  proof (intro conjI allI impI)
    fix k h assume m: "nstat (k_ls s4) (OwnerN k) = NIn h"
    then have k: "k \<noteq> i" by (auto simp: e4)
    then have "nstat (k_ls s) (OwnerN k) = NIn h" using m by (simp add: e4)
    note d = mutexes_okD[OF o(8) this]
    show "k < AIXOS_CFG_MAX_MUTEX" "h = HeldMutexes (mutex_owner k s4)" "mutex_owner k s4 \<noteq> 0"
      "mx_handle (mutex_pool s4 ! k) \<noteq> 0" "lists (k_ls s4) (MutexWait k) \<noteq> None"
      "mx_owner (mutex_pool s4 ! k) \<noteq> AIXOS_HANDLE_INVALID"
      using d k mo[OF k] by (simp_all add: e4)
  next
    fix k assume "k < AIXOS_CFG_MAX_MUTEX" "mx_handle (mutex_pool s4 ! k) \<noteq> 0"
    then show "nstat (k_ls s4) (OwnerN k) \<noteq> NNull"
      using o(8) en(2) unfolding mutexes_ok_def by (cases "k = i") (auto simp: e4 zero_mutex_def)
  qed
  have "kernel_ok s4"
  proof (rule pool_step_ok[OF ok, of AIXOS_OBJ_MUTEX])
    show "pool_step AIXOS_OBJ_MUTEX s s4" unfolding pool_step_def using f(1) lk by (auto simp: e4 e2)
    have "mutex_table s4"
      by (rule conjI, use o(3) in \<open>simp add: e4\<close>, rule table_ok_delete[OF conjunct2[OF o(3)] lk0])
        (use o(3) en(1) lk in \<open>auto simp: e4 zero_mutex_def\<close>)
    then show "mutex_table s4 \<and> mutexes_ok s4" using mx by blast
  qed (use inv4 in simp_all)
  moreover have "on_ls (list_zero_node (OwnerN i)) s3 = Some s4" using nl by (simp add: on_ls_def list_zero_node_def s4_def)
  ultimately show ?thesis
    using c by (simp add: s2_def[symmetric] s3_def[symmetric] del: returns_on_ls)
qed

lemma mutex_delete_keeps:
  assumes ok: "kernel_ok s"
  shows "keeps_ok (aixos_mutex_delete g s)"
proof (cases "in_isr s \<or> mutex_from_handle g s = None \<or>
    (\<exists>i. mutex_from_handle g s = Some i \<and> \<not> head_empty (MutexWait i) s)")
  case True
  then show ?thesis using ok by (auto simp: aixos_mutex_delete_def split: option.splits)
next
  case False
  obtain i where i: "mutex_from_handle g s = Some i" "lists (k_ls s) (MutexWait i) = Some []"
    using False by (auto simp: head_empty_Some)
  obtain s1 where s1: "mutex_disown i s = Some s1" "kernel_ok s1" "nstat (k_ls s1) (OwnerN i) = NSelf"
    "lists (k_ls s1) (MutexWait i) = Some []" "sched_rest s1 = sched_rest s"
    using mutex_disown_keeps[OF ok mutex_entry(6)[OF ok i(1)] i(2)] by (auto simp: returns_iff)
  have i1: "mutex_from_handle g s1 = Some i" using i(1) sched_restD(1)[OF s1(5)] by (simp add: from_handle_lookup k_lookup_def)
  have "aixos_mutex_delete g s = Option.bind (mutex_disown i s) (\<lambda>s. do {
     s \<leftarrow> Some (k_slot_free AIXOS_POOL_MUTEX g s);
     s \<leftarrow> Some (set_mutex i zero_mutex s);
     s \<leftarrow> on_ls (list_zero_head (MutexWait i)) s;
     s \<leftarrow> on_ls (list_zero_node (OwnerN i)) s;
     Some (AIXOS_OK, s) })"
    using False i by (simp add: aixos_mutex_delete_def mutex_disown_def)
  then show ?thesis using mutex_clear_keeps[OF s1(2) i1 s1(3,4)] s1(1) by simp
qed

end
