(* ===== verification/Ktimer.thy ===== *)
theory Ktimer
  imports Kmutex
begin

text \<open>
  Software timers under the kernel invariant. The operations on one timer change its entry and its
  two nodes; the tick moves the expired timers to the pending queue and terminates, because a
  periodic timer gets a deadline in the future.
\<close>

section \<open>Ticks\<close>

lemma ms_to_ticks_range:
  assumes "ms \<noteq> 0" "ms \<noteq> UINT32_MAX"
  shows "0 < aixos_ms_to_ticks ms" "aixos_ms_to_ticks ms \<le> AIXOS_CFG_TIMEOUT_MAX_TICKS"
proof -
  define u where "u = (let t = (ucast ms * of_nat AIXOS_CFG_SYSTICK_HZ + 999) div 1000 :: u64 in if t = 0 \<and> ms \<noteq> 0 then 1 else t)"
  define m where "m = (ucast (AIXOS_CFG_TIMEOUT_MAX_TICKS :: u32) :: u64)"
  define v where "v = (if u > m then m else u)"
  have e: "aixos_ms_to_ticks ms = ucast v"
    using assms unfolding aixos_ms_to_ticks_def v_def m_def u_def Let_def by (simp only: if_False)
  have u0: "u \<noteq> 0" using assms by (simp add: u_def Let_def)
  have m: "unat m = 0x7FFFFFFF" by (simp add: m_def)
  have v: "unat v \<le> 0x7FFFFFFF" "v \<noteq> 0" using u0 m by (auto simp: v_def word_le_nat_alt not_less)
  have c: "unat (ucast v :: u32) = unat v" using v(1) by (simp only: unsigned_ucast_eq) (simp add: take_bit_nat_eq_self)
  have "0 < unat v" using v(2) by (simp add: unat_gt_0)
  then show "0 < aixos_ms_to_ticks ms" unfolding e word_less_nat_alt c by simp
  show "aixos_ms_to_ticks ms \<le> AIXOS_CFG_TIMEOUT_MAX_TICKS" unfolding e word_le_nat_alt c using v(1) by simp
qed

lemma deadline_algebra: "(d :: u32) + p * i - now = p * i - (now - d)"
  by simp

text \<open>The next deadline of a periodic timer is between one tick and one interval ahead.\<close>

lemma next_deadline_ahead:
  assumes "0 < interval"
  shows "0 < unat (next_deadline now deadline interval - now)"
    "unat (next_deadline now deadline interval - now) \<le> unat interval"
proof -
  define L where "L = uint (now - deadline)"
  define I where "I = uint interval"
  have I: "0 < I" unfolding I_def using assms by (simp only: word_less_def unsigned_0)
  have I2: "I < 2 ^ 32" unfolding I_def using uint_lt2p[of interval] by simp
  have L0: "0 \<le> L" unfolding L_def by (rule uint_ge_0)
  define x where "x = (L div I + 1) * I - L"
  have "L div I * I + L mod I = L" by (rule div_mult_mod_eq)
  then have xe: "x = I - L mod I" unfolding x_def distrib_right by linarith
  then have x: "0 < x" "x \<le> I" using pos_mod_bound[OF I, of L] pos_mod_sign[OF I, of L] by linarith+
  let ?l = "now - deadline"
  have "next_deadline now deadline interval - now = (?l div interval + 1) * interval - ?l"
    unfolding next_deadline_def Let_def by (rule deadline_algebra)
  also have "\<dots> = (word_of_int (L div I) + 1) * word_of_int I - word_of_int L"
    by (simp add: L_def I_def word_div_def)
  also have "\<dots> = word_of_int x" by (simp only: x_def of_int_add of_int_mult of_int_diff of_int_1)
  finally have "uint (next_deadline now deadline interval - now) = x"
    using x I2 by (simp only: uint_word_of_int_eq) (simp add: take_bit_int_eq_self)
  then show "0 < unat (next_deadline now deadline interval - now)"
    "unat (next_deadline now deadline interval - now) \<le> unat interval"
    using x unfolding I_def unat_eq_nat_uint by (simp_all only: zero_less_nat_eq nat_mono)
qed

lemma next_deadline_not_reached:
  assumes "0 < interval" "interval \<le> AIXOS_CFG_TIMEOUT_MAX_TICKS"
  shows "\<not> tick_reached now (next_deadline now deadline interval)"
proof -
  let ?d = "next_deadline now deadline interval - now"
  have b: "0 < unat ?d" "unat ?d \<le> 0x7FFFFFFF"
    using next_deadline_ahead[OF assms(1), of now deadline] assms(2) by (auto simp: word_le_nat_alt)
  define n where "n = unat ?d"
  have "now - next_deadline now deadline interval = word_of_int (- int n)" by (simp add: n_def)
  then have "sint (now - next_deadline now deadline interval) = signed_take_bit 31 (- int n)"
    by (simp only: signed_of_int) simp
  also have "\<dots> = - int n" by (rule signed_take_bit_int_eq_self) (use b in \<open>simp_all add: n_def[symmetric]\<close>)
  finally show ?thesis using b(1) by (simp add: tick_reached_def n_def[symmetric])
qed

section \<open>One timer\<close>

definition timer_frame :: "nat \<Rightarrow> kstate \<Rightarrow> kstate \<Rightarrow> bool" where
  "timer_frame i s s' \<longleftrightarrow> kinvx {} s' \<and> (\<exists>x. s' = s\<lparr>timer_pool := (timer_pool s)[i := x], k_ls := k_ls s'\<rparr>) \<and>
     (\<forall>h. h \<noteq> ActiveTimers \<and> h \<noteq> PendingTimers \<longrightarrow> lists (k_ls s') h = lists (k_ls s) h) \<and>
     (\<forall>n. n \<noteq> ActiveN i \<and> n \<noteq> PendingN i \<longrightarrow> nstat (k_ls s') n = nstat (k_ls s) n)"

lemma timer_frame_refl: "kinvx {} s \<Longrightarrow> timer_frame i s s"
  unfolding timer_frame_def by (auto intro: exI[of _ "timer_pool s ! i"])

lemma timer_frame_trans:
  assumes "timer_frame i s s'" "timer_frame i s' s''"
  shows "timer_frame i s s''"
proof -
  obtain x where x: "s' = s\<lparr>timer_pool := (timer_pool s)[i := x], k_ls := k_ls s'\<rparr>" using assms(1) by (auto simp: timer_frame_def)
  obtain y where y: "s'' = s'\<lparr>timer_pool := (timer_pool s')[i := y], k_ls := k_ls s''\<rparr>" using assms(2) by (auto simp: timer_frame_def)
  have p: "timer_pool s' = (timer_pool s)[i := x]" by (subst x, simp)
  have "s'' = s\<lparr>timer_pool := (timer_pool s)[i := y], k_ls := k_ls s''\<rparr>"
    by (subst y, unfold p, subst x) simp
  then show ?thesis using assms unfolding timer_frame_def by auto
qed

lemma timer_frameD:
  assumes "timer_frame i s s'"
  shows "kinvx {} s'" "k_obj s' = k_obj s" "tcbs s' = tcbs s" "total_ticks s' = total_ticks s" "in_isr s' = in_isr s"
    "length (timer_pool s') = length (timer_pool s)" "j \<noteq> i \<Longrightarrow> timer_pool s' ! j = timer_pool s ! j"
    "lists (k_ls s') ServiceWaiters = lists (k_ls s) ServiceWaiters"
proof -
  obtain x where x: "s' = s\<lparr>timer_pool := (timer_pool s)[i := x], k_ls := k_ls s'\<rparr>" using assms by (auto simp: timer_frame_def)
  show "k_obj s' = k_obj s" "tcbs s' = tcbs s" "total_ticks s' = total_ticks s" "in_isr s' = in_isr s"
    "length (timer_pool s') = length (timer_pool s)" "j \<noteq> i \<Longrightarrow> timer_pool s' ! j = timer_pool s ! j"
    by (subst x, simp add: in_isr_def)+
qed (use assms in \<open>simp_all add: timer_frame_def\<close>)

text \<open>The entry of a timer and its two nodes.\<close>

definition timer_entry :: "aixos_timer_inner_t \<Rightarrow> lhead nstate \<Rightarrow> lhead nstate \<Rightarrow> bool" where
  "timer_entry x a p \<longleftrightarrow> a = (if tm_active x then NIn ActiveTimers else NSelf) \<and>
     p = (if tm_pending x then NIn PendingTimers else NSelf) \<and>
     (tm_handle x = 0 \<longrightarrow> \<not> tm_active x \<and> \<not> tm_pending x) \<and>
     (tm_active x \<longrightarrow> 0 < tm_interval x \<and> tm_interval x \<le> AIXOS_CFG_TIMEOUT_MAX_TICKS)"

abbreviation (input) entry_at :: "nat \<Rightarrow> kstate \<Rightarrow> bool" where
  "entry_at i s \<equiv> timer_entry (timer_pool s ! i) (nstat (k_ls s) (ActiveN i)) (nstat (k_ls s) (PendingN i))"

lemma timers_ok_entries:
  "timers_ok s \<longleftrightarrow> (\<forall>i < AIXOS_CFG_MAX_TIMER. entry_at i s) \<and>
     (\<forall>i h. nstat (k_ls s) (ActiveN i) = NIn h \<or> nstat (k_ls s) (PendingN i) = NIn h \<longrightarrow> i < AIXOS_CFG_MAX_TIMER)"
  unfolding timers_ok_def timer_entry_def ..

lemma timer_frame_ok:
  assumes ok: "kernel_ok s" and f: "timer_frame i s s'" and i: "i < AIXOS_CFG_MAX_TIMER"
    and h: "tm_handle (timer_pool s' ! i) = tm_handle (timer_pool s ! i)" and e: "entry_at i s'"
  shows "kernel_ok s'"
proof -
  note o = objects_okD[OF kernel_okD(2)[OF ok]] and d = timer_frameD[OF f]
  obtain x where x: "s' = s\<lparr>timer_pool := (timer_pool s)[i := x], k_ls := k_ls s'\<rparr>" using f by (auto simp: timer_frame_def)
  have e': "tw_low s' = tw_low s" "tw_high s' = tw_high s" "sem_pool s' = sem_pool s" "mutex_pool s' = mutex_pool s"
    "mq_pool s' = mq_pool s" "event_pool s' = event_pool s" "pipe_pool s' = pipe_pool s" by (subst x, simp)+
  have lk: "k_lookup g ty s' = k_lookup g ty s" for g ty by (rule lookup_cong[OF d(2)])
  have hd: "tm_handle (timer_pool s' ! j) = tm_handle (timer_pool s ! j)" for j
    using h d(7)[of j] by (cases "j = i") auto
  have core: "lists (k_ls u) ActiveTimers \<noteq> None \<and> lists (k_ls u) PendingTimers \<noteq> None" if "kinvx {} u" for u
    using kinvx_core[OF that, of ActiveTimers] kinvx_core[OF that, of PendingTimers] by simp
  have L: "lists (k_ls s') g = None \<longleftrightarrow> lists (k_ls s) g = None" for g
    using f core[OF kernel_okD(1)[OF ok]] core[OF d(1)] unfolding timer_frame_def by metis
  have N: "nstat (k_ls s') n = nstat (k_ls s) n" if "n \<noteq> ActiveN i" "n \<noteq> PendingN i" for n
    using f that by (simp add: timer_frame_def)
  show ?thesis
  proof (rule pool_step_ok[OF ok, of AIXOS_OBJ_TIMER])
    have "nstat (k_ls s') n = nstat (k_ls s) n" if "node_type n = AIXOS_OBJ_MUTEX" for n
      using N[of n] that by (cases n) auto
    then show "pool_step AIXOS_OBJ_TIMER s s'"
      using L tasks_okD(1)[OF o(1)] unfolding pool_step_def lk e' d(2,3) by auto
    have "entry_at j s'" if "j < AIXOS_CFG_MAX_TIMER" for j
      using e o(9) that d(7)[of j] N by (cases "j = i") (auto simp: timers_ok_entries)
    moreover have "j < AIXOS_CFG_MAX_TIMER" if "nstat (k_ls s') (ActiveN j) = NIn g \<or> nstat (k_ls s') (PendingN j) = NIn g" for j g
      using that i o(9) N by (cases "j = i") (auto simp: timers_ok_entries)
    ultimately have "timers_ok s'" by (auto simp: timers_ok_entries)
    moreover have "timer_table s'"
      using o(7) d(6) by (auto simp: hd lk L intro: table_ok_mono)
    ultimately show "timer_table s' \<and> timers_ok s'" by blast
  qed (use d(1) in simp_all)
qed

section \<open>The steps of the operations\<close>

lemma set_timer_fields [simp]:
  "k_ls (set_timer i x s) = k_ls s" "timer_pool (set_timer i x s) = (timer_pool s)[i := x]"
  "total_ticks (set_timer i x s) = total_ticks s" "tcbs (set_timer i x s) = tcbs s" "k_obj (set_timer i x s) = k_obj s"
  by (simp_all add: set_timer_def)

lemma kinvx_set_timer: "kinvx X (set_timer i x s) \<longleftrightarrow> kinvx X s"
  by (rule kinvx_cong) (simp_all add: set_timer_def)

lemma set_timer_frame: "kinvx {} s \<Longrightarrow> timer_frame i s (set_timer i x s)"
  by (auto simp: timer_frame_def kinvx_set_timer) (auto simp: set_timer_def)

text \<open>A node of the timer, and the queue it can be in.\<close>

definition timer_node :: "nat \<Rightarrow> lnode \<Rightarrow> lhead \<Rightarrow> bool" where
  "timer_node i n h \<longleftrightarrow> n = ActiveN i \<and> h = ActiveTimers \<or> n = PendingN i \<and> h = PendingTimers"

lemma timer_node_frameI:
  assumes "kinvx {} s'" "s' = s\<lparr>k_ls := k_ls s'\<rparr>" "nstat (k_ls s') = (nstat (k_ls s))(n := st)" "timer_node i n h"
    "\<forall>g. g \<noteq> h \<longrightarrow> lists (k_ls s') g = lists (k_ls s) g"
  shows "timer_frame i s s' \<and> timer_pool s' = timer_pool s"
proof -
  have "s' = s\<lparr>timer_pool := (timer_pool s)[i := timer_pool s ! i], k_ls := k_ls s'\<rparr>" using assms(2) by simp
  then have "\<exists>x. s' = s\<lparr>timer_pool := (timer_pool s)[i := x], k_ls := k_ls s'\<rparr>" by (rule exI)
  moreover have "timer_pool s' = timer_pool s" by (subst assms(2), simp)
  ultimately show ?thesis using assms(1,3,4,5) unfolding timer_frame_def timer_node_def by auto
qed

lemma timer_unlink:
  assumes inv: "kinvx {} s" and n: "timer_node i n h" "nstat (k_ls s) n \<noteq> NNull" and xs: "lists (k_ls s) h = Some xs"
  shows "returns (unlink_node n s) (\<lambda>s'. timer_frame i s s' \<and> timer_pool s' = timer_pool s \<and>
    nstat (k_ls s') = (nstat (k_ls s))(n := NSelf) \<and>
    lists (k_ls s') = (lists (k_ls s))(h \<mapsto> (if nstat (k_ls s) n = NIn h then remove1 n xs else xs)))"
proof -
  have m: "node_may_be {} s n NSelf" using n(1) by (auto simp: timer_node_def node_may_be_def)
  obtain s' where s': "unlink_node n s = Some s'" "kinvx {} s'" "s' = s\<lparr>k_ls := k_ls s'\<rparr>"
    "nstat (k_ls s') = (nstat (k_ls s))(n := NSelf)"
    "\<forall>g. lists (k_ls s') g = (if nstat (k_ls s) n = NIn g then map_option (remove1 n) (lists (k_ls s) g) else lists (k_ls s) g)"
    using unlink_node_kinv[OF inv n(2) m] by (auto simp: returns_iff)
  have only: "nstat (k_ls s) n = NIn g \<Longrightarrow> g = h" for g using kinvx_fits[OF inv, of n g] n(1) by (auto simp: timer_node_def)
  have L: "lists (k_ls s') = (lists (k_ls s))(h \<mapsto> (if nstat (k_ls s) n = NIn h then remove1 n xs else xs))"
  proof
    fix g show "lists (k_ls s') g = ((lists (k_ls s))(h \<mapsto> (if nstat (k_ls s) n = NIn h then remove1 n xs else xs))) g"
      using s'(5)[rule_format, of g] only[of g] xs by (cases "g = h") auto
  qed
  have "timer_frame i s s' \<and> timer_pool s' = timer_pool s"
    by (rule timer_node_frameI[OF s'(2,3,4) n(1)]) (simp add: L)
  then show ?thesis using s'(1,4) L by simp
qed

lemma timer_active_insert:
  assumes inv: "kinvx {} s" and nl: "\<not> linked (ActiveN i) (k_ls s)" and xs: "lists (k_ls s) ActiveTimers = Some xs"
  shows "returns (active_insert i s) (\<lambda>s'. timer_frame i s s' \<and> timer_pool s' = timer_pool s \<and>
    nstat (k_ls s') = (nstat (k_ls s))(ActiveN i := NIn ActiveTimers) \<and>
    (\<exists>us vs. xs = us @ vs \<and> lists (k_ls s') = (lists (k_ls s))(ActiveTimers \<mapsto> us @ ActiveN i # vs)))"
proof -
  let ?P = "\<lambda>n. do { q \<leftarrow> node_object n; Some (sint (tm_deadline (timer_pool s ! i) - tm_deadline (timer_pool s ! q)) < 0) }"
  have d: "?P m \<noteq> None" if "m \<in> set xs" for m using kinvx_members(2)[OF inv xs that] by (cases m) auto
  have ok: "node_may_be {} s (ActiveN i) (NIn ActiveTimers)" by (simp add: node_may_be_def)
  obtain s' us vs where s': "active_insert i s = Some s'" "kinvx {} s'" "s' = s\<lparr>k_ls := k_ls s'\<rparr>"
    "nstat (k_ls s') = (nstat (k_ls s))(ActiveN i := NIn ActiveTimers)" "xs = us @ vs"
    "lists (k_ls s') = (lists (k_ls s))(ActiveTimers \<mapsto> us @ ActiveN i # vs)"
    using insert_sorted_kinv[where P = ?P, OF inv xs d nl ok] by (auto simp: returns_iff active_insert_def)
  have "timer_frame i s s' \<and> timer_pool s' = timer_pool s"
    by (rule timer_node_frameI[OF s'(2,3,4), where h = ActiveTimers]) (simp_all add: s'(6) timer_node_def)
  then show ?thesis using s'(1,4,5,6) by auto
qed

lemma timer_pend:
  assumes inv: "kinvx {} s" and nl: "\<not> linked (PendingN i) (k_ls s)" and xs: "lists (k_ls s) PendingTimers = Some xs"
  shows "returns (on_ls (list_add_tail (PendingN i) PendingTimers) s) (\<lambda>s'. timer_frame i s s' \<and> timer_pool s' = timer_pool s \<and>
    nstat (k_ls s') = (nstat (k_ls s))(PendingN i := NIn PendingTimers) \<and>
    lists (k_ls s') = (lists (k_ls s))(PendingTimers \<mapsto> xs @ [PendingN i]))"
proof -
  define ls where "ls = (k_ls s)\<lparr>lists := (lists (k_ls s))(PendingTimers \<mapsto> xs @ [PendingN i]),
    nstat := (nstat (k_ls s))(PendingN i := NIn PendingTimers)\<rparr>"
  have add: "list_add_tail (PendingN i) PendingTimers (k_ls s) = Some ls" using nl xs by (simp add: list_add_tail_def ls_def)
  have "kinvx {} (s\<lparr>k_ls := ls\<rparr>)"
    by (rule kinvx_node[OF inv list_add_tail_lwf[OF add kinvx_lwf[OF inv]]])
      (use xs in \<open>auto simp: same_heads_def ls_def node_may_be_def\<close>)
  then have "timer_frame i s (s\<lparr>k_ls := ls\<rparr>) \<and> timer_pool (s\<lparr>k_ls := ls\<rparr>) = timer_pool s"
    by (rule timer_node_frameI[where h = PendingTimers]) (simp_all add: ls_def timer_node_def)
  then show ?thesis using add by (simp add: on_ls_def ls_def)
qed

lemma timer_lists:
  assumes "kinvx {} s"
  shows "\<exists>xs. lists (k_ls s) ActiveTimers = Some xs" "\<exists>xs. lists (k_ls s) PendingTimers = Some xs"
    "\<exists>xs. lists (k_ls s) ServiceWaiters = Some xs"
  using kinvx_core[OF assms, of ActiveTimers] kinvx_core[OF assms, of PendingTimers] kinvx_core[OF assms, of ServiceWaiters] by simp_all

lemma timer_live:
  assumes ok: "kernel_ok s" and i: "timer_from_handle g s = Some i"
  shows "i < AIXOS_CFG_MAX_TIMER" "i < length (timer_pool s)" "tm_handle (timer_pool s ! i) = g" "g \<noteq> 0" "entry_at i s"
    "k_lookup g AIXOS_OBJ_TIMER s = KTimer i"
proof -
  note o = objects_okD[OF kernel_okD(2)[OF ok]]
  show lk: "k_lookup g AIXOS_OBJ_TIMER s = KTimer i" using i by (simp add: from_handle_lookup)
  note t = table_okD[OF conjunct2[OF o(7)] lk]
  show 1: "i < AIXOS_CFG_MAX_TIMER" "tm_handle (timer_pool s ! i) = g" by (fact t)+
  show "i < length (timer_pool s)" using t(1) o(7) by simp
  show "g \<noteq> 0" using lookup_zero[OF tasks_okD(1)[OF o(1)]] lk by auto
  show "entry_at i s" using o(9) 1(1) by (simp add: timers_ok_entries)
qed

lemma entryD:
  assumes "timer_entry x a p"
  shows "a \<noteq> NNull" "p \<noteq> NNull" "\<not> tm_active x \<Longrightarrow> a = NSelf" "\<not> tm_pending x \<Longrightarrow> p = NSelf"
    "tm_active x \<Longrightarrow> a = NIn ActiveTimers" "tm_pending x \<Longrightarrow> p = NIn PendingTimers"
    "tm_active x \<Longrightarrow> 0 < tm_interval x" "tm_active x \<Longrightarrow> tm_interval x \<le> AIXOS_CFG_TIMEOUT_MAX_TICKS"
    "tm_active x \<or> tm_pending x \<Longrightarrow> tm_handle x \<noteq> 0"
  using assms by (auto simp: timer_entry_def)

lemma timer_start_keeps:
  assumes ok: "kernel_ok s"
  shows "keeps_ok (aixos_timer_start g ms s)"
proof (cases "in_isr s \<or> ms = 0 \<or> aixos_ms_to_ticks ms = UINT32_MAX \<or> timer_from_handle g s = None")
  case True
  then show ?thesis using ok by (auto simp: aixos_timer_start_def Let_def)
next
  case False
  then obtain i where i: "timer_from_handle g s = Some i" by auto
  note e = timer_live[OF ok i] and inv = kernel_okD(1)[OF ok]
  let ?x = "timer_pool s ! i"
  obtain xs where xs: "lists (k_ls s) ActiveTimers = Some xs" using timer_lists(1)[OF inv] ..
  have "returns (if tm_active ?x then unlink_node (ActiveN i) s else Some s)
    (\<lambda>s'. timer_frame i s s' \<and> timer_pool s' = timer_pool s \<and> nstat (k_ls s') = (nstat (k_ls s))(ActiveN i := NSelf))"
    using timer_unlink[OF inv _ entryD(1)[OF e(5)] xs] timer_frame_refl[OF inv] entryD(3)[OF e(5)]
    by (auto simp: timer_node_def returns_iff fun_upd_idem)
  then obtain s1 where s1: "(if tm_active ?x then unlink_node (ActiveN i) s else Some s) = Some s1"
    "timer_frame i s s1" "timer_pool s1 = timer_pool s" "nstat (k_ls s1) = (nstat (k_ls s))(ActiveN i := NSelf)"
    by (auto simp: returns_iff)
  define x2 where "x2 = ?x\<lparr>tm_interval := aixos_ms_to_ticks ms, tm_deadline := aixos_get_tick s1 + aixos_ms_to_ticks ms, tm_active := True\<rparr>"
  let ?s2 = "set_timer i x2 s1"
  note f2 = timer_frame_trans[OF s1(2) set_timer_frame[OF timer_frameD(1)[OF s1(2)]]]
  have nl: "\<not> linked (ActiveN i) (k_ls ?s2)" using s1(4) by (simp add: linked_def)
  obtain ys where ys: "lists (k_ls ?s2) ActiveTimers = Some ys" using timer_lists(1)[OF timer_frameD(1)[OF f2]] ..
  obtain s3 where s3: "active_insert i ?s2 = Some s3" "timer_frame i ?s2 s3" "timer_pool s3 = timer_pool ?s2"
    "nstat (k_ls s3) = (nstat (k_ls ?s2))(ActiveN i := NIn ActiveTimers)"
    using timer_active_insert[OF timer_frameD(1)[OF f2] nl ys] by (auto simp: returns_iff)
  have x3: "timer_pool s3 ! i = x2" using s3(3) s1(3) e(2) by simp
  have iv: "0 < aixos_ms_to_ticks ms" "aixos_ms_to_ticks ms \<le> AIXOS_CFG_TIMEOUT_MAX_TICKS"
  proof -
    have "ms \<noteq> 0" "ms \<noteq> UINT32_MAX" using False by (auto simp: aixos_ms_to_ticks_def)
    then show "0 < aixos_ms_to_ticks ms" "aixos_ms_to_ticks ms \<le> AIXOS_CFG_TIMEOUT_MAX_TICKS" by (rule ms_to_ticks_range)+
  qed
  have "kernel_ok s3"
  proof (rule timer_frame_ok[OF ok timer_frame_trans[OF f2 s3(2)] e(1)])
    show "tm_handle (timer_pool s3 ! i) = tm_handle ?x" by (simp add: x3 x2_def)
    have "tm_handle ?x \<noteq> 0" using e(3,4) by simp
    then show "entry_at i s3"
      using e(5) iv s1(4) s3(4) by (simp add: timer_entry_def x3) (simp add: x2_def)
  qed
  then show ?thesis
    using False i s1(1) s3(1) s1(3) unfolding aixos_timer_start_def Let_def by (simp add: x2_def)
qed

text \<open>Marking the timer idle, or no longer pending, after its node has been taken out.\<close>

definition timer_off :: "nat \<Rightarrow> kstate \<Rightarrow> kstate option" where
  "timer_off i s = (if tm_active (timer_pool s ! i)
     then do { s \<leftarrow> unlink_node (ActiveN i) s; Some (set_timer i ((timer_pool s ! i)\<lparr>tm_active := False\<rparr>) s) }
     else Some s)"

definition timer_unpend :: "nat \<Rightarrow> kstate \<Rightarrow> kstate option" where
  "timer_unpend i s = (if tm_pending (timer_pool s ! i)
     then do { s \<leftarrow> unlink_node (PendingN i) s; Some (set_timer i ((timer_pool s ! i)\<lparr>tm_pending := False\<rparr>) s) }
     else Some s)"

lemma timer_off_keeps:
  assumes ok: "kernel_ok s" and i: "i < AIXOS_CFG_MAX_TIMER"
  shows "returns (timer_off i s) (\<lambda>s'. kernel_ok s' \<and> timer_frame i s s' \<and>
    timer_pool s' ! i = (timer_pool s ! i)\<lparr>tm_active := False\<rparr>)"
proof (cases "tm_active (timer_pool s ! i)")
  case True
  note inv = kernel_okD(1)[OF ok] and o = objects_okD[OF kernel_okD(2)[OF ok]]
  have e: "entry_at i s" using o(9) i by (simp add: timers_ok_entries)
  have len: "i < length (timer_pool s)" using o(7) i by simp
  obtain xs where xs: "lists (k_ls s) ActiveTimers = Some xs" using timer_lists(1)[OF inv] ..
  obtain s1 where s1: "unlink_node (ActiveN i) s = Some s1" "timer_frame i s s1" "timer_pool s1 = timer_pool s"
    "nstat (k_ls s1) = (nstat (k_ls s))(ActiveN i := NSelf)"
    using timer_unlink[OF inv _ entryD(1)[OF e] xs, of i] by (auto simp: returns_iff timer_node_def)
  let ?s2 = "set_timer i ((timer_pool s1 ! i)\<lparr>tm_active := False\<rparr>) s1"
  note f2 = timer_frame_trans[OF s1(2) set_timer_frame[OF timer_frameD(1)[OF s1(2)]]]
  have "kernel_ok ?s2"
    by (rule timer_frame_ok[OF ok f2 i]) (use e s1(3,4) len in \<open>simp_all add: timer_entry_def\<close>)
  then show ?thesis using True s1(1,3) f2 len by (simp add: timer_off_def)
next
  case False
  then have "(timer_pool s ! i)\<lparr>tm_active := False\<rparr> = timer_pool s ! i" by simp
  then show ?thesis using False ok timer_frame_refl[OF kernel_okD(1)[OF ok]] by (simp add: timer_off_def)
qed

lemma timer_unpend_keeps:
  assumes ok: "kernel_ok s" and i: "i < AIXOS_CFG_MAX_TIMER"
  shows "returns (timer_unpend i s) (\<lambda>s'. kernel_ok s' \<and> timer_frame i s s' \<and>
    timer_pool s' ! i = (timer_pool s ! i)\<lparr>tm_pending := False\<rparr> \<and>
    lists (k_ls s') PendingTimers = map_option (remove1 (PendingN i)) (lists (k_ls s) PendingTimers))"
proof (cases "tm_pending (timer_pool s ! i)")
  case True
  note inv = kernel_okD(1)[OF ok] and o = objects_okD[OF kernel_okD(2)[OF ok]]
  have e: "entry_at i s" using o(9) i by (simp add: timers_ok_entries)
  have len: "i < length (timer_pool s)" using o(7) i by simp
  obtain xs where xs: "lists (k_ls s) PendingTimers = Some xs" using timer_lists(2)[OF inv] ..
  obtain s1 where s1: "unlink_node (PendingN i) s = Some s1" "timer_frame i s s1" "timer_pool s1 = timer_pool s"
    "nstat (k_ls s1) = (nstat (k_ls s))(PendingN i := NSelf)"
    "lists (k_ls s1) = (lists (k_ls s))(PendingTimers \<mapsto> (if nstat (k_ls s) (PendingN i) = NIn PendingTimers then remove1 (PendingN i) xs else xs))"
    using timer_unlink[OF inv _ entryD(2)[OF e] xs, of i] by (auto simp: returns_iff timer_node_def)
  let ?s2 = "set_timer i ((timer_pool s1 ! i)\<lparr>tm_pending := False\<rparr>) s1"
  note f2 = timer_frame_trans[OF s1(2) set_timer_frame[OF timer_frameD(1)[OF s1(2)]]]
  have "kernel_ok ?s2"
    by (rule timer_frame_ok[OF ok f2 i]) (use e s1(3,4) len in \<open>simp_all add: timer_entry_def\<close>)
  then show ?thesis using True s1 f2 len entryD(6)[OF e True] xs by (simp add: timer_unpend_def)
next
  case False
  note inv = kernel_okD(1)[OF ok]
  have e: "entry_at i s" using objects_okD(9)[OF kernel_okD(2)[OF ok]] i by (simp add: timers_ok_entries)
  obtain xs where xs: "lists (k_ls s) PendingTimers = Some xs" using timer_lists(2)[OF inv] ..
  have "PendingN i \<notin> set xs" using kinvx_members(1)[OF inv xs, of "PendingN i"] entryD(4)[OF e False] by auto
  moreover have "(timer_pool s ! i)\<lparr>tm_pending := False\<rparr> = timer_pool s ! i" using False by simp
  ultimately show ?thesis using False ok timer_frame_refl[OF inv] xs by (simp add: timer_unpend_def remove1_idem)
qed

lemma timer_stop_keeps:
  assumes ok: "kernel_ok s"
  shows "keeps_ok (aixos_timer_stop g s)"
proof (cases "in_isr s \<or> timer_from_handle g s = None")
  case True
  then show ?thesis using ok by (auto simp: aixos_timer_stop_def)
next
  case False
  then obtain i where i: "timer_from_handle g s = Some i" by auto
  note e = timer_live[OF ok i]
  obtain s1 where s1: "timer_off i s = Some s1" "kernel_ok s1" using timer_off_keeps[OF ok e(1)] by (auto simp: returns_iff)
  obtain s2 where s2: "timer_unpend i s1 = Some s2" "kernel_ok s2" using timer_unpend_keeps[OF s1(2) e(1)] by (auto simp: returns_iff)
  have "aixos_timer_stop g s = do { s \<leftarrow> timer_off i s; s \<leftarrow> timer_unpend i s; Some (AIXOS_OK, s) }"
    using False i unfolding aixos_timer_stop_def timer_off_def timer_unpend_def by simp
  then show ?thesis using s1(1) s2 by simp
qed

section \<open>The tick\<close>

text \<open>How many queued timers are due.\<close>

definition timer_due :: "u32 \<Rightarrow> kstate \<Rightarrow> lnode \<Rightarrow> bool" where
  "timer_due now s n = (case node_object n of Some i \<Rightarrow> tick_reached now (tm_deadline (timer_pool s ! i)) | None \<Rightarrow> False)"

definition due_count :: "u32 \<Rightarrow> kstate \<Rightarrow> nat" where
  "due_count now s = (case lists (k_ls s) ActiveTimers of Some xs \<Rightarrow> length (filter (timer_due now s) xs) | None \<Rightarrow> 0)"

lemma timer_due_same:
  assumes "timer_frame i s s'" "n \<noteq> ActiveN i" "\<exists>j. n = ActiveN j"
  shows "timer_due now s' n = timer_due now s n"
  using assms timer_frameD(7)[OF assms(1)] by (auto simp: timer_due_def)

lemma active_members:
  assumes "kinvx X s" "lists (k_ls s) ActiveTimers = Some xs" "n \<in> set xs"
  shows "\<exists>j. n = ActiveN j"
  using kinvx_members(2)[OF assms] by (cases n) auto

lemma timer_expire_keeps:
  assumes ok: "kernel_ok s" and xs: "lists (k_ls s) ActiveTimers = Some (ActiveN i # xs)"
    and due: "tick_reached now (tm_deadline (timer_pool s ! i))"
  shows "returns (timer_expire now i s) (\<lambda>s'. kernel_ok s' \<and> timer_frame i s s' \<and> due_count now s = Suc (due_count now s'))"
proof -
  note inv = kernel_okD(1)[OF ok] and o = objects_okD[OF kernel_okD(2)[OF ok]]
  let ?x = "timer_pool s ! i"
  have N: "nstat (k_ls s) (ActiveN i) = NIn ActiveTimers" using kinvx_members(1)[OF inv xs, of "ActiveN i"] by simp
  then have i: "i < AIXOS_CFG_MAX_TIMER" using o(9) by (auto simp: timers_ok_entries)
  have len: "i < length (timer_pool s)" using o(7) i by simp
  have e: "entry_at i s" using o(9) i by (simp add: timers_ok_entries)
  have ac: "tm_active ?x" using entryD(3)[OF e] N by (cases "tm_active ?x") auto
  note act = entryD(7,8)[OF e ac]
  have dist: "ActiveN i \<notin> set xs" using lwfD(1)[OF kinvx_lwf[OF inv] xs] by simp
  obtain s1 where s1: "unlink_node (ActiveN i) s = Some s1" "timer_frame i s s1" "timer_pool s1 = timer_pool s"
    "nstat (k_ls s1) = (nstat (k_ls s))(ActiveN i := NSelf)" "lists (k_ls s1) = (lists (k_ls s))(ActiveTimers \<mapsto> xs)"
    using timer_unlink[OF inv _ entryD(1)[OF e] xs, of i] N by (auto simp: returns_iff timer_node_def)
  define mid where "mid = (\<lambda>s. if tm_type (timer_pool s ! i) = AIXOS_TIMER_PERIODIC
     then active_insert i (set_timer i ((timer_pool s ! i)\<lparr>tm_deadline := next_deadline now (tm_deadline (timer_pool s ! i)) (tm_interval (timer_pool s ! i))\<rparr>) s)
     else Some (set_timer i ((timer_pool s ! i)\<lparr>tm_active := False\<rparr>) s))"
  have "returns (mid s1) (\<lambda>s2. timer_frame i s s2 \<and>
      (\<exists>us vs. xs = us @ vs \<and> (lists (k_ls s2) ActiveTimers = Some (us @ vs) \<or>
         lists (k_ls s2) ActiveTimers = Some (us @ ActiveN i # vs) \<and> \<not> tick_reached now (tm_deadline (timer_pool s2 ! i)))) \<and>
      tm_handle (timer_pool s2 ! i) = tm_handle ?x \<and> tm_pending (timer_pool s2 ! i) = tm_pending ?x \<and>
      nstat (k_ls s2) (PendingN i) = nstat (k_ls s) (PendingN i) \<and> entry_at i s2)"
  proof (cases "tm_type ?x = AIXOS_TIMER_PERIODIC")
    case True
    let ?y = "?x\<lparr>tm_deadline := next_deadline now (tm_deadline ?x) (tm_interval ?x)\<rparr>"
    let ?s2 = "set_timer i ?y s1"
    note f2 = timer_frame_trans[OF s1(2) set_timer_frame[OF timer_frameD(1)[OF s1(2)]]]
    have nl: "\<not> linked (ActiveN i) (k_ls ?s2)" using s1(4) by (simp add: linked_def)
    have ys: "lists (k_ls ?s2) ActiveTimers = Some xs" by (simp add: s1(5))
    obtain s3 us vs where s3: "active_insert i ?s2 = Some s3" "timer_frame i ?s2 s3" "timer_pool s3 = timer_pool ?s2"
      "nstat (k_ls s3) = (nstat (k_ls ?s2))(ActiveN i := NIn ActiveTimers)" "xs = us @ vs"
      "lists (k_ls s3) = (lists (k_ls ?s2))(ActiveTimers \<mapsto> us @ ActiveN i # vs)"
      using timer_active_insert[OF timer_frameD(1)[OF f2] nl ys] by (auto simp: returns_iff)
    have y: "timer_pool s3 ! i = ?y" using s3(3) s1(3) len by simp
    have nr: "\<not> tick_reached now (tm_deadline (timer_pool s3 ! i))" using next_deadline_not_reached[OF act] y by simp
    have en: "entry_at i s3" using e ac s1(4) s3(4) by (simp add: y timer_entry_def)
    have pn: "nstat (k_ls s3) (PendingN i) = nstat (k_ls s) (PendingN i)" using s1(4) s3(4) by simp
    have m: "mid s1 = Some s3" using True s1(3) s3(1) by (simp add: mid_def)
    have "\<exists>us vs. xs = us @ vs \<and> lists (k_ls s3) ActiveTimers = Some (us @ ActiveN i # vs)" using s3(5,6) by auto
    then show ?thesis using m timer_frame_trans[OF f2 s3(2)] nr en pn y by auto
  next
    case False
    let ?s2 = "set_timer i (?x\<lparr>tm_active := False\<rparr>) s1"
    note f2 = timer_frame_trans[OF s1(2) set_timer_frame[OF timer_frameD(1)[OF s1(2)]]]
    have m: "mid s1 = Some ?s2" using False s1(3) by (simp add: mid_def)
    have "entry_at i ?s2" using e s1(3,4) len by (simp add: timer_entry_def)
    then show ?thesis using m f2 s1 len by (auto intro: exI[of _ "[]"])
  qed
  then obtain s2 us vs where s2: "mid s1 = Some s2" "timer_frame i s s2" "xs = us @ vs"
    "lists (k_ls s2) ActiveTimers = Some (us @ vs) \<or>
       lists (k_ls s2) ActiveTimers = Some (us @ ActiveN i # vs) \<and> \<not> tick_reached now (tm_deadline (timer_pool s2 ! i))"
    "tm_handle (timer_pool s2 ! i) = tm_handle ?x" "tm_pending (timer_pool s2 ! i) = tm_pending ?x"
    "nstat (k_ls s2) (PendingN i) = nstat (k_ls s) (PendingN i)" "entry_at i s2"
    by (auto simp: returns_iff)
  have k2: "kernel_ok s2" by (rule timer_frame_ok[OF ok s2(2) i s2(5,8)])
  have mem: "n \<in> set xs \<Longrightarrow> \<exists>j. n = ActiveN j" for n using active_members[OF inv xs] by simp
  have dc: "due_count now s = Suc (due_count now s2)"
  proof -
    have same: "filter (timer_due now s2) zs = filter (timer_due now s) zs" if "set zs \<subseteq> set xs" for zs
    proof (rule filter_cong)
      fix n assume "n \<in> set zs"
      then have "n \<in> set xs" using that by blast
      then show "timer_due now s2 n = timer_due now s n"
        using timer_due_same[OF s2(2), of n] dist mem[of n] by metis
    qed simp
    have "timer_due now s (ActiveN i)" using due by (simp add: timer_due_def)
    then show ?thesis
      using s2(3,4) xs same[of us] same[of vs] by (auto simp: due_count_def timer_due_def[of _ _ "ActiveN i"])
  qed
  define fin where "fin = (\<lambda>s. if \<not> tm_pending (timer_pool s ! i)
     then on_ls (list_add_tail (PendingN i) PendingTimers) (set_timer i ((timer_pool s ! i)\<lparr>tm_pending := True\<rparr>) s) else Some s)"
  have ex: "timer_expire now i s = do { s \<leftarrow> unlink_node (ActiveN i) s; s \<leftarrow> mid s; fin s }"
    unfolding timer_expire_def mid_def fin_def Let_def by (rule refl)
  have "returns (fin s2) (\<lambda>s'. kernel_ok s' \<and> timer_frame i s s' \<and> due_count now s' = due_count now s2)"
  proof (cases "tm_pending (timer_pool s2 ! i)")
    case True
    then show ?thesis using k2 s2(2) by (simp add: fin_def)
  next
    case False
    let ?s3 = "set_timer i ((timer_pool s2 ! i)\<lparr>tm_pending := True\<rparr>) s2"
    note inv2 = kernel_okD(1)[OF k2]
    have f3: "timer_frame i s2 ?s3" by (rule set_timer_frame[OF inv2])
    have nl: "\<not> linked (PendingN i) (k_ls ?s3)" using entryD(4)[OF s2(8) False] by (simp add: linked_def)
    obtain zs where zs: "lists (k_ls ?s3) PendingTimers = Some zs" using timer_lists(2)[OF timer_frameD(1)[OF f3]] ..
    obtain s4 where s4: "on_ls (list_add_tail (PendingN i) PendingTimers) ?s3 = Some s4" "timer_frame i ?s3 s4"
      "timer_pool s4 = timer_pool ?s3" "nstat (k_ls s4) = (nstat (k_ls ?s3))(PendingN i := NIn PendingTimers)"
      "lists (k_ls s4) = (lists (k_ls ?s3))(PendingTimers \<mapsto> zs @ [PendingN i])"
      using timer_pend[OF timer_frameD(1)[OF f3] nl zs] by (auto simp: returns_iff simp del: returns_on_ls)
    have len2: "i < length (timer_pool s2)" using len timer_frameD(6)[OF s2(2)] by simp
    have y: "timer_pool s4 ! i = (timer_pool s2 ! i)\<lparr>tm_pending := True\<rparr>" using s4(3) len2 by simp
    have f4: "timer_frame i s2 s4" by (rule timer_frame_trans[OF f3 s4(2)])
    have "tm_handle (timer_pool s2 ! i) \<noteq> 0" using s2(5) entryD(9)[OF e] ac by simp
    then have "entry_at i s4" using s2(8) s4(4) by (simp add: y timer_entry_def)
    then have k4: "kernel_ok s4" by (rule timer_frame_ok[OF k2 f4 i, rotated]) (simp add: y)
    have td: "timer_due now s4 n = timer_due now s2 n" for n
    proof (cases "node_object n")
      case (Some j)
      then show ?thesis using y timer_frameD(7)[OF f4, of j] by (cases "j = i") (simp_all add: timer_due_def)
    qed (simp add: timer_due_def)
    have "timer_due now s4 = timer_due now s2" by (rule ext) (rule td)
    then have "due_count now s4 = due_count now s2" using s4(5) by (simp add: due_count_def split: option.split)
    then show ?thesis using False s4(1) k4 timer_frame_trans[OF s2(2) f4] by (simp add: fin_def)
  qed
  then show ?thesis using s1(1) s2(1) dc by (auto simp: ex returns_iff)
qed

text \<open>The loop ends after as many turns as timers are due, and leaves none that is due at the front.\<close>

lemma timer_tick_loop_returns:
  assumes "kernel_ok s"
  shows "returns (timer_tick_loop now s) (\<lambda>s'. kernel_ok s' \<and>
    (\<forall>i xs. lists (k_ls s') ActiveTimers = Some (ActiveN i # xs) \<longrightarrow> \<not> tick_reached now (tm_deadline (timer_pool s' ! i))))"
  using assms
proof (induction "due_count now s" arbitrary: s rule: less_induct)
  case less
  note ok = less.prems and inv = kernel_okD(1)[OF less.prems]
  obtain xs where xs: "lists (k_ls s) ActiveTimers = Some xs" using timer_lists(1)[OF inv] ..
  show ?case
  proof (cases xs)
    case Nil
    then show ?thesis using ok xs by (subst timer_tick_loop.simps) (simp add: head_empty_Some)
  next
    case (Cons n ys)
    then obtain i where n: "n = ActiveN i" using active_members[OF inv xs, of n] by auto
    have f: "list_first ActiveTimers (k_ls s) = Some (ActiveN i)" "\<not> head_empty ActiveTimers s"
      using xs Cons n by (simp_all add: list_first_def head_empty_Some)
    show ?thesis
    proof (cases "tick_reached now (tm_deadline (timer_pool s ! i))")
      case True
      obtain s1 where s1: "timer_expire now i s = Some s1" "kernel_ok s1" "due_count now s = Suc (due_count now s1)"
        using timer_expire_keeps[OF ok xs[unfolded Cons n] True] by (auto simp: returns_iff)
      then show ?thesis using less.hyps[of s1] f True by (subst timer_tick_loop.simps) simp
    next
      case False
      then show ?thesis using ok f xs Cons n by (subst timer_tick_loop.simps) simp
    qed
  qed
qed

lemma timer_tick_keeps:
  assumes ok: "kernel_ok s"
  shows "returns (aixos_timer_tick now s) kernel_ok"
proof -
  obtain s1 where s1: "timer_tick_loop now s = Some s1" "kernel_ok s1"
    using timer_tick_loop_returns[OF ok, of now] by (auto simp: returns_iff)
  have "returns (wake_timer_service s1) kernel_ok"
  proof (cases "\<not> head_empty PendingTimers s1 \<and> \<not> head_empty ServiceWaiters s1")
    case True
    have w: "is_wait_head ServiceWaiters" "lists (k_ls s1) ServiceWaiters \<noteq> None"
      using timer_lists(3)[OF kernel_okD(1)[OF s1(2)]] by auto
    obtain a where "first_task ServiceWaiters s1 = Some a" "returns (aixos_task_wake a AIXOS_OK s1) kernel_ok"
      using ipc.wake_first[OF s1(2) w, of AIXOS_OK] True by auto
    then show ?thesis using True by (simp add: wake_timer_service_def)
  qed (use s1(2) in \<open>auto simp: wake_timer_service_def\<close>)
  then show ?thesis using s1(1) by (simp add: aixos_timer_tick_def)
qed

section \<open>The service task\<close>

lemma pending_members:
  assumes "kinvx X s" "lists (k_ls s) PendingTimers = Some xs" "n \<in> set xs"
  shows "\<exists>j. n = PendingN j"
  using kinvx_members(2)[OF assms] by (cases n) auto

lemma timer_next_callback_keeps:
  assumes ok: "kernel_ok s" and xs: "lists (k_ls s) PendingTimers = Some xs"
  shows "returns (timer_next_callback s) (\<lambda>(r, s'). kernel_ok s' \<and> lists (k_ls s') PendingTimers = Some (tl xs) \<and>
    (r = None \<longleftrightarrow> xs = []))"
proof (cases xs)
  case Nil
  then show ?thesis using ok xs by (simp add: timer_next_callback_def head_empty_Some)
next
  case (Cons n ys)
  note inv = kernel_okD(1)[OF ok]
  obtain i where n: "n = PendingN i" using pending_members[OF inv xs, of n] Cons by auto
  have N: "nstat (k_ls s) (PendingN i) = NIn PendingTimers" using kinvx_members(1)[OF inv xs, of n] Cons n by simp
  then have i: "i < AIXOS_CFG_MAX_TIMER" using objects_okD(9)[OF kernel_okD(2)[OF ok]] by (auto simp: timers_ok_entries)
  have e: "entry_at i s" using objects_okD(9)[OF kernel_okD(2)[OF ok]] i by (simp add: timers_ok_entries)
  have p: "tm_pending (timer_pool s ! i)" using entryD(4)[OF e] N by (cases "tm_pending (timer_pool s ! i)") auto
  obtain s1 where s1: "timer_unpend i s = Some s1" "kernel_ok s1" "lists (k_ls s1) PendingTimers = Some (tl xs)"
    using timer_unpend_keeps[OF ok i] xs Cons n by (auto simp: returns_iff)
  obtain s0 where s0: "unlink_node (PendingN i) s = Some s0" "s1 = set_timer i ((timer_pool s0 ! i)\<lparr>tm_pending := False\<rparr>) s0"
    using s1(1) p by (auto simp: timer_unpend_def split: Option.bind_splits)
  have "list_first PendingTimers (k_ls s) = Some (PendingN i)" "\<not> head_empty PendingTimers s"
    using xs Cons n by (simp_all add: list_first_def head_empty_Some)
  then show ?thesis using s0 s1(2,3) Cons by (simp add: timer_next_callback_def Let_def)
qed

text \<open>When the callbacks return and keep the invariant, and do not touch the pending queue, every
  pending timer's callback runs once and the queue is empty afterwards.\<close>

lemma timer_dispatch_runs_all:
  assumes run: "\<And>cb arg s. kernel_ok s \<Longrightarrow> returns (run cb arg s) (\<lambda>s'. kernel_ok s' \<and>
      lists (k_ls s') PendingTimers = lists (k_ls s) PendingTimers)"
    and ok: "kernel_ok s" and xs: "lists (k_ls s) PendingTimers = Some xs"
  shows "returns (timer_dispatch_loop run d s) (\<lambda>(n, s'). kernel_ok s' \<and> lists (k_ls s') PendingTimers = Some [] \<and>
    n = d + of_nat (length xs))"
  using ok xs
proof (induction xs arbitrary: s d)
  case Nil
  obtain s1 where "timer_next_callback s = Some (None, s1)" "kernel_ok s1" "lists (k_ls s1) PendingTimers = Some []"
    using timer_next_callback_keeps[OF Nil] by (auto simp: returns_iff)
  then show ?case by (subst timer_dispatch_loop.simps) simp
next
  case (Cons n xs)
  obtain cb arg s1 where s1: "timer_next_callback s = Some (Some (cb, arg), s1)" "kernel_ok s1" "lists (k_ls s1) PendingTimers = Some xs"
    using timer_next_callback_keeps[OF Cons.prems] by (auto simp: returns_iff)
  obtain s2 where s2: "run cb arg s1 = Some s2" "kernel_ok s2" "lists (k_ls s2) PendingTimers = Some xs"
    using run[OF s1(2), of cb arg] s1(3) by (auto simp: returns_iff)
  show ?case
    using Cons.IH[OF s2(2,3), of "d + 1"] s1(1) s2(1) by (subst timer_dispatch_loop.simps) (simp add: algebra_simps)
qed

section \<open>Creation and deletion\<close>

text \<open>What a change of timer \<open>i\<close> that also changes its handle has to establish.\<close>

lemma timer_slot_ok:
  assumes ok: "kernel_ok s" and inv: "kinvx {} s'" and eq: "s' = s\<lparr>k_obj := os, timer_pool := (timer_pool s)[i := x], k_ls := k_ls s'\<rparr>"
    and os: "obj_inv os" "\<And>g ty. ty \<noteq> AIXOS_OBJ_TIMER \<Longrightarrow> k_lookup g ty s' = k_lookup g ty s" and i: "i < AIXOS_CFG_MAX_TIMER"
    and L: "\<And>g. lists (k_ls s') g = None \<longleftrightarrow> lists (k_ls s) g = None"
    and N: "\<And>n. n \<noteq> ActiveN i \<Longrightarrow> n \<noteq> PendingN i \<Longrightarrow> nstat (k_ls s') n = nstat (k_ls s) n"
    and e: "timer_entry x (nstat (k_ls s') (ActiveN i)) (nstat (k_ls s') (PendingN i))" and tab: "timer_table s'"
  shows "kernel_ok s'"
proof (rule pool_step_ok[OF ok _ _ inv, of AIXOS_OBJ_TIMER])
  note o = objects_okD[OF kernel_okD(2)[OF ok]]
  have e': "tw_low s' = tw_low s" "tw_high s' = tw_high s" "sem_pool s' = sem_pool s" "mutex_pool s' = mutex_pool s"
    "mq_pool s' = mq_pool s" "event_pool s' = event_pool s" "pipe_pool s' = pipe_pool s" "k_obj s' = os" "tcbs s' = tcbs s"
    "timer_pool s' = (timer_pool s)[i := x]" by (subst eq, simp)+
  have "nstat (k_ls s') n = nstat (k_ls s) n" if "node_type n = AIXOS_OBJ_MUTEX" for n using N[of n] that by (cases n) auto
  then show "pool_step AIXOS_OBJ_TIMER s s'" using os L unfolding pool_step_def e' by auto
  have len: "i < length (timer_pool s)" using o(7) i by simp
  have "entry_at j s'" if "j < AIXOS_CFG_MAX_TIMER" for j
    using e o(9) that N len by (cases "j = i") (auto simp: timers_ok_entries e')
  moreover have "j < AIXOS_CFG_MAX_TIMER" if "nstat (k_ls s') (ActiveN j) = NIn g \<or> nstat (k_ls s') (PendingN j) = NIn g" for j g
    using that i o(9) N by (cases "j = i") (auto simp: timers_ok_entries)
  ultimately show "timer_table s' \<and> timers_ok s'" using tab by (auto simp: timers_ok_entries)
qed simp_all

lemma timer_create_keeps:
  assumes ok: "kernel_ok s"
  shows "keeps_ok (aixos_timer_create name ty cb arg s)"
proof (cases "in_isr s \<or> cb = 0 \<or> find_index (\<lambda>x. tm_handle x = 0) (timer_pool s) 0 = None")
  case True
  then show ?thesis using ok by (auto simp: aixos_timer_create_def)
next
  case False
  note o = objects_okD[OF kernel_okD(2)[OF ok]]
  obtain i where i: "find_index (\<lambda>x. tm_handle x = 0) (timer_pool s) 0 = Some i" using False by auto
  note i' = free_entry[OF i o(7)]
  have en: "entry_at i s" using o(9) i'(1) by (simp add: timers_ok_entries)
  have idle: "nstat (k_ls s) (ActiveN i) = NSelf" "nstat (k_ls s) (PendingN i) = NSelf"
    using en i'(2) by (simp_all add: timer_entry_def)
  have pre: "type_to_pool_id AIXOS_OBJ_TIMER = AIXOS_POOL_TIMER" "0 < AIXOS_POOL_TIMER" "KTimer i \<noteq> KNull" by simp_all
  show ?thesis
  proof (cases rule: claim_cases[OF ok pre, case_names full claimed])
    case (full j os)
    then show ?thesis using False i by (simp add: aixos_timer_create_def)
  next
    case (claimed j os h)
    let ?x = "zero_timer\<lparr>tm_name := (case name of Some nm \<Rightarrow> strncpy (tm_name zero_timer) nm 15 | None \<Rightarrow> tm_name zero_timer),
               tm_type := ty, tm_callback := cb, tm_arg := arg, tm_handle := h\<rparr>"
    define s' where "s' = set_timer i ?x (s\<lparr>k_obj := os\<rparr>)"
    have e4: "s' = s\<lparr>k_obj := os, timer_pool := (timer_pool s)[i := ?x], k_ls := k_ls s'\<rparr>"
      by (rule kstate.equality) (simp_all add: s'_def set_timer_def)
    have lk: "k_lookup g ty' s' = (if g = h \<and> ty' = AIXOS_OBJ_TIMER then KTimer i else k_lookup g ty' s)" for g ty'
      by (rule claimed(6)) (simp add: s'_def)
    have "kernel_ok s'"
    proof (rule timer_slot_ok[OF ok _ e4 claimed(3) _ i'(1)])
      show "kinvx {} s'" using kinvx_cong[of s' s] kernel_okD(1)[OF ok] by (simp add: s'_def set_timer_def)
      show "timer_entry ?x (nstat (k_ls s') (ActiveN i)) (nstat (k_ls s') (PendingN i))"
        using idle by (simp add: s'_def timer_entry_def zero_timer_def)
      show "timer_table s'"
        by (rule conjI, use o(7) in \<open>simp add: s'_def\<close>, rule table_ok_insert[OF conjunct2[OF o(7)] i' claimed(5)])
          (use o(7) i' lk lookup_zero[OF tasks_okD(1)[OF o(1)]] in \<open>auto simp: s'_def\<close>)
    qed (simp_all add: lk, simp_all add: s'_def)
    moreover have "on_ls (list_init_node (ActiveN i)) (s\<lparr>k_obj := os\<rparr>) = Some (s\<lparr>k_obj := os\<rparr>)"
      "on_ls (list_init_node (PendingN i)) (s\<lparr>k_obj := os\<rparr>) = Some (s\<lparr>k_obj := os\<rparr>)"
      using idle by (simp_all add: on_ls_def list_init_node_def linked_def fun_upd_idem)
    ultimately show ?thesis
      using False i claimed(1,2,4) by (simp add: aixos_timer_create_def s'_def del: returns_on_ls)
  qed
qed

lemma timer_del:
  assumes inv: "kinvx {} s" and n: "timer_node i n h" "nstat (k_ls s) n = NIn h"
  shows "returns (on_ls (list_del n) s) (\<lambda>s'. kinvx {} s' \<and> s' = s\<lparr>k_ls := k_ls s'\<rparr> \<and>
    nstat (k_ls s') = (nstat (k_ls s))(n := NNull) \<and> (\<forall>g. lists (k_ls s') g = None \<longleftrightarrow> lists (k_ls s) g = None))"
proof -
  obtain ls where ls: "list_del n (k_ls s) = Some ls" using n(2) by (simp add: list_del_def)
  note d = list_del_Some[OF ls]
  have "kinvx {} (s\<lparr>k_ls := ls\<rparr>)"
    by (rule kinvx_node[OF inv list_del_lwf[OF ls kinvx_lwf[OF inv]] _ d(1)])
      (use n in \<open>auto simp: same_heads_def d(2) timer_node_def node_may_be_def\<close>)
  then show ?thesis using ls d by (simp add: on_ls_def)
qed

lemma timer_delete_keeps:
  assumes ok: "kernel_ok s"
  shows "keeps_ok (aixos_timer_delete g s)"
proof (cases "in_isr s \<or> timer_from_handle g s = None")
  case True
  then show ?thesis using ok by (auto simp: aixos_timer_delete_def)
next
  case False
  then obtain i where i: "timer_from_handle g s = Some i" by auto
  note e = timer_live[OF ok i] and inv = kernel_okD(1)[OF ok] and o = objects_okD[OF kernel_okD(2)[OF ok]]
  let ?x = "timer_pool s ! i"
  have "returns (if tm_active ?x then on_ls (list_del (ActiveN i)) s else Some s) (\<lambda>s'. kinvx {} s' \<and> s' = s\<lparr>k_ls := k_ls s'\<rparr> \<and>
      (\<exists>st. nstat (k_ls s') = (nstat (k_ls s))(ActiveN i := st) \<and> (\<forall>h. st \<noteq> NIn h)) \<and>
      (\<forall>g. lists (k_ls s') g = None \<longleftrightarrow> lists (k_ls s) g = None))"
    using timer_del[OF inv, of i "ActiveN i" ActiveTimers] entryD(5)[OF e(5)] entryD(3)[OF e(5)] inv
    by (auto simp: timer_node_def returns_iff fun_upd_idem simp del: returns_on_ls intro: exI[of _ NSelf])
  then obtain s1 st where s1: "(if tm_active ?x then on_ls (list_del (ActiveN i)) s else Some s) = Some s1" "kinvx {} s1"
    "s1 = s\<lparr>k_ls := k_ls s1\<rparr>" "nstat (k_ls s1) = (nstat (k_ls s))(ActiveN i := st)" "\<And>h. st \<noteq> NIn h"
    "\<And>g. lists (k_ls s1) g = None \<longleftrightarrow> lists (k_ls s) g = None"
    by (auto simp: returns_iff)
  have p1: "timer_pool s1 = timer_pool s" by (subst s1(3), simp)
  have "returns (if tm_pending ?x then on_ls (list_del (PendingN i)) s1 else Some s1) (\<lambda>s'. kinvx {} s' \<and> s' = s1\<lparr>k_ls := k_ls s'\<rparr> \<and>
      (\<exists>st. nstat (k_ls s') = (nstat (k_ls s1))(PendingN i := st) \<and> (\<forall>h. st \<noteq> NIn h)) \<and>
      (\<forall>g. lists (k_ls s') g = None \<longleftrightarrow> lists (k_ls s1) g = None))"
    using timer_del[OF s1(2), of i "PendingN i" PendingTimers] entryD(6)[OF e(5)] entryD(4)[OF e(5)] s1(2,4)
    by (auto simp: timer_node_def returns_iff fun_upd_idem simp del: returns_on_ls intro: exI[of _ NSelf])
  then obtain s2 sp where s2: "(if tm_pending ?x then on_ls (list_del (PendingN i)) s1 else Some s1) = Some s2" "kinvx {} s2"
    "s2 = s1\<lparr>k_ls := k_ls s2\<rparr>" "nstat (k_ls s2) = (nstat (k_ls s1))(PendingN i := sp)" "\<And>h. sp \<noteq> NIn h"
    "\<And>g. lists (k_ls s2) g = None \<longleftrightarrow> lists (k_ls s1) g = None"
    by (auto simp: returns_iff)
  have e2: "s2 = s\<lparr>k_ls := k_ls s2\<rparr>" by (subst s2(3), subst s1(3)) simp
  have lk0: "k_lookup g AIXOS_OBJ_TIMER s = KTimer i" by (rule e(6))
  note f = release_effect[OF ok, of AIXOS_OBJ_TIMER AIXOS_POOL_TIMER g, simplified lk0, simplified]
  define os where "os = k_obj (k_slot_free AIXOS_POOL_TIMER g s)"
  have os: "k_slot_free AIXOS_POOL_TIMER g s2 = s2\<lparr>k_obj := os\<rparr>" by (subst (1 2) e2) (simp add: os_def k_slot_free_def)
  define s3 where "s3 = set_timer i zero_timer (s2\<lparr>k_obj := os\<rparr>)"
  define ls where "ls = (k_ls s2)\<lparr>nstat := (nstat (k_ls s2))(ActiveN i := NSelf, PendingN i := NSelf)\<rparr>"
  have nl: "\<not> linked (ActiveN i) (k_ls s3)" "\<not> linked (PendingN i) (k_ls s3)"
    using s1(4,5) s2(4,5) by (auto simp: s3_def linked_def split: nstate.splits)
  have st: "on_ls (list_init_node (ActiveN i)) s3 = Some (s3\<lparr>k_ls := (k_ls s2)\<lparr>nstat := (nstat (k_ls s2))(ActiveN i := NSelf)\<rparr>\<rparr>)"
    "on_ls (list_init_node (PendingN i)) (s3\<lparr>k_ls := (k_ls s2)\<lparr>nstat := (nstat (k_ls s2))(ActiveN i := NSelf)\<rparr>\<rparr>) = Some (s3\<lparr>k_ls := ls\<rparr>)"
    using nl by (simp_all add: on_ls_def list_init_node_def ls_def linked_def s3_def)
  have "lwf (k_ls s2)" by (rule kinvx_lwf[OF s2(2)])
  then have wf: "lwf ls"
    using nl set_nstat_lwf[of "k_ls s2" "ActiveN i" NSelf] set_nstat_lwf[of "(k_ls s2)\<lparr>nstat := (nstat (k_ls s2))(ActiveN i := NSelf)\<rparr>" "PendingN i" NSelf]
    by (simp add: ls_def s3_def linked_def)
  have "kinvx {} (s3\<lparr>k_ls := (k_ls s2)\<lparr>nstat := (nstat (k_ls s2))(ActiveN i := NSelf)\<rparr>\<rparr>)" (is "kinvx {} ?s4")
    by (rule kinvx_node[where s = s3 and n = "ActiveN i" and st = NSelf])
      (use s2(2) nl \<open>lwf (k_ls s2)\<close> in \<open>auto simp: s3_def kinvx_set_timer same_heads_def node_may_be_def
        kinvx_cong[of "s2\<lparr>k_obj := os\<rparr>" s2] intro!: set_nstat_lwf\<close>)
  then have inv4: "kinvx {} (s3\<lparr>k_ls := ls\<rparr>)"
    using kinvx_node[of "{}" ?s4 ls "PendingN i" NSelf] wf by (auto simp: same_heads_def node_may_be_def ls_def)
  have e4: "s3\<lparr>k_ls := ls\<rparr> = s\<lparr>k_obj := os, timer_pool := (timer_pool s)[i := zero_timer], k_ls := k_ls (s3\<lparr>k_ls := ls\<rparr>)\<rparr>"
    unfolding s3_def set_timer_def by (subst (1 2) e2) simp
  have lk: "k_lookup h ty' (s3\<lparr>k_ls := ls\<rparr>) = (if h = g \<and> ty' = AIXOS_OBJ_TIMER then KNull else k_lookup h ty' s)" for h ty'
    by (rule f(2)) (simp add: s3_def os_def)
  have "kernel_ok (s3\<lparr>k_ls := ls\<rparr>)"
  proof (rule timer_slot_ok[OF ok inv4 e4 _ _ e(1)])
    show "obj_inv os" unfolding os_def by (rule f(1))
    have t: "timer_pool (s3\<lparr>k_ls := ls\<rparr>) = (timer_pool s)[i := zero_timer]" by (subst e4, simp)
    show "timer_table (s3\<lparr>k_ls := ls\<rparr>)"
      unfolding t
      by (rule conjI, use o(7) in simp, rule table_ok_delete[OF conjunct2[OF o(7)] lk0])
        (use o(7) e(1) lk in \<open>auto simp: zero_timer_def\<close>)
  qed (use lk s1(4,6) s2(4,6) in \<open>auto simp: ls_def timer_entry_def zero_timer_def\<close>)
  then show ?thesis
    using False i s1(1) s2(1) p1 os st by (simp add: aixos_timer_delete_def s3_def del: returns_on_ls)
qed

end
