(* ===== verification/Ktask.thy ===== *)
theory Ktask
  imports Ktimer
begin

text \<open>
  The task operations under the kernel invariant: yielding, sleeping, suspending and resuming, new
  priorities, signals, the system tick, deletion and creation of tasks, and the scheduler itself.
\<close>

section \<open>Frames\<close>

lemma frame_chain: "kernel_ok s \<Longrightarrow> sched_frame s s' \<Longrightarrow> chain_ok s'"
  using objects_chain_ok objects_ok_frame kernel_okD(2) by blast

lemma kernel_ok_reschedule: "kernel_ok s \<Longrightarrow> kernel_ok (reschedule_request s)"
  using kernel_okI_frame[OF _ sched_frame_reschedule] kernel_okD(1) by simp

lemma preemption_keeps:
  assumes ok: "kernel_ok s"
  shows "returns (aixos_sched_request_preemption s) kernel_ok"
  by (rule returns_mono[OF request_preemption_returns[OF kernel_okD(1)[OF ok]]]) (use ok kernel_ok_reschedule in auto)

lemma note_keeps:
  assumes ok: "kernel_ok s" and t: "tcbs s a = Some t" and c: "same_core t (f t)"
  shows "returns (upd_tcb a f s) (\<lambda>s'. kernel_ok s' \<and> s' = s\<lparr>tcbs := (tcbs s)(a \<mapsto> f t)\<rparr>)"
  using ipc.note_task[OF ok t c] t by (simp add: upd_tcb_eq)

lemma handle_task:
  assumes ok: "kernel_ok s" and a: "aixos_tcb_from_handle g s \<noteq> 0"
  shows "\<exists>t. tcbs s (aixos_tcb_from_handle g s) = Some t \<and> t_handle t = g \<and> t_state t \<noteq> AIXOS_TASK_STOP"
  by (rule tcb_from_handle_live[OF objects_okD(1)[OF kernel_okD(2)[OF ok]] a])

text \<open>A task that is neither ready nor waiting is in no queue.\<close>

lemma parked_nodes:
  assumes inv: "kinvx {} s" and t: "tcbs s a = Some t" and st: "\<not> waiting_state (t_state t)"
  shows "t_wait_list t = None" "nstat (k_ls s) (WaitN a) = NSelf" "nstat (k_ls s) (TimeoutN a) = NSelf"
    "\<not> ready_state (t_state t) \<Longrightarrow> nstat (k_ls s) (ReadyN a) = NNull"
    "t_state t \<noteq> AIXOS_TASK_STOP \<Longrightarrow> nstat (k_ls s) (AllN a) = NIn AllTasks"
proof -
  note n = nodes_okD[OF kinvxD(4)[OF inv t]] and z = kinvxD(5)[OF inv _ t, simplified, unfolded settled_def]
  show "t_wait_list t = None" using z n(7) st by (cases "t_wait_list t") auto
  show "nstat (k_ls s) (WaitN a) = NSelf" using n(3,7) st by (cases "nstat (k_ls s) (WaitN a)") auto
  show "nstat (k_ls s) (TimeoutN a) = NSelf" using n(4,8) st by (cases "nstat (k_ls s) (TimeoutN a)") auto
qed (use kinvxD(5)[OF inv _ t] in \<open>auto simp: settled_def\<close>)

section \<open>Yield, sleep, suspend, resume\<close>

lemma yield_keeps: "kernel_ok s \<Longrightarrow> keeps_ok (aixos_task_yield s)"
proof -
  assume ok: "kernel_ok s"
  have "returns (aixos_sched_rotate_current s) kernel_ok"
    by (rule returns_mono[OF rotate_kinv[OF kernel_okD(1)[OF ok]]]) (use kernel_okI_frame[OF ok] in auto)
  then show ?thesis using ok kernel_ok_reschedule by (auto simp: aixos_task_yield_def returns_iff)
qed

lemma sleep_keeps:
  assumes ok: "kernel_ok s" and cb: "in_isr s \<or> can_block s"
  shows "keeps_ok (aixos_task_sleep ms s)"
  using ok yield_keeps[OF ok] kernel_block[OF ok cb, of AIXOS_OBJ_UNUSED None KNull ms]
  by (auto simp: aixos_task_sleep_def returns_iff)

lemma suspend_keeps:
  assumes ok: "kernel_ok s"
  shows "keeps_ok (aixos_task_suspend g s)"
proof (cases "in_isr s \<or> aixos_tcb_from_handle g s = 0")
  case True
  then show ?thesis using ok by (auto simp: aixos_task_suspend_def Let_def)
next
  case False
  define a where "a = aixos_tcb_from_handle g s"
  note inv = kernel_okD(1)[OF ok]
  obtain t where t: "tcbs s a = Some t" "t_state t \<noteq> AIXOS_TASK_STOP" using handle_task[OF ok, of g] False by (auto simp: a_def)
  show ?thesis
  proof (cases "t_state t = AIXOS_TASK_SUSPENDED \<or> a = cur_task s \<and> sched_locked s")
    case True
    then show ?thesis using False ok t by (auto simp: aixos_task_suspend_def a_def[symmetric] Let_def)
  next
    case go: False
    obtain s1 where s1: "aixos_sched_remove_task a s = Some s1" "kinvx {a} s1" "sched_frame s s1" "tcbs s1 = tcbs s"
      "nstat (k_ls s1) (ReadyN a) = NNull" "\<forall>n. n \<noteq> ReadyN a \<longrightarrow> nstat (k_ls s1) n = nstat (k_ls s) n"
      using remove_task_kinv[OF inv t(1)] by (auto simp: returns_iff)
    have t1: "tcbs s1 a = Some t" using t(1) s1(4) by simp
    have "AllN a \<noteq> ReadyN a" by simp
    have al: "nstat (k_ls s1) (AllN a) = NIn AllTasks"
      using kinvxD(5)[OF inv _ t(1)] t(2) s1(6) by (simp add: settled_def)
    let ?b = "t_state t = AIXOS_TASK_BLOCKED \<or> t_state t = AIXOS_TASK_DELAYED"
    have "returns (if ?b then task_detach_wait_locked a AIXOS_ERR_INTR s1 else Some s1) (\<lambda>s2. kinvx {a} s2 \<and> sched_frame s s2 \<and>
      nstat (k_ls s2) (ReadyN a) = NNull \<and> nstat (k_ls s2) (WaitN a) = NSelf \<and> nstat (k_ls s2) (TimeoutN a) = NSelf \<and>
      nstat (k_ls s2) (AllN a) = NIn AllTasks \<and>
      (\<exists>u. tcbs s2 a = Some u \<and> t_wait_list u = None \<and> t_state u \<noteq> AIXOS_TASK_STOP))"
    proof (cases ?b)
      case True
      note d = detach_kinv[OF s1(2) _ frame_chain[OF ok s1(3)] _ t1, of AIXOS_ERR_INTR]
      obtain s2 u where s2: "task_detach_wait_locked a AIXOS_ERR_INTR s1 = Some s2" "kinvx {a} s2" "wake_frame a s1 s2"
        "nstat (k_ls s2) (WaitN a) = NSelf" "nstat (k_ls s2) (TimeoutN a) = NSelf" "nstat (k_ls s2) (ReadyN a) = NNull" "boost t u"
        "tcbs s2 a = Some (u\<lparr>t_wait_obj := KNull, t_wait_list := None, t_wait_type := AIXOS_OBJ_UNUSED, t_wait_result := AIXOS_ERR_INTR\<rparr>)"
        using d s1(5) by (auto simp: returns_iff)
      have "nstat (k_ls s2) (AllN a) = NIn AllTasks" using wake_frameD(2)[OF s2(3), of "AllN a"] al by simp
      moreover have "t_state u \<noteq> AIXOS_TASK_STOP" using s2(7) t(2) by (auto simp: boost_def)
      ultimately show ?thesis using True s2 sched_frame_trans[OF s1(3) wake_frameD(1)[OF s2(3)]] by simp
    next
      case False
      have "\<not> waiting_state (t_state t)" using False by (simp add: waiting_state_def)
      note p = parked_nodes[OF inv t(1) this]
      have "nstat (k_ls s1) (WaitN a) = NSelf" "nstat (k_ls s1) (TimeoutN a) = NSelf" using p s1(6) by auto
      moreover have "returns (Some s1) Q = Q s1" for Q by simp
      ultimately show ?thesis unfolding if_not_P[OF False] using s1 al t1 p(1) t(2) by simp
    qed
    then obtain s2 u where s2: "(if ?b then task_detach_wait_locked a AIXOS_ERR_INTR s1 else Some s1) = Some s2"
      "kinvx {a} s2" "sched_frame s s2" "nstat (k_ls s2) (ReadyN a) = NNull" "nstat (k_ls s2) (WaitN a) = NSelf"
      "nstat (k_ls s2) (TimeoutN a) = NSelf" "nstat (k_ls s2) (AllN a) = NIn AllTasks" "tcbs s2 a = Some u"
      "t_wait_list u = None" "t_state u \<noteq> AIXOS_TASK_STOP"
      by (auto simp: returns_iff)
    let ?u = "u\<lparr>t_state := AIXOS_TASK_SUSPENDED\<rparr>"
    let ?s3 = "s2\<lparr>tcbs := (tcbs s2)(a \<mapsto> ?u)\<rparr>"
    have "kinvx {a} ?s3"
      by (rule kinvx_tcb[OF s2(2,8)]) (use kinvxD(3,4)[OF s2(2,8)] s2(4-7) in \<open>auto simp: tcb_ok_def nodes_ok_def waits_for_mutex_def\<close>)
    then have "kinvx {} ?s3"
      by (rule kinvx_settle) (use s2(4-9) in \<open>auto simp: settled_def\<close>)
    moreover have "sched_frame s ?s3"
      by (rule sched_frame_trans[OF s2(3) sched_frame_tcb[OF s2(8)]]) (use s2(10) in \<open>simp add: tcb_frame_def\<close>)
    ultimately have ok3: "kernel_ok ?s3" using kernel_okI_frame[OF ok] by blast
    have c3: "cur_task ?s3 = cur_task s" using frame_rest(2)[OF s2(3)] by simp
    show ?thesis
      using False go t s1(1) s2(1) upd_tcb_eq[OF s2(8)] ok3 kernel_ok_reschedule[OF ok3]
      by (auto simp: aixos_task_suspend_def a_def[symmetric] Let_def returns_iff)
  qed
qed

lemma resume_keeps:
  assumes ok: "kernel_ok s"
  shows "keeps_ok (aixos_task_resume g s)"
proof (cases "in_isr s \<or> aixos_tcb_from_handle g s = 0")
  case True
  then show ?thesis using ok by (auto simp: aixos_task_resume_def Let_def)
next
  case False
  define a where "a = aixos_tcb_from_handle g s"
  note inv = kernel_okD(1)[OF ok]
  obtain t where t: "tcbs s a = Some t" "t_state t \<noteq> AIXOS_TASK_STOP" using handle_task[OF ok, of g] False by (auto simp: a_def)
  show ?thesis
  proof (cases "t_state t = AIXOS_TASK_SUSPENDED")
    case False
    then show ?thesis using \<open>\<not> (in_isr s \<or> aixos_tcb_from_handle g s = 0)\<close> ok t
      by (simp add: aixos_task_resume_def a_def[symmetric] Let_def)
  next
    case sus: True
    note p = parked_nodes[OF inv t(1), unfolded sus, simplified]
    let ?u = "t\<lparr>t_state := AIXOS_TASK_READY\<rparr>"
    let ?s1 = "s\<lparr>tcbs := (tcbs s)(a \<mapsto> ?u)\<rparr>"
    have inv1: "kinvx {a} ?s1"
      by (rule kinvx_tcb[OF kinvx_mono[OF inv empty_subsetI] t(1)])
        (use kinvxD(3,4)[OF inv t(1)] p in \<open>auto simp: tcb_ok_def nodes_ok_def waits_for_mutex_def\<close>)
    have f1: "sched_frame s ?s1" by (rule sched_frame_tcb[OF t(1)]) (use sus in \<open>simp add: tcb_frame_def\<close>)
    obtain s2 where s2: "aixos_sched_add_task a ?s1 = Some s2" "kinvx {} s2" "sched_frame ?s1 s2"
      using add_task_kinv[OF inv1, of ?u] p by (auto simp: returns_iff linked_def)
    have ok2: "kernel_ok s2" by (rule kernel_okI_frame[OF ok sched_frame_trans[OF f1 s2(3)] s2(2)])
    show ?thesis
      using False t sus s2(1) upd_tcb_eq[OF t(1), of "\<lambda>t. t\<lparr>t_state := AIXOS_TASK_READY\<rparr>"] preemption_keeps[OF ok2]
      by (simp add: aixos_task_resume_def a_def[symmetric] Let_def)
  qed
qed

section \<open>Priorities\<close>

lemma set_priority_keeps:
  assumes ok: "kernel_ok s"
  shows "keeps_ok (aixos_task_set_priority g pr s)"
proof (cases "pr < 0 \<or> pr \<ge> int AIXOS_CFG_MAX_PRIORITY \<or> aixos_tcb_from_handle g s = 0")
  case True
  then show ?thesis using ok by (auto simp: aixos_task_set_priority_def Let_def)
next
  case False
  define a where "a = aixos_tcb_from_handle g s"
  note inv = kernel_okD(1)[OF ok]
  obtain t where t: "tcbs s a = Some t" using handle_task[OF ok, of g] False by (auto simp: a_def)
  let ?u = "t\<lparr>t_base_priority := pr, t_priority := pr\<rparr>"
  let ?s1 = "s\<lparr>tcbs := (tcbs s)(a \<mapsto> ?u)\<rparr>"
  have op: "only_priority t ?u" using False by (simp add: only_priority_def prio_ok_def)
  obtain s2 where s2: "aixos_sched_requeue_task a (t_priority t) ?s1 = Some s2" "kinvx {} s2" "sched_frame s s2"
    "tcbs s2 = (tcbs s)(a \<mapsto> ?u)"
    using new_priority_kinv[OF inv t op] by (auto simp: returns_iff)
  have a2: "a = 0 \<or> tcbs s2 a \<noteq> None" using s2(4) by simp
  obtain s3 where s3: "aixos_mutex_task_priority_changed a s2 = Some s3" "kinvx {} s3" "rc_frame s2 s3"
    using task_priority_changed_kinv[OF s2(2) frame_chain[OF ok s2(3)] _ a2] by (auto simp: returns_iff)
  have ok3: "kernel_ok s3"
    by (rule kernel_okI_frame[OF ok sched_frame_trans[OF s2(3) rc_frameD(1)[OF s3(3)]] s3(2)])
  show ?thesis
    using False t s2(1) s3(1) upd_tcb_eq[OF t, of "\<lambda>t. t\<lparr>t_base_priority := pr, t_priority := pr\<rparr>"] preemption_keeps[OF ok3]
    by (simp add: aixos_task_set_priority_def a_def[symmetric] Let_def)
qed

section \<open>Signals\<close>

lemma signal_send_keeps:
  assumes ok: "kernel_ok s"
  shows "keeps_ok (aixos_task_signal_send g signo s)"
proof (cases "signo \<ge> 32 \<or> aixos_tcb_from_handle g s = 0")
  case True
  then show ?thesis using ok by (auto simp: aixos_task_signal_send_def Let_def)
next
  case False
  define a where "a = aixos_tcb_from_handle g s"
  obtain t where t: "tcbs s a = Some t" using handle_task[OF ok, of g] False by (auto simp: a_def)
  let ?f = "\<lambda>t. t\<lparr>t_signal_pending := t_signal_pending t OR bitm (unat signo)\<rparr>"
  let ?g = "\<lambda>t. t\<lparr>t_signal_pending := t_signal_pending t OR bitm (unat signo), t_pending_signal := True\<rparr>"
  have f: "returns (upd_tcb a ?f s) kernel_ok"
    by (rule returns_mono[OF note_keeps[OF ok t]]) (auto simp: same_core_def)
  obtain s1 where s1: "upd_tcb a ?g s = Some s1" "kernel_ok s1" "s1 = s\<lparr>tcbs := (tcbs s)(a \<mapsto> ?g t)\<rparr>"
    using note_keeps[OF ok t, of ?g] by (auto simp: returns_iff same_core_def)
  have w: "returns (aixos_task_wake a AIXOS_OK s1) kernel_ok"
    by (rule returns_mono[OF kernel_wake[OF s1(2)]]) (use s1(3) in auto)
  show ?thesis
    using False t f s1(1,2) w by (auto simp: aixos_task_signal_send_def a_def[symmetric] Let_def returns_iff)
qed

lemma signal_own_keeps:
  assumes ok: "kernel_ok s"
  shows "keeps_ok (aixos_task_signal_handle signo h arg s)" "keeps_ok (aixos_task_signal_mask msk s)"
    "keeps_ok (aixos_task_signal_deliver s)"
proof -
  have n: "returns (upd_tcb (cur_task s) f s) kernel_ok" if "cur_task s \<noteq> 0" "\<And>t. same_core t (f t)" for f
    using ipc.note_current[OF ok that] by auto
  show "keeps_ok (aixos_task_signal_handle signo h arg s)" "keeps_ok (aixos_task_signal_mask msk s)"
    using ok n by (auto simp: aixos_task_signal_handle_def aixos_task_signal_mask_def same_core_def)
  show "keeps_ok (aixos_task_signal_deliver s)"
  proof (cases "cur_task s = 0")
    case False
    obtain t where t: "tcbs s (cur_task s) = Some t" using kinvxD(6)[OF kernel_okD(1)[OF ok] False] by blast
    show ?thesis
      using ok False t n[OF False, of "\<lambda>t. let t = t\<lparr>t_signal_pending := t_signal_pending t AND NOT (bitm sg)\<rparr>
                 in if t_signal_pending t = 0 then t\<lparr>t_pending_signal := False\<rparr> else t" for sg]
      by (auto simp: aixos_task_signal_deliver_def Let_def same_core_def)
  qed (use ok in \<open>simp add: aixos_task_signal_deliver_def\<close>)
qed

section \<open>The system tick\<close>

lemma check_stack_keeps:
  assumes ok: "kernel_ok s"
  shows "returns (check_current_stack s) kernel_ok"
proof (cases "cur_task s = 0")
  case False
  obtain t where t: "tcbs s (cur_task s) = Some t" using kinvxD(6)[OF kernel_okD(1)[OF ok] False] by blast
  have "task_stack_guard_ok (cur_task s) s \<noteq> None" using False t by (auto simp: task_stack_guard_ok_def)
  then obtain g where g: "task_stack_guard_ok (cur_task s) s = Some g" by blast
  have "returns (upd_tcb (cur_task s) (\<lambda>t. t\<lparr>t_stack_guard_failed := True\<rparr>) s) kernel_ok"
    using ipc.note_current[OF ok False, of "\<lambda>t. t\<lparr>t_stack_guard_failed := True\<rparr>"] by (auto simp: same_core_def)
  moreover have "kernel_ok (k_record ev d0 d1 s') \<longleftrightarrow> kernel_ok s'" for ev d0 d1 s'
    by (rule kernel_ok_cong) (simp_all add: k_record_def)
  ultimately show ?thesis using False t g ok by (auto simp: check_current_stack_def)
qed (use ok in \<open>simp add: check_current_stack_def\<close>)

lemma timeout_loop_keeps:
  assumes "kernel_ok s" "\<And>n. n \<in> set xs \<Longrightarrow> \<exists>a. node_task n = Some a \<and> tcbs s a \<noteq> None"
  shows "returns (timeout_loop now xs s) kernel_ok"
  using assms
proof (induction xs arbitrary: s)
  case (Cons n xs)
  obtain a t where a: "node_task n = Some a" "tcbs s a = Some t" using Cons.prems(2)[of n] by auto
  show ?case
  proof (cases "tick_reached now (t_wake_tick t)")
    case True
    let ?r = "if t_state t = AIXOS_TASK_DELAYED then AIXOS_OK else AIXOS_ERR_TIMEOUT"
    obtain s1 where s1: "aixos_task_wake a ?r s = Some s1" "kernel_ok s1" "\<forall>b. tcbs s1 b = None \<longleftrightarrow> tcbs s b = None"
      using kernel_wake[OF Cons.prems(1), of a ?r] a(2) by (auto simp: returns_iff)
    have "returns (timeout_loop now xs s1) kernel_ok" by (rule Cons.IH[OF s1(2)]) (use Cons.prems(2) s1(3) in auto)
    then show ?thesis using a True s1(1) by simp
  qed (use a Cons.prems(1) in simp)
qed simp

lemma task_tick_keeps:
  assumes ok: "kernel_ok s"
  shows "returns (aixos_task_tick now s) kernel_ok"
proof -
  obtain s1 where s1: "check_current_stack s = Some s1" "kernel_ok s1" using check_stack_keeps[OF ok] by (auto simp: returns_iff)
  note inv = kernel_okD(1)[OF s1(2)]
  obtain xs where xs: "lists (k_ls s1) TimeoutList = Some xs" using kinvx_core[OF inv, of TimeoutList] by auto
  have "returns (timeout_loop now xs s1) kernel_ok"
  proof (rule timeout_loop_keeps[OF s1(2)])
    fix n assume n: "n \<in> set xs"
    note m = kinvx_members[OF inv xs n]
    obtain a where a: "n = TimeoutN a" using fits_TimeoutList m(2) by blast
    then show "\<exists>a. node_task n = Some a \<and> tcbs s1 a \<noteq> None" using m(3)[of a] by auto
  qed
  then show ?thesis using s1(1) xs by (simp add: aixos_task_tick_def members_def)
qed

end
