(* ===== verification/Kswitch.thy ===== *)
theory Kswitch
  imports Ktask
begin

text \<open>
  The system tick and the context switch under the kernel invariant. The timing wheel is always
  empty, so its tick only turns it; the scheduler picks the head of the highest queue that is not
  empty and marks it running.
\<close>

section \<open>The timing wheel\<close>

lemma wheel_empty:
  assumes inv: "kinvx X s"
  shows "i < AIXOS_CFG_TW_SIZE1 \<Longrightarrow> lists (k_ls s) (TwL1 i) = Some []" "i < AIXOS_CFG_TW_SIZE2 \<Longrightarrow> lists (k_ls s) (TwL2 i) = Some []"
proof -
  have e: "lists (k_ls s) h = Some []" if "core_head h" "\<And>n. \<not> node_fits h n" for h
  proof -
    note c = that
    obtain xs where xs: "lists (k_ls s) h = Some xs" using kinvx_core[OF inv c(1)] by blast
    have "n \<notin> set xs" for n using kinvx_members(2)[OF inv xs] c(2) by blast
    then have "xs = []" by (cases xs) auto
    then show ?thesis using xs by simp
  qed
  show "i < AIXOS_CFG_TW_SIZE1 \<Longrightarrow> lists (k_ls s) (TwL1 i) = Some []" by (rule e) simp_all
  show "i < AIXOS_CFG_TW_SIZE2 \<Longrightarrow> lists (k_ls s) (TwL2 i) = Some []" by (rule e) simp_all
qed

lemma objects_ok_same:
  assumes ok: "objects_ok s"
    and e: "k_ls s' = k_ls s" "tcbs s' = tcbs s" "k_obj s' = k_obj s" "sem_pool s' = sem_pool s" "mutex_pool s' = mutex_pool s"
      "mq_pool s' = mq_pool s" "event_pool s' = event_pool s" "pipe_pool s' = pipe_pool s" "timer_pool s' = timer_pool s"
    and tw: "tw_low s' < AIXOS_CFG_TW_SIZE1" "tw_high s' < AIXOS_CFG_TW_SIZE2"
  shows "objects_ok s'"
proof -
  have lk: "k_lookup g ty s' = k_lookup g ty s" for g ty by (rule lookup_cong[OF e(3)])
  have mo: "mutex_owner i s' = mutex_owner i s" for i by (rule mutex_owner_cong[OF e(3,5)])
  have "tasks_ok s'" using objects_okD(1)[OF ok] unfolding tasks_ok_def lk e .
  moreover have "mutexes_ok s'" using objects_okD(8)[OF ok] unfolding mutexes_ok_def mo e .
  moreover have "timers_ok s'" using objects_okD(9)[OF ok] unfolding timers_ok_def e .
  ultimately show ?thesis using ok tw unfolding objects_ok_def lk e by blast
qed

lemma kernel_ok_wheel:
  "kernel_ok s \<Longrightarrow> l < AIXOS_CFG_TW_SIZE1 \<Longrightarrow> h < AIXOS_CFG_TW_SIZE2 \<Longrightarrow> kernel_ok (s\<lparr>tw_low := l, tw_high := h\<rparr>)"
proof -
  assume ok: "kernel_ok s" and b: "l < AIXOS_CFG_TW_SIZE1" "h < AIXOS_CFG_TW_SIZE2"
  let ?s = "s\<lparr>tw_low := l, tw_high := h\<rparr>"
  have "kinvx {} ?s" using kinvx_cong[of ?s s] kernel_okD(1)[OF ok] by simp
  moreover have "objects_ok ?s" by (rule objects_ok_same[OF kernel_okD(2)[OF ok]]) (use b in simp_all)
  ultimately show ?thesis unfolding kernel_ok_def by blast
qed

lemma wheel_tick_keeps:
  assumes ok: "kernel_ok s"
  shows "returns (aixos_timing_wheel_tick now s) (\<lambda>s'. kernel_ok s' \<and> (\<exists>l h. s' = s\<lparr>tw_low := l, tw_high := h\<rparr>))"
proof -
  note inv = kernel_okD(1)[OF ok]
  have tw: "tw_low s < AIXOS_CFG_TW_SIZE1" "tw_high s < AIXOS_CFG_TW_SIZE2" using kernel_okD(2)[OF ok] by (simp_all add: objects_ok_def)
  let ?l = "(tw_low s + 1) mod AIXOS_CFG_TW_SIZE1"
  let ?h = "if ?l = 0 then (tw_high s + 1) mod AIXOS_CFG_TW_SIZE2 else tw_high s"
  have "aixos_timing_wheel_tick now s = Some (s\<lparr>tw_low := ?l, tw_high := ?h\<rparr>)"
    using wheel_empty[OF inv] tw by (simp add: aixos_timing_wheel_tick_def members_def Let_def)
  moreover have "kernel_ok (s\<lparr>tw_low := ?l, tw_high := ?h\<rparr>)" by (rule kernel_ok_wheel[OF ok]) (use tw in simp_all)
  ultimately have "returns (aixos_timing_wheel_tick now s) (\<lambda>s'. kernel_ok s' \<and> s' = s\<lparr>tw_low := ?l, tw_high := ?h\<rparr>)" by simp
  then show ?thesis by (rule returns_mono) blast
qed

section \<open>The tick handler\<close>

lemma kernel_ok_ticks [simp]: "kernel_ok (s\<lparr>total_ticks := x\<rparr>) \<longleftrightarrow> kernel_ok s" "kernel_ok (s\<lparr>idle_ticks := y\<rparr>) \<longleftrightarrow> kernel_ok s"
  by (rule kernel_ok_cong; simp)+

lemma tick_account_keeps: "kernel_ok s \<Longrightarrow> returns (tick_account s) kernel_ok"
  using ipc.note_current[of s "\<lambda>t. t\<lparr>t_runtime_ticks := t_runtime_ticks t + 1,
               t_time_slice := (if t_time_slice t > 0 then t_time_slice t - 1 else t_time_slice t)\<rparr>"]
  by (auto simp: tick_account_def same_core_def)

lemma tick_slice_keeps:
  assumes ok: "kernel_ok s"
  shows "returns (tick_slice s) kernel_ok"
proof (cases "cur_task s = 0")
  case False
  obtain t where t: "tcbs s (cur_task s) = Some t" using kinvxD(6)[OF kernel_okD(1)[OF ok] False] by blast
  obtain s1 where s1: "upd_tcb (cur_task s) (\<lambda>t. t\<lparr>t_time_slice := AIXOS_CFG_TIME_SLICE_TICKS\<rparr>) s = Some s1" "kernel_ok s1"
    using ipc.note_current[OF ok False, of "\<lambda>t. t\<lparr>t_time_slice := AIXOS_CFG_TIME_SLICE_TICKS\<rparr>"] by (auto simp: same_core_def)
  have "returns (aixos_sched_rotate_current s1) kernel_ok"
    by (rule returns_mono[OF rotate_kinv[OF kernel_okD(1)[OF s1(2)]]]) (use kernel_okI_frame[OF s1(2)] in auto)
  then show ?thesis using False t s1(1) ok kernel_ok_reschedule by (auto simp: tick_slice_def returns_iff)
qed (use ok in \<open>simp add: tick_slice_def\<close>)

lemma tick_handler_keeps:
  assumes ok: "kernel_ok s"
  shows "returns (aixos_tick_handler s) kernel_ok"
proof -
  let ?s = "s\<lparr>total_ticks := total_ticks s + 1\<rparr>"
  have ok0: "kernel_ok ?s" using ok by simp
  obtain s1 where s1: "aixos_timing_wheel_tick (aixos_get_tick ?s) ?s = Some s1" "kernel_ok s1"
    using wheel_tick_keeps[OF ok0] by (auto simp: returns_iff)
  obtain s2 where s2: "tick_account s1 = Some s2" "kernel_ok s2" using tick_account_keeps[OF s1(2)] by (auto simp: returns_iff)
  obtain s3 where s3: "aixos_task_tick (aixos_get_tick s2) s2 = Some s3" "kernel_ok s3"
    using task_tick_keeps[OF s2(2)] by (auto simp: returns_iff)
  obtain s4 where s4: "aixos_timer_tick (aixos_get_tick s3) s3 = Some s4" "kernel_ok s4"
    using timer_tick_keeps[OF s3(2)] by (auto simp: returns_iff)
  show ?thesis
    using s1(1) s2(1) s3(1) s4(1) tick_slice_keeps[OF s4(2)] by (simp add: aixos_tick_handler_def)
qed

section \<open>The context switch\<close>

text \<open>Turning a task between ready and running, and changing the current task.\<close>

lemma run_state_keeps:
  assumes ok: "kernel_ok s" and t: "tcbs s a = Some t" and r: "ready_state (t_state t)" "ready_state st"
  shows "kernel_ok (s\<lparr>tcbs := (tcbs s)(a \<mapsto> t\<lparr>t_state := st\<rparr>)\<rparr>)"
proof (rule kernel_okI_frame[OF ok sched_frame_tcb[OF t]])
  note inv = kernel_okD(1)[OF ok]
  have w: "\<not> waiting_state (t_state t)" using r(1) waiting_not_ready by blast
  have s: "settled (k_ls s) (system_running s) a t" using kinvxD(5)[OF inv _ t] by simp
  show "tcb_frame t (t\<lparr>t_state := st\<rparr>)" using r by (auto simp: tcb_frame_def ready_state_def)
  have ns: "t_state t \<noteq> AIXOS_TASK_STOP" using r(1) by (auto simp: ready_state_def)
  show "kinvx {} (s\<lparr>tcbs := (tcbs s)(a \<mapsto> t\<lparr>t_state := st\<rparr>)\<rparr>)"
    by (rule kinvx_tcb[OF inv t])
      (use kinvxD(3,4)[OF inv t] s w r ns in \<open>auto simp: tcb_ok_def nodes_ok_def waits_for_mutex_def settled_def\<close>)
qed

lemma kernel_ok_current:
  assumes "kernel_ok s" "a = 0 \<or> tcbs s a \<noteq> None"
  shows "kernel_ok (s\<lparr>cur_task := a\<rparr>)"
proof -
  let ?s = "s\<lparr>cur_task := a\<rparr>"
  have "kinvx {} ?s" using kernel_okD(1)[OF assms(1)] assms(2) unfolding kinvx_def by auto
  moreover have "objects_ok ?s"
    by (rule objects_ok_same[OF kernel_okD(2)[OF assms(1)]]) (use kernel_okD(2)[OF assms(1)] in \<open>simp_all add: objects_ok_def\<close>)
  ultimately show ?thesis unfolding kernel_ok_def by blast
qed

lemma kernel_ok_other [simp]:
  "kernel_ok (s\<lparr>k_mpu := m\<rparr>) \<longleftrightarrow> kernel_ok s" "kernel_ok (s\<lparr>switch_count := c\<rparr>) \<longleftrightarrow> kernel_ok s"
  "kernel_ok (k_record ev d0 d1 s) \<longleftrightarrow> kernel_ok s" "kernel_ok (s\<lparr>k_switch := b\<rparr>) \<longleftrightarrow> kernel_ok s"
  "kernel_ok (s\<lparr>k_isr := i\<rparr>) \<longleftrightarrow> kernel_ok s" "kernel_ok (s\<lparr>k_trace := tr\<rparr>) \<longleftrightarrow> kernel_ok s"
  "kernel_ok (s\<lparr>first_start := b\<rparr>) \<longleftrightarrow> kernel_ok s" "kernel_ok (s\<lparr>k_heap := hp\<rparr>) \<longleftrightarrow> kernel_ok s"
  "kernel_ok (s\<lparr>task_count := n\<rparr>) \<longleftrightarrow> kernel_ok s"
  by (rule kernel_ok_cong; simp add: k_record_def)+

text \<open>The task that runs after a switch: the head of the highest queue, in state running.\<close>

definition scheduled :: "kstate \<Rightarrow> bool" where
  "scheduled s \<longleftrightarrow> is_highest (cur_task s) s \<and>
     (cur_task s \<noteq> 0 \<longrightarrow> (\<exists>t. tcbs s (cur_task s) = Some t \<and> t_state t = AIXOS_TASK_RUNNING))"

lemma is_highest_cong: "k_ls s' = k_ls s \<Longrightarrow> is_highest a s' \<longleftrightarrow> is_highest a s"
  by (simp add: is_highest_def members_def)

lemma schedule_keeps:
  assumes ok: "kernel_ok s"
  shows "returns (aixos_schedule s) (\<lambda>s'. kernel_ok s' \<and> scheduled s' \<and> k_ls s' = k_ls s \<and>
    (\<forall>b. b \<noteq> cur_task s \<longrightarrow> b \<noteq> cur_task s' \<longrightarrow> tcbs s' b = tcbs s b))"
proof -
  note inv = kernel_okD(1)[OF ok]
  let ?p = "cur_task s"
  obtain n where n: "sched_find_highest s = Some n" "is_highest n s" using find_highest_correct[OF inv] by (auto simp: returns_iff)
  let ?f = "\<lambda>t. if t_state t = AIXOS_TASK_RUNNING then t\<lparr>t_state := AIXOS_TASK_READY\<rparr> else t"
  have "returns (if ?p \<noteq> 0 then upd_tcb ?p ?f s else Some s) (\<lambda>s1. kernel_ok s1 \<and> k_ls s1 = k_ls s \<and>
      (\<forall>b. b \<noteq> ?p \<longrightarrow> tcbs s1 b = tcbs s b) \<and> (\<forall>b. tcbs s1 b = None \<longleftrightarrow> tcbs s b = None))"
  proof (cases "?p = 0")
    case False
    obtain t where t: "tcbs s ?p = Some t" using kinvxD(6)[OF inv False] by blast
    have "kernel_ok (s\<lparr>tcbs := (tcbs s)(?p \<mapsto> ?f t)\<rparr>)"
    proof (cases "t_state t = AIXOS_TASK_RUNNING")
      case True
      then show ?thesis using run_state_keeps[OF ok t, of AIXOS_TASK_READY] by simp
    next
      case False
      then have "(tcbs s)(?p \<mapsto> ?f t) = tcbs s" using t by auto
      then show ?thesis using ok by simp
    qed
    then show ?thesis using False t by (simp add: upd_tcb_eq)
  qed (use ok in simp)
  then obtain s1 where s1: "(if ?p \<noteq> 0 then upd_tcb ?p ?f s else Some s) = Some s1" "kernel_ok s1" "k_ls s1 = k_ls s"
    "\<forall>b. b \<noteq> ?p \<longrightarrow> tcbs s1 b = tcbs s b" "\<forall>b. tcbs s1 b = None \<longleftrightarrow> tcbs s b = None"
    by (auto simp: returns_iff)
  have n1: "is_highest n s1" using n(2) is_highest_cong[OF s1(3)] by simp
  define s2 where "s2 = s1\<lparr>cur_task := n\<rparr>"
  have nl: "n \<noteq> 0 \<Longrightarrow> \<exists>t. tcbs s1 n = Some t \<and> ready_state (t_state t)"
    using is_highest_live[OF kernel_okD(1)[OF s1(2)] n1] kinvxD(5)[OF kernel_okD(1)[OF s1(2)], of n] by (fastforce simp: settled_def)
  have ok2: "kernel_ok s2" unfolding s2_def by (rule kernel_ok_current[OF s1(2)]) (use nl in auto)
  let ?g = "\<lambda>t. t\<lparr>t_state := AIXOS_TASK_RUNNING\<rparr>"
  have "returns (if n \<noteq> 0 then upd_tcb n ?g s2 else Some s2) (\<lambda>s3. kernel_ok s3 \<and> k_ls s3 = k_ls s \<and> cur_task s3 = n \<and>
      (\<forall>b. b \<noteq> n \<longrightarrow> tcbs s3 b = tcbs s1 b) \<and> (\<forall>b. tcbs s3 b = None \<longleftrightarrow> tcbs s1 b = None) \<and>
      (n \<noteq> 0 \<longrightarrow> (\<exists>t. tcbs s3 n = Some t \<and> t_state t = AIXOS_TASK_RUNNING)))"
  proof (cases "n = 0")
    case False
    obtain t where t: "tcbs s1 n = Some t" "ready_state (t_state t)" using nl[OF False] by blast
    have "kernel_ok (s2\<lparr>tcbs := (tcbs s2)(n \<mapsto> ?g t)\<rparr>)"
      by (rule run_state_keeps[OF ok2]) (use t in \<open>simp_all add: s2_def\<close>)
    then show ?thesis using False t s1(3) by (simp add: upd_tcb_def s2_def)
  qed (use ok2 s1(3) in \<open>simp add: s2_def\<close>)
  then obtain s3 where s3: "(if n \<noteq> 0 then upd_tcb n ?g s2 else Some s2) = Some s3" "kernel_ok s3" "k_ls s3 = k_ls s"
    "cur_task s3 = n" "\<forall>b. b \<noteq> n \<longrightarrow> tcbs s3 b = tcbs s1 b" "\<forall>b. tcbs s3 b = None \<longleftrightarrow> tcbs s1 b = None"
    "n \<noteq> 0 \<longrightarrow> (\<exists>t. tcbs s3 n = Some t \<and> t_state t = AIXOS_TASK_RUNNING)"
    by (auto simp: returns_iff)
  define s4 where "s4 = s3\<lparr>k_mpu := aixos_arch_mpu_configure_task (if n = 0 then None else tcbs s3 n) (k_mpu s3)\<rparr>"
  have s4: "kernel_ok s4" "k_ls s4 = k_ls s" "cur_task s4 = n" "tcbs s4 = tcbs s3" using s3 by (simp_all add: s4_def)
  have hi: "is_highest n s4" using n(2) is_highest_cong[OF s4(2)] by simp
  show ?thesis
  proof (cases "n = ?p")
    case True
    then have c: "(n \<noteq> ?p) = False" by simp
    have "aixos_schedule s = Some s4"
      by (simp only: aixos_schedule_def Let_def n(1) Option.bind.bind_lunit s1(1) s2_def[symmetric] s3(1) s4_def[symmetric] c if_False)
    moreover have "scheduled s4" using hi s4(3,4) s3(7) by (simp add: scheduled_def)
    ultimately show ?thesis using s4 s3(5) s1(4) True by simp
  next
    case False
    define s5 where "s5 = s4\<lparr>switch_count := switch_count s4 + 1\<rparr>"
    have s5: "kernel_ok s5" "k_ls s5 = k_ls s" "cur_task s5 = n" "tcbs s5 = tcbs s3" using s4 by (simp_all add: s5_def)
    let ?h = "\<lambda>t. t\<lparr>t_switch_count := t_switch_count t + 1\<rparr>"
    have "returns (if n \<noteq> 0 then upd_tcb n ?h s5 else Some s5) (\<lambda>s6. kernel_ok s6 \<and> k_ls s6 = k_ls s \<and> cur_task s6 = n \<and>
      (\<forall>b. b \<noteq> n \<longrightarrow> tcbs s6 b = tcbs s1 b) \<and> (\<forall>b. tcbs s6 b = None \<longleftrightarrow> tcbs s b = None) \<and>
      (n \<noteq> 0 \<longrightarrow> (\<exists>t. tcbs s6 n = Some t \<and> t_state t = AIXOS_TASK_RUNNING)))"
    proof (cases "n = 0")
      case False
      obtain t where t: "tcbs s5 n = Some t" "t_state t = AIXOS_TASK_RUNNING" using s3(7) s5(4) False by auto
      have tn: "\<exists>y. tcbs s n = Some y" using t(1) s5(4) s3(6) s1(5) by (metis not_None_eq)
      show ?thesis
        using note_keeps[OF s5(1) t(1), of ?h] False t tn s5 s3(5,6) s1(5) by (auto simp: returns_iff same_core_def)
    qed (use s5 s3(5,6) s1(5) in simp)
    then obtain s6 where s6: "(if n \<noteq> 0 then upd_tcb n ?h s5 else Some s5) = Some s6" "kernel_ok s6" "k_ls s6 = k_ls s"
      "cur_task s6 = n" "\<forall>b. b \<noteq> n \<longrightarrow> tcbs s6 b = tcbs s1 b" "\<forall>b. tcbs s6 b = None \<longleftrightarrow> tcbs s b = None"
      "n \<noteq> 0 \<longrightarrow> (\<exists>t. tcbs s6 n = Some t \<and> t_state t = AIXOS_TASK_RUNNING)"
      by (auto simp: returns_iff)
    have "?p \<noteq> 0 \<Longrightarrow> tcbs s6 ?p \<noteq> None" using kinvxD(6)[OF inv] s6(6) by auto
    then obtain d0 where d0: "(if ?p \<noteq> 0 then map_option t_handle (tcbs s6 ?p) else Some UINT32_MAX) = Some d0"
      by (cases "?p = 0") auto
    obtain d1 where d1: "(if n \<noteq> 0 then map_option t_handle (tcbs s6 n) else Some UINT32_MAX) = Some d1"
      using s6(7) by (cases "n = 0") auto
    have "aixos_schedule s = Some (k_record AIXOS_TRACE_TASK_SWITCH d0 d1 s6)"
      by (simp only: aixos_schedule_def Let_def n(1) Option.bind.bind_lunit s1(1) s2_def[symmetric] s3(1) s4_def[symmetric]
          s5_def[symmetric] s6(1) d0 d1 False not_False_eq_True if_True)
    moreover have "is_highest n (k_record AIXOS_TRACE_TASK_SWITCH d0 d1 s6)" 
      using n(2) is_highest_cong[of "k_record AIXOS_TRACE_TASK_SWITCH d0 d1 s6" s n] s6(3) by (simp add: k_record_def)
    ultimately show ?thesis using s6 s1(4) by (simp add: scheduled_def) (simp add: k_record_def)
  qed
qed

lemma context_switch_keeps:
  assumes "kernel_ok s"
  shows "returns (context_switch s) (\<lambda>s'. kernel_ok s' \<and> scheduled s')"
  unfolding context_switch_def
  by (rule returns_mono[OF schedule_keeps]) (use assms in auto)

end
