(* ===== verification/Klife.thy ===== *)
theory Klife
  imports Kswitch
begin

text \<open>
  The life of a task under the kernel invariant: deletion, the reaping of stopped tasks by the idle
  task, and creation. A deleted task is in no list and no handle resolves to it; its control block is
  released only when it is not the current one.
\<close>

section \<open>Changes of the task table\<close>

lemma objects_ok_tasks:
  assumes ok: "objects_ok s" and obj: "\<And>g ty. ty \<noteq> AIXOS_OBJ_TASK \<Longrightarrow> k_lookup g ty s' = k_lookup g ty s" and tk: "tasks_ok s'"
    and p: "sem_pool s' = sem_pool s" "mutex_pool s' = mutex_pool s" "mq_pool s' = mq_pool s" "event_pool s' = event_pool s"
      "pipe_pool s' = pipe_pool s" "timer_pool s' = timer_pool s" "tw_low s' = tw_low s" "tw_high s' = tw_high s"
    and L: "\<And>h. head_type h \<noteq> AIXOS_OBJ_UNUSED \<Longrightarrow> lists (k_ls s') h = None \<longleftrightarrow> lists (k_ls s) h = None"
    and N: "\<And>n. node_type n \<noteq> AIXOS_OBJ_UNUSED \<Longrightarrow> nstat (k_ls s') n = nstat (k_ls s) n"
    and mo: "\<And>i h. nstat (k_ls s) (OwnerN i) = NIn h \<Longrightarrow> mutex_owner i s' = mutex_owner i s"
  shows "objects_ok s'"
proof -
  note o = objects_okD[OF ok]
  have keep: "table_ok (\<lambda>h. k_lookup h ty s') ptr hnd m heads (lists (k_ls s'))"
    if "table_ok (\<lambda>h. k_lookup h ty s) ptr hnd m heads (lists (k_ls s))" "ty \<noteq> AIXOS_OBJ_TASK"
      "\<And>i. list_all (\<lambda>g. head_type g \<noteq> AIXOS_OBJ_UNUSED) (heads i)" for ty ptr hnd m heads
    by (rule table_ok_mono[OF that(1)]) (use that obj L in \<open>auto simp: list_all_iff\<close>)
  have "sem_table s'" "mutex_table s'" "mq_table s'" "event_table s'" "pipe_table s'" "timer_table s'"
    using o(2-7) keep[OF conjunct2[OF o(2)]] keep[OF conjunct2[OF o(3)]] keep[OF conjunct2[OF o(4)]]
      keep[OF conjunct2[OF o(5)]] keep[OF conjunct2[OF o(6)]] keep[OF conjunct2[OF o(7)]] p by simp_all
  moreover have "mutexes_ok s'"
    unfolding mutexes_ok_def
  proof (intro conjI allI impI)
    fix i h assume "nstat (k_ls s') (OwnerN i) = NIn h"
    then have n: "nstat (k_ls s) (OwnerN i) = NIn h" using N[of "OwnerN i"] by simp
    note d = mutexes_okD[OF o(8) n]
    show "i < AIXOS_CFG_MAX_MUTEX" "h = HeldMutexes (mutex_owner i s')" "mutex_owner i s' \<noteq> 0"
      "mx_handle (mutex_pool s' ! i) \<noteq> 0" "lists (k_ls s') (MutexWait i) \<noteq> None" "mx_owner (mutex_pool s' ! i) \<noteq> AIXOS_HANDLE_INVALID"
      using d mo[OF n] p L[of "MutexWait i"] by simp_all
  next
    fix i assume "i < AIXOS_CFG_MAX_MUTEX" "mx_handle (mutex_pool s' ! i) \<noteq> 0"
    then show "nstat (k_ls s') (OwnerN i) \<noteq> NNull" using o(8) N[of "OwnerN i"] p unfolding mutexes_ok_def by simp
  qed
  moreover have "timers_ok s'"
  proof -
    have n: "nstat (k_ls s') (ActiveN i) = nstat (k_ls s) (ActiveN i)" "nstat (k_ls s') (PendingN i) = nstat (k_ls s) (PendingN i)" for i
      using N[of "ActiveN i"] N[of "PendingN i"] by simp_all
    show ?thesis using o(9) unfolding timers_ok_def n p .
  qed
  ultimately show ?thesis using ok tk p unfolding objects_ok_def by simp
qed

text \<open>Releasing the control block of a stopped task.\<close>

lemma drop_tcb_ok:
  assumes ok: "kernel_ok s" and t: "tcbs s a = Some t" "t_state t = AIXOS_TASK_STOP" and c: "a \<noteq> cur_task s"
    and al: "\<And>h. nstat (k_ls s) (AllN a) \<noteq> NIn h"
  shows "kernel_ok (s\<lparr>tcbs := (tcbs s)(a := None)\<rparr>)"
proof -
  note inv = kernel_okD(1)[OF ok] and o = kernel_okD(2)[OF ok]
  let ?s = "s\<lparr>tcbs := (tcbs s)(a := None)\<rparr>"
  have w: "\<not> waiting_state (t_state t)" using t(2) by simp
  note p = parked_nodes[OF inv t(1) w]
  have "nstat (k_ls s) n \<noteq> NIn h" if "node_task n = Some a" for n h
    using that al p t(2) by (cases n) auto
  then have "kinvx {} ?s" using inv c unfolding kinvx_def by (auto split: if_splits)
  moreover have "objects_ok ?s"
  proof (rule objects_ok_tasks[OF o])
    show "tasks_ok ?s"
      unfolding tasks_ok_def
    proof (intro conjI allI impI)
      show "obj_inv (k_obj ?s)" using tasks_okD(1)[OF objects_okD(1)[OF o]] by simp
      fix h b assume "k_lookup h AIXOS_OBJ_TASK ?s = KTask b"
      then have "\<exists>u. tcbs s b = Some u \<and> t_handle u = h \<and> t_state u \<noteq> AIXOS_TASK_STOP"
        using tasks_okD(2)[OF objects_okD(1)[OF o], of h b] lookup_cong[of ?s s] by simp
      then show "\<exists>u. tcbs ?s b = Some u \<and> t_handle u = h \<and> t_state u \<noteq> AIXOS_TASK_STOP" using t by auto
    next
      fix b u assume "tcbs ?s b = Some u" "t_state u \<noteq> AIXOS_TASK_STOP"
      then show "t_handle u \<noteq> AIXOS_HANDLE_INVALID" "k_lookup (t_handle u) AIXOS_OBJ_TASK ?s = KTask b"
        using tasks_okD(3,4)[OF objects_okD(1)[OF o]] lookup_cong[of ?s s] by (auto split: if_splits)
    qed
    show "mutex_owner i ?s = mutex_owner i s" for i by (rule mutex_owner_cong) simp_all
  qed (simp_all add: lookup_cong[of ?s s])
  ultimately show ?thesis unfolding kernel_ok_def by blast
qed

lemma release_keeps:
  assumes ok: "kernel_ok s" and t: "tcbs s a = Some t" "t_state t = AIXOS_TASK_STOP" and c: "a \<noteq> cur_task s"
    and al: "\<And>h. nstat (k_ls s) (AllN a) \<noteq> NIn h"
  shows "returns (release_task_memory a s) (\<lambda>s'. kernel_ok s' \<and> k_ls s' = k_ls s \<and> cur_task s' = cur_task s \<and>
    (\<forall>b. b \<noteq> a \<longrightarrow> tcbs s' b = tcbs s b))"
proof -
  have d: "kernel_ok (s\<lparr>tcbs := (tcbs s)(a := None), k_heap := hp\<rparr>)" for hp
    using drop_tcb_ok[OF ok t c al] by simp
  have e: "(k_free p s)\<lparr>tcbs := T\<rparr> = s\<lparr>tcbs := T, k_heap := k_heap (k_free p s)\<rparr>" for p T s
    by (rule kstate.equality) (simp_all add: k_free_def)
  have f: "k_ls (k_free p s) = k_ls s" "tcbs (k_free p s) = tcbs s" "cur_task (k_free p s) = cur_task s"
    "kernel_ok (k_free p s) \<longleftrightarrow> kernel_ok s" for p s by (simp_all add: k_free_def)
  have d': "kernel_ok ((k_free p s)\<lparr>tcbs := (tcbs s)(a := None)\<rparr>)"
    "kernel_ok ((k_free p (k_free q s))\<lparr>tcbs := (tcbs s)(a := None)\<rparr>)" for p q
    using d unfolding e by (simp_all add: k_free_def)
  show ?thesis
    using t(1) ok d' by (simp add: release_task_memory_def f)
qed

section \<open>Deletion\<close>

lemma task_delete_keeps:
  assumes ok: "kernel_ok s"
  shows "keeps_ok (aixos_task_delete g s)"
proof (cases "aixos_tcb_from_handle g s = 0 \<or> \<not> aixos_mutex_task_can_delete (aixos_tcb_from_handle g s) s \<or>
    aixos_tcb_from_handle g s = cur_task s \<and> sched_locked s")
  case True
  then show ?thesis using ok by (auto simp: aixos_task_delete_def Let_def)
next
  case False
  define a where "a = aixos_tcb_from_handle g s"
  note inv = kernel_okD(1)[OF ok]
  have a0: "a \<noteq> 0" and hm: "lists (k_ls s) (HeldMutexes a) = Some []"
    using False by (auto simp: a_def aixos_mutex_task_can_delete_def head_empty_Some)
  obtain t where t: "tcbs s a = Some t" "t_handle t = g" "t_state t \<noteq> AIXOS_TASK_STOP"
    using handle_task[OF ok, of g] a0 by (auto simp: a_def)
  obtain s1 where s1: "aixos_sched_remove_task a s = Some s1" "kinvx {a} s1" "sched_frame s s1" "tcbs s1 = tcbs s"
    "nstat (k_ls s1) (ReadyN a) = NNull" "\<forall>n. n \<noteq> ReadyN a \<longrightarrow> nstat (k_ls s1) n = nstat (k_ls s) n"
    using remove_task_kinv[OF inv t(1)] by (auto simp: returns_iff)
  have t1: "tcbs s1 a = Some t" using t(1) s1(4) by simp
  obtain s2 u where s2: "task_detach_wait_locked a AIXOS_ERR_INTR s1 = Some s2" "kinvx {a} s2" "wake_frame a s1 s2"
    "nstat (k_ls s2) (WaitN a) = NSelf" "nstat (k_ls s2) (TimeoutN a) = NSelf" "nstat (k_ls s2) (ReadyN a) = NNull"
    "tcbs s2 a = Some u" "t_wait_list u = None" "t_state u \<noteq> AIXOS_TASK_STOP"
    using detach_kinv[OF s1(2) _ frame_chain[OF ok s1(3)] _ t1, of AIXOS_ERR_INTR] s1(5) t(3)
    by (auto simp: returns_iff boost_def)
  have f2: "sched_frame s s2" by (rule sched_frame_trans[OF s1(3) wake_frameD(1)[OF s2(3)]])
  note o2 = objects_ok_frame[OF f2 kernel_okD(2)[OF ok]] and r2 = frame_rest[OF f2]
  have al2: "nstat (k_ls s2) (AllN a) = NIn AllTasks"
    using wake_frameD(2)[OF s2(3), of "AllN a"] s1(6) kinvxD(5)[OF inv _ t(1)] t(3) by (simp add: settled_def)
  have hm2: "lists (k_ls s2) (HeldMutexes a) = Some []" using sched_frameD(5)[OF f2, of "HeldMutexes a"] hm by simp
  have lk2: "k_lookup h ty s2 = k_lookup h ty s" for h ty by (rule lookup_cong[OF r2(1)])
  have lka: "k_lookup g AIXOS_OBJ_TASK s = KTask a"
    using tasks_okD(4)[OF objects_okD(1)[OF kernel_okD(2)[OF ok]] t(1,3)] t(2) by simp
  obtain ls where ls: "list_del (AllN a) (k_ls s2) = Some ls" using al2 by (simp add: list_del_def)
  note dl = list_del_Some[OF ls]
  let ?s3 = "s2\<lparr>k_ls := ls\<rparr>"
  have inv3: "kinvx {a} ?s3"
    by (rule kinvx_node[OF s2(2) list_del_lwf[OF ls kinvx_lwf[OF s2(2)]] _ dl(1)])
      (use al2 in \<open>auto simp: same_heads_def dl(2) node_may_be_def\<close>)
  let ?u = "u\<lparr>t_state := AIXOS_TASK_STOP\<rparr>"
  let ?s4 = "?s3\<lparr>tcbs := (tcbs s2)(a \<mapsto> ?u)\<rparr>"
  have u3: "tcbs ?s3 a = Some u" using s2(7) by simp
  have n3: "nstat ls (WaitN a) = NSelf" "nstat ls (TimeoutN a) = NSelf" "nstat ls (ReadyN a) = NNull" "nstat ls (AllN a) = NNull"
    using s2(4-6) dl(1) by simp_all
  have "kinvx {a} (?s3\<lparr>tcbs := (tcbs ?s3)(a \<mapsto> ?u)\<rparr>)"
    by (rule kinvx_tcb[OF inv3 u3])
      (use kinvxD(3,4)[OF inv3 u3] n3 s2(8) in \<open>auto simp: tcb_ok_def nodes_ok_def waits_for_mutex_def\<close>)
  then have inv4: "kinvx {} ?s4"
    using kinvx_settle[of a "{}" ?s4] n3 s2(8) by (simp add: settled_def)
  define s6 where "s6 = (k_slot_free AIXOS_POOL_TASK g ?s4)\<lparr>task_count := task_count (k_slot_free AIXOS_POOL_TASK g ?s4) - 1\<rparr>"
  have tk0: "type_to_pool_id AIXOS_OBJ_TASK = AIXOS_POOL_TASK" by (simp add: type_to_pool_id_def)
  have e6: "k_ls s6 = ls" "tcbs s6 = (tcbs s2)(a \<mapsto> ?u)" "cur_task s6 = cur_task s" "k_obj s6 = k_obj (k_slot_free AIXOS_POOL_TASK g s)"
    using r2(1,2) by (simp_all add: s6_def k_slot_free_def)
  have inv6: "kinvx {} s6" using kinvx_cong[of s6 ?s4 "{}"] inv4 by (simp add: s6_def k_slot_free_def)
  note fr = k_slot_free_effect[OF tasks_okD(1)[OF objects_okD(1)[OF kernel_okD(2)[OF ok]]], of AIXOS_OBJ_TASK g, unfolded tk0 lka, simplified]
  have lk6: "k_lookup h ty s6 = (if h = g \<and> ty = AIXOS_OBJ_TASK then KNull else k_lookup h ty s)" for h ty
    using fr(2)[of h ty] lookup_cong[OF e6(4)] by simp
  have "objects_ok s6"
  proof (rule objects_ok_tasks[OF o2])
    show "tasks_ok s6"
      unfolding tasks_ok_def
    proof (intro conjI allI impI)
      show "obj_inv (k_obj s6)" using fr(1) by (simp add: e6(4))
      fix h b assume h: "k_lookup h AIXOS_OBJ_TASK s6 = KTask b"
      then have hg: "h \<noteq> g" "k_lookup h AIXOS_OBJ_TASK s2 = KTask b" by (auto simp: lk6 lk2 split: if_splits)
      then obtain v where v: "tcbs s2 b = Some v" "t_handle v = h" "t_state v \<noteq> AIXOS_TASK_STOP"
        using tasks_okD(2)[OF objects_okD(1)[OF o2]] by blast
      have "b \<noteq> a"
      proof
        assume "b = a"
        then have "tcb_frame t v" using sched_frameD(9)[OF f2, of a v] v(1) t(1) by auto
        then show False using hg(1) v(2) t(2) by (simp add: tcb_frame_def)
      qed
      then show "\<exists>v. tcbs s6 b = Some v \<and> t_handle v = h \<and> t_state v \<noteq> AIXOS_TASK_STOP" using v by (simp add: e6)
    next
      fix b v assume "tcbs s6 b = Some v" "t_state v \<noteq> AIXOS_TASK_STOP"
      then have b: "b \<noteq> a" "tcbs s2 b = Some v" "t_state v \<noteq> AIXOS_TASK_STOP" by (auto simp: e6 split: if_splits)
      show "t_handle v \<noteq> AIXOS_HANDLE_INVALID" by (rule tasks_okD(3)[OF objects_okD(1)[OF o2] b(2,3)])
      have "k_lookup (t_handle v) AIXOS_OBJ_TASK s = KTask b" using tasks_okD(4)[OF objects_okD(1)[OF o2] b(2,3)] by (simp add: lk2)
      then show "k_lookup (t_handle v) AIXOS_OBJ_TASK s6 = KTask b" using lka b(1) by (auto simp: lk6)
    qed
    show "mutex_owner i s6 = mutex_owner i s2" if "nstat (k_ls s2) (OwnerN i) = NIn h" for i h
    proof -
      note d = mutexes_okD[OF objects_okD(8)[OF o2] that]
      have "mutex_owner i s2 \<noteq> a"
        using lwfD(3)[OF kinvx_lwf[OF s2(2)] that] d(2) hm2 by auto
      then have "mx_owner (mutex_pool s2 ! i) \<noteq> g"
        using lka by (auto simp: mutex_owner_eq aixos_tcb_from_handle_def lk2)
      moreover have "mutex_pool s6 = mutex_pool s2" by (simp add: s6_def k_slot_free_def)
      ultimately show ?thesis by (simp add: mutex_owner_eq aixos_tcb_from_handle_def lk6 lk2)
    qed
    show "nstat (k_ls s6) n = nstat (k_ls s2) n" if "node_type n \<noteq> AIXOS_OBJ_UNUSED" for n
      using that by (cases n) (auto simp: e6 dl(1))
    show "lists (k_ls s6) h = None \<longleftrightarrow> lists (k_ls s2) h = None" for h by (simp add: e6 dl(2))
  qed (simp_all add: lk6 lk2, simp_all add: s6_def k_slot_free_def)
  then have ok6: "kernel_ok s6" using inv6 by (simp add: kernel_ok_def)
  have u6: "tcbs s6 a = Some ?u" "t_state ?u = AIXOS_TASK_STOP" by (simp_all add: e6)
  have al6: "nstat (k_ls s6) (AllN a) \<noteq> NIn h" for h using n3 by (simp add: e6)
  have eq: "aixos_task_delete g s = (if a = cur_task s
      then do { s \<leftarrow> on_ls (list_add_tail (AllN a) ReapList) s6; Some (Blocked, reschedule_request (s\<lparr>cur_task := a\<rparr>)) }
      else do { s \<leftarrow> release_task_memory a s6; Some (Done AIXOS_OK, k_record AIXOS_TRACE_TASK_DELETE g 0 s) })"
  proof -
    have g: "(a = 0) = False" "(\<not> aixos_mutex_task_can_delete a s) = False" "(a = cur_task s \<and> sched_locked s) = False"
      using False by (auto simp: a_def)
    have l: "on_ls (list_del (AllN a)) s2 = Some ?s3" using ls by (simp add: on_ls_def)
    have up: "upd_tcb a (\<lambda>t. t\<lparr>t_state := AIXOS_TASK_STOP\<rparr>) ?s3 = Some ?s4" using u3 by (simp add: upd_tcb_def)
    show ?thesis
      by (simp only: aixos_task_delete_def a_def[symmetric] Let_def g if_False Option.bind.bind_lunit s1(1) s2(1) l up s6_def[symmetric])
  qed
  show ?thesis
  proof (cases "a = cur_task s")
    case True
    obtain rs where rs: "lists ls ReapList = Some rs" using kinvx_core[OF inv6, of ReapList] by (auto simp: e6)
    have nl: "\<not> linked (AllN a) ls" using n3 by (simp add: linked_def)
    define l7 where "l7 = ls\<lparr>lists := (lists ls)(ReapList \<mapsto> rs @ [AllN a]), nstat := (nstat ls)(AllN a := NIn ReapList)\<rparr>"
    have add: "list_add_tail (AllN a) ReapList (k_ls s6) = Some l7" using rs nl by (simp add: list_add_tail_def l7_def e6)
    let ?s7 = "s6\<lparr>k_ls := l7\<rparr>"
    have "kinvx {} ?s7"
      by (rule kinvx_node[OF inv6 list_add_tail_lwf[OF add kinvx_lwf[OF inv6]], where n = "AllN a" and st = "NIn ReapList"])
        (use rs u6 in \<open>auto simp: same_heads_def l7_def e6 node_may_be_def\<close>)
    moreover have "objects_ok ?s7"
    proof (rule objects_ok_tasks[OF \<open>objects_ok s6\<close>])
      show "tasks_ok ?s7" using objects_okD(1)[OF \<open>objects_ok s6\<close>] unfolding tasks_ok_def by (simp add: lookup_cong[of ?s7 s6])
      show "nstat (k_ls ?s7) n = nstat (k_ls s6) n" if "node_type n \<noteq> AIXOS_OBJ_UNUSED" for n
        using that by (cases n) (auto simp: e6 l7_def)
      show "mutex_owner i ?s7 = mutex_owner i s6" for i by (rule mutex_owner_cong) simp_all
    qed (simp_all add: lookup_cong[of ?s7 s6], auto simp: l7_def e6 rs)
    ultimately have ok7: "kernel_ok ?s7" by (simp add: kernel_ok_def)
    have "kernel_ok (?s7\<lparr>cur_task := a\<rparr>)" by (rule kernel_ok_current[OF ok7]) (use u6 in simp)
    then show ?thesis using True add kernel_ok_reschedule unfolding eq by (simp add: on_ls_def)
  next
    case False
    have "a \<noteq> cur_task s6" using False e6(3) by simp
    note rel = release_keeps[OF ok6 u6 this al6]
    then show ?thesis using False unfolding eq by (auto simp: returns_iff)
  qed
qed

section \<open>The idle task\<close>

text \<open>A stopped task is unlinked from the reap list. Nothing else of the kernel state changes.\<close>

lemma all_node_keeps:
  assumes ok: "kernel_ok s" and inv: "kinvx {} (s\<lparr>k_ls := ls\<rparr>)"
    and L: "\<And>h. lists ls h = None \<longleftrightarrow> lists (k_ls s) h = None" and N: "nstat ls = (nstat (k_ls s))(AllN a := st)"
  shows "kernel_ok (s\<lparr>k_ls := ls\<rparr>)"
proof -
  let ?s = "s\<lparr>k_ls := ls\<rparr>"
  have "objects_ok ?s"
  proof (rule objects_ok_tasks[OF kernel_okD(2)[OF ok]])
    show "tasks_ok ?s" using objects_okD(1)[OF kernel_okD(2)[OF ok]] unfolding tasks_ok_def by (simp add: lookup_cong[of ?s s])
    show "nstat (k_ls ?s) n = nstat (k_ls s) n" if "node_type n \<noteq> AIXOS_OBJ_UNUSED" for n
      using that by (cases n) (auto simp: N)
    show "mutex_owner i ?s = mutex_owner i s" for i by (rule mutex_owner_cong) simp_all
  qed (simp_all add: lookup_cong[of ?s s] L)
  then show ?thesis using inv by (simp add: kernel_ok_def)
qed

lemma reap_loop_keeps:
  assumes "kernel_ok s" "lists (k_ls s) ReapList = Some xs" "cur_task s = 0 \<or> (\<exists>t. tcbs s (cur_task s) = Some t \<and> t_state t \<noteq> AIXOS_TASK_STOP)"
  shows "returns (reap_loop xs s) (\<lambda>s'. kernel_ok s' \<and> lists (k_ls s') ReapList = Some [])"
  using assms
proof (induction xs arbitrary: s)
  case Nil
  then show ?case by simp
next
  case (Cons n xs)
  note ok = Cons.prems(1) and inv = kernel_okD(1)[OF Cons.prems(1)]
  note m = kinvx_members[OF inv Cons.prems(2), of n, simplified]
  obtain a where a: "n = AllN a" using m(2) by (cases n) auto
  obtain t where t: "tcbs s a = Some t" using m(3)[of a] a by auto
  have st: "t_state t = AIXOS_TASK_STOP"
    using kinvxD(5)[OF inv _ t] m(1) a by (cases "t_state t = AIXOS_TASK_STOP") (auto simp: settled_def)
  have c: "a \<noteq> cur_task s" using Cons.prems(3) t st nodes_okD(1)[OF kinvxD(4)[OF inv t]] by auto
  obtain ls where ls: "list_del (AllN a) (k_ls s) = Some ls" using m(1) a by (simp add: list_del_def)
  note d = list_del_Some[OF ls]
  have "kinvx {} (s\<lparr>k_ls := ls\<rparr>)"
    by (rule kinvx_node[OF inv list_del_lwf[OF ls kinvx_lwf[OF inv]] _ d(1)])
      (use m(1) a t st in \<open>auto simp: same_heads_def d(2) node_may_be_def\<close>)
  then have ok1: "kernel_ok (s\<lparr>k_ls := ls\<rparr>)" by (rule all_node_keeps[OF ok _ _ d(1)]) (simp add: d(2))
  have al: "nstat (k_ls (s\<lparr>k_ls := ls\<rparr>)) (AllN a) \<noteq> NIn h" for h by (simp add: d(1))
  obtain s2 where s2: "release_task_memory a (s\<lparr>k_ls := ls\<rparr>) = Some s2" "kernel_ok s2" "k_ls s2 = ls" "cur_task s2 = cur_task s"
    "\<forall>b. b \<noteq> a \<longrightarrow> tcbs s2 b = tcbs s b"
    using release_keeps[OF ok1 _ st _ al] t c by (auto simp: returns_iff)
  have r: "lists (k_ls s2) ReapList = Some xs" using Cons.prems(2) m(1) a by (simp add: s2(3) d(2))
  have "cur_task s2 = 0 \<or> (\<exists>t. tcbs s2 (cur_task s2) = Some t \<and> t_state t \<noteq> AIXOS_TASK_STOP)"
    using Cons.prems(3) s2(4,5) c by metis
  then have "returns (reap_loop xs s2) (\<lambda>s'. kernel_ok s' \<and> lists (k_ls s') ReapList = Some [])"
    by (rule Cons.IH[OF s2(2) r])
  then show ?case using a ls s2(1) by (simp add: on_ls_def)
qed

lemma idle_keeps:
  assumes ok: "kernel_ok s" and cb: "can_block s"
  shows "returns (idle_task_entry s) (\<lambda>s'. kernel_ok s' \<and> lists (k_ls s') ReapList = Some [])"
proof -
  obtain xs where xs: "lists (k_ls s) ReapList = Some xs" using kinvx_core[OF kernel_okD(1)[OF ok], of ReapList] by auto
  have "cur_task s = 0 \<or> (\<exists>t. tcbs s (cur_task s) = Some t \<and> t_state t \<noteq> AIXOS_TASK_STOP)"
    using cb by (auto simp: can_block_def ready_state_def)
  then show ?thesis using reap_loop_keeps[OF ok xs] xs by (simp add: idle_task_entry_def reap_stopped_tasks_def members_def)
qed

section \<open>Creation\<close>

text \<open>The control block that \<open>task_create_common\<close> fills in must not be in use: otherwise its nodes
  are linked and the initialisation of the lists would destroy them.\<close>

lemma tcb_lists_init_Some:
  assumes i: "tcb_lists_init a s = Some s'"
  shows "s' = s\<lparr>k_ls := k_ls s'\<rparr>"
    "nstat (k_ls s') = (nstat (k_ls s))(ReadyN a := NSelf, AllN a := NSelf, WaitN a := NSelf, TimeoutN a := NSelf)"
    "lists (k_ls s') = (lists (k_ls s))(HeldMutexes a \<mapsto> [])"
    "lists (k_ls s) (HeldMutexes a) = None \<or> lists (k_ls s) (HeldMutexes a) = Some []"
    "\<not> linked (AllN a) (k_ls s)" "\<not> linked (ReadyN a) (k_ls s)" "\<not> linked (WaitN a) (k_ls s)" "\<not> linked (TimeoutN a) (k_ls s)"
    "lwf (k_ls s) \<Longrightarrow> lwf (k_ls s')"
proof -
  obtain l1 l2 l3 l4 l5 where l: "list_init_node (ReadyN a) (k_ls s) = Some l1" "list_init_node (AllN a) l1 = Some l2"
    "list_init_node (WaitN a) l2 = Some l3" "list_init_node (TimeoutN a) l3 = Some l4" "list_init_head (HeldMutexes a) l4 = Some l5"
    "s' = s\<lparr>k_ls := l5\<rparr>"
    using i by (auto simp: tcb_lists_init_def on_ls_def split: option.splits Option.bind_splits)
  note n = init_node_Some[OF l(1)] init_node_Some[OF l(2)] init_node_Some[OF l(3)] init_node_Some[OF l(4)]
  have h: "lists l4 (HeldMutexes a) = None \<or> lists l4 (HeldMutexes a) = Some []" "l5 = l4\<lparr>lists := (lists l4)(HeldMutexes a \<mapsto> [])\<rparr>"
    using l(5) by (auto simp: list_init_head_def split: if_splits)
  show "s' = s\<lparr>k_ls := k_ls s'\<rparr>" by (simp add: l(6))
  show "nstat (k_ls s') = (nstat (k_ls s))(ReadyN a := NSelf, AllN a := NSelf, WaitN a := NSelf, TimeoutN a := NSelf)"
    using n h by (simp add: l(6))
  show "lists (k_ls s') = (lists (k_ls s))(HeldMutexes a \<mapsto> [])"
    "lists (k_ls s) (HeldMutexes a) = None \<or> lists (k_ls s) (HeldMutexes a) = Some []" using n h by (simp_all add: l(6))
  show "\<not> linked (AllN a) (k_ls s)" "\<not> linked (ReadyN a) (k_ls s)" "\<not> linked (WaitN a) (k_ls s)" "\<not> linked (TimeoutN a) (k_ls s)"
    using n by (simp_all add: linked_def)
  show "lwf (k_ls s')" if "lwf (k_ls s)"
    using list_init_head_lwf[OF l(5)] list_init_node_lwf[OF l(4)] list_init_node_lwf[OF l(3)] list_init_node_lwf[OF l(2)]
      list_init_node_lwf[OF l(1) that] by (simp add: l(6))
qed

text \<open>The state with the new task in it, before it is made ready.\<close>

lemma new_task_kinv:
  assumes inv: "kinvx {} s" and st: "\<And>t. tcbs s a = Some t \<Longrightarrow> t_state t = AIXOS_TASK_STOP" and a0: "a \<noteq> 0"
    and wf: "lwf ls" and N: "nstat ls = (nstat (k_ls s))(ReadyN a := NSelf, AllN a := NIn AllTasks, WaitN a := NSelf, TimeoutN a := NSelf)"
    and L: "lists ls = (lists (k_ls s))(HeldMutexes a \<mapsto> [], AllTasks \<mapsto> xs)"
    and t: "tcb_ok t" "t_state t = AIXOS_TASK_READY" "t_wait_list t = None"
    and e: "ready_bitmap s' = ready_bitmap s" "k_ls s' = ls" "tcbs s' = (tcbs s)(a \<mapsto> t)" "system_running s' = system_running s" "cur_task s' = cur_task s"
  shows "kinvx (if system_running s then {a} else {}) s'"
proof (rule kinvxI)
  have R: "same_heads (k_ls s) ls" by (auto simp: same_heads_def L)
  show "queues_ok (k_ls s') (ready_bitmap s')"
    unfolding e by (rule queues_ok_lists[OF kinvxD(1)[OF inv] wf R]) (auto simp: N split: if_splits)
  fix n h b assume "nstat (k_ls s') n = NIn h" "node_task n = Some b"
  then show "tcbs s' b \<noteq> None" using kinvxD(2)[OF inv, of n h b] by (auto simp: e N split: if_splits)
next
  fix b u assume u: "tcbs s' b = Some u"
  show "tcb_ok u" using u t(1) kinvxD(3)[OF inv] by (auto simp: e split: if_splits)
  show "nodes_ok (k_ls s') b u"
  proof (cases "b = a")
    case True
    then show ?thesis using u t a0 by (auto simp: e nodes_ok_def N L)
  next
    case False
    then show ?thesis using u kinvxD(4)[OF inv, of b u] by (auto simp: e nodes_ok_def N L)
  qed
next
  fix b u assume b: "b \<notin> (if system_running s then {a} else {})" and u: "tcbs s' b = Some u"
  show "settled (k_ls s') (system_running s') b u"
  proof (cases "b = a")
    case True
    then show ?thesis using u b t by (auto simp: e settled_def N split: if_splits)
  next
    case False
    then show ?thesis using u kinvxD(5)[OF inv, of b u] by (auto simp: e settled_def N)
  qed
next
  assume "cur_task s' \<noteq> 0"
  then show "tcbs s' (cur_task s') \<noteq> None" using kinvxD(6)[OF inv] by (auto simp: e)
qed

text \<open>The end of \<open>task_create_common\<close>, after a slot has been claimed.\<close>

definition install_task ::
  "string option \<Rightarrow> u32 \<Rightarrow> u32 \<Rightarrow> u32 \<Rightarrow> u32 \<Rightarrow> int \<Rightarrow> bool \<Rightarrow> bool \<Rightarrow> bool \<Rightarrow> u32 \<Rightarrow> u32 \<Rightarrow> int \<Rightarrow> kstate \<Rightarrow> (aixos_handle_t \<times> kstate) option" where
  "install_task name entry arg stack_base stack_size priority owns_tcb owns_stack user_task tcb stack_alloc_base slot s = do {
     let handle = aixos_slot_handle AIXOS_POOL_TASK slot (k_obj s);
     s \<leftarrow> tcb_lists_init tcb s;
     s \<leftarrow> Some (k_write stack_base (replicate (unat stack_size) 0xA5) s);
     s \<leftarrow> Some (k_write stack_base (replicate (unat AIXOS_CFG_STACK_GUARD_BYTES) 0xE7) s);
     (stack_top, s) \<leftarrow> Some (aixos_arch_stack_init entry (stack_base + stack_size) arg s);
     let t = aixos_mpu_task_init ((new_tcb name priority handle stack_base stack_alloc_base stack_size
               owns_tcb owns_stack user_task)\<lparr>t_stack_top := stack_top\<rparr>);
     s \<leftarrow> Some (s\<lparr>tcbs := (tcbs s)(tcb \<mapsto> t)\<rparr>);
     s \<leftarrow> on_ls (list_add_tail (AllN tcb) AllTasks) s;
     s \<leftarrow> Some (s\<lparr>task_count := task_count s + 1\<rparr>);
     s \<leftarrow> (if system_running s then aixos_sched_add_task tcb s else Some s);
     Some (handle, k_record AIXOS_TRACE_TASK_CREATE handle (word_of_int priority) s)
   }"

lemma install_task_ok:
  assumes ok: "kernel_ok s" and a0: "a \<noteq> 0" and pr: "0 \<le> priority" "priority < int AIXOS_CFG_MAX_PRIORITY"
    and al: "k_slot_alloc AIXOS_POOL_TASK (KTask a) s = Some (slot, s1)" "0 \<le> slot"
    and i: "install_task name entry arg sb sz priority ot os ut a sab slot s1 = Some (h, s')" and h: "h \<noteq> AIXOS_HANDLE_INVALID"
  shows "kernel_ok s'" "task_count s' = task_count s + 1"
proof -
  note inv = kernel_okD(1)[OF ok] and o = objects_okD[OF kernel_okD(2)[OF ok]]
  have tk0: "type_to_pool_id AIXOS_OBJ_TASK = AIXOS_POOL_TASK" by (simp add: type_to_pool_id_def)
  have ty: "0 \<le> type_to_pool_id AIXOS_OBJ_TASK" by (simp add: tk0)
  have ob: "KTask a \<noteq> KNull" by simp
  note ef = k_slot_alloc_effect[OF tasks_okD(1)[OF o(1)] ty ob al(1)[folded tk0]]
  have hh: "h = aixos_slot_handle AIXOS_POOL_TASK slot (k_obj s1)"
    using i by (auto simp: install_task_def Let_def split: Option.bind_splits prod.splits)
  have ef4: "h \<noteq> 0" "k_lookup h AIXOS_OBJ_TASK s = KNull"
    "\<And>g ty. k_lookup g ty s1 = (if g = h \<and> ty = AIXOS_OBJ_TASK then KTask a else k_lookup g ty s)"
    using ef(4)[OF al(2), of h] hh tk0 by auto
  have e1: "k_ls s1 = k_ls s" "tcbs s1 = tcbs s" "system_running s1 = system_running s" "cur_task s1 = cur_task s"
    "ready_bitmap s1 = ready_bitmap s" "task_count s1 = task_count s" "sem_pool s1 = sem_pool s" "mutex_pool s1 = mutex_pool s" "mq_pool s1 = mq_pool s"
    "event_pool s1 = event_pool s" "pipe_pool s1 = pipe_pool s" "timer_pool s1 = timer_pool s" "tw_low s1 = tw_low s" "tw_high s1 = tw_high s"
    by (subst ef(1), simp)+
  obtain s2 where s2: "tcb_lists_init a s1 = Some s2"
    using i by (auto simp: install_task_def Let_def split: Option.bind_splits)
  note ti = tcb_lists_init_Some[OF s2]
  have st: "t_state u = AIXOS_TASK_STOP" if "tcbs s a = Some u" for u
    using kinvxD(5)[OF inv _ that] ti(5) e1(1) by (auto simp: settled_def linked_def)
  have "\<exists>hp top. aixos_arch_stack_init entry (sb + sz) arg
      (k_write sb (replicate (unat AIXOS_CFG_STACK_GUARD_BYTES) 0xE7) (k_write sb (replicate (unat sz) 0xA5) s2)) = (top, s2\<lparr>k_heap := hp\<rparr>)"
    by (auto simp: aixos_arch_stack_init_def k_write_def Let_def split: prod.split)
  then obtain hp top where ar: "aixos_arch_stack_init entry (sb + sz) arg
      (k_write sb (replicate (unat AIXOS_CFG_STACK_GUARD_BYTES) 0xE7) (k_write sb (replicate (unat sz) 0xA5) s2)) = (top, s2\<lparr>k_heap := hp\<rparr>)"
    by blast
  define t where "t = aixos_mpu_task_init ((new_tcb name priority h sb sab sz ot os ut)\<lparr>t_stack_top := top\<rparr>)"
  have t: "t_state t = AIXOS_TASK_READY" "t_wait_list t = None" "t_handle t = h" "t_priority t = priority" "t_base_priority t = priority"
    "t_wait_type t = AIXOS_OBJ_UNUSED" "tcb_ok t"
    using pr by (auto simp: t_def aixos_mpu_task_init_def new_tcb_def zero_tcb_def Let_def tcb_ok_def prio_ok_def waits_for_mutex_def)
  have all: "list_add_tail (AllN a) AllTasks (k_ls s2) \<noteq> None"
    using i unfolding install_task_def Let_def hh[symmetric] s2 Option.bind.bind_lunit ar prod.case t_def[symmetric]
    by (auto simp: on_ls_def split: option.splits)
  then obtain xs where xs: "lists (k_ls s2) AllTasks = Some xs" by (auto simp: list_add_tail_def split: option.splits)
  have nl: "\<not> linked (AllN a) (k_ls s2)" using ti(2) by (simp add: linked_def)
  define ls where "ls = (k_ls s2)\<lparr>lists := (lists (k_ls s2))(AllTasks \<mapsto> xs @ [AllN a]), nstat := (nstat (k_ls s2))(AllN a := NIn AllTasks)\<rparr>"
  have add: "list_add_tail (AllN a) AllTasks (k_ls s2) = Some ls" using xs nl by (simp add: list_add_tail_def ls_def)
  have wf: "lwf ls" by (rule list_add_tail_lwf[OF add ti(9)]) (simp add: e1(1) kinvx_lwf[OF inv])
  define s6 where "s6 = s2\<lparr>k_heap := hp, tcbs := (tcbs s2)(a \<mapsto> t), k_ls := ls, task_count := task_count s2 + 1\<rparr>"
  have e2: "tcbs s2 = tcbs s1" "system_running s2 = system_running s1" "cur_task s2 = cur_task s1" "ready_bitmap s2 = ready_bitmap s1"
    "k_obj s2 = k_obj s1" "task_count s2 = task_count s1" "sem_pool s2 = sem_pool s1" "mutex_pool s2 = mutex_pool s1" "mq_pool s2 = mq_pool s1"
    "event_pool s2 = event_pool s1" "pipe_pool s2 = pipe_pool s1" "timer_pool s2 = timer_pool s1" "tw_low s2 = tw_low s1" "tw_high s2 = tw_high s1"
    by (subst ti(1), simp)+
  have e6: "k_ls s6 = ls" "tcbs s6 = (tcbs s)(a \<mapsto> t)" "system_running s6 = system_running s" "cur_task s6 = cur_task s"
    "ready_bitmap s6 = ready_bitmap s" "k_obj s6 = k_obj s1" "task_count s6 = task_count s + 1" "sem_pool s6 = sem_pool s" "mutex_pool s6 = mutex_pool s" "mq_pool s6 = mq_pool s"
    "event_pool s6 = event_pool s" "pipe_pool s6 = pipe_pool s" "timer_pool s6 = timer_pool s" "tw_low s6 = tw_low s" "tw_high s6 = tw_high s"
    by (simp_all add: s6_def e2 e1)
  have N: "nstat ls = (nstat (k_ls s))(ReadyN a := NSelf, AllN a := NIn AllTasks, WaitN a := NSelf, TimeoutN a := NSelf)"
    by (rule ext) (simp add: ls_def ti(2) e1(1))
  have L: "lists ls = (lists (k_ls s))(HeldMutexes a \<mapsto> [], AllTasks \<mapsto> xs @ [AllN a])" by (simp add: ls_def ti(3) e1(1))
  have inv6: "kinvx (if system_running s then {a} else {}) s6"
    by (rule new_task_kinv[OF inv st a0 wf N L t(7,1,2)]) (simp_all add: e6)
  have lk6: "k_lookup g ty s6 = (if g = h \<and> ty = AIXOS_OBJ_TASK then KTask a else k_lookup g ty s)" for g ty
    using ef4(3)[of g ty] lookup_cong[OF e6(6)] by simp
  have "objects_ok s6"
  proof (rule objects_ok_tasks[OF kernel_okD(2)[OF ok]])
    show "tasks_ok s6"
      unfolding tasks_ok_def
    proof (intro conjI allI impI)
      show "obj_inv (k_obj s6)" using ef(2) by (simp add: e6)
      fix g b assume g: "k_lookup g AIXOS_OBJ_TASK s6 = KTask b"
      show "\<exists>u. tcbs s6 b = Some u \<and> t_handle u = g \<and> t_state u \<noteq> AIXOS_TASK_STOP"
      proof (cases "g = h")
        case True
        then show ?thesis using g t by (simp add: lk6 e6)
      next
        case False
        then have "k_lookup g AIXOS_OBJ_TASK s = KTask b" using g by (simp add: lk6)
        then obtain u where "tcbs s b = Some u" "t_handle u = g" "t_state u \<noteq> AIXOS_TASK_STOP" using tasks_okD(2)[OF o(1)] by blast
        then show ?thesis using st by (auto simp: e6)
      qed
    next
      fix b u assume u: "tcbs s6 b = Some u" "t_state u \<noteq> AIXOS_TASK_STOP"
      show "t_handle u \<noteq> AIXOS_HANDLE_INVALID" "k_lookup (t_handle u) AIXOS_OBJ_TASK s6 = KTask b"
        using u t h tasks_okD(3,4)[OF o(1), of b u] ef4(2) by (auto simp: e6 lk6 split: if_splits)
    qed
    show "mutex_owner j s6 = mutex_owner j s" if "nstat (k_ls s) (OwnerN j) = NIn g" for j g
    proof -
      have "mx_owner (mutex_pool s ! j) \<noteq> h"
        using mutexes_okD(3)[OF o(8) that] ef4(2) by (auto simp: mutex_owner_eq aixos_tcb_from_handle_def)
      then show ?thesis by (simp add: mutex_owner_eq aixos_tcb_from_handle_def lk6 e6(9))
    qed
    show "nstat (k_ls s6) n = nstat (k_ls s) n" if "node_type n \<noteq> AIXOS_OBJ_UNUSED" for n
      using that by (cases n) (auto simp: e6 N)
    show "lists (k_ls s6) g = None \<longleftrightarrow> lists (k_ls s) g = None" if "head_type g \<noteq> AIXOS_OBJ_UNUSED" for g
      using that by (cases g) (auto simp: e6 L)
  qed (simp_all add: lk6 e6)
  note ok6 = this
  have fin: "install_task name entry arg sb sz priority ot os ut a sab slot s1 = do {
     s \<leftarrow> (if system_running s then aixos_sched_add_task a s6 else Some s6);
     Some (h, k_record AIXOS_TRACE_TASK_CREATE h (word_of_int priority) s) }"
  proof -
    have u: "on_ls (list_add_tail (AllN a) AllTasks) (s2\<lparr>k_heap := hp, tcbs := (tcbs s2)(a \<mapsto> t)\<rparr>) =
        Some (s2\<lparr>k_heap := hp, tcbs := (tcbs s2)(a \<mapsto> t), k_ls := ls\<rparr>)" using add by (simp add: on_ls_def)
    have s6': "s2\<lparr>k_heap := hp, tcbs := (tcbs s2)(a \<mapsto> t), k_ls := ls,
        task_count := task_count (s2\<lparr>k_heap := hp, tcbs := (tcbs s2)(a \<mapsto> t), k_ls := ls\<rparr>) + 1\<rparr> = s6" by (simp add: s6_def)
    have tc: "tcbs (s2\<lparr>k_heap := hp\<rparr>) = tcbs s2" by simp
    show ?thesis
      unfolding install_task_def Let_def hh[symmetric] s2 Option.bind.bind_lunit ar prod.case t_def[symmetric] tc u s6' e6(3) ..
  qed
  show "kernel_ok s'" "task_count s' = task_count s + 1"
  proof -
    have "kernel_ok s' \<and> task_count s' = task_count s + 1"
    proof (cases "system_running s")
      case False
      then have "s' = k_record AIXOS_TRACE_TASK_CREATE h (word_of_int priority) s6" using i fin by simp
      moreover have "kernel_ok s6" using False inv6 ok6 by (simp add: kernel_ok_def)
      ultimately show ?thesis using e6(7) by simp (simp add: k_record_def)
    next
      case True
      have t6: "tcbs s6 a = Some t" by (simp add: e6)
      have "returns (aixos_sched_add_task a s6) (\<lambda>s7. kinvx {} s7 \<and> sched_frame s6 s7)"
        by (rule returns_mono[OF add_task_kinv[OF _ t6]]) (use inv6 True t in \<open>auto simp: e6 N linked_def\<close>)
      then obtain s7 where s7: "aixos_sched_add_task a s6 = Some s7" "kinvx {} s7" "sched_frame s6 s7" by (auto simp: returns_iff)
      have "kernel_ok s7" using objects_ok_frame[OF s7(3) ok6] s7(2) by (simp add: kernel_ok_def)
      moreover have "task_count s7 = task_count s + 1" using frame_rest(12)[OF s7(3)] e6(7) by simp
      moreover have "s' = k_record AIXOS_TRACE_TASK_CREATE h (word_of_int priority) s7" using i fin True s7(1) by simp
      ultimately show ?thesis by simp (simp add: k_record_def)
    qed
    then show "kernel_ok s'" "task_count s' = task_count s + 1" by blast+
  qed
qed

text \<open>A creation that fails leaves the tasks alone; one that succeeds adds one task. A handle that
  equals \<open>AIXOS_HANDLE_INVALID\<close> is excluded: it comes up only when the generation counter of slot
  255 reaches its last value.\<close>

lemma create_stack_heap: "create_stack st sz ut s = Some (r, s') \<Longrightarrow> \<exists>hp. s' = s\<lparr>k_heap := hp\<rparr>"
  by (auto simp: create_stack_def on_heap_def Let_def split: if_splits Option.bind_splits option.splits prod.splits intro: exI[of _ "k_heap s"])

lemma on_heap_heap: "on_heap f s = Some (r, s') \<Longrightarrow> \<exists>hp. s' = s\<lparr>k_heap := hp\<rparr>"
  by (auto simp: on_heap_def split: option.splits)

lemma slot_full_ok:
  assumes ok: "kernel_ok s" and al: "k_slot_alloc AIXOS_POOL_TASK (KTask a) s = Some (slot, s1)" "slot < 0"
  shows "kernel_ok s1 \<and> task_count s1 = task_count s"
proof -
  have tk0: "type_to_pool_id AIXOS_OBJ_TASK = AIXOS_POOL_TASK" by (simp add: type_to_pool_id_def)
  have ty: "0 \<le> type_to_pool_id AIXOS_OBJ_TASK" "KTask a \<noteq> KNull" by (simp_all add: tk0)
  note ef = k_slot_alloc_effect[OF tasks_okD(1)[OF objects_okD(1)[OF kernel_okD(2)[OF ok]]] ty al(1)[folded tk0]]
  have "kernel_ok (s\<lparr>k_obj := k_obj s1\<rparr>)"
    by (rule kernel_ok_lookup[OF ok ef(2)]) (use ef(3)[OF al(2)] lookup_cong[of "s\<lparr>k_obj := k_obj s1\<rparr>" s1] in auto)
  then have "kernel_ok (s\<lparr>k_obj := k_obj s1, k_heap := k_heap s1\<rparr>)" by simp
  moreover have "s1 = s\<lparr>k_obj := k_obj s1, k_heap := k_heap s1\<rparr>" by (subst ef(1)) simp
  moreover have "task_count s1 = task_count s" by (subst ef(1)) simp
  ultimately show ?thesis by metis
qed

lemma task_create_unfold:
  "task_create_common name entry arg stack stack_size priority provided_tcb system_task user_task s =
     (if in_isr s \<or> entry = 0 \<or> priority < 0 \<or> priority \<ge> int AIXOS_CFG_MAX_PRIORITY \<or>
         task_count s \<ge> int AIXOS_CFG_TASK_HANDLE_LIMIT \<or>
         (\<not> system_task \<and> \<not> system_running s \<and>
          task_count s \<ge> int AIXOS_CFG_TASK_HANDLE_LIMIT - int AIXOS_CFG_SYSTEM_TASKS_RESERVED)
      then Some (AIXOS_HANDLE_INVALID, s)
      else if user_task \<and> (stack_size < AIXOS_CFG_MPU_MIN_REGION_SIZE \<or> stack_size AND (stack_size - 1) \<noteq> 0)
      then Some (AIXOS_HANDLE_INVALID, s)
      else if stack_size < AIXOS_CFG_MIN_TASK_STACK_SIZE then Some (AIXOS_HANDLE_INVALID, s)
      else if user_task \<and> stack \<noteq> 0 \<and> stack AND (stack_size - 1) \<noteq> 0 then Some (AIXOS_HANDLE_INVALID, s)
      else do {
        (tcb, s) \<leftarrow> (if provided_tcb = 0 then on_heap (aixos_kernel_malloc (in_isr s) sizeof_tcb) s
                     else Some (provided_tcb, s));
        if tcb = 0 then Some (AIXOS_HANDLE_INVALID, s)
        else do {
          ((stack_base, stack_alloc_base), s) \<leftarrow> create_stack stack stack_size user_task s;
          if stack_alloc_base = 0
          then Some (AIXOS_HANDLE_INVALID, if provided_tcb = 0 then k_free tcb s else s)
          else do {
            (slot, s) \<leftarrow> k_slot_alloc AIXOS_POOL_TASK (KTask tcb) s;
            if slot < 0
            then do {
              s \<leftarrow> Some (if stack = 0 then k_free stack_alloc_base s else s);
              Some (AIXOS_HANDLE_INVALID, if provided_tcb = 0 then k_free tcb s else s)
            }
            else install_task name entry arg stack_base stack_size priority (provided_tcb = 0) (stack = 0) user_task
              tcb stack_alloc_base slot s
          }
        }
      })"
  unfolding task_create_common_def install_task_def by (rule refl)

lemma k_free_facts: "kernel_ok (k_free p s) \<longleftrightarrow> kernel_ok s" "task_count (k_free p s) = task_count s"
  by (simp_all add: k_free_def)

lemma add_task_count: "aixos_sched_add_task a s = Some s' \<Longrightarrow> task_count s' = task_count s"
  by (auto simp: aixos_sched_add_task_def on_ls_def bitmap_set_def split: if_splits Option.bind_splits option.splits)

lemma install_task_count:
  assumes i: "install_task name entry arg sb sz pr ot os ut a sab slot s = Some (h, s')"
  shows "task_count s' = task_count s + 1"
proof -
  obtain s2 where s2: "tcb_lists_init a s = Some s2"
    using i by (auto simp: install_task_def Let_def split: Option.bind_splits)
  have "task_count s2 = task_count s" by (subst tcb_lists_init_Some(1)[OF s2], simp)
  then show ?thesis
    using i s2 by (auto simp: install_task_def Let_def on_ls_def k_write_def k_record_def aixos_arch_stack_init_def dest!: add_task_count
        split: Option.bind_splits option.splits prod.splits if_splits)
qed

text \<open>A creation fails with the heap changed at most, or finds no slot, or installs the task.\<close>

lemma task_create_cases:
  assumes c: "task_create_common name entry arg stack sz pr pt sys ut s = Some (h, s')"
  obtains (fail) hp where "h = AIXOS_HANDLE_INVALID" "s' = s\<lparr>k_heap := hp\<rparr>"
  | (full) a hp slot s3 hp' where "k_slot_alloc AIXOS_POOL_TASK (KTask a) (s\<lparr>k_heap := hp\<rparr>) = Some (slot, s3)" "slot < 0"
      "h = AIXOS_HANDLE_INVALID" "s' = s3\<lparr>k_heap := hp'\<rparr>"
  | (installed) a hp slot s3 sb sab where "a \<noteq> 0" "0 \<le> pr" "pr < int AIXOS_CFG_MAX_PRIORITY"
      "k_slot_alloc AIXOS_POOL_TASK (KTask a) (s\<lparr>k_heap := hp\<rparr>) = Some (slot, s3)" "0 \<le> slot"
      "install_task name entry arg sb sz pr (pt = 0) (stack = 0) ut a sab slot s3 = Some (h, s')"
proof (cases "in_isr s \<or> entry = 0 \<or> pr < 0 \<or> pr \<ge> int AIXOS_CFG_MAX_PRIORITY \<or> task_count s \<ge> int AIXOS_CFG_TASK_HANDLE_LIMIT \<or>
     (\<not> sys \<and> \<not> system_running s \<and> task_count s \<ge> int AIXOS_CFG_TASK_HANDLE_LIMIT - int AIXOS_CFG_SYSTEM_TASKS_RESERVED) \<or>
     ut \<and> (sz < AIXOS_CFG_MPU_MIN_REGION_SIZE \<or> sz AND (sz - 1) \<noteq> 0) \<or> sz < AIXOS_CFG_MIN_TASK_STACK_SIZE \<or>
     ut \<and> stack \<noteq> 0 \<and> stack AND (sz - 1) \<noteq> 0")
  case True
  then have "h = AIXOS_HANDLE_INVALID \<and> s' = s" using c unfolding task_create_unfold by (auto split: if_splits)
  then show thesis using fail[of "k_heap s"] by simp
next
  case False
  let ?m = "if pt = 0 then on_heap (aixos_kernel_malloc (in_isr s) sizeof_tcb) s else Some (pt, s)"
  define rest where "rest = (\<lambda>tcb s. if tcb = 0 then Some (AIXOS_HANDLE_INVALID, s)
        else do {
          ((stack_base, stack_alloc_base), s) \<leftarrow> create_stack stack sz ut s;
          if stack_alloc_base = 0
          then Some (AIXOS_HANDLE_INVALID, if pt = 0 then k_free tcb s else s)
          else do {
            (slot, s) \<leftarrow> k_slot_alloc AIXOS_POOL_TASK (KTask tcb) s;
            if slot < 0
            then do {
              s \<leftarrow> Some (if stack = 0 then k_free stack_alloc_base s else s);
              Some (AIXOS_HANDLE_INVALID, if pt = 0 then k_free tcb s else s)
            }
            else install_task name entry arg stack_base sz pr (pt = 0) (stack = 0) ut tcb stack_alloc_base slot s
          }
        })"
  have u: "task_create_common name entry arg stack sz pr pt sys ut s = Option.bind ?m (\<lambda>(tcb, s). rest tcb s)"
    unfolding task_create_unfold rest_def by ((subst if_not_P, use False in blast)+, rule refl)
  obtain a s1 where s1: "?m = Some (a, s1)" "rest a s1 = Some (h, s')" using c unfolding u by (auto split: Option.bind_splits)
  obtain hp1 where hp1: "s1 = s\<lparr>k_heap := hp1\<rparr>"
    using s1(1) by (auto split: if_splits dest: on_heap_heap intro: that[of "k_heap s"])
  show thesis
  proof (cases "a = 0")
    case True
    then show thesis using fail[of hp1] s1(2) hp1 by (simp add: rest_def)
  next
    case a0: False
    obtain sb sab s2 where s2: "create_stack stack sz ut s1 = Some ((sb, sab), s2)"
      using s1(2) a0 by (auto simp: rest_def split: Option.bind_splits)
    obtain hp2 where hp2: "s2 = s\<lparr>k_heap := hp2\<rparr>" using create_stack_heap[OF s2] hp1 by auto
    show thesis
    proof (cases "sab = 0")
      case True
      then have "h = AIXOS_HANDLE_INVALID \<and> s' = (if pt = 0 then k_free a s2 else s2)"
        using s1(2) a0 s2 by (simp add: rest_def)
      then show thesis using fail[of "k_heap s'"] hp2 by (simp add: k_free_def split: if_splits)
    next
      case sab: False
      obtain slot s3 where s3: "k_slot_alloc AIXOS_POOL_TASK (KTask a) s2 = Some (slot, s3)"
        using s1(2) a0 s2 sab by (auto simp: rest_def split: Option.bind_splits)
      show thesis
      proof (cases "slot < 0")
        case True
        then show thesis using full[OF s3[unfolded hp2], of "k_heap s'"] s1(2) a0 s2 sab s3
          by (auto simp: rest_def k_free_def split: if_splits)
      next
        case False
        then show thesis
          using installed[OF a0 _ _ s3[unfolded hp2], of sb sab] s1(2) a0 s2 sab s3 \<open>\<not> (in_isr s \<or> _)\<close> by (simp add: rest_def)
      qed
    qed
  qed
qed

lemma task_create_ok:
  assumes ok: "kernel_ok s" and c: "task_create_common name entry arg stack sz pr pt sys ut s = Some (h, s')"
    and h: "h \<noteq> AIXOS_HANDLE_INVALID \<or> task_count s' = task_count s"
  shows "kernel_ok s' \<and> task_count s' = task_count s + (if h = AIXOS_HANDLE_INVALID then 0 else 1)"
  using c
proof (cases rule: task_create_cases)
  case fail
  then show ?thesis using ok by simp
next
  case (full a hp slot s3 hp')
  then show ?thesis using slot_full_ok[OF _ full(1,2)] ok by simp
next
  case (installed a hp slot s3 sb sab)
  have ok2: "kernel_ok (s\<lparr>k_heap := hp\<rparr>)" using ok by simp
  have "task_count s3 = task_count s" using installed(4) by (auto simp: k_slot_alloc_def split: prod.splits option.splits)
  then have "h \<noteq> AIXOS_HANDLE_INVALID" using h install_task_count[OF installed(6)] by auto
  then show ?thesis using install_task_ok[OF ok2 installed(1-6)] by simp
qed

end
