(* ===== verification/Kboot.thy ===== *)
theory Kboot
  imports Klife
begin

text \<open>
  The state in which the kernel starts: what the static variables hold before \<open>main\<close>, and a proof that
  the initialisation sequence returns and establishes the invariant from there. Then \<open>aixos_start\<close>: it
  queues the tasks created so far and schedules the first one.
\<close>

section \<open>The state before initialisation\<close>

text \<open>Static variables are zero; the heap memory, the link addresses and the hardware are arbitrary.\<close>

definition zeroed :: "kstate \<Rightarrow> bool" where
  "zeroed s \<longleftrightarrow> k_ls s = ls_zero \<and> tcbs s = Map.empty \<and> cur_task s = 0 \<and> k_isr s = isr_boot \<and>
     sem_pool s = replicate AIXOS_CFG_MAX_SEM zero_sem \<and> mutex_pool s = replicate AIXOS_CFG_MAX_MUTEX zero_mutex \<and>
     mq_pool s = replicate AIXOS_CFG_MAX_MQ zero_mq \<and> event_pool s = replicate AIXOS_CFG_MAX_EVENT zero_event \<and>
     pipe_pool s = replicate AIXOS_CFG_MAX_PIPE zero_pipe \<and> timer_pool s = replicate AIXOS_CFG_MAX_TIMER zero_timer"

text \<open>Empty heads and unlinked nodes.\<close>

definition boot_ls :: "lhead set \<Rightarrow> lnode set \<Rightarrow> (lhead, lnode) lstore" where
  "boot_ls H N = \<lparr>lists = \<lambda>h. if h \<in> H then Some [] else None, nstat = \<lambda>n. if n \<in> N then NSelf else NNull\<rparr>"

lemma boot_ls_simps [simp]:
  "lists (boot_ls H N) h = (if h \<in> H then Some [] else None)"
  "nstat (boot_ls H N) n = (if n \<in> N then NSelf else NNull)"
  by (simp_all add: boot_ls_def)

lemma ls_zero_boot: "ls_zero = boot_ls {} {}"
  by (simp add: ls_zero_def boot_ls_def)

lemma boot_head:
  "k_ls s = boot_ls H N \<Longrightarrow> on_ls (list_init_head h) s = Some (s\<lparr>k_ls := boot_ls (insert h H) N\<rparr>)"
  by (auto simp: on_ls_def list_init_head_def boot_ls_def fun_eq_iff)

lemma boot_node:
  "k_ls s = boot_ls H N \<Longrightarrow> on_ls (list_init_node n) s = Some (s\<lparr>k_ls := boot_ls H (insert n N)\<rparr>)"
  by (auto simp: on_ls_def list_init_node_def linked_def boot_ls_def fun_eq_iff)

lemma boot_heads:
  "k_ls s = boot_ls H N \<Longrightarrow> init_heads hs s = Some (s\<lparr>k_ls := boot_ls (H \<union> set hs) N\<rparr>)"
  by (induction hs arbitrary: s H) (simp_all add: boot_head)

lemma boot_queues:
  "k_ls s = boot_ls H N \<Longrightarrow> init_queues ps s = Some (s\<lparr>k_ls := boot_ls (H \<union> ReadyQ ` set ps) N\<rparr>)"
  by (induction ps arbitrary: s H) (simp_all add: boot_head)

lemma boot_timers:
  "k_ls s = boot_ls H N \<Longrightarrow> timer_pool s = replicate m zero_timer \<Longrightarrow>
   timer_init_loop is s = Some (s\<lparr>k_ls := boot_ls H (N \<union> ActiveN ` set is \<union> PendingN ` set is)\<rparr>)"
proof (induction "is" arbitrary: s N)
  case (Cons i "is")
  have z: "(timer_pool s)[i := zero_timer] = timer_pool s"
    by (cases "i < m") (simp_all add: Cons.prems(2) list_update_same_conv list_update_beyond)
  have "set_timer i zero_timer s = s" unfolding set_timer_def z by simp
  then show ?case
    using Cons.prems by (simp add: boot_node Cons.IH insert_commute)
qed simp

section \<open>No handle resolves\<close>

lemma boot_lookup: "k_obj s = aixos_object_init \<Longrightarrow> k_lookup h ty s = KNull"
proof (cases "0 \<le> type_to_pool_id ty")
  case True
  assume o: "k_obj s = aixos_object_init"
  have "live_slot (type_to_pool_id ty) i aixos_object_init = None" for i
    using True
    by (cases ty) (auto simp: type_to_pool_id_def live_slot_def slot_lookup_def task_slot_at_def aixos_object_init_def
      static_pools_def init_pool_def pool_descriptor_def zero_slot_def nth_Cons' split: option.splits if_splits)
  then show ?thesis using k_lookup_live[of s ty h] True o object_init_inv by simp
qed (simp add: k_lookup_no_pool)

section \<open>Initialisation\<close>

abbreviation (input) boot_heads_set :: "lhead set" where
  "boot_heads_set \<equiv> {AllTasks, TimeoutList, ReapList, ActiveTimers, PendingTimers, ServiceWaiters} \<union>
     TwL1 ` {0..<AIXOS_CFG_TW_SIZE1} \<union> TwL2 ` {0..<AIXOS_CFG_TW_SIZE2} \<union> ReadyQ ` {0..<AIXOS_CFG_MAX_PRIORITY}"

abbreviation (input) boot_nodes_set :: "lnode set" where
  "boot_nodes_set \<equiv> ActiveN ` {0..<AIXOS_CFG_MAX_TIMER} \<union> PendingN ` {0..<AIXOS_CFG_MAX_TIMER}"

lemma boot_queues_ok:
  assumes c: "\<And>h. core_head h \<Longrightarrow> h \<in> H" and q: "\<And>p. ReadyQ p \<in> H \<longleftrightarrow> p < AIXOS_CFG_MAX_PRIORITY"
  shows "queues_ok (boot_ls H N) (replicate 4 0)"
proof -
  have wf: "lwf (boot_ls H N)" by (auto simp: lwf_def boot_ls_def split: if_splits)
  have z: "replicate 4 (0 :: u64) ! (p div 64) = 0" if "p < AIXOS_CFG_MAX_PRIORITY" for p
    by (rule nth_replicate) (use that in simp)
  have e: "lists (boot_ls H N) h \<noteq> None \<longleftrightarrow> h \<in> H" "nstat (boot_ls H N) n \<noteq> NIn h" for h n by simp_all
  show ?thesis
    unfolding queues_ok_def using wf z q e c by (metis bit_0_eq bot_apply bot_bool_def boot_ls_simps(1) length_replicate)
qed

lemma boot_heads_core: "core_head h \<Longrightarrow> h \<in> boot_heads_set"
  by (cases h) simp_all

lemma boot_heads_ready: "ReadyQ p \<in> boot_heads_set \<longleftrightarrow> p < AIXOS_CFG_MAX_PRIORITY"
  by (simp add: image_iff)

lemma boot_kernel_ok:
  assumes q: "queues_ok (boot_ls H N) (ready_bitmap s)" and ls: "k_ls s = boot_ls H N"
    and H: "\<And>h. h \<in> H \<Longrightarrow> \<not> plain_head h" and N: "\<And>i. ActiveN i \<in> N \<longleftrightarrow> i < AIXOS_CFG_MAX_TIMER"
      "\<And>i. PendingN i \<in> N \<longleftrightarrow> i < AIXOS_CFG_MAX_TIMER"
    and s: "tcbs s = Map.empty" "cur_task s = 0" "k_obj s = aixos_object_init" "tw_low s = 0" "tw_high s = 0"
      "sem_pool s = replicate AIXOS_CFG_MAX_SEM zero_sem" "mutex_pool s = replicate AIXOS_CFG_MAX_MUTEX zero_mutex"
      "mq_pool s = replicate AIXOS_CFG_MAX_MQ zero_mq" "event_pool s = replicate AIXOS_CFG_MAX_EVENT zero_event"
      "pipe_pool s = replicate AIXOS_CFG_MAX_PIPE zero_pipe" "timer_pool s = replicate AIXOS_CFG_MAX_TIMER zero_timer"
  shows "kernel_ok s"
proof -
  note lk = boot_lookup[OF s(3)]
  have n: "nstat (k_ls s) m \<noteq> NIn h" for m h by (simp add: ls)
  have l: "plain_head h \<Longrightarrow> lists (k_ls s) h = None" for h using H[of h] by (auto simp: ls)
  have "kinvx {} s" unfolding kinvx_def using q n by (simp add: ls s(1,2) del: boot_ls_simps)
  moreover have "tasks_ok s" unfolding tasks_ok_def by (simp add: lk s(1,3) object_init_inv)
  moreover have "mutexes_ok s" unfolding mutexes_ok_def using n by (simp add: s(7) zero_mutex_def)
  moreover have "timers_ok s" unfolding timers_ok_def using n by (simp add: s(11) zero_timer_def) (simp add: ls N)
  ultimately show ?thesis
    unfolding kernel_ok_def objects_ok_def table_ok_def by (simp add: lk s l plain_head_def)
qed

text \<open>The object pools.\<close>

definition pools where
  "pools s = (sem_pool s, mutex_pool s, mq_pool s, event_pool s, pipe_pool s, timer_pool (s :: kstate))"

definition zero_pools where
  "zero_pools = (replicate AIXOS_CFG_MAX_SEM zero_sem, replicate AIXOS_CFG_MAX_MUTEX zero_mutex, replicate AIXOS_CFG_MAX_MQ zero_mq,
     replicate AIXOS_CFG_MAX_EVENT zero_event, replicate AIXOS_CFG_MAX_PIPE zero_pipe, replicate AIXOS_CFG_MAX_TIMER zero_timer)"

lemma kernel_init_ok:
  assumes z: "zeroed s"
  shows "returns (kernel_init base s) (\<lambda>s'. kernel_ok s' \<and> \<not> system_running s' \<and> task_count s' = 0 \<and>
    tcbs s' = Map.empty \<and> k_isr s' = isr_boot \<and> cur_task s' = 0 \<and> k_ls s' = boot_ls boot_heads_set boot_nodes_set \<and>
    k_obj s' = aixos_object_init \<and> k_heap s' = aixos_heap_init base 0 0 (k_heap s) \<and> k_link s' = k_link s \<and>
    pools s' = zero_pools)"
proof -
  let ?s = "s\<lparr>k_heap := aixos_heap_init base 0 0 (k_heap s), k_obj := aixos_object_init, task_count := 0,
    system_running := False, first_start := False, k_trace := aixos_trace_init,
    ns_table := replicate AIXOS_CFG_NAMESPACE_MAX zero_ns_entry, tw_low := 0, tw_high := 0,
    k_ls := boot_ls boot_heads_set boot_nodes_set, ready_bitmap := replicate 4 0, total_ticks := 0, idle_ticks := 0,
    switch_count := 0, cur_task := 0\<rparr>"
  have zs: "k_ls s = boot_ls {} {}" "timer_pool s = replicate AIXOS_CFG_MAX_TIMER zero_timer"
    using z by (simp_all add: zeroed_def ls_zero_boot)
  have H: "insert ServiceWaiters (insert PendingTimers (insert ActiveTimers (insert ReapList (insert TimeoutList (insert AllTasks {}))))) \<union>
      set (map TwL1 [0..<AIXOS_CFG_TW_SIZE1]) \<union> set (map TwL2 [0..<AIXOS_CFG_TW_SIZE2]) \<union>
      ReadyQ ` set [0..<AIXOS_CFG_MAX_PRIORITY] = boot_heads_set"
    unfolding set_map set_upt by blast
  have N: "{} \<union> ActiveN ` set [0..<AIXOS_CFG_MAX_TIMER] \<union> PendingN ` set [0..<AIXOS_CFG_MAX_TIMER] = boot_nodes_set"
    unfolding set_upt by blast
  have "kernel_init base s = Some ?s"
    unfolding H[symmetric] N[symmetric] kernel_init_def aixos_task_init_def aixos_timer_init_def aixos_namespace_init_def
      aixos_timing_wheel_init_def aixos_sched_init_def
    using zs by (simp add: boot_head boot_heads boot_queues boot_timers[where m = AIXOS_CFG_MAX_TIMER]
        del: upt_rec_numeral set_upt set_map)
  moreover have "kernel_ok ?s"
    by (rule boot_kernel_ok[where H = boot_heads_set and N = boot_nodes_set])
      (use z boot_queues_ok[OF boot_heads_core boot_heads_ready] in
        \<open>auto simp: zeroed_def plain_head_def simp del: boot_ls_simps\<close>)
  ultimately show ?thesis using z by (simp add: zeroed_def pools_def zero_pools_def del: boot_ls_simps)
qed

section \<open>Starting\<close>

text \<open>Task slot 255 has a generation at which its handle is \<open>AIXOS_HANDLE_INVALID\<close>; the kernel works as
  long as that handle names no task.\<close>

abbreviation (input) no_invalid_task :: "kstate \<Rightarrow> bool" where
  "no_invalid_task s \<equiv> k_lookup AIXOS_HANDLE_INVALID AIXOS_OBJ_TASK s = KNull"

text \<open>Before the start no task has run, and a ready task is in no queue yet.\<close>

definition pre_start :: "kstate \<Rightarrow> bool" where
  "pre_start s \<longleftrightarrow> \<not> system_running s \<and> (\<forall>a t. tcbs s a = Some t \<longrightarrow>
     t_state t \<noteq> AIXOS_TASK_RUNNING \<and> (t_state t = AIXOS_TASK_READY \<longrightarrow> \<not> linked (ReadyN a) (k_ls s)))"

lemma install_task_effect:
  assumes i: "install_task name entry arg sb sz pr ot os ut a sab slot s = Some (h, s')"
  shows "k_obj s' = k_obj s" "h = aixos_slot_handle AIXOS_POOL_TASK slot (k_obj s)" "pre_start s \<Longrightarrow> pre_start s'"
proof -
  obtain s2 where s2: "tcb_lists_init a s = Some s2"
    using i by (auto simp: install_task_def Let_def split: Option.bind_splits)
  note ti = tcb_lists_init_Some[OF s2]
  show "h = aixos_slot_handle AIXOS_POOL_TASK slot (k_obj s)"
    using i by (auto simp: install_task_def Let_def split: Option.bind_splits prod.splits)
  have add: "k_obj w' = k_obj w" if "aixos_sched_add_task a w = Some w'" for w w'
    using that by (auto simp: aixos_sched_add_task_def on_ls_def bitmap_set_def split: if_splits Option.bind_splits option.splits)
  have "k_obj s2 = k_obj s" by (subst ti(1), simp)
  then show "k_obj s' = k_obj s"
    using i s2 by (auto simp: install_task_def Let_def on_ls_def k_write_def k_record_def aixos_arch_stack_init_def dest!: add
        split: Option.bind_splits option.splits prod.splits if_splits)
  assume pre: "pre_start s"
  have e2: "tcbs s2 = tcbs s" "system_running s2 = system_running s" by (subst ti(1), simp)+
  have nr: "\<not> system_running s2" using pre e2 by (simp add: pre_start_def)
  have st: "t_state (aixos_mpu_task_init ((new_tcb nm p h0 b ab z o1 o2 u)\<lparr>t_stack_top := tp\<rparr>)) = AIXOS_TASK_READY"
    for nm p h0 b ab z o1 o2 u tp
    by (simp add: aixos_mpu_task_init_def new_tcb_def zero_tcb_def Let_def)
  obtain t where t: "tcbs s' = (tcbs s)(a \<mapsto> t)" "t_state t = AIXOS_TASK_READY" "\<not> system_running s'"
    "nstat (k_ls s') = (nstat (k_ls s2))(AllN a := NIn AllTasks)"
    using i s2 nr e2 st
    by (auto simp: install_task_def Let_def on_ls_def k_write_def k_record_def aixos_arch_stack_init_def list_add_tail_def
        split: Option.bind_splits option.splits prod.splits if_splits)
  show "pre_start s'"
    using pre t(3) unfolding pre_start_def linked_def t(1,4) ti(2) by (auto simp: t(2) split: if_splits)
qed

lemma task_create_guarded:
  assumes ok: "kernel_ok s" and c: "task_create_common name entry arg stack sz pr pt sys ut s = Some (h, s')"
  shows "h \<noteq> AIXOS_HANDLE_INVALID \<or> no_invalid_task s' \<Longrightarrow> kernel_ok s'" "pre_start s \<Longrightarrow> pre_start s'"
proof -
  show "pre_start s'" if "pre_start s" using c
  proof (cases rule: task_create_cases)
    case (installed a hp slot s3 sb sab)
    then have "pre_start s3" using that by (auto simp: k_slot_alloc_def pre_start_def split: prod.splits option.splits)
    then show ?thesis by (rule install_task_effect(3)[OF installed(6)])
  qed (use that in \<open>auto simp: k_slot_alloc_def pre_start_def split: prod.splits option.splits\<close>)
  assume h: "h \<noteq> AIXOS_HANDLE_INVALID \<or> no_invalid_task s'"
  show "kernel_ok s'" using c
  proof (cases rule: task_create_cases)
    case fail
    then show ?thesis using ok by simp
  next
    case (full a hp slot s3 hp')
    then show ?thesis using slot_full_ok[OF _ full(1,2)] ok by simp
  next
    case (installed a hp slot s3 sb sab)
    have ok2: "kernel_ok (s\<lparr>k_heap := hp\<rparr>)" using ok by simp
    have tk: "AIXOS_POOL_TASK = type_to_pool_id AIXOS_OBJ_TASK" by (simp add: type_to_pool_id_def)
    note e = install_task_effect(1,2)[OF installed(6)]
    have "k_lookup h AIXOS_OBJ_TASK s3 = KTask a"
      using k_slot_alloc_effect(4)[OF tasks_okD(1)[OF objects_okD(1)[OF kernel_okD(2)[OF ok2]]] _ _ installed(4)[unfolded tk] installed(5), of h]
        e(2) by (simp add: type_to_pool_id_def)
    then have "h \<noteq> AIXOS_HANDLE_INVALID" using h lookup_cong[OF e(1)] by auto
    then show ?thesis using install_task_ok[OF ok2 installed(1-6)] by simp
  qed
qed

text \<open>Queueing the ready tasks among \<open>xs\<close>.\<close>

lemma start_loop_keeps:
  assumes "kernel_ok s" "\<not> system_running s" "distinct xs"
    and "\<And>n. n \<in> set xs \<Longrightarrow> nstat (k_ls s) n = NIn AllTasks"
    and "\<And>a t. AllN a \<in> set xs \<Longrightarrow> tcbs s a = Some t \<Longrightarrow> t_state t = AIXOS_TASK_READY \<Longrightarrow> \<not> linked (ReadyN a) (k_ls s)"
  shows "returns (start_loop xs s) (\<lambda>s'. kernel_ok s' \<and> sched_frame s s' \<and> tcbs s' = tcbs s \<and>
    (\<forall>a. linked (ReadyN a) (k_ls s) \<longrightarrow> linked (ReadyN a) (k_ls s')) \<and>
    (\<forall>a t. AllN a \<in> set xs \<longrightarrow> tcbs s a = Some t \<longrightarrow> t_state t = AIXOS_TASK_READY \<longrightarrow> linked (ReadyN a) (k_ls s')))"
  using assms
proof (induction xs arbitrary: s)
  case (Cons n xs)
  note inv = kernel_okD(1)[OF Cons.prems(1)]
  have n: "nstat (k_ls s) n = NIn AllTasks" using Cons.prems(4) by simp
  obtain a where a: "n = AllN a" using kinvx_fits[OF inv n] by (cases n) auto
  obtain t where t: "tcbs s a = Some t" using kinvxD(2)[OF inv n, of a] a by auto
  show ?case
  proof (cases "t_state t = AIXOS_TASK_READY")
    case True
    have nl: "\<not> linked (ReadyN a) (k_ls s)" using Cons.prems(5)[of a t] a t True by simp
    have w: "t_wait_list t = None"
      using kinvxD(5)[OF inv _ t] nodes_okD(7)[OF kinvxD(4)[OF inv t]] True by (cases "t_wait_list t") (fastforce simp: settled_def)+
    have "ready_state (t_state t)" "nstat (k_ls s) (AllN a) = NIn AllTasks" using True n a by simp_all
    then obtain s1 where s1: "aixos_sched_add_task a s = Some s1" "kinvx {} s1" "sched_frame s s1" "tcbs s1 = tcbs s"
      "\<exists>h. nstat (k_ls s1) (ReadyN a) = NIn h" "\<And>m. m \<noteq> ReadyN a \<Longrightarrow> nstat (k_ls s1) m = nstat (k_ls s) m"
      using add_task_kinv[OF kinvx_mono[OF inv empty_subsetI] t nl, of "{}"] w by (auto simp: returns_iff)
    have ok1: "kernel_ok s1" by (rule kernel_okI_frame[OF Cons.prems(1) s1(3,2)])
    have L: "linked (ReadyN a) (k_ls s1)" "\<And>b. b \<noteq> a \<Longrightarrow> linked (ReadyN b) (k_ls s1) = linked (ReadyN b) (k_ls s)"
      using s1(5,6) by (auto simp: linked_def)
    have "returns (start_loop xs s1) (\<lambda>s'. kernel_ok s' \<and> sched_frame s1 s' \<and> tcbs s' = tcbs s1 \<and>
      (\<forall>a. linked (ReadyN a) (k_ls s1) \<longrightarrow> linked (ReadyN a) (k_ls s')) \<and>
      (\<forall>a t. AllN a \<in> set xs \<longrightarrow> tcbs s1 a = Some t \<longrightarrow> t_state t = AIXOS_TASK_READY \<longrightarrow> linked (ReadyN a) (k_ls s')))"
    proof (rule Cons.IH[OF ok1])
      show "\<not> system_running s1" using Cons.prems(2) frame_rest(3)[OF s1(3)] by simp
      show "\<And>b u. AllN b \<in> set xs \<Longrightarrow> tcbs s1 b = Some u \<Longrightarrow> t_state u = AIXOS_TASK_READY \<Longrightarrow> \<not> linked (ReadyN b) (k_ls s1)"
        using Cons.prems(3,5) a s1(4) L(2) by (metis distinct.simps(2) list.set_intros(2))
      show "nstat (k_ls s1) m = NIn AllTasks" if "m \<in> set xs" for m
      proof -
        have m: "nstat (k_ls s) m = NIn AllTasks" using Cons.prems(4) that by simp
        have "m \<noteq> ReadyN a" using kinvx_fits[OF inv m] by auto
        then show ?thesis using m s1(6) by simp
      qed
    qed (use Cons.prems(3) in simp)
    then show ?thesis
      using s1(1,4) sched_frame_trans[OF s1(3)] a t True L by (auto simp: returns_iff) (metis L)+
  next
    case False
    have "returns (start_loop xs s) (\<lambda>s'. kernel_ok s' \<and> sched_frame s s' \<and> tcbs s' = tcbs s \<and>
      (\<forall>a. linked (ReadyN a) (k_ls s) \<longrightarrow> linked (ReadyN a) (k_ls s')) \<and>
      (\<forall>a t. AllN a \<in> set xs \<longrightarrow> tcbs s a = Some t \<longrightarrow> t_state t = AIXOS_TASK_READY \<longrightarrow> linked (ReadyN a) (k_ls s')))"
      by (rule Cons.IH) (use Cons.prems in auto)
    then show ?thesis using a t False by (auto simp: returns_iff)
  qed
qed simp

text \<open>Once every ready task is queued the system runs.\<close>

lemma start_running:
  assumes ok: "kernel_ok s" and q: "\<And>a t. tcbs s a = Some t \<Longrightarrow> ready_state (t_state t) \<Longrightarrow> linked (ReadyN a) (k_ls s)"
  shows "kernel_ok (s\<lparr>system_running := True\<rparr>)"
proof -
  let ?s = "s\<lparr>system_running := True\<rparr>"
  note inv = kernel_okD(1)[OF ok]
  have "settled (k_ls s) True a t" if "tcbs s a = Some t" for a t
    using kinvxD(5)[OF inv _ that] q[OF that] by (auto simp: settled_def linked_def split: nstate.splits)
  then have "kinvx {} ?s" using inv unfolding kinvx_def by simp
  moreover have "objects_ok ?s"
    by (rule objects_ok_same[OF kernel_okD(2)[OF ok]]) (use kernel_okD(2)[OF ok] in \<open>simp_all add: objects_ok_def\<close>)
  ultimately show ?thesis by (simp add: kernel_ok_def)
qed

lemma start_keeps:
  assumes ok: "kernel_ok s" and pre: "pre_start s" and st: "aixos_start s = Some (b, s')" and g: "no_invalid_task s'"
  shows "kernel_ok s' \<and> (b \<longrightarrow> scheduled s')"
proof -
  have s0: "s\<lparr>system_running := False\<rparr> = s" using pre by (simp add: pre_start_def)
  let ?idle = "aixos_task_create (Some ''idle'') (ln_idle_entry (k_link s)) 0 (AIXOS_CFG_IDLE_STACK_SIZE * 4) AIXOS_CFG_IDLE_PRIORITY s"
  define tail where "tail = (\<lambda>s :: kstate. do {
         s \<leftarrow> Some (s\<lparr>k_heap := aixos_heap_lockdown (in_isr s) (k_heap s)\<rparr>);
         xs \<leftarrow> members AllTasks s;
         s \<leftarrow> start_loop xs s;
         s \<leftarrow> Some (s\<lparr>system_running := True\<rparr>);
         s \<leftarrow> aixos_schedule s;
         Some (True, s\<lparr>first_start := True\<rparr>) })"
  have u: "aixos_start s = do {
     (idle, s) \<leftarrow> ?idle;
     if idle = AIXOS_HANDLE_INVALID then Some (False, s)
     else do { (r, s) \<leftarrow> aixos_timer_service_start s; if r \<noteq> AIXOS_OK then Some (False, s) else tail s } }"
    unfolding aixos_start_def tail_def Option.bind.bind_lunit s0 by (rule refl)
  obtain h1 s1 where s1: "?idle = Some (h1, s1)" using st unfolding u by (cases ?idle) auto
  note st1 = st[unfolded u s1 Option.bind.bind_lunit prod.case]
  note c1 = s1[unfolded aixos_task_create_def]
  show ?thesis
  proof (cases "h1 = AIXOS_HANDLE_INVALID")
    case True
    then have "s' = s1 \<and> \<not> b" using st1 by simp
    then show ?thesis using task_create_guarded(1)[OF ok c1] g by simp
  next
    case h1: False
    have ok1: "kernel_ok s1" and pre1: "pre_start s1" using task_create_guarded[OF ok c1] h1 pre by simp_all
    let ?timer = "aixos_task_create (Some ''timer'') (ln_timer_entry (k_link s1)) 0 AIXOS_CFG_TIMER_STACK_SIZE AIXOS_CFG_TIMER_TASK_PRIORITY s1"
    note st2 = st1[unfolded if_not_P[OF h1] aixos_timer_service_start_def]
    obtain h2 s2 where s2: "?timer = Some (h2, s2)" using st2 by (cases ?timer) auto
    note st3 = st2[unfolded s2 Option.bind.bind_lunit prod.case]
    note c2 = s2[unfolded aixos_task_create_def]
    show ?thesis
    proof (cases "h2 = AIXOS_HANDLE_INVALID")
      case True
      then have "s' = s2 \<and> \<not> b" using st3 by simp
      then show ?thesis using task_create_guarded(1)[OF ok1 c2] g by simp
    next
      case h2: False
      have ok2: "kernel_ok s2" and pre2: "pre_start s2" using task_create_guarded[OF ok1 c2] h2 pre1 by simp_all
      let ?s3 = "s2\<lparr>k_heap := aixos_heap_lockdown (in_isr s2) (k_heap s2)\<rparr>"
      have ok3: "kernel_ok ?s3" and pre3: "pre_start ?s3" using ok2 pre2 by (simp_all add: pre_start_def)
      note inv = kernel_okD(1)[OF ok3]
      obtain xs where xs: "lists (k_ls ?s3) AllTasks = Some xs" using kinvx_core[OF inv, of AllTasks] by auto
      have n: "n \<in> set xs \<longleftrightarrow> nstat (k_ls ?s3) n = NIn AllTasks" for n by (rule lwf_in_iff[OF kinvx_lwf[OF inv] xs])
      obtain s4 where s4: "start_loop xs ?s3 = Some s4" "kernel_ok s4" "tcbs s4 = tcbs ?s3" "sched_frame ?s3 s4"
        "\<And>a t. AllN a \<in> set xs \<Longrightarrow> tcbs ?s3 a = Some t \<Longrightarrow> t_state t = AIXOS_TASK_READY \<Longrightarrow> linked (ReadyN a) (k_ls s4)"
      proof -
        have "returns (start_loop xs ?s3) (\<lambda>s'. kernel_ok s' \<and> sched_frame ?s3 s' \<and> tcbs s' = tcbs ?s3 \<and>
          (\<forall>a. linked (ReadyN a) (k_ls ?s3) \<longrightarrow> linked (ReadyN a) (k_ls s')) \<and>
          (\<forall>a t. AllN a \<in> set xs \<longrightarrow> tcbs ?s3 a = Some t \<longrightarrow> t_state t = AIXOS_TASK_READY \<longrightarrow> linked (ReadyN a) (k_ls s')))"
          by (rule start_loop_keeps[OF ok3 _ lwfD(1)[OF kinvx_lwf[OF inv] xs]]) (use pre3 n in \<open>auto simp: pre_start_def\<close>)
        then show thesis by (rule returnsE) (rule that; blast)
      qed
      have ok5: "kernel_ok (s4\<lparr>system_running := True\<rparr>)"
      proof (rule start_running[OF s4(2)])
        fix a t assume t: "tcbs s4 a = Some t" "ready_state (t_state t)"
        then have r: "t_state t = AIXOS_TASK_READY" using pre3 s4(3) by (auto simp: pre_start_def ready_state_def)
        then have "AllN a \<in> set xs" using kinvxD(5)[OF inv _ t(1)[unfolded s4(3)]] n by (simp add: settled_def)
        then show "linked (ReadyN a) (k_ls s4)" using s4(5) t(1) r s4(3) by simp
      qed
      obtain s6 where s6: "aixos_schedule (s4\<lparr>system_running := True\<rparr>) = Some s6" "kernel_ok s6" "scheduled s6"
        using schedule_keeps[OF ok5] by (auto simp: returns_iff)
      have "s' = s6\<lparr>first_start := True\<rparr>"
        using st3 h2 xs s4(1) s6(1) by (simp add: tail_def members_def)
      then show ?thesis using s6(2,3) is_highest_cong[of "s6\<lparr>first_start := True\<rparr>" s6] by (simp add: scheduled_def)
    qed
  qed
qed

end
