(* ===== verification/Kreach.thy ===== *)
theory Kreach
  imports Kboot
begin

text \<open>
  The kernel as a transition system. A state changes by a call of the API, made by the running task or
  by an interrupt handler, by the continuation of a call that had blocked, by the tick, by the switch
  of the port, or by an operation that allocates. From the state that the initialisation establishes,
  every reachable state satisfies the invariant, and every call that does not allocate returns.
\<close>

section \<open>The calls\<close>

text \<open>One constructor per function of the API; \<open>Resume...\<close> is what a call does when its task runs again.\<close>

datatype task_call =
    DoYield | DoSleep u32 | DoSuspend aixos_handle_t | DoResume aixos_handle_t | DoSetPriority aixos_handle_t int
  | DoDelete aixos_handle_t | DoReturnTrap | DoRegionAdd aixos_handle_t u32 u32 u32
  | DoSignalSend aixos_handle_t u32 | DoSignalHandle u32 u32 u32 | DoSignalMask u32 | DoSignalDeliver
  | DoNotify aixos_handle_t u32 aixos_notify_action | DoNotifyFromIsr aixos_handle_t u32 aixos_notify_action
  | DoNotifyWait u32 u32 u32 | DoNotifyTake bool u32 | ResumeNotifyWait u32 | ResumeNotifyTake bool

datatype sync_call =
    DoSemCreate int | DoSemWait aixos_handle_t u32 | DoSemPost aixos_handle_t | DoSemPostFromIsr aixos_handle_t
  | DoSemDelete aixos_handle_t
  | DoMutexCreate | DoMutexLock aixos_handle_t u32 | DoMutexUnlock aixos_handle_t | DoMutexDelete aixos_handle_t
  | DoEventCreate | DoEventWait aixos_handle_t u32 u8 u32 | DoEventSet aixos_handle_t u32
  | DoEventClear aixos_handle_t u32 | DoEventDelete aixos_handle_t | ResumeEventWait aixos_handle_t u32 u8 u32 u32

datatype data_call =
    DoMqCreateStatic u32 u32 u32 u32 | DoMqSend aixos_handle_t "u8 list option" u32
  | DoMqSendPriority aixos_handle_t "u8 list option" u32 u32 | DoMqSendFromIsr aixos_handle_t "u8 list option"
  | DoMqRecv aixos_handle_t u32 u32 | DoMqRecvPriority aixos_handle_t u32 u32 | DoMqDelete aixos_handle_t
  | ResumeMqSend aixos_handle_t "u8 list" u32 u32 u32 | ResumeMqRecv aixos_handle_t u32 u32 u32
  | DoPipeCreateStatic u32 u32 | DoPipeWrite aixos_handle_t "u8 list option" u32
  | DoPipeRead aixos_handle_t bool u32 u32 | DoPipeWriteFromIsr aixos_handle_t "u8 list option"
  | DoPipeDelete aixos_handle_t | ResumePipeWrite aixos_handle_t "u8 list" u32 u32
  | ResumePipeRead aixos_handle_t u32 u32 u32

datatype timer_call =
    DoTimerCreate "string option" aixos_timer_type u32 u32 | DoTimerStart aixos_handle_t u32
  | DoTimerStop aixos_handle_t | DoTimerDelete aixos_handle_t | DoServiceWait

text \<open>What the hardware and the kernel's own tasks do.\<close>

datatype system_step =
    OnTick | OnSwitch | OnIsrEnter | OnIsrExit | OnSchedLock | OnSchedUnlock | OnTimerCallback

abbreviation (input) state_of :: "('r \<times> kstate) option \<Rightarrow> kstate option" where
  "state_of m \<equiv> map_option snd m"

fun task_run :: "task_call \<Rightarrow> kstate \<Rightarrow> kstate option" where
  "task_run DoYield s = state_of (aixos_task_yield s)"
| "task_run (DoSleep ms) s = state_of (aixos_task_sleep ms s)"
| "task_run (DoSuspend h) s = state_of (aixos_task_suspend h s)"
| "task_run (DoResume h) s = state_of (aixos_task_resume h s)"
| "task_run (DoSetPriority h p) s = state_of (aixos_task_set_priority h p s)"
| "task_run (DoDelete h) s = state_of (aixos_task_delete h s)"
| "task_run DoReturnTrap s = state_of (aixos_task_return_trap s)"
| "task_run (DoRegionAdd h b sz attr) s = state_of (aixos_task_mpu_region_add h b sz attr s)"
| "task_run (DoSignalSend h n) s = state_of (aixos_task_signal_send h n s)"
| "task_run (DoSignalHandle n f a) s = state_of (aixos_task_signal_handle n f a s)"
| "task_run (DoSignalMask m) s = state_of (aixos_task_signal_mask m s)"
| "task_run DoSignalDeliver s = state_of (aixos_task_signal_deliver s)"
| "task_run (DoNotify h v a) s = state_of (aixos_task_notify h v a s)"
| "task_run (DoNotifyFromIsr h v a) s = state_of (aixos_task_notify_from_isr h v a s)"
| "task_run (DoNotifyWait ce cx tmo) s = state_of (aixos_task_notify_wait ce cx tmo s)"
| "task_run (DoNotifyTake c tmo) s = state_of (aixos_task_notify_take c tmo s)"
| "task_run (ResumeNotifyWait cx) s = state_of (notify_wait_resume cx s)"
| "task_run (ResumeNotifyTake c) s = state_of (notify_take_resume c s)"

fun sync_run :: "sync_call \<Rightarrow> kstate \<Rightarrow> kstate option" where
  "sync_run (DoSemCreate n) s = state_of (aixos_sem_create n s)"
| "sync_run (DoSemWait h tmo) s = state_of (aixos_sem_wait h tmo s)"
| "sync_run (DoSemPost h) s = state_of (aixos_sem_post h s)"
| "sync_run (DoSemPostFromIsr h) s = state_of (aixos_sem_post_from_isr h s)"
| "sync_run (DoSemDelete h) s = state_of (aixos_sem_delete h s)"
| "sync_run DoMutexCreate s = state_of (aixos_mutex_create s)"
| "sync_run (DoMutexLock h tmo) s = state_of (aixos_mutex_lock h tmo s)"
| "sync_run (DoMutexUnlock h) s = state_of (aixos_mutex_unlock h s)"
| "sync_run (DoMutexDelete h) s = state_of (aixos_mutex_delete h s)"
| "sync_run DoEventCreate s = state_of (aixos_event_create s)"
| "sync_run (DoEventWait h m mode tmo) s = state_of (aixos_event_wait h m mode tmo s)"
| "sync_run (DoEventSet h f) s = state_of (aixos_event_set h f s)"
| "sync_run (DoEventClear h f) s = state_of (aixos_event_clear h f s)"
| "sync_run (DoEventDelete h) s = state_of (aixos_event_delete h s)"
| "sync_run (ResumeEventWait h m mode t0 tmo) s = state_of (event_wait_resume h m mode t0 tmo s)"

fun data_run :: "data_call \<Rightarrow> kstate \<Rightarrow> kstate option" where
  "data_run (DoMqCreateStatic mx sz b l) s = state_of (aixos_mq_create_static mx sz b l s)"
| "data_run (DoMqSend h m tmo) s = state_of (aixos_mq_send h m tmo s)"
| "data_run (DoMqSendPriority h m p tmo) s = state_of (aixos_mq_send_priority h m p tmo s)"
| "data_run (DoMqSendFromIsr h m) s = state_of (aixos_mq_send_from_isr h m s)"
| "data_run (DoMqRecv h cap tmo) s = state_of (aixos_mq_recv h cap tmo s)"
| "data_run (DoMqRecvPriority h cap tmo) s = state_of (aixos_mq_recv_priority h cap tmo s)"
| "data_run (DoMqDelete h) s = state_of (aixos_mq_delete h s)"
| "data_run (ResumeMqSend h m p t0 tmo) s = state_of (mq_send_resume h m p t0 tmo s)"
| "data_run (ResumeMqRecv h cap t0 tmo) s = state_of (mq_recv_resume h cap t0 tmo s)"
| "data_run (DoPipeCreateStatic b sz) s = state_of (aixos_pipe_create_static b sz s)"
| "data_run (DoPipeWrite h d tmo) s = state_of (aixos_pipe_write h d tmo s)"
| "data_run (DoPipeRead h null n tmo) s = state_of (aixos_pipe_read h null n tmo s)"
| "data_run (DoPipeWriteFromIsr h d) s = state_of (aixos_pipe_write_from_isr h d s)"
| "data_run (DoPipeDelete h) s = state_of (aixos_pipe_delete h s)"
| "data_run (ResumePipeWrite h d t0 tmo) s = state_of (pipe_write_resume h d t0 tmo s)"
| "data_run (ResumePipeRead h n t0 tmo) s = state_of (pipe_read_resume h n t0 tmo s)"

text \<open>\<open>DoServiceWait\<close>: the timer service task goes to sleep.\<close>

fun timer_run :: "timer_call \<Rightarrow> kstate \<Rightarrow> kstate option" where
  "timer_run (DoTimerCreate nm ty cb a) s = state_of (aixos_timer_create nm ty cb a s)"
| "timer_run (DoTimerStart h ms) s = state_of (aixos_timer_start h ms s)"
| "timer_run (DoTimerStop h) s = state_of (aixos_timer_stop h s)"
| "timer_run (DoTimerDelete h) s = state_of (aixos_timer_delete h s)"
| "timer_run DoServiceWait s = state_of (aixos_task_block_current (Some ServiceWaiters) KNull AIXOS_OBJ_TIMER UINT32_MAX s)"

text \<open>The interrupt nesting and the scheduler lock, as steps of the kernel.\<close>

fun system_run :: "system_step \<Rightarrow> kstate \<Rightarrow> kstate option" where
  "system_run OnTick s = aixos_tick_handler s"
| "system_run OnSwitch s = context_switch s"
| "system_run OnIsrEnter s = Some (s\<lparr>k_isr := snd (aixos_isr_enter (k_isr s))\<rparr>)"
| "system_run OnIsrExit s = (let (now, isr) = aixos_isr_exit (k_isr s) in Some (s\<lparr>k_isr := isr, k_switch := (k_switch s \<or> now)\<rparr>))"
| "system_run OnSchedLock s = Some (s\<lparr>k_isr := snd (aixos_sched_lock (k_isr s))\<rparr>)"
| "system_run OnSchedUnlock s = (let (_, now, isr) = aixos_sched_unlock (k_isr s)
     in Some (s\<lparr>k_isr := isr, k_switch := (k_switch s \<or> now)\<rparr>))"
| "system_run OnTimerCallback s = state_of (timer_next_callback s)"

datatype kcall = CTask task_call | CSync sync_call | CData data_call | CTimer timer_call | CSystem system_step | CIdle

fun kcall_run :: "kcall \<Rightarrow> kstate \<Rightarrow> kstate option" where
  "kcall_run (CTask c) s = task_run c s"
| "kcall_run (CSync c) s = sync_run c s"
| "kcall_run (CData c) s = data_run c s"
| "kcall_run (CTimer c) s = timer_run c s"
| "kcall_run (CSystem c) s = system_run c s"
| "kcall_run CIdle s = idle_task_entry s"

text \<open>Who may make a call: a task that is running (or ready, until the pending switch happens) or an
  interrupt handler. A continuation, the reaper and the event wait, which reads the current task
  without a check, need the running task.\<close>

fun needs_task :: "kcall \<Rightarrow> bool" where
  "needs_task (CTask (ResumeNotifyWait _)) = True"
| "needs_task (CTask (ResumeNotifyTake _)) = True"
| "needs_task (CSync (DoEventWait _ _ _ _)) = True"
| "needs_task (CSync (ResumeEventWait _ _ _ _ _)) = True"
| "needs_task (CData (ResumeMqSend _ _ _ _ _)) = True"
| "needs_task (CData (ResumeMqRecv _ _ _ _)) = True"
| "needs_task (CData (ResumePipeWrite _ _ _ _)) = True"
| "needs_task (CData (ResumePipeRead _ _ _ _)) = True"
| "needs_task CIdle = True"
| "needs_task _ = False"

fun allowed :: "kcall \<Rightarrow> kstate \<Rightarrow> bool" where
  "allowed (CSystem c) s = True"
| "allowed c s = (if needs_task c then can_block s \<and> cur_task s \<noteq> 0 else in_isr s \<or> can_block s)"

section \<open>Every call returns and keeps the invariant\<close>

lemma st_keeps: "keeps_ok m \<Longrightarrow> returns (state_of m) kernel_ok"
  by (cases m) auto

text \<open>The calls of \<open>Kclient\<close>, with what they keep written out.\<close>

lemmas ipc_keeps = ipc_calls[unfolded ipc.keeps_def] ipc_resumes[unfolded ipc.keeps_def]

lemmas task_keeps = yield_keeps sleep_keeps suspend_keeps resume_keeps set_priority_keeps task_delete_keeps
  signal_send_keeps signal_own_keeps

lemmas object_keeps = sem_create_keeps sem_delete_keeps mutex_create_keeps mutex_lock_keeps mutex_unlock_keeps
  mutex_delete_keeps event_create_keeps event_delete_keeps mq_delete_keeps pipe_delete_keeps timer_create_keeps
  timer_start_keeps timer_stop_keeps timer_delete_keeps

lemma return_trap_keeps:
  assumes ok: "kernel_ok s"
  shows "keeps_ok (aixos_task_return_trap s)"
  using kinvxD(6)[OF kernel_okD(1)[OF ok]] task_delete_keeps[OF ok]
  by (auto simp: aixos_task_return_trap_def aixos_task_self_def)

lemma region_add_keeps:
  assumes ok: "kernel_ok s"
  shows "keeps_ok (aixos_task_mpu_region_add g b sz attr s)"
proof (cases "aixos_tcb_from_handle g s = 0")
  case False
  then obtain t where t: "tcbs s (aixos_tcb_from_handle g s) = Some t"
    using tcb_from_handle_live[OF objects_okD(1)[OF kernel_okD(2)[OF ok]]] by blast
  have n: "returns (upd_tcb (aixos_tcb_from_handle g s) (\<lambda>t. t\<lparr>t_mpu_regions := r t, t_mpu_region_count := n t\<rparr>) s) kernel_ok"
    for r n by (rule returns_mono[OF note_keeps[OF ok t]]) (auto simp: same_core_def)
  show ?thesis
    using ok False t by (simp add: aixos_task_mpu_region_add_def Let_def returns_mono[OF n])
qed (use ok in \<open>simp add: aixos_task_mpu_region_add_def Let_def\<close>)

lemma task_run_keeps: "kernel_ok s \<Longrightarrow> allowed (CTask c) s \<Longrightarrow> returns (task_run c s) kernel_ok"
  by (cases c) (simp_all only: task_run.simps allowed.simps needs_task.simps if_True if_False,
    (rule st_keeps, (rule task_keeps ipc_keeps return_trap_keeps region_add_keeps; blast?))+)

lemma sync_run_keeps: "kernel_ok s \<Longrightarrow> allowed (CSync c) s \<Longrightarrow> returns (sync_run c s) kernel_ok"
  by (cases c) (simp_all only: sync_run.simps allowed.simps needs_task.simps if_True if_False,
    (rule st_keeps, (rule object_keeps ipc_keeps; blast?))+)

lemma data_run_keeps: "kernel_ok s \<Longrightarrow> allowed (CData c) s \<Longrightarrow> returns (data_run c s) kernel_ok"
  by (cases c) (simp_all only: data_run.simps allowed.simps needs_task.simps if_True if_False
      aixos_mq_create_static_def aixos_pipe_create_static_def,
    (rule st_keeps, (rule object_keeps mq_create_common_keeps pipe_create_common_keeps ipc_keeps; blast?))+)

lemma timer_run_keeps:
  assumes ok: "kernel_ok s" and al: "allowed (CTimer c) s"
  shows "returns (timer_run c s) kernel_ok"
proof (cases c)
  case DoServiceWait
  have "in_isr s \<or> can_block s" using al by simp
  then show ?thesis
    unfolding DoServiceWait timer_run.simps
    by (rule st_keeps[OF kernel_block[OF ok]]) (use kinvx_core[OF kernel_okD(1)[OF ok], of ServiceWaiters] in auto)
qed (simp_all only: timer_run.simps, (rule st_keeps, rule object_keeps, rule ok)+)

lemma system_run_keeps:
  assumes ok: "kernel_ok s"
  shows "returns (system_run c s) kernel_ok"
proof (cases c)
  case OnTimerCallback
  obtain xs where xs: "lists (k_ls s) PendingTimers = Some xs" using kinvx_core[OF kernel_okD(1)[OF ok], of PendingTimers] by auto
  show ?thesis
    unfolding OnTimerCallback system_run.simps
    by (rule st_keeps, rule returns_mono[OF timer_next_callback_keeps[OF ok xs]]) auto
qed (use ok tick_handler_keeps[OF ok] returns_mono[OF context_switch_keeps[OF ok]] in \<open>auto split: prod.split\<close>)

theorem call_keeps:
  assumes "kernel_ok s" "allowed c s"
  shows "returns (kcall_run c s) kernel_ok"
proof (cases c)
  case CIdle
  then show ?thesis using assms returns_mono[OF idle_keeps[OF assms(1)]] by auto
qed (use assms task_run_keeps sync_run_keeps data_run_keeps timer_run_keeps system_run_keeps in simp_all)

section \<open>Operations that allocate\<close>

datatype alloc_call =
    DoTaskCreate "string option" u32 u32 u32 int | DoUserTaskCreate "string option" u32 u32 u32 int
  | DoTaskCreateStatic "string option" u32 u32 u32 u32 int u32 | DoUserTaskCreateStatic "string option" u32 u32 u32 u32 int u32
  | DoMqCreate u32 u32 | DoPipeCreate u32 | DoMalloc u32 | DoFree u32

fun alloc_run :: "alloc_call \<Rightarrow> kstate \<Rightarrow> kstate option" where
  "alloc_run (DoTaskCreate nm entry arg sz pr) s = state_of (aixos_task_create nm entry arg sz pr s)"
| "alloc_run (DoUserTaskCreate nm entry arg sz pr) s = state_of (aixos_user_task_create nm entry arg sz pr s)"
| "alloc_run (DoTaskCreateStatic nm entry arg stack sz pr tcb) s = state_of (aixos_task_create_static nm entry arg stack sz pr tcb s)"
| "alloc_run (DoUserTaskCreateStatic nm entry arg stack sz pr tcb) s = state_of (aixos_user_task_create_static nm entry arg stack sz pr tcb s)"
| "alloc_run (DoMqCreate mx sz) s = state_of (aixos_mq_create mx sz s)"
| "alloc_run (DoPipeCreate sz) s = state_of (aixos_pipe_create sz s)"
| "alloc_run (DoMalloc sz) s = state_of (on_heap (aixos_malloc (in_isr s) sz) s)"
| "alloc_run (DoFree p) s = Some (k_free p s)"

lemma alloc_run_keeps:
  assumes ok: "kernel_ok s" and r: "alloc_run c s = Some s'" and g: "no_invalid_task s'"
  shows "kernel_ok s'"
proof -
  have create: "kernel_ok s'" if m: "state_of (task_create_common nm entry arg stack sz pr pt sys ut s) = Some s'"
    for nm entry arg stack sz pr pt sys ut
  proof -
    obtain h where "task_create_common nm entry arg stack sz pr pt sys ut s = Some (h, s')" using m by auto
    then show ?thesis using task_create_guarded(1)[OF ok] g by blast
  qed
  show ?thesis
  proof (cases c)
    case (DoUserTaskCreate nm entry arg sz pr)
    then show ?thesis
      using r ok create[of nm entry arg 0 sz pr 0 False True] by (cases "sz < 256 \<or> sz AND (sz - 1) \<noteq> 0") (simp_all add: aixos_user_task_create_def)
  next
    case (DoTaskCreate nm entry arg sz pr)
    show ?thesis by (rule create) (use r DoTaskCreate in \<open>simp add: aixos_task_create_def\<close>)
  next
    case (DoTaskCreateStatic nm entry arg stack sz pr tcb)
    show ?thesis by (rule create) (use r DoTaskCreateStatic in \<open>simp add: aixos_task_create_static_def\<close>)
  next
    case (DoUserTaskCreateStatic nm entry arg stack sz pr tcb)
    show ?thesis by (rule create) (use r DoUserTaskCreateStatic in \<open>simp add: aixos_user_task_create_static_def\<close>)
  next
    case (DoMqCreate mx sz)
    then show ?thesis using r mq_create_keeps[OF ok] by auto
  next
    case (DoPipeCreate sz)
    then show ?thesis using r pipe_create_keeps[OF ok] by auto
  next
    case (DoMalloc sz)
    then show ?thesis using r on_heap_ok[OF _ ok] by auto
  next
    case (DoFree p)
    then show ?thesis using r ok by (auto simp: k_free_facts)
  qed
qed

section \<open>Reachable states\<close>

inductive kstep :: "kstate \<Rightarrow> kstate \<Rightarrow> bool" where
  call: "allowed c s \<Longrightarrow> kcall_run c s = Some s' \<Longrightarrow> kstep s s'"
| alloc: "alloc_run c s = Some s' \<Longrightarrow> no_invalid_task s' \<Longrightarrow> kstep s s'"
| start: "pre_start s \<Longrightarrow> aixos_start s = Some (b, s') \<Longrightarrow> no_invalid_task s' \<Longrightarrow> kstep s s'"

inductive reach :: "kstate \<Rightarrow> bool" where
  boot: "zeroed s \<Longrightarrow> kernel_init base s = Some s' \<Longrightarrow> reach s'"
| step: "reach s \<Longrightarrow> kstep s s' \<Longrightarrow> reach s'"

lemma kstep_keeps: "kstep s s' \<Longrightarrow> kernel_ok s \<Longrightarrow> kernel_ok s'"
proof (induction rule: kstep.induct)
  case (call c s s')
  then show ?case using call_keeps[OF call(3,1)] by simp
next
  case (start s b s')
  then show ?case using start_keeps[OF start(4,1-3)] by simp
qed (rule alloc_run_keeps)

lemma reach_ok: "reach s \<Longrightarrow> kernel_ok s"
proof (induction rule: reach.induct)
  case (boot s base s')
  then show ?case using kernel_init_ok[where base = base, OF boot(1)] by simp
qed (rule kstep_keeps)

lemma zeroed_exists: "\<exists>s. zeroed s"
  by (rule exI[of _ "undefined\<lparr>k_ls := ls_zero, tcbs := Map.empty, cur_task := 0, k_isr := isr_boot,
      sem_pool := replicate AIXOS_CFG_MAX_SEM zero_sem, mutex_pool := replicate AIXOS_CFG_MAX_MUTEX zero_mutex,
      mq_pool := replicate AIXOS_CFG_MAX_MQ zero_mq, event_pool := replicate AIXOS_CFG_MAX_EVENT zero_event,
      pipe_pool := replicate AIXOS_CFG_MAX_PIPE zero_pipe, timer_pool := replicate AIXOS_CFG_MAX_TIMER zero_timer\<rparr>"])
    (simp add: zeroed_def)

lemma reach_exists: "\<exists>s. reach s \<and> \<not> in_isr s \<and> cur_task s = 0"
proof -
  obtain s0 where z: "zeroed s0" using zeroed_exists by blast
  obtain s where s: "kernel_init 0x20000000 s0 = Some s" "k_isr s = isr_boot" "tcbs s = Map.empty" "kernel_ok s"
    using kernel_init_ok[where base = "0x20000000", OF z] by (auto simp: returns_iff)
  have "cur_task s = 0" using kinvxD(6)[OF kernel_okD(1)[OF s(4)]] s(3) by fastforce
  moreover have "\<not> in_isr s" using s(2) by (simp add: in_isr_def aixos_in_isr_def isr_boot_def atomic_load_u32_def)
  ultimately show ?thesis using reach.boot[OF z s(1)] by blast
qed

end
