(* ===== verification/Kdemo.thy ===== *)
theory Kdemo
  imports Kreach
begin

text \<open>
  What a successful task creation does, and a reachable state of a running system: two tasks are
  created statically after the initialisation and the kernel is started, which creates the idle and
  timer tasks on the heap.
\<close>

section \<open>Writes into a region of memory\<close>

text \<open>\<open>h'\<close> is \<open>h\<close> after writes that stay within the \<open>n\<close> bytes at \<open>lo\<close>.\<close>

definition heap_within :: "nat \<Rightarrow> nat \<Rightarrow> heap_state \<Rightarrow> heap_state \<Rightarrow> bool" where
  "heap_within lo n h h' \<longleftrightarrow> (\<exists>ws. h' = fold (\<lambda>(a, l). write_bytes a l) ws h \<and>
     (\<forall>(a, l) \<in> set ws. lo \<le> unat a \<and> unat a + length l \<le> lo + n))"

lemma heap_within_refl: "heap_within lo n h h"
  unfolding heap_within_def by (rule exI[of _ "[]"]) simp

lemma heap_within_write:
  assumes "heap_within lo n h h'" "lo \<le> unat a" "unat a + length l \<le> lo + n"
  shows "heap_within lo n h (write_bytes a l h')"
proof -
  obtain ws where ws: "h' = fold (\<lambda>(a, l). write_bytes a l) ws h"
    "\<forall>(a, l) \<in> set ws. lo \<le> unat a \<and> unat a + length l \<le> lo + n"
    using assms(1) unfolding heap_within_def by blast
  then show ?thesis using assms(2,3) unfolding heap_within_def by (intro exI[of _ "ws @ [(a, l)]"]) auto
qed

lemma heap_within_push:
  assumes "heap_within lo n h h'" "lo + 4 * length ws \<le> unat p" "unat p \<le> lo + n"
  shows "heap_within lo n h (snd (fold push_word ws (p, h')))"
  using assms
proof (induction ws arbitrary: p h')
  case (Cons w ws)
  have p: "unat (p - 4) = unat p - 4" using Cons.prems(2) by (simp add: unat_sub_if')
  have "heap_within lo n h (write_bytes (p - 4) (u32_bytes w) h')"
    by (rule heap_within_write[OF Cons.prems(1)]) (use Cons.prems(2,3) p in simp_all)
  then have "heap_within lo n h (snd (fold push_word ws (p - 4, write_bytes (p - 4) (u32_bytes w) h')))"
    by (rule Cons.IH) (use Cons.prems(2,3) p in simp_all)
  then show ?case by (simp add: push_word_def[of w])
qed simp

lemma heap_within_fields:
  "heap_within lo n h h' \<Longrightarrow> heap_begin h' = heap_begin h \<and> heap_runtime_locked h' = heap_runtime_locked h"
proof -
  have "heap_begin (fold (\<lambda>(a, l). write_bytes a l) ws g) = heap_begin g \<and>
    heap_runtime_locked (fold (\<lambda>(a, l). write_bytes a l) ws g) = heap_runtime_locked g" for ws and g :: heap_state
    by (induction ws arbitrary: g) (auto simp: split_beta)
  then show "heap_within lo n h h' \<Longrightarrow> ?thesis" unfolding heap_within_def by blast
qed

lemma heap_within_rep:
  assumes w: "heap_within lo n h h'" and rep: "heap_rep h bs"
    and step: "\<And>g a l. heap_rep g bs \<Longrightarrow> heap_begin g = heap_begin h \<Longrightarrow> lo \<le> unat a \<Longrightarrow> unat a + length l \<le> lo + n \<Longrightarrow>
      heap_rep (write_bytes a l g) bs"
  shows "heap_rep h' bs"
proof -
  have "heap_rep g bs \<Longrightarrow> heap_begin g = heap_begin h \<Longrightarrow> \<forall>(a, l) \<in> set ws. lo \<le> unat a \<and> unat a + length l \<le> lo + n \<Longrightarrow>
    heap_rep (fold (\<lambda>(a, l). write_bytes a l) ws g) bs" for ws g
    by (induction ws arbitrary: g) (auto simp: step)
  then show ?thesis using w rep unfolding heap_within_def by blast
qed

lemma heap_within_block:
  assumes "heap_within lo n h h'" "heap_rep h bs" "(x, b) \<in> set (addrs (unat (heap_begin h)) bs)" "b_used b"
    "x + 24 \<le> lo" "lo + n \<le> x + 24 + b_req b"
  shows "heap_rep h' bs"
  by (rule heap_within_rep[OF assms(1,2)], rule write_inside_rep) (use assms(3-6) in auto)

lemma heap_within_above:
  assumes w: "heap_within lo n h h'" and rep: "heap_rep h bs" and a: "unat (heap_begin h) + span bs \<le> lo" "lo + n \<le> 2 ^ 32"
  shows "heap_rep h' bs"
proof (rule heap_within_rep[OF w rep])
  fix g and b :: u32 and l :: "u8 list" assume g: "heap_rep g bs" "heap_begin g = heap_begin h" "lo \<le> unat b" "unat b + length l \<le> lo + n"
  show "heap_rep (write_bytes b l g) bs"
  proof (rule write_apart_rep[OF g(1)])
    fix y c assume y: "(y, c) \<in> set (addrs (unat (heap_begin g)) bs)"
    have "b_used c \<Longrightarrow> b_req c + 4 \<le> b_size c" using g(1) addrs_in[OF y] by (auto simp: heap_rep_def blk_ok_def)
    then show "(y + 24 \<le> unat b \<or> unat b + length l \<le> y) \<and>
      (b_used c \<longrightarrow> y + 24 + b_req c + 4 \<le> unat b \<or> unat b + length l \<le> y + 24 + b_req c)"
      using addrs_bounds[OF y] a(1) g(2,3) by auto
  qed (use g(4) a(2) in simp)
qed

section \<open>Creating a task\<close>

text \<open>The memory of a control block that no list of the kernel points into.\<close>

definition free_tcb :: "u32 \<Rightarrow> kstate \<Rightarrow> bool" where
  "free_tcb a s \<longleftrightarrow> a \<noteq> 0 \<and> (lists (k_ls s) (HeldMutexes a) = None \<or> lists (k_ls s) (HeldMutexes a) = Some []) \<and>
     \<not> linked (ReadyN a) (k_ls s) \<and> \<not> linked (AllN a) (k_ls s) \<and> \<not> linked (WaitN a) (k_ls s) \<and> \<not> linked (TimeoutN a) (k_ls s)"

lemma tcb_lists_init_returns:
  assumes "free_tcb a s"
  obtains s' where "tcb_lists_init a s = Some s'"
proof -
  have "tcb_lists_init a s \<noteq> None"
    using assms by (auto simp: free_tcb_def tcb_lists_init_def on_ls_def list_init_node_def list_init_head_def linked_def)
  then show thesis using that by blast
qed

text \<open>The lists after a task of priority \<open>p\<close> at \<open>a\<close> has joined.\<close>

definition joined_lists :: "bool \<Rightarrow> u32 \<Rightarrow> nat \<Rightarrow> (lhead \<Rightarrow> lnode list option) \<Rightarrow> lhead \<Rightarrow> lnode list option" where
  "joined_lists run a p L = (\<lambda>h. if h = HeldMutexes a then Some []
     else if h = AllTasks then map_option (\<lambda>xs. xs @ [AllN a]) (L h)
     else if run \<and> h = ReadyQ p then map_option (\<lambda>xs. xs @ [ReadyN a]) (L h) else L h)"

definition joined_nodes :: "bool \<Rightarrow> u32 \<Rightarrow> nat \<Rightarrow> (lnode \<Rightarrow> lhead nstate) \<Rightarrow> lnode \<Rightarrow> lhead nstate" where
  "joined_nodes run a p N = N(AllN a := NIn AllTasks, WaitN a := NSelf, TimeoutN a := NSelf,
     ReadyN a := (if run then NIn (ReadyQ p) else NSelf))"

definition task_joined :: "u32 \<Rightarrow> aixos_tcb \<Rightarrow> kstate \<Rightarrow> kstate \<Rightarrow> bool" where
  "task_joined a t s s' \<longleftrightarrow> t_state t = AIXOS_TASK_READY \<and> t_wait_list t = None \<and> t_base_priority t = t_priority t \<and>
     tcbs s' = (tcbs s)(a \<mapsto> t) \<and>
     nstat (k_ls s') = joined_nodes (system_running s) a (nat (t_priority t)) (nstat (k_ls s)) \<and>
     lists (k_ls s') = joined_lists (system_running s) a (nat (t_priority t)) (lists (k_ls s)) \<and>
     task_count s' = task_count s + 1 \<and> system_running s' = system_running s \<and> cur_task s' = cur_task s \<and>
     k_isr s' = k_isr s \<and> k_link s' = k_link s \<and> pools s' = pools s"

lemma arch_stack_within:
  assumes h: "heap_within (unat sb) (unat sz) h0 (k_heap s)" and sz: "64 \<le> unat sz" "unat sb + unat sz < 2 ^ 32"
    and st: "aixos_arch_stack_init entry (sb + sz) arg s = (tp, s')"
  shows "s' = s\<lparr>k_heap := k_heap s'\<rparr> \<and> heap_within (unat sb) (unat sz) h0 (k_heap s')"
proof -
  have tp: "unat (sb + sz) = unat sb + unat sz" using sz(2) by (simp add: unat_word_ariths)
  have s': "s' = s\<lparr>k_heap := snd (fold push_word (initial_frame entry (ln_return_trap (k_link s)) arg) (sb + sz, k_heap s))\<rparr>"
    using st by (auto simp: aixos_arch_stack_init_def Let_def split: prod.splits)
  have "heap_within (unat sb) (unat sz) h0 (snd (fold push_word (initial_frame entry (ln_return_trap (k_link s)) arg) (sb + sz, k_heap s)))"
    by (rule heap_within_push[OF h]) (use sz(1) tp in \<open>simp_all add: initial_frame_def\<close>)
  then show ?thesis using s' by simp
qed

lemma install_task_returns:
  assumes inv: "kinvx {} s" and fr: "free_tcb a s" and pr: "0 \<le> pr" "pr < int AIXOS_CFG_MAX_PRIORITY"
    and sz: "64 \<le> unat sz" "unat sb + unat sz < 2 ^ 32"
  shows "\<exists>h s' t. install_task name entry arg sb sz pr ot os ut a sab slot s = Some (h, s') \<and> task_joined a t s s' \<and>
    t_priority t = pr \<and> t_handle t = h \<and> t_stack_base t = sb \<and> t_stack_size t = sz \<and>
    t_domain t = (if ut then AIXOS_DOMAIN_USER else AIXOS_DOMAIN_KERNEL) \<and>
    h = aixos_slot_handle AIXOS_POOL_TASK slot (k_obj s) \<and> k_obj s' = k_obj s \<and>
    heap_within (unat sb) (unat sz) (k_heap s) (k_heap s')"
proof -
  obtain s2 where s2: "tcb_lists_init a s = Some s2" using tcb_lists_init_returns[OF fr] .
  note ti = tcb_lists_init_Some[OF s2]
  have e2: "tcbs s2 = tcbs s" "system_running s2 = system_running s" "cur_task s2 = cur_task s" "k_isr s2 = k_isr s"
    "k_link s2 = k_link s" "task_count s2 = task_count s" "k_obj s2 = k_obj s" "k_heap s2 = k_heap s" "ready_bitmap s2 = ready_bitmap s"
    "pools s2 = pools s" by (subst ti(1), simp add: pools_def)+
  let ?h = "aixos_slot_handle AIXOS_POOL_TASK slot (k_obj s)"
  define s3 where "s3 = k_write sb (replicate (unat AIXOS_CFG_STACK_GUARD_BYTES) 0xE7) (k_write sb (replicate (unat sz) 0xA5) s2)"
  have w3: "heap_within (unat sb) (unat sz) (k_heap s) (k_heap s3)"
    unfolding s3_def k_write_def using sz(1) by (simp add: e2 heap_within_write heap_within_refl)
  obtain tp s4 where s4: "aixos_arch_stack_init entry (sb + sz) arg s3 = (tp, s4)" by (cases "aixos_arch_stack_init entry (sb + sz) arg s3")
  note st = arch_stack_within[OF w3 sz s4]
  have s3': "s3 = s2\<lparr>k_heap := k_heap s3\<rparr>" by (simp add: s3_def k_write_def)
  have s4': "s4 = s2\<lparr>k_heap := k_heap s4\<rparr>" using conjunct1[OF st] by (subst (asm) s3') simp
  define t where "t = aixos_mpu_task_init ((new_tcb name pr ?h sb sab sz ot os ut)\<lparr>t_stack_top := tp\<rparr>)"
  have t: "t_state t = AIXOS_TASK_READY" "t_wait_list t = None" "t_handle t = ?h" "t_priority t = pr" "t_base_priority t = pr"
    "t_stack_base t = sb" "t_stack_size t = sz" "t_domain t = (if ut then AIXOS_DOMAIN_USER else AIXOS_DOMAIN_KERNEL)"
    by (simp_all add: t_def aixos_mpu_task_init_def new_tcb_def zero_tcb_def Let_def)
  obtain xs where xs: "lists (k_ls s) AllTasks = Some xs" using kinvx_core[OF inv, of AllTasks] by auto
  define ls where "ls = (k_ls s2)\<lparr>lists := (lists (k_ls s2))(AllTasks \<mapsto> xs @ [AllN a]), nstat := (nstat (k_ls s2))(AllN a := NIn AllTasks)\<rparr>"
  have add: "on_ls (list_add_tail (AllN a) AllTasks) (s4\<lparr>tcbs := (tcbs s4)(a \<mapsto> t)\<rparr>) = Some (s4\<lparr>tcbs := (tcbs s4)(a \<mapsto> t), k_ls := ls\<rparr>)"
    by (subst (1 2) s4', subst s4') (simp add: on_ls_def list_add_tail_def ti(2,3) xs linked_def ls_def)
  define s6 where "s6 = s2\<lparr>k_heap := k_heap s4, tcbs := (tcbs s)(a \<mapsto> t), k_ls := ls, task_count := task_count s + 1\<rparr>"
  have fin: "install_task name entry arg sb sz pr ot os ut a sab slot s = do {
     s \<leftarrow> (if system_running s then aixos_sched_add_task a s6 else Some s6);
     Some (?h, k_record AIXOS_TRACE_TASK_CREATE ?h (word_of_int pr) s) }"
  proof -
    have 6: "s4\<lparr>tcbs := (tcbs s4)(a \<mapsto> t), k_ls := ls, task_count := task_count (s4\<lparr>tcbs := (tcbs s4)(a \<mapsto> t), k_ls := ls\<rparr>) + 1\<rparr> = s6"
      by (subst (1 2 3) s4') (simp add: s6_def e2)
    have r: "system_running s6 = system_running s" by (simp add: s6_def e2)
    show ?thesis
      unfolding install_task_def Let_def s2 Option.bind.bind_lunit s3_def[symmetric] s4 prod.case t_def[symmetric] add 6 r ..
  qed
  have L: "lists ls = (lists (k_ls s))(HeldMutexes a \<mapsto> [], AllTasks \<mapsto> xs @ [AllN a])"
    and N: "nstat ls = (nstat (k_ls s))(ReadyN a := NSelf, AllN a := NIn AllTasks, WaitN a := NSelf, TimeoutN a := NSelf)"
    by (auto simp: ls_def ti(2,3))
  have e6: "k_obj s6 = k_obj s" "k_heap s6 = k_heap s4" "tcbs s6 = (tcbs s)(a \<mapsto> t)" "k_ls s6 = ls" "task_count s6 = task_count s + 1"
    "system_running s6 = system_running s" "cur_task s6 = cur_task s" "k_isr s6 = k_isr s" "k_link s6 = k_link s"
    "pools s6 = pools s" using e2 by (simp_all add: s6_def pools_def)
  show ?thesis
  proof (cases "system_running s")
    case False
    have J: "task_joined a t s (k_record AIXOS_TRACE_TASK_CREATE ?h (word_of_int pr) s6)"
      using False by (auto simp: task_joined_def t e6 k_record_def joined_lists_def joined_nodes_def L N xs fun_eq_iff e6(10)[unfolded pools_def] pools_def)
    show ?thesis
      unfolding fin using False J t st e6
      by (intro exI[of _ ?h] exI[of _ "k_record AIXOS_TRACE_TASK_CREATE ?h (word_of_int pr) s6"] exI[of _ t] conjI) (auto simp: k_record_def)
  next
    case True
    obtain ys where ys: "lists (k_ls s) (ReadyQ (nat pr)) = Some ys"
      using queues_okD(3)[OF kinvxD(1)[OF inv], of "nat pr"] pr by auto
    define s7 where "s7 = bitmap_set (nat pr) (s6\<lparr>k_ls := ls\<lparr>lists := (lists ls)(ReadyQ (nat pr) \<mapsto> ys @ [ReadyN a]),
      nstat := (nstat ls)(ReadyN a := NIn (ReadyQ (nat pr)))\<rparr>\<rparr>)"
    have add7: "aixos_sched_add_task a s6 = Some s7"
      using fr pr by (simp add: aixos_sched_add_task_def e6 t on_ls_def list_add_tail_def linked_def L N ys s7_def free_tcb_def)
    have J: "task_joined a t s (k_record AIXOS_TRACE_TASK_CREATE ?h (word_of_int pr) s7)"
      using True by (auto simp: task_joined_def t e6 k_record_def joined_lists_def joined_nodes_def L N xs ys s7_def bitmap_set_def fun_eq_iff e6(10)[unfolded pools_def] pools_def)
    show ?thesis
      unfolding fin using True add7 J t st e6
      by (intro exI[of _ ?h] exI[of _ "k_record AIXOS_TRACE_TASK_CREATE ?h (word_of_int pr) s7"] exI[of _ t] conjI)
        (auto simp: k_record_def s7_def bitmap_set_def)
  qed
qed

text \<open>The arguments that \<open>task_create_common\<close> accepts.\<close>

definition create_args_ok :: "u32 \<Rightarrow> u32 \<Rightarrow> u32 \<Rightarrow> int \<Rightarrow> bool \<Rightarrow> bool \<Rightarrow> kstate \<Rightarrow> bool" where
  "create_args_ok entry stack sz pr sys ut s \<longleftrightarrow> \<not> in_isr s \<and> entry \<noteq> 0 \<and> 0 \<le> pr \<and> pr < int AIXOS_CFG_MAX_PRIORITY \<and>
     task_count s < int AIXOS_CFG_TASK_HANDLE_LIMIT \<and>
     (sys \<or> system_running s \<or> task_count s < int AIXOS_CFG_TASK_HANDLE_LIMIT - int AIXOS_CFG_SYSTEM_TASKS_RESERVED) \<and>
     AIXOS_CFG_MIN_TASK_STACK_SIZE \<le> sz \<and> (ut \<longrightarrow> sz AND (sz - 1) = 0 \<and> (stack = 0 \<or> stack AND (sz - 1) = 0))"

lemma task_create_success:
  assumes ok: "kernel_ok s" and args: "create_args_ok entry stack sz pr sys ut s"
    and m: "(if pt = 0 then on_heap (aixos_kernel_malloc (in_isr s) sizeof_tcb) s else Some (pt, s)) = Some (a, s\<lparr>k_heap := hp1\<rparr>)"
    and cs: "create_stack stack sz ut (s\<lparr>k_heap := hp1\<rparr>) = Some ((sb, sab), s\<lparr>k_heap := hp2\<rparr>)" "sab \<noteq> 0"
    and al: "k_slot_alloc AIXOS_POOL_TASK (KTask a) (s\<lparr>k_heap := hp2\<rparr>) = Some (slot, s3)" "0 \<le> slot"
    and fr: "free_tcb a s" and b: "unat sb + unat sz < 2 ^ 32"
  shows "\<exists>s' t. task_create_common name entry arg stack sz pr pt sys ut s = Some (t_handle t, s') \<and> task_joined a t s s' \<and>
    t_priority t = pr \<and> t_stack_base t = sb \<and> t_stack_size t = sz \<and>
    t_domain t = (if ut then AIXOS_DOMAIN_USER else AIXOS_DOMAIN_KERNEL) \<and>
    t_handle t = aixos_slot_handle AIXOS_POOL_TASK slot (k_obj s3) \<and> k_obj s' = k_obj s3 \<and>
    heap_within (unat sb) (unat sz) (k_heap s3) (k_heap s')"
proof -
  have tk: "AIXOS_POOL_TASK = type_to_pool_id AIXOS_OBJ_TASK" by (simp add: type_to_pool_id_def)
  have "obj_inv (k_obj (s\<lparr>k_heap := hp2\<rparr>))" using tasks_okD(1)[OF objects_okD(1)[OF kernel_okD(2)[OF ok]]] by simp
  then have s3: "s3 = s\<lparr>k_heap := k_heap s3, k_obj := k_obj s3\<rparr>"
    using k_slot_alloc_effect(1)[of "s\<lparr>k_heap := hp2\<rparr>" AIXOS_OBJ_TASK, OF _ _ _ al(1)[unfolded tk]] by (simp add: type_to_pool_id_def)
  have e3: "k_ls s3 = k_ls s" "tcbs s3 = tcbs s" "system_running s3 = system_running s" "cur_task s3 = cur_task s" "k_isr s3 = k_isr s"
    "k_link s3 = k_link s" "task_count s3 = task_count s" "ready_bitmap s3 = ready_bitmap s"
    "pools s3 = pools s" by (subst s3, simp add: pools_def)+
  have inv: "kinvx {} s3" using kernel_okD(1)[OF ok] kinvx_cong[of s3 s] e3 by simp
  have fr3: "free_tcb a s3" using fr by (simp add: free_tcb_def e3)
  have g: "\<not> (in_isr s \<or> entry = 0 \<or> pr < 0 \<or> pr \<ge> int AIXOS_CFG_MAX_PRIORITY \<or> task_count s \<ge> int AIXOS_CFG_TASK_HANDLE_LIMIT \<or>
         (\<not> sys \<and> \<not> system_running s \<and>
          task_count s \<ge> int AIXOS_CFG_TASK_HANDLE_LIMIT - int AIXOS_CFG_SYSTEM_TASKS_RESERVED))"
    "\<not> (ut \<and> (sz < AIXOS_CFG_MPU_MIN_REGION_SIZE \<or> sz AND (sz - 1) \<noteq> 0))" "\<not> sz < AIXOS_CFG_MIN_TASK_STACK_SIZE"
    "\<not> (ut \<and> stack \<noteq> 0 \<and> stack AND (sz - 1) \<noteq> 0)" "0 \<le> pr" "pr < int AIXOS_CFG_MAX_PRIORITY" "a \<noteq> 0" "\<not> slot < 0" "64 \<le> unat sz"
    using args fr al(2) by (auto simp: create_args_ok_def free_tcb_def word_le_nat_alt word_less_nat_alt)
  have "task_create_common name entry arg stack sz pr pt sys ut s =
      install_task name entry arg sb sz pr (pt = 0) (stack = 0) ut a sab slot s3"
    unfolding task_create_unfold if_not_P[OF g(1)] if_not_P[OF g(2)] if_not_P[OF g(3)] if_not_P[OF g(4)] m Option.bind.bind_lunit prod.case
      if_not_P[OF g(7)] cs(1) if_not_P[OF cs(2)] al(1) if_not_P[OF g(8)] by (rule refl)
  moreover obtain h s' t where i: "install_task name entry arg sb sz pr (pt = 0) (stack = 0) ut a sab slot s3 = Some (h, s')" "task_joined a t s3 s'"
    "t_priority t = pr" "t_handle t = h" "t_stack_base t = sb" "t_stack_size t = sz" "t_domain t = (if ut then AIXOS_DOMAIN_USER else AIXOS_DOMAIN_KERNEL)"
    "h = aixos_slot_handle AIXOS_POOL_TASK slot (k_obj s3)" "k_obj s' = k_obj s3" "heap_within (unat sb) (unat sz) (k_heap s3) (k_heap s')"
    using install_task_returns[OF inv fr3 g(5,6,9) b, of name entry arg "pt = 0" "stack = 0" ut sab slot] by blast
  moreover have "task_joined a t s s'" using i(2) by (simp add: task_joined_def e3)
  ultimately show ?thesis by (intro exI[of _ s'] exI[of _ t]) simp
qed

section \<open>The allocations of the start-up\<close>

text \<open>A kernel allocation from a heap whose only free block is the last one.\<close>

lemma malloc_last:
  assumes rep: "heap_rep h (us @ [\<lparr>b_size = z, b_used = False, b_req = 0\<rparr>])" and us: "\<forall>u \<in> set us. b_used u"
    and n: "0 < n" "n < 4096" "round_size n + 32 < z"
  shows "\<exists>h'. aixos_kernel_malloc False (of_nat n) h = Some (of_nat (unat (heap_begin h) + span us + 24), h') \<and>
    heap_rep h' (us @ [\<lparr>b_size = round_size n, b_used = True, b_req = n\<rparr>, \<lparr>b_size = z - round_size n - 24, b_used = False, b_req = 0\<rparr>]) \<and>
    heap_begin h' = heap_begin h"
proof -
  let ?f = "\<lparr>b_size = z, b_used = False, b_req = 0\<rparr>"
  have nn: "unat (of_nat n :: u32) = n" using n(2) by (intro u32_of_nat) simp
  then have ask: "asked (of_nat n) = n" using n(1) by (auto simp: asked_def)
  have ref: "\<not> alloc_refused False (asked (of_nat n)) True h" using n(2) by (simp add: alloc_refused_def ask)
  have free: "xs = us \<and> b = ?f \<and> ys = []" if "us @ [?f] = xs @ b # ys" "\<not> b_used b" for xs b ys
  proof -
    have "b \<in> set (us @ [?f])" unfolding that(1) by simp
    then have b: "b = ?f" using us that(2) by auto
    have "ys = []"
    proof (rule ccontr)
      assume "ys \<noteq> []"
      then have "b \<in> set us" using that(1) by (metis append_butlast_last_id butlast_append butlast_snoc in_set_conv_decomp list.distinct(1) butlast.simps(2))
      then show False using us that(2) by blast
    qed
    then show ?thesis using that(1) b by simp
  qed
  from heap_allocate_rep[OF rep, of False "of_nat n" True] show ?thesis
  proof
    assume "\<exists>st'. heap_allocate False (of_nat n) True h = Some (0, st') \<and> st' \<in> {h, heap_fail h} \<and>
       (alloc_refused False (asked (of_nat n)) True h \<or> (\<forall>b\<in>set (us @ [?f]). b_used b \<or> b_size b < round_size (asked (of_nat n))))"
    then have "z < round_size n" using ref ask by auto
    then show ?thesis using n(3) by simp
  next
    assume "\<exists>xs b ys st'. us @ [?f] = xs @ b # ys \<and> \<not> b_used b \<and> round_size (asked (of_nat n)) \<le> b_size b \<and>
       \<not> alloc_refused False (asked (of_nat n)) True h \<and>
       (\<forall>c\<in>set (us @ [?f]). \<not> b_used c \<and> round_size (asked (of_nat n)) \<le> b_size c \<longrightarrow> b_size b \<le> b_size c) \<and>
       heap_allocate False (of_nat n) True h = Some (of_nat (unat (heap_begin h) + span xs) + 24, st') \<and>
       heap_begin st' = heap_begin h \<and> heap_end st' = heap_end h \<and> heap_runtime_locked st' = heap_runtime_locked h \<and>
       (\<forall>x. x < 2 ^ 32 \<and> (x < unat (heap_begin h) + span xs + 24 \<or> unat (heap_begin h) + span xs + 24 + b_size b \<le> x) \<longrightarrow>
          hmem st' (of_nat x) = hmem h (of_nat x)) \<and>
       heap_rep st' (xs @ taken b (asked (of_nat n)) # remainder b (asked (of_nat n)) @ ys)"
    then obtain xs b ys h' where x: "us @ [?f] = xs @ b # ys" "\<not> b_used b"
      and al: "heap_allocate False (of_nat n) True h = Some (of_nat (unat (heap_begin h) + span xs) + 24, h')"
      and e: "heap_begin h' = heap_begin h" and rep': "heap_rep h' (xs @ taken b n # remainder b n @ ys)" unfolding ask by (elim exE conjE)
    have z: "32 < z - round_size n" using n(3) by simp
    show ?thesis
      using free[OF x] al e rep' z by (intro exI[of _ h']) (auto simp: aixos_kernel_malloc_def taken_def remainder_def rest_blk_def)
  qed
qed

section \<open>The first four task slots\<close>

definition demo_page :: "u32 list \<Rightarrow> task_page" where
  "demo_page as = \<lparr>page_slots = map (\<lambda>a. claim_slot AIXOS_OBJ_TASK (KTask a) zero_slot) as @
       replicate (AIXOS_CFG_TASK_SLOT_PAGE_SIZE - length as) zero_slot,
     page_free = [0xFFFF, 0xFFFE, 0xFFFC, 0xFFF8, 0xFFF0] ! length as\<rparr>"

definition obj_with :: "u32 list \<Rightarrow> obj_state" where
  "obj_with as = aixos_object_init\<lparr>task_pages := Some (demo_page as) # replicate (TASK_SLOT_PAGE_COUNT - 1) None\<rparr>"

lemma ctz_free: "ctz (0xFFFF :: u32) = 0" "ctz (0xFFFE :: u32) = 1" "ctz (0xFFFC :: u32) = 2" "ctz (0xFFF8 :: u32) = 3" by code_simp+

lemma free_masks: "(0xFFFF :: u32) AND NOT (bitm 0) = 0xFFFE" "(0xFFFE :: u32) AND NOT (bitm (Suc 0)) = 0xFFFC"
  "(0xFFFC :: u32) AND NOT (bitm 2) = 0xFFF8" "(0xFFF8 :: u32) AND NOT (bitm 3) = 0xFFF0" by code_simp+

lemma replicate_16: "replicate 16 x = x # replicate 15 x" "replicate 15 x = x # replicate 14 x" "replicate 14 x = x # replicate 13 x"
  "replicate 13 x = x # replicate 12 x" by (simp_all add: eval_nat_numeral)

lemma update_low: "(x # y # z # zs)[2 := w] = x # y # w # zs" "(x # y # z # u # zs)[3 := w] = x # y # z # w # zs"
  by (simp_all add: numeral_2_eq_2 numeral_3_eq_3)

lemma obj_with_pages [simp]: "task_pages (obj_with as) = Some (demo_page as) # replicate (TASK_SLOT_PAGE_COUNT - 1) None"
  "(obj_with as)\<lparr>task_pages := ps\<rparr> = aixos_object_init\<lparr>task_pages := ps\<rparr>"
  by (simp_all add: obj_with_def)

lemma init_pages: "task_pages aixos_object_init = None # replicate (TASK_SLOT_PAGE_COUNT - 1) None"
  by (simp add: aixos_object_init_def replicate_16)

lemma pages_upt: "[0..<TASK_SLOT_PAGE_COUNT] = 0 # [1..<TASK_SLOT_PAGE_COUNT]" by (simp add: upt_conv_Cons)

lemma first_page: "fst (k h) \<Longrightarrow> aixos_slot_alloc k AIXOS_POOL_TASK (KTask a) h aixos_object_init = (0, snd (k h), obj_with [a])"
  unfolding aixos_slot_alloc_def task_slot_alloc_def pages_upt
  by (cases "k h") (simp add: init_pages obj_with_def demo_page_def fresh_page_def task_page_free_mask_def Let_def ctz_free free_masks replicate_16 del: upt_rec_numeral)

lemma next_slots:
  "aixos_slot_alloc k AIXOS_POOL_TASK (KTask b) h (obj_with [a]) = (1, h, obj_with [a, b])"
  "aixos_slot_alloc k AIXOS_POOL_TASK (KTask b) h (obj_with [a, c]) = (2, h, obj_with [a, c, b])"
  "aixos_slot_alloc k AIXOS_POOL_TASK (KTask b) h (obj_with [a, c, d]) = (3, h, obj_with [a, c, d, b])"
  unfolding aixos_slot_alloc_def task_slot_alloc_def pages_upt
  by (simp_all add: obj_with_def demo_page_def Let_def ctz_free free_masks replicate_16 update_low del: upt_rec_numeral)

lemma demo_handles:
  "aixos_slot_handle AIXOS_POOL_TASK 0 (obj_with (a # as)) = 0x100" "aixos_slot_handle AIXOS_POOL_TASK 1 (obj_with (a # b # as)) = 0x101"
  "aixos_slot_handle AIXOS_POOL_TASK 2 (obj_with (a # b # c # as)) = 0x102" "aixos_slot_handle AIXOS_POOL_TASK 3 (obj_with (a # b # c # d # as)) = 0x103"
  by (simp_all add: aixos_slot_handle_def slot_lookup_def task_slot_at_def demo_page_def claim_slot_def zero_slot_def next_generation_def
    AIXOS_HANDLE_MAKE_def)

section \<open>Start-up\<close>

definition ram :: heap_state where
  "ram = \<lparr>heap_first = 0, heap_begin = 0, heap_end = 0, heap_total = 0, heap_initialized = False, heap_alloc_count = 0,
     heap_free_count = 0, heap_alloc_failures = 0, heap_corruption_count = 0, heap_current_used = 0, heap_peak_used = 0,
     heap_runtime_locked = False, hdrs = \<lambda>_. None, hmem = \<lambda>_. 0\<rparr>"

lemma heap_init_builtin: "pool \<noteq> 0 \<Longrightarrow> aixos_heap_init pool 0 0 h = aixos_heap_init p pool 7168 h"
  by (simp add: aixos_heap_init_def Let_def)

lemma ram_rep: "heap_rep (aixos_heap_init 0x20000000 0 0 ram) [\<lparr>b_size = 7144, b_used = False, b_req = 0\<rparr>]"
proof -
  have "heap_rep (aixos_heap_init 0 0x20000000 7168 ram) [init_block (unat (7168 :: u32) div 8 * 8)]"
    by (rule heap_init_rep) (simp_all add: ram_def)
  then show ?thesis by (simp add: heap_init_builtin[of _ _ 0] init_block_def)
qed

lemma ram_begin: "heap_begin (aixos_heap_init 0x20000000 0 0 ram) = 0x20000000"
  by (simp add: aixos_heap_init_def)

text \<open>The two addresses at which the tasks of the example have their control blocks, and the two that
  the heap gives to the system tasks.\<close>

abbreviation (input) LOW :: u32 where "LOW \<equiv> 0x20030000"
abbreviation (input) HIGH :: u32 where "HIGH \<equiv> 0x20031000"
abbreviation (input) IDLE :: u32 where "IDLE \<equiv> 0x200000F8"
abbreviation (input) TIMER :: u32 where "TIMER \<equiv> 0x20000818"

lemma k_slot_allocI:
  "aixos_slot_alloc (page_malloc (in_isr s)) pool ob (Some (k_heap s)) (k_obj s) = (i, Some h, os) \<Longrightarrow>
   k_slot_alloc pool ob s = Some (i, s\<lparr>k_heap := h, k_obj := os\<rparr>)"
  by (simp add: k_slot_alloc_def)

lemma boot_not_isr: "k_isr s = isr_boot \<Longrightarrow> \<not> in_isr s"
  by (simp add: in_isr_def aixos_in_isr_def isr_boot_def atomic_load_u32_def)

definition stage_lists :: "u32 list \<Rightarrow> lhead \<Rightarrow> lnode list option" where
  "stage_lists as h = (if h = AllTasks then Some (map AllN as) else if h \<in> HeldMutexes ` set as then Some []
     else lists (boot_ls boot_heads_set boot_nodes_set) h)"

definition stage_task :: "nat \<Rightarrow> int \<Rightarrow> aixos_tcb \<Rightarrow> bool" where
  "stage_task i p t \<longleftrightarrow> t_state t = AIXOS_TASK_READY \<and> t_priority t = p \<and> t_base_priority t = p \<and> t_wait_list t = None \<and>
     t_handle t = 0x100 + of_nat i"

text \<open>Before the start: the tasks \<open>ts\<close> (address and priority) have been created, in this order.\<close>

definition stage :: "(u32 \<times> int) list \<Rightarrow> hblk list \<Rightarrow> kstate \<Rightarrow> bool" where
  "stage ts bs s \<longleftrightarrow> kernel_ok s \<and> \<not> system_running s \<and> cur_task s = 0 \<and> k_isr s = isr_boot \<and>
     ln_idle_entry (k_link s) \<noteq> 0 \<and> ln_timer_entry (k_link s) \<noteq> 0 \<and> heap_rep (k_heap s) bs \<and> heap_begin (k_heap s) = 0x20000000 \<and>
     k_obj s = (if ts = [] then aixos_object_init else obj_with (map fst ts)) \<and> task_count s = int (length ts) \<and>
     pools s = zero_pools \<and> lists (k_ls s) = stage_lists (map fst ts) \<and> (\<forall>n. linked n (k_ls s) \<longleftrightarrow> n \<in> AllN ` fst ` set ts) \<and>
     dom (tcbs s) = fst ` set ts \<and> (\<forall>i < length ts. \<exists>t. tcbs s (fst (ts ! i)) = Some t \<and> stage_task i (snd (ts ! i)) t)"

lemma demo_handle:
  assumes "length as < 4"
  shows "aixos_slot_handle AIXOS_POOL_TASK (int (length as)) (obj_with (as @ [a])) = 0x100 + of_nat (length as)"
proof -
  consider "as = []" | b where "as = [b]" | b c where "as = [b, c]" | b c d where "as = [b, c, d]"
    using assms by (auto simp: less_Suc_eq numeral_eq_Suc length_Suc_conv)
  then show ?thesis by cases (simp_all add: demo_handles)
qed

lemma stage_create:
  assumes st: "stage ts bs s" and a: "a \<notin> fst ` set ts" "a \<noteq> 0" "length ts < 4" "entry \<noteq> 0" "0 \<le> p" "p < int AIXOS_CFG_MAX_PRIORITY"
      "AIXOS_CFG_MIN_TASK_STACK_SIZE \<le> sz"
    and m: "(if pt = 0 then on_heap (aixos_kernel_malloc (in_isr s) sizeof_tcb) s else Some (pt, s)) = Some (a, s\<lparr>k_heap := hp1\<rparr>)"
    and cs: "create_stack stack sz False (s\<lparr>k_heap := hp1\<rparr>) = Some ((sb, sab), s\<lparr>k_heap := hp2\<rparr>)" "sab \<noteq> 0"
    and al: "aixos_slot_alloc (page_malloc False) AIXOS_POOL_TASK (KTask a) (Some hp2) (k_obj s) =
      (int (length ts), Some hp3, obj_with (map fst ts @ [a]))"
    and b: "unat sb + unat sz < 2 ^ 32"
    and w: "heap_begin hp3 = 0x20000000" "\<And>h'. heap_within (unat sb) (unat sz) hp3 h' \<Longrightarrow> heap_rep h' bs'"
  shows "\<exists>s'. task_create_common nm entry arg stack sz p pt sys False s = Some (0x100 + of_nat (length ts), s') \<and>
    stage (ts @ [(a, p)]) bs' s'"
proof -
  note S = st[unfolded stage_def]
  have isr: "\<not> in_isr s" using boot_not_isr S by blast
  have args: "create_args_ok entry stack sz p sys False s" using a S isr by (simp add: create_args_ok_def)
  have fr: "free_tcb a s" using a(1,2) S by (auto simp: free_tcb_def stage_lists_def)
  have al': "k_slot_alloc AIXOS_POOL_TASK (KTask a) (s\<lparr>k_heap := hp2\<rparr>) =
      Some (int (length ts), s\<lparr>k_heap := hp3, k_obj := obj_with (map fst ts @ [a])\<rparr>)"
    using al isr k_slot_allocI[of "s\<lparr>k_heap := hp2\<rparr>"] by (simp add: in_isr_def)
  obtain s' t where c: "task_create_common nm entry arg stack sz p pt sys False s = Some (t_handle t, s')" "task_joined a t s s'"
    "t_priority t = p" "t_handle t = aixos_slot_handle AIXOS_POOL_TASK (int (length ts)) (obj_with (map fst ts @ [a]))"
    "k_obj s' = obj_with (map fst ts @ [a])" "heap_within (unat sb) (unat sz) hp3 (k_heap s')"
  proof -
    have "\<exists>s' t. task_create_common nm entry arg stack sz p pt sys False s = Some (t_handle t, s') \<and> task_joined a t s s' \<and>
      t_priority t = p \<and> t_handle t = aixos_slot_handle AIXOS_POOL_TASK (int (length ts)) (obj_with (map fst ts @ [a])) \<and>
      k_obj s' = obj_with (map fst ts @ [a]) \<and> heap_within (unat sb) (unat sz) hp3 (k_heap s')"
      using task_create_success[OF conjunct1[OF S] args m cs al' _ fr b, of nm arg] by simp metis
    then show thesis using that by blast
  qed
  have h: "t_handle t = 0x100 + of_nat (length ts)" using demo_handle[of "map fst ts" a] a(3) by (simp add: c(4))
  have hv: "t_handle t \<noteq> AIXOS_HANDLE_INVALID"
  proof -
    have "length ts = 0 \<or> length ts = 1 \<or> length ts = 2 \<or> length ts = 3" using a(3) by linarith
    then show ?thesis using h by (elim disjE) simp_all
  qed
  note J = c(2)[unfolded task_joined_def]
  have "kernel_ok s'" using task_create_guarded(1)[OF _ c(1)] hv S by simp
  moreover have "lists (k_ls s') = stage_lists (map fst (ts @ [(a, p)]))"
    using J S by (auto simp: joined_lists_def stage_lists_def fun_eq_iff)
  moreover have "linked n (k_ls s') \<longleftrightarrow> n \<in> AllN ` fst ` set (ts @ [(a, p)])" for n
    using J S by (auto simp: joined_nodes_def linked_def split: nstate.splits)
  moreover have "heap_begin (k_heap s') = 0x20000000" using heap_within_fields[OF c(6)] w(1) by simp
  moreover have "\<exists>u. tcbs s' (fst ((ts @ [(a, p)]) ! i)) = Some u \<and> stage_task i (snd ((ts @ [(a, p)]) ! i)) u"
    if "i < length (ts @ [(a, p)])" for i
  proof (cases "i < length ts")
    case True
    then have "fst (ts ! i) \<noteq> a" using a(1) by (metis image_eqI nth_mem)
    then show ?thesis using True S J by (simp add: nth_append)
  next
    case False
    then have "i = length ts" using that by simp
    then show ?thesis using J c(3) h by (simp add: nth_append stage_task_def)
  qed
  ultimately have "stage (ts @ [(a, p)]) bs' s'"
    unfolding stage_def using J S c(5) w(2)[OF c(6)] by auto
  then show ?thesis using c(1) h by auto
qed

lemma stage_zero: "\<exists>s0 s. zeroed s0 \<and> kernel_init 0x20000000 s0 = Some s \<and> stage [] [\<lparr>b_size = 7144, b_used = False, b_req = 0\<rparr>] s \<and> pre_start s"
proof -
  obtain s0 :: kstate where z: "zeroed s0" using zeroed_exists by blast
  let ?s0 = "s0\<lparr>k_heap := ram, k_link := \<lparr>ln_return_trap = 0x08000101, ln_idle_entry = 0x08000201, ln_timer_entry = 0x08000301\<rparr>\<rparr>"
  have z': "zeroed ?s0" using z by (simp add: zeroed_def)
  obtain s where s: "kernel_init 0x20000000 ?s0 = Some s" "kernel_ok s" "\<not> system_running s" "task_count s = 0" "tcbs s = Map.empty"
    "k_isr s = isr_boot" "cur_task s = 0" "k_ls s = boot_ls boot_heads_set boot_nodes_set" "k_obj s = aixos_object_init"
    "k_heap s = aixos_heap_init 0x20000000 0 0 ram" "k_link s = k_link ?s0" "pools s = zero_pools"
    using kernel_init_ok[where base = "0x20000000", OF z'] by (auto simp: returns_iff simp del: boot_ls_simps)
  have "lists (k_ls s) = stage_lists []" "\<And>n. \<not> linked n (k_ls s)"
    by (auto simp: s(8) stage_lists_def linked_def fun_eq_iff)
  then have "stage [] [\<lparr>b_size = 7144, b_used = False, b_req = 0\<rparr>] s"
    using s ram_rep ram_begin by (simp add: stage_def)
  moreover have "pre_start s" using s by (simp add: pre_start_def)
  ultimately show ?thesis using z' s(1) by blast
qed

abbreviation (input) last_free :: "nat \<Rightarrow> hblk" where "last_free z \<equiv> \<lparr>b_size = z, b_used = False, b_req = 0\<rparr>"
abbreviation (input) used_blk :: "nat \<Rightarrow> nat \<Rightarrow> hblk" where "used_blk z n \<equiv> \<lparr>b_size = z, b_used = True, b_req = n\<rparr>"

lemma stage_low:
  assumes st: "stage [] [last_free 7144] s"
  shows "\<exists>s'. aixos_task_create_static (Some ''low'') 0x08001001 0 0x20020000 512 3 LOW s = Some (0x100, s') \<and>
    stage [(LOW, 3)] [used_blk 200 196, last_free 6920] s'"
proof -
  note S = st[unfolded stage_def]
  have "\<exists>h'. aixos_kernel_malloc False (of_nat 196) (k_heap s) = Some (of_nat (unat (heap_begin (k_heap s)) + span [] + 24), h') \<and>
    heap_rep h' ([] @ [used_blk (round_size 196) 196, last_free (7144 - round_size 196 - 24)]) \<and> heap_begin h' = heap_begin (k_heap s)"
    by (rule malloc_last) (use S in \<open>simp_all add: round_size_def\<close>)
  then obtain h where h: "aixos_kernel_malloc False 196 (k_heap s) = Some (0x20000018, h)"
    "heap_rep h [used_blk 200 196, last_free 6920]" "heap_begin h = 0x20000000"
    using S by (auto simp: round_size_def)
  have al: "aixos_slot_alloc (page_malloc False) AIXOS_POOL_TASK (KTask LOW) (Some (k_heap s)) (k_obj s) = (0, Some h, obj_with [LOW])"
    using S first_page[of "page_malloc False" "Some (k_heap s)" LOW] by (simp add: page_malloc_def h(1))
  have "\<exists>s'. task_create_common (Some ''low'') 0x08001001 0 0x20020000 512 3 LOW False False s = Some (0x100 + of_nat (length ([] :: (u32 \<times> int) list)), s') \<and>
      stage ([] @ [(LOW, 3)]) [used_blk 200 196, last_free 6920] s'"
    by (rule stage_create[OF st, where ?hp1.0 = "k_heap s" and ?hp2.0 = "k_heap s" and ?hp3.0 = h and sb = "0x20020000" and sab = "0x20020000"])
      (use al h(3) heap_within_above[OF _ h(2)] in \<open>simp_all add: create_stack_def\<close>)
  then show ?thesis by (simp add: aixos_task_create_static_def)
qed

lemma stage_high:
  assumes st: "stage [(LOW, 3)] [used_blk 200 196, last_free 6920] s"
  shows "\<exists>s'. aixos_task_create_static (Some ''high'') 0x08002001 0 0x20021000 512 70 HIGH s = Some (0x101, s') \<and>
    stage [(LOW, 3), (HIGH, 70)] [used_blk 200 196, last_free 6920] s'"
proof -
  note S = st[unfolded stage_def]
  have h: "heap_rep (k_heap s) [used_blk 200 196, last_free 6920]" "heap_begin (k_heap s) = 0x20000000" using S by auto
  have "\<exists>s'. task_create_common (Some ''high'') 0x08002001 0 0x20021000 512 70 HIGH False False s = Some (0x100 + of_nat (length [(LOW, 3 :: int)]), s') \<and>
      stage ([(LOW, 3)] @ [(HIGH, 70)]) [used_blk 200 196, last_free 6920] s'"
    by (rule stage_create[OF st, where ?hp1.0 = "k_heap s" and ?hp2.0 = "k_heap s" and ?hp3.0 = "k_heap s" and sb = "0x20021000" and sab = "0x20021000"])
      (use S next_slots(1) heap_within_above[OF _ h(1)] h(2) in \<open>simp_all add: create_stack_def\<close>)
  then show ?thesis by (simp add: aixos_task_create_static_def)
qed

text \<open>A system task: its control block and its stack come from the heap.\<close>

lemma stage_system:
  assumes st: "stage ts (us @ [last_free z]) s" and us: "\<forall>u \<in> set us. b_used u"
    and n: "AIXOS_CFG_MIN_TASK_STACK_SIZE \<le> of_nat n" "n < 4096" "round_size n + 832 < z"
    and e: "entry \<noteq> 0" "0 \<le> p" "p < int AIXOS_CFG_MAX_PRIORITY" "length ts < 4" "1 < length ts"
    and a: "a = of_nat (0x20000000 + span us + 24)" "a \<notin> fst ` set ts" "span us < 8192"
    and al: "\<And>hp. aixos_slot_alloc (page_malloc False) AIXOS_POOL_TASK (KTask a) hp (obj_with (map fst ts)) =
      (int (length ts), hp, obj_with (map fst ts @ [a]))"
  shows "\<exists>s'. aixos_task_create nm entry 0 (of_nat n) p s = Some (0x100 + of_nat (length ts), s') \<and>
    stage (ts @ [(a, p)]) (us @ [used_blk 744 736, used_blk (round_size n) n, last_free (z - 768 - round_size n - 24)]) s'"
proof -
  note S = st[unfolded stage_def]
  let ?t = "us @ [used_blk 744 736]"
  have rep: "heap_rep (k_heap s) (us @ [last_free z])" and beg: "heap_begin (k_heap s) = 0x20000000" using S by auto
  have n32: "unat (of_nat n :: u32) = n" using n(2) by (intro u32_of_nat) simp
  have n0: "192 \<le> n" using n(1) n32 by (simp add: word_le_nat_alt)
  have ub: "unat (0x20000000 :: u32) = 0x20000000" by simp
  have r736: "round_size 736 = 744" by (simp add: round_size_def)
  have "\<exists>h'. aixos_kernel_malloc False (of_nat 736) (k_heap s) = Some (of_nat (unat (heap_begin (k_heap s)) + span us + 24), h') \<and>
    heap_rep h' (us @ [used_blk (round_size 736) 736, last_free (z - round_size 736 - 24)]) \<and> heap_begin h' = heap_begin (k_heap s)"
    by (rule malloc_last[OF rep us]) (use n(3) in \<open>simp_all add: r736\<close>)
  then obtain h1 where h1: "aixos_kernel_malloc False 736 (k_heap s) = Some (a, h1)"
    "heap_rep h1 (?t @ [last_free (z - 768)])" "heap_begin h1 = 0x20000000"
    unfolding beg ub a(1)[symmetric] r736 by auto
  have ut: "\<forall>u \<in> set ?t. b_used u" using us by auto
  have c: "round_size n + 32 < z - 768" "0 < n" using n(3) n0 by simp_all
  obtain h2 where h2: "aixos_kernel_malloc False (of_nat n) h1 = Some (of_nat (0x20000000 + span ?t + 24), h2)"
    "heap_rep h2 (?t @ [used_blk (round_size n) n, last_free (z - 768 - round_size n - 24)])" "heap_begin h2 = 0x20000000"
    using malloc_last[OF h1(2) ut c(2) n(2) c(1)] unfolding h1(3) ub by auto
  let ?sb = "of_nat (0x20000000 + span ?t + 24) :: u32"
  have sb: "unat ?sb = 0x20000000 + span ?t + 24" using a(3) by (intro u32_of_nat) simp
  have sb0: "?sb \<noteq> 0" using sb by (metis add_eq_0_iff_both_eq_0 unat_0 zero_neq_numeral)
  have a0: "a \<noteq> 0"
  proof -
    have "unat a = 0x20000000 + span us + 24" unfolding a(1) using a(3) by (intro u32_of_nat) simp
    then show ?thesis by (metis add_eq_0_iff_both_eq_0 unat_0 zero_neq_numeral)
  qed
  have isr: "\<not> in_isr s" using boot_not_isr S by blast
  have blk: "(0x20000000 + span ?t, used_blk (round_size n) n) \<in>
      set (addrs (unat (heap_begin h2)) (?t @ [used_blk (round_size n) n, last_free (z - 768 - round_size n - 24)]))"
    unfolding h2(3) ub by (subst addrs_append) simp
  have w: "heap_rep h' (?t @ [used_blk (round_size n) n, last_free (z - 768 - round_size n - 24)])"
    if "heap_within (unat ?sb) (unat (of_nat n :: u32)) h2 h'" for h'
    by (rule heap_within_block[OF that[unfolded sb n32] h2(2) blk]) simp_all
  have ko: "k_obj s = obj_with (map fst ts)" using S e(5) by auto
  have m: "(if 0 = (0 :: u32) then on_heap (aixos_kernel_malloc (in_isr s) sizeof_tcb) s else Some (0, s)) = Some (a, s\<lparr>k_heap := h1\<rparr>)"
    using isr h1(1) by (simp add: on_heap_def)
  have cs: "create_stack 0 (of_nat n) False (s\<lparr>k_heap := h1\<rparr>) = Some ((?sb, ?sb), s\<lparr>k_heap := h2\<rparr>)"
    using isr h2(1) sb0 by (simp add: create_stack_def on_heap_def in_isr_def del: of_nat_add)
  have al': "aixos_slot_alloc (page_malloc False) AIXOS_POOL_TASK (KTask a) (Some h2) (k_obj s) =
      (int (length ts), Some h2, obj_with (map fst ts @ [a]))" by (simp add: ko al)
  have b: "unat ?sb + unat (of_nat n :: u32) < 2 ^ 32" unfolding sb n32 using a(3) n(2) by simp
  obtain s' where "task_create_common nm entry 0 0 (of_nat n) p 0 False False s = Some (0x100 + of_nat (length ts), s')"
    "stage (ts @ [(a, p)]) (?t @ [used_blk (round_size n) n, last_free (z - 768 - round_size n - 24)]) s'"
    using stage_create[OF st a(2) a0 e(4,1-3) n(1) m cs sb0 al' b h2(3) w] by blast
  then show ?thesis by (simp add: aixos_task_create_def)
qed

lemma start_loop_eq:
  assumes "distinct as" "\<And>p. p < AIXOS_CFG_MAX_PRIORITY \<Longrightarrow> lists (k_ls s) (ReadyQ p) \<noteq> None"
    and "\<And>a. a \<in> set as \<Longrightarrow> a \<noteq> 0 \<and> \<not> linked (ReadyN a) (k_ls s) \<and> tcbs s a = Some (T a) \<and> t_state (T a) = AIXOS_TASK_READY \<and>
      prio_ok (t_priority (T a))"
  shows "\<exists>s'. start_loop (map AllN as) s = Some s' \<and> s' = s\<lparr>k_ls := k_ls s', ready_bitmap := ready_bitmap s'\<rparr> \<and>
    (\<forall>p. lists (k_ls s') (ReadyQ p) = map_option (\<lambda>xs. xs @ [ReadyN a. a \<leftarrow> as, t_priority (T a) = int p]) (lists (k_ls s) (ReadyQ p))) \<and>
    (\<forall>h. (\<forall>p. h \<noteq> ReadyQ p) \<longrightarrow> lists (k_ls s') h = lists (k_ls s) h) \<and>
    nstat (k_ls s') = (\<lambda>n. if n \<in> ReadyN ` set as then NIn (ReadyQ (nat (t_priority (T (the (node_task n)))))) else nstat (k_ls s) n)"
  using assms
proof (induction as arbitrary: s)
  case Nil
  then show ?case by (simp add: option.map_ident)
next
  case (Cons a as)
  have a: "a \<noteq> 0" "\<not> linked (ReadyN a) (k_ls s)" "tcbs s a = Some (T a)" "t_state (T a) = AIXOS_TASK_READY" "prio_ok (t_priority (T a))"
    using Cons.prems(3)[of a] by simp_all
  let ?p = "nat (t_priority (T a))"
  have p: "t_priority (T a) = int ?p" "?p < AIXOS_CFG_MAX_PRIORITY" using a(5) by (auto simp: prio_ok_def)
  obtain ys where ys: "lists (k_ls s) (ReadyQ ?p) = Some ys" using Cons.prems(2)[OF p(2)] by blast
  define s1 where "s1 = bitmap_set ?p (s\<lparr>k_ls := (k_ls s)\<lparr>lists := (lists (k_ls s))(ReadyQ ?p \<mapsto> ys @ [ReadyN a]),
      nstat := (nstat (k_ls s))(ReadyN a := NIn (ReadyQ ?p))\<rparr>\<rparr>)"
  have add: "aixos_sched_add_task a s = Some s1"
    using a(1-4) a(5)[unfolded prio_ok_def] ys by (simp add: aixos_sched_add_task_def on_ls_def list_add_tail_def s1_def)
  have e1: "lists (k_ls s1) = (lists (k_ls s))(ReadyQ ?p \<mapsto> ys @ [ReadyN a])" "nstat (k_ls s1) = (nstat (k_ls s))(ReadyN a := NIn (ReadyQ ?p))"
    "tcbs s1 = tcbs s" by (simp_all add: s1_def bitmap_set_def)
  have e2: "s1 = s\<lparr>k_ls := k_ls s1, ready_bitmap := ready_bitmap s1\<rparr>" by (simp add: s1_def bitmap_set_def)
  have "\<exists>s'. start_loop (map AllN as) s1 = Some s' \<and> s' = s1\<lparr>k_ls := k_ls s', ready_bitmap := ready_bitmap s'\<rparr> \<and>
    (\<forall>p. lists (k_ls s') (ReadyQ p) = map_option (\<lambda>xs. xs @ [ReadyN a. a \<leftarrow> as, t_priority (T a) = int p]) (lists (k_ls s1) (ReadyQ p))) \<and>
    (\<forall>h. (\<forall>p. h \<noteq> ReadyQ p) \<longrightarrow> lists (k_ls s') h = lists (k_ls s1) h) \<and>
    nstat (k_ls s') = (\<lambda>n. if n \<in> ReadyN ` set as then NIn (ReadyQ (nat (t_priority (T (the (node_task n)))))) else nstat (k_ls s1) n)"
  proof (rule Cons.IH)
    show "lists (k_ls s1) (ReadyQ p) \<noteq> None" if "p < AIXOS_CFG_MAX_PRIORITY" for p using Cons.prems(2)[OF that] by (simp add: e1)
    show "b \<noteq> 0 \<and> \<not> linked (ReadyN b) (k_ls s1) \<and> tcbs s1 b = Some (T b) \<and> t_state (T b) = AIXOS_TASK_READY \<and> prio_ok (t_priority (T b))"
      if "b \<in> set as" for b using Cons.prems(1,3) that by (auto simp: e1 linked_def)
  qed (use Cons.prems(1) in simp)
  then obtain s' where s': "start_loop (map AllN as) s1 = Some s'" "s' = s1\<lparr>k_ls := k_ls s', ready_bitmap := ready_bitmap s'\<rparr>"
    "\<And>p. lists (k_ls s') (ReadyQ p) = map_option (\<lambda>xs. xs @ [ReadyN a. a \<leftarrow> as, t_priority (T a) = int p]) (lists (k_ls s1) (ReadyQ p))"
    "\<And>h. (\<forall>p. h \<noteq> ReadyQ p) \<Longrightarrow> lists (k_ls s') h = lists (k_ls s1) h"
    "nstat (k_ls s') = (\<lambda>n. if n \<in> ReadyN ` set as then NIn (ReadyQ (nat (t_priority (T (the (node_task n)))))) else nstat (k_ls s1) n)"
    by blast
  have "start_loop (map AllN (a # as)) s = Some s'" using a add s'(1) by simp
  moreover have "s' = s\<lparr>k_ls := k_ls s', ready_bitmap := ready_bitmap s'\<rparr>" by (subst s'(2), subst e2) simp
  moreover have "lists (k_ls s') (ReadyQ q) = map_option (\<lambda>xs. xs @ [ReadyN a. a \<leftarrow> (a # as), t_priority (T a) = int q]) (lists (k_ls s) (ReadyQ q))" for q
    using s'(3)[of q] ys p(1) by (cases "q = ?p") (auto simp: e1)
  moreover have "lists (k_ls s') h = lists (k_ls s) h" if "\<forall>p. h \<noteq> ReadyQ p" for h using s'(4)[OF that] that by (simp add: e1)
  moreover have "nstat (k_ls s') = (\<lambda>n. if n \<in> ReadyN ` set (a # as) then NIn (ReadyQ (nat (t_priority (T (the (node_task n)))))) else nstat (k_ls s) n)"
    by (rule ext) (use s'(5) in \<open>auto simp: e1\<close>)
  ultimately show ?case by (intro exI[of _ s'] conjI allI impI)
qed

lemma schedule_first:
  "aixos_schedule s = Some s' \<Longrightarrow> cur_task s = 0 \<Longrightarrow> cur_task s' \<noteq> 0 \<Longrightarrow>
   \<exists>t x. tcbs s (cur_task s') = Some t \<and> tcbs s' (cur_task s') = Some (t\<lparr>t_state := AIXOS_TASK_RUNNING, t_switch_count := x\<rparr>)"
  by (auto simp: aixos_schedule_def upd_tcb_def k_record_def Let_def split: if_splits option.splits Option.bind_splits)

lemma schedule_fields: "aixos_schedule s = Some s' \<Longrightarrow> system_running s' = system_running s \<and> k_isr s' = k_isr s \<and> k_obj s' = k_obj s \<and> pools s' = pools s"
  by (auto simp: pools_def aixos_schedule_def upd_tcb_def k_record_def Let_def split: if_splits option.splits Option.bind_splits)

text \<open>The system after the start: the task of priority 70 runs, the others are ready.\<close>

definition demo_ready :: "nat \<Rightarrow> lnode list" where
  "demo_ready p = (if p = 0 then [ReadyN IDLE] else if p = 3 then [ReadyN LOW] else if p = 63 then [ReadyN TIMER]
     else if p = 70 then [ReadyN HIGH] else [])"

definition demo_lists :: "lhead \<Rightarrow> lnode list option" where
  "demo_lists h = (case h of ReadyQ p \<Rightarrow> if p < AIXOS_CFG_MAX_PRIORITY then Some (demo_ready p) else None
     | _ \<Rightarrow> stage_lists [LOW, HIGH, IDLE, TIMER] h)"

definition demo_running :: "kstate \<Rightarrow> bool" where
  "demo_running s \<longleftrightarrow> reach s \<and> system_running s \<and> k_isr s = isr_boot \<and> cur_task s = HIGH \<and>
     lists (k_ls s) = demo_lists \<and> k_obj s = obj_with [LOW, HIGH, IDLE, TIMER] \<and> pools s = zero_pools \<and>
     (\<exists>t. tcbs s HIGH = Some t \<and> stage_task 1 70 (t\<lparr>t_state := AIXOS_TASK_READY\<rparr>) \<and> t_state t = AIXOS_TASK_RUNNING) \<and>
     (\<exists>t. tcbs s LOW = Some t \<and> stage_task 0 3 t) \<and> (\<exists>t. tcbs s IDLE = Some t \<and> stage_task 2 0 t) \<and>
     (\<exists>t. tcbs s TIMER = Some t \<and> stage_task 3 63 t)"

lemma obj_with_invalid: "k_obj s = obj_with as \<Longrightarrow> k_lookup AIXOS_HANDLE_INVALID AIXOS_OBJ_TASK s = KNull"
  by (simp add: k_lookup_def aixos_obj_from_handle_def slot_lookup_def task_slot_at_def type_to_pool_id_def Let_def AIXOS_HANDLE_IDX_def)

lemma demo_start:
  assumes st: "stage [(LOW, 3), (HIGH, 70)] [used_blk 200 196, last_free 6920] s" and r: "reach s" and pre: "pre_start s"
  shows "\<exists>s'. demo_running s'"
proof -
  note S = st[unfolded stage_def]
  let ?ts = "[(LOW, 3), (HIGH, 70)] :: (u32 \<times> int) list"
  have s0: "s\<lparr>system_running := False\<rparr> = s" using S by simp
  obtain s1 where s1: "aixos_task_create (Some ''idle'') (ln_idle_entry (k_link s)) 0 1024 0 s = Some (0x102, s1)"
    "stage (?ts @ [(IDLE, 0)]) ([used_blk 200 196] @ [used_blk 744 736, used_blk 1032 1024, last_free 5096]) s1"
  proof -
    have "\<exists>s'. aixos_task_create (Some ''idle'') (ln_idle_entry (k_link s)) 0 (of_nat 1024) 0 s = Some (0x100 + of_nat (length ?ts), s') \<and>
      stage (?ts @ [(IDLE, 0)]) ([used_blk 200 196] @ [used_blk 744 736, used_blk (round_size 1024) 1024, last_free (6920 - 768 - round_size 1024 - 24)]) s'"
      by (rule stage_system) (use st S next_slots(2) in \<open>simp_all add: round_size_def\<close>)
    then show thesis using that by (auto simp: round_size_def)
  qed
  note S1 = s1(2)[unfolded stage_def]
  obtain s2 where s2: "aixos_task_create (Some ''timer'') (ln_timer_entry (k_link s1)) 0 512 63 s1 = Some (0x103, s2)"
    "stage ((?ts @ [(IDLE, 0)]) @ [(TIMER, 63)]) ([used_blk 200 196, used_blk 744 736, used_blk 1032 1024] @
       [used_blk 744 736, used_blk 520 512, last_free 3784]) s2"
  proof -
    have "\<exists>s'. aixos_task_create (Some ''timer'') (ln_timer_entry (k_link s1)) 0 (of_nat 512) 63 s1 = Some (0x100 + of_nat (length (?ts @ [(IDLE, 0)])), s') \<and>
      stage ((?ts @ [(IDLE, 0)]) @ [(TIMER, 63)]) ([used_blk 200 196, used_blk 744 736, used_blk 1032 1024] @
        [used_blk 744 736, used_blk (round_size 512) 512, last_free (5096 - 768 - round_size 512 - 24)]) s'"
      by (rule stage_system) (use s1(2) S1 next_slots(3) in \<open>simp_all add: round_size_def\<close>)
    then show thesis using that by (auto simp: round_size_def)
  qed
  note S2 = s2(2)[unfolded stage_def]
  let ?s3 = "s2\<lparr>k_heap := aixos_heap_lockdown (in_isr s2) (k_heap s2)\<rparr>" and ?as = "[LOW, HIGH, IDLE, TIMER]"
  have ok3: "kernel_ok ?s3" using S2 by simp
  obtain T where T: "\<And>i. i < 4 \<Longrightarrow> tcbs s2 (?as ! i) = Some (T (?as ! i)) \<and>
      stage_task i ([3, 70, 0, 63] ! i) (T (?as ! i))"
  proof -
    have "tcbs s2 (?as ! i) = Some (the (tcbs s2 (?as ! i))) \<and> stage_task i ([3, 70, 0, 63] ! i) (the (tcbs s2 (?as ! i)))" if i: "i < 4" for i
    proof -
      have "i = 0 \<or> i = 1 \<or> i = 2 \<or> i = 3" using i by linarith
      moreover have "\<exists>t. tcbs s2 (fst (((?ts @ [(IDLE, 0)]) @ [(TIMER, 63)]) ! i)) = Some t \<and>
          stage_task i (snd (((?ts @ [(IDLE, 0)]) @ [(TIMER, 63)]) ! i)) t" using S2 i by simp
      ultimately show ?thesis by (elim disjE) auto
    qed
    then show thesis by (rule that)
  qed
  have T4: "tcbs s2 LOW = Some (T LOW)" "stage_task 0 3 (T LOW)" "tcbs s2 HIGH = Some (T HIGH)" "stage_task 1 70 (T HIGH)"
    "tcbs s2 IDLE = Some (T IDLE)" "stage_task 2 0 (T IDLE)" "tcbs s2 TIMER = Some (T TIMER)" "stage_task 3 63 (T TIMER)"
    using T[of 0] T[of 1] T[of 2] T[of 3] by simp_all
  have L3: "lists (k_ls ?s3) = stage_lists ?as" using S2 by simp
  obtain s4 where s4: "start_loop (map AllN ?as) ?s3 = Some s4" "s4 = ?s3\<lparr>k_ls := k_ls s4, ready_bitmap := ready_bitmap s4\<rparr>"
    "\<And>p. lists (k_ls s4) (ReadyQ p) = map_option (\<lambda>xs. xs @ [ReadyN a. a \<leftarrow> ?as, t_priority (T a) = int p]) (lists (k_ls ?s3) (ReadyQ p))"
    "\<And>h. (\<forall>p. h \<noteq> ReadyQ p) \<Longrightarrow> lists (k_ls s4) h = lists (k_ls ?s3) h"
  proof -
    have "\<exists>s'. start_loop (map AllN ?as) ?s3 = Some s' \<and> s' = ?s3\<lparr>k_ls := k_ls s', ready_bitmap := ready_bitmap s'\<rparr> \<and>
      (\<forall>p. lists (k_ls s') (ReadyQ p) = map_option (\<lambda>xs. xs @ [ReadyN a. a \<leftarrow> ?as, t_priority (T a) = int p]) (lists (k_ls ?s3) (ReadyQ p))) \<and>
      (\<forall>h. (\<forall>p. h \<noteq> ReadyQ p) \<longrightarrow> lists (k_ls s') h = lists (k_ls ?s3) h) \<and>
      nstat (k_ls s') = (\<lambda>n. if n \<in> ReadyN ` set ?as then NIn (ReadyQ (nat (t_priority (T (the (node_task n)))))) else nstat (k_ls ?s3) n)"
    proof (rule start_loop_eq)
      show "lists (k_ls ?s3) (ReadyQ p) \<noteq> None" if "p < AIXOS_CFG_MAX_PRIORITY" for p
        using queues_okD(3)[OF kinvxD(1)[OF kernel_okD(1)[OF ok3]]] that by blast
      show "a \<noteq> 0 \<and> \<not> linked (ReadyN a) (k_ls ?s3) \<and> tcbs ?s3 a = Some (T a) \<and> t_state (T a) = AIXOS_TASK_READY \<and> prio_ok (t_priority (T a))"
        if "a \<in> set ?as" for a
        using that T4 S2 by (auto simp: stage_task_def prio_ok_def)
    qed simp
    then show thesis using that by blast
  qed
  have L4: "lists (k_ls s4) = demo_lists"
  proof
    fix h show "lists (k_ls s4) h = demo_lists h"
    proof (cases h)
      case (ReadyQ p)
      then show ?thesis using T4 s4(3)[of p] L3 by (auto simp: demo_lists_def demo_ready_def stage_lists_def stage_task_def image_iff)
    qed (use s4(4)[of h] L3 in \<open>simp_all add: demo_lists_def\<close>)
  qed
  have e4: "tcbs s4 = tcbs s2" "k_isr s4 = isr_boot" "k_obj s4 = obj_with ?as" "cur_task s4 = 0"
    "pools s4 = zero_pools" by (subst s4(2), use S2 in \<open>simp add: pools_def\<close>)+
  have run: "kernel_ok (s4\<lparr>system_running := True\<rparr>)"
  proof (rule start_running)
    have n3: "nstat (k_ls ?s3) (AllN a) = NIn AllTasks \<longleftrightarrow> a \<in> set ?as" for a
      using lwf_in_iff[OF kinvx_lwf[OF kernel_okD(1)[OF ok3]], of AllTasks "map AllN ?as" "AllN a"] L3 by (simp add: stage_lists_def)
    have "returns (start_loop (map AllN ?as) ?s3) (\<lambda>s'. kernel_ok s' \<and> sched_frame ?s3 s' \<and> tcbs s' = tcbs ?s3 \<and>
      (\<forall>a. linked (ReadyN a) (k_ls ?s3) \<longrightarrow> linked (ReadyN a) (k_ls s')) \<and>
      (\<forall>a t. AllN a \<in> set (map AllN ?as) \<longrightarrow> tcbs ?s3 a = Some t \<longrightarrow> t_state t = AIXOS_TASK_READY \<longrightarrow> linked (ReadyN a) (k_ls s')))"
      by (rule start_loop_keeps[OF ok3]) (use S2 n3 in auto)
    note K = returnsD[OF this s4(1)]
    show "kernel_ok s4" using K by blast
    fix a t assume a: "tcbs s4 a = Some t"
    have "dom (tcbs s2) = set ?as" using S2 by simp
    moreover have "a \<in> dom (tcbs s2)" using a unfolding e4(1) by (rule domI)
    ultimately have as: "a \<in> set ?as" by (simp only:)
    then have 1: "AllN a \<in> set (map AllN ?as)" unfolding set_map by (rule imageI)
    have 2: "tcbs ?s3 a = Some t" using a e4(1) by simp
    have 3: "t_state t = AIXOS_TASK_READY" using as a e4(1) T4 by (auto simp: stage_task_def)
    show "linked (ReadyN a) (k_ls s4)" by (rule conjunct2[OF conjunct2[OF conjunct2[OF conjunct2[OF K]]], rule_format, OF 1 2 3])
  qed
  obtain s6 where s6: "aixos_schedule (s4\<lparr>system_running := True\<rparr>) = Some s6" "kernel_ok s6" "scheduled s6" "k_ls s6 = k_ls s4"
    "\<And>b. b \<noteq> 0 \<Longrightarrow> b \<noteq> cur_task s6 \<Longrightarrow> tcbs s6 b = tcbs s4 b"
    using schedule_keeps[OF run] e4(4) by (auto simp: returns_iff)
  have L6: "lists (k_ls s6) = demo_lists" by (simp add: s6(4) L4)
  have c6: "cur_task s6 = HIGH"
  proof -
    have m: "members (ReadyQ p) s6 = Some (demo_ready p)" if "p < AIXOS_CFG_MAX_PRIORITY" for p
      using that by (simp add: members_def L6 demo_lists_def)
    have hi: "is_highest (cur_task s6) s6" using s6(3) by (simp add: scheduled_def)
    then have c0: "cur_task s6 \<noteq> 0" using m[of 70] by (auto simp: is_highest_def demo_ready_def split: if_splits)
    then obtain p xs where p: "p < AIXOS_CFG_MAX_PRIORITY" "demo_ready p = ReadyN (cur_task s6) # xs"
      "\<And>q. q < AIXOS_CFG_MAX_PRIORITY \<Longrightarrow> p < q \<Longrightarrow> demo_ready q = []"
      using hi m by (auto simp: is_highest_def)
    have "\<not> p < 70" using p(3)[of 70] by (auto simp: demo_ready_def)
    then show ?thesis using p(2) by (auto simp: demo_ready_def split: if_splits)
  qed
  define s' where "s' = s6\<lparr>first_start := True\<rparr>"
  have start: "aixos_start s = Some (True, s')"
    using s1(1) s2(1) L3 s4(1) s6(1)
    by (simp add: aixos_start_def s0 aixos_timer_service_start_def members_def stage_lists_def s'_def del: start_loop.simps)
  have f6: "system_running s6" "k_isr s6 = isr_boot" "k_obj s6 = obj_with ?as" "pools s6 = zero_pools"
    using schedule_fields[OF s6(1)] e4 by (simp_all add: pools_def)
  have "no_invalid_task s'" by (rule obj_with_invalid[of _ ?as]) (simp add: s'_def f6)
  then have r': "reach s'" using reach.step[OF r kstep.start[OF pre start]] by simp
  have h: "\<exists>t. tcbs s6 HIGH = Some t \<and> stage_task 1 70 (t\<lparr>t_state := AIXOS_TASK_READY\<rparr>) \<and> t_state t = AIXOS_TASK_RUNNING"
    using schedule_first[OF s6(1)] e4(1,4) T4(3,4) c6 by (auto simp: stage_task_def)
  have "demo_running s'"
    unfolding demo_running_def using r' f6 c6 L6 h T4 s6(5)[of LOW] s6(5)[of IDLE] s6(5)[of TIMER] e4(1)
    by (simp add: s'_def) (simp add: pools_def)
  then show ?thesis by blast
qed

lemma demo_running_exists: "\<exists>s. demo_running s"
proof -
  obtain s0 s1 where b: "zeroed s0" "kernel_init 0x20000000 s0 = Some s1" "stage [] [last_free 7144] s1" "pre_start s1" using stage_zero by blast
  obtain s2 where c1: "aixos_task_create_static (Some ''low'') 0x08001001 0 0x20020000 512 3 LOW s1 = Some (0x100, s2)"
    "stage [(LOW, 3)] [used_blk 200 196, last_free 6920] s2" using stage_low[OF b(3)] by blast
  obtain s3 where c2: "aixos_task_create_static (Some ''high'') 0x08002001 0 0x20021000 512 70 HIGH s2 = Some (0x101, s3)"
    "stage [(LOW, 3), (HIGH, 70)] [used_blk 200 196, last_free 6920] s3" using stage_high[OF c1(2)] by blast
  have k: "kernel_ok s1" "kernel_ok s2" "k_obj s2 = obj_with [LOW]" "k_obj s3 = obj_with [LOW, HIGH]" using b(3) c1(2) c2(2) by (simp_all add: stage_def)
  have "reach s2"
    by (rule reach.step[OF reach.boot[OF b(1,2)] kstep.alloc[where c = "DoTaskCreateStatic (Some ''low'') 0x08001001 0 0x20020000 512 3 LOW"]])
      (use c1(1) obj_with_invalid[OF k(3)] in simp_all)
  then have "reach s3"
    by (rule reach.step[OF _ kstep.alloc[where c = "DoTaskCreateStatic (Some ''high'') 0x08002001 0 0x20021000 512 70 HIGH"]])
      (use c2(1) obj_with_invalid[OF k(4)] in simp_all)
  moreover have "pre_start s3"
    using task_create_guarded(2)[OF k(2) c2(1)[unfolded aixos_task_create_static_def]]
      task_create_guarded(2)[OF k(1) c1(1)[unfolded aixos_task_create_static_def]] b(4) by blast
  ultimately show ?thesis using demo_start[OF c2(2)] by blast
qed

end
