(* ===== verification/Kprops.thy ===== *)
theory Kprops
  imports Kdemo
begin

text \<open>
  What holds of the running kernel, stated over its operations and its reachable states. The witnesses
  use \<open>demo_running\<close>, the state after an initialisation, two task creations and the start.
\<close>

lemma demo_reach: "demo_running s \<Longrightarrow> reach s" "demo_running s \<Longrightarrow> kernel_ok s"
  "demo_running s \<Longrightarrow> \<not> in_isr s" "demo_running s \<Longrightarrow> system_running s" "demo_running s \<Longrightarrow> cur_task s = HIGH"
  using reach_ok boot_not_isr by (auto simp: demo_running_def)

text \<open>Objects created in that state: the pool is empty, so the creation claims a slot.\<close>

lemma init_pools_free: "list_all (\<lambda>p. pool_free p \<noteq> 0) (tl (map init_pool static_pools)) \<and> length (map init_pool static_pools) = 7"
  by code_simp

lemma init_pool_free: "0 < pid \<Longrightarrow> pid < AIXOS_POOL_COUNT \<Longrightarrow> pool_free (obj_pools (obj_with as) ! nat pid) \<noteq> 0"
  using init_pools_free
  by (auto simp: obj_with_def aixos_object_init_def list_all_length nth_Cons' nth_tl dest: spec[of _ "nat pid - 1"])

lemma demo_claim:
  assumes d: "demo_running s" and pid: "type_to_pool_id ty = pid" "0 < pid" and ob: "ob \<noteq> KNull"
  obtains j os h where "k_slot_alloc pid ob s = Some (j, s\<lparr>k_obj := os\<rparr>)" "\<not> j < 0" "aixos_slot_handle pid j os = h" "h \<noteq> 0"
    "\<And>(s' :: kstate) g ty'. k_obj s' = os \<Longrightarrow> k_lookup g ty' s' = (if g = h \<and> ty' = ty then ob else k_lookup g ty' s)"
proof (cases rule: claim_cases[OF demo_reach(2)[OF d] pid ob, case_names full claimed])
  case (full j os)
  have c: "pid < AIXOS_POOL_COUNT" using pool_id_range[of ty] pid by simp
  have "k_obj s = obj_with [LOW, HIGH, IDLE, TIMER]" using d by (simp add: demo_running_def)
  then have False
    using full(1,2) init_pool_free[OF pid(2) c] pid(2) c
    by (simp add: k_slot_alloc_def aixos_slot_alloc_def Let_def split: prod.splits option.splits if_splits)
  then show ?thesis ..
qed (rule that)

lemma find_index_replicate: "0 < n \<Longrightarrow> P x \<Longrightarrow> find_index P (replicate n x) 0 = Some 0"
  by (cases n) simp_all

definition demo_state :: "kstate \<Rightarrow> bool" where
  "demo_state s \<longleftrightarrow> reach s \<and> \<not> in_isr s \<and> \<not> sched_locked s \<and> can_block s \<and> cur_task s = HIGH \<and> system_running s \<and>
     (\<exists>t. tcbs s HIGH = Some t \<and> t_handle t = 0x101)"

lemma demo_stateI:
  assumes d: "demo_running s" and c: "kcall_run c s = Some s'" "allowed c s"
    and e: "k_isr s' = k_isr s" "tcbs s' = tcbs s" "cur_task s' = cur_task s" "system_running s' = system_running s"
  shows "demo_state s'"
proof -
  have "reach s'" by (rule reach.step[OF demo_reach(1)[OF d] kstep.call[OF c(2,1)]])
  then show ?thesis using d e by (auto simp: demo_state_def demo_running_def stage_task_def can_block_def in_isr_def sched_locked_def
      aixos_in_isr_def aixos_sched_is_locked_def atomic_load_u32_def isr_boot_def)
qed

lemma demo_allowed: "demo_running s \<Longrightarrow> can_block s"
  by (auto simp: demo_running_def stage_task_def can_block_def)

lemma demo_unset: "demo_running s \<Longrightarrow> \<not> core_head h \<Longrightarrow> (\<And>p. h \<noteq> ReadyQ p) \<Longrightarrow> (\<And>a. h \<noteq> HeldMutexes a) \<Longrightarrow> lists (k_ls s) h = None"
  by (cases h) (auto simp: demo_running_def demo_lists_def stage_lists_def)

lemma demo_sem: "\<exists>s h. demo_state s \<and> sem_from_handle h s = Some 0 \<and> sem_pool s ! 0 = \<lparr>sem_count = 3, sem_handle = h\<rparr> \<and>
  members (SemWait 0) s = Some [] \<and> sem_pool s \<noteq> []"
proof -
  obtain s where d: "demo_running s" using demo_running_exists ..
  have p: "sem_pool s = replicate AIXOS_CFG_MAX_SEM zero_sem" using d by (simp add: demo_running_def pools_def zero_pools_def)
  obtain j os h where c: "k_slot_alloc AIXOS_POOL_SEM (KSem 0) s = Some (j, s\<lparr>k_obj := os\<rparr>)" "\<not> j < 0" "aixos_slot_handle AIXOS_POOL_SEM j os = h"
    "\<And>(s' :: kstate) g ty'. k_obj s' = os \<Longrightarrow> k_lookup g ty' s' = (if g = h \<and> ty' = AIXOS_OBJ_SEM then KSem 0 else k_lookup g ty' s)"
    by (rule demo_claim[OF d, of AIXOS_OBJ_SEM AIXOS_POOL_SEM "KSem 0"]) (simp_all add: type_to_pool_id_def)
  define s' where "s' = s\<lparr>k_obj := os, sem_pool := (sem_pool s)[0 := \<lparr>sem_count = 3, sem_handle = h\<rparr>],
    k_ls := (k_ls s)\<lparr>lists := (lists (k_ls s))(SemWait 0 \<mapsto> [])\<rparr>\<rparr>"
  have "aixos_sem_create 3 s = Some (h, s')"
    using demo_reach(3)[OF d] c(1-3) find_index_replicate[of AIXOS_CFG_MAX_SEM "\<lambda>x. sem_handle x = 0" zero_sem] demo_unset[OF d, of "SemWait 0"]
    by (simp add: aixos_sem_create_def p zero_sem_def on_ls_def list_init_head_def set_sem_def s'_def del: replicate.simps)
  then have "demo_state s'"
    by (intro demo_stateI[OF d, of "CSync (DoSemCreate 3)"]) (use demo_allowed[OF d] in \<open>simp_all add: s'_def\<close>)
  moreover have "sem_from_handle h s' = Some 0" using c(4)[of s' h AIXOS_OBJ_SEM] by (simp add: sem_from_handle_def s'_def)
  ultimately show ?thesis by (intro exI[of _ s'] exI[of _ h]) (simp add: s'_def p members_def)
qed

lemma demo_mutex: "\<exists>s h. demo_state s \<and> mutex_from_handle h s = Some 0"
proof -
  obtain s where d: "demo_running s" using demo_running_exists ..
  have p: "mutex_pool s = replicate AIXOS_CFG_MAX_MUTEX zero_mutex" using d by (simp add: demo_running_def pools_def zero_pools_def)
  obtain j os h where c: "k_slot_alloc AIXOS_POOL_MUTEX (KMutex 0) s = Some (j, s\<lparr>k_obj := os\<rparr>)" "\<not> j < 0" "aixos_slot_handle AIXOS_POOL_MUTEX j os = h"
    "\<And>(s' :: kstate) g ty'. k_obj s' = os \<Longrightarrow> k_lookup g ty' s' = (if g = h \<and> ty' = AIXOS_OBJ_MUTEX then KMutex 0 else k_lookup g ty' s)"
    by (rule demo_claim[OF d, of AIXOS_OBJ_MUTEX AIXOS_POOL_MUTEX "KMutex 0"]) (simp_all add: type_to_pool_id_def)
  define s' where "s' = s\<lparr>k_obj := os, mutex_pool := (mutex_pool s)[0 := \<lparr>mx_owner = AIXOS_HANDLE_INVALID, mx_lock_count = 0, mx_handle = h\<rparr>],
    k_ls := \<lparr>lists = (lists (k_ls s))(MutexWait 0 \<mapsto> []), nstat = (nstat (k_ls s))(OwnerN 0 := NSelf)\<rparr>\<rparr>"
  have "\<not> linked (OwnerN 0) (k_ls s)"
    using mutexes_okD(4)[OF objects_okD(8)[OF kernel_okD(2)[OF demo_reach(2)[OF d]]], of 0]
    by (cases "nstat (k_ls s) (OwnerN 0)") (auto simp: linked_def p zero_mutex_def)
  then have "aixos_mutex_create s = Some (h, s')"
    using demo_reach(3)[OF d] c(1-3) find_index_replicate[of AIXOS_CFG_MAX_MUTEX "\<lambda>x. mx_handle x = 0" zero_mutex] demo_unset[OF d, of "MutexWait 0"]
    by (simp add: aixos_mutex_create_def p zero_mutex_def on_ls_def list_init_head_def list_init_node_def linked_def set_mutex_def s'_def
        del: replicate.simps)
  then have "demo_state s'"
    by (intro demo_stateI[OF d, of "CSync DoMutexCreate"]) (use demo_allowed[OF d] in \<open>simp_all add: s'_def\<close>)
  moreover have "mutex_from_handle h s' = Some 0" using c(4)[of s' h AIXOS_OBJ_MUTEX] by (simp add: mutex_from_handle_def s'_def)
  ultimately show ?thesis by blast
qed

section \<open>Tasks and queues\<close>

text \<open>C22. In every reachable state each task is where its state says. Once the system runs, a task is in
  the ready queue of its priority exactly when it is ready or running, and in no other ready queue;
  it is in a wait queue exactly when its \<open>wait_list\<close> names that queue, and then it is blocked or delayed;
  a task on the timeout list is blocked or delayed too; a task that is not stopped is in the list of
  all tasks and its own handle resolves to it; and the bitmap marks exactly the nonempty ready queues.\<close>

theorem reachable_tasks_placed:
  assumes "reach s" "tcbs s a = Some t"
  shows "(system_running s \<longrightarrow> (ready_state (t_state t) \<longleftrightarrow> nstatus (ReadyN a) s = NIn (ReadyQ (nat (t_priority t))))) \<and>
    (\<forall>p. nstatus (ReadyN a) s = NIn (ReadyQ p) \<longrightarrow> t_priority t = int p) \<and>
    (\<forall>h. nstatus (WaitN a) s = NIn h \<longleftrightarrow> t_wait_list t = Some h) \<and>
    (\<forall>h. nstatus (WaitN a) s = NIn h \<or> nstatus (TimeoutN a) s = NIn h \<longrightarrow> waiting_state (t_state t)) \<and>
    (t_state t \<noteq> AIXOS_TASK_STOP \<longrightarrow> nstatus (AllN a) s = NIn AllTasks \<and> aixos_tcb_from_handle (t_handle t) s = a) \<and>
    (\<forall>p < AIXOS_CFG_MAX_PRIORITY. bit (ready_bitmap s ! (p div 64)) (p mod 64) \<longleftrightarrow> members (ReadyQ p) s \<noteq> Some [])"
proof -
  note ok = reach_ok[OF assms(1)] and inv = kernel_okD(1)[OF reach_ok[OF assms(1)]]
  have st: "settled (k_ls s) (system_running s) a t" using kinvxD(5)[OF inv _ assms(2)] by simp
  note n = nodes_okD[OF kinvxD(4)[OF inv assms(2)]] and c = st[unfolded settled_def]
  note q = kinvxD(1)[OF inv]
  have 1: "ready_state (t_state t) \<longleftrightarrow> nstatus (ReadyN a) s = NIn (ReadyQ (nat (t_priority t)))" if run: "system_running s"
  proof
    assume "ready_state (t_state t)"
    then obtain h where h: "nstat (k_ls s) (ReadyN a) = NIn h" using c run by blast
    then obtain p where "h = ReadyQ p" using queues_okD(5)[OF q h] by auto
    then show "nstatus (ReadyN a) s = NIn (ReadyQ (nat (t_priority t)))" using h n(5)[of p] by (simp add: nstatus_def)
  qed (use c in \<open>simp add: nstatus_def\<close>)
  have 2: "nstatus (ReadyN a) s = NIn (ReadyQ p) \<Longrightarrow> t_priority t = int p" for p using n(5) by (simp add: nstatus_def)
  have 3: "nstatus (WaitN a) s = NIn h \<longleftrightarrow> t_wait_list t = Some h" for h using n(6)[of h] c unfolding nstatus_def by blast
  have 4: "nstatus (WaitN a) s = NIn h \<or> nstatus (TimeoutN a) s = NIn h \<Longrightarrow> waiting_state (t_state t)" for h
    using n(7,8)[of h] unfolding nstatus_def by blast
  have 5: "t_state t \<noteq> AIXOS_TASK_STOP \<Longrightarrow> nstatus (AllN a) s = NIn AllTasks \<and> aixos_tcb_from_handle (t_handle t) s = a"
    using c tcb_from_own_handle[OF objects_okD(1)[OF kernel_okD(2)[OF ok]] assms(2)] unfolding nstatus_def by blast
  have 6: "p < AIXOS_CFG_MAX_PRIORITY \<Longrightarrow> bit (ready_bitmap s ! (p div 64)) (p mod 64) \<longleftrightarrow> members (ReadyQ p) s \<noteq> Some []" for p
    using queues_okD(4)[OF q] by (simp add: members_def)
  show ?thesis by (intro conjI allI) (rule impI 3, (erule 1 2 4 5 6)?)+
qed

lemma reachable_tasks_placed_witness:
  "\<exists>s t. demo_running s \<and> tcbs s HIGH = Some t \<and> nstatus (ReadyN HIGH) s = NIn (ReadyQ 70)"
proof -
  obtain s where d: "demo_running s" using demo_running_exists ..
  then obtain t where t: "tcbs s HIGH = Some t" "t_priority t = 70" "t_state t = AIXOS_TASK_RUNNING"
    by (auto simp: demo_running_def stage_task_def)
  have "nstatus (ReadyN HIGH) s = NIn (ReadyQ 70)"
    using conjunct1[OF reachable_tasks_placed[OF demo_reach(1)[OF d] t(1)]] demo_reach(4)[OF d] t(2,3) by simp
  then show ?thesis using d t(1) by blast
qed

section \<open>Calls\<close>



section \<open>Scheduling\<close>

text \<open>C24. A context switch from a reachable state runs the task that has waited longest in the highest
  nonempty ready queue: with the queues as they are, the new current task is the head of its queue, every
  queue of a higher priority is empty, its state is running, and no other task than the previous one
  and the new one changes. There is no current task only when all queues are empty.\<close>

theorem switch_runs_highest:
  assumes "reach s"
  shows "\<exists>s'. aixos_schedule s = Some s' \<and> k_ls s' = k_ls s \<and>
    (if cur_task s' = 0 then \<forall>p < AIXOS_CFG_MAX_PRIORITY. members (ReadyQ p) s = Some []
     else \<exists>p xs t. p < AIXOS_CFG_MAX_PRIORITY \<and> members (ReadyQ p) s = Some (ReadyN (cur_task s') # xs) \<and>
       (\<forall>q < AIXOS_CFG_MAX_PRIORITY. p < q \<longrightarrow> members (ReadyQ q) s = Some []) \<and>
       tcbs s' (cur_task s') = Some t \<and> t_state t = AIXOS_TASK_RUNNING) \<and>
    (\<forall>b. b \<noteq> cur_task s \<longrightarrow> b \<noteq> cur_task s' \<longrightarrow> tcbs s' b = tcbs s b)"
proof -
  obtain s' where s': "aixos_schedule s = Some s'" "scheduled s'" "k_ls s' = k_ls s"
    "\<forall>b. b \<noteq> cur_task s \<longrightarrow> b \<noteq> cur_task s' \<longrightarrow> tcbs s' b = tcbs s b"
    using schedule_keeps[OF reach_ok[OF assms]] by (auto simp: returns_iff)
  then show ?thesis by (auto simp: scheduled_def is_highest_def members_def intro!: exI[of _ s'])
qed

lemma switch_runs_highest_witness:
  "\<exists>s s'. demo_running s \<and> aixos_schedule s = Some s' \<and> cur_task s' = HIGH"
proof -
  obtain s where d: "demo_running s" using demo_running_exists ..
  obtain s' where s': "aixos_schedule s = Some s'"
    "if cur_task s' = 0 then \<forall>p < AIXOS_CFG_MAX_PRIORITY. members (ReadyQ p) s = Some []
     else \<exists>p xs t. p < AIXOS_CFG_MAX_PRIORITY \<and> members (ReadyQ p) s = Some (ReadyN (cur_task s') # xs) \<and>
       (\<forall>q < AIXOS_CFG_MAX_PRIORITY. p < q \<longrightarrow> members (ReadyQ q) s = Some []) \<and>
       tcbs s' (cur_task s') = Some t \<and> t_state t = AIXOS_TASK_RUNNING"
    using switch_runs_highest[OF demo_reach(1)[OF d]] by blast
  have m: "members (ReadyQ p) s = Some (demo_ready p)" if "p < AIXOS_CFG_MAX_PRIORITY" for p
    using d that by (simp add: members_def demo_running_def demo_lists_def)
  have "cur_task s' \<noteq> 0" using s'(2) m[of 70] by (auto simp: demo_ready_def split: if_splits)
  then obtain p xs where p: "p < AIXOS_CFG_MAX_PRIORITY" "demo_ready p = ReadyN (cur_task s') # xs"
    "\<forall>q < AIXOS_CFG_MAX_PRIORITY. p < q \<longrightarrow> demo_ready q = []"
    using s'(2) m by auto
  have "\<not> p < 70" using p(3)[rule_format, of 70] by (auto simp: demo_ready_def)
  then have "cur_task s' = HIGH" using p(2) by (auto simp: demo_ready_def split: if_splits)
  then show ?thesis using d s'(1) by blast
qed

section \<open>Timers\<close>

text \<open>C25. The tick serves every expired timer and terminates: from a reachable state the loop over the
  active timers ends, and then the first active timer has not expired, although a periodic timer is
  put back into the queue by the loop itself.\<close>

theorem timer_tick_terminates:
  assumes "reach s"
  shows "\<exists>s'. timer_tick_loop now s = Some s' \<and>
    (case members ActiveTimers s' of Some (ActiveN i # _) \<Rightarrow> \<not> tick_reached now (tm_deadline (timer_pool s' ! i)) | Some [] \<Rightarrow> True | _ \<Rightarrow> False)"
proof -
  obtain s' where s': "timer_tick_loop now s = Some s'" "kernel_ok s'"
    "\<forall>i xs. lists (k_ls s') ActiveTimers = Some (ActiveN i # xs) \<longrightarrow> \<not> tick_reached now (tm_deadline (timer_pool s' ! i))"
    using timer_tick_loop_returns[OF reach_ok[OF assms], of now] by (auto simp: returns_iff)
  obtain xs where xs: "lists (k_ls s') ActiveTimers = Some xs" using timer_lists(1)[OF kernel_okD(1)[OF s'(2)]] ..
  show ?thesis
  proof (cases xs)
    case (Cons n ys)
    then obtain i where "n = ActiveN i" using active_members[OF kernel_okD(1)[OF s'(2)] xs, of n] by auto
    then show ?thesis using s' xs Cons by (auto simp: members_def intro!: exI[of _ s'])
  qed (use s'(1) xs in \<open>auto simp: members_def\<close>)
qed

lemma timer_tick_terminates_witness: "\<exists>s s'. demo_running s \<and> timer_tick_loop 5 s = Some s'"
  using timer_tick_terminates[OF demo_reach(1)] demo_running_exists by blast

section \<open>Semaphores\<close>

lemma waiter_list:
  assumes "kernel_ok s" "is_wait_head h" "lists (k_ls s) h \<noteq> None"
  obtains (none) "members h s = Some []" "head_empty h s"
  | (some) a t ns where "members h s = Some (WaitN a # ns)" "\<not> head_empty h s" "first_task h s = Some a" "tcbs s a = Some t"
      "waiting_state (t_state t)"
proof (cases "lists (k_ls s) h")
  case (Some xs)
  show thesis
  proof (cases xs)
    case Nil
    then show thesis using Some none by (simp add: members_def head_empty_Some)
  next
    case (Cons n ns)
    then have ne: "\<not> head_empty h s" using Some by (simp add: head_empty_Some)
    obtain a t where a: "first_task h s = Some a" "tcbs s a = Some t" "waiting_state (t_state t)"
      using first_waiter[OF kernel_okD(1)[OF assms(1)] ne assms(3,2)] by blast
    have "node_fits h n" by (rule kinvx_members(2)[OF kernel_okD(1)[OF assms(1)] Some]) (simp add: Cons)
    then have "n = WaitN a" using fits_wait[OF assms(2), of n] a(1) Some Cons by (auto simp: first_task_def list_first_def)
    then show thesis using some a ne Some Cons by (simp add: members_def)
  qed
qed (use assms(3) in simp)

text \<open>C26. A post to a semaphore with waiters wakes exactly its first waiter with result OK (ready, on a ready
  queue, off the wait and timeout queues) and leaves the count alone; without waiters it adds one to
  the count, and at the maximum it reports an overflow and changes nothing.\<close>

theorem sem_post_correct:
  assumes "reach s" "\<not> in_isr s" "sem_from_handle h s = Some i"
  shows "\<exists>r s'. aixos_sem_post h s = Some (r, s') \<and>
    (case members (SemWait i) s of
       Some (WaitN a # _) \<Rightarrow> r = AIXOS_OK \<and> sem_pool s' = sem_pool s \<and> woken a AIXOS_OK s s' \<and>
         (\<forall>b. b \<noteq> a \<longrightarrow> map_option t_state (tcbs s' b) = map_option t_state (tcbs s b))
     | Some [] \<Rightarrow> if sem_count (sem_pool s ! i) = AIXOS_CFG_SEM_MAX_COUNT then r = AIXOS_ERR_OVERFLOW \<and> s' = s
         else r = AIXOS_OK \<and> s' = set_sem i ((sem_pool s ! i)\<lparr>sem_count := sem_count (sem_pool s ! i) + 1\<rparr>) s
     | _ \<Rightarrow> False)"
proof -
  note ok = reach_ok[OF assms(1)]
  have L: "lists (k_ls s) (SemWait i) \<noteq> None"
    using table_ok_lists[OF conjunct2[OF objects_okD(2)[OF kernel_okD(2)[OF ok]]]] assms(3) by (simp add: from_handle_lookup)
  show ?thesis
  proof (cases rule: waiter_list[OF ok _ L, simplified, case_names none some])
    case none
    then show ?thesis using assms by (simp add: aixos_sem_post_def sem_post_common_def Let_def)
  next
    case (some a t ns)
    have w: "is_waiting a s" "a = 0 \<or> tcbs s a \<noteq> None" using some by (auto simp: is_waiting_def)
    obtain s' where s': "aixos_task_wake a AIXOS_OK s = Some s'" "wake_frame a s s'" "woken a AIXOS_OK s s'"
      using wake_kinv[OF kernel_okD(1)[OF ok] kernel_okD(3)[OF ok] w(2), of AIXOS_OK] w(1) by (auto simp: returns_iff)
    have st: "map_option t_state (tcbs s' b) = map_option t_state (tcbs s b)" if "b \<noteq> a" for b
    proof (cases "tcbs s b")
      case None
      then show ?thesis using sched_frameD(7)[OF wake_frameD(1)[OF s'(2)], of b] by simp
    next
      case (Some u)
      then show ?thesis using wake_frameD(4)[OF s'(2) that Some] boost_fields(1) by fastforce
    qed
    show ?thesis
      using assms some s' st frame_rest(4)[OF wake_frameD(1)[OF s'(2)]]
      by (simp add: aixos_sem_post_def sem_post_common_def Let_def)
  qed
qed

lemma sem_post_correct_witness:
  "\<exists>s s' h. demo_state s \<and> aixos_sem_post h s = Some (AIXOS_OK, s') \<and> sem_count (sem_pool s' ! 0) = 4"
proof -
  obtain s h where d: "demo_state s" "sem_from_handle h s = Some 0" "sem_pool s ! 0 = \<lparr>sem_count = 3, sem_handle = h\<rparr>"
    "members (SemWait 0) s = Some []" "sem_pool s \<noteq> []" using demo_sem by blast
  then have "\<exists>s'. aixos_sem_post h s = Some (AIXOS_OK, s') \<and> sem_count (sem_pool s' ! 0) = 4"
    using sem_post_correct[OF _ _ d(2)] by (simp add: demo_state_def set_sem_def)
  then show ?thesis using d(1) by blast
qed



section \<open>Mutexes\<close>

text \<open>C28. Locking: a free mutex is granted to the calling task and enters its list of held mutexes; the owner
  may lock again, up to the limit of the counter; another task never gets a held mutex: with timeout 0
  it is refused and nothing changes, otherwise it blocks in the wait queue of the mutex.\<close>

theorem mutex_lock_excludes:
  assumes "reach s" "\<not> in_isr s" "can_block s" "cur_task s \<noteq> 0" "mutex_from_handle h s = Some i" "tcbs s (cur_task s) = Some t"
  shows "\<exists>r s'. aixos_mutex_lock h timeout_ms s = Some (r, s') \<and>
    (let m = mutex_pool s ! i in
     if mx_owner m = AIXOS_HANDLE_INVALID
     then r = Done AIXOS_OK \<and> mutex_pool s' = (mutex_pool s)[i := m\<lparr>mx_owner := t_handle t, mx_lock_count := 1\<rparr>] \<and>
       nstatus (OwnerN i) s' = NIn (HeldMutexes (cur_task s)) \<and> tcbs s' = tcbs s
     else if mx_owner m = t_handle t
     then if mx_lock_count m = UINT32_MAX then r = Done AIXOS_ERR_OVERFLOW \<and> s' = s
       else r = Done AIXOS_OK \<and> s' = set_mutex i (m\<lparr>mx_lock_count := mx_lock_count m + 1\<rparr>) s
     else if timeout_ms = 0 then r = Done AIXOS_ERR_BUSY \<and> s' = s
     else mutex_pool s' = mutex_pool s \<and>
       (case r of Done e \<Rightarrow> s' = s \<and> e \<in> {AIXOS_ERR_CONTEXT, AIXOS_ERR_LOCKED}
        | Blocked \<Rightarrow> blocked_on (Some (MutexWait i)) (KMutex i) (cur_task s) s'))"
proof -
  note ok = reach_ok[OF assms(1)]
  note e = mutex_entry[OF ok assms(5)]
  let ?m = "mutex_pool s ! i"
  consider (free) "mx_owner ?m = AIXOS_HANDLE_INVALID" | (own) "mx_owner ?m \<noteq> AIXOS_HANDLE_INVALID" "mx_owner ?m = t_handle t"
    | (busy) "mx_owner ?m \<noteq> AIXOS_HANDLE_INVALID" "mx_owner ?m \<noteq> t_handle t" "timeout_ms = 0"
    | (wait) "mx_owner ?m \<noteq> AIXOS_HANDLE_INVALID" "mx_owner ?m \<noteq> t_handle t" "timeout_ms \<noteq> 0" by blast
  then show ?thesis
  proof cases
    case free
    have st: "t_state t \<noteq> AIXOS_TASK_STOP" using current_live[OF ok assms(3,4)] assms(6) by simp
    obtain s' where s': "give_mutex i (cur_task s) (t_handle t) s = Some s'"
      "s' = s\<lparr>mutex_pool := (mutex_pool s)[i := ?m\<lparr>mx_owner := t_handle t, mx_lock_count := 1\<rparr>], k_ls := k_ls s'\<rparr>"
      "nstat (k_ls s') = (nstat (k_ls s))(OwnerN i := NIn (HeldMutexes (cur_task s)))"
      using give_mutex_keeps[OF ok e(1) _ e(5) mutex_free_node[OF ok assms(5) free] assms(6) st] e(3,4) by (auto simp: returns_iff)
    have "mutex_pool s' = (mutex_pool s)[i := ?m\<lparr>mx_owner := t_handle t, mx_lock_count := 1\<rparr>]" "tcbs s' = tcbs s" by (subst s'(2), simp)+
    then show ?thesis using assms free s'(1,3) by (simp add: aixos_mutex_lock_def give_mutex_def nstatus_def Let_def)
  next
    case wait
    obtain r s' where b: "aixos_task_block_current (Some (MutexWait i)) (KMutex i) AIXOS_OBJ_MUTEX timeout_ms s = Some (r, s')"
      "sched_frame s s'" "case r of Done e \<Rightarrow> s' = s \<and> e \<in> {AIXOS_ERR_CONTEXT, AIXOS_ERR_LOCKED}
       | Blocked \<Rightarrow> cur_task s \<noteq> 0 \<and> blocked_on (Some (MutexWait i)) (KMutex i) (cur_task s) s'"
      using block_kinv[OF kernel_okD(1)[OF ok] kernel_okD(3)[OF ok], of "Some (MutexWait i)" AIXOS_OBJ_MUTEX "KMutex i" timeout_ms] assms(3) e
      by (auto simp: returns_iff mutex_of_def)
    then show ?thesis
      using assms(2,4,5,6) wait frame_rest(5)[OF b(2)]
      by (intro exI[of _ r] exI[of _ s']) (auto simp: aixos_mutex_lock_def Let_def split: outcome.splits)
  qed (use assms in \<open>auto simp: aixos_mutex_lock_def Let_def\<close>)
qed

lemma mutex_lock_excludes_witness:
  "\<exists>s r s' h. demo_state s \<and> mutex_from_handle h s = Some 0 \<and> aixos_mutex_lock h 0 s = Some (r, s')"
proof -
  obtain s h where d: "demo_state s" "mutex_from_handle h s = Some 0" using demo_mutex by blast
  obtain t where t: "tcbs s (cur_task s) = Some t" "cur_task s \<noteq> 0" using d(1) by (auto simp: demo_state_def)
  obtain r s' where "aixos_mutex_lock h 0 s = Some (r, s')"
    using mutex_lock_excludes[OF _ _ _ t(2) d(2) t(1), of 0] d(1) unfolding demo_state_def by blast
  then show ?thesis using d by blast
qed

text \<open>C29. The last unlock by the owner passes the mutex on: to the first waiter, which then owns it once, is
  ready with result OK and has it in its list of held mutexes; or to nobody when no task waits.
  Unlocking by another task is refused, and an inner unlock only counts down.\<close>

theorem mutex_unlock_hands_over:
  assumes "reach s" "\<not> in_isr s" "cur_task s \<noteq> 0" "mutex_from_handle h s = Some i" "tcbs s (cur_task s) = Some t"
  shows "\<exists>r s'. aixos_mutex_unlock h s = Some (r, s') \<and>
    (let m = mutex_pool s ! i; m' = mutex_pool s' ! i in
     if mx_owner m \<noteq> t_handle t then r = AIXOS_ERR_INVAL \<and> s' = s
     else r = AIXOS_OK \<and>
      (if mx_lock_count m \<noteq> 1 then s' = set_mutex i (m\<lparr>mx_lock_count := mx_lock_count m - 1\<rparr>) s
       else case members (MutexWait i) s of
         Some (WaitN a # _) \<Rightarrow> (\<exists>n n'. tcbs s a = Some n \<and> tcbs s' a = Some n' \<and> t_state n' = AIXOS_TASK_READY \<and>
           t_wait_result n' = AIXOS_OK \<and> t_wait_list n' = None \<and> mx_owner m' = t_handle n) \<and> mx_lock_count m' = 1 \<and>
           nstatus (OwnerN i) s' = NIn (HeldMutexes a) \<and> nstatus (WaitN a) s' = NSelf
       | Some [] \<Rightarrow> mx_owner m' = AIXOS_HANDLE_INVALID \<and> nstatus (OwnerN i) s' = NSelf
       | _ \<Rightarrow> False))"
proof -
  note ok = reach_ok[OF assms(1)]
  note e = mutex_entry[OF ok assms(4)]
  let ?m = "mutex_pool s ! i"
  let ?s1 = "set_mutex i (?m\<lparr>mx_lock_count := mx_lock_count ?m - 1\<rparr>) s"
  consider "mx_owner ?m \<noteq> t_handle t" | "mx_owner ?m = t_handle t" "mx_lock_count ?m \<noteq> 1"
    | (last) "mx_owner ?m = t_handle t" "mx_lock_count ?m = 1" by blast
  then show ?thesis
  proof cases
    case last
    have k1: "kernel_ok ?s1" by (rule set_mutex_ok[OF ok]) simp_all
    have h1: "mx_handle (mutex_pool ?s1 ! i) \<noteq> 0" using e(2-4) by simp
    obtain s2 where s2: "mutex_hand_over i ?s1 = Some s2" "kernel_ok s2" "handed_over i ?s1 s2" "\<forall>b. tcbs s2 b = None \<longleftrightarrow> tcbs ?s1 b = None"
      using hand_over_keeps[OF k1 e(1) h1] e(5,6) by (auto simp: returns_iff)
    obtain s3 where s3: "recompute (cur_task s) s2 = Some s3" "kernel_ok s3" "rc_frame s2 s3"
      using recompute_keeps[OF s2(2), of "cur_task s"] s2(4) assms(5) by (auto simp: returns_iff)
    have mp: "mutex_pool s3 = mutex_pool s2" by (rule frame_rest(5)[OF rc_frameD(1)[OF s3(3)]])
    have N: "nstatus (OwnerN i) s3 = nstatus (OwnerN i) s2" "\<And>a. nstatus (WaitN a) s3 = nstatus (WaitN a) s2"
      unfolding nstatus_def by (rule rc_frameD(2)[OF s3(3)], simp)+
    have u: "aixos_mutex_unlock h s = Some (AIXOS_OK, s3)" using assms last s2(1) s3(1) e(2) by (simp add: aixos_mutex_unlock_def Let_def)
    show ?thesis
    proof (cases rule: waiter_list[OF ok _ e(5), simplified, case_names none some])
      case none
      then show ?thesis using u last s2(3) mp N(1) by (simp add: handed_over_def head_empty_Some nstatus_def)
    next
      case (some a n ns)
      have "\<not> head_empty (MutexWait i) ?s1" "first_task (MutexWait i) ?s1 = Some a" using some by (simp_all add: head_empty_Some first_task_def)
      then have ho: "mx_owner (mutex_pool s2 ! i) = t_handle n" "mx_lock_count (mutex_pool s2 ! i) = 1" "nstatus (OwnerN i) s2 = NIn (HeldMutexes a)"
        "woken a AIXOS_OK ?s1 s2"
        using s2(3) some by (auto simp: handed_over_def nstatus_def)
      obtain n2 where n2: "tcbs s2 a = Some n2" "t_state n2 = AIXOS_TASK_READY" "t_wait_result n2 = AIXOS_OK" "t_wait_list n2 = None"
        "nstatus (WaitN a) s2 = NSelf" using ho(4) by (auto simp: woken_def nstatus_def)
      obtain n3 where "tcbs s3 a = Some n3" "boost n2 n3" using rc_frameD(4)[OF s3(3) n2(1)] by blast
      then show ?thesis using u last some ho(1-3) n2 mp N boost_fields[of n2 n3] by simp
    qed
  qed (use assms e in \<open>auto simp: aixos_mutex_unlock_def Let_def split: option.splits\<close>)
qed

lemma mutex_unlock_hands_over_witness:
  "\<exists>s r s' h. demo_state s \<and> mutex_from_handle h s = Some 0 \<and> aixos_mutex_unlock h s = Some (r, s')"
proof -
  obtain s h where d: "demo_state s" "mutex_from_handle h s = Some 0" using demo_mutex by blast
  obtain t where t: "tcbs s (cur_task s) = Some t" "cur_task s \<noteq> 0" using d(1) by (auto simp: demo_state_def)
  obtain r s' where "aixos_mutex_unlock h s = Some (r, s')"
    using mutex_unlock_hands_over[OF _ _ t(2) d(2) t(1)] d(1) unfolding demo_state_def by blast
  then show ?thesis using d by blast
qed

lemma Max_insert_if: "finite F \<Longrightarrow> Max (insert a (insert b F)) = Max (insert (if b > a then b else (a :: int)) F)"
  by (cases "F = {}") (auto simp: max_def)

text \<open>C30. The priority that inheritance gives a task is the maximum of its base priority and of the
  priorities of the tasks at the head of the wait queues of the mutexes it holds.\<close>

theorem effective_priority_is_max:
  assumes "reach s" "tcbs s a = Some t"
  shows "task_effective_priority a s = Some (Max (insert (t_base_priority t)
    {t_priority w | w b i. nstatus (OwnerN i) s = NIn (HeldMutexes a) \<and> first_task (MutexWait i) s = Some b \<and> tcbs s b = Some w}))"
proof -
  note ok = reach_ok[OF assms(1)] and inv = kernel_okD(1)[OF reach_ok[OF assms(1)]]
  define W where "W = (\<lambda>n. {t_priority w | w b i. n = OwnerN i \<and> first_task (MutexWait i) s = Some b \<and> tcbs s b = Some w})"
  obtain ns where ns: "lists (k_ls s) (HeldMutexes a) = Some ns" using nodes_okD(2)[OF kinvxD(4)[OF inv assms(2)]] by blast
  have loop: "set xs \<subseteq> set ns \<Longrightarrow> effective_loop xs p s = Some (Max (insert p (\<Union>n \<in> set xs. W n)))" for xs p
  proof (induction xs arbitrary: p)
    case (Cons n xs)
    have n: "nstat (k_ls s) n = NIn (HeldMutexes a)" using kinvx_members(1)[OF inv ns] Cons.prems by simp
    obtain i where i: "n = OwnerN i" using kinvx_fits[OF inv n] by (cases n) auto
    have L: "lists (k_ls s) (MutexWait i) \<noteq> None" using mutexes_okD(5)[OF objects_okD(8)[OF kernel_okD(2)[OF ok]]] n i by blast
    have fin: "finite (\<Union>n \<in> set xs. W n)"
    proof -
      have "finite (W n)" for n
        by (rule finite_subset[of _ "(case n of OwnerN i \<Rightarrow> t_priority ` set_option (Option.bind (first_task (MutexWait i) s) (tcbs s)) | _ \<Rightarrow> {})"])
          (auto simp: W_def split: option.splits lnode.splits)
      then show ?thesis by simp
    qed
    show ?case
    proof (cases rule: waiter_list[OF ok _ L, simplified, case_names none some])
      case none
      then have "W n = {}" using i by (auto simp: W_def first_task_def list_first_def members_def)
      then show ?thesis using none i Cons by simp
    next
      case (some b u us)
      then have "W n = {t_priority u}" using i by (auto simp: W_def)
      then show ?thesis using some i Cons fin Max_insert_if[OF fin, of p "t_priority u"] by simp
    qed
  qed simp
  have "(\<Union>n \<in> set ns. W n) = {t_priority w | w b i. nstatus (OwnerN i) s = NIn (HeldMutexes a) \<and> first_task (MutexWait i) s = Some b \<and> tcbs s b = Some w}"
    using lwf_in_iff[OF kinvx_lwf[OF inv] ns] by (auto simp: W_def nstatus_def)
  then show ?thesis using loop[of ns] assms(2) ns by (simp add: task_effective_priority_def members_def)
qed

lemma effective_priority_is_max_witness: "\<exists>s p. demo_running s \<and> task_effective_priority HIGH s = Some p"
proof -
  obtain s where d: "demo_running s" using demo_running_exists ..
  then obtain t where t: "tcbs s HIGH = Some t" by (auto simp: demo_running_def)
  show ?thesis using effective_priority_is_max[OF demo_reach(1)[OF d] t] d by blast
qed

end
