(* ===== verification/Kring.thy ===== *)
theory Kring
  imports Kprops
begin

text \<open>
  Rings in memory and what they implement. A locale says what it means that the calls on an object
  refine an abstract queue; pipes interpret it with bytes, message queues (in \<open>Kqueue\<close>) with messages.
\<close>

section \<open>Refinement\<close>

text \<open>\<open>step\<close> runs one call, \<open>spec\<close> is the same call on the abstract value.\<close>

locale refines =
  fixes inv :: "'s \<Rightarrow> bool" and abs_of :: "'s \<Rightarrow> 'q"
    and step :: "'op \<Rightarrow> 's \<Rightarrow> ('r \<times> 's) option" and spec :: "'op \<Rightarrow> 'q \<Rightarrow> 'r \<times> 'q" and arg_ok :: "'op \<Rightarrow> bool"
  assumes step_refines: "inv s \<Longrightarrow> arg_ok c \<Longrightarrow>
    \<exists>s'. step c s = Some (fst (spec c (abs_of s)), s') \<and> inv s' \<and> abs_of s' = snd (spec c (abs_of s))"

fun run_calls :: "('op \<Rightarrow> 's \<Rightarrow> ('r \<times> 's) option) \<Rightarrow> 'op list \<Rightarrow> 's \<Rightarrow> ('r list \<times> 's) option" where
  "run_calls step [] s = Some ([], s)"
| "run_calls step (c # cs) s = do { (r, s) \<leftarrow> step c s; (rs, s) \<leftarrow> run_calls step cs s; Some (r # rs, s) }"

fun run_spec :: "('op \<Rightarrow> 'q \<Rightarrow> 'r \<times> 'q) \<Rightarrow> 'op list \<Rightarrow> 'q \<Rightarrow> 'r list \<times> 'q" where
  "run_spec spec [] q = ([], q)"
| "run_spec spec (c # cs) q = (let (r, q) = spec c q; (rs, q) = run_spec spec cs q in (r # rs, q))"

context refines
begin

lemma run_refines:
  "inv s \<Longrightarrow> list_all arg_ok cs \<Longrightarrow>
   \<exists>s'. run_calls step cs s = Some (fst (run_spec spec cs (abs_of s)), s') \<and> inv s' \<and> abs_of s' = snd (run_spec spec cs (abs_of s))"
proof (induction cs arbitrary: s)
  case (Cons c cs)
  obtain s1 where s1: "step c s = Some (fst (spec c (abs_of s)), s1)" "inv s1" "abs_of s1 = snd (spec c (abs_of s))"
    using step_refines[OF Cons.prems(1)] Cons.prems(2) by auto
  show ?case using Cons.IH[OF s1(2)] Cons.prems(2) s1 by (auto simp: case_prod_beta)
qed simp

end

section \<open>Rings\<close>

text \<open>Consecutive positions of a ring of size \<open>n\<close> are different, and a write that wraps around the end
  stores the \<open>m\<close>-th element at position \<open>(t + m) mod n\<close>.\<close>

lemma ring_inj:
  assumes "(t + a) mod n = (t + b) mod n" "a < n" "b < n"
  shows "a = (b :: nat)"
proof -
  have "a = b" if "a \<le> b" "(t + b) mod n = (t + a) mod n" "b < n" for a b
  proof -
    have "n dvd (t + b) - (t + a)" using that(1,2) mod_eq_dvd_iff_nat[of "t + a" "t + b" n] by simp
    then have "n dvd b - a" by simp
    then show ?thesis using that(1,3) using nat_dvd_not_less[of "b - a" n] by (cases "a = b") auto
  qed
  then show ?thesis using assms nat_le_linear by metis
qed

lemma ring_split: "(t :: nat) < n \<Longrightarrow> m < n \<Longrightarrow> (t + m) mod n = (if t + m < n then t + m else t + m - n)"
  using le_mod_geq[of n "t + m"] by (cases "t + m < n") simp_all

lemma ring_store:
  fixes d :: "'a list"
  assumes n: "t < n" "l \<le> n" and f: "f = min l (n - t)"
    and M': "\<And>j. j < n \<Longrightarrow> M' j = (if j < l - f then d ! (f + j) else if t \<le> j \<and> j < t + f then d ! (j - t) else M j)"
  shows "m < l \<Longrightarrow> M' ((t + m) mod n) = d ! m"
    "l \<le> m \<Longrightarrow> m < n \<Longrightarrow> M' ((t + m) mod n) = M ((t + m) mod n)"
proof -
  have lt: "(t + m) mod n < n" using n by simp
  show "m < l \<Longrightarrow> M' ((t + m) mod n) = d ! m"
    using M'[OF lt] ring_split[of t n m] n f by (auto simp: min_def not_less)
  show "l \<le> m \<Longrightarrow> m < n \<Longrightarrow> M' ((t + m) mod n) = M ((t + m) mod n)"
    using M'[OF lt] ring_split[of t n m] n f by (auto simp: min_def not_less)
qed

text \<open>The bytes in memory.\<close>

lemma hmem_write:
  "hmem (write_bytes a l st) x = (if unat a \<le> unat x \<and> unat x < unat a + length l then l ! (unat x - unat a) else hmem st x)"
  by (simp add: write_bytes_def)

lemma unat_offset: "unat (b :: u32) + j < 2 ^ 32 \<Longrightarrow> unat (b + of_nat j) = unat b + j"
  by (simp add: unat_word_ariths unat_of_nat take_bit_nat_eq_self)

lemma unat_add_lt: "unat (x :: u32) + unat y < 2 ^ 32 \<Longrightarrow> unat (x + y) = unat x + unat y"
  by (simp add: unat_word_ariths)

section \<open>Pipes\<close>

text \<open>A well-formed pipe: its positions are in range, the tail is where the head and the count say, and
  the buffer fits the address space.\<close>

definition pipe_ring :: "aixos_pipe_t \<Rightarrow> bool" where
  "pipe_ring p \<longleftrightarrow> 0 < unat (pp_size p) \<and> unat (pp_size p) \<le> 2 ^ 31 \<and> unat (pp_buffer p) + unat (pp_size p) \<le> 2 ^ 32 \<and>
     unat (pp_head p) < unat (pp_size p) \<and> unat (pp_count p) \<le> unat (pp_size p) \<and>
     unat (pp_tail p) = (unat (pp_head p) + unat (pp_count p)) mod unat (pp_size p)"

text \<open>What the pipe holds, oldest byte first.\<close>

definition pipe_bytes :: "aixos_pipe_t \<Rightarrow> heap_state \<Rightarrow> u8 list" where
  "pipe_bytes p st = map (\<lambda>k. hmem st (pp_buffer p + of_nat ((unat (pp_head p) + k) mod unat (pp_size p)))) [0..<unat (pp_count p)]"

lemma pipe_bytes_length [simp]: "length (pipe_bytes p st) = unat (pp_count p)"
  by (simp add: pipe_bytes_def)

lemma mod_word_lt: "unat (x :: u32) + unat y < 2 ^ 32 \<Longrightarrow> unat ((x + y) mod n) = (unat x + unat y) mod unat n"
  by (simp add: unat_mod_distrib unat_add_lt)

text \<open>The bytes after the two writes of \<open>pipe_store\<close>.\<close>

lemma pipe_store_bytes:
  assumes p: "pipe_ring p" and l: "unat len \<le> length d" "unat len \<le> unat (pp_size p) - unat (pp_count p)"
    and f: "unat fs = min (unat len) (unat (pp_size p) - unat (pp_tail p))"
    and st: "st' = write_bytes (pp_buffer p) (take (unat (len - fs)) (drop (unat fs) d)) (write_bytes (pp_buffer p + pp_tail p) (take (unat fs) d) st)"
    and p': "p' = p\<lparr>pp_tail := (pp_tail p + len) mod pp_size p, pp_count := pp_count p + len\<rparr>"
  shows "pipe_ring p'" "pipe_bytes p' st' = pipe_bytes p st @ take (unat len) d"
proof -
  note P = p[unfolded pipe_ring_def]
  define n h c t l where d: "n = unat (pp_size p)" "h = unat (pp_head p)" "c = unat (pp_count p)" "t = unat (pp_tail p)" "l = unat len"
  have N: "0 < n" "h < n" "c \<le> n" "t = (h + c) mod n" "t < n" "n \<le> 2 ^ 31" "unat (pp_buffer p) + n \<le> 2 ^ 32" using P by (simp_all add: d)
  have L: "l \<le> n - c" "l \<le> length d" using l by (simp_all add: d)
  have cl: "unat (pp_count p) + unat len < 2 ^ 32" using N(1,3,6) L(1) unfolding d by simp
  have c': "unat (pp_count p + len) = c + l" using unat_add_lt[OF cl] unfolding d .
  have tl: "unat (pp_tail p) + unat len < 2 ^ 32" using N(5,6) L(1) unfolding d by simp
  have t': "unat ((pp_tail p + len) mod pp_size p) = (t + l) mod n" using mod_word_lt[OF tl] unfolding d .
  have "(t + l) mod n = (h + (c + l)) mod n" by (simp add: N(4) mod_add_left_eq add.assoc)
  moreover have "c + l \<le> n" using L(1) N(3) by simp
  ultimately show "pipe_ring p'" using P c' t' by (simp add: pipe_ring_def p' d)
  define M where "M = (\<lambda>j. hmem st (pp_buffer p + of_nat j))"
  define M' where "M' = (\<lambda>j. hmem st' (pp_buffer p + of_nat j))"
  have fs: "unat fs = min l (n - t)" using f by (simp add: d)
  have lf: "unat (len - fs) = l - unat fs" using fs by (simp add: unat_sub_if' d word_le_nat_alt)
  have bt: "unat (pp_buffer p + pp_tail p) = unat (pp_buffer p) + t" using unat_add_lt[of "pp_buffer p" "pp_tail p"] N(5,7) unfolding d by simp
  have W: "M' j = (if j < l - unat fs then d ! (unat fs + j) else if t \<le> j \<and> j < t + unat fs then d ! (j - t) else M j)" if "j < n" for j
  proof -
    have u: "unat (pp_buffer p + of_nat j) = unat (pp_buffer p) + j" by (rule unat_offset) (use that N(7) in simp)
    show ?thesis using L fs unfolding M'_def M_def st hmem_write u bt lf by (auto simp: min_def)
  qed
  have R: "M' ((h + k) mod n) = (if k < c then M ((h + k) mod n) else d ! (k - c))" if k: "k < c + l" for k
  proof (cases "k < c")
    case True
    have "(h + k) mod n = (t + (n - c + k)) mod n"
    proof -
      have "(t + (n - c + k)) mod n = (h + c + (n - c + k)) mod n" by (simp add: N(4) mod_add_left_eq)
      also have "h + c + (n - c + k) = (h + k) + n" using N(3) by simp
      finally show ?thesis by simp
    qed
    then show ?thesis using ring_store(2)[where M' = M' and M = M and d = d and m = "n - c + k", OF N(5) _ fs W] L(1) N(3) True by simp
  next
    case False
    then obtain m where m: "k = c + m" using le_Suc_ex[of c k] by auto
    have "(h + k) mod n = (t + (k - c)) mod n" by (simp add: m N(4) mod_add_left_eq add.assoc)
    then show ?thesis using ring_store(1)[where M' = M' and M = M and d = d and m = "k - c", OF N(5) _ fs W] L(1) False k by simp
  qed
  show "pipe_bytes p' st' = pipe_bytes p st @ take (unat len) d"
  proof (rule nth_equalityI)
    show "length (pipe_bytes p' st') = length (pipe_bytes p st @ take (unat len) d)" using c' L(2) by (simp add: p' d)
    fix k assume "k < length (pipe_bytes p' st')"
    then have k: "k < c + l" using c' by (simp add: p')
    show "pipe_bytes p' st' ! k = (pipe_bytes p st @ take (unat len) d) ! k"
      using R[OF k] k c' L(2) by (simp add: pipe_bytes_def p' nth_append d[symmetric] M_def M'_def)
  qed
qed

lemma pipe_fetch_bytes:
  assumes p: "pipe_ring p" and l: "unat len \<le> unat (pp_count p)" and f: "unat fs = min (unat len) (unat (pp_size p) - unat (pp_head p))"
    and p': "p' = p\<lparr>pp_head := (pp_head p + len) mod pp_size p, pp_count := pp_count p - len\<rparr>"
  shows "pipe_ring p'" "pipe_bytes p' st = drop (unat len) (pipe_bytes p st)"
    "read_bytes (pp_buffer p + pp_head p) (unat fs) st @ read_bytes (pp_buffer p) (unat (len - fs)) st = take (unat len) (pipe_bytes p st)"
proof -
  note P = p[unfolded pipe_ring_def]
  define n h c l where d: "n = unat (pp_size p)" "h = unat (pp_head p)" "c = unat (pp_count p)" "l = unat len"
  have N: "0 < n" "h < n" "c \<le> n" "n \<le> 2 ^ 31" "unat (pp_buffer p) + n \<le> 2 ^ 32" "l \<le> c" using P l by (simp_all add: d)
  have c': "unat (pp_count p - len) = c - l" using l by (simp add: unat_sub_if' d word_le_nat_alt)
  have hl: "unat (pp_head p) + unat len < 2 ^ 32" using N unfolding d by simp
  have h': "unat ((pp_head p + len) mod pp_size p) = (h + l) mod n" using mod_word_lt[OF hl] unfolding d .
  have "((h + l) mod n + (c - l)) mod n = (h + c) mod n"
  proof -
    obtain m where "c = l + m" using N(6) le_Suc_ex by blast
    then show ?thesis by (simp add: mod_add_left_eq add.assoc)
  qed
  moreover have "c - l \<le> n" using N(3) by simp
  ultimately show "pipe_ring p'" using P N(1) c' h' by (simp add: pipe_ring_def p' d)
  show "pipe_bytes p' st = drop (unat len) (pipe_bytes p st)"
  proof (rule nth_equalityI)
    fix k assume k: "k < length (pipe_bytes p' st)"
    then have "l + k < c" using c' by (simp add: p')
    then show "pipe_bytes p' st ! k = drop (unat len) (pipe_bytes p st) ! k"
      using k c' h' N(6) by (simp add: pipe_bytes_def p' d[symmetric] mod_add_left_eq add.assoc)
  qed (simp add: p' c' d)
  have fs: "unat fs = min l (n - h)" using f by (simp add: d)
  have lf: "unat (len - fs) = l - unat fs" using fs by (simp add: unat_sub_if' d word_le_nat_alt)
  show "read_bytes (pp_buffer p + pp_head p) (unat fs) st @ read_bytes (pp_buffer p) (unat (len - fs)) st = take (unat len) (pipe_bytes p st)"
  proof (rule nth_equalityI)
    show "length (read_bytes (pp_buffer p + pp_head p) (unat fs) st @ read_bytes (pp_buffer p) (unat (len - fs)) st) =
      length (take (unat len) (pipe_bytes p st))" using fs lf N(6) by (simp add: read_bytes_def d)
    fix k assume "k < length (read_bytes (pp_buffer p + pp_head p) (unat fs) st @ read_bytes (pp_buffer p) (unat (len - fs)) st)"
    then have k: "k < l" using fs lf by (simp add: read_bytes_def)
    define M where "M = (\<lambda>j. hmem st (pp_buffer p + of_nat j))"
    have hd: "pp_head p = of_nat h" by (simp add: d)
    have A: "read_bytes (pp_buffer p + pp_head p) (unat fs) st ! k = M (h + k)" if "k < unat fs"
      using that by (simp add: read_bytes_def M_def hd add.assoc)
    have B: "read_bytes (pp_buffer p) (unat (len - fs)) st ! j = M j" if "j < l - unat fs" for j
      using that by (simp add: read_bytes_def M_def lf)
    have C: "take (unat len) (pipe_bytes p st) ! k = M ((h + k) mod n)"
      using k N(6) by (simp add: pipe_bytes_def M_def d)
    show "(read_bytes (pp_buffer p + pp_head p) (unat fs) st @ read_bytes (pp_buffer p) (unat (len - fs)) st) ! k =
      take (unat len) (pipe_bytes p st) ! k"
    proof (cases "k < unat fs")
      case True
      then show ?thesis using A C fs ring_split[OF N(2), of k] k N(3,6) by (simp add: nth_append read_bytes_def)
    next
      case False
      then have "h + k - n = k - unat fs" "\<not> h + k < n" using fs k N(2) by (auto simp: min_def split: if_splits)
      then show ?thesis using B[of "k - unat fs"] C False k ring_split[OF N(2), of k] N(3,6) by (simp add: nth_append read_bytes_def)
    qed
  qed
qed

text \<open>Waking a waiter writes neither memory nor the pool.\<close>

lemma wake_waiter:
  assumes ok: "kernel_ok s" and h: "is_wait_head h" "lists (k_ls s) h \<noteq> None" "\<not> head_empty h s"
  obtains a s' where "first_task h s = Some a" "aixos_task_wake a r s = Some s'" "kernel_ok s'" "sched_frame s s'"
proof -
  obtain a t where a: "first_task h s = Some a" "tcbs s a = Some t" using first_waiter[OF kernel_okD(1)[OF ok] h(3,2,1)] by blast
  obtain s' where s': "aixos_task_wake a r s = Some s'" "kinvx {} s'" "wake_frame a s s'"
    using wake_kinv[OF kernel_okD(1)[OF ok] kernel_okD(3)[OF ok], of a r] a(2) by (auto simp: returns_iff)
  show thesis by (rule that[OF a(1) s'(1) kernel_okI_frame[OF ok _ s'(2)]]) (fact wake_frameD(1)[OF s'(3)])+
qed

definition pipe_inv :: "aixos_handle_t \<Rightarrow> nat \<Rightarrow> u32 \<Rightarrow> kstate \<Rightarrow> bool" where
  "pipe_inv g i sz s \<longleftrightarrow> kernel_ok s \<and> \<not> in_isr s \<and> pipe_from_handle g s = Some i \<and> pipe_ring (pipe_pool s ! i) \<and> pp_size (pipe_pool s ! i) = sz"

definition pipe_abs :: "nat \<Rightarrow> kstate \<Rightarrow> u8 list" where
  "pipe_abs i s = pipe_bytes (pipe_pool s ! i) (k_heap s)"

lemma pipe_inv_frame:
  assumes f: "sched_frame s s'" and ok: "kernel_ok s'" and inv: "pipe_inv g i sz s"
  shows "pipe_inv g i sz s' \<and> pipe_abs i s' = pipe_abs i s"
  using inv ok frame_rest[OF f] sched_frameD(2)[OF f] by (simp add: pipe_inv_def pipe_abs_def from_handle_lookup k_lookup_def)

lemma pipe_updated:
  assumes inv: "pipe_inv g i sz s" and p': "pipe_ring p'" "pp_size p' = sz" "pp_handle p' = pp_handle (pipe_pool s ! i)"
  shows "pipe_inv g i sz (set_pipe i p' (s\<lparr>k_heap := hp\<rparr>))" "pipe_abs i (set_pipe i p' (s\<lparr>k_heap := hp\<rparr>)) = pipe_bytes p' hp"
    "lists (k_ls s) (PipeRead i) \<noteq> None" "lists (k_ls s) (PipeWrite i) \<noteq> None"
proof -
  note I = inv[unfolded pipe_inv_def]
  have len: "i < length (pipe_pool s)"
    using I table_okD(1)[OF conjunct2[OF objects_okD(6)[OF kernel_okD(2)]]] objects_okD(6)[OF kernel_okD(2)] by (fastforce simp: from_handle_lookup)
  have "kernel_ok (set_pipe i p' (s\<lparr>k_heap := hp\<rparr>))"
    by (rule ipc.put_pipe) (use I p'(3) in \<open>simp_all\<close>)
  then show "pipe_inv g i sz (set_pipe i p' (s\<lparr>k_heap := hp\<rparr>))"
    using I len p' by (simp add: pipe_inv_def set_pipe_def from_handle_lookup k_lookup_def in_isr_def)
  show "pipe_abs i (set_pipe i p' (s\<lparr>k_heap := hp\<rparr>)) = pipe_bytes p' hp" using len by (simp add: pipe_abs_def set_pipe_def)
  show "lists (k_ls s) (PipeRead i) \<noteq> None" "lists (k_ls s) (PipeWrite i) \<noteq> None"
    using table_ok_lists[OF conjunct2[OF objects_okD(6)[OF kernel_okD(2)]]] I by (auto simp: from_handle_lookup)
qed

lemma pipe_wake:
  assumes inv: "pipe_inv g i sz s" and h: "h = PipeRead i \<or> h = PipeWrite i"
  shows "\<exists>s'. (if b \<and> \<not> head_empty h s then pipe_wake_first h s else Some s) = Some s' \<and>
    pipe_inv g i sz s' \<and> pipe_abs i s' = pipe_abs i s"
proof (cases "b \<and> \<not> head_empty h s")
  case True
  note I = inv[unfolded pipe_inv_def]
  have L: "is_wait_head h" "lists (k_ls s) h \<noteq> None"
    using h table_ok_lists[OF conjunct2[OF objects_okD(6)[OF kernel_okD(2)]]] I by (auto simp: from_handle_lookup)
  obtain a s' where "first_task h s = Some a" "aixos_task_wake a AIXOS_OK s = Some s'" "kernel_ok s'" "sched_frame s s'"
    using wake_waiter[OF conjunct1[OF I] L, of AIXOS_OK] True by blast
  then show ?thesis using True pipe_inv_frame[OF _ _ inv, of s'] by (simp add: pipe_wake_first_def)
qed (use inv in auto)

lemma pipe_store_fifo:
  assumes inv: "pipe_inv g i sz s" and d: "length d < 2 ^ 32" and l: "l = min (length d) (unat sz - length (pipe_abs i s))"
  shows "\<exists>s'. pipe_store i d s = Some (int l, s') \<and> pipe_inv g i sz s' \<and> pipe_abs i s' = pipe_abs i s @ take l d"
proof -
  note I = inv[unfolded pipe_inv_def]
  let ?p = "pipe_pool s ! i"
  have p: "pipe_ring ?p" "pp_size ?p = sz" using I by simp_all
  note P = p(1)[unfolded pipe_ring_def]
  define len where "len = (if of_nat (length d) > sz - pp_count ?p then sz - pp_count ?p else of_nat (length d))"
  define fs where "fs = (if sz - pp_tail ?p > len then len else sz - pp_tail ?p)"
  have cn: "pp_count ?p \<le> sz" using P p(2) by (simp add: word_le_nat_alt)
  have "unat (pp_tail ?p) < unat (pp_size ?p)" using P by simp
  then have tn: "pp_tail ?p \<le> sz" using p(2) by (simp add: word_le_nat_alt)
  have un: "unat (of_nat (length d) :: u32) = length d" by (rule u32_of_nat[OF d])
  have u: "unat len = l" using cn by (simp add: len_def l pipe_abs_def word_less_nat_alt un unat_sub_if' word_le_nat_alt min_def)
  have f: "unat fs = min (unat len) (unat (pp_size ?p) - unat (pp_tail ?p))"
    using tn p(2) by (auto simp: fs_def word_less_nat_alt unat_sub_if' word_le_nat_alt)
  define hp where "hp = write_bytes (pp_buffer ?p) (take (unat (len - fs)) (drop (unat fs) d))
    (write_bytes (pp_buffer ?p + pp_tail ?p) (take (unat fs) d) (k_heap s))"
  define p' where "p' = ?p\<lparr>pp_tail := (pp_tail ?p + len) mod pp_size ?p, pp_count := pp_count ?p + len\<rparr>"
  have b: "pipe_ring p'" "pipe_bytes p' hp = pipe_abs i s @ take l d"
    using pipe_store_bytes[OF p(1) _ _ f hp_def p'_def] u l p(2) by (simp_all add: pipe_abs_def)
  define s1 where "s1 = set_pipe i p' (s\<lparr>k_heap := hp\<rparr>)"
  have s1: "pipe_inv g i sz s1" "pipe_abs i s1 = pipe_abs i s @ take l d"
    using pipe_updated(1,2)[OF inv b(1), of hp] p(2) b(2) by (simp_all add: p'_def s1_def)
  have e: "pipe_store i d s = do {
      s \<leftarrow> (if len \<noteq> 0 \<and> \<not> head_empty (PipeRead i) s1 then pipe_wake_first (PipeRead i) s1 else Some s1);
      Some (uint len, s) }"
    unfolding pipe_store_def s1_def p'_def hp_def fs_def len_def Let_def p(2) k_write_def by simp
  have "uint len = int l" using u by (simp add: uint_nat)
  then show ?thesis using e pipe_wake[OF s1(1), of "PipeRead i" "len \<noteq> 0"] s1(2) by auto
qed

lemma pipe_fetch_fifo:
  assumes inv: "pipe_inv g i sz s"
  shows "\<exists>s'. pipe_fetch i n s = Some ((int (min (unat n) (length (pipe_abs i s))), take (unat n) (pipe_abs i s)), s') \<and>
    pipe_inv g i sz s' \<and> pipe_abs i s' = drop (unat n) (pipe_abs i s)"
proof -
  note I = inv[unfolded pipe_inv_def]
  let ?p = "pipe_pool s ! i"
  have p: "pipe_ring ?p" "pp_size ?p = sz" using I by simp_all
  note P = p(1)[unfolded pipe_ring_def]
  define len where "len = (if n > pp_count ?p then pp_count ?p else n)"
  define fs where "fs = (if sz - pp_head ?p > len then len else sz - pp_head ?p)"
  have u: "unat len = min (unat n) (length (pipe_abs i s))" by (simp add: len_def pipe_abs_def word_less_nat_alt)
  then have l: "unat len \<le> unat (pp_count ?p)" by (simp add: pipe_abs_def)
  have "pp_head ?p \<le> sz" using P p(2) by (simp add: word_le_nat_alt)
  then have f: "unat fs = min (unat len) (unat (pp_size ?p) - unat (pp_head ?p))"
    using p(2) by (auto simp: fs_def word_less_nat_alt unat_sub_if' word_le_nat_alt)
  define p' where "p' = ?p\<lparr>pp_head := (pp_head ?p + len) mod pp_size ?p, pp_count := pp_count ?p - len\<rparr>"
  have td: "take (unat len) xs = take (unat n) xs" "drop (unat len) xs = drop (unat n) xs" if "length xs = length (pipe_abs i s)" for xs :: "u8 list"
    using that u by (simp_all add: min_def)
  note b = pipe_fetch_bytes[OF p(1) l f p'_def]
  define s1 where "s1 = set_pipe i p' s"
  have "set_pipe i p' s = set_pipe i p' (s\<lparr>k_heap := k_heap s\<rparr>)" by simp
  then have s1: "pipe_inv g i sz s1" "pipe_abs i s1 = drop (unat n) (pipe_abs i s)"
    using pipe_updated(1,2)[OF inv b(1), of "k_heap s"] p(2) b(2)[of "k_heap s"] td(2) by (simp_all add: p'_def s1_def pipe_abs_def)
  have e: "pipe_fetch i n s = do {
      s \<leftarrow> (if len \<noteq> 0 \<and> \<not> head_empty (PipeWrite i) s1 then pipe_wake_first (PipeWrite i) s1 else Some s1);
      Some ((uint len, k_read (pp_buffer ?p + pp_head ?p) (unat fs) s' @ k_read (pp_buffer ?p) (unat (len - fs)) s'), s) }" if "s' = s" for s'
    unfolding pipe_fetch_def s1_def p'_def fs_def len_def Let_def p(2) that by simp
  have "uint len = int (min (unat n) (length (pipe_abs i s)))" using u by (simp add: uint_nat)
  moreover have "k_read (pp_buffer ?p + pp_head ?p) (unat fs) s @ k_read (pp_buffer ?p) (unat (len - fs)) s = take (unat n) (pipe_abs i s)"
    using b(3)[of "k_heap s"] td(1)[of "pipe_abs i s"] by (simp add: k_read_def pipe_abs_def)
  ultimately show ?thesis using e[OF refl] pipe_wake[OF s1(1), of "PipeWrite i" "len \<noteq> 0"] s1(2) by auto
qed

section \<open>Pipes are byte queues\<close>

datatype pipe_io = PipePut "u8 list" | PipeGet u32

text \<open>A call that does not wait. It returns the result and the bytes read.\<close>

fun pipe_step :: "aixos_handle_t \<Rightarrow> pipe_io \<Rightarrow> kstate \<Rightarrow> ((int \<times> u8 list) \<times> kstate) option" where
  "pipe_step g (PipePut d) s = (case aixos_pipe_write g (Some d) 0 s of Some (Done r, s') \<Rightarrow> Some ((r, []), s') | _ \<Rightarrow> None)"
| "pipe_step g (PipeGet n) s = (case aixos_pipe_read g False n 0 s of Some (Done r, s') \<Rightarrow> Some (r, s') | _ \<Rightarrow> None)"

text \<open>The same on a bounded queue of bytes: a write stores what fits, a read takes the oldest.\<close>

fun byte_queue :: "nat \<Rightarrow> pipe_io \<Rightarrow> u8 list \<Rightarrow> (int \<times> u8 list) \<times> u8 list" where
  "byte_queue cap (PipePut d) q = (let l = min (length d) (cap - length q) in ((int l, []), q @ take l d))"
| "byte_queue cap (PipeGet n) q = ((int (min (unat n) (length q)), take (unat n) q), drop (unat n) q)"

fun pipe_arg_ok :: "pipe_io \<Rightarrow> bool" where
  "pipe_arg_ok (PipePut d) = (length d \<le> AIXOS_CFG_MAX_IPC_COPY_BYTES)"
| "pipe_arg_ok (PipeGet n) = (unat n \<le> AIXOS_CFG_MAX_IPC_COPY_BYTES)"

lemma pipe_step_refines:
  assumes inv: "pipe_inv g i sz s" and a: "pipe_arg_ok c"
  shows "\<exists>s'. pipe_step g c s = Some (fst (byte_queue (unat sz) c (pipe_abs i s)), s') \<and> pipe_inv g i sz s' \<and>
    pipe_abs i s' = snd (byte_queue (unat sz) c (pipe_abs i s))"
proof (cases c)
  case (PipePut d)
  note I = inv[unfolded pipe_inv_def]
  have d: "length d \<le> AIXOS_CFG_MAX_IPC_COPY_BYTES" using a PipePut by simp
  show ?thesis
  proof (cases "sz - pp_count (pipe_pool s ! i) = 0")
    case True
    then have "unat sz = length (pipe_abs i s)" by (simp add: pipe_abs_def)
    then show ?thesis
      using PipePut d I True inv
      by (simp add: aixos_pipe_write_def pipe_write_common_def pipe_args_error_def pipe_write_turn_def Let_def)
  next
    case False
    then show ?thesis
      using PipePut d I pipe_store_fifo[OF inv, of d] unfolding pipe_step.simps
      by (auto simp: aixos_pipe_write_def pipe_write_common_def pipe_args_error_def pipe_write_turn_def Let_def)
  qed
next
  case (PipeGet n)
  note I = inv[unfolded pipe_inv_def]
  have n: "unat n \<le> AIXOS_CFG_MAX_IPC_COPY_BYTES" using a PipeGet by simp
  show ?thesis
  proof (cases "pp_count (pipe_pool s ! i) = 0")
    case True
    then have "pipe_abs i s = []" by (simp add: pipe_abs_def pipe_bytes_def)
    then show ?thesis
      using PipeGet n I True inv
      by (simp add: aixos_pipe_read_def pipe_read_common_def pipe_args_error_def pipe_read_turn_def Let_def)
  next
    case False
    then show ?thesis
      using PipeGet n I pipe_fetch_fifo[OF inv, of n]
      by (auto simp: aixos_pipe_read_def pipe_read_common_def pipe_args_error_def pipe_read_turn_def Let_def)
  qed
qed

interpretation pipe: refines "pipe_inv g i sz" "pipe_abs i" "pipe_step g" "byte_queue (unat sz)" pipe_arg_ok
  for g i sz
  by unfold_locales (rule pipe_step_refines)

lemma on_ls_init_head:
  "on_ls (list_init_head h) s = Some s' \<Longrightarrow> s' = s\<lparr>k_ls := k_ls s'\<rparr>"
  by (auto simp: on_ls_def split: option.splits)

lemma pipe_created:
  assumes ok: "kernel_ok s" and c: "aixos_pipe_create_static b sz s = Some (h, s1)" "h \<noteq> AIXOS_HANDLE_INVALID"
    and b: "unat sz \<le> 2 ^ 31" "unat b + unat sz \<le> 2 ^ 32"
  shows "\<exists>i. pipe_inv h i sz s1 \<and> pipe_abs i s1 = []"
proof -
  have g: "\<not> (in_isr s \<or> b = 0 \<or> sz = 0)" using c by (auto simp: aixos_pipe_create_static_def pipe_create_common_def)
  obtain i where i: "find_index (\<lambda>x. pp_handle x = 0) (pipe_pool s) 0 = Some i"
    using c g by (auto simp: aixos_pipe_create_static_def pipe_create_common_def split: option.splits)
  have len: "i < length (pipe_pool s)" using find_free[OF i] by simp
  have k1: "kernel_ok s1" using pipe_create_common_keeps[OF ok, of b sz False] c by (simp add: aixos_pipe_create_static_def)
  have pre: "type_to_pool_id AIXOS_OBJ_PIPE = AIXOS_POOL_PIPE" "0 < AIXOS_POOL_PIPE" "KPipe i \<noteq> KNull" by simp_all
  show ?thesis
  proof (cases rule: claim_cases[OF ok pre, case_names full claimed])
    case (full j os)
    then show ?thesis using c g i by (simp add: aixos_pipe_create_static_def pipe_create_common_def)
  next
    case (claimed j os h')
    define p where "p = zero_pipe\<lparr>pp_buffer := b, pp_size := sz, pp_handle := h', pp_owns_buffer := False\<rparr>"
    define s2 where "s2 = set_pipe i p (s\<lparr>k_obj := os\<rparr>)"
    obtain s3 where s3: "on_ls (list_init_head (PipeRead i)) s2 = Some s3" "on_ls (list_init_head (PipeWrite i)) s3 = Some s1" "h = h'"
      using c g i claimed(1,2,4)
      by (auto simp: aixos_pipe_create_static_def pipe_create_common_def p_def[symmetric] s2_def[symmetric] split: Option.bind_splits)
    have e: "s1 = s2\<lparr>k_ls := k_ls s1\<rparr>" by (subst on_ls_init_head[OF s3(2)], subst on_ls_init_head[OF s3(1)]) simp
    have f: "k_obj s1 = os" "pipe_pool s1 = (pipe_pool s)[i := p]" "k_isr s1 = k_isr s" by (subst e, simp add: s2_def set_pipe_def)+
    have "pipe_from_handle h s1 = Some i" using claimed(6)[OF f(1), of h AIXOS_OBJ_PIPE] s3(3) by (simp add: from_handle_lookup)
    moreover have "pipe_ring p" using g b by (simp add: pipe_ring_def p_def zero_pipe_def unat_gt_0)
    ultimately have "pipe_inv h i sz s1" using k1 g f len by (simp add: pipe_inv_def in_isr_def p_def)
    moreover have "pipe_abs i s1 = []" using f len by (simp add: pipe_abs_def pipe_bytes_def p_def zero_pipe_def)
    ultimately show ?thesis by blast
  qed
qed

text \<open>No object but a task can have the invalid handle: its index would be 255.\<close>

lemma handle_valid:
  assumes inv: "obj_inv (k_obj s)" and ty: "0 < type_to_pool_id ty" and lk: "k_lookup h ty s \<noteq> KNull"
  shows "h \<noteq> AIXOS_HANDLE_INVALID"
proof
  assume h: "h = AIXOS_HANDLE_INVALID"
  have p: "0 < nat (type_to_pool_id ty)" "nat (type_to_pool_id ty) < 7" "type_to_pool_id ty = int (nat (type_to_pool_id ty))"
    using ty pool_id_range[of ty] by auto
  have "live_slot (type_to_pool_id ty) 255 (k_obj s) \<noteq> None"
    using k_lookup_live[OF inv, of ty h] lk ty h by (auto simp: AIXOS_HANDLE_IDX_def split: option.splits)
  then have "255 < pool_sizes ! nat (type_to_pool_id ty)" 
  proof -
    have "pool_wf (pool_types ! nat (type_to_pool_id ty)) (pool_sizes ! nat (type_to_pool_id ty)) (obj_pools (k_obj s) ! nat (type_to_pool_id ty))"
      using inv p(1,2) by (simp add: obj_inv_def)
    note live_static_slot[OF this, of 255]
    then show ?thesis using \<open>live_slot (type_to_pool_id ty) 255 (k_obj s) \<noteq> None\<close> p by simp
  qed
  moreover have "nat (type_to_pool_id ty) \<in> {1, 2, 3, 4, 5, 6}" using p by auto
  ultimately show False by (auto simp: pool_sizes_def)
qed

lemma demo_claim_valid:
  assumes d: "demo_running s" and pid: "type_to_pool_id ty = pid" "0 < pid" and ob: "ob \<noteq> KNull"
  obtains j os h where "k_slot_alloc pid ob s = Some (j, s\<lparr>k_obj := os\<rparr>)" "\<not> j < 0" "aixos_slot_handle pid j os = h"
    "h \<noteq> AIXOS_HANDLE_INVALID"
proof (rule demo_claim[OF d pid ob])
  fix j os h assume a: "k_slot_alloc pid ob s = Some (j, s\<lparr>k_obj := os\<rparr>)" "\<not> j < 0" "aixos_slot_handle pid j os = h"
    "\<And>(s' :: kstate) g ty'. k_obj s' = os \<Longrightarrow> k_lookup g ty' s' = (if g = h \<and> ty' = ty then ob else k_lookup g ty' s)"
  have "obj_inv (k_obj s)" using tasks_okD(1)[OF objects_okD(1)[OF kernel_okD(2)[OF demo_reach(2)[OF d]]]] .
  then have "obj_inv os" using k_slot_alloc_effect(2)[of s ty ob] a(1) pid ob by simp
  then have "h \<noteq> AIXOS_HANDLE_INVALID" using handle_valid[of "s\<lparr>k_obj := os\<rparr>" ty h] a(4)[of "s\<lparr>k_obj := os\<rparr>" h ty] pid ob by simp
  then show thesis by (rule that[OF a(1-3)])
qed

text \<open>C31. A pipe is a bounded first-in first-out queue of bytes: for every pipe created over a buffer that fits
  the address space, and for every sequence of writes and reads without waiting, each call returns what the
  same call returns on an initially empty queue of the capacity of the buffer - the number of bytes that
  fit, and the oldest bytes in order - although the pipe is a ring whose writes and reads wrap around.\<close>

theorem pipe_is_byte_queue:
  assumes "reach s" "aixos_pipe_create_static b sz s = Some (h, s1)" "h \<noteq> AIXOS_HANDLE_INVALID"
    "unat sz \<le> 2 ^ 31" "unat b + unat sz \<le> 2 ^ 32" "list_all pipe_arg_ok cs"
  shows "\<exists>s'. run_calls (pipe_step h) cs s1 = Some (fst (run_spec (byte_queue (unat sz)) cs []), s')"
proof -
  obtain i where i: "pipe_inv h i sz s1" "pipe_abs i s1 = []" using pipe_created[OF reach_ok[OF assms(1)] assms(2-5)] by blast
  show ?thesis using pipe.run_refines[OF i(1) assms(6)] i(2) by auto
qed

text \<open>Eight bytes in a ring of five: the first write stores five, the second three, and the last read wraps.\<close>

lemma pipe_is_byte_queue_witness:
  "\<exists>s s1 h s'. demo_running s \<and> aixos_pipe_create_static 0x20010000 5 s = Some (h, s1) \<and>
    run_calls (pipe_step h) [PipePut [1, 2, 3, 4, 5, 6], PipeGet 3, PipePut [7, 8, 9, 10], PipeGet 9] s1 =
      Some ([(5, []), (3, [1, 2, 3]), (3, []), (5, [4, 5, 7, 8, 9])], s')"
proof -
  obtain s where d: "demo_running s" using demo_running_exists ..
  have p: "pipe_pool s = replicate AIXOS_CFG_MAX_PIPE zero_pipe" using d by (simp add: demo_running_def pools_def zero_pools_def)
  obtain j os h where c: "k_slot_alloc AIXOS_POOL_PIPE (KPipe 0) s = Some (j, s\<lparr>k_obj := os\<rparr>)" "\<not> j < 0" "aixos_slot_handle AIXOS_POOL_PIPE j os = h"
    "h \<noteq> AIXOS_HANDLE_INVALID"
    by (rule demo_claim_valid[OF d, of AIXOS_OBJ_PIPE AIXOS_POOL_PIPE "KPipe 0"]) (simp_all add: type_to_pool_id_def)
  have "\<exists>s1. aixos_pipe_create_static 0x20010000 5 s = Some (h, s1)"
    using demo_reach(3)[OF d] c(1-3) find_index_replicate[of AIXOS_CFG_MAX_PIPE "\<lambda>x. pp_handle x = 0" zero_pipe] demo_unset[OF d, of "PipeRead 0"] demo_unset[OF d, of "PipeWrite 0"]
    by (simp add: aixos_pipe_create_static_def pipe_create_common_def p zero_pipe_def on_ls_def list_init_head_def set_pipe_def del: replicate.simps)
  then obtain s1 where s1: "aixos_pipe_create_static 0x20010000 5 s = Some (h, s1)" ..
  have o: "run_spec (byte_queue (unat (5 :: u32))) [PipePut [1, 2, 3, 4, 5, 6], PipeGet 3, PipePut [7, 8, 9, 10], PipeGet 9] [] =
    ([(5, []), (3, [1, 2, 3]), (3, []), (5, [4, 5, 7, 8, 9])], [])" by (simp add: Let_def)
  show ?thesis
    using pipe_is_byte_queue[OF demo_reach(1)[OF d] s1 c(4), of "[PipePut [1, 2, 3, 4, 5, 6], PipeGet 3, PipePut [7, 8, 9, 10], PipeGet 9]"] o d s1
    by fastforce
qed

end
