(* ===== verification/Kqueue.thy ===== *)
theory Kqueue
  imports Kring
begin

text \<open>
  Message queues implement bounded queues ordered by priority: a message goes behind those of the same
  or a higher priority, and the oldest of the highest priority is received first. The ring of cells,
  lengths and priorities in memory is shifted when a message overtakes others.
\<close>

section \<open>Memory\<close>

lemma read_write_apart:
  assumes "unat a + n \<le> 2 ^ 32" "unat b + length l \<le> unat a \<or> unat a + n \<le> unat b"
  shows "read_bytes a n (write_bytes b l st) = read_bytes a n st"
proof -
  have "hmem (write_bytes b l st) (a + of_nat i) = hmem st (a + of_nat i)" if "i < n" for i
    using assms that unat_offset[of a i] by (auto simp: hmem_write)
  then show ?thesis by (simp add: read_bytes_def)
qed

lemma read_write_same:
  assumes "unat a + length l \<le> 2 ^ 32" "n \<le> length l"
  shows "read_bytes a n (write_bytes a l st) = take n l"
proof (rule nth_equalityI)
  fix i assume "i < length (read_bytes a n (write_bytes a l st))"
  then show "read_bytes a n (write_bytes a l st) ! i = take n l ! i"
    using assms unat_offset[of a i] by (simp add: read_bytes_def hmem_write)
qed (use assms in \<open>simp add: read_bytes_def\<close>)

lemma read_write_prefix:
  assumes "unat a + n \<le> 2 ^ 32" "length l \<le> n"
  shows "read_bytes a n (write_bytes a l st) = l @ drop (length l) (read_bytes a n st)"
proof (rule nth_equalityI)
  fix i assume "i < length (read_bytes a n (write_bytes a l st))"
  then show "read_bytes a n (write_bytes a l st) ! i = (l @ drop (length l) (read_bytes a n st)) ! i"
    using assms unat_offset[of a i] by (auto simp: read_bytes_def hmem_write nth_append)
qed (use assms in \<open>simp add: read_bytes_def\<close>)

lemma read_u32_bytes: "read_u32 a st = (let l = read_bytes a 4 st in
    ucast (l ! 0) OR push_bit 8 (ucast (l ! 1)) OR push_bit 16 (ucast (l ! 2)) OR push_bit 24 (ucast (l ! 3)))"
  by (simp add: read_u32_def read_bytes_def Let_def)

lemma read_u32_apart:
  "unat a + 4 \<le> 2 ^ 32 \<Longrightarrow> unat b + length l \<le> unat a \<or> unat a + 4 \<le> unat b \<Longrightarrow> read_u32 a (write_bytes b l st) = read_u32 a st"
  unfolding read_u32_bytes by (simp only: read_write_apart)

lemma read_u32_same: "unat a + 4 \<le> 2 ^ 32 \<Longrightarrow> read_u32 a (write_bytes a (u32_bytes w) st) = w"
  unfolding read_u32_bytes
  using read_write_same[of a "u32_bytes w" 4 st] by (simp add: u32_bytes_def u32_bytes_join)

section \<open>The ring of a queue\<close>

abbreviation (input) mq_n :: "aixos_mq_t \<Rightarrow> nat" where "mq_n q \<equiv> unat (mq_max_msgs q)"
abbreviation (input) mq_sz :: "aixos_mq_t \<Rightarrow> nat" where "mq_sz q \<equiv> unat (mq_msg_size q)"

definition apart :: "nat \<Rightarrow> nat \<Rightarrow> nat \<Rightarrow> nat \<Rightarrow> bool" where
  "apart a m b n \<longleftrightarrow> a + m \<le> b \<or> b + n \<le> a"

text \<open>A well-formed queue: the three arrays fit the address space and do not overlap.\<close>

definition mq_ring :: "aixos_mq_t \<Rightarrow> bool" where
  "mq_ring q \<longleftrightarrow> 0 < mq_n q \<and> mq_n q \<le> 2 ^ 30 \<and> 0 < mq_sz q \<and>
     unat (mq_buffer q) + mq_n q * mq_sz q \<le> 2 ^ 32 \<and> unat (mq_lengths q) + 4 * mq_n q \<le> 2 ^ 32 \<and>
     apart (unat (mq_buffer q)) (mq_n q * mq_sz q) (unat (mq_lengths q)) (4 * mq_n q) \<and>
     (mq_priorities q \<noteq> 0 \<longrightarrow> unat (mq_priorities q) + 4 * mq_n q \<le> 2 ^ 32 \<and>
        apart (unat (mq_buffer q)) (mq_n q * mq_sz q) (unat (mq_priorities q)) (4 * mq_n q) \<and>
        apart (unat (mq_lengths q)) (4 * mq_n q) (unat (mq_priorities q)) (4 * mq_n q)) \<and>
     unat (mq_head q) < mq_n q \<and> unat (mq_count q) \<le> mq_n q"

text \<open>Where the parts of a cell are.\<close>

lemma mq_addr:
  assumes q: "mq_ring q" and j: "j < mq_n q"
  shows "unat (mq_cell q (of_nat j)) = unat (mq_buffer q) + j * mq_sz q"
    "unat (mq_lengths q + 4 * of_nat j) = unat (mq_lengths q) + 4 * j"
    "mq_priorities q \<noteq> 0 \<Longrightarrow> unat (mq_priorities q + 4 * of_nat j) = unat (mq_priorities q) + 4 * j"
    "j * mq_sz q + mq_sz q \<le> mq_n q * mq_sz q"
proof -
  note Q = q[unfolded mq_ring_def]
  have "(j + 1) * mq_sz q \<le> mq_n q * mq_sz q" using j by (intro mult_le_mono1) simp
  then show b: "j * mq_sz q + mq_sz q \<le> mq_n q * mq_sz q" by (simp add: distrib_right)
  have "mq_cell q (of_nat j) = mq_buffer q + of_nat (j * mq_sz q)" by (simp add: mq_cell_def)
  then show "unat (mq_cell q (of_nat j)) = unat (mq_buffer q) + j * mq_sz q"
    using unat_offset[of "mq_buffer q" "j * mq_sz q"] Q b by simp
  have f: "4 * of_nat j = (of_nat (4 * j) :: u32)" by simp
  show "unat (mq_lengths q + 4 * of_nat j) = unat (mq_lengths q) + 4 * j"
    unfolding f by (rule unat_offset) (use Q j in simp)
  show "mq_priorities q \<noteq> 0 \<Longrightarrow> unat (mq_priorities q + 4 * of_nat j) = unat (mq_priorities q) + 4 * j"
    unfolding f by (rule unat_offset) (use Q j in simp)
qed

text \<open>A cell: its bytes, the length and the priority of its message.\<close>

definition mq_slot :: "aixos_mq_t \<Rightarrow> kstate \<Rightarrow> nat \<Rightarrow> u8 list \<times> u32 \<times> u32" where
  "mq_slot q s j = (k_read (mq_cell q (of_nat j)) (mq_sz q) s, mq_length q (of_nat j) s,
     if mq_priorities q \<noteq> 0 then mq_priority q (of_nat j) s else 0)"

lemma mq_apart:
  assumes q: "mq_ring q" and j: "j < mq_n q" "k < mq_n q" "j \<noteq> k"
  shows "j * mq_sz q + mq_sz q \<le> k * mq_sz q \<or> k * mq_sz q + mq_sz q \<le> j * mq_sz q"
proof -
  have "a * mq_sz q + mq_sz q \<le> b * mq_sz q" if "a < b" for a b
  proof -
    have "(a + 1) * mq_sz q \<le> b * mq_sz q" using that by (intro mult_le_mono1) simp
    then show ?thesis by (simp add: distrib_right)
  qed
  then show ?thesis using j(3) by (cases "j < k") auto
qed

text \<open>The parts of the cells are inside the address space and do not overlap.\<close>

lemma mq_bounds:
  assumes q: "mq_ring q" and j: "j < mq_n q"
  shows "unat (mq_cell q (of_nat j)) + mq_sz q \<le> 2 ^ 32" "unat (mq_lengths q + 4 * of_nat j) + 4 \<le> 2 ^ 32"
    "mq_priorities q \<noteq> 0 \<Longrightarrow> unat (mq_priorities q + 4 * of_nat j) + 4 \<le> 2 ^ 32"
proof -
  note a = mq_addr[OF q j]
  have "unat (mq_buffer q) + mq_n q * mq_sz q \<le> 2 ^ 32" using q by (simp add: mq_ring_def)
  then show "unat (mq_cell q (of_nat j)) + mq_sz q \<le> 2 ^ 32" using a(1,4) by linarith
  have "unat (mq_lengths q) + 4 * mq_n q \<le> 2 ^ 32" using q by (simp add: mq_ring_def)
  then show "unat (mq_lengths q + 4 * of_nat j) + 4 \<le> 2 ^ 32" using a(2) j by linarith
  assume p: "mq_priorities q \<noteq> 0"
  then have "unat (mq_priorities q) + 4 * mq_n q \<le> 2 ^ 32" using q by (simp add: mq_ring_def)
  then show "unat (mq_priorities q + 4 * of_nat j) + 4 \<le> 2 ^ 32" using a(3)[OF p] j by linarith
qed

lemma apart_part: "apart a m b n \<Longrightarrow> a \<le> a' \<Longrightarrow> a' + m' \<le> a + m \<Longrightarrow> b \<le> b' \<Longrightarrow> b' + n' \<le> b + n \<Longrightarrow> apart a' m' b' n'"
  by (auto simp: apart_def)

lemma apart_sym: "apart a m b n \<Longrightarrow> apart b n a m"
  by (auto simp: apart_def)

lemma mq_parts_apart:
  assumes q: "mq_ring q" and j: "j < mq_n q" "k < mq_n q"
  shows "apart (unat (mq_cell q (of_nat j))) (mq_sz q) (unat (mq_lengths q + 4 * of_nat k)) 4"
    "mq_priorities q \<noteq> 0 \<Longrightarrow> apart (unat (mq_cell q (of_nat j))) (mq_sz q) (unat (mq_priorities q + 4 * of_nat k)) 4"
    "mq_priorities q \<noteq> 0 \<Longrightarrow> apart (unat (mq_lengths q + 4 * of_nat j)) 4 (unat (mq_priorities q + 4 * of_nat k)) 4"
    "j \<noteq> k \<Longrightarrow> apart (unat (mq_cell q (of_nat j))) (mq_sz q) (unat (mq_cell q (of_nat k))) (mq_sz q)"
    "j \<noteq> k \<Longrightarrow> apart (unat (mq_lengths q + 4 * of_nat j)) 4 (unat (mq_lengths q + 4 * of_nat k)) 4"
    "j \<noteq> k \<Longrightarrow> mq_priorities q \<noteq> 0 \<Longrightarrow> apart (unat (mq_priorities q + 4 * of_nat j)) 4 (unat (mq_priorities q + 4 * of_nat k)) 4"
proof -
  note aj = mq_addr[OF q j(1)] and ak = mq_addr[OF q j(2)]
  have 1: "apart (unat (mq_buffer q)) (mq_n q * mq_sz q) (unat (mq_lengths q)) (4 * mq_n q)" using q by (simp add: mq_ring_def)
  show "apart (unat (mq_cell q (of_nat j))) (mq_sz q) (unat (mq_lengths q + 4 * of_nat k)) 4"
    by (rule apart_part[OF 1]) (use aj(1,4) ak(2) j in simp_all)
  show "apart (unat (mq_cell q (of_nat j))) (mq_sz q) (unat (mq_priorities q + 4 * of_nat k)) 4" if p: "mq_priorities q \<noteq> 0"
  proof -
    have 2: "apart (unat (mq_buffer q)) (mq_n q * mq_sz q) (unat (mq_priorities q)) (4 * mq_n q)" using q p by (simp add: mq_ring_def)
    show ?thesis by (rule apart_part[OF 2]) (use aj(1,4) ak(3)[OF p] j in simp_all)
  qed
  show "apart (unat (mq_lengths q + 4 * of_nat j)) 4 (unat (mq_priorities q + 4 * of_nat k)) 4" if p: "mq_priorities q \<noteq> 0"
  proof -
    have 2: "apart (unat (mq_lengths q)) (4 * mq_n q) (unat (mq_priorities q)) (4 * mq_n q)" using q p by (simp add: mq_ring_def)
    show ?thesis by (rule apart_part[OF 2]) (use aj(2) ak(3)[OF p] j in simp_all)
  qed
  show "j \<noteq> k \<Longrightarrow> apart (unat (mq_cell q (of_nat j))) (mq_sz q) (unat (mq_cell q (of_nat k))) (mq_sz q)"
    using mq_apart[OF q j] aj(1) ak(1) by (auto simp: apart_def)
  show "j \<noteq> k \<Longrightarrow> apart (unat (mq_lengths q + 4 * of_nat j)) 4 (unat (mq_lengths q + 4 * of_nat k)) 4"
    using aj(2) ak(2) by (auto simp: apart_def)
  show "j \<noteq> k \<Longrightarrow> mq_priorities q \<noteq> 0 \<Longrightarrow> apart (unat (mq_priorities q + 4 * of_nat j)) 4 (unat (mq_priorities q + 4 * of_nat k)) 4"
    using aj(3) ak(3) by (auto simp: apart_def)
qed

text \<open>Reading one part after writing another.\<close>

lemma read_apart: "unat a + n \<le> 2 ^ 32 \<Longrightarrow> apart (unat a) n (unat b) m \<Longrightarrow> length l \<le> m \<Longrightarrow>
    k_read a n (k_write b l s) = k_read a n s"
  unfolding k_read_def k_write_def by (simp, rule read_write_apart) (auto simp: apart_def)

lemma read_u32_write: "unat a + 4 \<le> 2 ^ 32 \<Longrightarrow> apart (unat a) 4 (unat b) m \<Longrightarrow> length l \<le> m \<Longrightarrow>
    k_read_u32 a (k_write b l s) = k_read_u32 a s"
  unfolding k_read_u32_def k_write_def by (simp, rule read_u32_apart) (auto simp: apart_def)

lemma write_u32_bytes: "k_write_u32 a w s = k_write a (u32_bytes w) s" "length (u32_bytes w) \<le> 4"
  by (simp_all add: k_write_u32_def)

lemma slot_write_cell:
  assumes q: "mq_ring q" and j: "j < mq_n q" "k < mq_n q" and l: "length l \<le> mq_sz q"
  shows "mq_slot q (k_write (mq_cell q (of_nat k)) l s) j =
    (if j = k then (l @ drop (length l) (fst (mq_slot q s j)), snd (mq_slot q s j)) else mq_slot q s j)"
proof -
  note b = mq_bounds[OF q j(1)] and a = mq_parts_apart[OF q j] and a' = mq_parts_apart[OF q j(2,1)]
  have "k_read (mq_cell q (of_nat k)) (mq_sz q) (k_write (mq_cell q (of_nat k)) l s) = l @ drop (length l) (k_read (mq_cell q (of_nat k)) (mq_sz q) s)"
    unfolding k_read_def k_write_def using read_write_prefix[OF mq_bounds(1)[OF q j(2)] l] by simp
  then show ?thesis
    using read_u32_write[OF b(2) apart_sym[OF a'(1)] l] read_u32_write[OF b(3) apart_sym[OF a'(2)] l] read_apart[OF b(1) a(4) l]
    by (auto simp: mq_slot_def mq_length_def mq_priority_def)
qed

lemma slot_write_length:
  assumes q: "mq_ring q" and j: "j < mq_n q" "k < mq_n q"
  shows "mq_slot q (k_write_u32 (mq_lengths q + 4 * of_nat k) w s) j =
    (if j = k then (fst (mq_slot q s j), w, snd (snd (mq_slot q s j))) else mq_slot q s j)"
proof -
  note b = mq_bounds[OF q j(1)] and a = mq_parts_apart[OF q j] and a' = mq_parts_apart[OF q j(2,1)] and l = write_u32_bytes(2)[of w]
  have "k_read_u32 (mq_lengths q + 4 * of_nat k) (k_write (mq_lengths q + 4 * of_nat k) (u32_bytes w) s) = w"
    unfolding k_read_u32_def k_write_def using read_u32_same[OF mq_bounds(2)[OF q j(2)]] by simp
  then show ?thesis
    unfolding write_u32_bytes(1)
    using read_apart[OF b(1) a(1) l] read_u32_write[OF b(3) apart_sym[OF a'(3)] l] read_u32_write[OF b(2) a(5) l]
    by (auto simp: mq_slot_def mq_length_def mq_priority_def)
qed

lemma slot_write_priority:
  assumes q: "mq_ring q" "mq_priorities q \<noteq> 0" and j: "j < mq_n q" "k < mq_n q"
  shows "mq_slot q (k_write_u32 (mq_priorities q + 4 * of_nat k) w s) j =
    (if j = k then (fst (mq_slot q s j), fst (snd (mq_slot q s j)), w) else mq_slot q s j)"
proof -
  note b = mq_bounds[OF q(1) j(1)] and a = mq_parts_apart[OF q(1) j] and l = write_u32_bytes(2)[of w]
  have "k_read_u32 (mq_priorities q + 4 * of_nat k) (k_write (mq_priorities q + 4 * of_nat k) (u32_bytes w) s) = w"
    unfolding k_read_u32_def k_write_def using read_u32_same[OF mq_bounds(3)[OF q(1) j(2) q(2)]] by simp
  then show ?thesis
    unfolding write_u32_bytes(1)
    using q(2) read_apart[OF b(1) a(2) l] read_u32_write[OF b(2) a(3) l] read_u32_write[OF b(3) a(6) l]
    by (auto simp: mq_slot_def mq_length_def mq_priority_def)
qed

section \<open>Shifting\<close>

abbreviation (input) mq_pos :: "aixos_mq_t \<Rightarrow> nat \<Rightarrow> nat" where "mq_pos q k \<equiv> (unat (mq_head q) + k) mod mq_n q"

lemma mq_pos_lt: "mq_ring q \<Longrightarrow> mq_pos q k < mq_n q"
  by (simp add: mq_ring_def)

lemma mq_index_pos: "mq_ring q \<Longrightarrow> k \<le> mq_n q \<Longrightarrow> mq_index q k = of_nat (mq_pos q k)"
proof -
  assume q: "mq_ring q" and k: "k \<le> mq_n q"
  have b: "mq_n q \<le> 2 ^ 30" "unat (mq_head q) < mq_n q" using q by (simp_all add: mq_ring_def)
  have "unat (mq_head q) + unat (of_nat k :: u32) < 2 ^ 32" using b k by (simp add: unat_of_nat take_bit_nat_eq_self)
  then have "unat (mq_index q k) = (unat (mq_head q) + unat (of_nat k :: u32)) mod mq_n q" unfolding mq_index_def by (rule mod_word_lt)
  also have "unat (of_nat k :: u32) = k" by (rule u32_of_nat) (use b k in simp)
  finally show ?thesis by (rule u32_of_unat)
qed

lemma mq_shift_slot:
  assumes q: "mq_ring q" and l: "0 < l" "l < mq_n q" and j: "j < mq_n q"
  shows "mq_slot q (mq_shift_cell q l s) j = (if j = mq_pos q l then mq_slot q s (mq_pos q (l - 1)) else mq_slot q s j)"
proof -
  have d: "mq_index q l = of_nat (mq_pos q l)" "mq_index q (l - 1) = of_nat (mq_pos q (l - 1))"
    using mq_index_pos[OF q] l by simp_all
  have p: "mq_pos q l < mq_n q" "mq_pos q (l - 1) < mq_n q" using mq_pos_lt[OF q] by simp_all
  have ne: "mq_pos q (l - 1) \<noteq> mq_pos q l" using ring_inj[of "unat (mq_head q)" "l - 1" "mq_n q" l] l by (metis One_nat_def diff_less less_imp_diff_less less_irrefl zero_less_one)
  define D S where DS: "D = mq_pos q l" "S = mq_pos q (l - 1)"
  note d = d[folded DS] and p = p[folded DS] and ne = ne[folded DS]
  define s1 where "s1 = k_write (mq_cell q (of_nat D)) (k_read (mq_cell q (of_nat S)) (mq_sz q) s) s"
  have len: "length (k_read (mq_cell q (of_nat S)) (mq_sz q) s) = mq_sz q" by (simp add: k_read_def read_bytes_def)
  have s1: "mq_slot q s1 i = (if i = D then (fst (mq_slot q s S), snd (mq_slot q s i)) else mq_slot q s i)" if "i < mq_n q" for i
    using slot_write_cell[OF q that p(1), of "k_read (mq_cell q (of_nat S)) (mq_sz q) s" s] len
    by (simp add: s1_def) (simp add: mq_slot_def k_read_def read_bytes_def)
  define s2 where "s2 = k_write_u32 (mq_lengths q + 4 * of_nat D) (mq_length q (of_nat S) s1) s1"
  have "mq_length q (of_nat S) s1 = fst (snd (mq_slot q s S))" using s1[OF p(2)] ne by (simp add: mq_slot_def)
  then have s2: "mq_slot q s2 i = (if i = D then (fst (mq_slot q s S), fst (snd (mq_slot q s S)), snd (snd (mq_slot q s i))) else mq_slot q s i)"
    if "i < mq_n q" for i using slot_write_length[OF q that p(1), of _ s1] s1[OF that] s1[OF p(1)] by (simp add: s2_def)
  have z: "snd (snd (mq_slot q s i)) = 0" if "mq_priorities q = 0" for i using that by (simp add: mq_slot_def)
  have "mq_slot q (mq_shift_cell q l s) j = (if j = D then mq_slot q s S else mq_slot q s j)"
  proof (cases "mq_priorities q = 0")
    case True
    then have e: "mq_shift_cell q l s = s2" by (simp only: mq_shift_cell_def Let_def d s1_def s2_def) simp
    show ?thesis unfolding e using s2[OF j] z[OF True] by (simp add: prod_eq_iff)
  next
    case False
    then have e: "mq_shift_cell q l s = k_write_u32 (mq_priorities q + 4 * of_nat D) (mq_priority q (of_nat S) s2) s2"
      by (simp only: mq_shift_cell_def Let_def d s1_def s2_def) simp
    have "mq_priority q (of_nat S) s2 = snd (snd (mq_slot q s S))" using s2[OF p(2)] ne False by (simp add: mq_slot_def)
    then show ?thesis unfolding e using slot_write_priority[OF q False j p(1), of _ s2] s2[OF j] s2[OF p(1)] by simp
  qed
  then show ?thesis unfolding DS .
qed

text \<open>All cells from \<open>ins\<close> up to \<open>c\<close> move up by one.\<close>

lemma mq_shifts_slots:
  assumes q: "mq_ring q" and c: "c < mq_n q"
  shows "ins \<le> c \<Longrightarrow> k \<le> c \<Longrightarrow> mq_slot q (fold (mq_shift_cell q) (rev [ins + 1..<c + 1]) s) (mq_pos q k) =
    (if ins < k then mq_slot q s (mq_pos q (k - 1)) else mq_slot q s (mq_pos q k))"
proof (induction "c - ins" arbitrary: ins k)
  case (Suc d)
  have r: "rev [ins + 1..<c + 1] = rev [(ins + 1) + 1..<c + 1] @ [ins + 1]"
    using Suc.hyps(2) upt_conv_Cons[of "ins + 1" "c + 1"] by simp
  let ?s = "fold (mq_shift_cell q) (rev [(ins + 1) + 1..<c + 1]) s"
  have IH: "mq_slot q ?s (mq_pos q k) = (if ins + 1 < k then mq_slot q s (mq_pos q (k - 1)) else mq_slot q s (mq_pos q k))" if "k \<le> c" for k
    by (rule Suc.hyps(1)) (use Suc.hyps(2) that in simp_all)
  have n: "ins + 1 < mq_n q" using Suc.hyps(2) c by simp
  have "mq_slot q (fold (mq_shift_cell q) (rev [ins + 1..<c + 1]) s) (mq_pos q k) =
      (if mq_pos q k = mq_pos q (ins + 1) then mq_slot q ?s (mq_pos q ins) else mq_slot q ?s (mq_pos q k))"
    unfolding r using mq_shift_slot[OF q _ n mq_pos_lt[OF q], of ?s k] by simp
  moreover have "mq_pos q k = mq_pos q (ins + 1) \<longleftrightarrow> k = ins + 1"
    using ring_inj[of "unat (mq_head q)" k "mq_n q" "ins + 1"] n c Suc.prems by auto
  ultimately show ?case using IH[of k] IH[of ins] Suc.prems by auto
qed simp

section \<open>Messages\<close>

definition slot_msg :: "u8 list \<times> u32 \<times> u32 \<Rightarrow> u8 list \<times> u32" where
  "slot_msg c = (take (unat (fst (snd c))) (fst c), snd (snd c))"

definition mq_msgs :: "aixos_mq_t \<Rightarrow> kstate \<Rightarrow> (u8 list \<times> u32) list" where
  "mq_msgs q s = map (\<lambda>k. slot_msg (mq_slot q s (mq_pos q k))) [0..<unat (mq_count q)]"

lemma mq_msgs_length [simp]: "length (mq_msgs q s) = unat (mq_count q)"
  by (simp add: mq_msgs_def)

text \<open>The lengths of the stored messages fit the cells.\<close>

definition mq_fit :: "aixos_mq_t \<Rightarrow> kstate \<Rightarrow> bool" where
  "mq_fit q s \<longleftrightarrow> (\<forall>k < unat (mq_count q). unat (fst (snd (mq_slot q s (mq_pos q k)))) \<le> mq_sz q)"

text \<open>The first message with a lower priority.\<close>

lemma find_insert_takeWhile:
  assumes q: "mq_ring q" "mq_priorities q \<noteq> 0" and c: "c = unat (mq_count q)"
  shows "m \<le> c \<Longrightarrow> mq_find_insert q p [m..<c] c s = m + length (takeWhile (\<lambda>x. p \<le> snd x) (drop m (mq_msgs q s)))"
proof (induction "c - m" arbitrary: m)
  case (Suc d)
  then have m: "m < c" by simp
  have cn: "c \<le> mq_n q" using q(1) c by (simp add: mq_ring_def)
  have "mq_priority q (mq_index q m) s = snd (mq_msgs q s ! m)"
    using mq_index_pos[OF q(1), of m] m cn c q(2) by (simp add: mq_msgs_def slot_msg_def mq_slot_def)
  moreover have "drop m (mq_msgs q s) = mq_msgs q s ! m # drop (Suc m) (mq_msgs q s)" using m c by (simp add: Cons_nth_drop_Suc)
  ultimately show ?case using Suc.hyps(1)[of "Suc m"] Suc.hyps(2) m by (simp add: upt_conv_Cons not_less)
qed (simp add: c)

text \<open>The reference: behind the messages of the same or a higher priority.\<close>

definition insert_msg :: "u8 list \<times> u32 \<Rightarrow> (u8 list \<times> u32) list \<Rightarrow> (u8 list \<times> u32) list" where
  "insert_msg x xs = takeWhile (\<lambda>y. snd x \<le> snd y) xs @ x # dropWhile (\<lambda>y. snd x \<le> snd y) xs"

lemma insert_msg_at: "insert_msg x xs = take (length (takeWhile (\<lambda>y. snd x \<le> snd y) xs)) xs @ x #
    drop (length (takeWhile (\<lambda>y. snd x \<le> snd y) xs)) xs"
  by (simp add: insert_msg_def takeWhile_eq_take[symmetric] dropWhile_eq_drop[symmetric])

lemma insert_nth:
  "i \<le> length xs \<Longrightarrow> k \<le> length xs \<Longrightarrow> (take i xs @ x # drop i xs) ! k = (if k = i then x else if i < k then xs ! (k - 1) else xs ! k)"
  by (auto simp: nth_append min_def nth_Cons')

text \<open>The cells after the four writes of \<open>mq_store\<close>.\<close>

lemma mq_store_slots:
  assumes q: "mq_ring q" and c: "c < mq_n q" "ins \<le> c" and m: "length m \<le> mq_sz q" and p: "mq_priorities q = 0 \<longrightarrow> p = 0"
    and s1: "s1 = fold (mq_shift_cell q) (rev [ins + 1..<c + 1]) s"
    and s3: "s3 = k_write_u32 (mq_lengths q + 4 * mq_index q ins) (of_nat (length m)) (k_write (mq_cell q (mq_index q ins)) m s1)"
    and s4: "s4 = (if mq_priorities q \<noteq> 0 then k_write_u32 (mq_priorities q + 4 * mq_index q ins) p s3 else s3)"
    and k: "k \<le> c"
  shows "k \<noteq> ins \<Longrightarrow> mq_slot q s4 (mq_pos q k) = (if ins < k then mq_slot q s (mq_pos q (k - 1)) else mq_slot q s (mq_pos q k))"
    "unat (fst (snd (mq_slot q s4 (mq_pos q ins)))) = length m" "slot_msg (mq_slot q s4 (mq_pos q ins)) = (m, p)"
proof -
  have ix: "mq_index q ins = of_nat (mq_pos q ins)" by (rule mq_index_pos[OF q]) (use c in simp)
  define D where "D = mq_pos q ins"
  have D: "D < mq_n q" unfolding D_def by (rule mq_pos_lt[OF q])
  have e: "mq_slot q s4 j = (if j = D then (m @ drop (length m) (fst (mq_slot q s1 D)), of_nat (length m), p) else mq_slot q s1 j)" if "j < mq_n q" for j
  proof -
    have 3: "mq_slot q s3 j = (if j = D then (m @ drop (length m) (fst (mq_slot q s1 D)), of_nat (length m), snd (snd (mq_slot q s1 D))) else mq_slot q s1 j)"
      if "j < mq_n q" for j
      unfolding s3 ix D_def[symmetric] slot_write_length[OF q that D] slot_write_cell[OF q that D m] by simp
    show ?thesis
    proof (cases "mq_priorities q = 0")
      case True
      then have "snd (snd (mq_slot q s1 D)) = p" using p by (simp add: mq_slot_def)
      then show ?thesis using 3[OF that] True by (simp add: s4)
    next
      case False
      then show ?thesis unfolding s4 ix D_def[symmetric] using slot_write_priority[OF q False that D, of p s3] 3[OF that] 3[OF D] by simp
    qed
  qed
  have lm: "unat (of_nat (length m) :: u32) = length m" by (rule u32_of_nat) (rule le_less_trans[OF m], use unsigned_less[of "mq_msg_size q"] in simp)
  show "unat (fst (snd (mq_slot q s4 (mq_pos q ins)))) = length m" "slot_msg (mq_slot q s4 (mq_pos q ins)) = (m, p)"
    unfolding D_def[symmetric] using e[OF D] lm by (simp_all add: slot_msg_def)
  assume "k \<noteq> ins"
  then have "mq_pos q k \<noteq> D" using ring_inj[of "unat (mq_head q)" k "mq_n q" ins] k c unfolding D_def by auto
  then show "mq_slot q s4 (mq_pos q k) = (if ins < k then mq_slot q s (mq_pos q (k - 1)) else mq_slot q s (mq_pos q k))"
    using e[OF mq_pos_lt[OF q, of k]] mq_shifts_slots[OF q c(1,2) k] unfolding s1 by simp
qed

lemma mq_slot_cong: "mq_buffer q' = mq_buffer q \<Longrightarrow> mq_lengths q' = mq_lengths q \<Longrightarrow> mq_priorities q' = mq_priorities q \<Longrightarrow>
    mq_msg_size q' = mq_msg_size q \<Longrightarrow> mq_slot q' s = mq_slot q s"
  by (simp add: fun_eq_iff mq_slot_def mq_cell_def mq_length_def mq_priority_def)

lemma mq_store_msgs:
  assumes q: "mq_ring q" and f: "mq_fit q s" and c: "c = unat (mq_count q)" "c < mq_n q" and m: "length m \<le> mq_sz q"
    and p: "mq_priorities q = 0 \<longrightarrow> p = 0"
    and ins: "ins = (if mq_priorities q \<noteq> 0 \<and> p \<noteq> 0 then mq_find_insert q p [0..<c] c s else c)"
    and s1: "s1 = fold (mq_shift_cell q) (rev [ins + 1..<c + 1]) s"
    and s3: "s3 = k_write_u32 (mq_lengths q + 4 * mq_index q ins) (of_nat (length m)) (k_write (mq_cell q (mq_index q ins)) m s1)"
    and s4: "s4 = (if mq_priorities q \<noteq> 0 then k_write_u32 (mq_priorities q + 4 * mq_index q ins) p s3 else s3)"
    and q': "q' = q\<lparr>mq_tail := t, mq_count := mq_count q + 1\<rparr>"
  shows "mq_ring q'" "mq_fit q' s4" "mq_msgs q' s4 = insert_msg (m, p) (mq_msgs q s)"
proof -
  have "c < 2 ^ 30" using c q by (simp add: mq_ring_def)
  then have c': "unat (mq_count q + 1) = c + 1" using unat_add_lt[of "mq_count q" 1] c(1) by simp
  show "mq_ring q'" using q c c' by (simp add: mq_ring_def q')
  have sl: "mq_slot q' = mq_slot q" by (rule ext, rule mq_slot_cong) (simp_all add: q')
  have i: "ins = length (takeWhile (\<lambda>y. p \<le> snd y) (mq_msgs q s))"
  proof (cases "mq_priorities q \<noteq> 0 \<and> p \<noteq> 0")
    case True
    then show ?thesis using find_insert_takeWhile[OF q _ c(1), of 0 p s] by (simp add: ins)
  next
    case False
    then have "p = 0" "ins = c" using p by (auto simp: ins)
    then show ?thesis using c(1) by (simp add: takeWhile_eq_all_conv[THEN iffD2])
  qed
  have ic: "ins \<le> c" using length_takeWhile_le[of "\<lambda>y. p \<le> snd y" "mq_msgs q s"] c(1) by (simp add: i)
  note st = mq_store_slots[OF q c(2) ic m p s1 s3 s4]
  show "mq_fit q' s4"
    unfolding mq_fit_def sl
  proof (intro allI impI)
    fix k assume "k < unat (mq_count q')"
    then have k: "k \<le> c" using c' by (simp add: q')
    show "unat (fst (snd (mq_slot q s4 (mq_pos q' k)))) \<le> mq_sz q'"
    proof -
      have F: "unat (fst (snd (mq_slot q s (mq_pos q j)))) \<le> mq_sz q" if "j < c" for j using f that c(1) by (simp add: mq_fit_def)
      consider "k = ins" | "ins < k" | "k < ins" by linarith
      then show ?thesis
      proof cases
        case 1
        then show ?thesis using st(2)[OF k] m by (simp add: q')
      next
        case 2
        then show ?thesis using st(1)[OF k] F[of "k - 1"] k by (simp add: q')
      next
        case 3
        then show ?thesis using st(1)[OF k] F[of k] ic by (simp add: q')
      qed
    qed
  qed
  show "mq_msgs q' s4 = insert_msg (m, p) (mq_msgs q s)"
  proof (rule nth_equalityI)
    show "length (mq_msgs q' s4) = length (insert_msg (m, p) (mq_msgs q s))" using c' c(1) ic by (simp add: insert_msg_at i[symmetric] q')
    fix k assume "k < length (mq_msgs q' s4)"
    then have k: "k \<le> c" using c' by (simp add: q')
    have "mq_msgs q' s4 ! k = slot_msg (mq_slot q s4 (mq_pos q k))" using k c' sl by (simp add: mq_msgs_def q' del: upt_Suc)
    also have "\<dots> = (take ins (mq_msgs q s) @ (m, p) # drop ins (mq_msgs q s)) ! k"
      using st(1)[OF k] st(3)[OF k] k ic c(1) by (subst insert_nth) (auto simp: mq_msgs_def)
    also have "\<dots> = insert_msg (m, p) (mq_msgs q s) ! k" by (simp add: insert_msg_at i)
    finally show "mq_msgs q' s4 ! k = insert_msg (m, p) (mq_msgs q s) ! k" .
  qed
qed

lemma mq_take_msgs:
  assumes q: "mq_ring q" and f: "mq_fit q s" and c: "0 < unat (mq_count q)"
    and q': "q' = q\<lparr>mq_head := (mq_head q + 1) mod mq_max_msgs q, mq_count := mq_count q - 1\<rparr>"
  shows "mq_ring q'" "mq_fit q' s" "mq_msgs q s = slot_msg (mq_slot q s (unat (mq_head q))) # mq_msgs q' s"
proof -
  have c': "unat (mq_count q - 1) = unat (mq_count q) - 1" using c by (simp add: unat_sub_if' word_le_nat_alt)
  have hn: "unat (mq_head q) < mq_n q" "mq_n q \<le> 2 ^ 30" using q by (simp_all add: mq_ring_def)
  then have h': "unat ((mq_head q + 1) mod mq_max_msgs q) = (unat (mq_head q) + 1) mod mq_n q"
    using mod_word_lt[of "mq_head q" 1 "mq_max_msgs q"] by simp
  have "unat (mq_count q) \<le> mq_n q" using q by (simp add: mq_ring_def)
  then have "unat (mq_count q) - 1 \<le> mq_n q" by simp
  then show "mq_ring q'" using q c' h' by (simp add: mq_ring_def q')
  have sl: "mq_slot q' = mq_slot q" by (rule ext, rule mq_slot_cong) (simp_all add: q')
  have pos: "mq_pos q' k = mq_pos q (k + 1)" for k using h' by (simp add: q' mod_simps)
  show "mq_fit q' s"
    unfolding mq_fit_def sl pos
  proof (intro allI impI)
    fix k assume "k < unat (mq_count q')"
    then have "k + 1 < unat (mq_count q)" using c' by (simp add: q')
    then show "unat (fst (snd (mq_slot q s (mq_pos q (k + 1))))) \<le> mq_sz q'" using f[unfolded mq_fit_def, rule_format, of "k + 1"] by (simp add: q')
  qed
  have "[0..<unat (mq_count q)] = 0 # map Suc [0..<unat (mq_count q')]"
    using c c' upt_conv_Cons[of 0 "unat (mq_count q)"] by (simp add: q' map_Suc_upt)
  then have "mq_msgs q s = slot_msg (mq_slot q s (mq_pos q 0)) # map (\<lambda>k. slot_msg (mq_slot q s (mq_pos q (Suc k)))) [0..<unat (mq_count q')]"
    by (simp add: mq_msgs_def o_def)
  also have "mq_pos q 0 = unat (mq_head q)" using hn by simp
  also have "map (\<lambda>k. slot_msg (mq_slot q s (mq_pos q (Suc k)))) [0..<unat (mq_count q')] = mq_msgs q' s"
    using sl pos by (simp add: mq_msgs_def)
  finally show "mq_msgs q s = slot_msg (mq_slot q s (unat (mq_head q))) # mq_msgs q' s" .
qed

section \<open>The calls\<close>

definition mq_inv :: "aixos_handle_t \<Rightarrow> nat \<Rightarrow> u32 \<Rightarrow> u32 \<Rightarrow> bool \<Rightarrow> kstate \<Rightarrow> bool" where
  "mq_inv g i n sz pr s \<longleftrightarrow> kernel_ok s \<and> \<not> in_isr s \<and> mq_from_handle g s = Some i \<and> mq_ring (mq_pool s ! i) \<and> mq_fit (mq_pool s ! i) s \<and>
     mq_max_msgs (mq_pool s ! i) = n \<and> mq_msg_size (mq_pool s ! i) = sz \<and> (mq_priorities (mq_pool s ! i) \<noteq> 0 \<longleftrightarrow> pr)"

definition mq_abs :: "nat \<Rightarrow> kstate \<Rightarrow> (u8 list \<times> u32) list" where
  "mq_abs i s = mq_msgs (mq_pool s ! i) s"

lemma mq_heap_cong:
  assumes "k_heap s' = k_heap s"
  shows "mq_slot q s' = mq_slot q s" "mq_msgs q s' = mq_msgs q s" "mq_fit q s' = mq_fit q s"
proof -
  show a: "mq_slot q s' = mq_slot q s"
    by (rule ext) (simp add: mq_slot_def mq_length_def mq_priority_def k_read_def k_read_u32_def assms)
  show "mq_msgs q s' = mq_msgs q s" "mq_fit q s' = mq_fit q s" by (simp_all add: mq_msgs_def mq_fit_def a)
qed

lemma mq_updated:
  assumes inv: "mq_inv g i n sz pr s" and ok: "kernel_ok s1" and e: "s1 = s\<lparr>k_heap := k_heap s1\<rparr>"
    and q': "mq_ring q'" "mq_fit q' s1" "mq_max_msgs q' = n" "mq_msg_size q' = sz" "mq_priorities q' \<noteq> 0 \<longleftrightarrow> pr" "mq_handle q' = mq_handle (mq_pool s ! i)"
  shows "mq_inv g i n sz pr (set_mq i q' s1)" "mq_abs i (set_mq i q' s1) = mq_msgs q' s1"
proof -
  note I = inv[unfolded mq_inv_def]
  have len: "i < length (mq_pool s)"
    using I table_okD(1)[OF conjunct2[OF objects_okD(4)[OF kernel_okD(2)]]] objects_okD(4)[OF kernel_okD(2)] by (fastforce simp: from_handle_lookup)
  have f: "mq_pool s1 = mq_pool s" "k_obj s1 = k_obj s" "k_isr s1 = k_isr s" by (subst e, simp)+
  have "kernel_ok (set_mq i q' s1)" by (rule ipc.put_mq) (use ok q'(6) f in simp_all)
  then show "mq_inv g i n sz pr (set_mq i q' s1)"
    using I len q' f mq_heap_cong[of "set_mq i q' s1" s1]
    by (simp add: mq_inv_def set_mq_def from_handle_lookup k_lookup_def in_isr_def)
  show "mq_abs i (set_mq i q' s1) = mq_msgs q' s1"
    using len f mq_heap_cong(2)[of "set_mq i q' s1" s1] by (simp add: mq_abs_def set_mq_def)
qed

lemma mq_wake:
  assumes inv: "mq_inv g i n sz pr s" and h: "h = MqSend i \<or> h = MqRecv i"
  shows "\<exists>s'. mq_wake_first h s = Some s' \<and> mq_inv g i n sz pr s' \<and> mq_abs i s' = mq_abs i s"
proof (cases "head_empty h s")
  case False
  note I = inv[unfolded mq_inv_def]
  have L: "is_wait_head h" "lists (k_ls s) h \<noteq> None"
    using h table_ok_lists[OF conjunct2[OF objects_okD(4)[OF kernel_okD(2)]]] I by (auto simp: from_handle_lookup)
  obtain a s' where s': "first_task h s = Some a" "aixos_task_wake a AIXOS_OK s = Some s'" "kernel_ok s'" "sched_frame s s'"
    using wake_waiter[OF conjunct1[OF I] L False, of AIXOS_OK] by blast
  have "mq_inv g i n sz pr s' \<and> mq_abs i s' = mq_abs i s"
    using I s'(3) frame_rest[OF s'(4)] sched_frameD(2)[OF s'(4)] mq_heap_cong[OF frame_rest(11)[OF s'(4)]]
    by (simp add: mq_inv_def mq_abs_def from_handle_lookup k_lookup_def)
  then show ?thesis using False s' by (simp add: mq_wake_first_def)
qed (use inv in \<open>simp add: mq_wake_first_def\<close>)

text \<open>The writes of a call only change memory.\<close>

lemma shifts_heap: "\<exists>hp. fold (mq_shift_cell q) ls s = s\<lparr>k_heap := hp\<rparr>"
proof (induction ls arbitrary: s)
  case (Cons l ls)
  have "mq_shift_cell q l s = s\<lparr>k_heap := k_heap (mq_shift_cell q l s)\<rparr>"
    by (simp add: mq_shift_cell_def Let_def k_write_def k_write_u32_def)
  then obtain h1 where h1: "mq_shift_cell q l s = s\<lparr>k_heap := h1\<rparr>" ..
  obtain h2 where "fold (mq_shift_cell q) ls (s\<lparr>k_heap := h1\<rparr>) = s\<lparr>k_heap := h1\<rparr>\<lparr>k_heap := h2\<rparr>" using Cons by blast
  then show ?case using h1 by auto
next
  case Nil
  show ?case by (rule exI[of _ "k_heap s"]) simp
qed

lemma heap_only: "s' = s\<lparr>k_heap := hp\<rparr> \<Longrightarrow> s' = s\<lparr>k_heap := k_heap s'\<rparr>"
  by simp

lemma mq_store_queue:
  assumes inv: "mq_inv g i n sz pr s" and c: "length (mq_abs i s) < unat n" and m: "length m \<le> unat sz" and p: "pr \<or> p = 0"
  shows "\<exists>s'. mq_store i m p False s = Some (AIXOS_OK, s') \<and> mq_inv g i n sz pr s' \<and> mq_abs i s' = insert_msg (m, p) (mq_abs i s)"
proof -
  note I = inv[unfolded mq_inv_def]
  let ?q = "mq_pool s ! i"
  define c0 where "c0 = unat (mq_count ?q)"
  have q: "mq_ring ?q" "mq_fit ?q s" "c0 < mq_n ?q" "length m \<le> mq_sz ?q" "mq_priorities ?q = 0 \<longrightarrow> p = 0"
    using I c m p by (auto simp: mq_abs_def c0_def)
  define ins where "ins = (if mq_priorities ?q \<noteq> 0 \<and> p \<noteq> 0 then mq_find_insert ?q p [0..<c0] c0 s else c0)"
  define s1 where "s1 = fold (mq_shift_cell ?q) (rev [ins + 1..<c0 + 1]) s"
  define s3 where "s3 = k_write_u32 (mq_lengths ?q + 4 * mq_index ?q ins) (of_nat (length m)) (k_write (mq_cell ?q (mq_index ?q ins)) m s1)"
  define s4 where "s4 = (if mq_priorities ?q \<noteq> 0 then k_write_u32 (mq_priorities ?q + 4 * mq_index ?q ins) p s3 else s3)"
  define q' where "q' = ?q\<lparr>mq_tail := (mq_index ?q ins + 1) mod mq_max_msgs ?q, mq_count := mq_count ?q + 1\<rparr>"
  note M = mq_store_msgs[OF q(1,2) c0_def q(3-5) ins_def s1_def s3_def s4_def q'_def]
  obtain h1 where "s1 = s\<lparr>k_heap := h1\<rparr>" unfolding s1_def using shifts_heap by blast
  then have s4: "s4 = s\<lparr>k_heap := k_heap s4\<rparr>" by (simp add: s4_def s3_def k_write_def k_write_u32_def)
  have ok4: "kernel_ok s4" by (subst s4) (use I in simp)
  have u: "mq_inv g i n sz pr (set_mq i q' s4)" "mq_abs i (set_mq i q' s4) = insert_msg (m, p) (mq_abs i s)"
    using mq_updated[OF inv ok4 s4 M(1,2)] I M(3) by (simp_all add: q'_def mq_abs_def)
  obtain s' where s': "mq_wake_first (MqRecv i) (set_mq i q' s4) = Some s'" "mq_inv g i n sz pr s'" "mq_abs i s' = mq_abs i (set_mq i q' s4)"
    using mq_wake[OF u(1), of "MqRecv i"] by blast
  have np: "\<not> (mq_priorities ?q = 0 \<and> p \<noteq> 0)" using q(5) by blast
  have "mq_store i m p False s = Some (AIXOS_OK, s')"
    unfolding mq_store_def Let_def if_not_P[OF np] c0_def[symmetric] ins_def[symmetric] s1_def[symmetric] s3_def[symmetric] s4_def[symmetric] q'_def[symmetric] s'(1)
    by simp
  then show ?thesis using s' u by auto
qed

lemma mq_take_queue:
  assumes inv: "mq_inv g i n sz pr s" and c: "mq_abs i s = x # xs"
  shows "\<exists>s'. mq_take i cap s = Some (if unat cap < length (fst x) then ((AIXOS_ERR_OVERFLOW, rx_nothing\<lparr>rx_size := Some (of_nat (length (fst x)))\<rparr>), s)
      else ((AIXOS_OK, \<lparr>rx_size = Some (of_nat (length (fst x))), rx_bytes = fst x, rx_priority = snd x\<rparr>), s')) \<and>
    mq_inv g i n sz pr s' \<and> mq_abs i s' = xs"
proof -
  note I = inv[unfolded mq_inv_def]
  let ?q = "mq_pool s ! i"
  have "unat (mq_count ?q) = Suc (length xs)" using c mq_msgs_length[of ?q s] by (simp add: mq_abs_def)
  then have q: "mq_ring ?q" "mq_fit ?q s" "0 < unat (mq_count ?q)" using I by simp_all
  define q' where "q' = ?q\<lparr>mq_head := (mq_head ?q + 1) mod mq_max_msgs ?q, mq_count := mq_count ?q - 1\<rparr>"
  note M = mq_take_msgs[OF q q'_def]
  have x: "x = slot_msg (mq_slot ?q s (unat (mq_head ?q)))" "xs = mq_msgs q' s" using M(3) c by (simp_all add: mq_abs_def)
  have hd: "of_nat (unat (mq_head ?q)) = mq_head ?q" by simp
  have hn: "unat (mq_head ?q) < mq_n ?q" using q(1) by (simp add: mq_ring_def)
  have fit: "unat (mq_length ?q (mq_head ?q) s) \<le> mq_sz ?q"
    using q(2)[unfolded mq_fit_def, rule_format, OF q(3)] hn by (simp add: mq_slot_def)
  have len: "mq_length ?q (mq_head ?q) s = of_nat (length (fst x))" "unat (mq_length ?q (mq_head ?q) s) = length (fst x)"
    using fit by (simp_all add: x(1) slot_msg_def mq_slot_def k_read_def read_bytes_def min_def)
  have bytes: "k_read (mq_cell ?q (mq_head ?q)) (unat (mq_length ?q (mq_head ?q) s)) s = fst x"
    using fit by (simp add: x(1) slot_msg_def mq_slot_def k_read_def read_bytes_def take_map take_upt)
  have pr: "(if mq_priorities ?q \<noteq> 0 then mq_priority ?q (mq_head ?q) s else 0) = snd x" by (simp add: x(1) slot_msg_def mq_slot_def)
  have u: "mq_inv g i n sz pr (set_mq i q' s)" "mq_abs i (set_mq i q' s) = xs"
    using mq_updated[OF inv _ _ M(1,2)] I x(2) by (simp_all add: q'_def)
  obtain s' where s': "mq_wake_first (MqSend i) (set_mq i q' s) = Some s'" "mq_inv g i n sz pr s'" "mq_abs i s' = mq_abs i (set_mq i q' s)"
    using mq_wake[OF u(1), of "MqSend i"] by blast
  have "mq_take i cap s = (if mq_length ?q (mq_head ?q) s > cap then Some ((AIXOS_ERR_OVERFLOW, rx_nothing\<lparr>rx_size := Some (mq_length ?q (mq_head ?q) s)\<rparr>), s)
      else Some ((AIXOS_OK, \<lparr>rx_size = Some (mq_length ?q (mq_head ?q) s), rx_bytes = fst x, rx_priority = snd x\<rparr>), s'))"
    unfolding mq_take_def Let_def q'_def[symmetric] s'(1) bytes pr by simp
  then show ?thesis using s' u(2) len by (intro exI[of _ s']) (simp add: word_less_nat_alt)
qed

section \<open>Queues are priority queues\<close>

datatype mq_io = MqPut "u8 list" u32 | MqGet u32

fun mq_step :: "aixos_handle_t \<Rightarrow> mq_io \<Rightarrow> kstate \<Rightarrow> ((int \<times> mq_received) \<times> kstate) option" where
  "mq_step g (MqPut m p) s = (case aixos_mq_send_priority g (Some m) p 0 s of Some (Done r, s') \<Rightarrow> Some ((r, rx_nothing), s') | _ \<Rightarrow> None)"
| "mq_step g (MqGet cap) s = (case aixos_mq_recv_priority g cap 0 s of Some (Done r, s') \<Rightarrow> Some (r, s') | _ \<Rightarrow> None)"

text \<open>The same on a list of messages with priorities: \<open>n\<close> messages of at most \<open>sz\<close> bytes; \<open>pr\<close> says whether
  the queue knows priorities.\<close>

fun msg_queue :: "nat \<Rightarrow> nat \<Rightarrow> bool \<Rightarrow> mq_io \<Rightarrow> (u8 list \<times> u32) list \<Rightarrow> (int \<times> mq_received) \<times> (u8 list \<times> u32) list" where
  "msg_queue n sz pr (MqPut m p) q =
     (if p > AIXOS_CFG_MQ_PRIORITY_MAX \<or> length m > sz then ((AIXOS_ERR_INVAL, rx_nothing), q)
      else if length q = n then ((AIXOS_ERR_BUSY, rx_nothing), q)
      else if \<not> pr \<and> p \<noteq> 0 then ((AIXOS_ERR_INVAL, rx_nothing), q)
      else ((AIXOS_OK, rx_nothing), insert_msg (m, p) q))"
| "msg_queue n sz pr (MqGet cap) q =
     (case q of
        [] \<Rightarrow> ((AIXOS_ERR_AGAIN, rx_nothing), [])
      | (m, p) # q' \<Rightarrow>
          if unat cap < length m then ((AIXOS_ERR_OVERFLOW, rx_nothing\<lparr>rx_size := Some (of_nat (length m))\<rparr>), q)
          else ((AIXOS_OK, \<lparr>rx_size = Some (of_nat (length m)), rx_bytes = m, rx_priority = p\<rparr>), q'))"

lemma mq_step_refines:
  assumes inv: "mq_inv g i n sz pr s"
  shows "\<exists>s'. mq_step g c s = Some (fst (msg_queue (unat n) (unat sz) pr c (mq_abs i s)), s') \<and> mq_inv g i n sz pr s' \<and>
    mq_abs i s' = snd (msg_queue (unat n) (unat sz) pr c (mq_abs i s))"
proof (cases c)
  case (MqPut m p)
  note I = inv[unfolded mq_inv_def]
  have fl: "mq_count (mq_pool s ! i) = mq_max_msgs (mq_pool s ! i) \<longleftrightarrow> length (mq_abs i s) = unat n"
    using I by (simp add: mq_abs_def word_unat_eq_iff)
  have le: "length (mq_abs i s) \<le> unat n" using I by (auto simp: mq_abs_def mq_ring_def)
  consider (bad) "p > AIXOS_CFG_MQ_PRIORITY_MAX \<or> length m > unat sz"
    | (full) "\<not> (p > AIXOS_CFG_MQ_PRIORITY_MAX \<or> length m > unat sz)" "length (mq_abs i s) = unat n"
    | (nopr) "\<not> (p > AIXOS_CFG_MQ_PRIORITY_MAX \<or> length m > unat sz)" "length (mq_abs i s) \<noteq> unat n" "\<not> pr \<and> p \<noteq> 0"
    | (ok) "\<not> (p > AIXOS_CFG_MQ_PRIORITY_MAX \<or> length m > unat sz)" "length (mq_abs i s) \<noteq> unat n" "pr \<or> p = 0" by blast
  then show ?thesis
  proof cases
    case bad
    then show ?thesis using MqPut I inv by (auto simp: aixos_mq_send_priority_def mq_send_common_def)
  next
    case full
    then show ?thesis using MqPut I inv fl by (simp add: aixos_mq_send_priority_def mq_send_common_def mq_send_turn_def Let_def)
  next
    case nopr
    then have "mq_count (mq_pool s ! i) \<noteq> mq_max_msgs (mq_pool s ! i)" using fl by simp
    then show ?thesis
      using MqPut I inv nopr by (simp add: aixos_mq_send_priority_def mq_send_common_def mq_send_turn_def mq_store_def Let_def)
  next
    case ok
    then have ne: "mq_count (mq_pool s ! i) \<noteq> mq_max_msgs (mq_pool s ! i)" using fl by simp
    obtain s' where s': "mq_store i m p False s = Some (AIXOS_OK, s')" "mq_inv g i n sz pr s'" "mq_abs i s' = insert_msg (m, p) (mq_abs i s)"
      using mq_store_queue[OF inv _ _ ok(3), of m] ok le by auto
    then show ?thesis using MqPut I ok ne by (simp add: aixos_mq_send_priority_def mq_send_common_def mq_send_turn_def Let_def)
  qed
next
  case (MqGet cap)
  note I = inv[unfolded mq_inv_def]
  show ?thesis
  proof (cases "mq_abs i s")
    case Nil
    then have "mq_count (mq_pool s ! i) = 0" using mq_msgs_length[of "mq_pool s ! i" s] by (simp add: mq_abs_def unat_eq_0)
    then show ?thesis using MqGet I inv Nil by (simp add: aixos_mq_recv_priority_def mq_recv_turn_def Let_def)
  next
    case (Cons x xs)
    then have "mq_count (mq_pool s ! i) \<noteq> 0" using mq_msgs_length[of "mq_pool s ! i" s] by (auto simp: mq_abs_def)
    then show ?thesis
      using MqGet I inv Cons mq_take_queue[OF inv Cons, of cap]
      by (cases x) (auto simp: aixos_mq_recv_priority_def mq_recv_turn_def Let_def)
  qed
qed

interpretation mq: refines "mq_inv g i n sz pr" "mq_abs i" "mq_step g" "msg_queue (unat n) (unat sz) pr" "\<lambda>_. True"
  for g i n sz pr
  by unfold_locales (rule mq_step_refines)

definition mq_arrays_ok :: "u32 \<Rightarrow> u32 \<Rightarrow> u32 \<Rightarrow> u32 \<Rightarrow> u32 \<Rightarrow> bool" where
  "mq_arrays_ok n sz b l p \<longleftrightarrow> mq_ring (zero_mq\<lparr>mq_buffer := b, mq_lengths := l, mq_priorities := p, mq_max_msgs := n, mq_msg_size := sz\<rparr>)"

lemma mq_created:
  assumes ok: "kernel_ok s" and c: "mq_create_common n sz b l p ow s = Some (h, s1)" "h \<noteq> AIXOS_HANDLE_INVALID"
    and a: "mq_arrays_ok n sz b l p"
  shows "\<exists>i. mq_inv h i n sz (p \<noteq> 0) s1 \<and> mq_abs i s1 = []"
proof -
  have g: "\<not> (in_isr s \<or> mq_sizes_bad n sz \<or> b = 0 \<or> l = 0)" using c by (auto simp: mq_create_common_def)
  obtain i where i: "find_index (\<lambda>x. mq_handle x = 0) (mq_pool s) 0 = Some i"
    using c g by (auto simp: mq_create_common_def split: option.splits)
  have len: "i < length (mq_pool s)" using find_free[OF i] by simp
  have k1: "kernel_ok s1" using mq_create_common_keeps[OF ok, of n sz b l p ow] c by simp
  have pre: "type_to_pool_id AIXOS_OBJ_MQ = AIXOS_POOL_MQ" "0 < AIXOS_POOL_MQ" "KMq i \<noteq> KNull" by simp_all
  show ?thesis
  proof (cases rule: claim_cases[OF ok pre, case_names full claimed])
    case (full j os)
    then show ?thesis using c g i by (simp add: mq_create_common_def)
  next
    case (claimed j os h')
    define q where "q = zero_mq\<lparr>mq_buffer := b, mq_lengths := l, mq_priorities := p, mq_max_msgs := n, mq_msg_size := sz,
      mq_handle := h', mq_owns_buffers := ow\<rparr>"
    define s0 where "s0 = k_write l (replicate (unat n * 4) 0) (s\<lparr>k_obj := os\<rparr>)"
    define s2 where "s2 = set_mq i q (if p \<noteq> 0 then k_write p (replicate (unat n * 4) 0) s0 else s0)"
    obtain s3 where s3: "on_ls (list_init_head (MqSend i)) s2 = Some s3" "on_ls (list_init_head (MqRecv i)) s3 = Some s1" "h = h'"
    proof -
      have "mq_create_common n sz b l p ow s =
          do { s \<leftarrow> on_ls (list_init_head (MqSend i)) s2; s \<leftarrow> on_ls (list_init_head (MqRecv i)) s; Some (h', s) }"
        unfolding mq_create_common_def if_not_P[OF g] i option.case claimed(1) Option.bind.bind_lunit prod.case if_not_P[OF claimed(2)]
        by (simp add: claimed(4) q_def s0_def s2_def)
      then show thesis using c(1) that by (auto split: Option.bind_splits)
    qed
    have e: "s1 = s2\<lparr>k_ls := k_ls s1\<rparr>" by (subst on_ls_init_head[OF s3(2)], subst on_ls_init_head[OF s3(1)]) simp
    have f: "k_obj s1 = os" "mq_pool s1 = (mq_pool s)[i := q]" "k_isr s1 = k_isr s" by (subst e, simp add: s2_def s0_def k_write_def set_mq_def)+
    have "mq_from_handle h s1 = Some i" using claimed(6)[OF f(1), of h AIXOS_OBJ_MQ] s3(3) by (simp add: from_handle_lookup)
    moreover have "mq_ring q" using a by (simp add: mq_arrays_ok_def mq_ring_def q_def zero_mq_def)
    moreover have "mq_fit q s1" by (simp add: mq_fit_def q_def zero_mq_def)
    ultimately have "mq_inv h i n sz (p \<noteq> 0) s1" using k1 g f len by (simp add: mq_inv_def in_isr_def) (simp add: q_def)
    moreover have "mq_abs i s1 = []" using f len by (simp add: mq_abs_def mq_msgs_def q_def zero_mq_def)
    ultimately show ?thesis by blast
  qed
qed

text \<open>C32. A message queue is a bounded priority queue, first-in first-out among equal priorities: for every queue
  created over arrays that fit the address space and do not overlap (what the heap promises for a
  dynamic queue), and for every sequence of sends and receives without waiting, each call returns what the
  same call returns on an initially empty list of messages into which a send inserts behind the
  messages of the same or a higher priority and from which a receive takes the first, error results and
  truncation included, although the messages live in a ring whose cells are shifted in memory.\<close>

theorem mq_is_priority_queue:
  assumes "reach s" "mq_create_common n sz b l p ow s = Some (h, s1)" "h \<noteq> AIXOS_HANDLE_INVALID" "mq_arrays_ok n sz b l p"
  shows "\<exists>s'. run_calls (mq_step h) cs s1 = Some (fst (run_spec (msg_queue (unat n) (unat sz) (p \<noteq> 0)) cs []), s')"
proof -
  obtain i where i: "mq_inv h i n sz (p \<noteq> 0) s1" "mq_abs i s1 = []" using mq_created[OF reach_ok[OF assms(1)] assms(2-4)] by blast
  show ?thesis using mq.run_refines[OF i(1), of cs] i(2) by (auto simp: list_all_iff)
qed

text \<open>Three messages in a queue of two; the urgent one overtakes.\<close>

lemma mq_is_priority_queue_witness:
  "\<exists>s s1 h s'. demo_running s \<and> mq_create_common 2 4 0x20010000 0x20011000 0x20012000 False s = Some (h, s1) \<and>
    run_calls (mq_step h) [MqPut [1, 2] 1, MqPut [3, 4, 5] 7, MqPut [6] 9, MqGet 8, MqGet 1] s1 =
      Some ([(AIXOS_OK, rx_nothing), (AIXOS_OK, rx_nothing), (AIXOS_ERR_BUSY, rx_nothing),
        (AIXOS_OK, \<lparr>rx_size = Some 3, rx_bytes = [3, 4, 5], rx_priority = 7\<rparr>),
        (AIXOS_ERR_OVERFLOW, rx_nothing\<lparr>rx_size := Some 2\<rparr>)], s')"
proof -
  obtain s where d: "demo_running s" using demo_running_exists ..
  have p: "mq_pool s = replicate AIXOS_CFG_MAX_MQ zero_mq" using d by (simp add: demo_running_def pools_def zero_pools_def)
  obtain j os h where c: "k_slot_alloc AIXOS_POOL_MQ (KMq 0) s = Some (j, s\<lparr>k_obj := os\<rparr>)" "\<not> j < 0" "aixos_slot_handle AIXOS_POOL_MQ j os = h"
    "h \<noteq> AIXOS_HANDLE_INVALID"
    by (rule demo_claim_valid[OF d, of AIXOS_OBJ_MQ AIXOS_POOL_MQ "KMq 0"]) (simp_all add: type_to_pool_id_def)
  have "\<exists>s1. mq_create_common 2 4 0x20010000 0x20011000 0x20012000 False s = Some (h, s1)"
    using demo_reach(3)[OF d] c(1-3) find_index_replicate[of AIXOS_CFG_MAX_MQ "\<lambda>x. mq_handle x = 0" zero_mq] demo_unset[OF d, of "MqSend 0"] demo_unset[OF d, of "MqRecv 0"]
    by (simp add: mq_create_common_def mq_sizes_bad_def p zero_mq_def on_ls_def list_init_head_def set_mq_def k_write_def word_less_nat_alt unat_div del: replicate.simps)
  then obtain s1 where s1: "mq_create_common 2 4 0x20010000 0x20011000 0x20012000 False s = Some (h, s1)" ..
  have a: "mq_arrays_ok 2 4 0x20010000 0x20011000 0x20012000" by (simp add: mq_arrays_ok_def mq_ring_def zero_mq_def apart_def)
  let ?cs = "[MqPut [1, 2] 1, MqPut [3, 4, 5] 7, MqPut [6] 9, MqGet 8, MqGet 1]"
  have o: "fst (run_spec (msg_queue (unat (2 :: u32)) (unat (4 :: u32)) ((0x20012000 :: u32) \<noteq> 0)) ?cs []) =
    [(AIXOS_OK, rx_nothing), (AIXOS_OK, rx_nothing), (AIXOS_ERR_BUSY, rx_nothing),
        (AIXOS_OK, \<lparr>rx_size = Some 3, rx_bytes = [3, 4, 5], rx_priority = 7\<rparr>),
        (AIXOS_ERR_OVERFLOW, rx_nothing\<lparr>rx_size := Some 2\<rparr>)]" by (simp add: Let_def insert_msg_def word_le_nat_alt)
  show ?thesis using mq_is_priority_queue[OF demo_reach(1)[OF d] s1 c(4) a, of ?cs] d s1 unfolding o by blast
qed

end
