(* ===== verification/Spec2Isabelle.thy ===== *)
theory Spec2Isabelle
  imports Handles Mempool CString Trace Isr Crash Kheap_Props Syscall Kobj Ktimer Ktask Kswitch Klife Kboot Kreach Kdemo Kprops Kring Kqueue
begin

text \<open>
  AIXOS, a small real-time kernel in C: a model of its kernel sources.
\<close>

end
